(* ===== verification/InitraOS_Prelude.thy ===== *)
theory InitraOS_Prelude
  imports Main "HOL-Library.Word"
begin

unbundle bit_operations_syntax

section \<open>Shared types, collections and generic lemmas\<close>

text \<open>
  The types every component uses, the collections of simplification rules of
  the development and the generic facts on words, byte lists, bitmaps and C
  strings that carry the component proofs.

  Conventions of the whole development.
  \<^item> \<open>unsigned int\<close> is \<open>u32\<close> and \<open>unsigned char\<close> is \<open>u8\<close>: arithmetic wraps as
    in the C code, which is built for a 32-bit target.
  \<^item> A pointer parameter that the code compares with 0 is an \<open>option\<close>: \<open>None\<close>
    is the NULL pointer and \<open>Some x\<close> a pointer to an object with value \<open>x\<close>.
    A parameter that is only written through (an output parameter) is a flag
    of type \<open>nonnull\<close>: whether the caller passed a non-NULL pointer; the value
    written through it is part of the result.
  \<^item> A function that changes nothing when it returns 0 has an \<open>option\<close> result:
    \<open>None\<close> is the return value 0. Where something changes on a failing path
    too, the result is a tuple with the return value first.
  \<^item> A C array is a list. A loop \<open>for (i = 0; i < n; i++)\<close> over an array is a
    recursion over its first \<open>n\<close> elements.
  \<^item> A C string is the list of its characters; reading at or beyond its end
    gives the terminating NUL.
\<close>

type_synonym u8 = "8 word"
type_synonym u32 = "32 word"
type_synonym nonnull = bool

text \<open>
  \<open>layout\<close> holds the unfoldings of struct-building definitions, \<open>frame\<close> the
  facts saying which fields an operation leaves alone.
\<close>

named_theorems layout
named_theorems frame

subsection \<open>Words\<close>

lemma unat_and_7 [simp]: "unat ((x :: u32) AND 7) = unat x mod 8"
proof -
  have "x AND 7 = x mod 8"
    using take_bit_eq_mask [of 3 x] take_bit_eq_mod [of 3 x]
    by (simp add: mask_numeral)
  then show ?thesis
    by (simp add: unat_mod_distrib)
qed

lemma unat_drop_bit_3 [simp]: "unat (drop_bit 3 (x :: u32)) = unat x div 8"
  by (simp add: drop_bit_eq_div unat_div_distrib)

lemma unat_minus_le: "(b :: 'a :: len word) \<le> a \<Longrightarrow> unat (a - b) = unat a - unat b"
  by (simp add: unat_sub)

lemma unat_eq_iff: "unat (a :: 'a :: len word) = unat b \<longleftrightarrow> a = b"
  by (simp add: word_unat_eq_iff)

lemma unat_plus_1: "(a :: 'a :: len word) < b \<Longrightarrow> unat (a + 1) = Suc (unat a)"
proof -
  assume "a < b"
  then have "unat a < unat b" by (simp add: word_less_nat_alt)
  moreover have "unat b < 2 ^ LENGTH('a)" by simp
  ultimately have "Suc (unat a) < 2 ^ LENGTH('a)" by linarith
  then show ?thesis by (simp add: unat_word_ariths)
qed

lemma unat_pred: "unat (a :: u32) = Suc n \<Longrightarrow> unat (a - 1) = n"
  using unat_minus_one [of a] by fastforce

lemma unat_minus_1: "(a :: 'a :: len word) \<noteq> 0 \<Longrightarrow> unat (a - 1) = unat a - 1"
  by (simp add: unat_minus_one)

lemma u32_bit_less: "bit (w :: u32) n \<Longrightarrow> n < 32"
  using bit_imp_le_length [of w n] by simp

lemma bit_u32_pow2:
  "bit (2 :: u32) n \<longleftrightarrow> n = 1" "bit (4 :: u32) n \<longleftrightarrow> n = 2"
  using bit_exp_iff [of 1 n, where 'a = u32] bit_exp_iff [of 2 n, where 'a = u32] by auto

lemma card_u32_less: "0 \<notin> F \<Longrightarrow> card (F :: u32 set) < 2 ^ 32"
proof -
  assume "0 \<notin> F"
  then have "F \<subset> UNIV" by auto
  then have "card F < CARD(u32)" by (intro psubset_card_mono) simp_all
  then show ?thesis by (simp add: card_word)
qed

lemma card_u32_between: "card {b :: u32. lo < b \<and> b < hi} = unat hi - unat lo - 1"
proof -
  have "unat ` {b :: u32. lo < b \<and> b < hi} = {Suc (unat lo)..<unat hi}"
  proof (intro equalityI subsetI)
    fix n assume n: "n \<in> {Suc (unat lo)..<unat hi}"
    moreover have "unat hi < 2 ^ 32" using unsigned_less [of hi] by simp
    ultimately have "unat (of_nat n :: u32) = n" by (simp add: unat_of_nat)
    with n show "n \<in> unat ` {b :: u32. lo < b \<and> b < hi}"
      by (intro image_eqI [of _ _ "of_nat n"]) (auto simp: word_less_nat_alt)
  qed (auto simp: word_less_nat_alt)
  then have "card (unat ` {b :: u32. lo < b \<and> b < hi}) = unat hi - unat lo - 1" by simp
  moreover have "inj_on unat {b :: u32. lo < b \<and> b < hi}" by (simp add: inj_on_def word_unat_eq_iff)
  ultimately show ?thesis by (simp add: card_image)
qed

lemma unat_add_1: "unat (a :: u32) < 2 ^ 32 - 1 \<Longrightarrow> unat (a + 1) = Suc (unat a)"
  by (simp add: unat_word_ariths)

text \<open>
  Multiplication by the FNV prime loses nothing: the prime is odd, and the
  second factor is its inverse modulo \<open>2 ^ 32\<close>.
\<close>

lemma fnv_prime_inverse: "(16777619 :: u32) * 899433627 = 1"
  by simp

lemma fnv_mult_inject: "(x :: u32) * 16777619 = y * 16777619 \<longleftrightarrow> x = y"
proof
  assume "x * 16777619 = y * 16777619"
  then have "x * (16777619 * 899433627) = y * (16777619 * 899433627)"
    by (simp only: mult.assoc [symmetric])
  then show "x = y" by (simp only: fnv_prime_inverse mult_1_right)
qed simp

lemma xor_left_inject: "(x :: 'a :: len word) XOR y = x XOR z \<longleftrightarrow> y = z"
  by (metis xor.assoc xor.left_neutral xor_self_eq)

lemma xor_right_inject: "(y :: 'a :: len word) XOR x = z XOR x \<longleftrightarrow> y = z"
  by (simp add: xor.commute [of _ x] xor_left_inject)

lemma ucast_u8_u32_inject: "(ucast (a :: u8) :: u32) = ucast b \<longleftrightarrow> a = b"
proof
  assume eq: "(ucast a :: u32) = ucast b"
  show "a = b"
  proof (rule bit_word_eqI)
    fix n assume "n < LENGTH(8)"
    moreover have "bit (ucast a :: u32) n = bit (ucast b :: u32) n" by (simp only: eq)
    ultimately show "bit a n = bit b n" by (simp add: bit_simps)
  qed
qed simp

lemma ucast_and_FF: "(ucast ((x :: u32) AND 0xFF) :: u8) = ucast x"
proof -
  have FF: "(0xFF :: u32) = mask 8" by (simp add: mask_numeral)
  show ?thesis unfolding FF
    by (rule bit_word_eqI) (simp add: bit_simps)
qed

subsection \<open>Little-endian byte images\<close>

definition u32_bytes :: "u32 \<Rightarrow> u8 list" where
  "u32_bytes x = [ucast x, ucast (drop_bit 8 x), ucast (drop_bit 16 x), ucast (drop_bit 24 x)]"

definition u32_of_bytes :: "u8 \<Rightarrow> u8 \<Rightarrow> u8 \<Rightarrow> u8 \<Rightarrow> u32" where
  "u32_of_bytes a b c d =
     ucast a OR push_bit 8 (ucast b) OR push_bit 16 (ucast c) OR push_bit 24 (ucast d)"

lemma length_u32_bytes [simp]: "length (u32_bytes x) = 4"
  by (simp add: u32_bytes_def)

lemma u32_of_bytes_bit:
  "bit (u32_of_bytes a b c d) n \<longleftrightarrow>
     (if n < 8 then bit a n else if n < 16 then bit b (n - 8)
      else if n < 24 then bit c (n - 16) else n < 32 \<and> bit d (n - 24))"
  by (auto simp: u32_of_bytes_def bit_simps dest: bit_imp_le_length)

lemma u32_of_bytes_u32_bytes [simp]:
  "u32_of_bytes (ucast x) (ucast (drop_bit 8 x)) (ucast (drop_bit 16 x)) (ucast (drop_bit 24 x)) = x"
  by (rule bit_word_eqI) (auto simp: u32_of_bytes_bit bit_simps)

lemma u32_of_bytes_inject:
  "u32_of_bytes a b c d = u32_of_bytes a' b' c' d' \<longleftrightarrow> a = a' \<and> b = b' \<and> c = c' \<and> d = d'"
proof
  assume eq: "u32_of_bytes a b c d = u32_of_bytes a' b' c' d'"
  have bits: "bit (u32_of_bytes a b c d) n = bit (u32_of_bytes a' b' c' d') n" for n
    by (simp only: eq)
  have "a = a'"
  proof (rule bit_word_eqI)
    fix n assume "n < LENGTH(8)" then show "bit a n = bit a' n"
      using bits [of n] by (simp add: u32_of_bytes_bit)
  qed
  moreover have "b = b'"
  proof (rule bit_word_eqI)
    fix n assume "n < LENGTH(8)" then show "bit b n = bit b' n"
      using bits [of "n + 8"] by (simp add: u32_of_bytes_bit)
  qed
  moreover have "c = c'"
  proof (rule bit_word_eqI)
    fix n assume "n < LENGTH(8)" then show "bit c n = bit c' n"
      using bits [of "n + 16"] by (simp add: u32_of_bytes_bit)
  qed
  moreover have "d = d'"
  proof (rule bit_word_eqI)
    fix n assume "n < LENGTH(8)" then show "bit d n = bit d' n"
      using bits [of "n + 24"] by (simp add: u32_of_bytes_bit)
  qed
  ultimately show "a = a' \<and> b = b' \<and> c = c' \<and> d = d'" by simp
qed simp

lemma replicate_4: "replicate 4 x = [x, x, x, x]"
  by (simp add: numeral_eq_Suc)

lemma takeWhile_shorter: "\<exists>x \<in> set xs. \<not> P x \<Longrightarrow> length (takeWhile P xs) < length xs"
  by (induction xs) auto

lemma map_of_filter_key:
  "map_of (map (\<lambda>x. (f x, x)) (filter (\<lambda>x. f x \<noteq> n) xs)) = (map_of (map (\<lambda>x. (f x, x)) xs))(n := None)"
  by (induction xs) (auto simp: fun_eq_iff)

lemma upt_split: "i \<le> j \<Longrightarrow> j \<le> k \<Longrightarrow> [i..<k] = [i..<j] @ [j..<k]"
  using upt_add_eq_append [of i j "k - j"] by simp

text \<open>Copying \<open>ys\<close> over \<open>xs\<close> from position \<open>i\<close> on, as the byte-copy loops do.\<close>

definition blit :: "'a list \<Rightarrow> nat \<Rightarrow> 'a list \<Rightarrow> 'a list" where
  "blit xs i ys = take i xs @ ys @ drop (i + length ys) xs"

lemma length_blit [simp]: "i + length ys \<le> length xs \<Longrightarrow> length (blit xs i ys) = length xs"
  by (simp add: blit_def)

lemma nth_blit:
  "i + length ys \<le> length xs \<Longrightarrow> k < length xs \<Longrightarrow>
   blit xs i ys ! k = (if i \<le> k \<and> k < i + length ys then ys ! (k - i) else xs ! k)"
  by (auto simp: blit_def nth_append)

text \<open>Past the end of \<open>xs\<close> the copy extends the list.\<close>

lemma length_blit_extend: "i \<le> length xs \<Longrightarrow> length (blit xs i ys) = max (length xs) (i + length ys)"
  by (auto simp: blit_def)

lemma nth_blit_extend:
  "i \<le> length xs \<Longrightarrow> k < length (blit xs i ys) \<Longrightarrow>
   blit xs i ys ! k = (if i \<le> k \<and> k < i + length ys then ys ! (k - i) else xs ! k)"
  by (auto simp: blit_def nth_append not_less)

lemma blit_Nil [simp]: "blit xs i [] = xs"
  by (simp add: blit_def)

lemma blit_blit:
  "i + length ys + length zs \<le> length xs \<Longrightarrow>
   blit (blit xs i ys) (i + length ys) zs = blit xs i (ys @ zs)"
  by (simp add: blit_def ac_simps)

lemma blit_all: "length ys = length xs \<Longrightarrow> blit xs 0 ys = ys"
  by (simp add: blit_def)

subsection \<open>Bitmaps\<close>

text \<open>
  Bit \<open>i\<close> of a bitmap stored as an array of bytes, and the effect of the
  masked byte updates of the source on it.
\<close>

definition bitmap_bit :: "u8 list \<Rightarrow> nat \<Rightarrow> bool" where
  "bitmap_bit bm i \<longleftrightarrow> bit (bm ! (i div 8)) (i mod 8)"

lemma ucast_push_bit_1: "k < 8 \<Longrightarrow> (ucast ((2 :: u32) ^ k) :: u8) = 2 ^ k"
  by (rule bit_word_eqI) (simp add: bit_simps)

lemma bitmap_test:
  "((bm ! (i div 8)) AND 2 ^ (i mod 8) \<noteq> 0) \<longleftrightarrow> bitmap_bit bm i"
  using bit_iff_and_push_bit_not_eq_0 [of "bm ! (i div 8)" "i mod 8"]
  by (simp add: bitmap_bit_def)

lemma bitmap_bit_set:
  assumes "i div 8 < length bm"
  shows "bitmap_bit (bm[i div 8 := (bm ! (i div 8)) OR 2 ^ (i mod 8)]) j
           \<longleftrightarrow> j = i \<or> bitmap_bit bm j"
proof (cases "j div 8 = i div 8")
  case True
  then have "j = i \<longleftrightarrow> j mod 8 = i mod 8" by (metis mod_div_decomp)
  with True assms show ?thesis
    by (auto simp: bitmap_bit_def bit_simps)
next
  case False
  then show ?thesis by (auto simp: bitmap_bit_def)
qed

lemma bitmap_bit_clear:
  assumes "i div 8 < length bm"
  shows "bitmap_bit (bm[i div 8 := (bm ! (i div 8)) AND NOT (2 ^ (i mod 8))]) j
           \<longleftrightarrow> j \<noteq> i \<and> bitmap_bit bm j"
proof (cases "j div 8 = i div 8")
  case True
  then have "j = i \<longleftrightarrow> j mod 8 = i mod 8" by (metis mod_div_decomp)
  with True assms show ?thesis
    by (auto simp: bitmap_bit_def bit_simps)
next
  case False
  then show ?thesis by (auto simp: bitmap_bit_def)
qed

lemma bitmap_bit_zero: "i div 8 < n \<Longrightarrow> \<not> bitmap_bit (replicate n 0 @ bm) i"
  by (simp add: bitmap_bit_def nth_append)

subsection \<open>C strings\<close>

text \<open>Reading a character of a C string: the NUL terminator stands at its end.\<close>

definition cstr_at :: "string \<Rightarrow> nat \<Rightarrow> char" where
  "cstr_at s i = (if i < length s then s ! i else CHR 0x00)"

lemma cstr_at_Cons_0 [simp]: "cstr_at (c # s) 0 = c"
  by (simp add: cstr_at_def)

lemma cstr_at_Cons_Suc [simp]: "cstr_at (c # s) (Suc i) = cstr_at s i"
  by (simp add: cstr_at_def)

lemma cstr_at_Nil [simp]: "cstr_at [] i = CHR 0x00"
  by (simp add: cstr_at_def)

lemma cstr_at_nth: "i < length s \<Longrightarrow> cstr_at s i = s ! i"
  by (simp add: cstr_at_def)

lemma map_cstr_at: "map (cstr_at s) [0..<length s] = s"
proof -
  have "map (cstr_at s) [0..<length s] = map ((!) s) [0..<length s]"
    by (rule map_cong) (simp_all add: cstr_at_def)
  then show ?thesis by (simp add: map_nth)
qed

subsection \<open>Searching a table\<close>

text \<open>The first index from \<open>index\<close> on whose element satisfies \<open>P\<close>: the search loops.\<close>

fun find_slot :: "('a \<Rightarrow> bool) \<Rightarrow> 'a list \<Rightarrow> nat \<Rightarrow> nat option" where
  "find_slot P [] index = None"
| "find_slot P (x # xs) index = (if P x then Some index else find_slot P xs (Suc index))"

lemma find_slot_from:
  "find_slot P xs k = Some i \<Longrightarrow> \<exists>j < length xs. i = k + j \<and> P (xs ! j) \<and> (\<forall>m < j. \<not> P (xs ! m))"
proof (induction xs arbitrary: k)
  case (Cons x xs)
  show ?case
  proof (cases "P x")
    case True
    with Cons.prems show ?thesis by (intro exI [of _ 0]) simp
  next
    case False
    with Cons.prems Cons.IH [of "Suc k"] obtain j where "j < length xs" "i = Suc k + j" "P (xs ! j)"
      "\<forall>m < j. \<not> P (xs ! m)" by auto
    with False show ?thesis by (intro exI [of _ "Suc j"]) (auto simp: nth_Cons split: nat.splits)
  qed
qed simp

lemma find_slot_Some:
  "find_slot P xs 0 = Some i \<Longrightarrow> i < length xs \<and> P (xs ! i) \<and> (\<forall>m < i. \<not> P (xs ! m))"
  using find_slot_from [of P xs 0 i] by auto

lemma find_slot_None: "find_slot P xs k = None \<longleftrightarrow> (\<forall>x \<in> set xs. \<not> P x)"
  by (induction xs arbitrary: k) auto

end
