(* ===== verification/Fs_Format.thy ===== *)
theory Fs_Format
  imports InitraOS_Prelude
begin

section \<open>On-disk and in-memory data of InitraFS\<close>

text \<open>
  The constants and structures of \<open>fs/format.h\<close>, \<open>fs/initrafs.h\<close>,
  \<open>fs/fs.h\<close>, \<open>fs/inode.h\<close>, \<open>fs/block.h\<close> and \<open>fs/file.h\<close>, and the byte image
  of the packed on-disk inode, which the integrity checksum runs over.
\<close>

subsection \<open>Constants\<close>

definition INITRAFS_MAGIC :: u32 where [simp]: "INITRAFS_MAGIC = 0x494E4653"
definition INITRAFS_VERSION :: u32 where [simp]: "INITRAFS_VERSION = 1"
definition INITRAFS_BLOCK_SIZE :: u32 where [simp]: "INITRAFS_BLOCK_SIZE = 512"
definition INITRAFS_SUPERBLOCK_BLOCK :: u32 where [simp]: "INITRAFS_SUPERBLOCK_BLOCK = 0"
definition INITRAFS_UNUSED_INODE :: u32 where [simp]: "INITRAFS_UNUSED_INODE = 0"
definition INITRAFS_ROOT_INODE :: u32 where [simp]: "INITRAFS_ROOT_INODE = 1"
definition INITRAFS_MAX_NAME_LENGTH :: u32 where [simp]: "INITRAFS_MAX_NAME_LENGTH = 48"

definition INITRAFS_TYPE_UNKNOWN :: u32 where [simp]: "INITRAFS_TYPE_UNKNOWN = 0"
definition INITRAFS_TYPE_FILE :: u32 where [simp]: "INITRAFS_TYPE_FILE = 1"
definition INITRAFS_TYPE_DIRECTORY :: u32 where [simp]: "INITRAFS_TYPE_DIRECTORY = 2"
definition INITRAFS_TYPE_SYMLINK :: u32 where [simp]: "INITRAFS_TYPE_SYMLINK = 3"
definition INITRAFS_TYPE_DEVICE :: u32 where [simp]: "INITRAFS_TYPE_DEVICE = 4"

definition INITRAFS_FLAG_CLEAN :: u32 where [simp]: "INITRAFS_FLAG_CLEAN = 1"
definition INITRAFS_FLAG_READONLY :: u32 where [simp]: "INITRAFS_FLAG_READONLY = 2"
definition INITRAFS_INODE_FLAG_SYSTEM_PROTECTED :: u32 where
  [simp]: "INITRAFS_INODE_FLAG_SYSTEM_PROTECTED = 1"
definition INITRAFS_INODE_INTEGRITY_BYTES :: u32 where
  [simp]: "INITRAFS_INODE_INTEGRITY_BYTES = 4"

text \<open>The \<open>enum inode_type\<close> of \<open>fs/inode.h\<close>, stored in \<open>unsigned int\<close> fields.\<close>

definition INODE_TYPE_UNKNOWN :: u32 where [simp]: "INODE_TYPE_UNKNOWN = 0"
definition INODE_TYPE_FILE :: u32 where [simp]: "INODE_TYPE_FILE = 1"
definition INODE_TYPE_DIRECTORY :: u32 where [simp]: "INODE_TYPE_DIRECTORY = 2"
definition INODE_TYPE_SYMLINK :: u32 where [simp]: "INODE_TYPE_SYMLINK = 3"
definition INODE_TYPE_DEVICE :: u32 where [simp]: "INODE_TYPE_DEVICE = 4"

definition INITRAFS_DEFAULT_INODE_COUNT :: u32 where [simp]: "INITRAFS_DEFAULT_INODE_COUNT = 128"
definition INITRAFS_ROOT_MODE :: u32 where
  [simp]: "INITRAFS_ROOT_MODE = 0x1ED" \<comment> \<open>octal 0755\<close>
definition INITRAFS_ROOT_LINK_COUNT :: u32 where [simp]: "INITRAFS_ROOT_LINK_COUNT = 2"
definition INITRAFS_ROOT_DIR_ENTRIES :: u32 where [simp]: "INITRAFS_ROOT_DIR_ENTRIES = 2"

definition INITRAFS_PERMISSION_READ :: u32 where [simp]: "INITRAFS_PERMISSION_READ = 1"
definition INITRAFS_PERMISSION_WRITE :: u32 where [simp]: "INITRAFS_PERMISSION_WRITE = 2"
definition INITRAFS_PERMISSION_EXECUTE :: u32 where [simp]: "INITRAFS_PERMISSION_EXECUTE = 4"

text \<open>\<open>sizeof\<close> of the packed on-disk structures.\<close>

definition sizeof_disk_inode :: u32 where [simp]: "sizeof_disk_inode = 92"
definition sizeof_disk_dirent :: u32 where [simp]: "sizeof_disk_dirent = 60"

subsection \<open>Structures\<close>

record initrafs_superblock_t =
  sb_magic :: u32
  sb_version :: u32
  sb_block_size :: u32
  sb_total_blocks :: u32
  sb_inode_count :: u32
  sb_free_block_count :: u32
  sb_inode_table_start :: u32
  sb_inode_table_blocks :: u32
  sb_data_start :: u32
  sb_root_inode :: u32
  sb_filesystem_flags :: u32

record initrafs_disk_inode_t =
  di_inode_number :: u32
  di_type :: u32
  di_mode :: u32
  di_flags :: u32
  di_size :: u32
  di_owner :: u32
  di_group :: u32
  di_link_count :: u32
  di_created_time :: u32
  di_modified_time :: u32
  di_accessed_time :: u32
  di_direct_blocks :: "u32 list"
  di_indirect_block :: u32
  di_reserved :: "u8 list"

record initrafs_disk_dirent_t =
  de_inode_number :: u32
  de_type :: u32
  de_name_length :: u32
  de_name :: string

record fs_inode =
  fi_inode_number :: u32
  fi_type :: u32
  fi_mode :: u32
  fi_flags :: u32
  fi_size :: u32
  fi_owner :: u32
  fi_group :: u32
  fi_link_count :: u32
  fi_created_time :: u32
  fi_modified_time :: u32
  fi_accessed_time :: u32
  fi_filesystem_private :: u32

text \<open>
  A block device: its geometry and private data, the state its functions work
  on, and the read and write functions themselves (\<open>None\<close> for a NULL function
  pointer), which get the device they are called on. A read gives the block's
  contents or fails; a write gives its return value and the device's new
  private data, on failure too.
\<close>

record 'd block_device_base =
  bd_block_size :: u32
  bd_block_count :: u32
  bd_private_data :: 'd

record 'd block_device = "'d block_device_base" +
  bd_read :: "('d block_device_base \<Rightarrow> u32 \<Rightarrow> u8 list option) option"
  bd_write :: "('d block_device_base \<Rightarrow> u32 \<Rightarrow> u8 list \<Rightarrow> bool \<times> 'd) option"

subsection \<open>Zeroed structures\<close>

text \<open>What \<open>initrafs_zero_bytes\<close> over \<open>sizeof\<close> of a structure leaves behind.\<close>

definition zero_disk_inode :: initrafs_disk_inode_t where
  [layout]: "zero_disk_inode =
    \<lparr>di_inode_number = 0, di_type = 0, di_mode = 0, di_flags = 0, di_size = 0, di_owner = 0,
     di_group = 0, di_link_count = 0, di_created_time = 0, di_modified_time = 0,
     di_accessed_time = 0, di_direct_blocks = replicate 8 0, di_indirect_block = 0,
     di_reserved = replicate 12 0\<rparr>"

definition zero_dirent :: initrafs_disk_dirent_t where
  [layout]: "zero_dirent =
    \<lparr>de_inode_number = 0, de_type = 0, de_name_length = 0, de_name = replicate 48 (CHR 0x00)\<rparr>"

definition zero_fs_inode :: fs_inode where
  [layout]: "zero_fs_inode =
    \<lparr>fi_inode_number = 0, fi_type = 0, fi_mode = 0, fi_flags = 0, fi_size = 0, fi_owner = 0,
     fi_group = 0, fi_link_count = 0, fi_created_time = 0, fi_modified_time = 0,
     fi_accessed_time = 0, fi_filesystem_private = 0\<rparr>"

text \<open>\<open>initrafs_zero_bytes\<close> over a byte array: the first \<open>n\<close> bytes become 0.\<close>

definition initrafs_zero_bytes :: "u8 list \<Rightarrow> u32 \<Rightarrow> u8 list" where
  "initrafs_zero_bytes address n = replicate (unat n) 0 @ drop (unat n) address"

text \<open>\<open>initrafs_copy_name\<close>: the first \<open>len\<close> characters of \<open>source\<close> replace
  those of \<open>destination\<close>.\<close>

definition initrafs_copy_name :: "string \<Rightarrow> string \<Rightarrow> u32 \<Rightarrow> string" where
  "initrafs_copy_name destination source len =
     map (cstr_at source) [0..<unat len] @ drop (unat len) destination"

subsection \<open>Byte image of the on-disk inode\<close>

text \<open>
  The structure is packed and little-endian: the eleven scalar fields, the
  eight direct block numbers, the indirect block number and the reserved area.
\<close>

definition disk_inode_words :: "initrafs_disk_inode_t \<Rightarrow> u32 list" where
  "disk_inode_words d =
     [di_inode_number d, di_type d, di_mode d, di_flags d, di_size d, di_owner d, di_group d,
      di_link_count d, di_created_time d, di_modified_time d, di_accessed_time d]
     @ di_direct_blocks d @ [di_indirect_block d]"

definition disk_inode_bytes :: "initrafs_disk_inode_t \<Rightarrow> u8 list" where
  "disk_inode_bytes d = concat (map u32_bytes (disk_inode_words d)) @ di_reserved d"

text \<open>The array bounds the C types fix.\<close>

definition wf_disk_inode :: "initrafs_disk_inode_t \<Rightarrow> bool" where
  "wf_disk_inode d \<longleftrightarrow> length (di_direct_blocks d) = 8 \<and> length (di_reserved d) = 12"

definition wf_dirent :: "initrafs_disk_dirent_t \<Rightarrow> bool" where
  "wf_dirent e \<longleftrightarrow> length (de_name e) = 48"

lemma wf_zero_disk_inode [simp]: "wf_disk_inode zero_disk_inode"
  by (simp add: wf_disk_inode_def zero_disk_inode_def)

lemma wf_zero_dirent [simp]: "wf_dirent zero_dirent"
  by (simp add: wf_dirent_def zero_dirent_def)

lemma length_concat_u32_bytes: "length (concat (map u32_bytes ws)) = 4 * length ws"
  by (induction ws) simp_all

lemma length_disk_inode_bytes:
  "wf_disk_inode d \<Longrightarrow> length (disk_inode_bytes d) = unat sizeof_disk_inode"
  by (simp add: disk_inode_bytes_def disk_inode_words_def wf_disk_inode_def length_concat_u32_bytes)

lemma length_initrafs_copy_name:
  "unat len \<le> length dst \<Longrightarrow> length (initrafs_copy_name dst src len) = length dst"
  by (simp add: initrafs_copy_name_def)

end
