(* ===== verification/Inode_Integrity.thy ===== *)
theory Inode_Integrity
  imports Fs_Format
begin

section \<open>Metadata integrity of on-disk inodes\<close>

text \<open>
  The FNV-1a checksum of \<open>fs/initrafs.c\<close> over the 92 bytes of an on-disk inode,
  stored little-endian in the first four bytes of the reserved area
  (\<open>initrafs_inode_integrity_checksum\<close>, \<open>_update\<close>, \<open>_verify\<close>), and what it
  guarantees: an updated inode verifies, and no change of a single byte of an
  inode that verifies goes unnoticed.
\<close>

subsection \<open>The source's functions\<close>

text \<open>The loops that clear the first \<open>INITRAFS_INODE_INTEGRITY_BYTES\<close> reserved bytes.\<close>

definition clear_integrity_bytes :: "initrafs_disk_inode_t \<Rightarrow> initrafs_disk_inode_t" where
  "clear_integrity_bytes d =
     d\<lparr>di_reserved := initrafs_zero_bytes (di_reserved d) INITRAFS_INODE_INTEGRITY_BYTES\<rparr>"

definition fnv_step :: "u32 \<Rightarrow> u8 \<Rightarrow> u32" where
  "fnv_step hash byte = (hash XOR ucast byte) * 16777619"

definition initrafs_inode_integrity_checksum :: "initrafs_disk_inode_t option \<Rightarrow> u32" where
  "initrafs_inode_integrity_checksum inode =
     (case inode of
        None \<Rightarrow> 0
      | Some d \<Rightarrow> foldl fnv_step 2166136261 (disk_inode_bytes (clear_integrity_bytes d)))"

definition initrafs_inode_integrity_update :: "initrafs_disk_inode_t \<Rightarrow> initrafs_disk_inode_t" where
  "initrafs_inode_integrity_update d =
     (let d0 = clear_integrity_bytes d;
          checksum = initrafs_inode_integrity_checksum (Some d0)
      in d0\<lparr>di_reserved := (di_reserved d0)
              [0 := ucast (checksum AND 0xFF),
               1 := ucast (drop_bit 8 checksum AND 0xFF),
               2 := ucast (drop_bit 16 checksum AND 0xFF),
               3 := ucast (drop_bit 24 checksum AND 0xFF)]\<rparr>)"

definition stored_checksum :: "initrafs_disk_inode_t \<Rightarrow> u32" where
  "stored_checksum d =
     u32_of_bytes (di_reserved d ! 0) (di_reserved d ! 1) (di_reserved d ! 2) (di_reserved d ! 3)"

definition initrafs_inode_integrity_verify :: "initrafs_disk_inode_t option \<Rightarrow> bool" where
  "initrafs_inode_integrity_verify inode =
     (case inode of
        None \<Rightarrow> False
      | Some d \<Rightarrow> stored_checksum d = initrafs_inode_integrity_checksum (Some d))"

subsection \<open>Frame facts\<close>

lemma integrity_update_fields [simp, frame]:
  "di_inode_number (initrafs_inode_integrity_update d) = di_inode_number d"
  "di_type (initrafs_inode_integrity_update d) = di_type d"
  "di_mode (initrafs_inode_integrity_update d) = di_mode d"
  "di_flags (initrafs_inode_integrity_update d) = di_flags d"
  "di_size (initrafs_inode_integrity_update d) = di_size d"
  "di_owner (initrafs_inode_integrity_update d) = di_owner d"
  "di_group (initrafs_inode_integrity_update d) = di_group d"
  "di_link_count (initrafs_inode_integrity_update d) = di_link_count d"
  "di_created_time (initrafs_inode_integrity_update d) = di_created_time d"
  "di_modified_time (initrafs_inode_integrity_update d) = di_modified_time d"
  "di_accessed_time (initrafs_inode_integrity_update d) = di_accessed_time d"
  "di_direct_blocks (initrafs_inode_integrity_update d) = di_direct_blocks d"
  "di_indirect_block (initrafs_inode_integrity_update d) = di_indirect_block d"
  "drop 4 (di_reserved (initrafs_inode_integrity_update d)) = drop 4 (di_reserved d)"
  by (simp_all add: initrafs_inode_integrity_update_def clear_integrity_bytes_def
        initrafs_zero_bytes_def Let_def)

lemma clear_integrity_bytes_fields [simp]:
  "di_reserved (clear_integrity_bytes d) = [0, 0, 0, 0] @ drop 4 (di_reserved d)"
  "disk_inode_words (clear_integrity_bytes d) = disk_inode_words d"
  by (simp_all add: clear_integrity_bytes_def initrafs_zero_bytes_def disk_inode_words_def
        replicate_4)

lemma integrity_update_words [simp]:
  "disk_inode_words (initrafs_inode_integrity_update d) = disk_inode_words d"
  by (simp add: disk_inode_words_def)

lemma clear_integrity_bytes_bytes:
  "disk_inode_bytes (clear_integrity_bytes d) =
     concat (map u32_bytes (disk_inode_words d)) @ [0, 0, 0, 0] @ drop 4 (di_reserved d)"
  by (simp add: disk_inode_bytes_def)

lemma wf_integrity_update [simp, intro]:
  "wf_disk_inode d \<Longrightarrow> wf_disk_inode (initrafs_inode_integrity_update d)"
  by (simp add: wf_disk_inode_def initrafs_inode_integrity_update_def Let_def
        clear_integrity_bytes_def initrafs_zero_bytes_def)

lemma checksum_cong:
  "disk_inode_words d = disk_inode_words d' \<Longrightarrow> drop 4 (di_reserved d) = drop 4 (di_reserved d') \<Longrightarrow>
   initrafs_inode_integrity_checksum (Some d) = initrafs_inode_integrity_checksum (Some d')"
  by (simp add: initrafs_inode_integrity_checksum_def clear_integrity_bytes_bytes)

subsection \<open>An updated inode verifies\<close>

lemma stored_checksum_update:
  "stored_checksum (initrafs_inode_integrity_update d) = initrafs_inode_integrity_checksum (Some d)"
proof -
  have "initrafs_inode_integrity_checksum (Some (clear_integrity_bytes d))
          = initrafs_inode_integrity_checksum (Some d)"
    by (rule checksum_cong) simp_all
  then show ?thesis
    by (simp add: stored_checksum_def initrafs_inode_integrity_update_def Let_def ucast_and_FF)
qed

lemma verify_update [simp]:
  "initrafs_inode_integrity_verify (Some (initrafs_inode_integrity_update d))"
proof -
  have "initrafs_inode_integrity_checksum (Some (initrafs_inode_integrity_update d))
          = initrafs_inode_integrity_checksum (Some d)"
    by (rule checksum_cong) simp_all
  then show ?thesis
    by (simp add: initrafs_inode_integrity_verify_def stored_checksum_update)
qed

text \<open>
  The checksum determines its own four bytes: two inodes that verify and agree
  on everything else are equal.
\<close>

lemma list_take_4: "4 \<le> length xs \<Longrightarrow> take 4 xs = [xs ! 0, xs ! 1, xs ! 2, xs ! 3]"
  by (rule nth_equalityI) (auto simp: nth_Cons less_Suc_eq_0_disj numeral_eq_Suc split: nat.splits)

lemma verified_inode_eqI:
  assumes "wf_disk_inode d" and "wf_disk_inode d'"
    and "initrafs_inode_integrity_verify (Some d)" and "initrafs_inode_integrity_verify (Some d')"
    and words: "disk_inode_words d = disk_inode_words d'"
    and rest: "drop 4 (di_reserved d) = drop 4 (di_reserved d')"
  shows "d = d'"
proof -
  have "stored_checksum d = stored_checksum d'"
    using assms(3,4) checksum_cong [OF words rest] by (simp add: initrafs_inode_integrity_verify_def)
  then have "take 4 (di_reserved d) = take 4 (di_reserved d')"
    using assms(1,2)
    by (simp add: stored_checksum_def u32_of_bytes_inject list_take_4 wf_disk_inode_def)
  with rest have "di_reserved d = di_reserved d'" by (metis append_take_drop_id)
  with words assms(1,2) show ?thesis
    by (cases d; cases d') (simp add: disk_inode_words_def wf_disk_inode_def)
qed

subsection \<open>A single changed byte is detected\<close>

text \<open>Each FNV-1a step is injective in the running hash and in the byte.\<close>

lemma fnv_step_hash_inject: "fnv_step h b = fnv_step h' b \<longleftrightarrow> h = h'"
  by (simp add: fnv_step_def fnv_mult_inject xor_right_inject)

lemma fnv_step_byte_inject: "fnv_step h b = fnv_step h b' \<longleftrightarrow> b = b'"
  by (simp add: fnv_step_def fnv_mult_inject xor_left_inject ucast_u8_u32_inject)

lemma foldl_fnv_inject: "foldl fnv_step h bs = foldl fnv_step h' bs \<longleftrightarrow> h = h'"
  by (induction bs arbitrary: h h') (simp_all add: fnv_step_hash_inject)

lemma foldl_fnv_update:
  "i < length bs \<Longrightarrow> foldl fnv_step h (bs[i := b]) = foldl fnv_step h bs \<longleftrightarrow> b = bs ! i"
proof (induction bs arbitrary: h i)
  case (Cons c bs)
  then show ?case
    by (cases i) (simp_all add: foldl_fnv_inject fnv_step_byte_inject)
qed simp

text \<open>The checksum and the stored checksum, read off the byte image.\<close>

definition checksum_input :: "u8 list \<Rightarrow> u8 list" where
  "checksum_input bs = take 80 bs @ replicate 4 0 @ drop 84 bs"

lemma wf_words_length: "wf_disk_inode d \<Longrightarrow> length (concat (map u32_bytes (disk_inode_words d))) = 80"
  by (simp add: wf_disk_inode_def length_concat_u32_bytes disk_inode_words_def)

lemma checksum_bytes:
  assumes "wf_disk_inode d"
  shows "initrafs_inode_integrity_checksum (Some d)
           = foldl fnv_step 2166136261 (checksum_input (disk_inode_bytes d))"
  using wf_words_length [OF assms]
  by (simp add: initrafs_inode_integrity_checksum_def clear_integrity_bytes_bytes checksum_input_def
        disk_inode_bytes_def replicate_4)

lemma stored_checksum_bytes:
  assumes "wf_disk_inode d"
  shows "stored_checksum d = (let bs = disk_inode_bytes d
           in u32_of_bytes (bs ! 80) (bs ! 81) (bs ! 82) (bs ! 83))"
  using wf_words_length [OF assms]
  by (simp add: stored_checksum_def disk_inode_bytes_def nth_append Let_def)

lemma checksum_input_update_inside:
  "i \<in> {80..<84} \<Longrightarrow> checksum_input (bs[i := b]) = checksum_input bs"
  by (simp add: checksum_input_def take_update_cancel drop_update_cancel)

lemma length_checksum_input: "84 \<le> length bs \<Longrightarrow> length (checksum_input bs) = length bs"
  by (simp add: checksum_input_def)

lemma nth_checksum_input:
  "84 \<le> length bs \<Longrightarrow> j < length bs \<Longrightarrow>
   checksum_input bs ! j = (if j \<in> {80..<84} then 0 else bs ! j)"
  by (auto simp: checksum_input_def nth_append)

lemma checksum_input_update_outside:
  assumes "i \<notin> {80..<84}" and "84 \<le> length bs"
  shows "checksum_input (bs[i := b]) = (checksum_input bs)[i := b]"
proof (rule nth_equalityI)
  fix j assume "j < length (checksum_input (bs[i := b]))"
  with assms have "j < length bs" by (simp add: length_checksum_input)
  with assms show "checksum_input (bs[i := b]) ! j = (checksum_input bs)[i := b] ! j"
    by (cases "j = i") (auto simp: nth_checksum_input length_checksum_input)
qed (use assms in \<open>simp add: length_checksum_input\<close>)

lemma verify_bytes:
  "wf_disk_inode d \<Longrightarrow> initrafs_inode_integrity_verify (Some d) \<longleftrightarrow>
     (let bs = disk_inode_bytes d in
      u32_of_bytes (bs ! 80) (bs ! 81) (bs ! 82) (bs ! 83)
        = foldl fnv_step 2166136261 (checksum_input bs))"
  by (simp add: initrafs_inode_integrity_verify_def stored_checksum_bytes checksum_bytes Let_def)

lemma single_byte_change_detected:
  assumes wf: "wf_disk_inode d" "wf_disk_inode d'"
    and ok: "initrafs_inode_integrity_verify (Some d)"
    and chg: "disk_inode_bytes d' = (disk_inode_bytes d)[i := b]"
    and i: "i < unat sizeof_disk_inode" and b: "b \<noteq> disk_inode_bytes d ! i"
  shows "\<not> initrafs_inode_integrity_verify (Some d')"
proof -
  define bs where "bs = disk_inode_bytes d"
  have len: "length bs = 92" using length_disk_inode_bytes [OF wf(1)] by (simp add: bs_def)
  have ok': "u32_of_bytes (bs ! 80) (bs ! 81) (bs ! 82) (bs ! 83)
               = foldl fnv_step 2166136261 (checksum_input bs)"
    using ok wf(1) by (simp add: verify_bytes bs_def Let_def)
  show ?thesis
  proof (cases "i \<in> {80..<84}")
    case True
    then have "i = 80 \<or> i = 81 \<or> i = 82 \<or> i = 83" by force
    with b len have "u32_of_bytes (bs[i := b] ! 80) (bs[i := b] ! 81) (bs[i := b] ! 82) (bs[i := b] ! 83)
          \<noteq> u32_of_bytes (bs ! 80) (bs ! 81) (bs ! 82) (bs ! 83)"
      unfolding bs_def [symmetric] by (auto simp: u32_of_bytes_inject)
    with ok' True chg wf(2) show ?thesis
      by (simp add: verify_bytes bs_def [symmetric] checksum_input_update_inside Let_def)
  next
    case False
    have "foldl fnv_step 2166136261 (checksum_input (bs[i := b]))
            \<noteq> foldl fnv_step 2166136261 (checksum_input bs)"
      using b i len False
      by (auto simp: checksum_input_update_outside foldl_fnv_update length_checksum_input
            nth_checksum_input bs_def [symmetric])
    moreover from False have "i \<noteq> 80" "i \<noteq> 81" "i \<noteq> 82" "i \<noteq> 83" by auto
    ultimately show ?thesis
      using ok' chg wf(2) by (simp add: verify_bytes bs_def [symmetric] Let_def)
  qed
qed

end
