(* ===== verification/Superblock.thy ===== *)
theory Superblock
  imports Inode_Integrity
begin

section \<open>Superblock and root inode\<close>

text \<open>
  \<open>initrafs_superblock_init\<close>, \<open>initrafs_superblock_validate\<close>,
  \<open>initrafs_root_inode_init\<close> and \<open>initrafs_inode_set_owner_group\<close> of
  \<open>fs/initrafs.c\<close>: the geometry of a volume (superblock, inode table, data
  area) and the inode of its root directory.
\<close>

definition default_inode_table_blocks :: u32 where
  "default_inode_table_blocks =
     (INITRAFS_DEFAULT_INODE_COUNT * sizeof_disk_inode + INITRAFS_BLOCK_SIZE - 1)
       div INITRAFS_BLOCK_SIZE"

definition initrafs_superblock_init ::
  "initrafs_superblock_t option \<Rightarrow> u32 \<Rightarrow> initrafs_superblock_t option" where
  "initrafs_superblock_init superblock total_blocks =
     (let inode_table_start = INITRAFS_SUPERBLOCK_BLOCK + 1;
          inode_table_blocks = default_inode_table_blocks;
          data_start = inode_table_start + inode_table_blocks
      in if superblock = None \<or> total_blocks \<le> data_start then None
         else Some
           \<lparr>sb_magic = INITRAFS_MAGIC,
            sb_version = INITRAFS_VERSION,
            sb_block_size = INITRAFS_BLOCK_SIZE,
            sb_total_blocks = total_blocks,
            sb_inode_count = INITRAFS_DEFAULT_INODE_COUNT,
            sb_free_block_count = total_blocks - data_start,
            sb_inode_table_start = inode_table_start,
            sb_inode_table_blocks = inode_table_blocks,
            sb_data_start = data_start,
            sb_root_inode = INITRAFS_ROOT_INODE,
            sb_filesystem_flags = INITRAFS_FLAG_CLEAN\<rparr>)"

definition initrafs_superblock_validate :: "initrafs_superblock_t option \<Rightarrow> bool" where
  "initrafs_superblock_validate superblock =
     (let expected_inode_table_blocks = default_inode_table_blocks;
          expected_data_start = INITRAFS_SUPERBLOCK_BLOCK + 1 + expected_inode_table_blocks
      in case superblock of
           None \<Rightarrow> False
         | Some sb \<Rightarrow>
             if sb_magic sb \<noteq> INITRAFS_MAGIC \<or> sb_version sb \<noteq> INITRAFS_VERSION \<or>
                sb_block_size sb \<noteq> INITRAFS_BLOCK_SIZE then False
             else if sb_inode_count sb \<noteq> INITRAFS_DEFAULT_INODE_COUNT \<or>
                sb_inode_table_start sb \<noteq> INITRAFS_SUPERBLOCK_BLOCK + 1 \<or>
                sb_inode_table_blocks sb \<noteq> expected_inode_table_blocks \<or>
                sb_data_start sb \<noteq> expected_data_start then False
             else if sb_total_blocks sb \<le> sb_data_start sb \<or>
                sb_root_inode sb \<noteq> INITRAFS_ROOT_INODE \<or>
                sb_free_block_count sb > sb_total_blocks sb - sb_data_start sb then False
             else if sb_filesystem_flags sb AND INITRAFS_FLAG_CLEAN = 0 then False
             else True)"

definition initrafs_root_inode_init ::
  "initrafs_disk_inode_t option \<Rightarrow> initrafs_superblock_t option \<Rightarrow> initrafs_disk_inode_t option" where
  "initrafs_root_inode_init inode superblock =
     (case (inode, superblock) of
        (Some _, Some sb) \<Rightarrow>
          if sb_root_inode sb \<noteq> INITRAFS_ROOT_INODE \<or> sb_data_start sb \<ge> sb_total_blocks sb
          then None
          else Some (initrafs_inode_integrity_update
            (zero_disk_inode
               \<lparr>di_inode_number := INITRAFS_ROOT_INODE,
                di_type := INITRAFS_TYPE_DIRECTORY,
                di_mode := INITRAFS_ROOT_MODE,
                di_flags := INITRAFS_INODE_FLAG_SYSTEM_PROTECTED,
                di_size := INITRAFS_ROOT_DIR_ENTRIES * sizeof_disk_dirent,
                di_owner := 0,
                di_group := 0,
                di_link_count := INITRAFS_ROOT_LINK_COUNT,
                di_direct_blocks := (di_direct_blocks zero_disk_inode)[0 := sb_data_start sb]\<rparr>))
      | _ \<Rightarrow> None)"

definition initrafs_inode_set_owner_group ::
  "initrafs_disk_inode_t option \<Rightarrow> u32 \<Rightarrow> u32 \<Rightarrow> initrafs_disk_inode_t option" where
  "initrafs_inode_set_owner_group inode owner grp =
     (case inode of
        None \<Rightarrow> None
      | Some d \<Rightarrow> Some (initrafs_inode_integrity_update (d\<lparr>di_owner := owner, di_group := grp\<rparr>)))"

subsection \<open>Geometry\<close>

lemma default_inode_table_blocks_eq [simp]: "default_inode_table_blocks = 23"
  by (simp add: default_inode_table_blocks_def)

lemma superblock_init_eq:
  "initrafs_superblock_init (Some sb) n =
     (if n \<le> 24 then None
      else Some \<lparr>sb_magic = INITRAFS_MAGIC, sb_version = 1, sb_block_size = 512,
                 sb_total_blocks = n, sb_inode_count = 128, sb_free_block_count = n - 24,
                 sb_inode_table_start = 1, sb_inode_table_blocks = 23, sb_data_start = 24,
                 sb_root_inode = 1, sb_filesystem_flags = 1\<rparr>)"
  by (simp add: initrafs_superblock_init_def Let_def)

lemma superblock_validate_iff:
  "initrafs_superblock_validate (Some sb) \<longleftrightarrow>
     sb_magic sb = INITRAFS_MAGIC \<and> sb_version sb = 1 \<and> sb_block_size sb = 512 \<and>
     sb_inode_count sb = 128 \<and> sb_inode_table_start sb = 1 \<and> sb_inode_table_blocks sb = 23 \<and>
     sb_data_start sb = 24 \<and> 24 < sb_total_blocks sb \<and> sb_root_inode sb = 1 \<and>
     sb_free_block_count sb \<le> sb_total_blocks sb - 24 \<and> sb_filesystem_flags sb AND 1 \<noteq> 0"
  by (auto simp: initrafs_superblock_validate_def Let_def not_le not_less)

text \<open>
  A superblock that validates describes disjoint, ordered regions: the
  inode table starts right behind the superblock, is large enough for every
  inode, ends where the data area starts, the data area is not empty, and the
  free count does not exceed it.
\<close>

theorem superblock_validate_geometry:
  assumes "initrafs_superblock_validate (Some sb)"
  shows "unat (sb_inode_table_start sb) + unat (sb_inode_table_blocks sb) = unat (sb_data_start sb) \<and>
         unat (sb_inode_count sb) * unat sizeof_disk_inode
           \<le> unat (sb_inode_table_blocks sb) * unat (sb_block_size sb) \<and>
         unat (sb_data_start sb) < unat (sb_total_blocks sb) \<and>
         unat (sb_data_start sb) + unat (sb_free_block_count sb) \<le> unat (sb_total_blocks sb)"
proof -
  note v = assms [unfolded superblock_validate_iff]
  then have lt: "unat (sb_data_start sb) < unat (sb_total_blocks sb)"
    by (simp add: word_less_nat_alt)
  have "unat (sb_free_block_count sb) \<le> unat (sb_total_blocks sb - 24)"
    using v by (simp add: word_le_nat_alt)
  also have "\<dots> = unat (sb_total_blocks sb) - 24"
    using v unat_minus_le [of 24 "sb_total_blocks sb"] by (simp add: less_imp_le)
  finally have "unat (sb_data_start sb) + unat (sb_free_block_count sb) \<le> unat (sb_total_blocks sb)"
    using v lt by simp
  with v lt show ?thesis by simp
qed

lemma superblock_init_validates:
  "initrafs_superblock_init (Some sb) n = Some sb' \<Longrightarrow> initrafs_superblock_validate (Some sb')"
  by (auto simp: superblock_init_eq superblock_validate_iff split: if_splits)

end
