(* ===== verification/Unit_Allocator.thy ===== *)
theory Unit_Allocator
  imports InitraOS_Prelude
begin

section \<open>Interfaces of bitmap-backed allocators\<close>

text \<open>
  The kernel has several allocators of numbered units over a bitmap (data
  blocks, inodes, page frames). They share two contracts, stated here as
  locales and interpreted on each allocator's own definitions:
  \<^item> \<open>unit_bitmap\<close>: what testing, setting and clearing a bit promise;
  \<^item> \<open>unit_allocator\<close>: what allocation and release promise in terms of the set
    of free units. Allocation is first fit, hence returns the least free unit.
\<close>

subsection \<open>First-fit scan\<close>

text \<open>
  The loop shape all allocators have: the first index from \<open>lo\<close> on, below
  \<open>hi\<close>, that satisfies \<open>P\<close>.
\<close>

function scan :: "(u32 \<Rightarrow> bool) \<Rightarrow> u32 \<Rightarrow> u32 \<Rightarrow> u32 option" where
  "scan P lo hi = (if lo < hi then (if P lo then Some lo else scan P (lo + 1) hi) else None)"
  by pat_completeness auto
termination
  by (relation "measure (\<lambda>(P, lo, hi). unat hi - unat lo)")
     (auto simp: unat_plus_1 word_less_nat_alt)

declare scan.simps [simp del]

lemma scan_spec:
  "case scan P lo hi of
     None \<Rightarrow> (\<forall>b. lo \<le> b \<and> b < hi \<longrightarrow> \<not> P b)
   | Some b \<Rightarrow> lo \<le> b \<and> b < hi \<and> P b \<and> (\<forall>c. lo \<le> c \<and> c < b \<longrightarrow> \<not> P c)"
proof (induction P lo hi rule: scan.induct)
  case (1 P lo hi)
  have step: "lo < c \<longleftrightarrow> lo + 1 \<le> c" if "lo < hi" for c
    using unat_plus_1 [OF that] by (simp add: word_less_nat_alt word_le_nat_alt Suc_le_eq)
  have split: "lo \<le> c \<longleftrightarrow> c = lo \<or> lo < c" for c by auto
  show ?case
  proof (cases "lo < hi \<and> \<not> P lo")
    case True
    with 1 have IH: "case scan P (lo + 1) hi of
        None \<Rightarrow> (\<forall>b. lo + 1 \<le> b \<and> b < hi \<longrightarrow> \<not> P b)
      | Some b \<Rightarrow> lo + 1 \<le> b \<and> b < hi \<and> P b \<and> (\<forall>c. lo + 1 \<le> c \<and> c < b \<longrightarrow> \<not> P c)"
      by blast
    with True step show ?thesis
      by (auto simp: scan.simps [of P lo hi] split split: option.splits)
  next
    case False
    then show ?thesis by (auto simp: scan.simps [of P lo hi])
  qed
qed

lemma scan_Some:
  "scan P lo hi = Some b \<longleftrightarrow> lo \<le> b \<and> b < hi \<and> P b \<and> (\<forall>c. lo \<le> c \<and> c < b \<longrightarrow> \<not> P c)"
  using scan_spec [where P = P and lo = lo and hi = hi] by (auto split: option.splits) (meson linorder_neqE not_le)+

lemma scan_None: "scan P lo hi = None \<longleftrightarrow> (\<forall>b. lo \<le> b \<and> b < hi \<longrightarrow> \<not> P b)"
  using scan_spec [where P = P and lo = lo and hi = hi] by (auto split: option.splits)

lemma scan_Min:
  "scan P lo hi = (let F = {b. lo \<le> b \<and> b < hi \<and> P b} in if F = {} then None else Some (Min F))"
proof (cases "scan P lo hi")
  case None
  then show ?thesis by (auto simp: scan_None)
next
  case (Some b)
  then have "Min {b. lo \<le> b \<and> b < hi \<and> P b} = b"
    by (intro Min_eqI) (auto simp: scan_Some intro: leI)
  with Some show ?thesis by (auto simp: scan_Some)
qed

lemma scan_step [simp]:
  "lo < hi \<Longrightarrow> P lo \<Longrightarrow> scan P lo hi = Some lo"
  "lo < hi \<Longrightarrow> \<not> P lo \<Longrightarrow> scan P lo hi = scan P (lo + 1) hi"
  "\<not> lo < hi \<Longrightarrow> scan P lo hi = None"
  by (simp_all add: scan.simps [of P lo hi])

subsection \<open>The bitmap contract\<close>

locale unit_bitmap =
  fixes marked :: "'s \<Rightarrow> u32 \<Rightarrow> bool"
    and mark_used :: "'s \<Rightarrow> u32 \<Rightarrow> 's"
    and mark_free :: "'s \<Rightarrow> u32 \<Rightarrow> 's"
    and covers :: "'s \<Rightarrow> u32 \<Rightarrow> bool"
  assumes marked_mark_used: "covers s i \<Longrightarrow> marked (mark_used s i) j \<longleftrightarrow> j = i \<or> marked s j"
    and marked_mark_free: "covers s i \<Longrightarrow> marked (mark_free s i) j \<longleftrightarrow> j \<noteq> i \<and> marked s j"
    and covers_mark_used: "covers (mark_used s i) j \<longleftrightarrow> covers s j"
    and covers_mark_free: "covers (mark_free s i) j \<longleftrightarrow> covers s j"
begin

lemma unmarked_mark_used:
  "covers s i \<Longrightarrow> {b \<in> R. \<not> marked (mark_used s i) b} = {b \<in> R. \<not> marked s b} - {i}"
  by (auto simp: marked_mark_used)

lemma unmarked_mark_free:
  "covers s i \<Longrightarrow> i \<in> R \<Longrightarrow>
   {b \<in> R. \<not> marked (mark_free s i) b} = insert i {b \<in> R. \<not> marked s b}"
  by (auto simp: marked_mark_free)

lemma mark_free_mark_used:
  "covers s i \<Longrightarrow> \<not> marked s i \<Longrightarrow> marked (mark_free (mark_used s i) i) = marked s"
  by (auto simp: fun_eq_iff marked_mark_free covers_mark_used marked_mark_used)

end

subsection \<open>The allocator contract\<close>

text \<open>
  \<open>units\<close> are the numbers the allocator hands out, \<open>free_set\<close> those it still
  has. \<open>take\<close> returns 0 when there is nothing left, and \<open>give\<close> refuses every
  number that is not a unit in use.
\<close>

locale unit_allocator =
  fixes take_unit :: "'s \<Rightarrow> u32 \<times> 's"
    and give_unit :: "'s \<Rightarrow> u32 \<Rightarrow> bool \<times> 's"
    and units :: "'s \<Rightarrow> u32 set"
    and free_set :: "'s \<Rightarrow> u32 set"
    and free_count :: "'s \<Rightarrow> u32"
    and invar :: "'s \<Rightarrow> bool"
  assumes free_subset: "invar s \<Longrightarrow> free_set s \<subseteq> units s"
    and zero_no_unit: "invar s \<Longrightarrow> 0 \<notin> units s"
    and free_count: "invar s \<Longrightarrow> unat (free_count s) = card (free_set s)"
    and take_none: "invar s \<Longrightarrow> free_set s = {} \<Longrightarrow> take_unit s = (0, s)"
    and take_some: "invar s \<Longrightarrow> free_set s \<noteq> {} \<Longrightarrow> take_unit s = (b, s') \<Longrightarrow>
          b = Min (free_set s) \<and> free_set s' = free_set s - {b} \<and> units s' = units s"
    and give_ok: "invar s \<Longrightarrow> b \<in> units s - free_set s \<Longrightarrow> give_unit s b = (r, s') \<Longrightarrow>
          r \<and> free_set s' = insert b (free_set s) \<and> units s' = units s"
    and give_bad: "invar s \<Longrightarrow> b \<notin> units s - free_set s \<Longrightarrow> give_unit s b = (False, s)"
    and invar_take: "invar s \<Longrightarrow> take_unit s = (b, s') \<Longrightarrow> invar s'"
    and invar_give: "invar s \<Longrightarrow> give_unit s b = (r, s') \<Longrightarrow> invar s'"
begin

lemma finite_free: "finite (free_set s)"
  by (rule finite)

lemma take_cases:
  assumes "invar s" and "take_unit s = (b, s')"
  shows "(b = 0 \<and> s' = s \<and> free_set s = {}) \<or>
         (b \<noteq> 0 \<and> b \<in> free_set s \<and> b = Min (free_set s) \<and> free_set s' = free_set s - {b} \<and>
          units s' = units s)"
proof (cases "free_set s = {}")
  case True
  with assms take_none show ?thesis by auto
next
  case False
  have m: "b = Min (free_set s) \<and> free_set s' = free_set s - {b} \<and> units s' = units s"
    by (rule take_some [OF assms(1) False assms(2)])
  then have "b \<in> free_set s" using Min_in [OF finite_free False] by simp
  moreover from this have "b \<noteq> 0" using free_subset [OF assms(1)] zero_no_unit [OF assms(1)] by auto
  ultimately show ?thesis using m by simp
qed

lemma take_units: "invar s \<Longrightarrow> take_unit s = (b, s') \<Longrightarrow> units s' = units s"
  using take_cases by blast

lemma take_fails_iff:
  "invar s \<Longrightarrow> take_unit s = (b, s') \<Longrightarrow> b = 0 \<longleftrightarrow> free_count s = 0"
  using take_cases [of s b s'] free_count [of s] finite_free [of s]
  by (auto simp: unat_eq_zero)

lemma take_count:
  assumes "invar s" and "take_unit s = (b, s')" and "b \<noteq> 0"
  shows "unat (free_count s) = Suc (unat (free_count s'))"
proof -
  from take_cases [OF assms(1,2)] assms(3)
  have "b \<in> free_set s" and "free_set s' = free_set s - {b}" by auto
  then have "card (free_set s) = Suc (card (free_set s'))"
    using card_Suc_Diff1 [OF finite_free] by metis
  with free_count [OF assms(1)] free_count [OF invar_take [OF assms(1,2)]] show ?thesis by simp
qed

lemma give_take:
  assumes "invar s" and "take_unit s = (b, s')" and "b \<noteq> 0" and "give_unit s' b = (r, s'')"
  shows "r \<and> free_set s'' = free_set s \<and> units s'' = units s"
proof -
  from take_cases [OF assms(1,2)] assms(3)
  have b: "b \<in> free_set s" "free_set s' = free_set s - {b}" "units s' = units s" by auto
  have i: "invar s'" by (rule invar_take [OF assms(1,2)])
  from b free_subset [OF assms(1)] have "b \<in> units s' - free_set s'" by auto
  from give_ok [OF i this assms(4)] b show ?thesis by auto
qed

lemma double_give_fails:
  assumes "invar s" and "give_unit s b = (r, s')"
  shows "give_unit s' b = (False, s')"
proof (cases "b \<in> units s - free_set s")
  case True
  from give_ok [OF assms(1) True assms(2)] have "b \<in> free_set s'" by simp
  then show ?thesis by (simp add: give_bad [OF invar_give [OF assms]])
next
  case False
  then show ?thesis using give_bad [OF assms(1) False] assms by simp
qed

lemma take_take_distinct:
  assumes "invar s" and "take_unit s = (b, s')" and "take_unit s' = (c, s'')" and "c \<noteq> 0"
  shows "b \<noteq> c \<and> b < c"
proof -
  have i: "invar s'" by (rule invar_take [OF assms(1,2)])
  from take_cases [OF i assms(3)] assms(4) have c: "c \<in> free_set s'" by auto
  from take_cases [OF assms(1,2)] c have b: "b = Min (free_set s)" "free_set s' = free_set s - {b}"
    by auto
  with c have "b \<noteq> c" "b \<le> c" by (auto simp: finite_free)
  then show ?thesis by simp
qed

end

end
