(* ===== verification/Block_Allocator.thy ===== *)
theory Block_Allocator
  imports Superblock Unit_Allocator
begin

section \<open>The data-block allocator\<close>

text \<open>
  The bitmap allocator of data blocks of \<open>fs/initrafs.c\<close>
  (\<open>initrafs_block_allocator_init\<close>, \<open>initrafs_block_alloc\<close>,
  \<open>initrafs_block_free\<close> and their bitmap helpers). The record holds the object
  each pointer of \<open>initrafs_block_allocator_t\<close> points to: the bitmap array and
  the superblock, whose free-block count the allocator keeps up to date.

  The theory interprets the contracts \<open>unit_bitmap\<close> and \<open>unit_allocator\<close>: the
  allocator implements first-fit allocation from a set of free blocks, its
  counters equal the size of that set, and the root directory's block is
  neither handed out nor released.
\<close>

record initrafs_block_allocator_t =
  ba_bitmap :: "u8 list option"
  ba_bitmap_bytes :: u32
  ba_total_blocks :: u32
  ba_first_data_block :: u32
  ba_free_blocks :: u32
  ba_superblock :: "initrafs_superblock_t option"

definition initrafs_bitmap_bytes :: "u32 \<Rightarrow> u32" where
  "initrafs_bitmap_bytes block_count = (block_count + 7) div 8"

definition initrafs_bitmap_index :: "u32 \<Rightarrow> u32" where
  "initrafs_bitmap_index block = drop_bit 3 block"

definition initrafs_bitmap_mask :: "u32 \<Rightarrow> u8" where
  "initrafs_bitmap_mask block = ucast (push_bit (unat (block AND 7)) (1 :: u32))"

definition initrafs_block_is_marked :: "initrafs_block_allocator_t \<Rightarrow> u32 \<Rightarrow> bool" where
  "initrafs_block_is_marked allocator block \<longleftrightarrow>
     (the (ba_bitmap allocator) ! unat (initrafs_bitmap_index block)) AND initrafs_bitmap_mask block \<noteq> 0"

definition initrafs_block_mark_used ::
  "initrafs_block_allocator_t \<Rightarrow> u32 \<Rightarrow> initrafs_block_allocator_t" where
  "initrafs_block_mark_used allocator block =
     (let bm = the (ba_bitmap allocator); i = unat (initrafs_bitmap_index block)
      in allocator\<lparr>ba_bitmap := Some (bm[i := (bm ! i) OR initrafs_bitmap_mask block])\<rparr>)"

definition initrafs_block_mark_free ::
  "initrafs_block_allocator_t \<Rightarrow> u32 \<Rightarrow> initrafs_block_allocator_t" where
  "initrafs_block_mark_free allocator block =
     (let bm = the (ba_bitmap allocator); i = unat (initrafs_bitmap_index block)
      in allocator\<lparr>ba_bitmap := Some (bm[i := (bm ! i) AND NOT (initrafs_bitmap_mask block)])\<rparr>)"

text \<open>
  The assignments \<open>allocator->free_blocks = n\<close> and
  \<open>allocator->superblock->free_block_count = allocator->free_blocks\<close>.
\<close>

definition set_free_blocks :: "u32 \<Rightarrow> initrafs_block_allocator_t \<Rightarrow> initrafs_block_allocator_t" where
  "set_free_blocks n allocator =
     allocator\<lparr>ba_free_blocks := n,
       ba_superblock := map_option (\<lambda>sb. sb\<lparr>sb_free_block_count := n\<rparr>) (ba_superblock allocator)\<rparr>"

definition initrafs_block_allocator_init ::
  "initrafs_block_allocator_t option \<Rightarrow> initrafs_superblock_t option \<Rightarrow> u8 list option \<Rightarrow> u32
     \<Rightarrow> initrafs_block_allocator_t option" where
  "initrafs_block_allocator_init allocator superblock bitmap bitmap_bytes =
     (case (allocator, superblock, bitmap) of
        (Some _, Some sb, Some bm) \<Rightarrow>
          if sb_total_blocks sb \<le> sb_data_start sb then None
          else
            let required_bitmap_bytes = initrafs_bitmap_bytes (sb_total_blocks sb)
            in if bitmap_bytes < required_bitmap_bytes then None
               else
                 let a = \<lparr>ba_bitmap = Some (initrafs_zero_bytes bm required_bitmap_bytes),
                          ba_bitmap_bytes = required_bitmap_bytes,
                          ba_total_blocks = sb_total_blocks sb,
                          ba_first_data_block = sb_data_start sb,
                          ba_free_blocks = 0,
                          ba_superblock = Some sb\<rparr>;
                     a' = initrafs_block_mark_used a (sb_data_start sb)
                 in Some (set_free_blocks (sb_total_blocks sb - sb_data_start sb - 1) a')
      | _ \<Rightarrow> None)"

text \<open>The search loop of \<open>initrafs_block_alloc\<close>, from \<open>block\<close> on.\<close>

function block_alloc_loop ::
  "initrafs_block_allocator_t \<Rightarrow> u32 \<Rightarrow> u32 \<times> initrafs_block_allocator_t" where
  "block_alloc_loop allocator block =
     (if block < ba_total_blocks allocator then
        if initrafs_block_is_marked allocator block then block_alloc_loop allocator (block + 1)
        else (block, set_free_blocks (ba_free_blocks allocator - 1)
                       (initrafs_block_mark_used allocator block))
      else (0, allocator))"
  by pat_completeness auto
termination
  by (relation "measure (\<lambda>(a, b). unat (ba_total_blocks a) - unat b)")
     (auto simp: unat_plus_1 word_less_nat_alt)

declare block_alloc_loop.simps [simp del]

definition initrafs_block_alloc ::
  "initrafs_block_allocator_t option \<Rightarrow> u32 \<times> initrafs_block_allocator_t option" where
  "initrafs_block_alloc allocator =
     (case allocator of
        None \<Rightarrow> (0, None)
      | Some a \<Rightarrow>
          if ba_bitmap a = None then (0, Some a)
          else let (block, a') = block_alloc_loop a (ba_first_data_block a) in (block, Some a'))"

definition initrafs_block_free ::
  "initrafs_block_allocator_t option \<Rightarrow> u32 \<Rightarrow> bool \<times> initrafs_block_allocator_t option" where
  "initrafs_block_free allocator block =
     (case allocator of
        None \<Rightarrow> (False, None)
      | Some a \<Rightarrow>
          if ba_bitmap a = None then (False, Some a)
          else if block < ba_first_data_block a \<or> block \<ge> ba_total_blocks a then (False, Some a)
          else if block = ba_first_data_block a then (False, Some a)
          else if \<not> initrafs_block_is_marked a block then (False, Some a)
          else (True, Some (set_free_blocks (ba_free_blocks a + 1) (initrafs_block_mark_free a block))))"

subsection \<open>The bitmap contract\<close>

definition block_covered :: "initrafs_block_allocator_t \<Rightarrow> u32 \<Rightarrow> bool" where
  "block_covered a b \<longleftrightarrow> unat b div 8 < length (the (ba_bitmap a))"

lemma initrafs_bitmap_mask_bit: "initrafs_bitmap_mask b = 2 ^ (unat b mod 8)"
  by (simp add: initrafs_bitmap_mask_def ucast_push_bit_1)

lemma block_is_marked_bit:
  "initrafs_block_is_marked a b \<longleftrightarrow> bitmap_bit (the (ba_bitmap a)) (unat b)"
  by (simp add: initrafs_block_is_marked_def initrafs_bitmap_index_def initrafs_bitmap_mask_bit
        bitmap_test)

interpretation block_bitmap: unit_bitmap
  initrafs_block_is_marked initrafs_block_mark_used initrafs_block_mark_free block_covered
proof
  fix s :: initrafs_block_allocator_t and i j :: u32
  assume "block_covered s i"
  then show "initrafs_block_is_marked (initrafs_block_mark_used s i) j \<longleftrightarrow>
               j = i \<or> initrafs_block_is_marked s j"
    and "initrafs_block_is_marked (initrafs_block_mark_free s i) j \<longleftrightarrow>
               j \<noteq> i \<and> initrafs_block_is_marked s j"
    by (auto simp: block_covered_def block_is_marked_bit initrafs_block_mark_used_def
          initrafs_block_mark_free_def initrafs_bitmap_index_def initrafs_bitmap_mask_bit
          bitmap_bit_set bitmap_bit_clear word_unat_eq_iff Let_def)
qed (auto simp: block_covered_def initrafs_block_mark_used_def initrafs_block_mark_free_def Let_def)

subsection \<open>The invariant\<close>

definition block_units :: "initrafs_block_allocator_t \<Rightarrow> u32 set" where
  "block_units a = {b. ba_first_data_block a < b \<and> b < ba_total_blocks a}"

definition block_free_set :: "initrafs_block_allocator_t \<Rightarrow> u32 set" where
  "block_free_set a = {b \<in> block_units a. \<not> initrafs_block_is_marked a b}"

definition block_allocator_ok :: "initrafs_block_allocator_t \<Rightarrow> bool" where
  "block_allocator_ok a \<longleftrightarrow>
     (\<exists>bm. ba_bitmap a = Some bm \<and> unat (ba_total_blocks a) \<le> 8 * length bm) \<and>
     ba_first_data_block a < ba_total_blocks a \<and>
     initrafs_block_is_marked a (ba_first_data_block a) \<and>
     unat (ba_free_blocks a) = card (block_free_set a) \<and>
     (\<exists>sb. ba_superblock a = Some sb \<and> sb_free_block_count sb = ba_free_blocks a \<and>
           sb_data_start sb = ba_first_data_block a \<and> sb_total_blocks sb = ba_total_blocks a)"

lemma block_allocator_okD:
  assumes "block_allocator_ok a"
  shows "ba_bitmap a \<noteq> None" and "b < ba_total_blocks a \<Longrightarrow> block_covered a b"
    and "ba_first_data_block a < ba_total_blocks a"
    and "initrafs_block_is_marked a (ba_first_data_block a)"
    and "unat (ba_free_blocks a) = card (block_free_set a)"
  using assms by (auto simp: block_allocator_ok_def block_covered_def word_less_nat_alt)

lemma set_free_blocks_simps [simp]:
  "ba_bitmap (set_free_blocks n a) = ba_bitmap a"
  "ba_total_blocks (set_free_blocks n a) = ba_total_blocks a"
  "ba_first_data_block (set_free_blocks n a) = ba_first_data_block a"
  "ba_free_blocks (set_free_blocks n a) = n"
  "ba_bitmap_bytes (set_free_blocks n a) = ba_bitmap_bytes a"
  "ba_superblock (set_free_blocks n a) =
     map_option (\<lambda>sb. sb\<lparr>sb_free_block_count := n\<rparr>) (ba_superblock a)"
  "initrafs_block_is_marked (set_free_blocks n a) = initrafs_block_is_marked a"
  "block_covered (set_free_blocks n a) = block_covered a"
  by (simp_all add: set_free_blocks_def fun_eq_iff initrafs_block_is_marked_def block_covered_def)

lemma block_mark_simps [simp]:
  "ba_total_blocks (initrafs_block_mark_used a b) = ba_total_blocks a"
  "ba_first_data_block (initrafs_block_mark_used a b) = ba_first_data_block a"
  "ba_free_blocks (initrafs_block_mark_used a b) = ba_free_blocks a"
  "ba_superblock (initrafs_block_mark_used a b) = ba_superblock a"
  "ba_bitmap_bytes (initrafs_block_mark_used a b) = ba_bitmap_bytes a"
  "ba_total_blocks (initrafs_block_mark_free a b) = ba_total_blocks a"
  "ba_first_data_block (initrafs_block_mark_free a b) = ba_first_data_block a"
  "ba_free_blocks (initrafs_block_mark_free a b) = ba_free_blocks a"
  "ba_superblock (initrafs_block_mark_free a b) = ba_superblock a"
  "ba_bitmap_bytes (initrafs_block_mark_free a b) = ba_bitmap_bytes a"
  by (simp_all add: initrafs_block_mark_used_def initrafs_block_mark_free_def Let_def)

lemma block_mark_length:
  "\<exists>bm. ba_bitmap a = Some bm \<and> n \<le> 8 * length bm \<Longrightarrow>
   \<exists>bm. ba_bitmap (initrafs_block_mark_used a b) = Some bm \<and> n \<le> 8 * length bm"
  "\<exists>bm. ba_bitmap a = Some bm \<and> n \<le> 8 * length bm \<Longrightarrow>
   \<exists>bm. ba_bitmap (initrafs_block_mark_free a b) = Some bm \<and> n \<le> 8 * length bm"
  by (auto simp: initrafs_block_mark_used_def initrafs_block_mark_free_def Let_def)

lemma block_units_simps [simp]:
  "block_units (set_free_blocks n a) = block_units a"
  "block_units (initrafs_block_mark_used a b) = block_units a"
  "block_units (initrafs_block_mark_free a b) = block_units a"
  by (simp_all add: block_units_def)

lemma block_free_set_simps:
  "block_free_set (set_free_blocks n a) = block_free_set a"
  "block_covered a b \<Longrightarrow> block_free_set (initrafs_block_mark_used a b) = block_free_set a - {b}"
  "block_covered a b \<Longrightarrow> b \<in> block_units a \<Longrightarrow>
     block_free_set (initrafs_block_mark_free a b) = insert b (block_free_set a)"
  by (simp_all add: block_free_set_def block_bitmap.unmarked_mark_used
        block_bitmap.unmarked_mark_free)

lemma zero_not_block_unit: "0 \<notin> block_units a"
  by (simp add: block_units_def)

subsection \<open>Allocation and release as operations on the set of free blocks\<close>

text \<open>The search loop takes the first unmarked block.\<close>

lemma block_alloc_loop_scan:
  "block_alloc_loop a b =
     (case scan (\<lambda>b. \<not> initrafs_block_is_marked a b) b (ba_total_blocks a) of
        None \<Rightarrow> (0, a)
      | Some b \<Rightarrow> (b, set_free_blocks (ba_free_blocks a - 1) (initrafs_block_mark_used a b)))"
proof (induction a b rule: block_alloc_loop.induct)
  case (1 a b)
  then show ?case
    by (cases "b < ba_total_blocks a"; cases "initrafs_block_is_marked a b")
       (simp_all add: block_alloc_loop.simps [of a b])
qed

lemma block_scan_Min:
  assumes "block_allocator_ok a"
  shows "scan (\<lambda>b. \<not> initrafs_block_is_marked a b) (ba_first_data_block a) (ba_total_blocks a)
           = (if block_free_set a = {} then None else Some (Min (block_free_set a)))"
proof -
  have "{b. ba_first_data_block a \<le> b \<and> b < ba_total_blocks a \<and> \<not> initrafs_block_is_marked a b}
          = block_free_set a"
    using block_allocator_okD(4) [OF assms]
    by (auto simp: block_free_set_def block_units_def order_le_less)
  then show ?thesis by (simp add: scan_Min Let_def)
qed

definition block_take :: "initrafs_block_allocator_t \<Rightarrow> u32 \<times> initrafs_block_allocator_t" where
  "block_take a = map_prod id the (initrafs_block_alloc (Some a))"

definition block_give :: "initrafs_block_allocator_t \<Rightarrow> u32 \<Rightarrow> bool \<times> initrafs_block_allocator_t" where
  "block_give a b = map_prod id the (initrafs_block_free (Some a) b)"

lemma block_alloc_take: "initrafs_block_alloc (Some a) = map_prod id Some (block_take a)"
  by (simp add: block_take_def initrafs_block_alloc_def split: prod.splits)

lemma block_free_give: "initrafs_block_free (Some a) b = map_prod id Some (block_give a b)"
  by (simp add: block_give_def initrafs_block_free_def)

lemma block_take_eq:
  assumes "block_allocator_ok a"
  shows "block_take a =
           (if block_free_set a = {} then (0, a)
            else let b = Min (block_free_set a)
                 in (b, set_free_blocks (ba_free_blocks a - 1) (initrafs_block_mark_used a b)))"
  using block_allocator_okD(1) [OF assms] block_scan_Min [OF assms]
  by (auto simp: block_take_def initrafs_block_alloc_def block_alloc_loop_scan Let_def)

lemma block_give_eq:
  assumes "block_allocator_ok a"
  shows "block_give a b =
           (if b \<in> block_units a - block_free_set a
            then (True, set_free_blocks (ba_free_blocks a + 1) (initrafs_block_mark_free a b))
            else (False, a))"
  using block_allocator_okD(1) [OF assms]
  by (auto simp: block_give_def initrafs_block_free_def block_units_def block_free_set_def)

interpretation block_alloc: unit_allocator
  block_take block_give block_units block_free_set ba_free_blocks block_allocator_ok
proof
  fix s :: initrafs_block_allocator_t and b r and s'
  assume ok: "block_allocator_ok s"
  note D = block_allocator_okD [OF ok]
  show sub: "block_free_set s \<subseteq> block_units s" by (auto simp: block_free_set_def)
  show zero: "0 \<notin> block_units s" by (rule zero_not_block_unit)
  show "unat (ba_free_blocks s) = card (block_free_set s)" by (rule D(5))
  show "block_free_set s = {} \<Longrightarrow> block_take s = (0, s)" by (simp add: block_take_eq [OF ok])
  have cov: "block_covered s b" if "b \<in> block_units s" for b
    using that D(2) by (simp add: block_units_def)
  let ?m = "Min (block_free_set s)"
  have m: "?m \<in> block_free_set s" if "block_free_set s \<noteq> {}"
    by (rule Min_in [OF finite that])
  show "b = ?m \<and> block_free_set s' = block_free_set s - {b} \<and> block_units s' = block_units s"
    if "block_free_set s \<noteq> {}" "block_take s = (b, s')"
    using that m sub cov by (auto simp: block_take_eq [OF ok] Let_def block_free_set_simps)
  show "r \<and> block_free_set s' = insert b (block_free_set s) \<and> block_units s' = block_units s"
    if "b \<in> block_units s - block_free_set s" "block_give s b = (r, s')"
    using that cov by (auto simp: block_give_eq [OF ok] block_free_set_simps)
  show "b \<notin> block_units s - block_free_set s \<Longrightarrow> block_give s b = (False, s)"
    by (simp add: block_give_eq [OF ok])
  show "block_allocator_ok s'" if t: "block_take s = (b, s')"
  proof (cases "block_free_set s = {}")
    case False
    with t have s': "b = ?m" "s' = set_free_blocks (ba_free_blocks s - 1) (initrafs_block_mark_used s b)"
      by (auto simp: block_take_eq [OF ok] Let_def)
    from m [OF False] s'(1) have "b \<in> block_free_set s" by simp
    with sub cov have b: "b \<in> block_free_set s" "block_covered s b" by blast+
    then have "card (block_free_set s) = Suc (card (block_free_set s - {b}))"
      using card_Suc_Diff1 [of "block_free_set s" b] by simp
    with D(5) have "unat (ba_free_blocks s - 1) = card (block_free_set s - {b})"
      by (simp add: unat_pred)
    with b D ok s' show ?thesis
      using block_mark_length(1) [of s "unat (ba_total_blocks s)" b]
      by (auto simp: block_allocator_ok_def block_free_set_simps block_bitmap.marked_mark_used)
  qed (use t ok in \<open>simp add: block_take_eq [OF ok]\<close>)
  show "block_allocator_ok s'" if g: "block_give s b = (r, s')"
  proof (cases "b \<in> block_units s - block_free_set s")
    case True
    with g have s': "s' = set_free_blocks (ba_free_blocks s + 1) (initrafs_block_mark_free s b)"
      by (simp add: block_give_eq [OF ok])
    from True cov have b: "block_covered s b" "b \<in> block_units s" "b \<notin> block_free_set s" by auto
    have "card (insert b (block_free_set s)) < 2 ^ 32"
      by (rule card_u32_less) (use zero sub b in auto)
    with b D(5) have "unat (ba_free_blocks s + 1) = card (insert b (block_free_set s))"
      by (subst unat_add_1) simp_all
    with b D ok s' show ?thesis
      using block_mark_length(2) [of s "unat (ba_total_blocks s)" b]
      by (auto simp: block_allocator_ok_def block_free_set_simps block_bitmap.marked_mark_free
            block_units_def)
  qed (use g ok in \<open>auto simp: block_give_eq [OF ok] split: if_splits\<close>)
qed

subsection \<open>Initialisation\<close>

lemma unat_bitmap_bytes:
  "unat n \<le> 2 ^ 32 - 8 \<Longrightarrow> unat (initrafs_bitmap_bytes n) = (unat n + 7) div 8"
  by (simp add: initrafs_bitmap_bytes_def unat_div_distrib unat_word_ariths)

lemma block_allocator_init_ok:
  assumes init: "initrafs_block_allocator_init al (Some sb) (Some bm) n = Some a"
    and len: "unat n \<le> length bm" and small: "unat (sb_total_blocks sb) \<le> 2 ^ 32 - 8"
  shows "block_allocator_ok a \<and> block_free_set a = block_units a \<and>
         ba_total_blocks a = sb_total_blocks sb \<and> ba_first_data_block a = sb_data_start sb \<and>
         ba_superblock a = Some (sb\<lparr>sb_free_block_count := ba_free_blocks a\<rparr>)"
proof -
  let ?req = "initrafs_bitmap_bytes (sb_total_blocks sb)"
  define a0 where "a0 = \<lparr>ba_bitmap = Some (initrafs_zero_bytes bm ?req), ba_bitmap_bytes = ?req,
     ba_total_blocks = sb_total_blocks sb, ba_first_data_block = sb_data_start sb,
     ba_free_blocks = 0, ba_superblock = Some sb\<rparr>"
  from init have lt: "sb_data_start sb < sb_total_blocks sb" and req: "?req \<le> n"
    and a: "a = set_free_blocks (sb_total_blocks sb - sb_data_start sb - 1)
                  (initrafs_block_mark_used a0 (sb_data_start sb))"
    by (auto simp: initrafs_block_allocator_init_def a0_def Let_def not_le not_less
          split: option.splits if_splits)
  note u = unat_bitmap_bytes [OF small]
  have bits: "unat b div 8 < unat ?req" if "b < sb_total_blocks sb" for b
    using that u by (simp add: word_less_nat_alt)
  have blen: "length (initrafs_zero_bytes bm ?req) = length bm"
    using req len by (simp add: initrafs_zero_bytes_def word_le_nat_alt)
  have cov: "block_covered a0 b" if "b < sb_total_blocks sb" for b
    using bits [OF that] req len by (simp add: block_covered_def a0_def blen word_le_nat_alt)
  have "\<not> initrafs_block_is_marked a0 b" if "b < sb_total_blocks sb" for b
    using bits [OF that]
    by (simp add: block_is_marked_bit a0_def initrafs_zero_bytes_def bitmap_bit_zero)
  then have fs0: "block_free_set a0 = block_units a0"
    by (auto simp: block_free_set_def block_units_def a0_def)
  then have fs: "block_free_set a = block_units a"
    using cov [OF lt] by (auto simp: a block_free_set_simps block_units_def a0_def)
  have "unat (sb_total_blocks sb - sb_data_start sb - 1) = card (block_units a)"
    using lt by (simp add: a block_units_def a0_def card_u32_between unat_minus_1 unat_minus_le
          less_imp_le)
  moreover have "unat (sb_total_blocks sb) \<le> 8 * length bm"
    using u req len by (simp add: word_le_nat_alt)
  ultimately have "block_allocator_ok a"
    using fs lt cov [OF lt] block_mark_length(1) [of a0 "unat (sb_total_blocks sb)" "sb_data_start sb"]
    by (auto simp: block_allocator_ok_def a block_bitmap.marked_mark_used a0_def blen)
  with fs show ?thesis by (simp add: a a0_def)
qed

end
