(* ===== verification/Inode_Allocator.thy ===== *)
theory Inode_Allocator
  imports Block_Allocator
begin

section \<open>The inode-number allocator\<close>

text \<open>
  The bitmap allocator of inode numbers of \<open>fs/initrafs.c\<close>
  (\<open>initrafs_inode_allocator_init\<close>, \<open>initrafs_inode_alloc\<close>,
  \<open>initrafs_inode_free\<close> and their bitmap helpers). Inode 0 and the root inode
  are never handed out and never released. The theory interprets the same two
  contracts as the block allocator.
\<close>

record initrafs_inode_allocator_t =
  ia_bitmap :: "u8 list option"
  ia_bitmap_bytes :: u32
  ia_total_inodes :: u32
  ia_first_allocatable_inode :: u32
  ia_free_inodes :: u32
  ia_superblock :: "initrafs_superblock_t option"

definition initrafs_inode_bitmap_bytes :: "u32 \<Rightarrow> u32" where
  "initrafs_inode_bitmap_bytes inode_count = (inode_count + 7) div 8"

definition initrafs_inode_bitmap_index :: "u32 \<Rightarrow> u32" where
  "initrafs_inode_bitmap_index inode = drop_bit 3 inode"

definition initrafs_inode_bitmap_mask :: "u32 \<Rightarrow> u8" where
  "initrafs_inode_bitmap_mask inode = ucast (push_bit (unat (inode AND 7)) (1 :: u32))"

definition initrafs_inode_is_marked :: "initrafs_inode_allocator_t \<Rightarrow> u32 \<Rightarrow> bool" where
  "initrafs_inode_is_marked allocator inode \<longleftrightarrow>
     (the (ia_bitmap allocator) ! unat (initrafs_inode_bitmap_index inode))
       AND initrafs_inode_bitmap_mask inode \<noteq> 0"

definition initrafs_inode_mark_used ::
  "initrafs_inode_allocator_t \<Rightarrow> u32 \<Rightarrow> initrafs_inode_allocator_t" where
  "initrafs_inode_mark_used allocator inode =
     (let bm = the (ia_bitmap allocator); i = unat (initrafs_inode_bitmap_index inode)
      in allocator\<lparr>ia_bitmap := Some (bm[i := (bm ! i) OR initrafs_inode_bitmap_mask inode])\<rparr>)"

definition initrafs_inode_mark_free ::
  "initrafs_inode_allocator_t \<Rightarrow> u32 \<Rightarrow> initrafs_inode_allocator_t" where
  "initrafs_inode_mark_free allocator inode =
     (let bm = the (ia_bitmap allocator); i = unat (initrafs_inode_bitmap_index inode)
      in allocator\<lparr>ia_bitmap := Some (bm[i := (bm ! i) AND NOT (initrafs_inode_bitmap_mask inode)])\<rparr>)"

definition initrafs_inode_allocator_init ::
  "initrafs_inode_allocator_t option \<Rightarrow> initrafs_superblock_t option \<Rightarrow> u8 list option \<Rightarrow> u32
     \<Rightarrow> initrafs_inode_allocator_t option" where
  "initrafs_inode_allocator_init allocator superblock bitmap bitmap_bytes =
     (case (allocator, superblock, bitmap) of
        (Some _, Some sb, Some bm) \<Rightarrow>
          if sb_inode_count sb \<le> INITRAFS_ROOT_INODE then None
          else
            let required_bitmap_bytes = initrafs_inode_bitmap_bytes (sb_inode_count sb)
            in if bitmap_bytes < required_bitmap_bytes then None
               else
                 let first = INITRAFS_ROOT_INODE + 1;
                     a = \<lparr>ia_bitmap = Some (initrafs_zero_bytes bm required_bitmap_bytes),
                          ia_bitmap_bytes = required_bitmap_bytes,
                          ia_total_inodes = sb_inode_count sb,
                          ia_first_allocatable_inode = first,
                          ia_free_inodes = sb_inode_count sb - first,
                          ia_superblock = Some sb\<rparr>
                 in Some (initrafs_inode_mark_used
                            (initrafs_inode_mark_used a INITRAFS_UNUSED_INODE) INITRAFS_ROOT_INODE)
      | _ \<Rightarrow> None)"

text \<open>The search loop of \<open>initrafs_inode_alloc\<close>, from \<open>inode\<close> on.\<close>

function inode_alloc_loop ::
  "initrafs_inode_allocator_t \<Rightarrow> u32 \<Rightarrow> u32 \<times> initrafs_inode_allocator_t" where
  "inode_alloc_loop allocator inode =
     (if inode < ia_total_inodes allocator then
        if initrafs_inode_is_marked allocator inode then inode_alloc_loop allocator (inode + 1)
        else (inode, (initrafs_inode_mark_used allocator inode)
                       \<lparr>ia_free_inodes := ia_free_inodes allocator - 1\<rparr>)
      else (INITRAFS_UNUSED_INODE, allocator))"
  by pat_completeness auto
termination
  by (relation "measure (\<lambda>(a, b). unat (ia_total_inodes a) - unat b)")
     (auto simp: unat_plus_1 word_less_nat_alt)

declare inode_alloc_loop.simps [simp del]

definition initrafs_inode_alloc ::
  "initrafs_inode_allocator_t option \<Rightarrow> u32 \<times> initrafs_inode_allocator_t option" where
  "initrafs_inode_alloc allocator =
     (case allocator of
        None \<Rightarrow> (0, None)
      | Some a \<Rightarrow>
          if ia_bitmap a = None then (0, Some a)
          else let (inode, a') = inode_alloc_loop a (ia_first_allocatable_inode a)
               in (inode, Some a'))"

definition initrafs_inode_free ::
  "initrafs_inode_allocator_t option \<Rightarrow> u32 \<Rightarrow> bool \<times> initrafs_inode_allocator_t option" where
  "initrafs_inode_free allocator inode =
     (case allocator of
        None \<Rightarrow> (False, None)
      | Some a \<Rightarrow>
          if ia_bitmap a = None then (False, Some a)
          else if inode < ia_first_allocatable_inode a \<or> inode \<ge> ia_total_inodes a
          then (False, Some a)
          else if \<not> initrafs_inode_is_marked a inode then (False, Some a)
          else (True, Some ((initrafs_inode_mark_free a inode)
                              \<lparr>ia_free_inodes := ia_free_inodes a + 1\<rparr>)))"

subsection \<open>The bitmap contract\<close>

definition inode_covered :: "initrafs_inode_allocator_t \<Rightarrow> u32 \<Rightarrow> bool" where
  "inode_covered a i \<longleftrightarrow> unat i div 8 < length (the (ia_bitmap a))"

lemma initrafs_inode_bitmap_mask_bit: "initrafs_inode_bitmap_mask i = 2 ^ (unat i mod 8)"
  by (simp add: initrafs_inode_bitmap_mask_def ucast_push_bit_1)

lemma inode_is_marked_bit:
  "initrafs_inode_is_marked a i \<longleftrightarrow> bitmap_bit (the (ia_bitmap a)) (unat i)"
  by (simp add: initrafs_inode_is_marked_def initrafs_inode_bitmap_index_def
        initrafs_inode_bitmap_mask_bit bitmap_test)

interpretation inode_bitmap: unit_bitmap
  initrafs_inode_is_marked initrafs_inode_mark_used initrafs_inode_mark_free inode_covered
proof
  fix s :: initrafs_inode_allocator_t and i j :: u32
  assume "inode_covered s i"
  then show "initrafs_inode_is_marked (initrafs_inode_mark_used s i) j \<longleftrightarrow>
               j = i \<or> initrafs_inode_is_marked s j"
    and "initrafs_inode_is_marked (initrafs_inode_mark_free s i) j \<longleftrightarrow>
               j \<noteq> i \<and> initrafs_inode_is_marked s j"
    by (auto simp: inode_covered_def inode_is_marked_bit initrafs_inode_mark_used_def
          initrafs_inode_mark_free_def initrafs_inode_bitmap_index_def
          initrafs_inode_bitmap_mask_bit bitmap_bit_set bitmap_bit_clear word_unat_eq_iff Let_def)
qed (auto simp: inode_covered_def initrafs_inode_mark_used_def initrafs_inode_mark_free_def Let_def)

subsection \<open>The invariant\<close>

definition inode_units :: "initrafs_inode_allocator_t \<Rightarrow> u32 set" where
  "inode_units a = {i. ia_first_allocatable_inode a \<le> i \<and> i < ia_total_inodes a}"

definition inode_free_set :: "initrafs_inode_allocator_t \<Rightarrow> u32 set" where
  "inode_free_set a = {i \<in> inode_units a. \<not> initrafs_inode_is_marked a i}"

definition inode_allocator_ok :: "initrafs_inode_allocator_t \<Rightarrow> bool" where
  "inode_allocator_ok a \<longleftrightarrow>
     (\<exists>bm. ia_bitmap a = Some bm \<and> unat (ia_total_inodes a) \<le> 8 * length bm) \<and>
     INITRAFS_ROOT_INODE < ia_first_allocatable_inode a \<and>
     ia_first_allocatable_inode a \<le> ia_total_inodes a \<and>
     unat (ia_free_inodes a) = card (inode_free_set a)"

lemma inode_allocator_okD:
  assumes "inode_allocator_ok a"
  shows "ia_bitmap a \<noteq> None" and "i < ia_total_inodes a \<Longrightarrow> inode_covered a i"
    and "1 < ia_first_allocatable_inode a"
    and "unat (ia_free_inodes a) = card (inode_free_set a)"
  using assms by (auto simp: inode_allocator_ok_def inode_covered_def word_less_nat_alt)

lemma set_free_inodes_simps [simp]:
  "initrafs_inode_is_marked (a\<lparr>ia_free_inodes := n\<rparr>) = initrafs_inode_is_marked a"
  "inode_covered (a\<lparr>ia_free_inodes := n\<rparr>) = inode_covered a"
  by (simp_all add: fun_eq_iff initrafs_inode_is_marked_def inode_covered_def)

lemma inode_mark_simps [simp]:
  "ia_total_inodes (initrafs_inode_mark_used a i) = ia_total_inodes a"
  "ia_first_allocatable_inode (initrafs_inode_mark_used a i) = ia_first_allocatable_inode a"
  "ia_free_inodes (initrafs_inode_mark_used a i) = ia_free_inodes a"
  "ia_superblock (initrafs_inode_mark_used a i) = ia_superblock a"
  "ia_total_inodes (initrafs_inode_mark_free a i) = ia_total_inodes a"
  "ia_first_allocatable_inode (initrafs_inode_mark_free a i) = ia_first_allocatable_inode a"
  "ia_free_inodes (initrafs_inode_mark_free a i) = ia_free_inodes a"
  "ia_superblock (initrafs_inode_mark_free a i) = ia_superblock a"
  by (simp_all add: initrafs_inode_mark_used_def initrafs_inode_mark_free_def Let_def)

lemma inode_mark_length:
  "\<exists>bm. ia_bitmap a = Some bm \<and> n \<le> 8 * length bm \<Longrightarrow>
   \<exists>bm. ia_bitmap (initrafs_inode_mark_used a i) = Some bm \<and> n \<le> 8 * length bm"
  "\<exists>bm. ia_bitmap a = Some bm \<and> n \<le> 8 * length bm \<Longrightarrow>
   \<exists>bm. ia_bitmap (initrafs_inode_mark_free a i) = Some bm \<and> n \<le> 8 * length bm"
  by (auto simp: initrafs_inode_mark_used_def initrafs_inode_mark_free_def Let_def)

lemma inode_units_simps [simp]:
  "inode_units (a\<lparr>ia_free_inodes := n\<rparr>) = inode_units a"
  "inode_units (initrafs_inode_mark_used a i) = inode_units a"
  "inode_units (initrafs_inode_mark_free a i) = inode_units a"
  by (simp_all add: inode_units_def)

lemma inode_free_set_simps:
  "inode_free_set (a\<lparr>ia_free_inodes := n\<rparr>) = inode_free_set a"
  "inode_covered a i \<Longrightarrow> inode_free_set (initrafs_inode_mark_used a i) = inode_free_set a - {i}"
  "inode_covered a i \<Longrightarrow> i \<in> inode_units a \<Longrightarrow>
     inode_free_set (initrafs_inode_mark_free a i) = insert i (inode_free_set a)"
  by (simp_all add: inode_free_set_def inode_bitmap.unmarked_mark_used
        inode_bitmap.unmarked_mark_free)

subsection \<open>Allocation and release as operations on the set of free inode numbers\<close>

lemma inode_alloc_loop_scan:
  "inode_alloc_loop a i =
     (case scan (\<lambda>i. \<not> initrafs_inode_is_marked a i) i (ia_total_inodes a) of
        None \<Rightarrow> (0, a)
      | Some i \<Rightarrow> (i, (initrafs_inode_mark_used a i)\<lparr>ia_free_inodes := ia_free_inodes a - 1\<rparr>))"
proof (induction a i rule: inode_alloc_loop.induct)
  case (1 a i)
  then show ?case
    by (cases "i < ia_total_inodes a"; cases "initrafs_inode_is_marked a i")
       (simp_all add: inode_alloc_loop.simps [of a i])
qed

lemma inode_scan_Min:
  "scan (\<lambda>i. \<not> initrafs_inode_is_marked a i) (ia_first_allocatable_inode a) (ia_total_inodes a)
     = (if inode_free_set a = {} then None else Some (Min (inode_free_set a)))"
proof -
  have "{i. ia_first_allocatable_inode a \<le> i \<and> i < ia_total_inodes a \<and> \<not> initrafs_inode_is_marked a i}
          = inode_free_set a"
    by (auto simp: inode_free_set_def inode_units_def)
  then show ?thesis by (simp add: scan_Min Let_def)
qed

definition inode_take :: "initrafs_inode_allocator_t \<Rightarrow> u32 \<times> initrafs_inode_allocator_t" where
  "inode_take a = map_prod id the (initrafs_inode_alloc (Some a))"

definition inode_give :: "initrafs_inode_allocator_t \<Rightarrow> u32 \<Rightarrow> bool \<times> initrafs_inode_allocator_t" where
  "inode_give a i = map_prod id the (initrafs_inode_free (Some a) i)"

lemma inode_alloc_take: "initrafs_inode_alloc (Some a) = map_prod id Some (inode_take a)"
  by (simp add: inode_take_def initrafs_inode_alloc_def split: prod.splits)

lemma inode_free_give: "initrafs_inode_free (Some a) i = map_prod id Some (inode_give a i)"
  by (simp add: inode_give_def initrafs_inode_free_def)

lemma inode_take_eq:
  assumes "inode_allocator_ok a"
  shows "inode_take a =
           (if inode_free_set a = {} then (0, a)
            else let i = Min (inode_free_set a)
                 in (i, (initrafs_inode_mark_used a i)\<lparr>ia_free_inodes := ia_free_inodes a - 1\<rparr>))"
  using inode_allocator_okD(1) [OF assms]
  by (auto simp: inode_take_def initrafs_inode_alloc_def inode_alloc_loop_scan inode_scan_Min Let_def)

lemma inode_give_eq:
  assumes "inode_allocator_ok a"
  shows "inode_give a i =
           (if i \<in> inode_units a - inode_free_set a
            then (True, (initrafs_inode_mark_free a i)\<lparr>ia_free_inodes := ia_free_inodes a + 1\<rparr>)
            else (False, a))"
  using inode_allocator_okD(1) [OF assms]
  by (auto simp: inode_give_def initrafs_inode_free_def inode_units_def inode_free_set_def)

interpretation inode_alloc: unit_allocator
  inode_take inode_give inode_units inode_free_set ia_free_inodes inode_allocator_ok
proof
  fix s :: initrafs_inode_allocator_t and b r and s'
  assume ok: "inode_allocator_ok s"
  note D = inode_allocator_okD [OF ok]
  show sub: "inode_free_set s \<subseteq> inode_units s" by (auto simp: inode_free_set_def)
  show zero: "0 \<notin> inode_units s" using D(3) by (auto simp: inode_units_def)
  show "unat (ia_free_inodes s) = card (inode_free_set s)" by (rule D(4))
  show "inode_free_set s = {} \<Longrightarrow> inode_take s = (0, s)" by (simp add: inode_take_eq [OF ok])
  have cov: "inode_covered s i" if "i \<in> inode_units s" for i
    using that D(2) by (simp add: inode_units_def)
  let ?m = "Min (inode_free_set s)"
  have m: "?m \<in> inode_free_set s" if "inode_free_set s \<noteq> {}"
    by (rule Min_in [OF finite that])
  show "b = ?m \<and> inode_free_set s' = inode_free_set s - {b} \<and> inode_units s' = inode_units s"
    if "inode_free_set s \<noteq> {}" "inode_take s = (b, s')"
    using that m sub cov by (auto simp: inode_take_eq [OF ok] Let_def inode_free_set_simps)
  show "r \<and> inode_free_set s' = insert b (inode_free_set s) \<and> inode_units s' = inode_units s"
    if "b \<in> inode_units s - inode_free_set s" "inode_give s b = (r, s')"
    using that cov by (auto simp: inode_give_eq [OF ok] inode_free_set_simps)
  show "b \<notin> inode_units s - inode_free_set s \<Longrightarrow> inode_give s b = (False, s)"
    by (simp add: inode_give_eq [OF ok])
  show "inode_allocator_ok s'" if t: "inode_take s = (b, s')"
  proof (cases "inode_free_set s = {}")
    case False
    with t have s': "b = ?m"
      "s' = (initrafs_inode_mark_used s b)\<lparr>ia_free_inodes := ia_free_inodes s - 1\<rparr>"
      by (auto simp: inode_take_eq [OF ok] Let_def)
    from m [OF False] s'(1) have "b \<in> inode_free_set s" by simp
    with sub cov have b: "b \<in> inode_free_set s" "inode_covered s b" by blast+
    then have "card (inode_free_set s) = Suc (card (inode_free_set s - {b}))"
      using card_Suc_Diff1 [of "inode_free_set s" b] by simp
    with D(4) have "unat (ia_free_inodes s - 1) = card (inode_free_set s - {b})"
      by (simp add: unat_pred)
    with b D ok s' show ?thesis
      using inode_mark_length(1) [of s "unat (ia_total_inodes s)" b]
      by (auto simp: inode_allocator_ok_def inode_free_set_simps)
  qed (use t ok in \<open>simp add: inode_take_eq [OF ok]\<close>)
  show "inode_allocator_ok s'" if g: "inode_give s b = (r, s')"
  proof (cases "b \<in> inode_units s - inode_free_set s")
    case True
    with g have s': "s' = (initrafs_inode_mark_free s b)\<lparr>ia_free_inodes := ia_free_inodes s + 1\<rparr>"
      by (simp add: inode_give_eq [OF ok])
    from True cov have b: "inode_covered s b" "b \<in> inode_units s" "b \<notin> inode_free_set s" by auto
    have "card (insert b (inode_free_set s)) < 2 ^ 32"
      by (rule card_u32_less) (use zero sub b in auto)
    with b D(4) have "unat (ia_free_inodes s + 1) = card (insert b (inode_free_set s))"
      by (subst unat_add_1) simp_all
    with b D ok s' show ?thesis
      using inode_mark_length(2) [of s "unat (ia_total_inodes s)" b]
      by (auto simp: inode_allocator_ok_def inode_free_set_simps)
  qed (use g ok in \<open>auto simp: inode_give_eq [OF ok] split: if_splits\<close>)
qed

subsection \<open>Initialisation\<close>

lemma inode_allocator_init_ok:
  assumes init: "initrafs_inode_allocator_init al (Some sb) (Some bm) n = Some a"
    and len: "unat n \<le> length bm" and small: "unat (sb_inode_count sb) \<le> 2 ^ 32 - 8"
  shows "inode_allocator_ok a \<and> inode_free_set a = inode_units a \<and>
         ia_total_inodes a = sb_inode_count sb \<and> ia_first_allocatable_inode a = 2"
proof -
  let ?req = "initrafs_inode_bitmap_bytes (sb_inode_count sb)"
  define a0 where "a0 = \<lparr>ia_bitmap = Some (initrafs_zero_bytes bm ?req), ia_bitmap_bytes = ?req,
     ia_total_inodes = sb_inode_count sb, ia_first_allocatable_inode = 2,
     ia_free_inodes = sb_inode_count sb - 2, ia_superblock = Some sb\<rparr>"
  from init have lt: "1 < sb_inode_count sb" and req: "?req \<le> n"
    and a: "a = initrafs_inode_mark_used (initrafs_inode_mark_used a0 0) 1"
    by (auto simp: initrafs_inode_allocator_init_def a0_def Let_def not_le not_less
          split: option.splits if_splits)
  have u: "unat ?req = (unat (sb_inode_count sb) + 7) div 8"
    using unat_bitmap_bytes [OF small]
    by (simp add: initrafs_inode_bitmap_bytes_def initrafs_bitmap_bytes_def)
  have bits: "unat b div 8 < unat ?req" if "b < sb_inode_count sb" for b
    using that u by (simp add: word_less_nat_alt)
  have blen: "length (initrafs_zero_bytes bm ?req) = length bm"
    using req len by (simp add: initrafs_zero_bytes_def word_le_nat_alt)
  have cov: "inode_covered a0 b" if "b < sb_inode_count sb" for b
    using bits [OF that] req len by (simp add: inode_covered_def a0_def blen word_le_nat_alt)
  have "\<not> initrafs_inode_is_marked a0 b" if "b < sb_inode_count sb" for b
    using bits [OF that]
    by (simp add: inode_is_marked_bit a0_def initrafs_zero_bytes_def bitmap_bit_zero)
  then have fs0: "inode_free_set a0 = inode_units a0"
    by (auto simp: inode_free_set_def inode_units_def a0_def)
  have "0 < sb_inode_count sb" using lt by (simp add: word_less_nat_alt)
  then have cov01: "inode_covered a0 0" "inode_covered a0 1"
    using cov [of 0] cov [of 1] lt by simp_all
  then have "inode_free_set a = inode_units a0 - {0} - {1}"
    by (simp only: a fs0 inode_free_set_simps inode_bitmap.covers_mark_used)
  moreover have "0 \<notin> inode_units a0" "1 \<notin> inode_units a0" by (simp_all add: inode_units_def a0_def word_le_nat_alt)
  ultimately have fs: "inode_free_set a = inode_units a" by (simp add: a)
  have ge2: "2 \<le> sb_inode_count sb"
    using lt by (simp add: word_less_nat_alt word_le_nat_alt)
  have "inode_units a = {b. 1 < b \<and> b < sb_inode_count sb}"
    by (auto simp: a inode_units_def a0_def word_less_nat_alt word_le_nat_alt)
  then have "unat (ia_free_inodes a) = card (inode_units a)"
    using ge2 by (simp add: a a0_def card_u32_between unat_minus_le)
  moreover have "unat (sb_inode_count sb) \<le> 8 * length bm"
    using u req len by (simp add: word_le_nat_alt)
  ultimately have "inode_allocator_ok a"
    using fs ge2 inode_mark_length(1) [of a0 "unat (sb_inode_count sb)" 0]
      inode_mark_length(1) [of "initrafs_inode_mark_used a0 0" "unat (sb_inode_count sb)" 1]
    by (auto simp: inode_allocator_ok_def a a0_def blen word_less_nat_alt)
  with fs show ?thesis by (simp add: a a0_def)
qed

end
