(* ===== verification/Inodes.thy ===== *)
theory Inodes
  imports Inode_Allocator
begin

section \<open>In-memory inodes and permissions\<close>

text \<open>
  \<open>initrafs_inode_type_valid\<close>, \<open>initrafs_inode_init\<close>, \<open>initrafs_inode_create\<close>
  and \<open>initrafs_inode_check_permission\<close> of \<open>fs/initrafs.c\<close>. The main result is
  that the nine branches of the permission check decide exactly the bits of
  the caller's class in the mode.
\<close>

definition initrafs_inode_type_valid :: "u32 \<Rightarrow> bool" where
  "initrafs_inode_type_valid type \<longleftrightarrow>
     type = INODE_TYPE_FILE \<or> type = INODE_TYPE_DIRECTORY \<or> type = INODE_TYPE_SYMLINK \<or>
     type = INODE_TYPE_DEVICE"

definition initrafs_inode_init :: "fs_inode option \<Rightarrow> u32 \<Rightarrow> u32 \<Rightarrow> u32 \<Rightarrow> fs_inode option" where
  "initrafs_inode_init inode inode_number type mode =
     (if inode = None \<or> inode_number = INITRAFS_UNUSED_INODE \<or> \<not> initrafs_inode_type_valid type
      then None
      else Some (zero_fs_inode
        \<lparr>fi_inode_number := inode_number,
         fi_type := type,
         fi_mode := mode,
         fi_flags := 0,
         fi_size := 0,
         fi_owner := 0,
         fi_group := 0,
         fi_link_count := (if type = INODE_TYPE_DIRECTORY then 2 else 1),
         fi_created_time := 0,
         fi_modified_time := 0,
         fi_accessed_time := 0,
         fi_filesystem_private := 0\<rparr>))"

definition initrafs_inode_create ::
  "initrafs_inode_allocator_t option \<Rightarrow> fs_inode option \<Rightarrow> u32 \<Rightarrow> u32
     \<Rightarrow> bool \<times> initrafs_inode_allocator_t option \<times> fs_inode option" where
  "initrafs_inode_create allocator inode type mode =
     (if allocator = None \<or> inode = None \<or> \<not> initrafs_inode_type_valid type
      then (False, allocator, inode)
      else
        let (inode_number, allocator') = initrafs_inode_alloc allocator
        in if inode_number = INITRAFS_UNUSED_INODE then (False, allocator', inode)
           else case initrafs_inode_init inode inode_number type mode of
                  None \<Rightarrow> (False, snd (initrafs_inode_free allocator' inode_number), inode)
                | Some inode' \<Rightarrow> (True, allocator', Some inode'))"

text \<open>The octal masks 0400 .. 0001 of the source, in hexadecimal.\<close>

definition initrafs_inode_check_permission :: "fs_inode option \<Rightarrow> u32 \<Rightarrow> u32 \<Rightarrow> u32 \<Rightarrow> bool" where
  "initrafs_inode_check_permission inode user grp requested =
     (case inode of
        None \<Rightarrow> False
      | Some i \<Rightarrow>
          if requested = 0 \<or>
             requested AND NOT (INITRAFS_PERMISSION_READ OR INITRAFS_PERMISSION_WRITE OR
                                INITRAFS_PERMISSION_EXECUTE) \<noteq> 0
          then False
          else
            let mode = fi_mode i;
                allowed =
                  (if user = fi_owner i then
                     (if mode AND 0x100 \<noteq> 0 then INITRAFS_PERMISSION_READ else 0) OR
                     (if mode AND 0x080 \<noteq> 0 then INITRAFS_PERMISSION_WRITE else 0) OR
                     (if mode AND 0x040 \<noteq> 0 then INITRAFS_PERMISSION_EXECUTE else 0)
                   else if grp = fi_group i then
                     (if mode AND 0x020 \<noteq> 0 then INITRAFS_PERMISSION_READ else 0) OR
                     (if mode AND 0x010 \<noteq> 0 then INITRAFS_PERMISSION_WRITE else 0) OR
                     (if mode AND 0x008 \<noteq> 0 then INITRAFS_PERMISSION_EXECUTE else 0)
                   else
                     (if mode AND 0x004 \<noteq> 0 then INITRAFS_PERMISSION_READ else 0) OR
                     (if mode AND 0x002 \<noteq> 0 then INITRAFS_PERMISSION_WRITE else 0) OR
                     (if mode AND 0x001 \<noteq> 0 then INITRAFS_PERMISSION_EXECUTE else 0))
            in allowed AND requested = requested)"

subsection \<open>Creation\<close>

lemma inode_type_valid_file [simp]: "initrafs_inode_type_valid 1" "initrafs_inode_type_valid 2"
  by (simp_all add: initrafs_inode_type_valid_def)

lemma inode_init_fields:
  "initrafs_inode_init p n t m = Some i \<Longrightarrow>
     fi_inode_number i = n \<and> fi_type i = t \<and> fi_mode i = m \<and> fi_size i = 0 \<and> fi_flags i = 0 \<and>
     fi_owner i = 0 \<and> fi_group i = 0 \<and> fi_link_count i = (if t = 2 then 2 else 1)"
  by (auto simp: initrafs_inode_init_def split: if_splits)

lemma inode_init_Some:
  "n \<noteq> 0 \<Longrightarrow> initrafs_inode_type_valid t \<Longrightarrow> \<exists>i. initrafs_inode_init (Some p) n t m = Some i"
  by (simp add: initrafs_inode_init_def)

subsection \<open>The permission check\<close>

text \<open>The class of a caller: the number of the mode bit of its execute permission.\<close>

definition permission_class :: "fs_inode \<Rightarrow> u32 \<Rightarrow> u32 \<Rightarrow> nat" where
  "permission_class i user grp = (if user = fi_owner i then 6 else if grp = fi_group i then 3 else 0)"

lemma and_pow2_nonzero:
  "(m :: u32) AND 0x100 \<noteq> 0 \<longleftrightarrow> bit m 8" "m AND 0x080 \<noteq> 0 \<longleftrightarrow> bit m 7" "m AND 0x040 \<noteq> 0 \<longleftrightarrow> bit m 6"
  "m AND 0x020 \<noteq> 0 \<longleftrightarrow> bit m 5" "m AND 0x010 \<noteq> 0 \<longleftrightarrow> bit m 4" "m AND 0x008 \<noteq> 0 \<longleftrightarrow> bit m 3"
  "m AND 0x004 \<noteq> 0 \<longleftrightarrow> bit m 2" "m AND 0x002 \<noteq> 0 \<longleftrightarrow> bit m 1" "m AND 0x001 \<noteq> 0 \<longleftrightarrow> bit m 0"
  using bit_iff_and_push_bit_not_eq_0 [of m 8] bit_iff_and_push_bit_not_eq_0 [of m 7]
    bit_iff_and_push_bit_not_eq_0 [of m 6] bit_iff_and_push_bit_not_eq_0 [of m 5]
    bit_iff_and_push_bit_not_eq_0 [of m 4] bit_iff_and_push_bit_not_eq_0 [of m 3]
    bit_iff_and_push_bit_not_eq_0 [of m 2] bit_iff_and_push_bit_not_eq_0 [of m 1]
    bit_iff_and_push_bit_not_eq_0 [of m 0]
  by (simp_all del: bit_iff_and_push_bit_not_eq_0)

lemma requested_small:
  "(r :: u32) AND NOT 7 = 0 \<longleftrightarrow> (\<forall>k. bit r k \<longrightarrow> k < 3)"
proof -
  have "(7 :: u32) = mask 3" by (simp add: mask_numeral)
  then show ?thesis
    using u32_bit_less [of r] by (simp only:) (auto simp: bit_eq_iff bit_simps)
qed

lemma subset_bits_iff:
  "(a :: u32) AND r = r \<longleftrightarrow> (\<forall>k. bit r k \<longrightarrow> bit a k)"
  using u32_bit_less [of r] by (auto simp: bit_eq_iff bit_and_iff)

lemma bit_class_triple:
  "bit ((if x then 1 else 0) OR (if y then 2 else 0) OR (if z then 4 else (0 :: u32))) k \<longleftrightarrow>
     k = 0 \<and> x \<or> k = 1 \<and> y \<or> k = 2 \<and> z"
  by (cases x; cases y; cases z)
     (simp_all only: bit_or_iff bit_1_iff bit_u32_pow2 if_True if_False bit_0_eq bot_fun_def,
      auto)

lemma all_bits_small:
  "(\<forall>k. bit (r :: u32) k \<longrightarrow> k < 3 \<and> Q k) \<longleftrightarrow>
     (\<forall>k. bit r k \<longrightarrow> k < 3) \<and> (bit r 0 \<longrightarrow> Q 0) \<and> (bit r 1 \<longrightarrow> Q 1) \<and> (bit r 2 \<longrightarrow> Q 2)"
proof -
  have "k = 0 \<or> k = 1 \<or> k = (2 :: nat)" if "k < 3" for k using that by auto
  then show ?thesis by fastforce
qed

text \<open>
  C12: The permission check grants a request exactly when the request is not
  empty, asks for nothing beyond read, write and execute, and every requested
  permission is set in the mode bits of the caller's class. The class is the
  owner's if the caller owns the inode, else the group's if the groups agree,
  else the others'. No identity bypasses the mode.
\<close>

theorem check_permission_exact:
  "initrafs_inode_check_permission (Some i) user grp requested \<longleftrightarrow>
     requested \<noteq> 0 \<and>
     (\<forall>k. bit requested k \<longrightarrow> k < 3 \<and> bit (fi_mode i) (permission_class i user grp + 2 - k))"
proof -
  define small where "small \<longleftrightarrow> (\<forall>k. bit requested k \<longrightarrow> k < 3)"
  have all: "(\<forall>k. bit requested k \<longrightarrow> Q k) \<longleftrightarrow>
      (bit requested 0 \<longrightarrow> Q 0) \<and> (bit requested 1 \<longrightarrow> Q 1) \<and> (bit requested 2 \<longrightarrow> Q 2)"
    if small for Q
    using that all_bits_small [of requested Q] by (auto simp: small_def)
  have "(requested AND NOT (1 OR 2 OR 4) = 0) \<longleftrightarrow> small"
    using requested_small [of requested] by (simp add: small_def)
  note grant = this and_pow2_nonzero subset_bits_iff INITRAFS_PERMISSION_READ_def
    INITRAFS_PERMISSION_WRITE_def INITRAFS_PERMISSION_EXECUTE_def bit_class_triple
  show ?thesis
    unfolding all_bits_small small_def [symmetric]
      initrafs_inode_check_permission_def permission_class_def option.case Let_def
    by (cases small; cases "user = fi_owner i"; cases "grp = fi_group i")
       (simp_all only: grant all if_True if_False, simp_all add: numeral_2_eq_2)
qed

end
