(* ===== verification/Directory.thy ===== *)
theory Directory
  imports Inodes
begin

section \<open>Directories\<close>

text \<open>
  The directory-entry operations of \<open>fs/initrafs.c\<close>: name handling
  (\<open>initrafs_name_length\<close>, \<open>initrafs_name_equals\<close>,
  \<open>initrafs_directory_name_reserved\<close>, \<open>initrafs_directory_type_valid\<close>),
  \<open>initrafs_root_directory_init\<close>, \<open>initrafs_directory_lookup\<close>, \<open>_add\<close>,
  \<open>_remove\<close>, \<open>_create\<close>, \<open>_is_empty\<close> and \<open>_list\<close>.

  The abstract value of an entry array is a finite map from names to inode
  numbers (\<open>dir_map\<close>). The operations implement lookup, insertion and deletion
  on it and keep the array well formed (\<open>wf_directory\<close>): names of entries in
  use are valid C names and pairwise distinct.
\<close>

subsection \<open>Names\<close>

text \<open>The loop of \<open>initrafs_name_length\<close>: at most 48 characters before the NUL.\<close>

function name_length_loop :: "string \<Rightarrow> u32 \<Rightarrow> u32" where
  "name_length_loop name len =
     (if len \<le> INITRAFS_MAX_NAME_LENGTH then
        if cstr_at name (unat len) = CHR 0x00 then len else name_length_loop name (len + 1)
      else 0)"
  by pat_completeness auto
termination
proof (relation "measure (\<lambda>(s, n). 49 - unat n)")
  fix name :: string and len :: u32
  assume "len \<le> INITRAFS_MAX_NAME_LENGTH"
  then have "unat len \<le> 48" by (simp add: word_le_nat_alt)
  then show "((name, len + 1), name, len) \<in> measure (\<lambda>(s, n). 49 - unat n)"
    by (simp add: unat_add_1)
qed simp

declare name_length_loop.simps [simp del]

definition initrafs_name_length :: "string option \<Rightarrow> u32" where
  "initrafs_name_length name = (case name of None \<Rightarrow> 0 | Some s \<Rightarrow> name_length_loop s 0)"

definition initrafs_name_equals ::
  "initrafs_disk_dirent_t option \<Rightarrow> string option \<Rightarrow> u32 \<Rightarrow> bool" where
  "initrafs_name_equals entry name name_length =
     (case (entry, name) of
        (Some e, Some s) \<Rightarrow>
          if de_inode_number e = INITRAFS_UNUSED_INODE \<or> de_name_length e \<noteq> name_length then False
          else list_all (\<lambda>index. de_name e ! index = cstr_at s index) [0..<unat name_length]
      | _ \<Rightarrow> False)"

definition initrafs_directory_name_reserved :: "string \<Rightarrow> u32 \<Rightarrow> bool" where
  "initrafs_directory_name_reserved name name_length \<longleftrightarrow>
     (name_length = 1 \<and> cstr_at name 0 = CHR ''.'') \<or>
     (name_length = 2 \<and> cstr_at name 0 = CHR ''.'' \<and> cstr_at name 1 = CHR ''.'')"

definition initrafs_directory_type_valid :: "u32 \<Rightarrow> bool" where
  "initrafs_directory_type_valid type \<longleftrightarrow>
     type = INITRAFS_TYPE_FILE \<or> type = INITRAFS_TYPE_DIRECTORY \<or> type = INITRAFS_TYPE_SYMLINK \<or>
     type = INITRAFS_TYPE_DEVICE"

subsection \<open>Lookup, insertion, deletion\<close>

text \<open>
  The search loops of lookup and removal: the index of the first entry whose
  name matches.
\<close>

fun directory_scan :: "initrafs_disk_dirent_t list \<Rightarrow> string \<Rightarrow> u32 \<Rightarrow> nat \<Rightarrow> nat option" where
  "directory_scan [] name name_length index = None"
| "directory_scan (e # es) name name_length index =
     (if \<not> initrafs_name_equals (Some e) (Some name) name_length
      then directory_scan es name name_length (Suc index)
      else Some index)"

definition initrafs_directory_lookup ::
  "initrafs_disk_dirent_t list option \<Rightarrow> u32 \<Rightarrow> string option \<Rightarrow> nonnull \<Rightarrow> u32 option" where
  "initrafs_directory_lookup entries entry_count name inode_number =
     (case (entries, name) of
        (Some es, Some s) \<Rightarrow>
          if entry_count = 0 \<or> \<not> inode_number then None
          else
            let name_length = initrafs_name_length (Some s)
            in if name_length = 0 \<or> name_length > INITRAFS_MAX_NAME_LENGTH then None
               else case directory_scan (take (unat entry_count) es) s name_length 0 of
                      None \<Rightarrow> None
                    | Some index \<Rightarrow> Some (de_inode_number (es ! index))
      | _ \<Rightarrow> None)"

text \<open>
  The loop of \<open>initrafs_directory_add\<close>: \<open>None\<close> when the name exists already,
  else the index of the first unused entry, if there is one
  (\<open>free_index != entry_count\<close>).
\<close>

fun directory_add_loop ::
  "initrafs_disk_dirent_t list \<Rightarrow> string \<Rightarrow> u32 \<Rightarrow> nat \<Rightarrow> nat option \<Rightarrow> nat option option" where
  "directory_add_loop [] name name_length index free_index = Some free_index"
| "directory_add_loop (e # es) name name_length index free_index =
     (if initrafs_name_equals (Some e) (Some name) name_length then None
      else directory_add_loop es name name_length (Suc index)
             (if free_index = None \<and> de_inode_number e = INITRAFS_UNUSED_INODE
              then Some index else free_index))"

definition initrafs_directory_add ::
  "initrafs_disk_dirent_t list option \<Rightarrow> u32 \<Rightarrow> u32 \<Rightarrow> u32 \<Rightarrow> string option
     \<Rightarrow> initrafs_disk_dirent_t list option" where
  "initrafs_directory_add entries entry_count inode_number type name =
     (case (entries, name) of
        (Some es, Some s) \<Rightarrow>
          if entry_count = 0 \<or> inode_number = INITRAFS_UNUSED_INODE \<or>
             \<not> initrafs_directory_type_valid type then None
          else
            let name_length = initrafs_name_length (Some s)
            in if name_length = 0 \<or> name_length > INITRAFS_MAX_NAME_LENGTH \<or>
                  initrafs_directory_name_reserved s name_length then None
               else
                 (case directory_add_loop (take (unat entry_count) es) s name_length 0 None of
                    None \<Rightarrow> None
                  | Some None \<Rightarrow> None
                  | Some (Some free_index) \<Rightarrow>
                      Some (es[free_index := zero_dirent
                        \<lparr>de_inode_number := inode_number,
                         de_type := type,
                         de_name_length := name_length,
                         de_name := initrafs_copy_name (de_name zero_dirent) s name_length\<rparr>]))
      | _ \<Rightarrow> None)"

definition initrafs_directory_remove ::
  "initrafs_disk_dirent_t list option \<Rightarrow> u32 \<Rightarrow> string option
     \<Rightarrow> initrafs_disk_dirent_t list option" where
  "initrafs_directory_remove entries entry_count name =
     (case (entries, name) of
        (Some es, Some s) \<Rightarrow>
          if entry_count = 0 then None
          else
            let name_length = initrafs_name_length (Some s)
            in if name_length = 0 \<or> name_length > INITRAFS_MAX_NAME_LENGTH \<or>
                  initrafs_directory_name_reserved s name_length then None
               else case directory_scan (take (unat entry_count) es) s name_length 0 of
                      None \<Rightarrow> None
                    | Some index \<Rightarrow> Some (es[index := zero_dirent])
      | _ \<Rightarrow> None)"

subsection \<open>Initial contents, emptiness and listing\<close>

definition initrafs_root_directory_init ::
  "initrafs_disk_dirent_t list option \<Rightarrow> u32 \<Rightarrow> initrafs_disk_dirent_t list option" where
  "initrafs_root_directory_init entries entry_count =
     (case entries of
        None \<Rightarrow> None
      | Some es \<Rightarrow>
          if entry_count < INITRAFS_ROOT_DIR_ENTRIES then None
          else
            let zeroed = replicate (unat entry_count) zero_dirent @ drop (unat entry_count) es
            in Some (zeroed
                 [0 := zero_dirent
                    \<lparr>de_inode_number := INITRAFS_ROOT_INODE,
                     de_type := INITRAFS_TYPE_DIRECTORY,
                     de_name_length := 1,
                     de_name := initrafs_copy_name (de_name zero_dirent) ''.'' 1\<rparr>,
                  1 := zero_dirent
                    \<lparr>de_inode_number := INITRAFS_ROOT_INODE,
                     de_type := INITRAFS_TYPE_DIRECTORY,
                     de_name_length := 2,
                     de_name := initrafs_copy_name (de_name zero_dirent) ''..'' 2\<rparr>]))"

definition dirent_is_dot :: "initrafs_disk_dirent_t \<Rightarrow> bool" where
  "dirent_is_dot e \<longleftrightarrow>
     (de_name_length e = 1 \<and> de_name e ! 0 = CHR ''.'') \<or>
     (de_name_length e = 2 \<and> de_name e ! 0 = CHR ''.'' \<and> de_name e ! 1 = CHR ''.'')"

definition initrafs_directory_is_empty :: "initrafs_disk_dirent_t list option \<Rightarrow> u32 \<Rightarrow> bool" where
  "initrafs_directory_is_empty entries entry_count =
     (case entries of
        None \<Rightarrow> False
      | Some es \<Rightarrow>
          if entry_count < INITRAFS_ROOT_DIR_ENTRIES then False
          else list_all (\<lambda>e. de_inode_number e = INITRAFS_UNUSED_INODE \<or> dirent_is_dot e)
                 (take (unat entry_count) es))"

text \<open>
  Listing: the first loop counts the entries in use, the second copies them
  to the front of \<open>output\<close>. The result is the number listed and the new
  contents of \<open>output\<close>.
\<close>

definition initrafs_directory_list ::
  "initrafs_disk_dirent_t list option \<Rightarrow> u32 \<Rightarrow> initrafs_disk_dirent_t list option \<Rightarrow> u32 \<Rightarrow> nonnull
     \<Rightarrow> (u32 \<times> initrafs_disk_dirent_t list) option" where
  "initrafs_directory_list entries entry_count output output_capacity listed =
     (case (entries, output) of
        (Some es, Some out) \<Rightarrow>
          if \<not> listed \<or> entry_count = 0 then None
          else
            let used = filter (\<lambda>e. de_inode_number e \<noteq> INITRAFS_UNUSED_INODE)
                         (take (unat entry_count) es);
                required = of_nat (length used)
            in if output_capacity < required then None
               else Some (required, used @ drop (length used) out)
      | _ \<Rightarrow> None)"

subsection \<open>Creation\<close>

text \<open>
  \<open>initrafs_directory_create\<close>; the result is the return value and the
  allocator, inode, on-disk inode and entries afterwards.
\<close>

definition initrafs_directory_create ::
  "initrafs_inode_allocator_t option \<Rightarrow> fs_inode option \<Rightarrow> initrafs_disk_inode_t option
     \<Rightarrow> initrafs_disk_dirent_t list option \<Rightarrow> u32 \<Rightarrow> u32 \<Rightarrow> u32
     \<Rightarrow> bool \<times> initrafs_inode_allocator_t option \<times> fs_inode option \<times> initrafs_disk_inode_t option
        \<times> initrafs_disk_dirent_t list option" where
  "initrafs_directory_create allocator inode disk_inode entries entry_capacity mode parent_inode =
     (if allocator = None \<or> inode = None \<or> disk_inode = None \<or> entries = None \<or>
         entry_capacity < INITRAFS_ROOT_DIR_ENTRIES \<or> parent_inode = INITRAFS_UNUSED_INODE
      then (False, allocator, inode, disk_inode, entries)
      else
        let (inode_number, allocator') = initrafs_inode_alloc allocator
        in if inode_number = INITRAFS_UNUSED_INODE
           then (False, allocator', inode, disk_inode, entries)
           else
             case initrafs_inode_init inode inode_number INODE_TYPE_DIRECTORY mode of
               None \<Rightarrow> (False, snd (initrafs_inode_free allocator' inode_number), inode, disk_inode, entries)
             | Some inode' \<Rightarrow>
                 let disk_inode' = initrafs_inode_integrity_update
                       (zero_disk_inode
                         \<lparr>di_inode_number := inode_number,
                          di_type := INITRAFS_TYPE_DIRECTORY,
                          di_mode := mode,
                          di_size := INITRAFS_ROOT_DIR_ENTRIES * sizeof_disk_dirent,
                          di_owner := 0,
                          di_group := 0,
                          di_link_count := 2\<rparr>)
                 in case initrafs_root_directory_init entries entry_capacity of
                      None \<Rightarrow> (False, snd (initrafs_inode_free allocator' inode_number),
                               Some inode', Some disk_inode', entries)
                    | Some es \<Rightarrow>
                        (True, allocator', Some inode', Some disk_inode',
                         Some (es[0 := (es ! 0)\<lparr>de_inode_number := inode_number\<rparr>,
                                  1 := (es ! 1)\<lparr>de_inode_number := parent_inode\<rparr>])))"

subsection \<open>The abstract directory\<close>

definition entry_used :: "initrafs_disk_dirent_t \<Rightarrow> bool" where
  "entry_used e \<longleftrightarrow> de_inode_number e \<noteq> INITRAFS_UNUSED_INODE"

definition entry_name :: "initrafs_disk_dirent_t \<Rightarrow> string" where
  "entry_name e = take (unat (de_name_length e)) (de_name e)"

definition dir_map :: "initrafs_disk_dirent_t list \<Rightarrow> string \<Rightarrow> u32 option" where
  "dir_map es = map_of (map (\<lambda>e. (entry_name e, de_inode_number e)) (filter entry_used es))"

definition valid_name :: "string \<Rightarrow> bool" where
  "valid_name s \<longleftrightarrow> s \<noteq> [] \<and> length s \<le> 48 \<and> CHR 0x00 \<notin> set s"

definition wf_entry :: "initrafs_disk_dirent_t \<Rightarrow> bool" where
  "wf_entry e \<longleftrightarrow> wf_dirent e \<and> de_name_length e \<le> INITRAFS_MAX_NAME_LENGTH \<and>
     (entry_used e \<longrightarrow> valid_name (entry_name e))"

definition wf_directory :: "initrafs_disk_dirent_t list \<Rightarrow> bool" where
  "wf_directory es \<longleftrightarrow> (\<forall>e \<in> set es. wf_entry e) \<and> distinct (map entry_name (filter entry_used es))"

lemma entry_used_zero [simp]: "\<not> entry_used zero_dirent"
  by (simp add: entry_used_def zero_dirent_def)

lemma wf_entry_zero [simp]: "wf_entry zero_dirent"
  by (simp add: wf_entry_def) (simp add: zero_dirent_def)

subsubsection \<open>Names\<close>

lemma valid_name_nth: "valid_name s \<Longrightarrow> i < length s \<Longrightarrow> cstr_at s i \<noteq> CHR 0x00"
  by (metis cstr_at_nth nth_mem valid_name_def)

lemma name_length_loop_valid:
  "CHR 0x00 \<notin> set s \<Longrightarrow> length s \<le> 48 \<Longrightarrow> unat n \<le> length s \<Longrightarrow>
   unat (name_length_loop s n) = length s"
proof (induction s n rule: name_length_loop.induct)
  case (1 s n)
  show ?case
  proof (cases "unat n < length s")
    case True
    with 1(2,3) have c: "cstr_at s (unat n) \<noteq> CHR 0x00" by (metis cstr_at_nth nth_mem)
    from True 1(3) have "unat n < 48" by linarith
    then have n: "n \<le> INITRAFS_MAX_NAME_LENGTH" and s1: "unat (n + 1) = Suc (unat n)"
      by (simp_all add: word_le_nat_alt unat_add_1)
    have "unat (name_length_loop s (n + 1)) = length s"
      using 1(1) [OF n c 1(2,3)] True s1 by simp
    with n c show ?thesis by (simp add: name_length_loop.simps [of s n])
  next
    case False
    with 1 have "unat n = length s" by simp
    then show ?thesis using 1(3)
      by (simp add: name_length_loop.simps [of s n] cstr_at_def word_le_nat_alt)
  qed
qed

lemma name_length_valid:
  assumes "valid_name s"
  shows "unat (initrafs_name_length (Some s)) = length s"
    and "initrafs_name_length (Some s) \<noteq> 0" and "initrafs_name_length (Some s) \<le> 48"
proof -
  show u: "unat (initrafs_name_length (Some s)) = length s"
    using assms name_length_loop_valid [of s 0] by (simp add: initrafs_name_length_def valid_name_def)
  with assms show "initrafs_name_length (Some s) \<noteq> 0" "initrafs_name_length (Some s) \<le> 48"
    by (auto simp: valid_name_def word_le_nat_alt)
qed

lemma name_equals_valid:
  assumes "wf_entry e" and "valid_name s"
  shows "initrafs_name_equals (Some e) (Some s) (initrafs_name_length (Some s)) \<longleftrightarrow>
           entry_used e \<and> entry_name e = s"
proof -
  note n = name_length_valid [OF assms(2)]
  from assms(1) have len: "length (de_name e) = 48" "unat (de_name_length e) \<le> 48"
    by (auto simp: wf_entry_def wf_dirent_def word_le_nat_alt)
  have "de_name_length e = initrafs_name_length (Some s) \<longleftrightarrow> unat (de_name_length e) = length s"
    by (metis n(1) unsigned_word_eqI)
  moreover have "(\<forall>i < length s. de_name e ! i = cstr_at s i) \<longleftrightarrow> take (length s) (de_name e) = s"
  proof -
    have "length s \<le> length (de_name e)" using assms(2) len by (simp add: valid_name_def)
    then show ?thesis by (simp add: list_eq_iff_nth_eq cstr_at_def)
  qed
  moreover have "list_all (\<lambda>i. de_name e ! i = cstr_at s i) [0..<unat (initrafs_name_length (Some s))]
      \<longleftrightarrow> (\<forall>i < length s. de_name e ! i = cstr_at s i)"
    by (auto simp: list_all_iff n(1))
  ultimately show ?thesis
    using len by (auto simp: initrafs_name_equals_def entry_used_def entry_name_def)
qed

lemma length_1_2: "length s = 1 \<and> cstr_at s 0 = c \<longleftrightarrow> s = [c]"
  "length s = 2 \<and> cstr_at s 0 = c \<and> cstr_at s 1 = d \<longleftrightarrow> s = [c, d]"
  by (cases s; simp add: cstr_at_def; cases "tl s"; auto simp: cstr_at_def)+

lemma name_reserved_valid:
  assumes "valid_name s"
  shows "initrafs_directory_name_reserved s (initrafs_name_length (Some s)) \<longleftrightarrow> s = ''.'' \<or> s = ''..''"
proof -
  have one: "initrafs_name_length (Some s) = 1 \<longleftrightarrow> length s = 1"
    and two: "initrafs_name_length (Some s) = 2 \<longleftrightarrow> length s = 2"
    using name_length_valid(1) [OF assms] by (auto simp: word_unat_eq_iff)
  show ?thesis
    unfolding initrafs_directory_name_reserved_def one two
    by (simp only: length_1_2)
qed

subsubsection \<open>The loops against the map\<close>

definition matches :: "string \<Rightarrow> initrafs_disk_dirent_t \<Rightarrow> bool" where
  "matches s e \<longleftrightarrow> entry_used e \<and> entry_name e = s"

lemma name_equals_matches:
  "wf_entry e \<Longrightarrow> valid_name s \<Longrightarrow>
   initrafs_name_equals (Some e) (Some s) (initrafs_name_length (Some s)) \<longleftrightarrow> matches s e"
  by (simp add: name_equals_valid matches_def)

lemma directory_scan_eq:
  assumes "\<forall>e \<in> set es. wf_entry e" and "valid_name s"
  shows "directory_scan es s (initrafs_name_length (Some s)) k =
           (if \<exists>e \<in> set es. matches s e
            then Some (k + length (takeWhile (\<lambda>e. \<not> matches s e) es)) else None)"
  using assms(1) by (induction es arbitrary: k) (simp_all add: name_equals_matches [OF _ assms(2)])

lemma dir_map_None_iff: "dir_map es s = None \<longleftrightarrow> (\<forall>e \<in> set es. \<not> matches s e)"
  by (auto simp: dir_map_def map_of_eq_None_iff matches_def image_iff)

lemma dir_map_first:
  "i < length es \<Longrightarrow> matches s (es ! i) \<Longrightarrow> \<forall>j < i. \<not> matches s (es ! j) \<Longrightarrow>
   dir_map es s = Some (de_inode_number (es ! i))"
proof (induction es arbitrary: i)
  case (Cons e es)
  then show ?case
  proof (cases i)
    case 0
    with Cons.prems show ?thesis by (simp add: dir_map_def matches_def)
  next
    case (Suc k)
    with Cons.prems have "\<not> matches s e" "dir_map es s = Some (de_inode_number (es ! k))"
      by (auto intro!: Cons.IH)
    with Suc show ?thesis by (auto simp: dir_map_def matches_def)
  qed
qed simp

lemma directory_scan_dir_map:
  assumes "\<forall>e \<in> set es. wf_entry e" and "valid_name s"
  shows "case directory_scan es s (initrafs_name_length (Some s)) 0 of
           None \<Rightarrow> dir_map es s = None
         | Some j \<Rightarrow> j < length es \<and> matches s (es ! j) \<and> dir_map es s = Some (de_inode_number (es ! j))"
proof (cases "\<exists>e \<in> set es. matches s e")
  case True
  let ?j = "length (takeWhile (\<lambda>e. \<not> matches s e) es)"
  have j: "?j < length es" using True by (auto intro: takeWhile_shorter)
  moreover have "matches s (es ! ?j)" using nth_length_takeWhile [OF j] by simp
  moreover have "\<forall>i < ?j. \<not> matches s (es ! i)"
    using takeWhile_nth [of _ "\<lambda>e. \<not> matches s e" es] nth_mem set_takeWhileD by metis
  ultimately show ?thesis
    using True directory_scan_eq [OF assms, of 0] dir_map_first [of ?j es s] by simp
next
  case False
  then show ?thesis using directory_scan_eq [OF assms, of 0] by (simp add: dir_map_None_iff)
qed

lemma directory_add_loop_spec:
  assumes "\<forall>e \<in> set es. wf_entry e" and "valid_name s"
  shows "directory_add_loop es s (initrafs_name_length (Some s)) k fi =
           (if dir_map es s \<noteq> None then None
            else Some (case fi of Some j \<Rightarrow> Some j
                       | None \<Rightarrow> map_option (\<lambda>i. i + k)
                           (if list_all entry_used es then None
                            else Some (length (takeWhile entry_used es)))))"
  using assms(1)
proof (induction es arbitrary: k fi)
  case (Cons e es)
  then have wf: "wf_entry e" and wfs: "\<forall>e \<in> set es. wf_entry e" by simp_all
  have none: "dir_map (e # es) s = None \<longleftrightarrow> \<not> matches s e \<and> dir_map es s = None"
    by (auto simp: dir_map_None_iff)
  have eq: "initrafs_name_equals (Some e) (Some s) (initrafs_name_length (Some s)) \<longleftrightarrow> matches s e"
    using name_equals_valid [OF wf assms(2)] by (simp add: matches_def)
  have unused: "de_inode_number e = INITRAFS_UNUSED_INODE \<longleftrightarrow> \<not> entry_used e"
    by (simp add: entry_used_def)
  show ?case
    using Cons.IH [OF wfs]
    by (cases "matches s e"; cases "entry_used e"; cases fi)
       (simp_all add: none eq unused del: INITRAFS_UNUSED_INODE_def)
qed (simp add: dir_map_def split: option.splits)

subsubsection \<open>Updates of one entry\<close>

lemma filter_update_replace:
  assumes "i < length es"
  shows "\<exists>xs ys. filter P es = xs @ (if P (es ! i) then [es ! i] else []) @ ys \<and>
           filter P (es[i := e]) = xs @ (if P e then [e] else []) @ ys"
proof -
  have "es = take i es @ es ! i # drop (Suc i) es" using assms by (simp add: id_take_nth_drop)
  then have "filter P es = filter P (take i es) @ filter P [es ! i] @ filter P (drop (Suc i) es)"
    by (metis append_Cons append_Nil filter_append)
  moreover have "filter P (es[i := e]) = filter P (take i es) @ filter P [e] @ filter P (drop (Suc i) es)"
    using assms by (simp add: upd_conv_take_nth_drop)
  ultimately show ?thesis by force
qed

lemma dir_map_fill:
  assumes "i < length es" and "\<not> entry_used (es ! i)" and "entry_used e"
    and "dir_map es (entry_name e) = None"
  shows "dir_map (es[i := e]) = (dir_map es)(entry_name e \<mapsto> de_inode_number e)"
proof -
  from filter_update_replace [OF assms(1), of entry_used e] assms(2,3) obtain xs ys where
    f: "filter entry_used es = xs @ ys" "filter entry_used (es[i := e]) = xs @ e # ys" by auto
  let ?p = "\<lambda>e. (entry_name e, de_inode_number e)"
  from assms(4) f have "entry_name e \<notin> fst ` set (map ?p xs)"
    by (auto simp: dir_map_def map_of_eq_None_iff)
  then have "map_of (map ?p xs) (entry_name e) = None" by (simp add: map_of_eq_None_iff)
  then show ?thesis
    by (auto simp: dir_map_def f map_add_def fun_eq_iff split: option.splits)
qed

lemma dir_map_clear:
  assumes "i < length es" and "matches s (es ! i)" and "distinct (map entry_name (filter entry_used es))"
  shows "dir_map (es[i := zero_dirent]) = (dir_map es)(s := None)"
proof -
  from filter_update_replace [OF assms(1), of entry_used zero_dirent] assms(2) obtain xs ys where
    f: "filter entry_used es = xs @ es ! i # ys" "filter entry_used (es[i := zero_dirent]) = xs @ ys"
    by (auto simp: matches_def)
  let ?p = "\<lambda>e. (entry_name e, de_inode_number e)"
  from assms(2,3) f have "s \<notin> fst ` set (map ?p xs)" "s \<notin> fst ` set (map ?p ys)"
    by (auto simp: matches_def)
  then have "map_of (map ?p xs) s = None" "map_of (map ?p ys) s = None"
    by (simp_all add: map_of_eq_None_iff)
  with assms(2) show ?thesis
    by (auto simp: dir_map_def f matches_def map_add_def fun_eq_iff split: option.splits)
qed

lemma wf_directory_fill:
  assumes "wf_directory es" and "i < length es" and "\<not> entry_used (es ! i)" and "wf_entry e"
    and "entry_used e" and "dir_map es (entry_name e) = None"
  shows "wf_directory (es[i := e])"
proof -
  from filter_update_replace [OF assms(2), of entry_used e] assms(3,5) obtain xs ys where
    f: "filter entry_used es = xs @ ys" "filter entry_used (es[i := e]) = xs @ e # ys" by auto
  from assms(6) have "entry_name e \<notin> set (map entry_name (xs @ ys))"
    by (simp add: dir_map_def f map_of_eq_None_iff image_Un image_image)
  with assms(1,4) f show ?thesis
    by (auto simp: wf_directory_def dest: set_update_subset_insert [THEN subsetD])
qed

lemma wf_directory_clear:
  assumes "wf_directory es" and "i < length es"
  shows "wf_directory (es[i := zero_dirent])"
proof -
  from filter_update_replace [OF assms(2), of entry_used zero_dirent] obtain xs ys where
    f: "filter entry_used es = xs @ (if entry_used (es ! i) then [es ! i] else []) @ ys"
       "filter entry_used (es[i := zero_dirent]) = xs @ ys"
    by auto
  with assms(1) show ?thesis
    by (auto simp: wf_directory_def dest: set_update_subset_insert [THEN subsetD] split: if_splits)
qed

subsection \<open>The directory contract\<close>

text \<open>
  What the callers of a directory rely on: it is a map from names to inode
  numbers; insertion adds a fresh binding, deletion removes an existing one,
  and neither touches \<open>.\<close> and \<open>..\<close>.
\<close>

locale directory_ops =
  fixes lookup :: "'d \<Rightarrow> string \<Rightarrow> u32 option"
    and add_entry :: "'d \<Rightarrow> u32 \<Rightarrow> u32 \<Rightarrow> string \<Rightarrow> 'd option"
    and remove_entry :: "'d \<Rightarrow> string \<Rightarrow> 'd option"
    and contents :: "'d \<Rightarrow> string \<Rightarrow> u32 option"
    and has_room :: "'d \<Rightarrow> bool"
    and invar :: "'d \<Rightarrow> bool"
  assumes lookup_contents: "invar d \<Longrightarrow> valid_name s \<Longrightarrow> lookup d s = contents d s"
    and add_defined: "invar d \<Longrightarrow> valid_name s \<Longrightarrow> add_entry d n t s \<noteq> None \<longleftrightarrow>
          n \<noteq> 0 \<and> initrafs_directory_type_valid t \<and> s \<notin> {''.'', ''..''} \<and> contents d s = None \<and> has_room d"
    and add_contents: "invar d \<Longrightarrow> valid_name s \<Longrightarrow> add_entry d n t s = Some d' \<Longrightarrow>
          contents d' = (contents d)(s \<mapsto> n)"
    and remove_defined: "invar d \<Longrightarrow> valid_name s \<Longrightarrow> remove_entry d s \<noteq> None \<longleftrightarrow>
          s \<notin> {''.'', ''..''} \<and> contents d s \<noteq> None"
    and remove_contents: "invar d \<Longrightarrow> valid_name s \<Longrightarrow> remove_entry d s = Some d' \<Longrightarrow>
          contents d' = (contents d)(s := None)"
    and invar_add: "invar d \<Longrightarrow> valid_name s \<Longrightarrow> add_entry d n t s = Some d' \<Longrightarrow> invar d'"
    and invar_remove: "invar d \<Longrightarrow> valid_name s \<Longrightarrow> remove_entry d s = Some d' \<Longrightarrow> invar d' \<and> has_room d'"
begin

lemma lookup_add:
  assumes "invar d" and "valid_name s" and "valid_name s'" and "add_entry d n t s = Some d'"
  shows "lookup d' s' = (if s' = s then Some n else lookup d s')"
  using assms invar_add [OF assms(1,2,4)] by (simp add: lookup_contents add_contents)

lemma lookup_remove:
  assumes "invar d" and "valid_name s" and "valid_name s'" and "remove_entry d s = Some d'"
  shows "lookup d' s' = (if s' = s then None else lookup d s')"
  using assms invar_remove [OF assms(1,2,4)] by (simp add: lookup_contents remove_contents)

lemma add_twice_fails:
  assumes "invar d" and "valid_name s" and "add_entry d n t s = Some d'"
  shows "add_entry d' m u s = None"
  using add_defined [OF invar_add [OF assms] assms(2), of m u] add_contents [OF assms] by auto

lemma remove_added:
  assumes "invar d" and "valid_name s" and "add_entry d n t s = Some d'"
  shows "\<exists>d''. remove_entry d' s = Some d'' \<and> invar d'' \<and> contents d'' = contents d"
proof -
  have "s \<notin> {''.'', ''..''}" and fresh: "contents d s = None"
    using add_defined [OF assms(1,2), of n t] assms(3) by auto
  moreover have i: "invar d'" by (rule invar_add [OF assms])
  moreover have c: "contents d' = (contents d)(s \<mapsto> n)" by (rule add_contents [OF assms])
  ultimately obtain d'' where r: "remove_entry d' s = Some d''"
    using remove_defined [of d' s] assms(2) by auto
  from remove_contents [OF i assms(2) r] c fresh have "contents d'' = contents d"
    by (auto simp: fun_eq_iff)
  with r invar_remove [OF i assms(2) r] show ?thesis by blast
qed

lemma dots_survive:
  assumes "invar d" and "valid_name s" and "s' \<in> {''.'', ''..''}"
  shows "add_entry d n t s = Some d' \<Longrightarrow> contents d' s' = contents d s'"
    and "remove_entry d s = Some d' \<Longrightarrow> contents d' s' = contents d s'"
  using assms add_defined [of d s n t] remove_defined [of d s]
  by (auto simp: add_contents remove_contents)

end

text \<open>The calls as the namespace and path code makes them: a non-NULL array and its size.\<close>

definition dir_lookup :: "initrafs_disk_dirent_t list \<Rightarrow> string \<Rightarrow> u32 option" where
  "dir_lookup es s = initrafs_directory_lookup (Some es) (of_nat (length es)) (Some s) True"

definition dir_add ::
  "initrafs_disk_dirent_t list \<Rightarrow> u32 \<Rightarrow> u32 \<Rightarrow> string \<Rightarrow> initrafs_disk_dirent_t list option" where
  "dir_add es n t s = initrafs_directory_add (Some es) (of_nat (length es)) n t (Some s)"

definition dir_remove :: "initrafs_disk_dirent_t list \<Rightarrow> string \<Rightarrow> initrafs_disk_dirent_t list option" where
  "dir_remove es s = initrafs_directory_remove (Some es) (of_nat (length es)) (Some s)"

definition dir_has_room :: "initrafs_disk_dirent_t list \<Rightarrow> bool" where
  "dir_has_room es \<longleftrightarrow> (\<exists>e \<in> set es. \<not> entry_used e)"

definition dir_ok :: "initrafs_disk_dirent_t list \<Rightarrow> bool" where
  "dir_ok es \<longleftrightarrow> wf_directory es \<and> es \<noteq> [] \<and> length es < 2 ^ 32"

lemma dir_okD:
  assumes "dir_ok es"
  shows "\<forall>e \<in> set es. wf_entry e" "wf_directory es" "es \<noteq> []"
    "unat (of_nat (length es) :: u32) = length es" "(of_nat (length es) :: u32) \<noteq> 0"
proof -
  from assms show w: "wf_directory es" "es \<noteq> []" by (simp_all add: dir_ok_def)
  then show "\<forall>e \<in> set es. wf_entry e" by (simp add: wf_directory_def)
  from assms have l: "length es < 2 ^ 32" by (simp add: dir_ok_def)
  then show u: "unat (of_nat (length es) :: u32) = length es" by (simp add: unat_of_nat)
  show "(of_nat (length es) :: u32) \<noteq> 0"
  proof
    assume "(of_nat (length es) :: u32) = 0"
    with u have "length es = 0" by (metis unat_0)
    with w show False by simp
  qed
qed

lemma dir_lookup_map:
  assumes "dir_ok es" and "valid_name s"
  shows "dir_lookup es s = dir_map es s"
proof -
  have "\<not> 48 < initrafs_name_length (Some s)"
    using name_length_valid(3) [OF assms(2)] by (simp add: not_less)
  then show ?thesis
    using dir_okD [OF assms(1)] name_length_valid [OF assms(2)]
      directory_scan_dir_map [OF dir_okD(1) [OF assms(1)] assms(2)]
    by (auto simp: dir_lookup_def initrafs_directory_lookup_def Let_def split: option.splits)
qed

definition new_entry :: "u32 \<Rightarrow> u32 \<Rightarrow> string \<Rightarrow> initrafs_disk_dirent_t" where
  "new_entry n t s = zero_dirent
     \<lparr>de_inode_number := n, de_type := t, de_name_length := initrafs_name_length (Some s),
      de_name := initrafs_copy_name (de_name zero_dirent) s (initrafs_name_length (Some s))\<rparr>"

lemma new_entry_facts:
  assumes "valid_name s" and "n \<noteq> 0"
  shows "entry_used (new_entry n t s)" "entry_name (new_entry n t s) = s"
    "wf_entry (new_entry n t s)" "de_inode_number (new_entry n t s) = n"
proof -
  note l = name_length_valid [OF assms(1)]
  have len: "length s \<le> 48" using assms(1) by (simp add: valid_name_def)
  note copy = map_cstr_at [of s]
  show used: "entry_used (new_entry n t s)"
    using assms(2) by (simp add: new_entry_def entry_used_def)
  show name: "entry_name (new_entry n t s) = s"
    by (simp add: new_entry_def entry_name_def initrafs_copy_name_def l(1) copy)
  show "wf_entry (new_entry n t s)"
    using name assms(1) len l
    by (simp add: wf_entry_def) (simp add: new_entry_def wf_dirent_def initrafs_copy_name_def zero_dirent_def)
  show "de_inode_number (new_entry n t s) = n" by (simp add: new_entry_def)
qed

lemma dir_add_eq:
  assumes "dir_ok es" and "valid_name s"
  shows "dir_add es n t s =
    (if n \<noteq> 0 \<and> initrafs_directory_type_valid t \<and> s \<notin> {''.'', ''..''} \<and> dir_map es s = None \<and>
        dir_has_room es
     then Some (es[length (takeWhile entry_used es) := new_entry n t s]) else None)"
proof -
  note d = dir_okD [OF assms(1)] and l = name_length_valid [OF assms(2)]
  have "\<not> 48 < initrafs_name_length (Some s)" using l(3) by (simp add: not_less)
  moreover have "dir_has_room es \<longleftrightarrow> \<not> list_all entry_used es"
    by (auto simp: dir_has_room_def list_all_iff)
  ultimately show ?thesis
    using directory_add_loop_spec [OF d(1) assms(2), of 0 None] d l
    by (auto simp: dir_add_def initrafs_directory_add_def name_reserved_valid [OF assms(2)] Let_def
          new_entry_def)
qed

lemma dir_add_slot:
  assumes "dir_has_room es"
  shows "length (takeWhile entry_used es) < length es"
    "\<not> entry_used (es ! length (takeWhile entry_used es))"
proof -
  show l: "length (takeWhile entry_used es) < length es"
    using assms by (auto simp: dir_has_room_def intro: takeWhile_shorter)
  show "\<not> entry_used (es ! length (takeWhile entry_used es))" by (rule nth_length_takeWhile [OF l])
qed

lemma dir_remove_cases:
  assumes "dir_ok es" and "valid_name s"
  shows "(dir_remove es s \<noteq> None \<longleftrightarrow> s \<notin> {''.'', ''..''} \<and> dir_map es s \<noteq> None) \<and>
    (\<forall>es'. dir_remove es s = Some es' \<longrightarrow>
       (\<exists>i < length es. matches s (es ! i) \<and> es' = es[i := zero_dirent]))"
proof -
  note d = dir_okD [OF assms(1)] and l = name_length_valid [OF assms(2)]
  have "\<not> 48 < initrafs_name_length (Some s)" using l(3) by (simp add: not_less)
  then show ?thesis
    using directory_scan_dir_map [OF d(1) assms(2)] d l
    by (auto simp: dir_remove_def initrafs_directory_remove_def name_reserved_valid [OF assms(2)]
          Let_def split: option.splits)
qed

interpretation dir: directory_ops dir_lookup dir_add dir_remove dir_map dir_has_room dir_ok
proof
  fix d :: "initrafs_disk_dirent_t list" and d' s n t
  assume ok: "dir_ok d" and s: "valid_name s"
  note wf = dir_okD [OF ok]
  show "dir_lookup d s = dir_map d s" by (rule dir_lookup_map [OF ok s])
  show "dir_add d n t s \<noteq> None \<longleftrightarrow> n \<noteq> 0 \<and> initrafs_directory_type_valid t \<and>
          s \<notin> {''.'', ''..''} \<and> dir_map d s = None \<and> dir_has_room d"
    by (simp add: dir_add_eq [OF ok s])
  show "dir_remove d s \<noteq> None \<longleftrightarrow> s \<notin> {''.'', ''..''} \<and> dir_map d s \<noteq> None"
    using dir_remove_cases [OF ok s] by blast
  {
    assume "dir_add d n t s = Some d'"
    then have g: "n \<noteq> 0" "dir_map d s = None" "dir_has_room d"
      and d': "d' = d[length (takeWhile entry_used d) := new_entry n t s]"
      by (auto simp: dir_add_eq [OF ok s] split: if_splits)
    note slot = dir_add_slot [OF g(3)] and ne = new_entry_facts [OF s g(1), of t]
    show "dir_map d' = (dir_map d)(s \<mapsto> n)"
      using dir_map_fill [OF slot ne(1)] g ne by (simp add: d')
    show "dir_ok d'"
      using wf_directory_fill [OF wf(2) slot ne(3,1)] g ne ok by (simp add: d' dir_ok_def)
  }
  assume "dir_remove d s = Some d'"
  then obtain i where i: "i < length d" "matches s (d ! i)" and d': "d' = d[i := zero_dirent]"
    using dir_remove_cases [OF ok s] by blast
  show "dir_map d' = (dir_map d)(s := None)"
    using dir_map_clear [OF i] wf(2) by (simp add: d' wf_directory_def)
  have "zero_dirent \<in> set d'" using i(1) by (simp add: d' set_update_memI)
  then have "dir_has_room d'" using entry_used_zero unfolding dir_has_room_def by blast
  with wf_directory_clear [OF wf(2) i(1)] ok show "dir_ok d' \<and> dir_has_room d'"
    by (simp add: d' dir_ok_def)
qed

subsection \<open>Emptiness, listing and creation\<close>

lemma dirent_is_dot_name:
  assumes "wf_entry e"
  shows "dirent_is_dot e \<longleftrightarrow> entry_name e = ''.'' \<or> entry_name e = ''..''"
proof -
  have len: "length (de_name e) = 48" using assms by (simp add: wf_entry_def wf_dirent_def)
  have le: "unat (de_name_length e) \<le> 48" using assms by (simp add: wf_entry_def word_le_nat_alt)
  have l: "length (entry_name e) = unat (de_name_length e)" using len le by (simp add: entry_name_def)
  have one: "de_name_length e = 1 \<longleftrightarrow> length (entry_name e) = 1"
    and two: "de_name_length e = 2 \<longleftrightarrow> length (entry_name e) = 2"
    using l by (auto simp: word_unat_eq_iff)
  have nth: "de_name e ! i = cstr_at (entry_name e) i" if "i < length (entry_name e)" for i
    using that l by (simp add: cstr_at_nth entry_name_def)
  have "dirent_is_dot e \<longleftrightarrow>
      (length (entry_name e) = 1 \<and> cstr_at (entry_name e) 0 = CHR ''.'') \<or>
      (length (entry_name e) = 2 \<and> cstr_at (entry_name e) 0 = CHR ''.'' \<and> cstr_at (entry_name e) 1 = CHR ''.'')"
    unfolding dirent_is_dot_def one two using nth by auto
  then show ?thesis by (simp only: length_1_2)
qed

lemma dom_dir_map: "dom (dir_map es) = entry_name ` set (filter entry_used es)"
  by (simp add: dir_map_def dom_map_of_conv_image_fst image_image)

lemma directory_is_empty_map:
  assumes "dir_ok es" and "2 \<le> length es"
  shows "initrafs_directory_is_empty (Some es) (of_nat (length es)) \<longleftrightarrow> dom (dir_map es) \<subseteq> {''.'', ''..''}"
proof -
  note d = dir_okD [OF assms(1)]
  have n: "\<not> of_nat (length es) < (2 :: u32)" using assms(2) d(4) by (simp add: word_less_nat_alt)
  have "(\<forall>e \<in> set es. de_inode_number e = 0 \<or> dirent_is_dot e)
          \<longleftrightarrow> (\<forall>e \<in> set es. entry_used e \<longrightarrow> entry_name e \<in> {''.'', ''..''})"
    using d(1) dirent_is_dot_name by (auto simp: entry_used_def)
  with n d(4) show ?thesis
    by (auto simp: initrafs_directory_is_empty_def list_all_iff dom_dir_map)
qed

lemma directory_list_used:
  assumes "dir_ok es" and "length out \<ge> unat cap"
    and "initrafs_directory_list (Some es) (of_nat (length es)) (Some out) cap True = Some (k, out')"
  shows "unat k \<le> unat cap \<and> take (unat k) out' = filter entry_used es \<and>
         drop (unat k) out' = drop (unat k) out \<and> length out' = length out"
proof -
  note d = dir_okD [OF assms(1)]
  have f: "filter (\<lambda>e. de_inode_number e \<noteq> INITRAFS_UNUSED_INODE) es = filter entry_used es"
    by (rule filter_cong) (simp_all add: entry_used_def)
  have "length (filter entry_used es) < 2 ^ 32"
    using assms(1) length_filter_le [of entry_used es] unfolding dir_ok_def by linarith
  then have u: "unat (of_nat (length (filter entry_used es)) :: u32) = length (filter entry_used es)"
    by (simp add: unat_of_nat)
  show ?thesis
    using assms(2,3) d(4,5) u
    by (auto simp: initrafs_directory_list_def f Let_def not_less word_le_nat_alt
          simp del: INITRAFS_UNUSED_INODE_def split: if_splits)
qed

text \<open>The entries of a fresh directory: the two dot entries, then unused ones.\<close>

definition dot_entry :: "u32 \<Rightarrow> initrafs_disk_dirent_t" where
  "dot_entry n = new_entry n INITRAFS_TYPE_DIRECTORY ''.''"

definition dotdot_entry :: "u32 \<Rightarrow> initrafs_disk_dirent_t" where
  "dotdot_entry n = new_entry n INITRAFS_TYPE_DIRECTORY ''..''"

lemma valid_dots [simp]: "valid_name ''.''" "valid_name ''..''"
  by (simp_all add: valid_name_def)

lemma name_length_dots:
  "initrafs_name_length (Some ''.'') = 1" "initrafs_name_length (Some ''..'') = 2"
  using name_length_valid(1) [OF valid_dots(1)] name_length_valid(1) [OF valid_dots(2)]
  by (auto simp: word_unat_eq_iff)

lemma directory_init_eq:
  assumes "\<not> n < 2"
  shows "initrafs_root_directory_init (Some es) n =
           Some ([dot_entry 1, dotdot_entry 1] @ replicate (unat n - 2) zero_dirent @ drop (unat n) es)"
proof -
  from assms have "2 \<le> unat n" by (simp add: word_less_nat_alt)
  then obtain k where k: "unat n = Suc (Suc k)" by (metis add_2_eq_Suc le_Suc_ex)
  with assms show ?thesis
    by (simp add: initrafs_root_directory_init_def dot_entry_def dotdot_entry_def new_entry_def
          name_length_dots)
qed

definition fresh_directory :: "u32 \<Rightarrow> u32 \<Rightarrow> nat \<Rightarrow> initrafs_disk_dirent_t list" where
  "fresh_directory self parent k = [dot_entry self, dotdot_entry parent] @ replicate k zero_dirent"

lemma fresh_directory_facts:
  assumes "self \<noteq> 0" and "parent \<noteq> 0" and "k + 2 < 2 ^ 32"
  shows "dir_ok (fresh_directory self parent k)"
    and "dir_map (fresh_directory self parent k) = [''.'' \<mapsto> self, ''..'' \<mapsto> parent]"
proof -
  note f1 = new_entry_facts [OF valid_dots(1) assms(1), of 2]
    and f2 = new_entry_facts [OF valid_dots(2) assms(2), of 2]
  have z: "filter entry_used (replicate k zero_dirent) = []" by (induction k) simp_all
  have u: "filter entry_used (fresh_directory self parent k) = [dot_entry self, dotdot_entry parent]"
    using f1(1) f2(1) by (simp add: fresh_directory_def dot_entry_def dotdot_entry_def z)
  show "dir_map (fresh_directory self parent k) = [''.'' \<mapsto> self, ''..'' \<mapsto> parent]"
    using f1(2,4) f2(2,4) by (auto simp: dir_map_def u dot_entry_def dotdot_entry_def fun_eq_iff)
  have "\<forall>e \<in> set (fresh_directory self parent k). wf_entry e"
    using f1(3) f2(3) by (auto simp: fresh_directory_def dot_entry_def dotdot_entry_def)
  moreover have "distinct (map entry_name (filter entry_used (fresh_directory self parent k)))"
    using f1(2) f2(2) by (simp add: u dot_entry_def dotdot_entry_def)
  ultimately show "dir_ok (fresh_directory self parent k)"
    using assms(3) by (simp add: dir_ok_def wf_directory_def) (simp add: fresh_directory_def)
qed

lemma directory_create_success:
  assumes ok: "inode_allocator_ok a" and free: "inode_free_set a \<noteq> {}"
    and cap: "\<not> cap < 2" "unat cap = length es" and par: "parent \<noteq> 0"
  shows "\<exists>a' i d. initrafs_directory_create (Some a) (Some i0) (Some d0) (Some es) cap mode parent =
      (True, Some a', Some i, Some d, Some (fresh_directory (Min (inode_free_set a)) parent (length es - 2))) \<and>
      inode_take a = (Min (inode_free_set a), a') \<and>
      fi_inode_number i = Min (inode_free_set a) \<and> di_inode_number d = Min (inode_free_set a) \<and>
      fi_type i = INODE_TYPE_DIRECTORY \<and> di_type d = INITRAFS_TYPE_DIRECTORY \<and>
      fi_link_count i = 2 \<and> di_link_count d = 2 \<and> wf_disk_inode d \<and>
      initrafs_inode_integrity_verify (Some d)"
proof -
  let ?m = "Min (inode_free_set a)"
  obtain a' where t: "inode_take a = (?m, a')"
    using inode_alloc.take_some [OF ok free] by (metis surj_pair)
  have m: "?m \<noteq> 0" using inode_alloc.take_cases [OF ok t] free by blast
  from inode_init_Some [OF m, of 2 i0 mode] obtain i where i: "initrafs_inode_init (Some i0) ?m 2 mode = Some i"
    by auto
  note fi = inode_init_fields [OF i]
  have wf: "wf_disk_inode (zero_disk_inode\<lparr>di_inode_number := ?m, di_type := 2, di_mode := mode,
              di_size := 120, di_owner := 0, di_group := 0, di_link_count := 2\<rparr>)"
    by (simp add: wf_disk_inode_def zero_disk_inode_def)
  have dot: "(dot_entry 1)\<lparr>de_inode_number := ?m\<rparr> = dot_entry ?m"
    "(dotdot_entry 1)\<lparr>de_inode_number := parent\<rparr> = dotdot_entry parent"
    by (simp_all add: dot_entry_def dotdot_entry_def new_entry_def)
  show ?thesis
    using cap par m i fi wf
    by (simp add: initrafs_directory_create_def inode_alloc_take t directory_init_eq
          fresh_directory_def dot)
qed

end
