(* ===== verification/Block_Map.thy ===== *)
theory Block_Map
  imports Directory
begin

section \<open>Direct block mapping of files\<close>

text \<open>
  \<open>initrafs_inode_map_block\<close>, \<open>initrafs_inode_get_block\<close>,
  \<open>initrafs_inode_unmap_block\<close>, \<open>initrafs_file_inode_pair_valid\<close> and
  \<open>initrafs_file_create\<close> of \<open>fs/initrafs.c\<close>: the map from the eight logical
  blocks of a file to data blocks of the volume.
\<close>

definition INITRAFS_DIRECT_BLOCK_COUNT :: u32 where [simp]: "INITRAFS_DIRECT_BLOCK_COUNT = 8"

definition initrafs_inode_logical_block_valid :: "u32 \<Rightarrow> bool" where
  "initrafs_inode_logical_block_valid logical_block \<longleftrightarrow> logical_block < INITRAFS_DIRECT_BLOCK_COUNT"

definition initrafs_inode_map_block ::
  "initrafs_disk_inode_t option \<Rightarrow> initrafs_superblock_t option \<Rightarrow> u32 \<Rightarrow> u32
     \<Rightarrow> initrafs_disk_inode_t option" where
  "initrafs_inode_map_block inode superblock logical_block physical_block =
     (case (inode, superblock) of
        (Some d, Some sb) \<Rightarrow>
          if \<not> initrafs_inode_logical_block_valid logical_block then None
          else if physical_block \<le> sb_data_start sb \<or> physical_block \<ge> sb_total_blocks sb then None
          else if di_direct_blocks d ! unat logical_block \<noteq> 0 then None
          else Some (initrafs_inode_integrity_update
                 (d\<lparr>di_direct_blocks := (di_direct_blocks d)[unat logical_block := physical_block]\<rparr>))
      | _ \<Rightarrow> None)"

definition initrafs_inode_get_block ::
  "initrafs_disk_inode_t option \<Rightarrow> u32 \<Rightarrow> nonnull \<Rightarrow> u32 option" where
  "initrafs_inode_get_block inode logical_block physical_block =
     (case inode of
        None \<Rightarrow> None
      | Some d \<Rightarrow>
          if \<not> physical_block then None
          else if \<not> initrafs_inode_logical_block_valid logical_block then None
          else if di_direct_blocks d ! unat logical_block = 0 then None
          else Some (di_direct_blocks d ! unat logical_block))"

definition initrafs_inode_unmap_block ::
  "initrafs_disk_inode_t option \<Rightarrow> u32 \<Rightarrow> initrafs_disk_inode_t option" where
  "initrafs_inode_unmap_block inode logical_block =
     (case inode of
        None \<Rightarrow> None
      | Some d \<Rightarrow>
          if \<not> initrafs_inode_logical_block_valid logical_block then None
          else if di_direct_blocks d ! unat logical_block = 0 then None
          else Some (initrafs_inode_integrity_update
                 (d\<lparr>di_direct_blocks := (di_direct_blocks d)[unat logical_block := 0]\<rparr>)))"

definition initrafs_file_inode_pair_valid :: "fs_inode option \<Rightarrow> initrafs_disk_inode_t option \<Rightarrow> bool" where
  "initrafs_file_inode_pair_valid inode disk_inode =
     (case (inode, disk_inode) of
        (Some i, Some d) \<Rightarrow>
          \<not> (fi_inode_number i \<noteq> di_inode_number d \<or> fi_type i \<noteq> INODE_TYPE_FILE \<or>
             di_type d \<noteq> INITRAFS_TYPE_FILE \<or> fi_size i \<noteq> di_size d \<or>
             \<not> initrafs_inode_integrity_verify (Some d))
      | _ \<Rightarrow> False)"

definition initrafs_file_create ::
  "initrafs_inode_allocator_t option \<Rightarrow> fs_inode option \<Rightarrow> initrafs_disk_inode_t option \<Rightarrow> u32
     \<Rightarrow> bool \<times> initrafs_inode_allocator_t option \<times> fs_inode option \<times> initrafs_disk_inode_t option" where
  "initrafs_file_create allocator inode disk_inode mode =
     (if allocator = None \<or> inode = None \<or> disk_inode = None
      then (False, allocator, inode, disk_inode)
      else
        let (inode_number, allocator') = initrafs_inode_alloc allocator
        in if inode_number = INITRAFS_UNUSED_INODE then (False, allocator', inode, disk_inode)
           else
             case initrafs_inode_init inode inode_number INODE_TYPE_FILE mode of
               None \<Rightarrow> (False, snd (initrafs_inode_free allocator' inode_number), inode, disk_inode)
             | Some inode' \<Rightarrow>
                 (True, allocator', Some inode',
                  Some (initrafs_inode_integrity_update
                    (zero_disk_inode
                      \<lparr>di_inode_number := inode_number,
                       di_type := INITRAFS_TYPE_FILE,
                       di_mode := mode,
                       di_size := 0,
                       di_owner := 0,
                       di_group := 0,
                       di_link_count := 1\<rparr>))))"

subsection \<open>The mapping as a partial function\<close>

definition block_map :: "initrafs_disk_inode_t \<Rightarrow> u32 \<Rightarrow> u32 option" where
  "block_map d l = initrafs_inode_get_block (Some d) l True"

lemma block_map_eq:
  "block_map d l = (if l < 8 \<and> di_direct_blocks d ! unat l \<noteq> 0
                    then Some (di_direct_blocks d ! unat l) else None)"
  by (simp add: block_map_def initrafs_inode_get_block_def initrafs_inode_logical_block_valid_def)

lemma block_map_integrity_update [simp]: "block_map (initrafs_inode_integrity_update d) = block_map d"
  by (simp add: fun_eq_iff block_map_eq)

lemma block_map_size_update [simp]: "block_map (d\<lparr>di_size := n\<rparr>) = block_map d"
  by (simp add: fun_eq_iff block_map_eq)

text \<open>Two inodes that agree on all but the block map and the checksum.\<close>

definition same_but_blocks :: "initrafs_disk_inode_t \<Rightarrow> initrafs_disk_inode_t \<Rightarrow> bool" where
  "same_but_blocks d d' \<longleftrightarrow>
     d\<lparr>di_direct_blocks := [], di_reserved := []\<rparr> = d'\<lparr>di_direct_blocks := [], di_reserved := []\<rparr> \<and>
     drop 4 (di_reserved d) = drop 4 (di_reserved d')"

lemma same_but_blocks_refl [simp]: "same_but_blocks d d"
  by (simp add: same_but_blocks_def)

lemma same_but_blocks_trans: "same_but_blocks a b \<Longrightarrow> same_but_blocks b c \<Longrightarrow> same_but_blocks a c"
  by (simp add: same_but_blocks_def)

lemma same_but_blocks_fields:
  "same_but_blocks d d' \<Longrightarrow> di_size d' = di_size d \<and> di_type d' = di_type d \<and>
     di_inode_number d' = di_inode_number d"
  by (cases d; cases d') (simp add: same_but_blocks_def)

lemma same_but_blocks_update [simp]:
  "same_but_blocks d (initrafs_inode_integrity_update (d\<lparr>di_direct_blocks := bs\<rparr>))"
  by (simp add: same_but_blocks_def initrafs_inode_integrity_update_def clear_integrity_bytes_def
        initrafs_zero_bytes_def Let_def)

lemma same_block_map_eq:
  assumes "wf_disk_inode d" and "wf_disk_inode d'" and "same_but_blocks d d'"
    and "initrafs_inode_integrity_verify (Some d)" and "initrafs_inode_integrity_verify (Some d')"
    and "block_map d = block_map d'"
  shows "d = d'"
proof -
  have "di_direct_blocks d ! i = di_direct_blocks d' ! i" if "i < 8" for i
  proof -
    from that have "unat (of_nat i :: u32) = i" by (simp add: unat_of_nat)
    with that fun_cong [OF assms(6), of "of_nat i"] show ?thesis
      by (auto simp: block_map_eq word_less_nat_alt split: if_splits)
  qed
  with assms(1,2) have "di_direct_blocks d = di_direct_blocks d'"
    by (intro nth_equalityI) (auto simp: wf_disk_inode_def)
  with assms(3) have "disk_inode_words d = disk_inode_words d'"
    by (cases d; cases d') (simp add: same_but_blocks_def disk_inode_words_def)
  with assms show ?thesis by (intro verified_inode_eqI) (auto simp: same_but_blocks_def)
qed

lemma map_block_effect:
  assumes "wf_disk_inode d" and "initrafs_inode_map_block (Some d) (Some sb) l p = Some d'"
  shows "block_map d l = None \<and> l < 8 \<and> sb_data_start sb < p \<and> p < sb_total_blocks sb \<and>
         block_map d' = (block_map d)(l \<mapsto> p) \<and> wf_disk_inode d' \<and>
         same_but_blocks d d' \<and>
         initrafs_inode_integrity_verify (Some d')"
proof -
  from assms(2) have g: "l < 8" "sb_data_start sb < p" "p < sb_total_blocks sb"
    "di_direct_blocks d ! unat l = 0"
    and d': "d' = initrafs_inode_integrity_update
               (d\<lparr>di_direct_blocks := (di_direct_blocks d)[unat l := p]\<rparr>)"
    by (auto simp: initrafs_inode_map_block_def initrafs_inode_logical_block_valid_def not_le
          split: option.splits if_splits)
  from g(1) have l: "unat l < length (di_direct_blocks d)"
    using assms(1) by (simp add: wf_disk_inode_def word_less_nat_alt)
  from g(2) have "p \<noteq> 0" by auto
  then have "block_map d' = (block_map d)(l \<mapsto> p)"
    using g l by (auto simp: fun_eq_iff block_map_eq d' nth_list_update unat_eq_iff)
  moreover have "wf_disk_inode (d\<lparr>di_direct_blocks := (di_direct_blocks d)[unat l := p]\<rparr>)"
    using assms(1) by (simp add: wf_disk_inode_def)
  then have "wf_disk_inode d'" by (simp add: d')
  ultimately show ?thesis using g by (simp add: block_map_eq d')
qed

lemma map_block_defined:
  "initrafs_inode_map_block (Some d) (Some sb) l p \<noteq> None \<longleftrightarrow>
     l < 8 \<and> sb_data_start sb < p \<and> p < sb_total_blocks sb \<and> block_map d l = None"
  by (auto simp: initrafs_inode_map_block_def initrafs_inode_logical_block_valid_def block_map_eq not_le)

lemma unmap_block_effect:
  assumes "wf_disk_inode d" and "initrafs_inode_unmap_block (Some d) l = Some d'"
  shows "block_map d l \<noteq> None \<and> block_map d' = (block_map d)(l := None) \<and> wf_disk_inode d' \<and>
         same_but_blocks d d' \<and>
         initrafs_inode_integrity_verify (Some d')"
proof -
  from assms(2) have g: "l < 8" "di_direct_blocks d ! unat l \<noteq> 0"
    and d': "d' = initrafs_inode_integrity_update
               (d\<lparr>di_direct_blocks := (di_direct_blocks d)[unat l := 0]\<rparr>)"
    by (auto simp: initrafs_inode_unmap_block_def initrafs_inode_logical_block_valid_def
          split: option.splits if_splits)
  from g(1) have l: "unat l < length (di_direct_blocks d)"
    using assms(1) by (simp add: wf_disk_inode_def word_less_nat_alt)
  then have "block_map d' = (block_map d)(l := None)"
    using g by (auto simp: fun_eq_iff block_map_eq d' nth_list_update unat_eq_iff)
  moreover have "wf_disk_inode (d\<lparr>di_direct_blocks := (di_direct_blocks d)[unat l := 0]\<rparr>)"
    using assms(1) by (simp add: wf_disk_inode_def)
  then have "wf_disk_inode d'" by (simp add: d')
  ultimately show ?thesis using g by (simp add: block_map_eq d')
qed

lemma unmap_block_defined:
  "initrafs_inode_unmap_block (Some d) l \<noteq> None \<longleftrightarrow> block_map d l \<noteq> None"
  by (auto simp: initrafs_inode_unmap_block_def initrafs_inode_logical_block_valid_def block_map_eq)

end
