(* ===== verification/Block_Device.thy ===== *)
theory Block_Device
  imports Fs_Format
begin

section \<open>Block devices\<close>

text \<open>
  Calls through the function pointers of \<open>block_device_t\<close> (\<open>fs/block.h\<close>), the
  contract of a device that stores what is written to it, and the RAM disk of
  \<open>kernel.c\<close> (\<open>initrafs_test_disk_read\<close>, \<open>initrafs_test_disk_write\<close>), which
  the interactive shell's file system runs on and which meets the contract.
\<close>

definition device_read :: "'d block_device \<Rightarrow> u32 \<Rightarrow> u8 list option" where
  "device_read device block = the (bd_read device) (block_device_base.truncate device) block"

definition device_write :: "'d block_device \<Rightarrow> u32 \<Rightarrow> u8 list \<Rightarrow> bool \<times> 'd block_device" where
  "device_write device block data =
     map_prod id (\<lambda>p. device\<lparr>bd_private_data := p\<rparr>)
       (the (bd_write device) (block_device_base.truncate device) block data)"

subsection \<open>The RAM disk\<close>

text \<open>
  The private data is the storage array (\<open>None\<close> for NULL). Both functions copy
  \<open>INITRAFS_BLOCK_SIZE\<close> bytes from or to position \<open>block * INITRAFS_BLOCK_SIZE\<close>,
  computed in \<open>unsigned int\<close>.
\<close>

definition initrafs_test_disk_read ::
  "u8 list option block_device_base \<Rightarrow> u32 \<Rightarrow> u8 list option" where
  "initrafs_test_disk_read device block =
     (case bd_private_data device of
        None \<Rightarrow> None
      | Some storage \<Rightarrow>
          if block \<ge> bd_block_count device then None
          else Some (take (unat INITRAFS_BLOCK_SIZE)
                       (drop (unat (block * INITRAFS_BLOCK_SIZE)) storage)))"

definition initrafs_test_disk_write ::
  "u8 list option block_device_base \<Rightarrow> u32 \<Rightarrow> u8 list \<Rightarrow> bool \<times> u8 list option" where
  "initrafs_test_disk_write device block buffer =
     (case bd_private_data device of
        None \<Rightarrow> (False, None)
      | Some storage \<Rightarrow>
          if block \<ge> bd_block_count device then (False, Some storage)
          else (True, Some (blit storage (unat (block * INITRAFS_BLOCK_SIZE))
                              (take (unat INITRAFS_BLOCK_SIZE) buffer))))"

subsection \<open>The contract of a reliable device\<close>

locale reliable_device =
  fixes dev_ok :: "'d block_device \<Rightarrow> bool"
    and contents :: "'d block_device \<Rightarrow> u32 \<Rightarrow> u8 list"
  assumes usable: "dev_ok v \<Longrightarrow>
          bd_read v \<noteq> None \<and> bd_write v \<noteq> None \<and> bd_block_size v = 512 \<and> bd_block_count v \<noteq> 0"
    and read_contents: "dev_ok v \<Longrightarrow> p < bd_block_count v \<Longrightarrow> device_read v p = Some (contents v p)"
    and length_contents: "dev_ok v \<Longrightarrow> p < bd_block_count v \<Longrightarrow> length (contents v p) = 512"
    and write_contents: "dev_ok v \<Longrightarrow> p < bd_block_count v \<Longrightarrow> length data = 512 \<Longrightarrow>
          \<exists>v'. device_write v p data = (True, v') \<and> dev_ok v' \<and>
               bd_block_count v' = bd_block_count v \<and>
               (\<forall>q < bd_block_count v. contents v' q = (if q = p then data else contents v q))"
begin

lemma read_after_write:
  assumes "dev_ok v" and "p < bd_block_count v" and "q < bd_block_count v" and "length data = 512"
    and "device_write v p data = (r, v')"
  shows "r \<and> device_read v' q = (if q = p then Some data else device_read v q)"
  using write_contents [OF assms(1,2,4)] read_contents assms by auto

end

text \<open>
  The RAM disk is reliable when its array holds \<open>block_count\<close> blocks and the
  byte positions fit \<open>unsigned int\<close>.
\<close>

definition ram_disk_ok :: "u8 list option block_device \<Rightarrow> bool" where
  "ram_disk_ok v \<longleftrightarrow>
     bd_read v = Some initrafs_test_disk_read \<and> bd_write v = Some initrafs_test_disk_write \<and>
     bd_block_size v = INITRAFS_BLOCK_SIZE \<and> bd_block_count v \<noteq> 0 \<and>
     512 * unat (bd_block_count v) \<le> 2 ^ 32 \<and>
     (\<exists>storage. bd_private_data v = Some storage \<and> length storage = 512 * unat (bd_block_count v))"

definition ram_disk_block :: "u8 list option block_device \<Rightarrow> u32 \<Rightarrow> u8 list" where
  "ram_disk_block v p = take 512 (drop (512 * unat p) (the (bd_private_data v)))"

lemma ram_disk_position:
  assumes "ram_disk_ok v" and "p < bd_block_count v"
  shows "unat (p * 512) = 512 * unat p" and "512 * unat p + 512 \<le> 512 * unat (bd_block_count v)"
proof -
  from assms(2) have "unat p < unat (bd_block_count v)" by (simp add: word_less_nat_alt)
  then show le: "512 * unat p + 512 \<le> 512 * unat (bd_block_count v)" by simp
  with assms(1) have "512 * unat p < 2 ^ 32" by (auto simp: ram_disk_ok_def)
  then show "unat (p * 512) = 512 * unat p" by (simp add: unat_word_ariths)
qed

lemma ram_disk_block_blit:
  assumes "length data = 512" and "512 * p + 512 \<le> length st" and "512 * q + 512 \<le> length st"
  shows "take 512 (drop (512 * q) (blit st (512 * p) data))
           = (if q = p then data else take 512 (drop (512 * q) st))"
proof (rule nth_equalityI)
  fix i assume "i < length (take 512 (drop (512 * q) (blit st (512 * p) data)))"
  with assms have i: "i < 512" by simp
  have "512 * p \<le> 512 * q + i \<and> 512 * q + i < 512 * p + 512 \<longleftrightarrow> q = p"
    using i by auto
  with i assms show "take 512 (drop (512 * q) (blit st (512 * p) data)) ! i
      = (if q = p then data else take 512 (drop (512 * q) st)) ! i"
    by (auto simp: nth_blit)
qed (use assms in auto)

interpretation ram_disk: reliable_device ram_disk_ok ram_disk_block
proof
  fix v :: "u8 list option block_device" and p :: u32 and data :: "u8 list"
  assume ok: "ram_disk_ok v"
  then show "bd_read v \<noteq> None \<and> bd_write v \<noteq> None \<and> bd_block_size v = 512 \<and> bd_block_count v \<noteq> 0"
    by (simp add: ram_disk_ok_def)
  assume p: "p < bd_block_count v"
  note pos = ram_disk_position [OF ok p]
  from ok obtain st where st: "bd_private_data v = Some st" "length st = 512 * unat (bd_block_count v)"
    by (auto simp: ram_disk_ok_def)
  show "device_read v p = Some (ram_disk_block v p)"
    using ok p pos st
    by (simp add: device_read_def ram_disk_ok_def initrafs_test_disk_read_def ram_disk_block_def
          block_device_base.truncate_def)
  show "length (ram_disk_block v p) = 512" using st pos by (simp add: ram_disk_block_def)
  assume len: "length data = 512"
  let ?v' = "v\<lparr>bd_private_data := Some (blit st (512 * unat p) data)\<rparr>"
  have w: "device_write v p data = (True, ?v')"
    using ok p pos st len
    by (simp add: device_write_def ram_disk_ok_def initrafs_test_disk_write_def
          block_device_base.truncate_def)
  have ok': "ram_disk_ok ?v'" using ok st len pos by (simp add: ram_disk_ok_def)
  have "ram_disk_block ?v' q = (if q = p then data else ram_disk_block v q)"
    if "q < bd_block_count v" for q
    using ram_disk_position(2) [OF ok that] pos st len
    by (simp add: ram_disk_block_def ram_disk_block_blit unat_eq_iff)
  with w ok' show "\<exists>v'. device_write v p data = (True, v') \<and> ram_disk_ok v' \<and>
      bd_block_count v' = bd_block_count v \<and>
      (\<forall>q < bd_block_count v. ram_disk_block v' q = (if q = p then data else ram_disk_block v q))"
    by (intro exI [of _ ?v']) simp
qed

end
