(* ===== verification/File_IO.thy ===== *)
theory File_IO
  imports Block_Map Block_Device
begin

section \<open>Reading and writing files\<close>

text \<open>
  \<open>initrafs_file_read\<close>, \<open>initrafs_file_write\<close> and
  \<open>initrafs_file_rollback_blocks\<close> of \<open>fs/initrafs.c\<close>.

  The block device is a parameter: the functions of \<open>block_device\<close> are called
  through the record. The buffers \<open>new_logical_blocks\<close> and
  \<open>new_physical_blocks\<close> with their counter are lists; \<open>block_buffer\<close> is a
  local value.
\<close>

subsection \<open>Reading\<close>

text \<open>\<open>chunk\<close>: from \<open>block_offset\<close> to the end of the block, but at most \<open>remaining\<close>.\<close>

definition io_chunk :: "u32 \<Rightarrow> u32 \<Rightarrow> u32" where
  "io_chunk block_offset remaining =
     (let chunk = INITRAFS_BLOCK_SIZE - block_offset
      in if chunk > remaining then remaining else chunk)"

lemma io_chunk_progress:
  assumes "dn < n"
  shows "dn < dn + io_chunk (x mod 512) (n - dn)"
    and "unat (dn + io_chunk (x mod 512) (n - dn)) = unat dn + unat (io_chunk (x mod 512) (n - dn))"
    and "dn + io_chunk (x mod 512) (n - dn) \<le> n"
    and "unat (io_chunk (x mod 512) (n - dn)) = min (unat n - unat dn) (512 - unat x mod 512)"
proof -
  have m: "unat (x mod 512) = unat x mod 512" by (simp add: unat_mod_distrib)
  then have lt: "unat (x mod 512) < 512" by simp
  then have s: "unat (512 - x mod 512) = 512 - unat (x mod 512)"
    by (simp add: unat_minus_le word_le_nat_alt)
  have r: "unat (n - dn) = unat n - unat dn"
    using assms by (simp add: unat_minus_le less_imp_le)
  show u: "unat (io_chunk (x mod 512) (n - dn)) = min (unat n - unat dn) (512 - unat x mod 512)"
    using s r m by (auto simp: io_chunk_def Let_def word_less_nat_alt)
  from assms have d: "unat dn < unat n" by (simp add: word_less_nat_alt)
  have le: "unat dn + unat (io_chunk (x mod 512) (n - dn)) \<le> unat n" using d u by simp
  moreover have "unat n < 2 ^ 32" using unsigned_less [of n] by simp
  ultimately show a: "unat (dn + io_chunk (x mod 512) (n - dn))
      = unat dn + unat (io_chunk (x mod 512) (n - dn))"
    by (simp add: unat_word_ariths)
  have "0 < unat (io_chunk (x mod 512) (n - dn))" using d u by simp
  then show "dn < dn + io_chunk (x mod 512) (n - dn)" using a by (simp add: word_less_nat_alt)
  show "dn + io_chunk (x mod 512) (n - dn) \<le> n"
    using a le by (metis word_le_nat_alt)
qed

function file_read_loop ::
  "initrafs_disk_inode_t \<Rightarrow> 'd block_device \<Rightarrow> u32 \<Rightarrow> u32 \<Rightarrow> u32 \<Rightarrow> u8 list \<Rightarrow> int \<times> u8 list" where
  "file_read_loop disk_inode device offset size_arg bytes_done buffer =
     (if bytes_done < size_arg then
        let file_offset = offset + bytes_done;
            logical_block = file_offset div INITRAFS_BLOCK_SIZE;
            block_offset = file_offset mod INITRAFS_BLOCK_SIZE;
            chunk = io_chunk block_offset (size_arg - bytes_done)
        in case initrafs_inode_get_block (Some disk_inode) logical_block True of
             None \<Rightarrow> (-1, buffer)
           | Some physical_block \<Rightarrow>
               if physical_block \<ge> bd_block_count device then (-1, buffer)
               else if block_offset = 0 \<and> chunk = INITRAFS_BLOCK_SIZE then
                 (case device_read device physical_block of
                    None \<Rightarrow> (-1, buffer)
                  | Some data \<Rightarrow>
                      file_read_loop disk_inode device offset size_arg (bytes_done + chunk)
                        (blit buffer (unat bytes_done) data))
               else
                 (case device_read device physical_block of
                    None \<Rightarrow> (-1, buffer)
                  | Some block_buffer \<Rightarrow>
                      file_read_loop disk_inode device offset size_arg (bytes_done + chunk)
                        (blit buffer (unat bytes_done)
                           (take (unat chunk) (drop (unat block_offset) block_buffer))))
      else (sint bytes_done, buffer))"
  by pat_completeness auto
termination
proof (relation "measure (\<lambda>(d, v, off, n, dn, b). unat n - unat dn)", goal_cases)
  case 1
  show ?case by simp
next
  case (2 d v off n dn b x xa xb xc xd xe)
  then show ?case using io_chunk_progress(1,3) [of "dn" n x]
    by (auto simp: word_less_nat_alt word_le_nat_alt)
next
  case (3 d v off n dn b x xa xb xc xd xe)
  then show ?case using io_chunk_progress(1,3) [of "dn" n x]
    by (auto simp: word_less_nat_alt word_le_nat_alt)
qed

declare file_read_loop.simps [simp del]

definition initrafs_file_read ::
  "fs_inode option \<Rightarrow> initrafs_disk_inode_t option \<Rightarrow> 'd block_device option \<Rightarrow> u32 \<Rightarrow> u8 list option
     \<Rightarrow> u32 \<Rightarrow> int \<times> u8 list option" where
  "initrafs_file_read inode disk_inode device offset buffer size_arg =
     (case (disk_inode, device, buffer) of
        (Some d, Some v, Some buf) \<Rightarrow>
          if \<not> initrafs_file_inode_pair_valid inode disk_inode \<or> bd_read v = None \<or>
             bd_block_size v \<noteq> INITRAFS_BLOCK_SIZE \<or> bd_block_count v = 0
          then (-1, buffer)
          else if size_arg = 0 \<or> offset \<ge> di_size d then (0, buffer)
          else
            let available = di_size d - offset;
                sz = (if size_arg > available then available else size_arg);
                (result, buf') = file_read_loop d v offset sz 0 buf
            in (result, Some buf')
      | _ \<Rightarrow> (-1, buffer))"

subsection \<open>Writing\<close>

fun rollback_loop ::
  "initrafs_disk_inode_t \<Rightarrow> initrafs_block_allocator_t \<Rightarrow> u32 list \<Rightarrow> u32 list \<Rightarrow> nat
     \<Rightarrow> initrafs_disk_inode_t \<times> initrafs_block_allocator_t" where
  "rollback_loop d a logical_blocks physical_blocks 0 = (d, a)"
| "rollback_loop d a logical_blocks physical_blocks (Suc count) =
     rollback_loop
       (case initrafs_inode_unmap_block (Some d) (logical_blocks ! count) of None \<Rightarrow> d | Some d' \<Rightarrow> d')
       (the (snd (initrafs_block_free (Some a) (physical_blocks ! count))))
       logical_blocks physical_blocks count"

definition initrafs_file_rollback_blocks ::
  "initrafs_disk_inode_t option \<Rightarrow> initrafs_block_allocator_t option \<Rightarrow> u32 list option
     \<Rightarrow> u32 list option \<Rightarrow> nat \<Rightarrow> initrafs_disk_inode_t option \<times> initrafs_block_allocator_t option" where
  "initrafs_file_rollback_blocks disk_inode allocator logical_blocks physical_blocks count =
     (case (disk_inode, allocator, logical_blocks, physical_blocks) of
        (Some d, Some a, Some ls, Some ps) \<Rightarrow> map_prod Some Some (rollback_loop d a ls ps count)
      | _ \<Rightarrow> (disk_inode, allocator))"

text \<open>The early return of a failing write: what the caller finds after the rollback.\<close>

definition file_write_abort ::
  "initrafs_disk_inode_t \<Rightarrow> initrafs_block_allocator_t \<Rightarrow> u32 list \<Rightarrow> u32 list
     \<Rightarrow> initrafs_disk_inode_t \<times> initrafs_block_allocator_t" where
  "file_write_abort d a ls ps =
     map_prod the the
       (initrafs_file_rollback_blocks (Some d) (Some a) (Some ls) (Some ps) (length ls))"

text \<open>
  The loop that allocates the missing blocks, over the logical blocks still to
  be visited. \<open>Inl\<close> is the early return, \<open>Inr\<close> the state after the loop.
\<close>

fun file_write_alloc_loop ::
  "'d block_device \<Rightarrow> u32 list \<Rightarrow> initrafs_disk_inode_t \<Rightarrow> initrafs_block_allocator_t
     \<Rightarrow> u32 list \<Rightarrow> u32 list
     \<Rightarrow> (initrafs_disk_inode_t \<times> initrafs_block_allocator_t) +
        (initrafs_disk_inode_t \<times> initrafs_block_allocator_t \<times> u32 list \<times> u32 list)" where
  "file_write_alloc_loop device [] d a ls ps = Inr (d, a, ls, ps)"
| "file_write_alloc_loop device (logical # rest) d a ls ps =
     (case initrafs_inode_get_block (Some d) logical True of
        Some _ \<Rightarrow> file_write_alloc_loop device rest d a ls ps
      | None \<Rightarrow>
          let (physical_block, allocator') = initrafs_block_alloc (Some a); a' = the allocator'
          in if physical_block = 0 \<or> physical_block \<ge> bd_block_count device
             then Inl (file_write_abort d a' ls ps)
             else
               case initrafs_inode_map_block (Some d) (ba_superblock a') logical physical_block of
                 None \<Rightarrow>
                   Inl (file_write_abort d (the (snd (initrafs_block_free (Some a') physical_block)))
                          ls ps)
               | Some d' \<Rightarrow>
                   file_write_alloc_loop device rest d' a' (ls @ [logical]) (ps @ [physical_block]))"

text \<open>
  The loop that writes every affected block; \<open>Inl\<close> is the early return, after
  which the caller rolls back. \<open>new_block\<close> says whether the block
  was allocated by this call; such a block is not read before it is written.
\<close>

function file_write_loop ::
  "initrafs_disk_inode_t \<Rightarrow> u32 list \<Rightarrow> u32 \<Rightarrow> u8 list \<Rightarrow> u32 \<Rightarrow> u32 \<Rightarrow> 'd block_device
     \<Rightarrow> 'd block_device + ('d block_device \<times> u32)" where
  "file_write_loop d ls offset buffer size_arg bytes_done device =
     (if bytes_done < size_arg then
        let file_offset = offset + bytes_done;
            logical_block = file_offset div INITRAFS_BLOCK_SIZE;
            block_offset = file_offset mod INITRAFS_BLOCK_SIZE;
            chunk = io_chunk block_offset (size_arg - bytes_done)
        in case initrafs_inode_get_block (Some d) logical_block True of
             None \<Rightarrow> Inl device
           | Some physical_block \<Rightarrow>
               if physical_block \<ge> bd_block_count device then Inl device
               else
                 let new_block = logical_block \<in> set ls
                 in if block_offset = 0 \<and> chunk = INITRAFS_BLOCK_SIZE then
                      (case device_write device physical_block
                              (take (unat INITRAFS_BLOCK_SIZE) (drop (unat bytes_done) buffer)) of
                         (False, device') \<Rightarrow> Inl device'
                       | (True, device') \<Rightarrow>
                           file_write_loop d ls offset buffer size_arg (bytes_done + chunk) device')
                    else
                      case (if new_block then Some (replicate (unat INITRAFS_BLOCK_SIZE) 0)
                            else device_read device physical_block) of
                        None \<Rightarrow> Inl device
                      | Some block_buffer \<Rightarrow>
                          (case device_write device physical_block
                                  (blit block_buffer (unat block_offset)
                                     (take (unat chunk) (drop (unat bytes_done) buffer))) of
                             (False, device') \<Rightarrow> Inl device'
                           | (True, device') \<Rightarrow>
                               file_write_loop d ls offset buffer size_arg (bytes_done + chunk) device')
      else Inr (device, bytes_done))"
  by pat_completeness auto
termination
proof (relation "measure (\<lambda>(d, ls, off, buf, n, dn, v). unat n - unat dn)", goal_cases)
  case 1
  show ?case by simp
next
  case (2 d ls off buf n dn v x)
  then show ?case using io_chunk_progress(1,3) [of "dn" n x]
    by (auto simp: word_less_nat_alt word_le_nat_alt)
next
  case (3 d ls off buf n dn v x)
  then show ?case using io_chunk_progress(1,3) [of "dn" n x]
    by (auto simp: word_less_nat_alt word_le_nat_alt)
qed

declare file_write_loop.simps [simp del]

text \<open>The last part of the function: growing the size of both inode representations.\<close>

definition file_write_finish ::
  "u32 \<Rightarrow> u32 \<Rightarrow> fs_inode \<Rightarrow> initrafs_disk_inode_t \<Rightarrow> fs_inode \<times> initrafs_disk_inode_t" where
  "file_write_finish end_position original_size i d =
     (if end_position > original_size
      then (i\<lparr>fi_size := end_position\<rparr>,
            initrafs_inode_integrity_update (d\<lparr>di_size := end_position\<rparr>))
      else (i, d))"

text \<open>The logical blocks \<open>first_logical\<close> to \<open>last_logical\<close>.\<close>

definition logical_range :: "u32 \<Rightarrow> u32 \<Rightarrow> u32 list" where
  "logical_range first_logical last_logical = map of_nat [unat first_logical..<Suc (unat last_logical)]"

text \<open>The part of the function after its checks.\<close>

definition file_write_blocks ::
  "fs_inode \<Rightarrow> initrafs_disk_inode_t \<Rightarrow> initrafs_block_allocator_t \<Rightarrow> 'd block_device \<Rightarrow> u32
     \<Rightarrow> u8 list \<Rightarrow> u32
     \<Rightarrow> int \<times> fs_inode \<times> initrafs_disk_inode_t \<times> initrafs_block_allocator_t \<times> 'd block_device" where
  "file_write_blocks i d a v offset buffer size_arg =
     (let original_size = di_size d;
          end_position = offset + size_arg;
          first_logical = offset div INITRAFS_BLOCK_SIZE;
          last_logical = (end_position - 1) div INITRAFS_BLOCK_SIZE
      in case file_write_alloc_loop v (logical_range first_logical last_logical) d a [] [] of
           Inl (d', a') \<Rightarrow> (-1, i, d', a', v)
         | Inr (d', a', ls, ps) \<Rightarrow>
             (case file_write_loop d' ls offset buffer size_arg 0 v of
                Inl v' \<Rightarrow>
                  let (d'', a'') = file_write_abort d' a' ls ps in (-1, i, d'', a'', v')
              | Inr (v', bytes_done) \<Rightarrow>
                  let (i', d'') = file_write_finish end_position original_size i d'
                  in (sint bytes_done, i', d'', a', v')))"

definition initrafs_file_write ::
  "fs_inode option \<Rightarrow> initrafs_disk_inode_t option \<Rightarrow> initrafs_block_allocator_t option
     \<Rightarrow> 'd block_device option \<Rightarrow> u32 \<Rightarrow> u8 list option \<Rightarrow> u32
     \<Rightarrow> int \<times> fs_inode option \<times> initrafs_disk_inode_t option \<times> initrafs_block_allocator_t option
         \<times> 'd block_device option" where
  "initrafs_file_write inode disk_inode allocator device offset buffer size_arg =
     (let max_file_size = 8 * INITRAFS_BLOCK_SIZE;
          fail = (-1, inode, disk_inode, allocator, device)
      in case (inode, disk_inode, allocator, device, buffer) of
           (Some i, Some d, Some a, Some v, Some buf) \<Rightarrow>
             if \<not> initrafs_file_inode_pair_valid inode disk_inode \<or>
                bd_read v = None \<or> bd_write v = None \<or>
                bd_block_size v \<noteq> INITRAFS_BLOCK_SIZE \<or> bd_block_count v = 0
             then fail
             else if size_arg = 0 then (0, inode, disk_inode, allocator, device)
             else if offset > di_size d then fail
             else if di_size d > max_file_size then fail
             else if size_arg > max_file_size - offset then fail
             else
               let (result, i', d', a', v') = file_write_blocks i d a v offset buf size_arg
               in (result, Some i', Some d', Some a', Some v')
         | _ \<Rightarrow> fail)"

end
