(* ===== verification/File_Content.thy ===== *)
theory File_Content
  imports File_IO
begin

section \<open>Files as byte sequences\<close>

text \<open>
  What \<open>initrafs_file_read\<close> and \<open>initrafs_file_write\<close> do to the contents of a
  file. Over any reliable block device, reading returns the bytes of the file
  from the offset on, and a write that finds enough free blocks replaces or
  appends exactly the bytes of the buffer. Over any device at all, a failing
  write leaves the inode, the block map and the set of free blocks as they were.
\<close>

subsection \<open>Arithmetic of chunks\<close>

lemma div_mod_within_block:
  "i mod 512 + k < 512 \<Longrightarrow> (i + k) div 512 = i div 512 \<and> (i + k) mod 512 = i mod 512 + k"
  for i k :: nat
proof -
  assume k: "i mod 512 + k < 512"
  then have "k < 512" by simp
  then have "(i + k) div 512 = i div 512 + (i mod 512 + k) div 512"
    using div_add1_eq [of i k 512] by simp
  moreover have "(i + k) mod 512 = (i mod 512 + k) mod 512" by (rule mod_add_left_eq [symmetric])
  ultimately show ?thesis using k by (simp only: div_less mod_less add_0_right)
qed

lemma div_512_word: "unat (x div 512 :: u32) = unat x div 512"
  by (simp add: unat_div_distrib)

lemma of_nat_div_512: "(of_nat (unat x div 512) :: u32) = x div 512"
  by (simp flip: div_512_word)

lemma mod_512_word: "unat (x mod 512 :: u32) = unat x mod 512"
  by (simp add: unat_mod_distrib)

lemma sint_small: "unat (x :: u32) \<le> 4096 \<Longrightarrow> sint x = int (unat x)"
proof -
  assume "unat x \<le> 4096"
  then have "int (unat x) \<le> 4096" by linarith
  then have "uint x < 2 ^ 31" by simp
  then show ?thesis
    using signed_take_bit_int_eq_self [of 31 "uint x"] uint_ge_0 [of x]
    by (simp add: sint_uint del: uint_ge_0)
qed

subsection \<open>The contents of a file\<close>

text \<open>
  Byte \<open>i\<close> of a file and its whole contents, over the contents \<open>blk\<close> of the
  blocks of a device.
\<close>

definition file_byte :: "(u32 \<Rightarrow> u8 list) \<Rightarrow> initrafs_disk_inode_t \<Rightarrow> nat \<Rightarrow> u8" where
  "file_byte blk d i = blk (the (block_map d (of_nat (i div 512)))) ! (i mod 512)"

definition file_content :: "(u32 \<Rightarrow> u8 list) \<Rightarrow> initrafs_disk_inode_t \<Rightarrow> u8 list" where
  "file_content blk d = map (file_byte blk d) [0..<unat (di_size d)]"

lemma length_file_content [simp]: "length (file_content blk d) = unat (di_size d)"
  by (simp add: file_content_def)

text \<open>Every block of the first \<open>n\<close> bytes is mapped to one of \<open>count\<close> blocks.\<close>

definition backed :: "u32 \<Rightarrow> initrafs_disk_inode_t \<Rightarrow> nat \<Rightarrow> bool" where
  "backed count d n \<longleftrightarrow>
     (\<forall>i < n. \<exists>p. block_map d (of_nat (i div 512)) = Some p \<and> p < count)"

subsection \<open>Reading\<close>

context reliable_device
begin

lemma chunk_bytes:
  assumes "dev_ok v" and "block_map d (of_nat (i div 512)) = Some p" and "p < bd_block_count v"
    and "i mod 512 + c \<le> 512"
  shows "take c (drop (i mod 512) (contents v p)) = map (file_byte (contents v) d) [i..<i + c]"
proof (rule nth_equalityI)
  fix k assume "k < length (take c (drop (i mod 512) (contents v p)))"
  then have k: "k < c" by simp
  with assms(4) have "(i + k) div 512 = i div 512" "(i + k) mod 512 = i mod 512 + k"
    using div_mod_within_block [of i k] by auto
  with k assms show "take c (drop (i mod 512) (contents v p)) ! k = map (file_byte (contents v) d) [i..<i + c] ! k"
    using length_contents [OF assms(1,3)] by (simp add: file_byte_def)
qed (use assms length_contents in auto)

lemma file_read_loop_bytes:
  assumes "dev_ok v" and "backed (bd_block_count v) d (unat off + unat n)" and "unat off + unat n \<le> 4096"
    and "dn \<le> n" and "unat n \<le> length buf"
  shows "file_read_loop d v off n dn buf =
     (int (unat n), blit buf (unat dn) (map (file_byte (contents v) d) [unat off + unat dn..<unat off + unat n]))"
  using assms
proof (induction "unat n - unat dn" arbitrary: dn buf rule: less_induct)
  case less
  show ?case
  proof (cases "dn < n")
    case False
    with less.prems have "dn = n" by simp
    with less.prems show ?thesis by (simp add: file_read_loop.simps [of d v off n n] sint_small)
  next
    case True
    define x where "x = off + dn"
    define c where "c = io_chunk (x mod 512) (n - dn)"
    note pr = io_chunk_progress [OF True, of x, folded c_def]
    have lt: "unat dn < unat n" using True by (simp add: word_less_nat_alt)
    with less.prems(3) have x: "unat x = unat off + unat dn"
      by (simp add: x_def unat_word_ariths)
    obtain p where p: "block_map d (x div 512) = Some p" "p < bd_block_count v"
      using less.prems(2) lt unfolding backed_def by (metis x of_nat_div_512 nat_add_left_cancel_less)
    have cle: "unat x mod 512 + unat c \<le> 512" "unat dn + unat c \<le> unat n" using pr(4) lt by auto
    have chunk: "take (unat c) (drop (unat x mod 512) (contents v p))
        = map (file_byte (contents v) d) [unat x..<unat x + unat c]"
      using less.prems(1) p cle by (intro chunk_bytes) (simp_all add: of_nat_div_512)
    have full_block: "contents v p = take (unat c) (drop (unat x mod 512) (contents v p))"
      if "x mod 512 = 0 \<and> c = 512"
      using that length_contents [OF less.prems(1) p(2)] mod_512_word [of x] by simp
    have rd: "device_read v p = Some (contents v p)" "(bd_block_count v \<le> p) = False"
      using read_contents [OF less.prems(1) p(2)] p(2) by simp_all
    note fold = x_def [symmetric] c_def [symmetric] block_map_def [symmetric] INITRAFS_BLOCK_SIZE_def
    have step: "file_read_loop d v off n dn buf =
        file_read_loop d v off n (dn + c)
          (blit buf (unat dn) (map (file_byte (contents v) d) [unat x..<unat x + unat c]))"
    proof (cases "x mod 512 = 0 \<and> c = 512")
      case full: True
      with full_block chunk have "contents v p = map (file_byte (contents v) d) [unat x..<unat x + unat c]"
        by metis
      moreover have "io_chunk 0 (n - dn) = 512" using full c_def by metis
      ultimately show ?thesis using True p rd full
        by (subst file_read_loop.simps) (simp add: fold Let_def)
    next
      case False
      with True p rd chunk show ?thesis
        by (subst file_read_loop.simps) (simp only: fold Let_def if_True if_False option.case not_less mod_512_word)
    qed
    have IH: "file_read_loop d v off n (dn + c)
          (blit buf (unat dn) (map (file_byte (contents v) d) [unat x..<unat x + unat c])) =
        (int (unat n), blit (blit buf (unat dn) (map (file_byte (contents v) d) [unat x..<unat x + unat c]))
           (unat (dn + c)) (map (file_byte (contents v) d) [unat off + unat (dn + c)..<unat off + unat n]))"
      using pr(1,3) cle less.prems x lt
      by (intro less.hyps) (auto simp: word_less_nat_alt word_le_nat_alt)
    have "blit (blit buf (unat dn) (map (file_byte (contents v) d) [unat x..<unat x + unat c]))
           (unat dn + unat c) (map (file_byte (contents v) d) [unat x + unat c..<unat off + unat n])
        = blit buf (unat dn) (map (file_byte (contents v) d) [unat x..<unat off + unat n])"
    proof -
      have "[unat x..<unat off + unat n] = [unat x..<unat x + unat c] @ [unat x + unat c..<unat off + unat n]"
        using cle x by (intro upt_split) auto
      then show ?thesis
        using blit_blit [of "unat dn" "map (file_byte (contents v) d) [unat x..<unat x + unat c]"
            "map (file_byte (contents v) d) [unat x + unat c..<unat off + unat n]" buf] cle x less.prems(5)
        by simp
    qed
    with step IH pr(2) x show ?thesis by (simp add: add.assoc)
  qed
qed

text \<open>
  A read returns the bytes of the file from the offset on, at most as many as
  asked for, and leaves the rest of the buffer alone.
\<close>

lemma file_read_content:
  assumes "dev_ok v" and "initrafs_file_inode_pair_valid (Some i) (Some d)"
    and "unat (di_size d) \<le> 4096" and "backed (bd_block_count v) d (unat (di_size d))"
    and "unat n \<le> length buf"
  shows "initrafs_file_read (Some i) (Some d) (Some v) off (Some buf) n =
           (let bs = take (unat n) (drop (unat off) (file_content (contents v) d))
            in (int (length bs), Some (blit buf 0 bs)))"
proof (cases "n = 0 \<or> di_size d \<le> off")
  case True
  then show ?thesis using assms(2) usable [OF assms(1)]
    by (auto simp: initrafs_file_read_def file_content_def word_le_nat_alt)
next
  case False
  let ?m = "if n > di_size d - off then di_size d - off else n"
  from False have off: "unat off < unat (di_size d)" by (simp add: word_le_nat_alt)
  then have av: "unat (di_size d - off) = unat (di_size d) - unat off"
    by (simp add: unat_minus_le word_le_nat_alt)
  then have m: "unat ?m = min (unat n) (unat (di_size d) - unat off)"
    by (auto simp: word_less_nat_alt)
  have bs: "take (unat n) (drop (unat off) (file_content (contents v) d))
      = map (file_byte (contents v) d) [unat off..<unat off + unat ?m]"
    unfolding m using off by (auto simp: file_content_def take_map drop_map min_def)
  have "backed (bd_block_count v) d (unat off + unat ?m)"
    using assms(4) m off by (auto simp: backed_def)
  moreover have "unat off + unat ?m \<le> 4096" using m off assms(3) by simp
  moreover have "unat ?m \<le> length buf" using m assms(5) by simp
  ultimately have "file_read_loop d v off ?m 0 buf =
      (int (unat ?m), blit buf 0 (map (file_byte (contents v) d) [unat off..<unat off + unat ?m]))"
    using file_read_loop_bytes [OF assms(1), of d off ?m 0 buf] by simp
  then have "initrafs_file_read (Some i) (Some d) (Some v) off (Some buf) n =
      (int (unat ?m), Some (blit buf 0 (map (file_byte (contents v) d) [unat off..<unat off + unat ?m])))"
    using False assms(2) usable [OF assms(1)]
    by (auto simp: initrafs_file_read_def Let_def)
  then show ?thesis unfolding bs Let_def by simp
qed

end

subsection \<open>Allocation and rollback of blocks\<close>

text \<open>
  \<open>grown d0 a0 d a ls ps\<close>: from inode \<open>d0\<close> and allocator \<open>a0\<close> the blocks \<open>ps\<close>
  have been taken and mapped at the logical blocks \<open>ls\<close>.
\<close>

definition grown ::
  "initrafs_disk_inode_t \<Rightarrow> initrafs_block_allocator_t \<Rightarrow> initrafs_disk_inode_t
     \<Rightarrow> initrafs_block_allocator_t \<Rightarrow> u32 list \<Rightarrow> u32 list \<Rightarrow> bool" where
  "grown d0 a0 d a ls ps \<longleftrightarrow>
     wf_disk_inode d \<and> same_but_blocks d0 d \<and> initrafs_inode_integrity_verify (Some d) \<and>
     block_allocator_ok a \<and> block_units a = block_units a0 \<and>
     length ls = length ps \<and> distinct ls \<and> distinct ps \<and>
     set ps \<subseteq> block_free_set a0 \<and> block_free_set a = block_free_set a0 - set ps \<and>
     (\<forall>l \<in> set ls. block_map d0 l = None) \<and>
     block_map d = block_map d0 ++ map_of (zip ls ps)"

lemma grown_refl:
  "wf_disk_inode d \<Longrightarrow> initrafs_inode_integrity_verify (Some d) \<Longrightarrow> block_allocator_ok a \<Longrightarrow>
   grown d a d a [] []"
  by (simp add: grown_def)

lemma map_of_zip_snoc:
  "length ls = length ps \<Longrightarrow> l \<notin> set ls \<Longrightarrow> map_of (zip (ls @ [l]) (ps @ [p])) = (map_of (zip ls ps))(l \<mapsto> p)"
  by (induction ls ps rule: list_induct2) (auto simp: fun_eq_iff)

lemma grown_dom: "grown d0 a0 d a ls ps \<Longrightarrow> l \<in> set ls \<Longrightarrow> block_map d l \<noteq> None"
  by (auto simp: grown_def map_add_def map_of_zip_is_Some split: option.splits)

lemma grown_step:
  assumes g: "grown d0 a0 d a ls ps" and t: "block_take a = (p, a')" and "p \<noteq> 0"
    and m: "initrafs_inode_map_block (Some d) (Some sb) l p = Some d'"
  shows "grown d0 a0 d' a' (ls @ [l]) (ps @ [p])"
proof -
  from g have ok: "wf_disk_inode d" "block_allocator_ok a" by (simp_all add: grown_def)
  from block_alloc.take_cases [OF ok(2) t] \<open>p \<noteq> 0\<close>
  have p: "p \<in> block_free_set a" "block_free_set a' = block_free_set a - {p}"
    "block_units a' = block_units a" by auto
  note e = map_block_effect [OF ok(1) m]
  from e grown_dom [OF g] have l: "l \<notin> set ls" by blast
  then have "block_map d' = block_map d0 ++ map_of (zip (ls @ [l]) (ps @ [p]))"
    using e g by (subst map_of_zip_snoc) (simp_all add: grown_def)
  moreover have "block_map d0 l = None" using e g by (auto simp: grown_def)
  ultimately show ?thesis
    using g e p l block_alloc.invar_take [OF ok(2) t]
    by (auto simp: grown_def intro: same_but_blocks_trans)
qed

lemma grown_pop:
  assumes g: "grown d0 a0 d a (ls @ [l]) (ps @ [p])"
  shows "\<exists>d' a'. initrafs_inode_unmap_block (Some d) l = Some d' \<and>
           initrafs_block_free (Some a) p = (True, Some a') \<and> grown d0 a0 d' a' ls ps"
proof -
  from g have ok: "wf_disk_inode d" "block_allocator_ok a" by (simp_all add: grown_def)
  from grown_dom [OF g, of l] obtain d' where d': "initrafs_inode_unmap_block (Some d) l = Some d'"
    using unmap_block_defined [of d l] by auto
  note e = unmap_block_effect [OF ok(1) d']
  from g have l: "l \<notin> set ls" "length ls = length ps" "block_map d0 l = None" by (auto simp: grown_def)
  from l have "map_of (zip ls ps) l = None" by (simp add: map_of_zip_is_None)
  moreover have "block_map d = (block_map d0 ++ map_of (zip ls ps))(l \<mapsto> p)"
    using g map_of_zip_snoc [OF l(2,1)] unfolding grown_def by (metis map_add_upd)
  ultimately have "block_map d' = block_map d0 ++ map_of (zip ls ps)"
    using e l
    by (auto simp: fun_eq_iff map_add_def split: option.splits dest!: map_of_SomeD set_zip_leftD)
  moreover obtain r a' where a': "block_give a p = (r, a')" by fastforce
  moreover from g block_alloc.free_subset [OF ok(2)] have "p \<in> block_units a - block_free_set a"
    by (auto simp: grown_def block_free_set_def)
  note v = block_alloc.give_ok [OF ok(2) this a']
  ultimately show ?thesis
    using e g v d' l block_alloc.invar_give [OF ok(2) a']
    by (auto simp: grown_def block_free_give intro: same_but_blocks_trans)
qed

lemma rollback_loop_append:
  "c \<le> length ls \<Longrightarrow> c \<le> length ps \<Longrightarrow>
   rollback_loop d a (ls @ ls') (ps @ ps') c = rollback_loop d a ls ps c"
  by (induction c arbitrary: d a) (simp_all add: nth_append Suc_le_eq)

text \<open>The rollback restores the inode exactly, and the set of free blocks.\<close>

lemma file_write_abort_restores:
  assumes "grown d0 a0 d a ls ps" and "wf_disk_inode d0" and "initrafs_inode_integrity_verify (Some d0)"
  shows "\<exists>a'. file_write_abort d a ls ps = (d0, a') \<and> block_allocator_ok a' \<and>
              block_free_set a' = block_free_set a0 \<and> block_units a' = block_units a0"
proof -
  have "\<exists>a'. rollback_loop d a ls ps (length ls) = (d0, a') \<and> block_allocator_ok a' \<and>
              block_free_set a' = block_free_set a0 \<and> block_units a' = block_units a0"
    using assms(1)
  proof (induction ls arbitrary: ps d a rule: rev_induct)
    case Nil
    then have "d0 = d" using assms(2,3) by (intro same_block_map_eq) (auto simp: grown_def)
    with Nil show ?case by (simp add: grown_def)
  next
    case (snoc l ls)
    then obtain ps' p where ps: "ps = ps' @ [p]"
      by (metis grown_def length_0_conv rev_exhaust snoc_eq_iff_butlast)
    from grown_pop [OF snoc.prems [unfolded ps]] obtain d' a' where
      s: "initrafs_inode_unmap_block (Some d) l = Some d'"
         "initrafs_block_free (Some a) p = (True, Some a')" and g: "grown d0 a0 d' a' ls ps'" by blast
    from g have "length ls = length ps'" by (simp add: grown_def)
    with s snoc.IH [OF g] show ?case by (simp add: ps nth_append rollback_loop_append)
  qed
  then show ?thesis by (auto simp: file_write_abort_def initrafs_file_rollback_blocks_def)
qed

text \<open>
  The allocation loop succeeds exactly when there are as many free blocks as
  the visited part of the file lacks, provided the device has all the blocks
  the allocator hands out.
\<close>

definition missing :: "initrafs_disk_inode_t \<Rightarrow> u32 set \<Rightarrow> u32 set" where
  "missing d L = {l \<in> L. block_map d l = None}"

definition restored :: "initrafs_block_allocator_t \<Rightarrow> initrafs_block_allocator_t \<Rightarrow> bool" where
  "restored a0 a \<longleftrightarrow>
     block_allocator_ok a \<and> block_free_set a = block_free_set a0 \<and> block_units a = block_units a0"

lemma missing_step:
  assumes "block_map d l = None" and "block_map d' = (block_map d)(l \<mapsto> p)"
  shows "card (missing d (set (l # rest))) = Suc (card (missing d' (set rest)))"
proof -
  have "missing d (set (l # rest)) = insert l (missing d' (set rest))" and "l \<notin> missing d' (set rest)"
    using assms by (auto simp: missing_def)
  then show ?thesis by simp
qed

lemma allocated_block_maps:
  assumes "block_allocator_ok a" and "p \<in> block_units a" and "l < 8" and "block_map d l = None"
  shows "\<exists>sb d'. ba_superblock a = Some sb \<and> initrafs_inode_map_block (Some d) (Some sb) l p = Some d'"
proof -
  from assms(1) obtain sb where "ba_superblock a = Some sb" "sb_data_start sb = ba_first_data_block a"
    "sb_total_blocks sb = ba_total_blocks a" by (auto simp: block_allocator_ok_def)
  with assms map_block_defined [of d sb l p] show ?thesis by (auto simp: block_units_def)
qed

lemma missing_map_le: "map_le (block_map d) (block_map d') \<Longrightarrow> block_map d l = Some p \<Longrightarrow> block_map d' l = Some p"
  by (force simp: map_le_def)

definition alloc_loop_post ::
  "initrafs_disk_inode_t \<Rightarrow> initrafs_block_allocator_t \<Rightarrow> u32 list \<Rightarrow> initrafs_disk_inode_t
     \<Rightarrow> initrafs_block_allocator_t \<Rightarrow> u32 list
     \<Rightarrow> (initrafs_disk_inode_t \<times> initrafs_block_allocator_t) +
        (initrafs_disk_inode_t \<times> initrafs_block_allocator_t \<times> u32 list \<times> u32 list) \<Rightarrow> bool" where
  "alloc_loop_post d0 a0 todo d a ls r \<longleftrightarrow>
     (case r of
        Inl (d', a') \<Rightarrow> d' = d0 \<and> restored a0 a' \<and>
                        card (block_free_set a) < card (missing d (set todo))
      | Inr (d', a', ls', ps') \<Rightarrow>
          grown d0 a0 d' a' ls' ps' \<and> map_le (block_map d) (block_map d') \<and>
          missing d' (set todo) = {} \<and> set ls' \<subseteq> set ls \<union> set todo \<and>
          card (missing d (set todo)) \<le> card (block_free_set a))"

lemma alloc_loop_spec:
  assumes "wf_disk_inode d0" and "initrafs_inode_integrity_verify (Some d0)"
    and "\<forall>b \<in> block_units a0. b < bd_block_count v"
    and "grown d0 a0 d a ls ps" and "\<forall>l \<in> set todo. l < 8"
  shows "alloc_loop_post d0 a0 todo d a ls (file_write_alloc_loop v todo d a ls ps)"
  using assms(4,5)
proof (induction todo arbitrary: d a ls ps)
  case Nil
  then show ?case by (simp add: alloc_loop_post_def missing_def)
next
  case (Cons l todo)
  note g = Cons.prems(1)
  have ok: "wf_disk_inode d" "block_allocator_ok a" "block_units a = block_units a0"
    using g by (simp_all add: grown_def)
  show ?case
  proof (cases "block_map d l")
    case (Some p)
    have "missing d (set (l # todo)) = missing d (set todo)" using Some by (auto simp: missing_def)
    moreover have "missing d' (set (l # todo)) = missing d' (set todo)"
      if "map_le (block_map d) (block_map d')" for d'
      using missing_map_le [OF that Some] by (auto simp: missing_def)
    moreover have "file_write_alloc_loop v (l # todo) d a ls ps = file_write_alloc_loop v todo d a ls ps"
      using Some by (simp add: block_map_def)
    ultimately show ?thesis using Cons.IH [OF g] Cons.prems(2)
      by (auto simp: alloc_loop_post_def split: sum.splits)
  next
    case None
    obtain p a' where t: "block_take a = (p, a')" by fastforce
    note tc = block_alloc.take_cases [OF ok(2) t]
    note unf = None [unfolded block_map_def] block_alloc_take t
    show ?thesis
    proof (cases "p = 0")
      case True
      with tc have "a' = a" "block_free_set a = {}" by auto
      with True None show ?thesis
        using file_write_abort_restores [OF g assms(1,2)] missing_step [of d l d]
        by (auto simp: unf alloc_loop_post_def restored_def missing_def card_gt_0_iff)
    next
      case False
      with tc have p: "p \<in> block_free_set a" "block_free_set a' = block_free_set a - {p}"
        "block_units a' = block_units a" by auto
      have a': "block_allocator_ok a'" by (rule block_alloc.invar_take [OF ok(2) t])
      from p block_alloc.free_subset [OF ok(2)] have pu: "p \<in> block_units a'" by auto
      with assms(3) ok(3) p(3) have cnt: "\<not> bd_block_count v \<le> p" by (auto simp: not_le)
      obtain sb d' where m: "ba_superblock a' = Some sb"
          "initrafs_inode_map_block (Some d) (Some sb) l p = Some d'"
        using allocated_block_maps [OF a' pu _ None] Cons.prems(2) by auto
      have step: "file_write_alloc_loop v (l # todo) d a ls ps =
          file_write_alloc_loop v todo d' a' (ls @ [l]) (ps @ [p])"
        using False cnt m by (simp add: unf)
      note e = map_block_effect [OF ok(1) m(2)]
      have "card (block_free_set a) = Suc (card (block_free_set a'))"
        using p card_Suc_Diff1 [of "block_free_set a" p] by simp
      moreover have "card (missing d (set (l # todo))) = Suc (card (missing d' (set todo)))"
        using e by (intro missing_step) auto
      moreover have "map_le (block_map d) (block_map d')" using e None by (auto simp: map_le_def)
      moreover have "missing d'' (set (l # todo)) = missing d'' (set todo)"
        if "map_le (block_map d') (block_map d'')" for d''
        using missing_map_le [OF that, of l p] e by (auto simp: missing_def)
      ultimately show ?thesis unfolding step
        using Cons.IH [OF grown_step [OF g t False m(2)]] Cons.prems(2)
        by (auto simp: alloc_loop_post_def split: sum.splits intro: map_le_trans)
    qed
  qed
qed

subsection \<open>Writing blocks\<close>

definition inj_blocks :: "initrafs_disk_inode_t \<Rightarrow> bool" where
  "inj_blocks d \<longleftrightarrow> (\<forall>l l' p. block_map d l = Some p \<and> block_map d l' = Some p \<longrightarrow> l = l')"

text \<open>Position \<open>i\<close> of the file lies in a block of the device.\<close>

definition stored_at :: "u32 \<Rightarrow> initrafs_disk_inode_t \<Rightarrow> nat \<Rightarrow> bool" where
  "stored_at count d i \<longleftrightarrow>
     i < 4096 \<and> (\<exists>p. block_map d (of_nat (i div 512)) = Some p \<and> p < count)"

lemma of_nat_block_eq: "i < 4096 \<Longrightarrow> (of_nat (i div 512) :: u32) = x div 512 \<longleftrightarrow> i div 512 = unat x div 512"
proof -
  assume "i < 4096"
  then have "unat (of_nat (i div 512) :: u32) = i div 512" by (simp add: unat_of_nat)
  then show ?thesis by (metis div_512_word unat_eq_iff)
qed

text \<open>The bytes after one round of the write loop.\<close>

definition chunk_written ::
  "u32 \<Rightarrow> initrafs_disk_inode_t \<Rightarrow> u32 list \<Rightarrow> u8 list \<Rightarrow> nat \<Rightarrow> nat \<Rightarrow> nat \<Rightarrow> (nat \<Rightarrow> u8) \<Rightarrow> (nat \<Rightarrow> u8) \<Rightarrow> bool"
  where
  "chunk_written count d ls buf off lo hi old new \<longleftrightarrow>
     (\<forall>i. stored_at count d i \<longrightarrow>
        (lo \<le> i \<and> i < hi \<longrightarrow> new i = buf ! (i - off)) \<and>
        (i < lo \<longrightarrow> new i = old i) \<and>
        (hi \<le> i \<and> of_nat (i div 512) \<notin> set ls \<longrightarrow> new i = old i))"

lemma chunk_written_trans:
  "chunk_written count d ls buf off lo m old mid \<Longrightarrow> chunk_written count d ls buf off m hi mid new \<Longrightarrow>
   lo \<le> m \<Longrightarrow> m \<le> hi \<Longrightarrow> chunk_written count d ls buf off lo hi old new"
  unfolding chunk_written_def by (metis le_trans less_le_trans not_less)

lemma same_block_pos: "i div 512 = x div 512 \<Longrightarrow> i + x mod 512 = x + i mod 512" for i x :: nat
  by (metis add.commute add.left_commute div_mult_mod_eq)

text \<open>Blocks that do not belong to the file keep their contents.\<close>

definition untouched :: "u32 \<Rightarrow> initrafs_disk_inode_t \<Rightarrow> (u32 \<Rightarrow> u8 list) \<Rightarrow> (u32 \<Rightarrow> u8 list) \<Rightarrow> bool" where
  "untouched count d old new \<longleftrightarrow> (\<forall>q < count. q \<notin> ran (block_map d) \<longrightarrow> new q = old q)"

lemma untouched_trans: "untouched count d f g \<Longrightarrow> untouched count d g h \<Longrightarrow> untouched count d f h"
  by (simp add: untouched_def)

context reliable_device
begin

lemma write_block_bytes:
  assumes "dev_ok v" and "inj_blocks d" and "block_map d (x div 512) = Some p"
    and "p < bd_block_count v" and "length data = 512"
  shows "\<exists>v'. device_write v p data = (True, v') \<and> dev_ok v' \<and> bd_block_count v' = bd_block_count v \<and>
           untouched (bd_block_count v) d (contents v) (contents v') \<and>
           (\<forall>i. stored_at (bd_block_count v) d i \<longrightarrow>
                file_byte (contents v') d i =
                  (if i div 512 = unat x div 512 then data ! (i mod 512) else file_byte (contents v) d i))"
proof -
  obtain v' where v': "device_write v p data = (True, v')" "dev_ok v'"
      "bd_block_count v' = bd_block_count v"
      "\<forall>q < bd_block_count v. contents v' q = (if q = p then data else contents v q)"
    using write_contents [OF assms(1,4,5)] by blast
  moreover have "file_byte (contents v') d i =
      (if i div 512 = unat x div 512 then data ! (i mod 512) else file_byte (contents v) d i)"
    if "stored_at (bd_block_count v) d i" for i
  proof -
    from that obtain q where q: "block_map d (of_nat (i div 512)) = Some q" "q < bd_block_count v"
      and i: "i < 4096" by (auto simp: stored_at_def)
    have "q = p \<longleftrightarrow> i div 512 = unat x div 512"
      using q(1) assms(2,3) of_nat_block_eq [OF i, of x] unfolding inj_blocks_def
      by (metis option.inject)
    with q v'(4) show ?thesis by (simp add: file_byte_def)
  qed
  moreover have "untouched (bd_block_count v) d (contents v) (contents v')"
    using v'(4) assms(3) by (auto simp: untouched_def ran_def)
  ultimately show ?thesis by blast
qed

lemma write_round:
  assumes "dev_ok v" and "inj_blocks d" and "block_map d (x div 512) = Some p"
    and "p < bd_block_count v" and "length base = 512"
    and "unat x mod 512 + c \<le> 512" and "dn + c \<le> length buf" and "unat x = off + dn"
    and new: "x div 512 \<in> set ls \<Longrightarrow> x mod 512 = 0"
    and base: "x div 512 \<notin> set ls \<Longrightarrow> c = 512 \<or> base = contents v p"
  shows "\<exists>v'. device_write v p (blit base (unat x mod 512) (take c (drop dn buf))) = (True, v') \<and>
           dev_ok v' \<and> bd_block_count v' = bd_block_count v \<and>
           untouched (bd_block_count v) d (contents v) (contents v') \<and>
           chunk_written (bd_block_count v) d ls buf off (unat x) (unat x + c)
             (file_byte (contents v) d) (file_byte (contents v') d)"
proof -
  let ?data = "blit base (unat x mod 512) (take c (drop dn buf))"
  have len: "length ?data = 512" using assms(5-7) by simp
  obtain v' where v': "device_write v p ?data = (True, v')" "dev_ok v'"
      "bd_block_count v' = bd_block_count v" "untouched (bd_block_count v) d (contents v) (contents v')"
    and b: "\<And>i. stored_at (bd_block_count v) d i \<Longrightarrow> file_byte (contents v') d i =
        (if i div 512 = unat x div 512 then ?data ! (i mod 512) else file_byte (contents v) d i)"
    using write_block_bytes [OF assms(1-4) len] by blast
  have old: "file_byte (contents v) d i = contents v p ! (i mod 512)"
    if "stored_at (bd_block_count v) d i" "i div 512 = unat x div 512" for i
    using that assms(3) of_nat_block_eq [of i x] by (simp add: file_byte_def stored_at_def)
  have dn: "?data ! (i mod 512) =
      (if unat x \<le> i \<and> i < unat x + c then buf ! (i - off) else base ! (i mod 512))"
    if "i div 512 = unat x div 512" for i
  proof -
    have pos: "i + unat x mod 512 = unat x + i mod 512" by (rule same_block_pos [OF that])
    then have "unat x mod 512 \<le> i mod 512 \<and> i mod 512 < unat x mod 512 + c \<longleftrightarrow>
               unat x \<le> i \<and> i < unat x + c" by linarith
    moreover have "take c (drop dn buf) ! (i mod 512 - unat x mod 512) = buf ! (i - off)"
      if "unat x \<le> i \<and> i < unat x + c"
    proof -
      from pos that have "i mod 512 - unat x mod 512 = i - unat x" by linarith
      moreover from that assms(8) have "i - unat x < c" "dn + (i - unat x) = i - off" by linarith+
      ultimately show ?thesis using assms(7) by simp
    qed
    ultimately show ?thesis
      using assms(5-7) by (auto simp: nth_blit)
  qed
  have "chunk_written (bd_block_count v) d ls buf off (unat x) (unat x + c)
             (file_byte (contents v) d) (file_byte (contents v') d)"
    unfolding chunk_written_def
  proof (intro allI impI conjI)
    fix i assume st: "stored_at (bd_block_count v) d i"
    show "file_byte (contents v') d i = buf ! (i - off)" if r: "unat x \<le> i \<and> i < unat x + c"
    proof -
      have "i div 512 = unat x div 512"
        using r assms(6) div_mod_within_block [of "unat x" "i - unat x"] by auto
      then show ?thesis using b [OF st] dn r by simp
    qed
    show "file_byte (contents v') d i = file_byte (contents v) d i" if r: "i < unat x"
    proof (cases "i div 512 = unat x div 512")
      case True
      from same_block_pos [OF True] r have m: "unat x mod 512 \<noteq> 0" by linarith
      then have "c \<noteq> 512" using assms(6) by linarith
      moreover from m have "x mod 512 \<noteq> 0" by (metis mod_512_word unat_0)
      ultimately have "c \<noteq> 512 \<and> x mod 512 \<noteq> 0" by simp
      with new base have "base = contents v p" by metis
      with b [OF st] dn [OF True] old [OF st True] True r show ?thesis by simp
    qed (use b [OF st] in simp)
    show "file_byte (contents v') d i = file_byte (contents v) d i"
      if r: "unat x + c \<le> i \<and> of_nat (i div 512) \<notin> set ls"
    proof (cases "i div 512 = unat x div 512")
      case True
      have l: "x div 512 \<notin> set ls" using r True of_nat_div_512 [of x] by simp
      have "i mod 512 < 512" by simp
      with same_block_pos [OF True] r assms(6) have "c \<noteq> 512" by linarith
      with l base have "base = contents v p" by blast
      with b [OF st] dn [OF True] old [OF st True] True r show ?thesis by simp
    qed (use b [OF st] in simp)
  qed
  with v' show ?thesis by blast
qed

text \<open>The whole loop: it ends, and the range holds the buffer's bytes afterwards.\<close>

lemma file_write_loop_bytes:
  assumes "inj_blocks d" and "unat off + unat n \<le> 4096" and "unat n \<le> length buf"
    and "\<And>i. unat off \<le> i \<Longrightarrow> i < unat off + unat n \<Longrightarrow> stored_at count d i"
    and "dev_ok v" and "bd_block_count v = count" and "dn \<le> n"
    and "dn < n \<Longrightarrow> (off + dn) div 512 \<in> set ls \<Longrightarrow> (off + dn) mod 512 = 0"
  shows "\<exists>v'. file_write_loop d ls off buf n dn v = Inr (v', n) \<and> dev_ok v' \<and>
           bd_block_count v' = count \<and> untouched count d (contents v) (contents v') \<and>
           chunk_written count d ls buf (unat off) (unat off + unat dn) (unat off + unat n)
             (file_byte (contents v) d) (file_byte (contents v') d)"
  using assms(5-8)
proof (induction "unat n - unat dn" arbitrary: dn v rule: less_induct)
  case less
  show ?case
  proof (cases "dn < n")
    case False
    with less.prems(3) have "dn = n" by simp
    with less.prems show ?thesis
      by (auto simp: file_write_loop.simps [of d ls off buf n n] chunk_written_def untouched_def)
  next
    case True
    define x where "x = off + dn"
    define c where "c = io_chunk (x mod 512) (n - dn)"
    note pr = io_chunk_progress [OF True, of x, folded c_def]
    have lt: "unat dn < unat n" using True by (simp add: word_less_nat_alt)
    with assms(2) have x: "unat x = unat off + unat dn" by (simp add: x_def unat_word_ariths)
    have cle: "unat x mod 512 + unat c \<le> 512" "unat dn + unat c \<le> unat n" using pr(4) lt by auto
    obtain p where p: "block_map d (x div 512) = Some p" "p < bd_block_count v"
    proof -
      have "stored_at count d (unat x)" using assms(4) [of "unat x"] lt x by simp
      then show ?thesis using that less.prems(2) unfolding stored_at_def of_nat_div_512 by auto
    qed
    define base where "base = (if x div 512 \<in> set ls then replicate 512 0 else contents v p)"
    have len: "length base = 512" using length_contents [OF less.prems(1) p(2)] by (simp add: base_def)
    have "\<exists>v'. device_write v p (blit base (unat x mod 512) (take (unat c) (drop (unat dn) buf)))
                = (True, v') \<and> dev_ok v' \<and> bd_block_count v' = bd_block_count v \<and>
           untouched (bd_block_count v) d (contents v) (contents v') \<and>
           chunk_written (bd_block_count v) d ls buf (unat off) (unat x) (unat x + unat c)
             (file_byte (contents v) d) (file_byte (contents v') d)"
      using less.prems(1,4) assms(1,3) p len cle x True
      by (intro write_round) (auto simp: base_def x_def)
    then obtain v' where w: "device_write v p (blit base (unat x mod 512) (take (unat c) (drop (unat dn) buf)))
                = (True, v')" "dev_ok v'" "bd_block_count v' = count"
          "untouched count d (contents v) (contents v')"
        and cw: "chunk_written count d ls buf (unat off) (unat x) (unat x + unat c)
             (file_byte (contents v) d) (file_byte (contents v') d)"
      using less.prems(2) by auto
    note fold = x_def [symmetric] c_def [symmetric] block_map_def [symmetric] INITRAFS_BLOCK_SIZE_def
    have step: "file_write_loop d ls off buf n dn v = file_write_loop d ls off buf n (dn + c) v'"
    proof (cases "x mod 512 = 0 \<and> c = 512")
      case full: True
      then have "blit base (unat x mod 512) (take (unat c) (drop (unat dn) buf)) = take 512 (drop (unat dn) buf)"
        using len cle(2) assms(3) mod_512_word [of x] by (simp add: blit_all)
      moreover have "io_chunk 0 (n - dn) = 512" using full c_def by metis
      moreover have "(bd_block_count v \<le> p) = False" using p(2) by simp
      ultimately show ?thesis using True p w(1) full
        by (subst file_write_loop.simps) (simp add: fold Let_def)
    next
      case False
      have rd: "(if x div 512 \<in> set ls then Some (replicate (unat INITRAFS_BLOCK_SIZE) 0) else device_read v p)
          = Some base"
        using read_contents [OF less.prems(1) p(2)] by (simp add: base_def)
      have "(bd_block_count v \<le> p) = False" using p(2) by simp
      with False True p rd w(1) show ?thesis
        by (subst file_write_loop.simps)
           (simp only: fold Let_def if_True if_False option.case prod.case bool.case mod_512_word)
    qed
    have al: "(off + (dn + c)) mod 512 = 0" if "dn + c < n"
    proof -
      from that pr(2) have "unat dn + unat c < unat n" by (simp only: word_less_nat_alt)
      with pr(4) have "unat c = 512 - unat x mod 512" by linarith
      moreover have "unat (off + (dn + c)) = unat x + unat c"
        using x cle assms(2) pr(2) by (simp add: unat_word_ariths)
      moreover have "(unat x + (512 - unat x mod 512)) mod 512 = 0"
        using mod_add_left_eq [of "unat x" 512 "512 - unat x mod 512"] by simp
      ultimately have "unat ((off + (dn + c)) mod 512) = 0" by (simp add: mod_512_word)
      then show ?thesis by (simp only: unat_eq_zero)
    qed
    have "\<exists>v''. file_write_loop d ls off buf n (dn + c) v' = Inr (v'', n) \<and> dev_ok v'' \<and>
           bd_block_count v'' = count \<and> untouched count d (contents v') (contents v'') \<and>
           chunk_written count d ls buf (unat off) (unat off + unat (dn + c)) (unat off + unat n)
             (file_byte (contents v') d) (file_byte (contents v'') d)"
      using pr(1,3) w al lt by (intro less.hyps) (auto simp: word_less_nat_alt word_le_nat_alt)
    then show ?thesis unfolding step
      using chunk_written_trans [OF cw] untouched_trans [OF w(4)] pr(2) x cle by (auto simp: add.assoc)
  qed
qed

end

subsection \<open>Whole writes\<close>

text \<open>
  A file of a volume: its in-memory and on-disk inodes agree and verify, its
  bytes are backed by blocks that are in use, no block serves two places, and
  the device has all blocks the allocator knows.
\<close>

definition file_ok ::
  "u32 \<Rightarrow> initrafs_block_allocator_t \<Rightarrow> fs_inode \<Rightarrow> initrafs_disk_inode_t \<Rightarrow> bool" where
  "file_ok count a i d \<longleftrightarrow>
     wf_disk_inode d \<and> initrafs_file_inode_pair_valid (Some i) (Some d) \<and>
     unat (di_size d) \<le> 4096 \<and> backed count d (unat (di_size d)) \<and> inj_blocks d \<and>
     block_allocator_ok a \<and> (\<forall>b \<in> block_units a. b < count) \<and>
     ran (block_map d) \<subseteq> block_units a - block_free_set a"

lemma file_okD:
  assumes "file_ok count a i d"
  shows "wf_disk_inode d" and "initrafs_inode_integrity_verify (Some d)" and "inj_blocks d"
    and "block_allocator_ok a" and "\<forall>b \<in> block_units a. b < count" and "unat (di_size d) \<le> 4096"
    and "backed count d (unat (di_size d))" and "ran (block_map d) \<subseteq> block_units a - block_free_set a"
    and "initrafs_file_inode_pair_valid (Some i) (Some d)"
  using assms by (simp_all add: file_ok_def initrafs_file_inode_pair_valid_def)

definition write_range :: "u32 \<Rightarrow> u32 \<Rightarrow> u32 list" where
  "write_range off n = logical_range (off div 512) ((off + n - 1) div 512)"

lemma write_range:
  assumes "n \<noteq> 0" and "unat off + unat n \<le> 4096"
  shows "\<forall>l \<in> set (write_range off n). l < 8"
    and "unat off \<le> i \<Longrightarrow> i < unat off + unat n \<Longrightarrow> of_nat (i div 512) \<in> set (write_range off n)"
proof -
  have "0 < unat n" using assms(1) by (simp add: unat_gt_0)
  then have u: "unat (off + n - 1) = unat off + unat n - 1"
    using assms(2) by (subst unat_minus_1) (auto simp: unat_word_ariths unat_eq_zero [symmetric])
  have s: "set (write_range off n) =
      of_nat ` {unat off div 512..<Suc ((unat off + unat n - 1) div 512)}"
    unfolding write_range_def logical_range_def set_map set_upt div_512_word u ..
  have "(unat off + unat n - 1) div 512 < 8" using assms(2) by simp
  then show "\<forall>l \<in> set (write_range off n). l < 8"
    unfolding s by (auto simp: word_less_nat_alt unat_of_nat)
  show "of_nat (i div 512) \<in> set (write_range off n)" if "unat off \<le> i" "i < unat off + unat n"
    unfolding s using that by (intro imageI) (auto simp: less_Suc_eq_le intro: div_le_mono)
qed

lemma grown_ran:
  assumes "grown d0 a0 d a ls ps"
  shows "ran (block_map d) = ran (block_map d0) \<union> set ps"
proof -
  from assms have "dom (block_map d0) \<inter> dom (map_of (zip ls ps)) = {}"
    by (auto simp: grown_def dest!: map_of_SomeD set_zip_leftD)
  with assms show ?thesis by (simp add: grown_def ran_map_add ran_map_of_zip)
qed

lemma grown_inj:
  assumes "grown d0 a0 d a ls ps" and "inj_blocks d0" and "ran (block_map d0) \<inter> block_free_set a0 = {}"
  shows "inj_blocks d"
  unfolding inj_blocks_def
proof (intro allI impI)
  fix l l' p assume p: "block_map d l = Some p \<and> block_map d l' = Some p"
  let ?new = "map_of (zip ls ps)"
  have split: "?new k = Some p \<and> p \<in> set ps \<or> block_map d0 k = Some p \<and> p \<notin> block_free_set a0"
    if "block_map d k = Some p" for k
    using that assms(1,3)
    by (auto simp: grown_def map_add_Some_iff ran_def dest: map_of_SomeD set_zip_rightD)
  have sub: "p \<in> set ps \<Longrightarrow> p \<in> block_free_set a0" using assms(1) by (auto simp: grown_def)
  show "l = l'"
  proof (cases "p \<in> set ps")
    case True
    with split sub p have "?new l = Some p" "?new l' = Some p" by blast+
    moreover have "length ls = length ps" "distinct ps" using assms(1) by (simp_all add: grown_def)
    ultimately show ?thesis by (auto simp: set_zip nth_eq_iff_index_eq dest!: map_of_SomeD)
  next
    case False
    with split p assms(2) show ?thesis unfolding inj_blocks_def by blast
  qed
qed

lemma grown_old:
  "grown d0 a0 d a ls ps \<Longrightarrow> block_map d0 l = Some p \<Longrightarrow> block_map d l = Some p \<and> l \<notin> set ls"
  by (auto simp: grown_def map_add_Some_iff)

lemma grown_file:
  assumes g: "grown d0 a0 d a ls ps" and ok: "file_ok count a0 i d0"
  shows "inj_blocks d" and "ran (block_map d) \<subseteq> block_units a - block_free_set a"
    and "block_map d l = Some p \<Longrightarrow> p < count"
    and "\<lbrakk>k < unat (di_size d0)\<rbrakk> \<Longrightarrow> stored_at count d k \<and> of_nat (k div 512) \<notin> set ls \<and>
           file_byte blk d k = file_byte blk d0 k"
proof -
  note D = file_okD [OF ok]
  show "inj_blocks d" by (rule grown_inj [OF g D(3)]) (use D(8) in auto)
  show r: "ran (block_map d) \<subseteq> block_units a - block_free_set a"
    using D(8) g grown_ran [OF g] block_alloc.free_subset [OF D(4)] by (auto simp: grown_def)
  moreover have "block_units a = block_units a0" using g by (simp add: grown_def)
  ultimately show "block_map d l = Some p \<Longrightarrow> p < count" using D(5) by (auto simp: ran_def)
  assume k: "k < unat (di_size d0)"
  with D(7) obtain q where q: "block_map d0 (of_nat (k div 512)) = Some q" "q < count"
    by (auto simp: backed_def)
  with grown_old [OF g q(1)] k D(6)
  show "stored_at count d k \<and> of_nat (k div 512) \<notin> set ls \<and> file_byte blk d k = file_byte blk d0 k"
    by (simp add: stored_at_def file_byte_def)
qed

text \<open>The first block of a write is new only when the write starts at its beginning.\<close>

lemma new_first_block_aligned:
  assumes g: "grown d0 a0 d a ls ps" and ok: "file_ok count a0 i d0"
    and "unat off \<le> unat (di_size d0)" and "off div 512 \<in> set ls"
  shows "off mod 512 = 0"
proof (rule ccontr)
  assume "off mod 512 \<noteq> 0"
  then have m: "unat off mod 512 \<noteq> 0" by (metis mod_512_word unat_eq_zero)
  then have pos: "0 < unat off" by (metis gr0I mod_0)
  from m have "(unat off - 1) div 512 = unat off div 512"
    using pos by (metis Suc_diff_1 div_Suc mod_Suc)
  moreover have "of_nat ((unat off - 1) div 512) \<notin> set ls"
    using grown_file(4) [OF g ok, of "unat off - 1"] pos assms(3) by simp
  ultimately show False using assms(4) by (simp add: of_nat_div_512)
qed

lemma write_finish_ok:
  assumes g: "grown d0 a0 d a ls ps" and ok: "file_ok count a0 i d0"
    and fits: "unat off + unat n \<le> 4096" and off: "unat off \<le> unat (di_size d0)"
    and st: "\<And>k. unat off \<le> k \<Longrightarrow> k < unat off + unat n \<Longrightarrow> stored_at count d k"
    and fin: "file_write_finish (off + n) (di_size d0) i d = (i', d')"
  shows "file_ok count a i' d' \<and> block_map d' = block_map d \<and>
         unat (di_size d') = max (unat (di_size d0)) (unat off + unat n)"
proof -
  note D = file_okD [OF ok] and G = grown_file [OF g ok]
  have e: "unat (off + n) = unat off + unat n" using fits by (simp add: unat_word_ariths)
  from g have d: "wf_disk_inode d" "initrafs_inode_integrity_verify (Some d)" "block_allocator_ok a"
      "block_units a = block_units a0" and f: "same_but_blocks d0 d" by (simp_all add: grown_def)
  note F = same_but_blocks_fields [OF f]
  from fin e F have b: "block_map d' = block_map d"
    and sz: "unat (di_size d') = max (unat (di_size d0)) (unat off + unat n)"
    by (auto simp: file_write_finish_def word_less_nat_alt split: if_splits)
  have pv: "initrafs_file_inode_pair_valid (Some i') (Some d')"
    using D(9) fin F d(2) by (auto simp: initrafs_file_inode_pair_valid_def file_write_finish_def split: if_splits)
  have "wf_disk_inode (d\<lparr>di_size := off + n\<rparr>)" using d(1) by (simp add: wf_disk_inode_def)
  then have wf: "wf_disk_inode d'" using fin d(1)
    by (auto simp: file_write_finish_def split: if_splits)
  have "stored_at count d k" if "k < unat (di_size d')" for k
    using that sz st [of k] G(4) [of k] off by (cases "k < unat (di_size d0)") auto
  then have "backed count d' (unat (di_size d'))" using b by (auto simp: backed_def stored_at_def)
  moreover have "inj_blocks d'" using G(1) b by (simp add: inj_blocks_def)
  ultimately show ?thesis using wf pv b sz G(2) d D(5,6) fits by (simp add: file_ok_def)
qed

lemma written_content:
  assumes g: "grown d0 a0 d a ls ps" and ok: "file_ok count a0 i d0"
    and off: "unat off \<le> unat (di_size d0)" and len: "length bs = unat n"
    and st: "\<And>k. unat off \<le> k \<Longrightarrow> k < unat off + unat n \<Longrightarrow> stored_at count d k"
    and cw: "chunk_written count d ls buf (unat off) (unat off) (unat off + unat n)
               (file_byte old d) (file_byte new d)"
    and bs: "\<And>k. k < unat n \<Longrightarrow> bs ! k = buf ! k"
    and d': "block_map d' = block_map d" "unat (di_size d') = max (unat (di_size d0)) (unat off + unat n)"
  shows "file_content new d' = blit (file_content old d0) (unat off) bs"
proof (rule nth_equalityI)
  note G = grown_file [OF g ok]
  have lo: "length (file_content old d0) = unat (di_size d0)" by (simp add: file_content_def)
  show l: "length (file_content new d') = length (blit (file_content old d0) (unat off) bs)"
    using off d' len by (simp add: length_blit_extend lo)
  fix k assume "k < length (file_content new d')"
  then have k: "k < max (unat (di_size d0)) (unat off + unat n)" and
    kb: "k < length (blit (file_content old d0) (unat off) bs)"
    using d'(2) l by (simp_all add: file_content_def)
  have new: "file_content new d' ! k = file_byte new d k"
    using k d' by (simp add: file_content_def file_byte_def)
  show "file_content new d' ! k = blit (file_content old d0) (unat off) bs ! k"
  proof (cases "unat off \<le> k \<and> k < unat off + unat n")
    case True
    then have "file_byte new d k = buf ! (k - unat off)" using cw st by (simp add: chunk_written_def)
    moreover have "bs ! (k - unat off) = buf ! (k - unat off)" using True by (intro bs) linarith
    ultimately show ?thesis using True new kb off by (simp add: nth_blit_extend lo len)
  next
    case False
    with k off have ks: "k < unat (di_size d0)" by auto
    with G(4) [OF ks] False cw have "file_byte new d k = file_byte old d0 k"
      unfolding chunk_written_def by (metis not_less)
    with False new kb off ks show ?thesis
      by (auto simp: nth_blit_extend lo len) (simp_all add: file_content_def)
  qed
qed

context reliable_device
begin

lemma file_write_content:
  assumes ok: "file_ok (bd_block_count v) a i d" and dev: "dev_ok v" and n: "n \<noteq> 0"
    and off: "unat off \<le> unat (di_size d)" and fits: "unat off + unat n \<le> 4096"
    and buf: "unat n \<le> length buf"
    and enough: "card (missing d (set (write_range off n))) \<le> card (block_free_set a)"
  shows "\<exists>i' d' a' v'.
     file_write_blocks i d a v off buf n = (int (unat n), i', d', a', v') \<and>
     file_ok (bd_block_count v) a' i' d' \<and> dev_ok v' \<and> bd_block_count v' = bd_block_count v \<and>
     block_free_set a' \<subseteq> block_free_set a \<and> ran (block_map d') \<subseteq> ran (block_map d) \<union> block_free_set a \<and>
     block_units a' = block_units a \<and>
     untouched (bd_block_count v) d' (contents v) (contents v') \<and>
     file_content (contents v') d' = blit (file_content (contents v) d) (unat off) (take (unat n) buf)"
proof -
  note D = file_okD [OF ok]
  let ?c = "bd_block_count v"
  note wr = write_range [OF n fits]
  from alloc_loop_spec [OF D(1,2,5) grown_refl [OF D(1,2,4)] wr(1)] enough
  obtain d1 a1 ls ps where al: "file_write_alloc_loop v (write_range off n) d a [] [] = Inr (d1, a1, ls, ps)"
    and g: "grown d a d1 a1 ls ps" and full: "missing d1 (set (write_range off n)) = {}"
    by (auto simp: alloc_loop_post_def split: sum.splits)
  note G = grown_file [OF g ok]
  have st: "stored_at ?c d1 k" if "unat off \<le> k" "k < unat off + unat n" for k
    using full wr(2) [OF that] G(3) fits that by (auto simp: missing_def stored_at_def)
  have "0 + off div 512 \<in> set ls \<Longrightarrow> off mod 512 = 0"
    using new_first_block_aligned [OF g ok off] by simp
  then obtain v' where w: "file_write_loop d1 ls off buf n 0 v = Inr (v', n)" "dev_ok v'"
      "bd_block_count v' = ?c" "untouched ?c d1 (contents v) (contents v')"
    and cw: "chunk_written ?c d1 ls buf (unat off) (unat off) (unat off + unat n)
               (file_byte (contents v) d1) (file_byte (contents v') d1)"
    using file_write_loop_bytes [OF G(1) fits buf st dev refl, of 0 ls] by auto
  obtain i' d' where fin: "file_write_finish (off + n) (di_size d) i d1 = (i', d')" by fastforce
  note F = write_finish_ok [OF g ok fits off st fin]
  have "file_write_blocks i d a v off buf n = (int (unat n), i', d', a1, v')"
    using al w(1) fin fits by (simp add: file_write_blocks_def write_range_def sint_small Let_def)
  moreover have "file_content (contents v') d' = blit (file_content (contents v) d) (unat off) (take (unat n) buf)"
    using buf F by (intro written_content [OF g ok off _ st cw]) auto
  moreover have "untouched ?c d' (contents v) (contents v')" using w(4) F by (simp add: untouched_def)
  moreover have "block_units a1 = block_units a" "block_free_set a1 \<subseteq> block_free_set a"
    "ran (block_map d') \<subseteq> ran (block_map d) \<union> block_free_set a"
    using g F grown_ran [OF g] by (auto simp: grown_def)
  ultimately show ?thesis using F w(2,3) by blast
qed

end

subsection \<open>What a write leaves alone\<close>

text \<open>A file none of whose blocks belong to the written file keeps its contents.\<close>

lemma untouched_content:
  assumes un: "untouched count d f g" and b: "backed count e (unat (di_size e))"
    and dis: "ran (block_map d) \<inter> ran (block_map e) = {}"
  shows "file_content g e = file_content f e"
proof -
  have "file_byte g e k = file_byte f e k" if "k < unat (di_size e)" for k
  proof -
    from that b obtain p where "block_map e (of_nat (k div 512)) = Some p" "p < count"
      by (auto simp: backed_def)
    moreover from this dis have "p \<notin> ran (block_map d)" by (auto simp: ran_def)
    ultimately show ?thesis using un by (simp add: untouched_def file_byte_def)
  qed
  then show ?thesis by (simp add: file_content_def)
qed

text \<open>Only the size of the in-memory inode can change.\<close>

lemma file_write_blocks_inode:
  "file_write_blocks i d a v off buf n = (r, i', d', a', v') \<Longrightarrow> \<exists>s. i' = i\<lparr>fi_size := s\<rparr>"
  by (cases i) (auto simp: file_write_blocks_def file_write_finish_def Let_def
      split: sum.splits prod.splits if_splits)

subsection \<open>Failing writes\<close>

lemma file_write_loop_result:
  "dn \<le> n \<Longrightarrow> file_write_loop d ls off buf n dn v = Inr (v', m) \<Longrightarrow> m = n"
proof (induction "unat n - unat dn" arbitrary: dn v rule: less_induct)
  case less
  let ?c = "io_chunk ((off + dn) mod 512) (n - dn)"
  have "file_write_loop d ls off buf n (dn + ?c) w = Inr (v', m) \<Longrightarrow> m = n" if "dn < n" for w
    using io_chunk_progress(1,3) [OF that, of "off + dn"] that
    by (intro less.hyps) (auto simp: word_less_nat_alt word_le_nat_alt)
  with less.prems show ?case
    by (auto simp: file_write_loop.simps [of d ls off buf n dn v] Let_def
          split: if_splits option.splits prod.splits bool.splits)
qed

text \<open>
  Over any device, reliable or not: a write that returns \<open>-1\<close> leaves both
  inodes and the set of free blocks as they were.
\<close>

lemma file_write_fail_restores:
  assumes ok: "file_ok (bd_block_count v) a i d" and n: "n \<noteq> 0" and fits: "unat off + unat n \<le> 4096"
    and w: "file_write_blocks i d a v off buf n = (-1, i', d', a', v')"
  shows "i' = i \<and> d' = d \<and> restored a a'"
proof -
  note D = file_okD [OF ok]
  note spec = alloc_loop_spec [OF D(1,2,5) grown_refl [OF D(1,2,4)] write_range(1) [OF n fits]]
  show ?thesis
  proof (cases "file_write_alloc_loop v (write_range off n) d a [] []")
    case (Inl r)
    with spec w show ?thesis
      by (auto simp: alloc_loop_post_def file_write_blocks_def write_range_def Let_def)
  next
    case (Inr r)
    then obtain d1 a1 ls ps where al: "file_write_alloc_loop v (write_range off n) d a [] [] = Inr (d1, a1, ls, ps)"
      by (metis prod.exhaust)
    with spec have g: "grown d a d1 a1 ls ps" by (simp add: alloc_loop_post_def)
    note ab = file_write_abort_restores [OF g D(1,2)]
    show ?thesis
    proof (cases "file_write_loop d1 ls off buf n 0 v")
      case (Inl r)
      with al w ab show ?thesis
        by (auto simp: file_write_blocks_def write_range_def restored_def Let_def)
    next
      case (Inr r)
      then obtain v1 m where r: "file_write_loop d1 ls off buf n 0 v = Inr (v1, m)" by (metis prod.exhaust)
      then have "m = n" using file_write_loop_result [of 0 n] by simp
      then have "sint m = int (unat n)" using fits by (simp add: sint_small)
      then have "sint m \<noteq> -1" by linarith
      with al r w show ?thesis
        by (auto simp: file_write_blocks_def write_range_def Let_def split: prod.splits)
    qed
  qed
qed

text \<open>With too few free blocks a write fails before it touches the device.\<close>

lemma file_write_no_space:
  assumes ok: "file_ok (bd_block_count v) a i d" and n: "n \<noteq> 0" and fits: "unat off + unat n \<le> 4096"
    and few: "card (block_free_set a) < card (missing d (set (write_range off n)))"
  shows "\<exists>a'. file_write_blocks i d a v off buf n = (-1, i, d, a', v) \<and> restored a a'"
proof -
  note D = file_okD [OF ok]
  from alloc_loop_spec [OF D(1,2,5) grown_refl [OF D(1,2,4)] write_range(1) [OF n fits]] few
  show ?thesis
    by (auto simp: alloc_loop_post_def file_write_blocks_def write_range_def Let_def split: sum.splits)
qed

text \<open>The checks of \<open>initrafs_file_write\<close>, once, for a file in good order.\<close>

lemma file_write_checks:
  assumes "file_ok c a i d" and "bd_read v \<noteq> None" and "bd_write v \<noteq> None"
    and "bd_block_size v = INITRAFS_BLOCK_SIZE" and "bd_block_count v \<noteq> 0"
  shows "initrafs_file_write (Some i) (Some d) (Some a) (Some v) off (Some buf) n =
     (if n = 0 then (0, Some i, Some d, Some a, Some v)
      else if unat off > unat (di_size d) \<or> unat off + unat n > 4096
      then (-1, Some i, Some d, Some a, Some v)
      else let (r, i', d', a', v') = file_write_blocks i d a v off buf n
           in (r, Some i', Some d', Some a', Some v'))"
proof -
  note D = file_okD [OF assms(1)]
  have "unat (4096 - off) = 4096 - unat off" if "unat off \<le> unat (di_size d)"
    using that D(6) by (simp add: unat_minus_le word_le_nat_alt)
  then have "n > 4096 - off \<longleftrightarrow> unat off + unat n > 4096" if "unat off \<le> unat (di_size d)"
    using that D(6) by (auto simp: word_less_nat_alt)
  moreover have "\<not> di_size d > 4096" using D(6) by (simp add: word_less_nat_alt)
  ultimately show ?thesis
    using D(9) assms(2-5) by (auto simp: initrafs_file_write_def word_less_nat_alt Let_def)
qed

end
