(* ===== verification/Example_Volume.thy ===== *)
theory Example_Volume
  imports File_Content
begin

section \<open>A concrete volume\<close>

text \<open>
  The 64-block RAM disk of \<open>kernel.c\<close> formatted by the source's own functions,
  with an empty file on it: the instance on which hypotheses of the properties
  are shown to hold.
\<close>

definition blank_superblock :: initrafs_superblock_t where
  "blank_superblock =
     \<lparr>sb_magic = 0, sb_version = 0, sb_block_size = 0, sb_total_blocks = 0, sb_inode_count = 0,
      sb_free_block_count = 0, sb_inode_table_start = 0, sb_inode_table_blocks = 0,
      sb_data_start = 0, sb_root_inode = 0, sb_filesystem_flags = 0\<rparr>"

definition blank_block_allocator :: initrafs_block_allocator_t where
  "blank_block_allocator =
     \<lparr>ba_bitmap = None, ba_bitmap_bytes = 0, ba_total_blocks = 0, ba_first_data_block = 0,
      ba_free_blocks = 0, ba_superblock = None\<rparr>"

definition blank_inode_allocator :: initrafs_inode_allocator_t where
  "blank_inode_allocator =
     \<lparr>ia_bitmap = None, ia_bitmap_bytes = 0, ia_total_inodes = 0, ia_first_allocatable_inode = 0,
      ia_free_inodes = 0, ia_superblock = None\<rparr>"

definition ex_superblock :: initrafs_superblock_t where
  "ex_superblock = the (initrafs_superblock_init (Some blank_superblock) 64)"

definition ex_blocks :: initrafs_block_allocator_t where
  "ex_blocks = the (initrafs_block_allocator_init (Some blank_block_allocator) (Some ex_superblock)
                      (Some (replicate 8 0)) 8)"

definition ex_inodes :: initrafs_inode_allocator_t where
  "ex_inodes = the (initrafs_inode_allocator_init (Some blank_inode_allocator) (Some ex_superblock)
                      (Some (replicate 16 0)) 16)"

definition ex_device :: "u8 list option block_device" where
  "ex_device =
     \<lparr>bd_block_size = 512, bd_block_count = 64, bd_private_data = Some (replicate 32768 0),
      bd_read = Some initrafs_test_disk_read, bd_write = Some initrafs_test_disk_write\<rparr>"

definition ex_inode :: fs_inode where
  "ex_inode = the (initrafs_inode_init (Some zero_fs_inode) 2 INODE_TYPE_FILE 0x1A4)"

definition ex_disk_inode :: initrafs_disk_inode_t where
  "ex_disk_inode =
     initrafs_inode_integrity_update
       (zero_disk_inode\<lparr>di_inode_number := 2, di_type := INITRAFS_TYPE_FILE, di_mode := 0x1A4,
          di_link_count := 1\<rparr>)"

lemma ex_superblock_eq:
  "ex_superblock =
     \<lparr>sb_magic = INITRAFS_MAGIC, sb_version = 1, sb_block_size = 512, sb_total_blocks = 64,
      sb_inode_count = 128, sb_free_block_count = 40, sb_inode_table_start = 1,
      sb_inode_table_blocks = 23, sb_data_start = 24, sb_root_inode = 1, sb_filesystem_flags = 1\<rparr>"
  by (simp add: ex_superblock_def superblock_init_eq)

lemma ex_blocks_init:
  "initrafs_block_allocator_init (Some blank_block_allocator) (Some ex_superblock)
     (Some (replicate 8 0)) 8 = Some ex_blocks"
  by (simp add: ex_blocks_def initrafs_block_allocator_init_def ex_superblock_eq
        initrafs_bitmap_bytes_def Let_def)

lemma ex_inodes_init:
  "initrafs_inode_allocator_init (Some blank_inode_allocator) (Some ex_superblock)
     (Some (replicate 16 0)) 16 = Some ex_inodes"
  by (simp add: ex_inodes_def initrafs_inode_allocator_init_def ex_superblock_eq
        initrafs_inode_bitmap_bytes_def Let_def word_le_nat_alt word_less_nat_alt)

lemma ex_blocks_ok:
  "block_allocator_ok ex_blocks \<and> block_units ex_blocks = {b. 24 < b \<and> b < 64} \<and>
   block_free_set ex_blocks = {b. 24 < b \<and> b < 64}"
  using block_allocator_init_ok [OF ex_blocks_init] by (simp add: block_units_def ex_superblock_eq)

lemma ex_blocks_free: "card (block_free_set ex_blocks) = 39"
  using ex_blocks_ok by (simp add: card_u32_between)

lemma ex_inodes_ok:
  "inode_allocator_ok ex_inodes \<and> inode_free_set ex_inodes = inode_units ex_inodes"
  using inode_allocator_init_ok [OF ex_inodes_init] by (simp add: ex_superblock_eq)

lemma ex_device_ok: "ram_disk_ok ex_device"
  by (simp add: ram_disk_ok_def ex_device_def)

lemma ex_device_count: "bd_block_count ex_device = 64"
  by (simp add: ex_device_def)

lemma ex_disk_inode_blocks: "block_map ex_disk_inode = Map.empty"
  by (auto simp: fun_eq_iff block_map_eq ex_disk_inode_def zero_disk_inode_def word_less_nat_alt)

lemma ex_file_ok: "file_ok 64 ex_blocks ex_inode ex_disk_inode"
proof -
  have wf: "wf_disk_inode ex_disk_inode"
    unfolding ex_disk_inode_def by (rule wf_integrity_update) (simp add: wf_disk_inode_def zero_disk_inode_def)
  have sz: "di_size ex_disk_inode = 0" by (simp add: ex_disk_inode_def zero_disk_inode_def)
  have pv: "initrafs_file_inode_pair_valid (Some ex_inode) (Some ex_disk_inode)"
    by (simp add: initrafs_file_inode_pair_valid_def ex_disk_inode_def ex_inode_def
          initrafs_inode_init_def zero_disk_inode_def)
  show ?thesis
    using wf sz pv ex_blocks_ok
    by (auto simp: file_ok_def backed_def inj_blocks_def ex_disk_inode_blocks)
qed

end
