(* ===== verification/Fs_Properties.thy ===== *)
theory Fs_Properties
  imports Example_Volume
begin

section \<open>Properties of the storage layers\<close>

text \<open>
  What the superblock, the inode checksum, the two allocators, directories and
  files promise, stated over the model's own functions, each with an instance
  on the concrete volume where it has hypotheses.
\<close>

subsection \<open>Files on the RAM disk\<close>

text \<open>
  C1: A write into a file on the RAM disk that stays within 4096 bytes, starts
  at or before the end of the file and finds enough free blocks returns the
  number of bytes asked for; the file's contents afterwards are the old contents
  with exactly the written bytes replaced or appended; reading the same range
  back returns those bytes; and the file stays in good order.
\<close>

theorem file_write_then_read:
  assumes "ram_disk_ok v" and "file_ok (bd_block_count v) a i d"
    and "n \<noteq> 0" and "unat off \<le> unat (di_size d)" and "unat off + unat n \<le> 4096"
    and "unat n \<le> length buf" and "length out = unat n"
    and "card (missing d (set (write_range off n))) \<le> card (block_free_set a)"
  shows "\<exists>i' d' a' v'.
     initrafs_file_write (Some i) (Some d) (Some a) (Some v) off (Some buf) n =
       (int (unat n), Some i', Some d', Some a', Some v') \<and>
     ram_disk_ok v' \<and> file_ok (bd_block_count v') a' i' d' \<and>
     file_content (ram_disk_block v') d' =
       blit (file_content (ram_disk_block v) d) (unat off) (take (unat n) buf) \<and>
     initrafs_file_read (Some i') (Some d') (Some v') off (Some out) n =
       (int (unat n), Some (take (unat n) buf))"
proof -
  note U = ram_disk.usable [OF assms(1)]
  obtain i' d' a' v' where w: "file_write_blocks i d a v off buf n = (int (unat n), i', d', a', v')"
    and ok: "file_ok (bd_block_count v) a' i' d'" "ram_disk_ok v'" "bd_block_count v' = bd_block_count v"
    and c: "file_content (ram_disk_block v') d' =
        blit (file_content (ram_disk_block v) d) (unat off) (take (unat n) buf)"
    using ram_disk.file_write_content [OF assms(2,1,3,4,5,6,8)] by blast
  have "initrafs_file_write (Some i) (Some d) (Some a) (Some v) off (Some buf) n =
      (int (unat n), Some i', Some d', Some a', Some v')"
    using file_write_checks [OF assms(2), of v off buf n] U w assms(3-5) by simp
  moreover have "take (unat n) (drop (unat off) (file_content (ram_disk_block v') d')) = take (unat n) buf"
    unfolding c using assms(4,6) by (simp add: blit_def)
  moreover have "blit out 0 (take (unat n) buf) = take (unat n) buf"
    using assms(6,7) by (intro blit_all) simp
  moreover note ram_disk.file_read_content [OF ok(2), of i' d' n out off] file_okD [OF ok(1)]
  ultimately show ?thesis using ok c assms(6,7) by (auto simp: Let_def)
qed

theorem file_write_then_read_witness:
  "\<exists>i' d' a' v'.
     initrafs_file_write (Some ex_inode) (Some ex_disk_inode) (Some ex_blocks) (Some ex_device) 0
       (Some [104, 105, 33]) 3 = (3, Some i', Some d', Some a', Some v') \<and>
     file_content (ram_disk_block v') d' = [104, 105, 33] \<and>
     initrafs_file_read (Some i') (Some d') (Some v') 0 (Some [0, 0, 0]) 3 =
       (3, Some [104, 105, 33])"
proof -
  have "write_range 0 3 = [0]" by (simp add: write_range_def logical_range_def)
  then have "card (missing ex_disk_inode (set (write_range 0 3))) \<le> card (block_free_set ex_blocks)"
    by (simp add: missing_def ex_disk_inode_blocks ex_blocks_free Collect_conv_if)
  moreover have "file_content (ram_disk_block ex_device) ex_disk_inode = []"
    by (simp add: file_content_def ex_disk_inode_def zero_disk_inode_def)
  ultimately show ?thesis
    using file_write_then_read [of ex_device ex_blocks ex_inode ex_disk_inode 3 0
        "[104, 105, 33]" "[0, 0, 0]"] ex_device_ok ex_file_ok
    by (auto simp: ex_device_count blit_def)
qed

text \<open>
  C35: Reading a file on the RAM disk returns the bytes of the file from the
  offset on, at most as many as asked for and none past the end, and changes
  only that part of the buffer.
\<close>

theorem file_read_exact:
  assumes "ram_disk_ok v" and "file_ok (bd_block_count v) a i d" and "unat n \<le> length buf"
  shows "initrafs_file_read (Some i) (Some d) (Some v) off (Some buf) n =
           (let bs = take (unat n) (drop (unat off) (file_content (ram_disk_block v) d))
            in (int (length bs), Some (blit buf 0 bs)))"
  using ram_disk.file_read_content [OF assms(1)] file_okD [OF assms(2)] assms(3) by blast

theorem file_read_exact_witness:
  "initrafs_file_read (Some ex_inode) (Some ex_disk_inode) (Some ex_device) 0 (Some [7, 7]) 2 =
     (0, Some [7, 7])"
  using file_read_exact [of ex_device ex_blocks ex_inode ex_disk_inode 2 "[7, 7]" 0]
    ex_device_ok ex_file_ok
  by (simp add: ex_device_count file_content_def ex_disk_inode_def zero_disk_inode_def)




definition ex_broken_device :: "u8 list option block_device" where
  "ex_broken_device = ex_device\<lparr>bd_write := Some (\<lambda>device block data. (False, bd_private_data device))\<rparr>"

lemma ex_broken_write:
  "\<exists>i' d' a' v'. initrafs_file_write (Some ex_inode) (Some ex_disk_inode) (Some ex_blocks)
     (Some ex_broken_device) 0 (Some [1]) 1 = (-1, i', d', Some a', v')"
proof -
  have w: "device_write ex_broken_device p data = (False, ex_broken_device)" for p data
    by (simp add: device_write_def ex_broken_device_def ex_device_def block_device_base.truncate_def)
  have l: "\<exists>v'. file_write_loop d ls 0 [1] 1 0 ex_broken_device = Inl v'" for d ls
    by (subst file_write_loop.simps) (simp add: Let_def w split: option.splits)
  have "\<exists>i' d' a' v'. file_write_blocks ex_inode ex_disk_inode ex_blocks ex_broken_device 0 [1] 1
      = (-1, i', d', a', v')"
    using l by (auto simp: file_write_blocks_def Let_def split: sum.splits prod.splits) (metis Inl_Inr_False)
  then show ?thesis
    using file_write_checks [OF ex_file_ok, of ex_broken_device 0 "[1]" 1]
    by (auto simp: ex_broken_device_def ex_device_def)
qed


subsection \<open>Superblock and inode integrity\<close>

text \<open>
  Formatting succeeds exactly on volumes with room for the superblock, the
  inode table and at least one data block, and the superblock it writes passes
  validation, also after the block allocator has recorded its free count in it.
\<close>

theorem superblock_init_correct:
  "case initrafs_superblock_init (Some sb0) n of
     None \<Rightarrow> n \<le> 24
   | Some sb \<Rightarrow> 24 < n \<and> sb_total_blocks sb = n \<and> initrafs_superblock_validate (Some sb) \<and>
       (case initrafs_block_allocator_init (Some a0) (Some sb) (Some bm) bytes of
          None \<Rightarrow> bytes < initrafs_bitmap_bytes n
        | Some a \<Rightarrow> initrafs_superblock_validate (ba_superblock a))"
proof (cases "n \<le> 24")
  case False
  then have "24 < unat n" by (simp add: word_le_nat_alt)
  then have "unat (n - 24) = unat n - 24" "unat (n - 25) = unat n - 25"
    by (simp_all add: unat_minus_le word_le_nat_alt)
  then have "n - 25 \<le> n - 24" by (simp add: word_le_nat_alt)
  with False superblock_init_validates [of sb0 n] show ?thesis
    by (auto simp: superblock_init_eq initrafs_block_allocator_init_def Let_def
          superblock_validate_iff not_le)
qed (simp add: superblock_init_eq)

theorem superblock_validate_geometry_witness:
  "unat (sb_inode_table_start ex_superblock) + unat (sb_inode_table_blocks ex_superblock) = 24 \<and>
   unat (sb_data_start ex_superblock) + unat (sb_free_block_count ex_superblock) \<le> 64"
proof -
  have "initrafs_superblock_validate (Some ex_superblock)"
    by (simp add: superblock_validate_iff ex_superblock_eq)
  from superblock_validate_geometry [OF this] show ?thesis by (simp add: ex_superblock_eq)
qed

text \<open>
  C14: Changing any single byte of an on-disk inode whose checksum verifies, be
  it metadata or one of the checksum bytes, is detected; and every inode the
  code has updated verifies.
\<close>

theorem inode_corruption_detected:
  assumes "wf_disk_inode d" and "wf_disk_inode d'"
    and "disk_inode_bytes d' = (disk_inode_bytes (initrafs_inode_integrity_update d))[i := b]"
    and "i < 92" and "b \<noteq> disk_inode_bytes (initrafs_inode_integrity_update d) ! i"
  shows "initrafs_inode_integrity_verify (Some (initrafs_inode_integrity_update d)) \<and>
         \<not> initrafs_inode_integrity_verify (Some d')"
  using single_byte_change_detected [OF _ assms(2) _ assms(3)] assms by simp

theorem inode_corruption_detected_witness:
  "\<not> initrafs_inode_integrity_verify (Some (ex_disk_inode\<lparr>di_inode_number := 3\<rparr>))"
proof -
  let ?d = "zero_disk_inode\<lparr>di_inode_number := 2, di_type := INITRAFS_TYPE_FILE, di_mode := 0x1A4,
          di_link_count := 1\<rparr>"
  have wf: "wf_disk_inode ?d" "wf_disk_inode (ex_disk_inode\<lparr>di_inode_number := 3\<rparr>)"
    using file_okD(1) [OF ex_file_ok] by (simp_all add: wf_disk_inode_def zero_disk_inode_def)
  have n: "di_inode_number ex_disk_inode = 2" by (simp add: ex_disk_inode_def)
  have "disk_inode_bytes (ex_disk_inode\<lparr>di_inode_number := 3\<rparr>) = (disk_inode_bytes ex_disk_inode)[0 := 3]"
    using n by (simp add: disk_inode_bytes_def disk_inode_words_def u32_bytes_def drop_bit_eq_div)
  moreover have "3 \<noteq> disk_inode_bytes ex_disk_inode ! 0"
    using n by (simp add: disk_inode_bytes_def disk_inode_words_def u32_bytes_def)
  ultimately show ?thesis
    using inode_corruption_detected [OF wf, of 0 3] unfolding ex_disk_inode_def [symmetric] by simp
qed

theorem check_permission_exact_witness:
  "initrafs_inode_check_permission (Some ex_inode) 0 0 2 \<and>
   \<not> initrafs_inode_check_permission (Some ex_inode) 5 5 2"
proof -
  have m: "fi_mode ex_inode = 0x1A4" "fi_owner ex_inode = 0" "fi_group ex_inode = 0"
    by (simp_all add: ex_inode_def initrafs_inode_init_def zero_fs_inode_def)
  have b: "bit (2 :: u32) k \<longleftrightarrow> k = 1" for k by (rule bit_u32_pow2)
  show ?thesis
    unfolding check_permission_exact b by (simp add: m permission_class_def bit_iff_odd)
qed

subsection \<open>Allocators\<close>

text \<open>
  C15: Block allocation is first fit: with a free block left it returns the
  least one, takes exactly that block out of the free set and lowers the free
  count by one; with none left it returns 0 and changes nothing. The invariant,
  including that the superblock's free count equals the number of free blocks,
  is preserved.
\<close>

theorem block_alloc_first_fit:
  assumes "block_allocator_ok a"
  shows "\<exists>b a'. initrafs_block_alloc (Some a) = (b, Some a') \<and> block_allocator_ok a' \<and>
     (if block_free_set a = {} then b = 0 \<and> a' = a
      else b = Min (block_free_set a) \<and> b \<noteq> 0 \<and> block_free_set a' = block_free_set a - {b} \<and>
           unat (ba_free_blocks a) = Suc (unat (ba_free_blocks a')))"
proof -
  obtain b a' where t: "block_take a = (b, a')" by fastforce
  from block_alloc.take_cases [OF assms t] block_alloc.take_count [OF assms t]
    block_alloc.invar_take [OF assms t] show ?thesis
    by (auto simp: block_alloc_take t)
qed

theorem block_alloc_first_fit_witness:
  "\<exists>a'. initrafs_block_alloc (Some ex_blocks) = (25, Some a') \<and> block_allocator_ok a' \<and>
        25 \<notin> block_free_set a'"
proof -
  have "Min {b :: u32. 24 < b \<and> b < 64} = 25"
    by (rule Min_eqI) (auto simp: word_less_nat_alt word_le_nat_alt)
  moreover have "block_free_set ex_blocks \<noteq> {}" using ex_blocks_free by auto
  ultimately show ?thesis
    using block_alloc_first_fit [of ex_blocks] ex_blocks_ok by (auto split: if_splits)
qed

text \<open>
  C36: Releasing a block succeeds exactly for data blocks in use other than the
  root directory's; it then makes exactly that block free again. Everything
  else, a second release of the same block included, is refused without any
  change.
\<close>

theorem block_free_exact:
  assumes "block_allocator_ok a"
  shows "\<exists>r a'. initrafs_block_free (Some a) b = (r, Some a') \<and> block_allocator_ok a' \<and>
     (r \<longleftrightarrow> ba_first_data_block a < b \<and> b < ba_total_blocks a \<and> b \<notin> block_free_set a) \<and>
     block_free_set a' = (if r then insert b (block_free_set a) else block_free_set a) \<and>
     (\<not> r \<longrightarrow> a' = a) \<and>
     initrafs_block_free (Some a') b = (False, Some a')"
proof -
  obtain r a' where g: "block_give a b = (r, a')" by fastforce
  note inv = block_alloc.invar_give [OF assms g] and dbl = block_alloc.double_give_fails [OF assms g]
  show ?thesis
  proof (cases "b \<in> block_units a - block_free_set a")
    case True
    with block_alloc.give_ok [OF assms True g] inv dbl g show ?thesis
      by (auto simp: block_free_give block_units_def)
  next
    case False
    with block_alloc.give_bad [OF assms False] inv dbl g show ?thesis
      by (auto simp: block_free_give block_units_def)
  qed
qed

theorem block_free_exact_witness:
  "fst (initrafs_block_free (Some ex_blocks) 24) = False \<and>
   fst (initrafs_block_free (Some ex_blocks) 30) = False"
  using block_free_exact [of ex_blocks 24] block_free_exact [of ex_blocks 30] ex_blocks_ok
  by (auto simp: block_units_def)

text \<open>
  Initialising the block allocator of a volume that needs at most
  \<open>2 ^ 32 - 8\<close> blocks yields the invariant with every data block but the root
  directory's free.
\<close>

theorem block_allocator_init_all_free:
  assumes "initrafs_block_allocator_init (Some a0) (Some sb) (Some bm) bytes = Some a"
    and "unat bytes \<le> length bm" and "unat (sb_total_blocks sb) \<le> 2 ^ 32 - 8"
  shows "block_allocator_ok a \<and>
         block_free_set a = {b. sb_data_start sb < b \<and> b < sb_total_blocks sb} \<and>
         unat (ba_free_blocks a) = unat (sb_total_blocks sb) - unat (sb_data_start sb) - 1"
  using block_allocator_init_ok [OF assms] block_allocator_okD(5) [of a]
  by (auto simp: block_units_def card_u32_between)

theorem block_allocator_init_all_free_witness:
  "block_allocator_ok ex_blocks \<and> unat (ba_free_blocks ex_blocks) = 39"
  using block_allocator_init_all_free [OF ex_blocks_init] by (simp add: ex_superblock_eq)

text \<open>
  Inode numbers are allocated first fit and released exactly: an allocation
  returns the least free number, never 0 or the root inode, or fails with 0
  when none is left; releasing the number just allocated restores the free set;
  a second release of any number is refused.
\<close>

theorem inode_alloc_free_exact:
  assumes "inode_allocator_ok a"
  shows "\<exists>n a'. initrafs_inode_alloc (Some a) = (n, Some a') \<and> inode_allocator_ok a' \<and>
     (if inode_free_set a = {} then n = 0 \<and> a' = a
      else n = Min (inode_free_set a) \<and> 1 < n \<and> inode_free_set a' = inode_free_set a - {n} \<and>
           (\<exists>a''. initrafs_inode_free (Some a') n = (True, Some a'') \<and> inode_allocator_ok a'' \<and>
                  inode_free_set a'' = inode_free_set a \<and>
                  initrafs_inode_free (Some a'') n = (False, Some a'')))"
proof -
  obtain n a' where t: "inode_take a = (n, a')" by fastforce
  obtain r a'' where g: "inode_give a' n = (r, a'')" by fastforce
  note ok' = inode_alloc.invar_take [OF assms t]
  have "n \<in> inode_units a" if "n \<noteq> 0"
    using inode_alloc.take_cases [OF assms t] inode_alloc.free_subset [OF assms] that by blast
  then have "1 < n" if "n \<noteq> 0"
    using that assms by (auto simp: inode_units_def inode_allocator_ok_def word_less_nat_alt word_le_nat_alt)
  then show ?thesis
    using inode_alloc.take_cases [OF assms t] inode_alloc.give_take [OF assms t _ g]
      inode_alloc.invar_give [OF ok' g] inode_alloc.double_give_fails [OF ok' g] ok' g
    by (auto simp: inode_alloc_take inode_free_give t)
qed

theorem inode_alloc_free_exact_witness:
  "\<exists>n a'. initrafs_inode_alloc (Some ex_inodes) = (n, Some a') \<and> inode_allocator_ok a'"
  using inode_alloc_free_exact [of ex_inodes] ex_inodes_ok by blast

subsection \<open>Directories\<close>

text \<open>
  C37: A directory is a finite map from names to inode numbers: adding an entry
  succeeds exactly for a usable inode number and type, a name that is neither
  reserved nor taken, and a free slot; it then binds exactly that name. Removing
  undoes it exactly. A name is bound at most once.
\<close>

theorem directory_add_remove_lookup:
  assumes "dir_ok es" and "valid_name s" and "valid_name s'"
  shows "(dir_add es n t s \<noteq> None \<longleftrightarrow>
            n \<noteq> 0 \<and> initrafs_directory_type_valid t \<and> s \<notin> {''.'', ''..''} \<and>
            dir_lookup es s = None \<and> dir_has_room es) \<and>
         (\<forall>es'. dir_add es n t s = Some es' \<longrightarrow>
            dir_ok es' \<and> dir_lookup es' s' = (if s' = s then Some n else dir_lookup es s') \<and>
            dir_add es' m u s = None \<and>
            (\<exists>es''. dir_remove es' s = Some es'' \<and> dir_ok es'' \<and> dir_lookup es'' s' = dir_lookup es s'))"
proof (intro conjI allI impI)
  show "dir_add es n t s \<noteq> None \<longleftrightarrow>
            n \<noteq> 0 \<and> initrafs_directory_type_valid t \<and> s \<notin> {''.'', ''..''} \<and>
            dir_lookup es s = None \<and> dir_has_room es"
    using dir.add_defined [OF assms(1,2)] dir.lookup_contents [OF assms(1,2)] by simp
  fix es' assume add: "dir_add es n t s = Some es'"
  show ok: "dir_ok es'" by (rule dir.invar_add [OF assms(1,2) add])
  show "dir_lookup es' s' = (if s' = s then Some n else dir_lookup es s')"
    by (rule dir.lookup_add [OF assms add])
  show "dir_add es' m u s = None" by (rule dir.add_twice_fails [OF assms(1,2) add])
  show "\<exists>es''. dir_remove es' s = Some es'' \<and> dir_ok es'' \<and> dir_lookup es'' s' = dir_lookup es s'"
    using dir.remove_added [OF assms(1,2) add] dir.lookup_contents assms by metis
qed

theorem directory_add_remove_lookup_witness:
  "\<exists>es'. dir_add (fresh_directory 1 1 6) 5 1 ''notes'' = Some es' \<and> dir_lookup es' ''notes'' = Some 5"
proof -
  have v: "valid_name ''notes''" by (simp add: valid_name_def)
  have ok: "dir_ok (fresh_directory 1 1 6)" by (rule fresh_directory_facts) simp_all
  have lk: "dir_lookup (fresh_directory 1 1 6) ''notes'' = None"
    using dir.lookup_contents [OF ok v] fresh_directory_facts(2) [of 1 1 6] by simp
  have "zero_dirent \<in> set (fresh_directory 1 1 6)" by (simp add: fresh_directory_def)
  then have "dir_has_room (fresh_directory 1 1 6)" unfolding dir_has_room_def using entry_used_zero by blast
  then show ?thesis
    using directory_add_remove_lookup [OF ok v v, of 5 1 0 0] lk
    by (fastforce simp: initrafs_directory_type_valid_def)
qed

text \<open>
  Removing an entry succeeds exactly for a bound name other than the two
  dot entries, unbinds exactly that name and leaves room for a new entry; no
  sequence of additions and removals touches the dot entries.
\<close>

theorem directory_remove_exact:
  assumes "dir_ok es" and "valid_name s" and "valid_name s'"
  shows "(dir_remove es s \<noteq> None \<longleftrightarrow> s \<notin> {''.'', ''..''} \<and> dir_lookup es s \<noteq> None) \<and>
         (\<forall>es'. dir_remove es s = Some es' \<longrightarrow>
            dir_ok es' \<and> dir_has_room es' \<and>
            dir_lookup es' s' = (if s' = s then None else dir_lookup es s') \<and>
            dir_lookup es' ''..'' = dir_lookup es ''..'')"
proof (intro conjI allI impI)
  show "dir_remove es s \<noteq> None \<longleftrightarrow> s \<notin> {''.'', ''..''} \<and> dir_lookup es s \<noteq> None"
    using dir.remove_defined [OF assms(1,2)] dir.lookup_contents [OF assms(1,2)] by simp
  fix es' assume rm: "dir_remove es s = Some es'"
  show ok: "dir_ok es'" "dir_has_room es'" using dir.invar_remove [OF assms(1,2) rm] by simp_all
  show "dir_lookup es' s' = (if s' = s then None else dir_lookup es s')"
    by (rule dir.lookup_remove [OF assms rm])
  show "dir_lookup es' ''..'' = dir_lookup es ''..''"
    using dir.dots_survive(2) [OF assms(1,2) _ rm, of "''..''"] dir.lookup_contents ok(1) assms(1) by simp
qed

theorem directory_remove_exact_witness:
  "dir_remove (fresh_directory 1 1 6) ''..'' = None"
proof -
  have ok: "dir_ok (fresh_directory 1 1 6)" by (rule fresh_directory_facts) simp_all
  show ?thesis using directory_remove_exact [OF ok valid_dots(2) valid_dots(2)] by simp
qed

text \<open>
  Creating a directory with an inode number left yields a directory in good
  order that holds exactly the two dot entries, bound to itself and to its
  parent, is reported empty, and whose on-disk inode verifies.
\<close>

theorem directory_create_fresh:
  assumes "inode_allocator_ok a" and "inode_free_set a \<noteq> {}" and "2 \<le> unat cap"
    and "unat cap = length es" and "parent \<noteq> 0"
  shows "\<exists>n a' i d es'. n = Min (inode_free_set a) \<and>
     initrafs_directory_create (Some a) (Some i0) (Some d0) (Some es) cap mode parent =
       (True, Some a', Some i, Some d, Some es') \<and>
     inode_allocator_ok a' \<and> inode_free_set a' = inode_free_set a - {n} \<and>
     fi_inode_number i = n \<and> di_inode_number d = n \<and> initrafs_inode_integrity_verify (Some d) \<and>
     dir_ok es' \<and> dir_map es' = [''.'' \<mapsto> n, ''..'' \<mapsto> parent] \<and>
     initrafs_directory_is_empty (Some es') cap"
proof -
  let ?n = "Min (inode_free_set a)"
  have "\<not> cap < 2" using assms(3) by (simp add: word_less_nat_alt)
  then obtain a' i d where c: "initrafs_directory_create (Some a) (Some i0) (Some d0) (Some es) cap mode parent =
      (True, Some a', Some i, Some d, Some (fresh_directory ?n parent (length es - 2)))"
    and t: "inode_take a = (?n, a')" and f: "fi_inode_number i = ?n" "di_inode_number d = ?n"
      "initrafs_inode_integrity_verify (Some d)"
    using directory_create_success [OF assms(1,2) _ assms(4,5)] by blast
  have n0: "?n \<noteq> 0" using inode_alloc.take_cases [OF assms(1) t] assms(2) by blast
  have "unat cap < 2 ^ 32" using unsigned_less [of cap] by simp
  with assms(3,4) have l: "length es - 2 + 2 < 2 ^ 32" by simp
  note fresh = fresh_directory_facts [OF n0 assms(5) l]
  have len: "length (fresh_directory ?n parent (length es - 2)) = length es"
    using assms(3,4) by (simp add: fresh_directory_def)
  have cp: "(of_nat (length es) :: u32) = cap" by (simp flip: assms(4))
  have "initrafs_directory_is_empty (Some (fresh_directory ?n parent (length es - 2))) cap"
    using directory_is_empty_map [OF fresh(1)] assms(3,4) len by (simp add: fresh(2) cp)
  moreover have "inode_free_set a' = inode_free_set a - {?n}"
    using inode_alloc.take_cases [OF assms(1) t] n0 by blast
  moreover note c f fresh inode_alloc.invar_take [OF assms(1) t]
  ultimately show ?thesis
    by (intro exI [of _ ?n] exI [of _ a'] exI [of _ i] exI [of _ d]
          exI [of _ "fresh_directory ?n parent (length es - 2)"]) simp
qed

theorem directory_create_fresh_witness:
  "\<exists>n a' i d es'. initrafs_directory_create (Some ex_inodes) (Some zero_fs_inode) (Some zero_disk_inode)
       (Some (replicate 8 zero_dirent)) 8 0x1ED 1 = (True, Some a', Some i, Some d, Some es') \<and>
     dir_map es' = [''.'' \<mapsto> n, ''..'' \<mapsto> 1]"
proof -
  have "(5 :: u32) \<in> inode_units ex_inodes"
    using inode_allocator_init_ok [OF ex_inodes_init] by (simp add: inode_units_def ex_superblock_eq)
  then have "inode_free_set ex_inodes \<noteq> {}" using ex_inodes_ok by auto
  with ex_inodes_ok have h: "inode_allocator_ok ex_inodes" "inode_free_set ex_inodes \<noteq> {}"
    "2 \<le> unat (8 :: u32)" "unat (8 :: u32) = length (replicate 8 zero_dirent)" "(1 :: u32) \<noteq> 0"
    by simp_all
  show ?thesis using directory_create_fresh [OF h] by blast
qed

end
