(* ===== verification/Namespace.thy ===== *)
theory Namespace
  imports Directory
begin

section \<open>The in-memory namespace\<close>

text \<open>
  \<open>initrafs_namespace_find\<close>, \<open>_init\<close>, \<open>_register\<close> and \<open>_unregister\<close> of
  \<open>fs/initrafs.c\<close>: the table of the inodes the file system has in memory.

  The table's nodes hold pointers to inodes, on-disk inodes and entry arrays,
  and several parts of the code reach the same object through such a pointer.
  The objects therefore live in a store: for each type a function from
  addresses to objects, where address 0 is NULL and is never dereferenced by
  the code. Objects of different types do not overlap.
\<close>

type_synonym ptr = u32

abbreviation (input) NULL :: ptr where "NULL \<equiv> 0"

record fs_store =
  st_inode :: "ptr \<Rightarrow> fs_inode"
  st_disk_inode :: "ptr \<Rightarrow> initrafs_disk_inode_t"
  st_entries :: "ptr \<Rightarrow> initrafs_disk_dirent_t list"

record initrafs_namespace_node_t =
  nn_inode :: ptr
  nn_disk_inode :: ptr
  nn_entries :: ptr
  nn_entry_count :: u32

record initrafs_namespace_t =
  ns_nodes :: "initrafs_namespace_node_t list option"
  ns_node_count :: u32
  ns_node_capacity :: u32
  ns_root_inode :: u32

definition zero_node :: initrafs_namespace_node_t where
  "zero_node = \<lparr>nn_inode = NULL, nn_disk_inode = NULL, nn_entries = NULL, nn_entry_count = 0\<rparr>"

definition sizeof_namespace_node :: u32 where [simp]: "sizeof_namespace_node = 16"

subsection \<open>The source's functions\<close>

text \<open>
  \<open>initrafs_namespace_find\<close> returns a pointer into the node array: the index of
  the node.
\<close>

fun namespace_find_loop :: "fs_store \<Rightarrow> u32 \<Rightarrow> initrafs_namespace_node_t list \<Rightarrow> nat \<Rightarrow> nat option" where
  "namespace_find_loop st inode_number [] index = None"
| "namespace_find_loop st inode_number (node # rest) index =
     (if nn_inode node = NULL \<or> nn_disk_inode node = NULL
      then namespace_find_loop st inode_number rest (Suc index)
      else if fi_inode_number (st_inode st (nn_inode node)) = inode_number then Some index
      else namespace_find_loop st inode_number rest (Suc index))"

definition initrafs_namespace_find :: "fs_store \<Rightarrow> initrafs_namespace_t option \<Rightarrow> u32 \<Rightarrow> nat option" where
  "initrafs_namespace_find st namespace inode_number =
     (case namespace of
        None \<Rightarrow> None
      | Some ns \<Rightarrow>
          (case ns_nodes ns of
             None \<Rightarrow> None
           | Some nodes \<Rightarrow>
               namespace_find_loop st inode_number (take (unat (ns_node_count ns)) nodes) 0))"

definition initrafs_namespace_init ::
  "initrafs_namespace_t option \<Rightarrow> initrafs_namespace_node_t list option \<Rightarrow> u32 \<Rightarrow> u32
     \<Rightarrow> initrafs_namespace_t option" where
  "initrafs_namespace_init namespace nodes node_capacity root_inode =
     (if namespace = None \<or> nodes = None \<or> node_capacity = 0 \<or> root_inode = INITRAFS_UNUSED_INODE
      then None
      else
        let cleared = unat (node_capacity * sizeof_namespace_node) div unat sizeof_namespace_node
        in Some \<lparr>ns_nodes = Some (replicate cleared zero_node @ drop cleared (the nodes)),
                 ns_node_count = 0,
                 ns_node_capacity = node_capacity,
                 ns_root_inode = root_inode\<rparr>)"

definition initrafs_namespace_register ::
  "fs_store \<Rightarrow> initrafs_namespace_t option \<Rightarrow> ptr \<Rightarrow> ptr \<Rightarrow> ptr \<Rightarrow> u32 \<Rightarrow> initrafs_namespace_t option" where
  "initrafs_namespace_register st namespace inode disk_inode entries entry_count =
     (case namespace of
        None \<Rightarrow> None
      | Some ns \<Rightarrow>
          (case ns_nodes ns of
             None \<Rightarrow> None
           | Some nodes \<Rightarrow>
               if inode = NULL \<or> disk_inode = NULL \<or>
                  fi_inode_number (st_inode st inode) = INITRAFS_UNUSED_INODE \<or>
                  fi_inode_number (st_inode st inode) \<noteq> di_inode_number (st_disk_inode st disk_inode) \<or>
                  fi_type (st_inode st inode) \<noteq> di_type (st_disk_inode st disk_inode) \<or>
                  ns_node_count ns \<ge> ns_node_capacity ns
               then None
               else if fi_type (st_inode st inode) = INODE_TYPE_DIRECTORY \<and>
                       (entries = NULL \<or> entry_count < INITRAFS_ROOT_DIR_ENTRIES)
               then None
               else if initrafs_namespace_find st namespace (fi_inode_number (st_inode st inode)) \<noteq> None
               then None
               else Some (ns\<lparr>ns_nodes := Some (nodes[unat (ns_node_count ns) :=
                               \<lparr>nn_inode = inode, nn_disk_inode = disk_inode, nn_entries = entries,
                                nn_entry_count = entry_count\<rparr>]),
                             ns_node_count := ns_node_count ns + 1\<rparr>)))"

text \<open>
  \<open>initrafs_namespace_unregister\<close>: the first node with the number is found, the
  nodes behind it move down by one, and the last one is cleared.
\<close>

fun namespace_unregister_loop ::
  "fs_store \<Rightarrow> u32 \<Rightarrow> initrafs_namespace_node_t list \<Rightarrow> nat \<Rightarrow> nat option" where
  "namespace_unregister_loop st inode_number [] index = None"
| "namespace_unregister_loop st inode_number (node # rest) index =
     (if nn_inode node = NULL \<or> fi_inode_number (st_inode st (nn_inode node)) \<noteq> inode_number
      then namespace_unregister_loop st inode_number rest (Suc index)
      else Some index)"

definition shift_nodes :: "'a list \<Rightarrow> nat \<Rightarrow> nat \<Rightarrow> 'a list" where
  "shift_nodes nodes index count =
     take index nodes @ take (count - Suc index) (drop (Suc index) nodes) @ drop (count - 1) nodes"

definition initrafs_namespace_unregister ::
  "fs_store \<Rightarrow> initrafs_namespace_t option \<Rightarrow> u32 \<Rightarrow> initrafs_namespace_t option" where
  "initrafs_namespace_unregister st namespace inode_number =
     (case namespace of
        None \<Rightarrow> None
      | Some ns \<Rightarrow>
          (case ns_nodes ns of
             None \<Rightarrow> None
           | Some nodes \<Rightarrow>
               if inode_number = INITRAFS_UNUSED_INODE \<or> inode_number = ns_root_inode ns then None
               else
                 let count = unat (ns_node_count ns)
                 in case namespace_unregister_loop st inode_number (take count nodes) 0 of
                      None \<Rightarrow> None
                    | Some index \<Rightarrow>
                        Some (ns\<lparr>ns_nodes := Some ((shift_nodes nodes index count)[count - 1 := zero_node]),
                                 ns_node_count := ns_node_count ns - 1\<rparr>)))"

subsection \<open>The registered nodes\<close>

definition live_nodes :: "initrafs_namespace_t \<Rightarrow> initrafs_namespace_node_t list" where
  "live_nodes ns = take (unat (ns_node_count ns)) (the (ns_nodes ns))"

definition node_number :: "fs_store \<Rightarrow> initrafs_namespace_node_t \<Rightarrow> u32" where
  "node_number st node = fi_inode_number (st_inode st (nn_inode node))"

definition ns_map :: "fs_store \<Rightarrow> initrafs_namespace_t \<Rightarrow> u32 \<Rightarrow> initrafs_namespace_node_t option" where
  "ns_map st ns = map_of (map (\<lambda>node. (node_number st node, node)) (live_nodes ns))"

definition node_ok :: "fs_store \<Rightarrow> initrafs_namespace_node_t \<Rightarrow> bool" where
  "node_ok st node \<longleftrightarrow>
     nn_inode node \<noteq> NULL \<and> nn_disk_inode node \<noteq> NULL \<and> node_number st node \<noteq> 0 \<and>
     node_number st node = di_inode_number (st_disk_inode st (nn_disk_inode node)) \<and>
     fi_type (st_inode st (nn_inode node)) = di_type (st_disk_inode st (nn_disk_inode node)) \<and>
     (fi_type (st_inode st (nn_inode node)) = INODE_TYPE_DIRECTORY \<longrightarrow>
        nn_entries node \<noteq> NULL \<and> \<not> nn_entry_count node < INITRAFS_ROOT_DIR_ENTRIES)"

definition ns_ok :: "fs_store \<Rightarrow> initrafs_namespace_t \<Rightarrow> bool" where
  "ns_ok st ns \<longleftrightarrow>
     (\<exists>nodes. ns_nodes ns = Some nodes \<and> length nodes = unat (ns_node_capacity ns)) \<and>
     ns_node_count ns \<le> ns_node_capacity ns \<and>
     (\<forall>node \<in> set (live_nodes ns). node_ok st node) \<and>
     distinct (map (node_number st) (live_nodes ns))"

definition ns_full :: "initrafs_namespace_t \<Rightarrow> bool" where
  "ns_full ns \<longleftrightarrow> ns_node_count ns = ns_node_capacity ns"

lemma length_live: "ns_ok st ns \<Longrightarrow> length (live_nodes ns) = unat (ns_node_count ns)"
  by (auto simp: ns_ok_def live_nodes_def word_le_nat_alt)

lemma find_loop_spec:
  assumes "\<forall>node \<in> set nodes. nn_inode node \<noteq> NULL \<and> nn_disk_inode node \<noteq> NULL"
  shows "case namespace_find_loop st n nodes k of
           None \<Rightarrow> map_of (map (\<lambda>node. (node_number st node, node)) nodes) n = None
         | Some i \<Rightarrow> k \<le> i \<and> i - k < length nodes \<and>
             map_of (map (\<lambda>node. (node_number st node, node)) nodes) n = Some (nodes ! (i - k))"
  using assms
proof (induction nodes arbitrary: k)
  case (Cons a nodes)
  then have "case namespace_find_loop st n nodes (Suc k) of
           None \<Rightarrow> map_of (map (\<lambda>node. (node_number st node, node)) nodes) n = None
         | Some i \<Rightarrow> Suc k \<le> i \<and> i - Suc k < length nodes \<and>
             map_of (map (\<lambda>node. (node_number st node, node)) nodes) n = Some (nodes ! (i - Suc k))"
    by simp
  with Cons.prems show ?case
    by (auto simp: node_number_def nth_Cons' split: option.splits)
qed simp

lemma find_spec:
  assumes "ns_ok st ns"
  shows "case initrafs_namespace_find st (Some ns) n of
           None \<Rightarrow> ns_map st ns n = None
         | Some i \<Rightarrow> i < unat (ns_node_count ns) \<and> ns_map st ns n = Some (the (ns_nodes ns) ! i)"
proof -
  from assms obtain nodes where nodes: "ns_nodes ns = Some nodes" by (auto simp: ns_ok_def)
  have "\<forall>node \<in> set (live_nodes ns). nn_inode node \<noteq> NULL \<and> nn_disk_inode node \<noteq> NULL"
    using assms by (simp add: ns_ok_def node_ok_def)
  from find_loop_spec [OF this, of st n 0] length_live [OF assms] show ?thesis
    by (auto simp: initrafs_namespace_find_def ns_map_def live_nodes_def nodes split: option.splits)
qed

lemma find_node:
  assumes "ns_ok st ns"
  shows "map_option ((!) (the (ns_nodes ns))) (initrafs_namespace_find st (Some ns) n) = ns_map st ns n"
  using find_spec [OF assms, of n] by (auto split: option.splits)

lemma find_None: "ns_ok st ns \<Longrightarrow> initrafs_namespace_find st (Some ns) n = None \<longleftrightarrow> ns_map st ns n = None"
  using find_spec [of st ns n] by (auto split: option.splits)

lemma ns_map_Some:
  assumes "ns_ok st ns" and "ns_map st ns n = Some node"
  shows "node \<in> set (live_nodes ns)" and "node_number st node = n" and "node_ok st node"
  using assms by (auto simp: ns_map_def ns_ok_def dest!: map_of_SomeD)

lemma live_same_inode:
  assumes "ns_ok st ns" and "x \<in> set (live_nodes ns)" and "y \<in> set (live_nodes ns)"
  shows "nn_inode x = nn_inode y \<Longrightarrow> x = y" and "nn_disk_inode x = nn_disk_inode y \<Longrightarrow> x = y"
proof -
  have inj: "inj_on (node_number st) (set (live_nodes ns))" using assms(1) by (simp add: ns_ok_def distinct_map)
  have d: "node_number st x = di_inode_number (st_disk_inode st (nn_disk_inode x))"
    "node_number st y = di_inode_number (st_disk_inode st (nn_disk_inode y))"
    using assms by (auto simp: ns_ok_def node_ok_def)
  have eq: "node_number st x = node_number st y \<Longrightarrow> x = y" by (rule inj_onD [OF inj _ assms(2,3)])
  show "nn_inode x = nn_inode y \<Longrightarrow> x = y" by (rule eq) (simp add: node_number_def)
  show "nn_disk_inode x = nn_disk_inode y \<Longrightarrow> x = y" by (rule eq) (simp add: d)
qed

lemma ns_map_live:
  assumes "ns_ok st ns" and "x \<in> set (live_nodes ns)"
  shows "ns_map st ns (node_number st x) = Some x"
  using assms by (auto simp: ns_map_def ns_ok_def distinct_map comp_def intro!: map_of_is_SomeI)

subsection \<open>Registration\<close>

lemma register_spec:
  fixes i d e :: ptr and c :: u32
  assumes ok: "ns_ok st ns"
  defines "node \<equiv> \<lparr>nn_inode = i, nn_disk_inode = d, nn_entries = e, nn_entry_count = c\<rparr>"
  shows "initrafs_namespace_register st (Some ns) i d e c =
           (if node_ok st node \<and> \<not> ns_full ns \<and> ns_map st ns (node_number st node) = None
            then Some (ns\<lparr>ns_nodes := Some ((the (ns_nodes ns))[unat (ns_node_count ns) := node]),
                          ns_node_count := ns_node_count ns + 1\<rparr>)
            else None)"
proof -
  from ok obtain nodes where nodes: "ns_nodes ns = Some nodes" and le: "ns_node_count ns \<le> ns_node_capacity ns"
    by (auto simp: ns_ok_def)
  have "ns_node_capacity ns \<le> ns_node_count ns \<longleftrightarrow> ns_full ns" using le by (auto simp: ns_full_def)
  then show ?thesis
    using find_None [OF ok, of "node_number st node"]
    by (auto simp: initrafs_namespace_register_def nodes node_ok_def node_number_def node_def)
qed

lemma register_effect:
  fixes i d e :: ptr and c :: u32
  assumes ok: "ns_ok st ns" and r: "initrafs_namespace_register st (Some ns) i d e c = Some ns'"
  defines "node \<equiv> \<lparr>nn_inode = i, nn_disk_inode = d, nn_entries = e, nn_entry_count = c\<rparr>"
  shows "ns_ok st ns'" and "live_nodes ns' = live_nodes ns @ [node]"
    and "ns_map st ns' = (ns_map st ns)(node_number st node \<mapsto> node)"
    and "ns_root_inode ns' = ns_root_inode ns"
proof -
  from ok obtain nodes where nodes: "ns_nodes ns = Some nodes" "length nodes = unat (ns_node_capacity ns)"
    and le: "ns_node_count ns \<le> ns_node_capacity ns" by (auto simp: ns_ok_def)
  from r have n: "node_ok st node" "\<not> ns_full ns" "ns_map st ns (node_number st node) = None"
    and ns': "ns' = ns\<lparr>ns_nodes := Some (nodes[unat (ns_node_count ns) := node]),
                       ns_node_count := ns_node_count ns + 1\<rparr>"
    by (auto simp: register_spec [OF ok] node_def nodes split: if_splits)
  have lt: "ns_node_count ns < ns_node_capacity ns" using le n(2) by (simp add: ns_full_def)
  then have u: "unat (ns_node_count ns + 1) = Suc (unat (ns_node_count ns))" by (rule unat_plus_1)
  have k: "unat (ns_node_count ns) < length nodes" using lt nodes(2) by (simp add: word_less_nat_alt)
  show live: "live_nodes ns' = live_nodes ns @ [node]"
    using k by (simp add: live_nodes_def ns' nodes u take_Suc_conv_app_nth)
  have new: "node_number st node \<notin> set (map (node_number st) (live_nodes ns))"
    using n(3) by (force simp: ns_map_def map_of_eq_None_iff)
  show "ns_map st ns' = (ns_map st ns)(node_number st node \<mapsto> node)"
    using n(3) unfolding ns_map_def live
    by (auto simp: fun_eq_iff map_add_def split: option.splits)
  have "ns_node_count ns' \<le> ns_node_capacity ns'" using k nodes(2) by (simp add: ns' word_le_nat_alt u)
  then show "ns_ok st ns'"
    using ok n(1) new nodes(2) by (simp add: ns_ok_def live) (simp add: ns')
  show "ns_root_inode ns' = ns_root_inode ns" by (simp add: ns')
qed

subsection \<open>Removal\<close>

definition remove_nth :: "nat \<Rightarrow> 'a list \<Rightarrow> 'a list" where
  "remove_nth i xs = take i xs @ drop (Suc i) xs"

lemma unregister_loop_spec:
  assumes "\<forall>node \<in> set nodes. nn_inode node \<noteq> NULL" and "distinct (map (node_number st) nodes)"
  shows "case namespace_unregister_loop st n nodes k of
           None \<Rightarrow> n \<notin> set (map (node_number st) nodes)
         | Some i \<Rightarrow> k \<le> i \<and> i - k < length nodes \<and> node_number st (nodes ! (i - k)) = n \<and>
             remove_nth (i - k) nodes = filter (\<lambda>node. node_number st node \<noteq> n) nodes"
  using assms
proof (induction nodes arbitrary: k)
  case (Cons a nodes)
  have f: "filter (\<lambda>node. node_number st node \<noteq> n) nodes = nodes"
    if "node_number st a = n" using Cons.prems(2) that by (intro filter_True) (force simp: image_iff)
  from Cons.IH [of "Suc k"] Cons.prems f show ?case
    by (auto simp: node_number_def remove_nth_def nth_Cons' take_Cons' Suc_diff_Suc Suc_le_eq split: option.splits)
qed simp

lemma take_shift_nodes:
  assumes "i < count" and "count \<le> length nodes"
  shows "take (count - 1) ((shift_nodes nodes i count)[count - 1 := z]) = remove_nth i (take count nodes)"
    and "length ((shift_nodes nodes i count)[count - 1 := z]) = length nodes"
proof -
  from assms(1) obtain c where c: "count = Suc c" by (cases count) auto
  with assms(1) have "c \<le> i \<longleftrightarrow> c = i" by auto
  then show "take (count - 1) ((shift_nodes nodes i count)[count - 1 := z]) = remove_nth i (take count nodes)"
    and "length ((shift_nodes nodes i count)[count - 1 := z]) = length nodes"
    using assms by (auto simp: c shift_nodes_def remove_nth_def drop_take min_def)
qed

lemma unregister_loop_live:
  assumes ok: "ns_ok st ns" and nodes: "ns_nodes ns = Some nodes"
  shows "case namespace_unregister_loop st n (take (unat (ns_node_count ns)) nodes) 0 of
           None \<Rightarrow> ns_map st ns n = None
         | Some i \<Rightarrow> i < unat (ns_node_count ns) \<and> ns_map st ns n \<noteq> None \<and>
             remove_nth i (live_nodes ns) = filter (\<lambda>node. node_number st node \<noteq> n) (live_nodes ns)"
proof -
  have l: "take (unat (ns_node_count ns)) nodes = live_nodes ns" by (simp add: live_nodes_def nodes)
  have m: "ns_map st ns n = None \<longleftrightarrow> n \<notin> set (map (node_number st) (live_nodes ns))"
    by (force simp: ns_map_def map_of_eq_None_iff)
  have "\<forall>node \<in> set (live_nodes ns). nn_inode node \<noteq> NULL" "distinct (map (node_number st) (live_nodes ns))"
    using ok by (simp_all add: ns_ok_def node_ok_def)
  from unregister_loop_spec [OF this, of n 0] length_live [OF ok] show ?thesis
    unfolding l m by (auto split: option.splits)
qed

lemma unregister_defined:
  assumes ok: "ns_ok st ns"
  shows "initrafs_namespace_unregister st (Some ns) n \<noteq> None \<longleftrightarrow>
           n \<noteq> 0 \<and> n \<noteq> ns_root_inode ns \<and> ns_map st ns n \<noteq> None"
proof -
  from ok obtain nodes where nodes: "ns_nodes ns = Some nodes" by (auto simp: ns_ok_def)
  from unregister_loop_live [OF ok nodes, of n] show ?thesis
    by (auto simp: initrafs_namespace_unregister_def nodes Let_def split: option.splits)
qed

lemma unregister_effect:
  assumes ok: "ns_ok st ns" and r: "initrafs_namespace_unregister st (Some ns) n = Some ns'"
  shows "ns_ok st ns'" and "live_nodes ns' = filter (\<lambda>node. node_number st node \<noteq> n) (live_nodes ns)"
    and "ns_map st ns' = (ns_map st ns)(n := None)" and "ns_root_inode ns' = ns_root_inode ns"
    and "\<not> ns_full ns'"
proof -
  from ok obtain nodes where nodes: "ns_nodes ns = Some nodes" "length nodes = unat (ns_node_capacity ns)"
    and le: "ns_node_count ns \<le> ns_node_capacity ns" by (auto simp: ns_ok_def)
  let ?k = "unat (ns_node_count ns)"
  from r unregister_loop_live [OF ok nodes(1), of n] obtain i where i: "i < ?k"
    and f: "remove_nth i (live_nodes ns) = filter (\<lambda>node. node_number st node \<noteq> n) (live_nodes ns)"
    and ns': "ns' = ns\<lparr>ns_nodes := Some ((shift_nodes nodes i ?k)[?k - 1 := zero_node]),
                       ns_node_count := ns_node_count ns - 1\<rparr>"
    by (auto simp: initrafs_namespace_unregister_def nodes Let_def split: option.splits if_splits)
  have kl: "?k \<le> length nodes" using le nodes(2) by (simp add: word_le_nat_alt)
  have u: "unat (ns_node_count ns - 1) = ?k - 1" using i by (intro unat_minus_1) auto
  show live: "live_nodes ns' = filter (\<lambda>node. node_number st node \<noteq> n) (live_nodes ns)"
    using take_shift_nodes(1) [OF i kl, of zero_node] f by (simp add: live_nodes_def ns' nodes u)
  show "ns_map st ns' = (ns_map st ns)(n := None)"
    unfolding ns_map_def live by (rule map_of_filter_key)
  show "ns_ok st ns'"
    using ok take_shift_nodes(2) [OF i kl, of zero_node] nodes(2) le i kl
    by (simp add: ns_ok_def live distinct_map_filter) (simp add: ns' word_le_nat_alt u)
  show "ns_root_inode ns' = ns_root_inode ns" by (simp add: ns')
  show "\<not> ns_full ns'"
    using i kl nodes(2) by (auto simp: ns_full_def ns' unat_eq_iff [symmetric] u)
qed

subsection \<open>The table as a map\<close>

text \<open>
  What the users of the table rely on, over the state \<open>'s\<close> it is kept in: a
  table of at most as many nodes as it has room for, with one node per number.
\<close>

locale node_registry =
  fixes find_node :: "'s \<Rightarrow> u32 \<Rightarrow> 'n option"
    and register :: "'s \<Rightarrow> 'n \<Rightarrow> 's option"
    and unregister :: "'s \<Rightarrow> u32 \<Rightarrow> 's option"
    and number :: "'s \<Rightarrow> 'n \<Rightarrow> u32"
    and nodes :: "'s \<Rightarrow> u32 \<Rightarrow> 'n option"
    and fit :: "'s \<Rightarrow> 'n \<Rightarrow> bool"
    and full :: "'s \<Rightarrow> bool"
    and root :: "'s \<Rightarrow> u32"
    and invar :: "'s \<Rightarrow> bool"
  assumes find_nodes: "invar s \<Longrightarrow> find_node s n = nodes s n"
    and register_defined: "invar s \<Longrightarrow>
          register s x \<noteq> None \<longleftrightarrow> fit s x \<and> \<not> full s \<and> nodes s (number s x) = None"
    and register_nodes: "invar s \<Longrightarrow> register s x = Some s' \<Longrightarrow>
          invar s' \<and> nodes s' = (nodes s)(number s x \<mapsto> x) \<and> root s' = root s \<and> number s' = number s"
    and unregister_defined: "invar s \<Longrightarrow>
          unregister s n \<noteq> None \<longleftrightarrow> n \<noteq> 0 \<and> n \<noteq> root s \<and> nodes s n \<noteq> None"
    and unregister_nodes: "invar s \<Longrightarrow> unregister s n = Some s' \<Longrightarrow>
          invar s' \<and> nodes s' = (nodes s)(n := None) \<and> root s' = root s \<and> number s' = number s \<and>
          \<not> full s'"
    and fit_number: "invar s \<Longrightarrow> fit s x \<Longrightarrow> number s x \<noteq> 0"
begin

lemma find_after_register:
  assumes "invar s" and "register s x = Some s'"
  shows "find_node s' m = (if m = number s x then Some x else find_node s m)"
  using assms register_nodes [OF assms] by (simp add: find_nodes)

lemma register_twice_fails:
  assumes "invar s" and "register s x = Some s'" and "number s y = number s x"
  shows "register s' y = None"
  using assms register_nodes [OF assms(1,2)] register_defined [of s' y] by auto

lemma find_after_unregister:
  assumes "invar s" and "unregister s n = Some s'"
  shows "find_node s' m = (if m = n then None else find_node s m)"
  using assms unregister_nodes [OF assms] by (simp add: find_nodes)

lemma unregister_registered:
  assumes "invar s" and "register s x = Some s'" and "number s x \<noteq> root s"
  shows "\<exists>s''. unregister s' (number s x) = Some s'' \<and> invar s'' \<and> nodes s'' = nodes s"
proof -
  note R = register_nodes [OF assms(1,2)]
  have d: "fit s x" "nodes s (number s x) = None" using register_defined [of s x] assms(1,2) by auto
  then have "number s x \<noteq> 0" using fit_number [OF assms(1)] by blast
  then obtain s'' where u: "unregister s' (number s x) = Some s''"
    using unregister_defined [of s' "number s x"] R assms(3) by auto
  moreover have "nodes s'' = nodes s" "invar s''"
    using unregister_nodes [OF conjunct1 [OF R] u] R d by (auto simp: fun_eq_iff)
  ultimately show ?thesis by blast
qed

lemma root_stays:
  "invar s \<Longrightarrow> unregister s n = Some s' \<Longrightarrow> find_node s' (root s') = find_node s (root s)"
  using find_after_unregister [of s n s' "root s"] unregister_nodes [of s n s'] unregister_defined [of s n]
  by auto

end

definition reg_find :: "fs_store \<times> initrafs_namespace_t \<Rightarrow> u32 \<Rightarrow> initrafs_namespace_node_t option" where
  "reg_find s n = map_option ((!) (the (ns_nodes (snd s)))) (initrafs_namespace_find (fst s) (Some (snd s)) n)"

definition reg_register ::
  "fs_store \<times> initrafs_namespace_t \<Rightarrow> initrafs_namespace_node_t \<Rightarrow> (fs_store \<times> initrafs_namespace_t) option" where
  "reg_register s x = map_option (Pair (fst s))
     (initrafs_namespace_register (fst s) (Some (snd s)) (nn_inode x) (nn_disk_inode x) (nn_entries x)
        (nn_entry_count x))"

definition reg_unregister ::
  "fs_store \<times> initrafs_namespace_t \<Rightarrow> u32 \<Rightarrow> (fs_store \<times> initrafs_namespace_t) option" where
  "reg_unregister s n = map_option (Pair (fst s)) (initrafs_namespace_unregister (fst s) (Some (snd s)) n)"

lemma node_eta:
  "\<lparr>nn_inode = nn_inode x, nn_disk_inode = nn_disk_inode x, nn_entries = nn_entries x,
    nn_entry_count = nn_entry_count x\<rparr> = (x :: initrafs_namespace_node_t)"
  by simp

interpretation reg: node_registry reg_find reg_register reg_unregister
  "\<lambda>s. node_number (fst s)" "\<lambda>s. ns_map (fst s) (snd s)" "\<lambda>s. node_ok (fst s)"
  "\<lambda>s. ns_full (snd s)" "\<lambda>s. ns_root_inode (snd s)" "\<lambda>s. ns_ok (fst s) (snd s)"
proof (unfold_locales, goal_cases)
  case (1 s n)
  then show ?case by (simp add: reg_find_def find_node)
next
  case (2 s x)
  then show ?case by (simp add: reg_register_def register_spec node_eta)
next
  case (3 s x s')
  then obtain ns' where "s' = (fst s, ns')" and
    r: "initrafs_namespace_register (fst s) (Some (snd s)) (nn_inode x) (nn_disk_inode x) (nn_entries x)
          (nn_entry_count x) = Some ns'"
    by (auto simp: reg_register_def)
  then show ?case using register_effect [OF 3(1) r] by (simp add: node_eta)
next
  case (4 s n)
  then show ?case by (simp add: reg_unregister_def unregister_defined [simplified])
next
  case (5 s n s')
  then obtain ns' where "s' = (fst s, ns')" and
    r: "initrafs_namespace_unregister (fst s) (Some (snd s)) n = Some ns'"
    by (auto simp: reg_unregister_def)
  then show ?case using unregister_effect [OF 5(1) r] by simp
next
  case (6 s x)
  then show ?case by (auto simp: node_ok_def)
qed

lemma namespace_init_ok:
  assumes "initrafs_namespace_init (Some ns0) (Some nodes) cap root = Some ns"
    and "length nodes = unat cap"
  shows "ns_ok st ns \<and> live_nodes ns = [] \<and> ns_map st ns = Map.empty \<and>
         ns_root_inode ns = root \<and> ns_node_capacity ns = cap \<and> \<not> ns_full ns \<and> root \<noteq> 0"
proof -
  let ?k = "unat (cap * sizeof_namespace_node) div unat sizeof_namespace_node"
  have "?k \<le> unat cap"
    by (simp add: unat_word_ariths)
  then show ?thesis
    using assms by (auto simp: initrafs_namespace_init_def ns_ok_def live_nodes_def ns_map_def ns_full_def
          Let_def split: if_splits)
qed

end
