(* ===== verification/Vfs.thy ===== *)
theory Vfs
  imports Namespace
begin

section \<open>The virtual file system\<close>

text \<open>
  \<open>fs/vfs.c\<close>: the registry of file systems, mounting, the table of open files
  and the operations that forward to the mounted file system.

  A file system is a record of function pointers (\<open>None\<close> is NULL) over the
  state \<open>'w\<close> of everything below the VFS. The functions get the file system's
  \<open>private_data\<close>, which is all they use of the \<open>filesystem\<close> argument, and the
  caller's identity where they may ask for it with
  \<open>vfs_get_caller_identity\<close>. A pointer to an open-file object is its index in
  the table (\<open>None\<close> is NULL; an index outside the table stands for a pointer to
  anything else). Directory listings are written into an array of entries.
\<close>

definition VFS_MAX_FILESYSTEMS :: nat where [simp]: "VFS_MAX_FILESYSTEMS = 8"
definition VFS_MAX_OPEN_FILES :: nat where [simp]: "VFS_MAX_OPEN_FILES = 32"

type_synonym identity = "u32 \<times> u32"

record 'w filesystem_t =
  fs_name :: "string option"
  fs_mount :: "('w \<Rightarrow> ptr \<Rightarrow> ptr \<Rightarrow> bool \<times> 'w) option"
  fs_unmount :: "('w \<Rightarrow> ptr \<Rightarrow> bool \<times> 'w) option"
  fs_lookup :: "('w \<Rightarrow> ptr \<Rightarrow> string \<Rightarrow> ptr option) option"
  fs_create :: "('w \<Rightarrow> identity \<Rightarrow> ptr \<Rightarrow> string \<Rightarrow> u32 \<Rightarrow> ptr option \<times> 'w) option"
  fs_remove :: "('w \<Rightarrow> identity \<Rightarrow> ptr \<Rightarrow> string \<Rightarrow> int \<times> 'w) option"
  fs_read :: "('w \<Rightarrow> identity \<Rightarrow> ptr \<Rightarrow> ptr \<Rightarrow> u32 \<Rightarrow> u8 list \<Rightarrow> u32 \<Rightarrow> int \<times> u8 list) option"
  fs_write :: "('w \<Rightarrow> identity \<Rightarrow> ptr \<Rightarrow> ptr \<Rightarrow> u32 \<Rightarrow> u8 list \<Rightarrow> u32 \<Rightarrow> int \<times> 'w) option"
  fs_mkdir :: "('w \<Rightarrow> identity \<Rightarrow> ptr \<Rightarrow> string \<Rightarrow> int \<times> 'w) option"
  fs_rmdir :: "('w \<Rightarrow> identity \<Rightarrow> ptr \<Rightarrow> string \<Rightarrow> int \<times> 'w) option"
  fs_readdir :: "('w \<Rightarrow> ptr \<Rightarrow> string \<Rightarrow> initrafs_disk_dirent_t list \<Rightarrow> u32
                  \<Rightarrow> int \<times> initrafs_disk_dirent_t list) option"
  fs_private_data :: ptr

record vfs_file_t =
  vf_inode :: ptr
  vf_position :: u32
  vf_flags :: u32
  vf_filesystem_private :: ptr

record 'w vfs =
  vfs_world :: 'w
  vfs_filesystem_at :: "ptr \<Rightarrow> 'w filesystem_t"
  vfs_filesystems :: "ptr list"
  vfs_active_filesystem :: ptr
  vfs_open_files :: "vfs_file_t list"
  vfs_caller_uid :: u32
  vfs_caller_gid :: u32

record vfs_security_info_t =
  vsi_inode_number :: u32
  vsi_type :: u32
  vsi_mode :: u32
  vsi_owner :: u32
  vsi_group :: u32
  vsi_flags :: u32

definition active :: "'w vfs \<Rightarrow> 'w filesystem_t" where
  "active v = vfs_filesystem_at v (vfs_active_filesystem v)"

subsection \<open>Tables\<close>

definition vfs_filesystem_is_registered :: "'w vfs \<Rightarrow> ptr \<Rightarrow> bool" where
  "vfs_filesystem_is_registered v filesystem \<longleftrightarrow>
     filesystem \<noteq> NULL \<and> list_ex (\<lambda>p. p = filesystem) (vfs_filesystems v)"

definition vfs_file_is_open :: "'w vfs \<Rightarrow> nat option \<Rightarrow> bool" where
  "vfs_file_is_open v file =
     (case file of
        None \<Rightarrow> False
      | Some index \<Rightarrow> index < VFS_MAX_OPEN_FILES \<and> vf_inode (vfs_open_files v ! index) \<noteq> NULL)"

definition vfs_file_slot :: "'w vfs \<Rightarrow> nat option" where
  "vfs_file_slot v = find_slot (\<lambda>f. vf_inode f = NULL) (vfs_open_files v) 0"

definition vfs_set_caller_identity :: "'w vfs \<Rightarrow> u32 \<Rightarrow> u32 \<Rightarrow> bool \<times> 'w vfs" where
  "vfs_set_caller_identity v uid gid = (True, v\<lparr>vfs_caller_uid := uid, vfs_caller_gid := gid\<rparr>)"

definition vfs_get_caller_identity :: "'w vfs \<Rightarrow> identity" where
  "vfs_get_caller_identity v = (vfs_caller_uid v, vfs_caller_gid v)"

definition filesystem_register :: "'w vfs \<Rightarrow> ptr \<Rightarrow> bool \<times> 'w vfs" where
  "filesystem_register v filesystem =
     (if filesystem = NULL \<or>
         (case fs_name (vfs_filesystem_at v filesystem) of None \<Rightarrow> True | Some n \<Rightarrow> cstr_at n 0 = CHR 0x00) \<or>
         vfs_filesystem_is_registered v filesystem
      then (False, v)
      else case find_slot (\<lambda>p. p = NULL) (vfs_filesystems v) 0 of
             None \<Rightarrow> (False, v)
           | Some index \<Rightarrow> (True, v\<lparr>vfs_filesystems := (vfs_filesystems v)[index := filesystem]\<rparr>))"

definition filesystem_unregister :: "'w vfs \<Rightarrow> ptr \<Rightarrow> bool \<times> 'w vfs" where
  "filesystem_unregister v filesystem =
     (if \<not> vfs_filesystem_is_registered v filesystem \<or> vfs_active_filesystem v = filesystem
      then (False, v)
      else case find_slot (\<lambda>p. p = filesystem) (vfs_filesystems v) 0 of
             None \<Rightarrow> (False, v)
           | Some index \<Rightarrow> (True, v\<lparr>vfs_filesystems := (vfs_filesystems v)[index := NULL]\<rparr>))"

subsection \<open>Mounting\<close>

definition vfs_mount :: "'w vfs \<Rightarrow> ptr \<Rightarrow> ptr \<Rightarrow> bool \<times> 'w vfs" where
  "vfs_mount v filesystem device =
     (if \<not> vfs_filesystem_is_registered v filesystem \<or> vfs_active_filesystem v \<noteq> NULL \<or> device = NULL
      then (False, v)
      else case fs_mount (vfs_filesystem_at v filesystem) of
             None \<Rightarrow> (False, v)
           | Some mnt \<Rightarrow>
               let (ok, w) = mnt (vfs_world v) (fs_private_data (vfs_filesystem_at v filesystem)) device;
                   v = v\<lparr>vfs_world := w\<rparr>
               in if ok then (True, v\<lparr>vfs_active_filesystem := filesystem\<rparr>) else (False, v))"

definition vfs_unmount :: "'w vfs \<Rightarrow> ptr \<Rightarrow> bool \<times> 'w vfs" where
  "vfs_unmount v filesystem =
     (if filesystem = NULL \<or> vfs_active_filesystem v \<noteq> filesystem then (False, v)
      else case fs_unmount (vfs_filesystem_at v filesystem) of
             None \<Rightarrow> (False, v)
           | Some unmnt \<Rightarrow>
               if list_ex (\<lambda>f. vf_inode f \<noteq> NULL) (vfs_open_files v) then (False, v)
               else
                 let (ok, w) = unmnt (vfs_world v) (fs_private_data (vfs_filesystem_at v filesystem));
                     v = v\<lparr>vfs_world := w\<rparr>
                 in if ok then (True, v\<lparr>vfs_active_filesystem := NULL\<rparr>) else (False, v))"

text \<open>
  The lookup both users of paths start with; the inode's address, never NULL.
\<close>

definition active_lookup :: "'w vfs \<Rightarrow> string option \<Rightarrow> ptr option" where
  "active_lookup v path =
     (if vfs_active_filesystem v = NULL then None
      else case (fs_lookup (active v), path) of
             (Some lookup, Some p) \<Rightarrow>
               (case lookup (vfs_world v) (fs_private_data (active v)) p of
                  None \<Rightarrow> None
                | Some inode \<Rightarrow> if inode = NULL then None else Some inode)
           | _ \<Rightarrow> None)"

text \<open>\<open>inode_at\<close> reads an inode of the file system's state.\<close>

definition vfs_get_security_info ::
  "('w \<Rightarrow> ptr \<Rightarrow> fs_inode) \<Rightarrow> 'w vfs \<Rightarrow> string option \<Rightarrow> nonnull \<Rightarrow> vfs_security_info_t option" where
  "vfs_get_security_info inode_at v path info =
     (if \<not> info then None
      else case active_lookup v path of
             None \<Rightarrow> None
           | Some inode \<Rightarrow>
               let i = inode_at (vfs_world v) inode
               in Some \<lparr>vsi_inode_number = fi_inode_number i, vsi_type = fi_type i, vsi_mode = fi_mode i,
                        vsi_owner = fi_owner i, vsi_group = fi_group i, vsi_flags = fi_flags i\<rparr>)"

subsection \<open>File operations\<close>

definition set_file :: "'w vfs \<Rightarrow> nat \<Rightarrow> vfs_file_t \<Rightarrow> 'w vfs" where
  "set_file v index f = v\<lparr>vfs_open_files := (vfs_open_files v)[index := f]\<rparr>"

definition vfs_open :: "'w vfs \<Rightarrow> string option \<Rightarrow> u32 \<Rightarrow> nonnull \<Rightarrow> nat option \<times> 'w vfs" where
  "vfs_open v path flags file =
     (if \<not> file then (None, v)
      else case active_lookup v path of
             None \<Rightarrow> (None, v)
           | Some inode \<Rightarrow>
               (case vfs_file_slot v of
                  None \<Rightarrow> (None, v)
                | Some slot \<Rightarrow>
                    (Some slot, set_file v slot
                       \<lparr>vf_inode = inode, vf_position = 0, vf_flags = flags,
                        vf_filesystem_private = fs_private_data (active v)\<rparr>)))"

definition vfs_close :: "'w vfs \<Rightarrow> nat option \<Rightarrow> bool \<times> 'w vfs" where
  "vfs_close v file =
     (if \<not> vfs_file_is_open v file then (False, v)
      else (True, set_file v (the file)
              \<lparr>vf_inode = NULL, vf_position = 0, vf_flags = 0, vf_filesystem_private = NULL\<rparr>))"

definition advance :: "vfs_file_t \<Rightarrow> int \<Rightarrow> vfs_file_t" where
  "advance f result = (if result > 0 then f\<lparr>vf_position := vf_position f + of_int result\<rparr> else f)"

definition vfs_read ::
  "'w vfs \<Rightarrow> nat option \<Rightarrow> u8 list option \<Rightarrow> u32 \<Rightarrow> int \<times> 'w vfs \<times> u8 list option" where
  "vfs_read v file buffer size_arg =
     (if \<not> vfs_file_is_open v file \<or> vfs_active_filesystem v = NULL then (-1, v, buffer)
      else case (fs_read (active v), buffer) of
             (Some rd, Some buf) \<Rightarrow>
               let f = vfs_open_files v ! the file;
                   (result, buf') = rd (vfs_world v) (vfs_get_caller_identity v) (fs_private_data (active v))
                                      (vf_inode f) (vf_position f) buf size_arg
               in (result, set_file v (the file) (advance f result), Some buf')
           | _ \<Rightarrow> (-1, v, buffer))"

definition vfs_write :: "'w vfs \<Rightarrow> nat option \<Rightarrow> u8 list option \<Rightarrow> u32 \<Rightarrow> int \<times> 'w vfs" where
  "vfs_write v file buffer size_arg =
     (if \<not> vfs_file_is_open v file \<or> vfs_active_filesystem v = NULL then (-1, v)
      else case (fs_write (active v), buffer) of
             (Some wr, Some buf) \<Rightarrow>
               let f = vfs_open_files v ! the file;
                   (result, w) = wr (vfs_world v) (vfs_get_caller_identity v) (fs_private_data (active v))
                                   (vf_inode f) (vf_position f) buf size_arg
               in (result, set_file (v\<lparr>vfs_world := w\<rparr>) (the file) (advance f result))
           | _ \<Rightarrow> (-1, v))"

definition vfs_seek :: "'w vfs \<Rightarrow> nat option \<Rightarrow> u32 \<Rightarrow> bool \<times> 'w vfs" where
  "vfs_seek v file position =
     (if \<not> vfs_file_is_open v file then (False, v)
      else (True, set_file v (the file) ((vfs_open_files v ! the file)\<lparr>vf_position := position\<rparr>)))"

subsection \<open>Directory operations\<close>

definition path_op ::
  "('w filesystem_t \<Rightarrow> ('w \<Rightarrow> identity \<Rightarrow> ptr \<Rightarrow> string \<Rightarrow> int \<times> 'w) option) \<Rightarrow> 'w vfs \<Rightarrow> string option
     \<Rightarrow> int \<times> 'w vfs" where
  "path_op oper v path =
     (if vfs_active_filesystem v = NULL then (0, v)
      else case (oper (active v), path) of
             (Some f, Some p) \<Rightarrow>
               let (result, w) = f (vfs_world v) (vfs_get_caller_identity v) (fs_private_data (active v)) p
               in (result, v\<lparr>vfs_world := w\<rparr>)
           | _ \<Rightarrow> (0, v))"

definition vfs_mkdir :: "'w vfs \<Rightarrow> string option \<Rightarrow> int \<times> 'w vfs" where
  "vfs_mkdir = path_op fs_mkdir"

definition vfs_rmdir :: "'w vfs \<Rightarrow> string option \<Rightarrow> int \<times> 'w vfs" where
  "vfs_rmdir = path_op fs_rmdir"

definition vfs_unlink :: "'w vfs \<Rightarrow> string option \<Rightarrow> int \<times> 'w vfs" where
  "vfs_unlink = path_op fs_remove"

definition vfs_readdir ::
  "'w vfs \<Rightarrow> string option \<Rightarrow> initrafs_disk_dirent_t list option \<Rightarrow> u32
     \<Rightarrow> int \<times> initrafs_disk_dirent_t list option" where
  "vfs_readdir v path entry entry_size =
     (if vfs_active_filesystem v = NULL \<or> entry_size = 0 then (0, entry)
      else case (fs_readdir (active v), path, entry) of
             (Some rd, Some p, Some e) \<Rightarrow>
               map_prod id Some (rd (vfs_world v) (fs_private_data (active v)) p e entry_size)
           | _ \<Rightarrow> (0, entry))"

subsection \<open>The invariant\<close>

definition registered :: "'w vfs \<Rightarrow> ptr set" where
  "registered v = set (vfs_filesystems v) - {NULL}"

definition some_file_open :: "'w vfs \<Rightarrow> bool" where
  "some_file_open v \<longleftrightarrow> (\<exists>f \<in> set (vfs_open_files v). vf_inode f \<noteq> NULL)"

definition vfs_ok :: "'w vfs \<Rightarrow> bool" where
  "vfs_ok v \<longleftrightarrow>
     length (vfs_filesystems v) = VFS_MAX_FILESYSTEMS \<and> length (vfs_open_files v) = VFS_MAX_OPEN_FILES \<and>
     distinct (filter (\<lambda>p. p \<noteq> NULL) (vfs_filesystems v)) \<and>
     (vfs_active_filesystem v \<noteq> NULL \<longrightarrow> vfs_active_filesystem v \<in> registered v) \<and>
     (some_file_open v \<longrightarrow> vfs_active_filesystem v \<noteq> NULL)"

lemma is_registered_iff: "vfs_filesystem_is_registered v p \<longleftrightarrow> p \<in> registered v"
  by (auto simp: vfs_filesystem_is_registered_def registered_def list_ex_iff)

lemma distinct_filter_update:
  assumes "distinct (filter Q xs)" and "i < length xs" and "y \<notin> set xs \<or> \<not> Q y"
  shows "distinct (filter Q (xs[i := y]))"
proof -
  have sp: "xs = take i xs @ xs ! i # drop (Suc i) xs" using assms(2) by (rule id_take_nth_drop)
  have up: "xs[i := y] = take i xs @ y # drop (Suc i) xs" using assms(2) by (rule upd_conv_take_nth_drop)
  have "distinct (filter Q (take i xs @ xs ! i # drop (Suc i) xs))" using assms(1) sp by simp
  moreover have "y \<notin> set (take i xs) \<union> set (drop (Suc i) xs) \<or> \<not> Q y"
    using assms(3) by (auto dest: in_set_takeD in_set_dropD)
  ultimately show ?thesis unfolding up by (auto split: if_splits)
qed

lemma registered_update:
  assumes "distinct (filter (\<lambda>p. p \<noteq> NULL) xs)" and "i < length xs" and "xs ! i \<noteq> NULL"
  shows "set (xs[i := NULL]) - {NULL} = set xs - {NULL, xs ! i}"
proof -
  have sp: "xs = take i xs @ xs ! i # drop (Suc i) xs" using assms(2) by (rule id_take_nth_drop)
  have up: "xs[i := NULL] = take i xs @ NULL # drop (Suc i) xs" using assms(2) by (rule upd_conv_take_nth_drop)
  have "distinct (filter (\<lambda>p. p \<noteq> NULL) (take i xs @ xs ! i # drop (Suc i) xs))" using assms(1) sp by simp
  then have "xs ! i \<notin> set (take i xs) \<union> set (drop (Suc i) xs)" using assms(3) by auto
  moreover have "set xs = insert (xs ! i) (set (take i xs) \<union> set (drop (Suc i) xs))"
    by (subst sp) auto
  ultimately show ?thesis unfolding up by auto
qed

lemma registered_insert:
  assumes "i < length xs" and "xs ! i = NULL" and "p \<noteq> NULL"
  shows "set (xs[i := p]) - {NULL} = insert p (set xs - {NULL})"
proof -
  have "xs = take i xs @ xs ! i # drop (Suc i) xs" using assms(1) by (rule id_take_nth_drop)
  then have "set xs = insert NULL (set (take i xs) \<union> set (drop (Suc i) xs))"
    using assms(2) by (metis Un_insert_right list.simps(15) set_append)
  moreover have "set (xs[i := p]) = insert p (set (take i xs) \<union> set (drop (Suc i) xs))"
    using upd_conv_take_nth_drop [OF assms(1), of p] by simp
  ultimately show ?thesis using assms(3) by auto
qed

text \<open>Registration and its reversal, as operations on the set of registered file systems.\<close>

lemma filesystem_register_spec:
  assumes ok: "vfs_ok v" and reg: "filesystem_register v p = (r, v')"
  shows "(r \<longleftrightarrow> p \<noteq> NULL \<and> p \<notin> registered v \<and> NULL \<in> set (vfs_filesystems v) \<and>
            (\<exists>n. fs_name (vfs_filesystem_at v p) = Some n \<and> cstr_at n 0 \<noteq> CHR 0x00)) \<and>
         registered v' = (if r then insert p (registered v) else registered v) \<and> vfs_ok v' \<and>
         (\<not> r \<longrightarrow> v' = v)"
proof (cases "\<exists>i. find_slot (\<lambda>p. p = NULL) (vfs_filesystems v) 0 = Some i \<and>
    p \<noteq> NULL \<and> p \<notin> registered v \<and> (\<exists>n. fs_name (vfs_filesystem_at v p) = Some n \<and> cstr_at n 0 \<noteq> CHR 0x00)")
  case True
  then obtain i n where i: "find_slot (\<lambda>p. p = NULL) (vfs_filesystems v) 0 = Some i" "p \<noteq> NULL"
    "p \<notin> registered v" "fs_name (vfs_filesystem_at v p) = Some n" "cstr_at n 0 \<noteq> CHR 0x00" by blast
  let ?xs = "vfs_filesystems v"
  have slot: "i < length ?xs" "?xs ! i = NULL" using find_slot_Some [OF i(1)] by simp_all
  have res: "r" "v' = v\<lparr>vfs_filesystems := ?xs[i := p]\<rparr>"
    using reg i by (simp_all add: filesystem_register_def is_registered_iff)
  have set: "registered v' = insert p (registered v)"
    using registered_insert [OF slot i(2)] by (simp add: res registered_def)
  have "distinct (filter (\<lambda>p. p \<noteq> NULL) (?xs[i := p]))"
    using ok i(2,3) slot(1) by (intro distinct_filter_update) (auto simp: vfs_ok_def registered_def)
  then have "vfs_ok v'" using ok set by (auto simp: vfs_ok_def res some_file_open_def)
  moreover have "NULL \<in> set ?xs" using slot nth_mem by metis
  ultimately show ?thesis using set i res(1) by auto
next
  case False
  then have "\<not> r \<and> v' = v"
    using reg by (auto simp: filesystem_register_def is_registered_iff split: option.splits if_splits)
  moreover have "find_slot (\<lambda>p. p = NULL) (vfs_filesystems v) 0 = None \<longleftrightarrow> NULL \<notin> set (vfs_filesystems v)"
    by (auto simp: find_slot_None)
  ultimately show ?thesis using False ok by (cases "find_slot (\<lambda>p. p = NULL) (vfs_filesystems v) 0") auto
qed

lemma filesystem_unregister_spec:
  assumes ok: "vfs_ok v" and unreg: "filesystem_unregister v p = (r, v')"
  shows "(r \<longleftrightarrow> p \<in> registered v \<and> vfs_active_filesystem v \<noteq> p) \<and>
         registered v' = (if r then registered v - {p} else registered v) \<and> vfs_ok v' \<and> (\<not> r \<longrightarrow> v' = v)"
proof (cases "p \<in> registered v \<and> vfs_active_filesystem v \<noteq> p")
  case True
  let ?xs = "vfs_filesystems v"
  have "find_slot (\<lambda>q. q = p) ?xs 0 \<noteq> None" using True by (auto simp: find_slot_None registered_def)
  then obtain i where i: "find_slot (\<lambda>q. q = p) ?xs 0 = Some i" by blast
  then have slot: "i < length ?xs" "?xs ! i = p" using find_slot_Some [OF i] by simp_all
  have res: "r" "v' = v\<lparr>vfs_filesystems := ?xs[i := NULL]\<rparr>"
    using unreg True i by (simp_all add: filesystem_unregister_def is_registered_iff)
  have "p \<noteq> NULL" using True by (simp add: registered_def)
  then have set: "registered v' = registered v - {p}"
    using ok registered_update [OF _ slot(1)] slot(2) by (auto simp: res registered_def vfs_ok_def)
  have "distinct (filter (\<lambda>p. p \<noteq> NULL) (?xs[i := NULL]))"
    using ok slot(1) by (intro distinct_filter_update) (auto simp: vfs_ok_def)
  then have "vfs_ok v'" using ok set True by (auto simp: vfs_ok_def res some_file_open_def)
  then show ?thesis using set True res(1) by auto
next
  case False
  then show ?thesis using unreg ok
    by (auto simp: filesystem_unregister_def is_registered_iff split: option.splits if_splits)
qed

subsection \<open>The open files as a partial map\<close>

text \<open>
  The abstract view of the table: which handles are open, and what each refers
  to. Every operation changes at most one handle.
\<close>

definition open_map :: "'w vfs \<Rightarrow> nat \<Rightarrow> vfs_file_t option" where
  "open_map v h = (if vfs_file_is_open v (Some h) then Some (vfs_open_files v ! h) else None)"

lemma is_open_iff: "vfs_file_is_open v file \<longleftrightarrow> (\<exists>h f. file = Some h \<and> open_map v h = Some f)"
  by (cases "file") (auto simp: open_map_def vfs_file_is_open_def)

lemma open_mapD: "open_map v h = Some f \<Longrightarrow> h < VFS_MAX_OPEN_FILES \<and> vfs_open_files v ! h = f \<and> vf_inode f \<noteq> NULL"
  by (auto simp: open_map_def vfs_file_is_open_def split: if_splits)

lemma open_map_frame [simp]:
  "open_map (v\<lparr>vfs_world := w\<rparr>) = open_map v"
  "open_map (v\<lparr>vfs_active_filesystem := p\<rparr>) = open_map v"
  "open_map (v\<lparr>vfs_filesystems := ps\<rparr>) = open_map v"
  "open_map (v\<lparr>vfs_filesystem_at := fs\<rparr>) = open_map v"
  "open_map (v\<lparr>vfs_caller_uid := u\<rparr>) = open_map v"
  "open_map (v\<lparr>vfs_caller_gid := g\<rparr>) = open_map v"
  by (auto simp: open_map_def vfs_file_is_open_def)

lemma open_map_set_file:
  assumes "vfs_ok v" and "h < VFS_MAX_OPEN_FILES"
  shows "open_map (set_file v h f) = (open_map v)(h := if vf_inode f = NULL then None else Some f)"
  using assms by (auto simp: open_map_def vfs_file_is_open_def set_file_def vfs_ok_def nth_list_update)

lemma set_file_frame [simp]:
  "vfs_world (set_file v h f) = vfs_world v" "vfs_active_filesystem (set_file v h f) = vfs_active_filesystem v"
  "vfs_filesystems (set_file v h f) = vfs_filesystems v" "vfs_filesystem_at (set_file v h f) = vfs_filesystem_at v"
  "registered (set_file v h f) = registered v" "active (set_file v h f) = active v"
  "vfs_get_caller_identity (set_file v h f) = vfs_get_caller_identity v"
  by (simp_all add: set_file_def registered_def active_def vfs_get_caller_identity_def)

lemma some_file_open_iff:
  assumes "vfs_ok v"
  shows "some_file_open v \<longleftrightarrow> open_map v \<noteq> Map.empty"
proof -
  have "some_file_open v \<longleftrightarrow> (\<exists>h < 32. vf_inode (vfs_open_files v ! h) \<noteq> NULL)"
    using assms by (auto simp: vfs_ok_def some_file_open_def Bex_def in_set_conv_nth)
  also have "\<dots> \<longleftrightarrow> (\<exists>h. open_map v h \<noteq> None)" by (simp add: open_map_def vfs_file_is_open_def)
  also have "\<dots> \<longleftrightarrow> open_map v \<noteq> Map.empty" by auto
  finally show ?thesis .
qed

lemma vfs_ok_set_file:
  assumes "vfs_ok v" and "vf_inode f \<noteq> NULL \<Longrightarrow> vfs_active_filesystem v \<noteq> NULL"
  shows "vfs_ok (set_file v h f)"
proof -
  have "some_file_open (set_file v h f) \<Longrightarrow> some_file_open v \<or> vf_inode f \<noteq> NULL"
    using set_update_subset_insert [of "vfs_open_files v" h f]
    by (auto simp: some_file_open_def set_file_def)
  with assms show ?thesis by (auto simp: vfs_ok_def) (simp_all add: set_file_def)
qed

lemma vfs_file_slot_iff:
  assumes "vfs_ok v"
  shows "vfs_file_slot v = Some h \<longleftrightarrow>
           h < VFS_MAX_OPEN_FILES \<and> open_map v h = None \<and> (\<forall>m < h. open_map v m \<noteq> None)" (is "_ \<longleftrightarrow> ?R h")
    and "vfs_file_slot v = None \<longleftrightarrow> dom (open_map v) = {..<VFS_MAX_OPEN_FILES}"
proof -
  let ?P = "\<lambda>f. vf_inode f = NULL"
  have len: "length (vfs_open_files v) = 32" using assms by (simp add: vfs_ok_def)
  have fw: "?R h" if "vfs_file_slot v = Some h" for h
    using find_slot_Some [OF that [unfolded vfs_file_slot_def]] len
    by (auto simp: open_map_def vfs_file_is_open_def)
  have none: "vfs_file_slot v = None \<longleftrightarrow> (\<forall>h < 32. open_map v h \<noteq> None)"
    using len by (auto simp: vfs_file_slot_def find_slot_None all_set_conv_all_nth open_map_def vfs_file_is_open_def)
  show "vfs_file_slot v = Some h \<longleftrightarrow> ?R h"
  proof
    assume R: "?R h"
    then obtain k where k: "vfs_file_slot v = Some k" using none by fastforce
    then show "vfs_file_slot v = Some h" using fw [OF k] R by (metis linorder_neqE_nat)
  qed (rule fw)
  show "vfs_file_slot v = None \<longleftrightarrow> dom (open_map v) = {..<VFS_MAX_OPEN_FILES}"
  proof -
    have sub: "dom (open_map v) \<subseteq> {..<32}" using open_mapD [of v] by auto
    have "vfs_file_slot v = None \<longleftrightarrow> {..<32} \<subseteq> dom (open_map v)" using none by (auto simp: subset_iff)
    with sub show ?thesis by auto
  qed
qed

subsection \<open>Operations on open files\<close>

lemma active_lookup_active: "active_lookup v path = Some inode \<Longrightarrow> vfs_active_filesystem v \<noteq> NULL \<and> inode \<noteq> NULL"
  by (auto simp: active_lookup_def split: if_splits option.splits)

lemma vfs_open_spec:
  assumes ok: "vfs_ok v" and op: "vfs_open v path flags True = (r, v')"
  shows "(case r of
            None \<Rightarrow> v' = v \<and> (active_lookup v path = None \<or> dom (open_map v) = {..<VFS_MAX_OPEN_FILES})
          | Some h \<Rightarrow>
              (\<exists>inode. active_lookup v path = Some inode \<and> h < VFS_MAX_OPEN_FILES \<and>
                 open_map v h = None \<and> (\<forall>m < h. open_map v m \<noteq> None) \<and>
                 open_map v' = (open_map v)(h \<mapsto>
                   \<lparr>vf_inode = inode, vf_position = 0, vf_flags = flags,
                    vf_filesystem_private = fs_private_data (active v)\<rparr>))) \<and> vfs_ok v'"
proof (cases "active_lookup v path")
  case None
  then show ?thesis using op ok by (simp add: vfs_open_def)
next
  case look: (Some inode)
  show ?thesis
  proof (cases "vfs_file_slot v")
    case None
    then show ?thesis using op ok look vfs_file_slot_iff(2) [OF ok] by (simp add: vfs_open_def)
  next
    case (Some h)
    then have slot: "h < VFS_MAX_OPEN_FILES" "open_map v h = None" "\<forall>m < h. open_map v m \<noteq> None"
      using vfs_file_slot_iff(1) [OF ok] by blast+
    let ?f = "\<lparr>vf_inode = inode, vf_position = 0, vf_flags = flags,
                    vf_filesystem_private = fs_private_data (active v)\<rparr>"
    have res: "r = Some h" "v' = set_file v h ?f" using op look Some by (simp_all add: vfs_open_def)
    have "vfs_ok v'" unfolding res
      by (rule vfs_ok_set_file [OF ok]) (use active_lookup_active [OF look] in simp)
    then show ?thesis
      using res(1) look slot active_lookup_active [OF look] open_map_set_file [OF ok slot(1), of ?f]
      by (simp add: res(2))
  qed
qed

lemma vfs_close_spec:
  assumes ok: "vfs_ok v"
  shows "fst (vfs_close v file) \<longleftrightarrow> (\<exists>h. file = Some h \<and> open_map v h \<noteq> None)"
    and "open_map (snd (vfs_close v (Some h))) = (open_map v)(h := None)"
    and "vfs_ok (snd (vfs_close v file))"
proof -
  show "fst (vfs_close v file) \<longleftrightarrow> (\<exists>h. file = Some h \<and> open_map v h \<noteq> None)"
    by (auto simp: vfs_close_def is_open_iff)
  show "open_map (snd (vfs_close v (Some h))) = (open_map v)(h := None)"
    using open_map_set_file [OF ok, of h] open_mapD [of v h]
    by (cases "open_map v h") (auto simp: vfs_close_def is_open_iff)
  show "vfs_ok (snd (vfs_close v file))"
    using ok by (auto simp: vfs_close_def intro!: vfs_ok_set_file)
qed

lemma advance_inode [simp]: "vf_inode (advance f r) = vf_inode f"
  by (simp add: advance_def)

lemma vfs_ok_world [simp]: "vfs_ok (v\<lparr>vfs_world := w\<rparr>) = vfs_ok v"
  by (simp add: vfs_ok_def registered_def some_file_open_def)

lemma vfs_seek_spec:
  assumes "vfs_ok v" and "open_map v h = Some f"
  shows "fst (vfs_seek v (Some h) position)"
    and "open_map (snd (vfs_seek v (Some h) position)) = (open_map v)(h \<mapsto> f\<lparr>vf_position := position\<rparr>)"
    and "vfs_world (snd (vfs_seek v (Some h) position)) = vfs_world v"
  using assms open_map_set_file [OF assms(1), of h "f\<lparr>vf_position := position\<rparr>"] open_mapD [OF assms(2)]
  by (simp_all add: vfs_seek_def is_open_iff)

lemma vfs_read_spec:
  assumes "vfs_ok v" and "open_map v h = Some f" and "vfs_active_filesystem v \<noteq> NULL"
    and "fs_read (active v) = Some rd"
    and "rd (vfs_world v) (vfs_get_caller_identity v) (fs_private_data (active v)) (vf_inode f) (vf_position f)
            buf n = (r, buf')"
  shows "vfs_read v (Some h) (Some buf) n = (r, set_file v h (advance f r), Some buf')"
    and "open_map (set_file v h (advance f r)) = (open_map v)(h \<mapsto> advance f r)"
  using assms open_map_set_file [OF assms(1), of h "advance f r"] open_mapD [OF assms(2)]
  by (simp_all add: vfs_read_def is_open_iff)

lemma vfs_write_spec:
  assumes "vfs_ok v" and "open_map v h = Some f" and "vfs_active_filesystem v \<noteq> NULL"
    and "fs_write (active v) = Some wr"
    and "wr (vfs_world v) (vfs_get_caller_identity v) (fs_private_data (active v)) (vf_inode f) (vf_position f)
            buf n = (r, w)"
  shows "vfs_write v (Some h) (Some buf) n = (r, set_file (v\<lparr>vfs_world := w\<rparr>) h (advance f r))"
    and "open_map (set_file (v\<lparr>vfs_world := w\<rparr>) h (advance f r)) = (open_map v)(h \<mapsto> advance f r)"
proof -
  show "vfs_write v (Some h) (Some buf) n = (r, set_file (v\<lparr>vfs_world := w\<rparr>) h (advance f r))"
    using assms open_mapD [OF assms(2)] by (simp add: vfs_write_def is_open_iff)
  have "vfs_ok (v\<lparr>vfs_world := w\<rparr>)" using assms(1) by simp
  from open_map_set_file [OF this, of h "advance f r"]
  show "open_map (set_file (v\<lparr>vfs_world := w\<rparr>) h (advance f r)) = (open_map v)(h \<mapsto> advance f r)"
    using open_mapD [OF assms(2)] by simp
qed

subsection \<open>Reachable states\<close>

text \<open>
  One rule per operation of \<open>vfs.h\<close> that can change the VFS's state, with any
  arguments, plus two rules for the environment: the code below the VFS changes
  its own state, and a \<open>filesystem_t\<close> object is filled in.
\<close>

inductive vfs_step :: "'w vfs \<Rightarrow> 'w vfs \<Rightarrow> bool" where
  register: "vfs_step v (snd (filesystem_register v p))"
| unregister: "vfs_step v (snd (filesystem_unregister v p))"
| mount: "vfs_step v (snd (vfs_mount v p device))"
| unmount: "vfs_step v (snd (vfs_unmount v p))"
| identity: "vfs_step v (snd (vfs_set_caller_identity v uid gid))"
| open_file: "vfs_step v (snd (vfs_open v path flags out))"
| close_file: "vfs_step v (snd (vfs_close v h))"
| read_file: "vfs_step v (fst (snd (vfs_read v h buf n)))"
| write_file: "vfs_step v (snd (vfs_write v h buf n))"
| seek_file: "vfs_step v (snd (vfs_seek v h position))"
| make_dir: "vfs_step v (snd (vfs_mkdir v path))"
| remove_dir: "vfs_step v (snd (vfs_rmdir v path))"
| unlink: "vfs_step v (snd (vfs_unlink v path))"
| below: "vfs_step v (v\<lparr>vfs_world := w\<rparr>)"
| describe: "vfs_step v (v\<lparr>vfs_filesystem_at := fs\<rparr>)"

text \<open>The static objects of \<open>vfs.c\<close> before the first call.\<close>

definition vfs_boot :: "'w \<Rightarrow> (ptr \<Rightarrow> 'w filesystem_t) \<Rightarrow> 'w vfs" where
  "vfs_boot w fs =
     \<lparr>vfs_world = w, vfs_filesystem_at = fs, vfs_filesystems = replicate VFS_MAX_FILESYSTEMS NULL,
      vfs_active_filesystem = NULL,
      vfs_open_files = replicate VFS_MAX_OPEN_FILES
        \<lparr>vf_inode = NULL, vf_position = 0, vf_flags = 0, vf_filesystem_private = NULL\<rparr>,
      vfs_caller_uid = 0, vfs_caller_gid = 0\<rparr>"

inductive vfs_reachable :: "'w vfs \<Rightarrow> bool" where
  boot: "vfs_reachable (vfs_boot w fs)"
| step: "vfs_reachable v \<Longrightarrow> vfs_step v v' \<Longrightarrow> vfs_reachable v'"

lemma vfs_boot_ok: "vfs_ok (vfs_boot w fs)"
  by (simp add: vfs_ok_def vfs_boot_def some_file_open_def)

lemma vfs_ok_frame [simp]:
  "vfs_ok (v\<lparr>vfs_filesystem_at := fs\<rparr>) = vfs_ok v"
  "vfs_ok (v\<lparr>vfs_caller_uid := u\<rparr>) = vfs_ok v" "vfs_ok (v\<lparr>vfs_caller_gid := g\<rparr>) = vfs_ok v"
  by (simp_all add: vfs_ok_def registered_def some_file_open_def)

lemma vfs_mount_ok: "vfs_ok v \<Longrightarrow> vfs_ok (snd (vfs_mount v p device))"
  by (auto simp: vfs_mount_def Let_def is_registered_iff vfs_ok_def registered_def some_file_open_def
      split: option.splits prod.splits)

lemma vfs_unmount_ok: "vfs_ok v \<Longrightarrow> vfs_ok (snd (vfs_unmount v p))"
  by (auto simp: vfs_unmount_def Let_def vfs_ok_def registered_def some_file_open_def list_ex_iff
      split: option.splits prod.splits)

lemma vfs_open_ok: "vfs_ok v \<Longrightarrow> vfs_ok (snd (vfs_open v path flags out))"
  using vfs_open_spec [of v path flags] by (cases out; cases "vfs_open v path flags True") (auto simp: vfs_open_def)

lemma open_active: "vfs_ok v \<Longrightarrow> vfs_file_is_open v h \<Longrightarrow> vfs_active_filesystem v \<noteq> NULL"
  using some_file_open_iff [of v] by (auto simp: is_open_iff vfs_ok_def)

lemma vfs_read_ok: "vfs_ok v \<Longrightarrow> vfs_ok (fst (snd (vfs_read v h buf n)))"
  by (auto simp: vfs_read_def Let_def split: option.splits prod.splits intro!: vfs_ok_set_file)

lemma vfs_write_ok: "vfs_ok v \<Longrightarrow> vfs_ok (snd (vfs_write v h buf n))"
  by (auto simp: vfs_write_def Let_def split: option.splits prod.splits intro!: vfs_ok_set_file)

lemma vfs_seek_ok: "vfs_ok v \<Longrightarrow> vfs_ok (snd (vfs_seek v h position))"
  using open_active [of v h] by (auto simp: vfs_seek_def intro!: vfs_ok_set_file)

lemma path_op_ok: "vfs_ok v \<Longrightarrow> vfs_ok (snd (path_op oper v path))"
  by (auto simp: path_op_def split: option.splits prod.splits)

lemma vfs_step_ok: "vfs_step v v' \<Longrightarrow> vfs_ok v \<Longrightarrow> vfs_ok v'"
proof (induction rule: vfs_step.induct)
  case (register v p)
  then show ?case using filesystem_register_spec [of v p] by (cases "filesystem_register v p") simp
next
  case (unregister v p)
  then show ?case using filesystem_unregister_spec [of v p] by (cases "filesystem_unregister v p") simp
next
  case (close_file v h)
  then show ?case by (rule vfs_close_spec(3))
qed (simp_all add: vfs_mount_ok vfs_unmount_ok vfs_open_ok vfs_read_ok vfs_write_ok vfs_seek_ok path_op_ok
    vfs_mkdir_def vfs_rmdir_def vfs_unlink_def vfs_set_caller_identity_def)

lemma vfs_reachable_ok: "vfs_reachable v \<Longrightarrow> vfs_ok v"
  by (induction rule: vfs_reachable.induct) (simp_all add: vfs_boot_ok vfs_step_ok)

end
