(* ===== verification/Paths.thy ===== *)
theory Paths
  imports Namespace
begin

section \<open>Path resolution\<close>

text \<open>
  \<open>initrafs_path_next_component\<close> and \<open>initrafs_path_lookup\<close> of
  \<open>fs/initrafs.c\<close>. Positions in a path and the depth of the walk are natural
  numbers: a path lies in a 32-bit address space, so the source's
  \<open>unsigned int\<close> counters, which count at most its characters, do not wrap.

  The theory shows that a lookup is a walk over the non-empty components of the
  path, and that no path leads above the root.
\<close>

subsection \<open>The source's functions\<close>

abbreviation (input) slash :: char where "slash \<equiv> CHR ''/''"
abbreviation (input) nul :: char where "nul \<equiv> CHR 0x00"

lemma cstr_at_neq_nul: "cstr_at s i \<noteq> nul \<Longrightarrow> i < length s"
  by (simp add: cstr_at_def split: if_splits)

function skip_slashes :: "string \<Rightarrow> nat \<Rightarrow> nat" where
  "skip_slashes path cursor =
     (if cstr_at path cursor = slash then skip_slashes path (Suc cursor) else cursor)"
  by pat_completeness auto
termination
  by (relation "measure (\<lambda>(p, c). length p - c)") (auto simp: cstr_at_def split: if_splits)

declare skip_slashes.simps [simp del]

text \<open>
  The copying loop of \<open>initrafs_path_next_component\<close>; \<open>component\<close> holds the
  characters copied so far, its length is \<open>index\<close>. \<open>Inl\<close> is the return value -1.
\<close>

function component_loop :: "string \<Rightarrow> nat \<Rightarrow> string \<Rightarrow> string + (nat \<times> string)" where
  "component_loop path cursor component =
     (if cstr_at path cursor \<noteq> nul \<and> cstr_at path cursor \<noteq> slash then
        if length component \<ge> unat INITRAFS_MAX_NAME_LENGTH then Inl component
        else component_loop path (Suc cursor) (component @ [cstr_at path cursor])
      else Inr (cursor, component))"
  by pat_completeness auto
termination
  by (relation "measure (\<lambda>(p, c, _). length p - c)") (auto simp: cstr_at_def split: if_splits)

declare component_loop.simps [simp del]

text \<open>
  The result is the return value, the new \<open>*position\<close> and the new contents of
  the \<open>component\<close> buffer up to its terminator; both callers pass the addresses of
  local variables for them. After -1 the buffer holds the first 48 characters
  of the component.
\<close>

definition initrafs_path_next_component ::
  "string option \<Rightarrow> nat \<Rightarrow> string \<Rightarrow> int \<times> nat \<times> string" where
  "initrafs_path_next_component path position component =
     (case path of
        None \<Rightarrow> (0, position, component)
      | Some p \<Rightarrow>
          let cursor = skip_slashes p position
          in if cstr_at p cursor = nul then (0, cursor, component)
             else (case component_loop p cursor [] of
                     Inl c \<Rightarrow> (-1, position, c)
                   | Inr (cursor', c) \<Rightarrow> (1, cursor', c)))"

lemma skip_slashes_ge: "pos \<le> skip_slashes p pos"
proof (induction p pos rule: skip_slashes.induct)
  case (1 p pos)
  then show ?case by (auto simp: skip_slashes.simps [of p pos])
qed

lemma component_loop_cursor:
  "component_loop p cur c = Inr (cur', c') \<Longrightarrow> cur \<le> cur' \<and> (cstr_at p cur \<notin> {nul, slash} \<longrightarrow> cur < cur')"
proof (induction p cur c rule: component_loop.induct)
  case (1 p cur c)
  then show ?case
    by (auto simp: component_loop.simps [of p cur c] split: if_splits)
qed

lemma skip_slashes_stop: "cstr_at p (skip_slashes p pos) \<noteq> slash"
proof (induction p pos rule: skip_slashes.induct)
  case (1 p pos)
  then show ?case by (auto simp: skip_slashes.simps [of p pos])
qed

lemma next_component_progress:
  assumes "initrafs_path_next_component (Some p) pos c = (r, pos', c')" and "r \<noteq> 0" and "\<not> r < 0"
  shows "pos < pos' \<and> pos < length p"
proof -
  let ?k = "skip_slashes p pos"
  from assms have k: "cstr_at p ?k \<noteq> nul" and l: "component_loop p ?k [] = Inr (pos', c')"
    by (auto simp: initrafs_path_next_component_def Let_def split: if_splits sum.splits)
  from component_loop_cursor [OF l] k skip_slashes_stop [of p pos] have "?k < pos'" by auto
  moreover have "pos \<le> ?k" by (rule skip_slashes_ge)
  moreover have "?k < length p" by (rule cstr_at_neq_nul [OF k])
  ultimately show ?thesis by linarith
qed

text \<open>
  The loop of \<open>initrafs_path_lookup\<close>. The checks on the current node's own
  pointers repeat those of \<open>initrafs_namespace_find\<close>.
\<close>

function path_lookup_loop ::
  "fs_store \<Rightarrow> initrafs_namespace_t \<Rightarrow> string \<Rightarrow> nat \<Rightarrow> nat \<Rightarrow> u32 \<Rightarrow> string \<Rightarrow> u32 option" where
  "path_lookup_loop st ns path position depth current_inode component =
     (case initrafs_path_next_component (Some path) position component of
        (result, position, component) \<Rightarrow>
          if result = 0 then Some current_inode
          else if result < 0 then None
          else
            case initrafs_namespace_find st (Some ns) current_inode of
              None \<Rightarrow> None
            | Some index \<Rightarrow>
                   let current_node = the (ns_nodes ns) ! index;
                       entries = st_entries st (nn_entries current_node)
                   in if nn_inode current_node = NULL \<or> nn_disk_inode current_node = NULL \<or>
                         fi_type (st_inode st (nn_inode current_node)) \<noteq> INODE_TYPE_DIRECTORY \<or>
                         di_type (st_disk_inode st (nn_disk_inode current_node)) \<noteq> INITRAFS_TYPE_DIRECTORY \<or>
                         nn_entries current_node = NULL \<or> nn_entry_count current_node = 0
                      then None
                      else if cstr_at component 0 = CHR ''.'' \<and> cstr_at component 1 = nul
                      then path_lookup_loop st ns path position depth current_inode component
                      else if cstr_at component 0 = CHR ''.'' \<and> cstr_at component 1 = CHR ''.'' \<and>
                              cstr_at component 2 = nul
                      then
                        if depth = 0 then None
                        else
                          (case initrafs_directory_lookup (Some entries) (nn_entry_count current_node)
                                  (Some ''..'') True of
                             None \<Rightarrow> None
                           | Some next_inode \<Rightarrow>
                               path_lookup_loop st ns path position (depth - 1) next_inode component)
                      else
                        (case initrafs_directory_lookup (Some entries) (nn_entry_count current_node)
                                (Some component) True of
                           None \<Rightarrow> None
                         | Some next_inode \<Rightarrow>
                             path_lookup_loop st ns path position (Suc depth) next_inode component))"
  by pat_completeness auto
termination
  by (relation "measure (\<lambda>(st, ns, p, pos, dep, cur, c). length p - pos)")
     (auto dest!: next_component_progress [OF sym])

declare path_lookup_loop.simps [simp del]

definition initrafs_path_lookup ::
  "fs_store \<Rightarrow> initrafs_namespace_t option \<Rightarrow> string option \<Rightarrow> nonnull \<Rightarrow> u32 option" where
  "initrafs_path_lookup st namespace path inode_number =
     (case (namespace, path) of
        (Some ns, Some p) \<Rightarrow>
          if \<not> inode_number \<or> cstr_at p 0 = nul then None
          else path_lookup_loop st ns p 0 0 (ns_root_inode ns) []
      | _ \<Rightarrow> None)"

subsection \<open>Components\<close>

text \<open>The non-empty stretches between slashes.\<close>

function components :: "string \<Rightarrow> string list" where
  "components [] = []"
| "components (c # s) =
     (if c = slash then components s
      else (c # takeWhile (\<lambda>x. x \<noteq> slash) s) # components (dropWhile (\<lambda>x. x \<noteq> slash) s))"
  by pat_completeness auto
termination
  by (relation "measure length") (simp_all add: le_imp_less_Suc length_dropWhile_le)

lemma components_skip: "components (dropWhile (\<lambda>x. x = slash) s) = components s"
  by (induction s) simp_all

lemma components_split:
  "s \<noteq> [] \<Longrightarrow> hd s \<noteq> slash \<Longrightarrow>
   components s = takeWhile (\<lambda>x. x \<noteq> slash) s # components (dropWhile (\<lambda>x. x \<noteq> slash) s)"
  by (cases s) simp_all

lemma components_facts:
  "c \<in> set (components s) \<Longrightarrow> c \<noteq> [] \<and> slash \<notin> set c \<and> set c \<subseteq> set s"
proof (induction s arbitrary: c rule: components.induct)
  case (2 x s)
  have "set (takeWhile (\<lambda>x. x \<noteq> slash) s) \<subseteq> set s" "set (dropWhile (\<lambda>x. x \<noteq> slash) s) \<subseteq> set s"
    by (auto dest: set_takeWhileD set_dropWhileD)
  moreover have "slash \<notin> set (takeWhile (\<lambda>x. x \<noteq> slash) s)" by (auto dest: set_takeWhileD)
  ultimately show ?case using 2 by (auto split: if_splits)
qed simp

lemma cstr_at_nul_iff: "nul \<notin> set p \<Longrightarrow> cstr_at p k = nul \<longleftrightarrow> length p \<le> k"
  by (auto simp: cstr_at_def dest: nth_mem split: if_splits)

lemma cstr_at_end: "cstr_at p (length p) = nul"
  by (simp add: cstr_at_def)

lemma skip_slashes_drop:
  "pos \<le> length p \<Longrightarrow> drop (skip_slashes p pos) p = dropWhile (\<lambda>x. x = slash) (drop pos p) \<and>
     skip_slashes p pos \<le> length p"
proof (induction p pos rule: skip_slashes.induct)
  case (1 p pos)
  show ?case
  proof (cases "pos < length p")
    case True
    with 1 show ?thesis
      by (auto simp: skip_slashes.simps [of p pos] cstr_at_def Cons_nth_drop_Suc [symmetric])
  next
    case False
    with 1 have "pos = length p" by simp
    then show ?thesis by (simp add: skip_slashes.simps [of p "length p"] cstr_at_end)
  qed
qed

lemma component_loop_take:
  assumes "nul \<notin> set p" and "cur \<le> length p"
  defines "w \<equiv> takeWhile (\<lambda>x. x \<noteq> slash) (drop cur p)"
  shows "if length acc + length w \<le> 48
         then length acc \<le> 48 \<longrightarrow> component_loop p cur acc = Inr (cur + length w, acc @ w)
         else length acc \<le> 48 \<longrightarrow> (\<exists>c. component_loop p cur acc = Inl c)"
  using assms(1,2) unfolding w_def
proof (induction p cur acc rule: component_loop.induct)
  case (1 p cur acc)
  show ?case
  proof (cases "cur < length p \<and> p ! cur \<noteq> slash")
    case True
    then have c: "cstr_at p cur = p ! cur" "p ! cur \<noteq> nul"
      using 1(2) by (auto simp: cstr_at_def dest: nth_mem)
    with True 1 show ?thesis
      by (auto simp: component_loop.simps [of p cur acc] Cons_nth_drop_Suc [symmetric] split: if_splits)
  next
    case False
    have "takeWhile (\<lambda>x. x \<noteq> slash) (drop cur p) = []"
      using False by (cases "cur < length p") (auto simp: Cons_nth_drop_Suc [symmetric])
    moreover have "cstr_at p cur = nul \<or> cstr_at p cur = slash"
      using False by (auto simp: cstr_at_def)
    ultimately show ?thesis by (auto simp: component_loop.simps [of p cur acc])
  qed
qed

lemma next_component_components:
  assumes p: "nul \<notin> set p" and pos: "pos \<le> length p"
  shows "case components (drop pos p) of
           [] \<Rightarrow> \<exists>pos'. initrafs_path_next_component (Some p) pos c = (0, pos', c)
         | w # ws \<Rightarrow>
             if length w \<le> 48
             then \<exists>pos'. initrafs_path_next_component (Some p) pos c = (1, pos', w) \<and>
                         pos' \<le> length p \<and> components (drop pos' p) = ws
             else \<exists>pos' c'. initrafs_path_next_component (Some p) pos c = (-1, pos', c')"
proof -
  let ?k = "skip_slashes p pos"
  have k: "drop ?k p = dropWhile (\<lambda>x. x = slash) (drop pos p)" "?k \<le> length p"
    using skip_slashes_drop [OF pos] by simp_all
  have cs: "components (drop pos p) = components (drop ?k p)" by (simp add: k(1) components_skip)
  show ?thesis
  proof (cases "?k = length p")
    case True
    then show ?thesis unfolding cs
      by (simp add: initrafs_path_next_component_def cstr_at_end)
  next
    case False
    with k(2) have lt: "?k < length p" by simp
    then have ne: "cstr_at p ?k \<noteq> nul" using cstr_at_nul_iff [OF p] by simp
    have "hd (drop ?k p) \<noteq> slash" using lt skip_slashes_stop [of p pos] by (simp add: hd_drop_conv_nth cstr_at_nth)
    then have split: "components (drop ?k p) = takeWhile (\<lambda>x. x \<noteq> slash) (drop ?k p)
        # components (dropWhile (\<lambda>x. x \<noteq> slash) (drop ?k p))"
      using lt by (intro components_split) auto
    let ?w = "takeWhile (\<lambda>x. x \<noteq> slash) (drop ?k p)"
    have "drop (?k + length ?w) p = dropWhile (\<lambda>x. x \<noteq> slash) (drop ?k p)"
      by (metis add.commute drop_drop dropWhile_eq_drop)
    moreover have "?k + length ?w \<le> length p"
      using length_takeWhile_le [of "\<lambda>x. x \<noteq> slash" "drop ?k p"] lt by simp
    ultimately show ?thesis
      unfolding cs split using component_loop_take [OF p k(2), of "[]"] ne
      by (auto simp: initrafs_path_next_component_def Let_def split: if_splits)
  qed
qed

subsection \<open>Lookup as a walk over the components\<close>

text \<open>
  The tree the registered nodes span: for the inode number of a directory the
  map from names to inode numbers its entries stand for.
\<close>

definition node_is_dir :: "fs_store \<Rightarrow> initrafs_namespace_node_t \<Rightarrow> bool" where
  "node_is_dir st node \<longleftrightarrow> fi_type (st_inode st (nn_inode node)) = INODE_TYPE_DIRECTORY"

definition node_entries :: "fs_store \<Rightarrow> initrafs_namespace_node_t \<Rightarrow> initrafs_disk_dirent_t list" where
  "node_entries st node = st_entries st (nn_entries node)"

definition children :: "fs_store \<Rightarrow> initrafs_namespace_t \<Rightarrow> u32 \<Rightarrow> (string \<Rightarrow> u32 option) option" where
  "children st ns n =
     (case ns_map st ns n of
        None \<Rightarrow> None
      | Some node \<Rightarrow> if node_is_dir st node then Some (dir_map (node_entries st node)) else None)"

definition tree_ok :: "fs_store \<Rightarrow> initrafs_namespace_t \<Rightarrow> bool" where
  "tree_ok st ns \<longleftrightarrow>
     ns_ok st ns \<and>
     (\<forall>node \<in> set (live_nodes ns). node_is_dir st node \<longrightarrow>
        dir_ok (node_entries st node) \<and> unat (nn_entry_count node) = length (node_entries st node))"

text \<open>The walk: the depth below the root and the inode number it ends at.\<close>

fun walk :: "(u32 \<Rightarrow> (string \<Rightarrow> u32 option) option) \<Rightarrow> string list \<Rightarrow> nat \<Rightarrow> u32 \<Rightarrow> (nat \<times> u32) option" where
  "walk dirs [] depth cur = Some (depth, cur)"
| "walk dirs (c # cs) depth cur =
     (case dirs cur of
        None \<Rightarrow> None
      | Some names \<Rightarrow>
          if c = ''.'' then walk dirs cs depth cur
          else if c = ''..''
          then (if depth = 0 then None
                else case names ''..'' of None \<Rightarrow> None | Some n \<Rightarrow> walk dirs cs (depth - 1) n)
          else (case names c of None \<Rightarrow> None | Some n \<Rightarrow> walk dirs cs (Suc depth) n))"

lemma tree_okD:
  assumes "tree_ok st ns" and "ns_map st ns n = Some node"
  shows "node_ok st node" and "node_is_dir st node \<Longrightarrow> dir_ok (node_entries st node)"
    and "node_is_dir st node \<Longrightarrow> nn_entry_count node = of_nat (length (node_entries st node))"
proof -
  have ok: "ns_ok st ns" using assms(1) by (simp add: tree_ok_def)
  note N = ns_map_Some [OF ok assms(2)]
  show "node_ok st node" by (rule N(3))
  show "node_is_dir st node \<Longrightarrow> dir_ok (node_entries st node)" using assms(1) N(1) by (simp add: tree_ok_def)
  show "nn_entry_count node = of_nat (length (node_entries st node))" if "node_is_dir st node"
  proof -
    have "unat (nn_entry_count node) = length (node_entries st node)"
      using assms(1) N(1) that by (simp add: tree_ok_def)
    then have "of_nat (unat (nn_entry_count node)) = (of_nat (length (node_entries st node)) :: u32)" by simp
    then show ?thesis by simp
  qed
qed

lemma node_checks:
  assumes "node_ok st node"
  shows "nn_inode node = NULL \<or> nn_disk_inode node = NULL \<or>
         fi_type (st_inode st (nn_inode node)) \<noteq> INODE_TYPE_DIRECTORY \<or>
         di_type (st_disk_inode st (nn_disk_inode node)) \<noteq> INITRAFS_TYPE_DIRECTORY \<or>
         nn_entries node = NULL \<or> nn_entry_count node = 0 \<longleftrightarrow> \<not> node_is_dir st node"
  using assms by (auto simp: node_ok_def node_is_dir_def)

lemma node_dir_lookup:
  assumes "tree_ok st ns" and "ns_map st ns n = Some node" and "node_is_dir st node" and "valid_name c"
  shows "initrafs_directory_lookup (Some (st_entries st (nn_entries node))) (nn_entry_count node) (Some c) True
           = dir_map (node_entries st node) c"
  using dir.lookup_contents [OF tree_okD(2) [OF assms(1-3)] assms(4)] tree_okD(3) [OF assms(1-3)]
  by (simp add: dir_lookup_def node_entries_def)

lemma component_is_dot:
  assumes "nul \<notin> set c"
  shows "cstr_at c 0 = CHR ''.'' \<and> cstr_at c 1 = nul \<longleftrightarrow> c = ''.''"
    and "cstr_at c 0 = CHR ''.'' \<and> cstr_at c 1 = CHR ''.'' \<and> cstr_at c 2 = nul \<longleftrightarrow> c = ''..''"
  using assms
  by (cases c; cases "tl c"; cases "tl (tl c)"; auto simp: cstr_at_def numeral_2_eq_2)+

lemma path_lookup_loop_walk:
  assumes tree: "tree_ok st ns" and p: "nul \<notin> set p"
    and "pos \<le> length p" and "components (drop pos p) = cs"
  shows "path_lookup_loop st ns p pos depth cur cb =
           (if \<exists>c \<in> set cs. 48 < length c then None
            else map_option snd (walk (children st ns) cs depth cur))"
  using assms(3,4)
proof (induction cs arbitrary: pos depth cur cb)
  case Nil
  then show ?case using next_component_components [OF p Nil.prems(1), of cb]
    by (auto simp: path_lookup_loop.simps [of st ns p pos])
next
  case (Cons c cs)
  note nc = next_component_components [OF p Cons.prems(1), of cb]
  show ?case
  proof (cases "length c \<le> 48")
    case False
    with nc Cons.prems(2) show ?thesis by (auto simp: path_lookup_loop.simps [of st ns p pos])
  next
    case True
    with nc Cons.prems(2) obtain pos' where n: "initrafs_path_next_component (Some p) pos cb = (1, pos', c)"
      and pos': "pos' \<le> length p" "components (drop pos' p) = cs" by auto
    note IH = Cons.IH [OF pos']
    have c: "nul \<notin> set c" "valid_name c"
      using components_facts [of c "drop pos p"] Cons.prems(2) p True set_drop_subset [of pos p]
      by (auto simp: valid_name_def)
    note dots = component_is_dot [OF c(1)]
    have ok: "ns_ok st ns" using tree by (simp add: tree_ok_def)
    show ?thesis
    proof (cases "ns_map st ns cur")
      case None
      then have "initrafs_namespace_find st (Some ns) cur = None" using find_None [OF ok] by simp
      with n None show ?thesis by (simp add: path_lookup_loop.simps [of st ns p pos] children_def)
    next
      case (Some node)
      then obtain i where i: "initrafs_namespace_find st (Some ns) cur = Some i" "the (ns_nodes ns) ! i = node"
        using find_spec [OF ok, of cur] by (auto split: option.splits)
      note chk = node_checks [OF tree_okD(1) [OF tree Some]]
      show ?thesis
      proof (cases "node_is_dir st node")
        case False
        with n i chk Some show ?thesis
          by (simp add: path_lookup_loop.simps [of st ns p pos] children_def Let_def)
      next
        case dir: True
        note lk = node_dir_lookup [OF tree Some dir]
        have step: "path_lookup_loop st ns p pos depth cur cb =
            (if c = ''.'' then path_lookup_loop st ns p pos' depth cur c
             else if c = ''..''
             then (if depth = 0 then None
                   else case dir_map (node_entries st node) ''..'' of None \<Rightarrow> None
                        | Some m \<Rightarrow> path_lookup_loop st ns p pos' (depth - 1) m c)
             else (case dir_map (node_entries st node) c of None \<Rightarrow> None
                   | Some m \<Rightarrow> path_lookup_loop st ns p pos' (Suc depth) m c))"
          using chk dir
          by (subst path_lookup_loop.simps)
             (simp add: n i Let_def dots lk [OF c(2)] lk [OF valid_dots(2)] del: One_nat_def)
        have ch: "children st ns cur = Some (dir_map (node_entries st node))"
          using Some dir by (simp add: children_def)
        from True show ?thesis unfolding step IH by (auto simp: ch split: option.splits)
      qed
    qed
  qed
qed

lemma path_lookup_walk:
  assumes "tree_ok st ns" and "nul \<notin> set p"
  shows "initrafs_path_lookup st (Some ns) (Some p) True =
           (if p = [] \<or> (\<exists>c \<in> set (components p). 48 < length c) then None
            else map_option snd (walk (children st ns) (components p) 0 (ns_root_inode ns)))"
  using path_lookup_loop_walk [OF assms, of 0 "components p"] cstr_at_nul_iff [OF assms(2), of 0]
  by (simp add: initrafs_path_lookup_def)

subsection \<open>Lexical normal form\<close>

lemma walk_append:
  "walk dirs (xs @ ys) depth cur =
     (case walk dirs xs depth cur of None \<Rightarrow> None | Some (d, n) \<Rightarrow> walk dirs ys d n)"
  by (induction xs arbitrary: depth cur) (auto split: option.splits)

text \<open>
  The normal form of a list of components: \<open>.\<close> is dropped, \<open>..\<close> cancels the
  name before it.
\<close>

definition normal_step :: "string \<Rightarrow> string list \<Rightarrow> string list" where
  "normal_step c ns = (if c = ''.'' then ns else if c = ''..'' then butlast ns else ns @ [c])"

definition normalise :: "string list \<Rightarrow> string list" where
  "normalise cs = fold normal_step cs []"

lemma normalise_snoc: "normalise (cs @ [c]) = normal_step c (normalise cs)"
  by (simp add: normalise_def)

lemma normalise_no_dots: "c \<in> set (normalise cs) \<Longrightarrow> c \<notin> {''.'', ''..''}"
proof (induction cs rule: rev_induct)
  case (snoc x cs)
  then show ?case by (auto simp: normalise_snoc normal_step_def dest: in_set_butlastD split: if_splits)
qed (simp add: normalise_def)

text \<open>Directories know their parents: the \<open>..\<close> of a child leads back.\<close>

definition parents_ok :: "(u32 \<Rightarrow> (string \<Rightarrow> u32 option) option) \<Rightarrow> bool" where
  "parents_ok dirs \<longleftrightarrow>
     (\<forall>d names s c names'. dirs d = Some names \<longrightarrow> names s = Some c \<longrightarrow> s \<notin> {''.'', ''..''} \<longrightarrow>
        dirs c = Some names' \<longrightarrow> names' ''..'' = Some d)"

lemma walk_normalise:
  assumes "parents_ok dirs" and "walk dirs cs 0 r = Some (d, n)"
  shows "walk dirs (normalise cs) 0 r = Some (d, n) \<and> length (normalise cs) = d"
  using assms(2)
proof (induction cs arbitrary: d n rule: rev_induct)
  case Nil
  then show ?case by (simp add: normalise_def)
next
  case (snoc c cs)
  then obtain d0 n0 where w: "walk dirs cs 0 r = Some (d0, n0)" and st: "walk dirs [c] d0 n0 = Some (d, n)"
    by (auto simp: walk_append split: option.splits)
  note IH = snoc.IH [OF w]
  show ?case
  proof (cases "c = ''..''")
    case False
    with IH st show ?thesis
      by (auto simp: normalise_snoc normal_step_def walk_append split: option.splits if_splits)
  next
    case True
    with st obtain names where n0: "dirs n0 = Some names" "names ''..'' = Some n" "d0 = Suc d"
      by (auto split: option.splits if_splits)
    with IH obtain xs x where xs: "normalise cs = xs @ [x]" "length xs = d"
      by (cases "normalise cs" rule: rev_cases) auto
    have x: "x \<notin> {''.'', ''..''}" using normalise_no_dots [of x cs] xs by simp
    from IH xs obtain d1 m where m: "walk dirs xs 0 r = Some (d1, m)" "walk dirs [x] d1 m = Some (Suc d, n0)"
      by (auto simp: walk_append n0 split: option.splits)
    with x obtain names1 where "dirs m = Some names1" "names1 x = Some n0" "d1 = d"
      by (auto split: option.splits if_splits)
    with assms(1) n0 x have "m = n" unfolding parents_ok_def by (metis option.inject)
    with m(1) \<open>d1 = d\<close> True xs show ?thesis by (simp add: normalise_snoc normal_step_def)
  qed
qed

text \<open>Without such knowledge: at every point, at least as many names as parents were passed.\<close>

definition names_in :: "string list \<Rightarrow> nat" where
  "names_in cs = length (filter (\<lambda>c. c \<notin> {''.'', ''..''}) cs)"

definition parents_in :: "string list \<Rightarrow> nat" where
  "parents_in cs = length (filter (\<lambda>c. c = ''..'') cs)"

lemma walk_depth:
  "walk dirs cs depth cur = Some (d, n) \<Longrightarrow> d + parents_in cs = depth + names_in cs"
proof (induction cs arbitrary: depth cur)
  case (Cons c cs)
  then show ?case by (auto simp: parents_in_def names_in_def split: option.splits if_splits)
qed (simp add: parents_in_def names_in_def)

lemma walk_prefix_depth:
  assumes "walk dirs cs 0 cur = Some r"
  shows "parents_in (take k cs) \<le> names_in (take k cs)"
proof -
  from assms have "walk dirs (take k cs @ drop k cs) 0 cur = Some r" by simp
  then obtain d n where "walk dirs (take k cs) 0 cur = Some (d, n)"
    unfolding walk_append by (auto split: option.splits)
  from walk_depth [OF this] show ?thesis by simp
qed

end
