(* ===== verification/Path_Remove.thy ===== *)
theory Path_Remove
  imports Paths
begin

section \<open>Removing directories by path\<close>

text \<open>
  \<open>initrafs_path_remove_directory\<close> of \<open>fs/initrafs.c\<close>, split at the points
  where it starts to change state: the checks up to the decision to remove, and
  the removal proper.
\<close>

subsection \<open>The source's function\<close>

text \<open>
  The loop that recovers the final path component: the index
  \<open>last_component\<close> points to. The loop after it only moves \<open>position\<close>, which is
  reset before its next use.
\<close>

function last_component_loop :: "string \<Rightarrow> nat \<Rightarrow> nat \<Rightarrow> nat" where
  "last_component_loop path position last_component =
     (if cstr_at path position \<noteq> nul
      then last_component_loop path (Suc position)
             (if cstr_at path position = slash then skip_slashes path (Suc position) else last_component)
      else last_component)"
  by pat_completeness auto
termination
  by (relation "measure (\<lambda>(p, pos, _). length p - pos)") (auto dest: cstr_at_neq_nul)

declare last_component_loop.simps [simp del]

text \<open>The loop that scans every component and keeps the final one.\<close>

function scan_components :: "string \<Rightarrow> nat \<Rightarrow> string \<Rightarrow> string" where
  "scan_components path position component =
     (case initrafs_path_next_component (Some path) position component of
        (result, position, component) \<Rightarrow>
          if result > 0 then scan_components path position component else component)"
  by pat_completeness auto
termination
  by (relation "measure (\<lambda>(p, pos, _). length p - pos)") (auto dest!: next_component_progress [OF sym])

declare scan_components.simps [simp del]

text \<open>
  The checks. The result is the child's inode number, its parent's node and the
  final component.
\<close>

definition path_remove_target ::
  "fs_store \<Rightarrow> initrafs_namespace_t \<Rightarrow> string
     \<Rightarrow> (u32 \<times> initrafs_namespace_node_t) option" where
  "path_remove_target st ns path =
     (case initrafs_path_lookup st (Some ns) (Some path) True of
        None \<Rightarrow> None
      | Some child_inode \<Rightarrow>
          if child_inode = ns_root_inode ns then None
          else
            (case initrafs_namespace_find st (Some ns) child_inode of
               None \<Rightarrow> None
             | Some child_index \<Rightarrow>
                 let child_node = the (ns_nodes ns) ! child_index;
                     child_entries = st_entries st (nn_entries child_node)
                 in if nn_inode child_node = NULL \<or> nn_disk_inode child_node = NULL \<or>
                       fi_type (st_inode st (nn_inode child_node)) \<noteq> INODE_TYPE_DIRECTORY \<or>
                       nn_entries child_node = NULL
                    then None
                    else if \<not> initrafs_directory_is_empty (Some child_entries) (nn_entry_count child_node)
                    then None
                    else
                      (case initrafs_directory_lookup (Some child_entries) (nn_entry_count child_node)
                              (Some ''..'') True of
                         None \<Rightarrow> None
                       | Some parent_inode \<Rightarrow>
                           (case initrafs_namespace_find st (Some ns) parent_inode of
                              None \<Rightarrow> None
                            | Some parent_index \<Rightarrow>
                                let parent_node = the (ns_nodes ns) ! parent_index
                                in if nn_inode parent_node = NULL \<or> nn_disk_inode parent_node = NULL \<or>
                                      nn_entries parent_node = NULL
                                   then None
                                   else Some (child_inode, parent_node)))))"

definition path_remove_component ::
  "fs_store \<Rightarrow> string \<Rightarrow> u32 \<Rightarrow> initrafs_namespace_node_t \<Rightarrow> string option" where
  "path_remove_component st path child_inode parent_node =
     (if cstr_at path (last_component_loop path 0 0) = nul then None
      else
        let component = scan_components path 0 []
        in if cstr_at component 0 = nul \<or>
              (cstr_at component 0 = CHR ''.'' \<and> cstr_at component 1 = nul) \<or>
              (cstr_at component 0 = CHR ''.'' \<and> cstr_at component 1 = CHR ''.'' \<and>
               cstr_at component 2 = nul)
           then None
           else if \<not> list_ex (\<lambda>e. de_inode_number e = child_inode \<and> de_type e = INITRAFS_TYPE_DIRECTORY)
                     (take (unat (nn_entry_count parent_node)) (st_entries st (nn_entries parent_node)))
           then None
           else Some component)"

text \<open>The removal of the parent's entry and of the child's link to its parent.\<close>

definition drop_link :: "u32 \<Rightarrow> u32" where
  "drop_link n = (if n > 0 then n - 1 else n)"

definition path_remove_unlink ::
  "fs_store \<Rightarrow> initrafs_namespace_node_t \<Rightarrow> string \<Rightarrow> fs_store option" where
  "path_remove_unlink st parent_node component =
     (case initrafs_directory_remove (Some (st_entries st (nn_entries parent_node)))
             (nn_entry_count parent_node) (Some component) of
        None \<Rightarrow> None
      | Some entries \<Rightarrow>
          let i = st_inode st (nn_inode parent_node);
              d = st_disk_inode st (nn_disk_inode parent_node)
          in Some (st\<lparr>st_entries := (st_entries st)(nn_entries parent_node := entries),
                      st_inode := (st_inode st)(nn_inode parent_node :=
                        i\<lparr>fi_link_count := drop_link (fi_link_count i)\<rparr>),
                      st_disk_inode := (st_disk_inode st)(nn_disk_inode parent_node :=
                        initrafs_inode_integrity_update
                          (d\<lparr>di_link_count := drop_link (di_link_count d)\<rparr>))\<rparr>))"

definition initrafs_path_remove_directory ::
  "fs_store \<Rightarrow> initrafs_namespace_t option \<Rightarrow> initrafs_inode_allocator_t option \<Rightarrow> string option
     \<Rightarrow> bool \<times> fs_store \<times> initrafs_namespace_t option \<times> initrafs_inode_allocator_t option" where
  "initrafs_path_remove_directory st namespace allocator path =
     (let fail = (False, st, namespace, allocator)
      in case (namespace, allocator, path) of
           (Some ns, Some a, Some p) \<Rightarrow>
             if cstr_at p 0 = nul then fail
             else
               (case path_remove_target st ns p of
                  None \<Rightarrow> fail
                | Some (child_inode, parent_node) \<Rightarrow>
                    (case path_remove_component st p child_inode parent_node of
                       None \<Rightarrow> fail
                     | Some component \<Rightarrow>
                         (case path_remove_unlink st parent_node component of
                            None \<Rightarrow> fail
                          | Some st' \<Rightarrow>
                              (case initrafs_namespace_unregister st' namespace child_inode of
                                 None \<Rightarrow> (False, st', namespace, allocator)
                               | Some ns' \<Rightarrow>
                                   let (freed, allocator') = initrafs_inode_free allocator child_inode
                                   in (freed, st', Some ns', allocator')))))
         | _ \<Rightarrow> fail)"

subsection \<open>The final component\<close>

lemma last_component_nul:
  assumes p: "nul \<notin> set p" and "pos \<le> length p"
  shows "cstr_at p (last_component_loop p pos start) = nul \<longleftrightarrow>
           (if slash \<in> set (drop pos p) then last p = slash else cstr_at p start = nul)"
  using assms(2)
proof (induction "length p - pos" arbitrary: pos start rule: less_induct)
  case less
  show ?case
  proof (cases "pos < length p")
    case False
    with less.prems have "pos = length p" by simp
    then show ?thesis by (simp add: last_component_loop.simps [of p "length p"] cstr_at_end)
  next
    case True
    then have ch: "cstr_at p pos = p ! pos" "cstr_at p pos \<noteq> nul"
      using cstr_at_nul_iff [OF p, of pos] by (simp_all add: cstr_at_nth)
    have dr: "drop pos p = p ! pos # drop (Suc pos) p" using True by (rule Cons_nth_drop_Suc [symmetric])
    let ?start = "if p ! pos = slash then skip_slashes p (Suc pos) else start"
    have IH: "cstr_at p (last_component_loop p (Suc pos) ?start) = nul \<longleftrightarrow>
        (if slash \<in> set (drop (Suc pos) p) then last p = slash else cstr_at p ?start = nul)"
      using True by (intro less.hyps) auto
    have "cstr_at p (skip_slashes p (Suc pos)) = nul \<longleftrightarrow> last p = slash"
      if s: "p ! pos = slash" "slash \<notin> set (drop (Suc pos) p)"
    proof (cases "Suc pos < length p")
      case True
      then have nth: "p ! Suc pos \<noteq> slash" using s(2) by (auto simp: Cons_nth_drop_Suc [symmetric])
      then have "skip_slashes p (Suc pos) = Suc pos"
        using True by (simp add: skip_slashes.simps [of p "Suc pos"] cstr_at_nth)
      moreover have "last p = last (drop (Suc pos) p)" using True by simp
      then have "last p \<noteq> slash" using s(2) True by (metis drop_eq_Nil last_in_set not_less)
      ultimately show ?thesis using True cstr_at_nul_iff [OF p, of "Suc pos"] by simp
    next
      case False
      with \<open>pos < length p\<close> have l: "Suc pos = length p" by simp
      then have "last p = slash" using s(1) by (metis diff_Suc_1 last_conv_nth length_0_conv nat.distinct(1))
      then show ?thesis using l by (simp add: skip_slashes.simps [of p "length p"] cstr_at_end)
    qed
    moreover have "last_component_loop p pos start = last_component_loop p (Suc pos) ?start"
      using ch by (subst last_component_loop.simps) simp
    ultimately show ?thesis using IH by (auto simp: dr)
  qed
qed

lemma scan_components_last:
  assumes p: "nul \<notin> set p" and "pos \<le> length p" and "components (drop pos p) = cs"
    and "\<forall>c \<in> set cs. length c \<le> 48"
  shows "scan_components p pos cb = (if cs = [] then cb else last cs)"
  using assms(2-4)
proof (induction cs arbitrary: pos cb)
  case Nil
  with next_component_components [OF p Nil.prems(1), of cb] show ?case
    by (auto simp: scan_components.simps [of p pos])
next
  case (Cons c cs)
  with next_component_components [OF p Cons.prems(1), of cb] obtain pos' where
    "initrafs_path_next_component (Some p) pos cb = (1, pos', c)" "pos' \<le> length p"
    "components (drop pos' p) = cs" by auto
  with Cons.IH [of pos' c] Cons.prems show ?case
    by (simp add: scan_components.simps [of p pos])
qed

subsection \<open>What the removal does to the tree\<close>

text \<open>
  A volume in good order: the registered nodes form a tree of directories that
  know their parents, no two directories share an entry array, and every
  registered inode number but the root's is in use in the allocator.
\<close>

definition dots :: "string set" where "dots = {''.'', ''..''}"

definition entries_distinct :: "fs_store \<Rightarrow> initrafs_namespace_t \<Rightarrow> bool" where
  "entries_distinct st ns \<longleftrightarrow> distinct (map nn_entries (filter (node_is_dir st) (live_nodes ns)))"

definition volume_ok :: "fs_store \<Rightarrow> initrafs_namespace_t \<Rightarrow> initrafs_inode_allocator_t \<Rightarrow> bool" where
  "volume_ok st ns a \<longleftrightarrow>
     tree_ok st ns \<and> parents_ok (children st ns) \<and> entries_distinct st ns \<and> inode_allocator_ok a \<and>
     (\<forall>n. ns_map st ns n \<noteq> None \<and> n \<noteq> ns_root_inode ns \<longrightarrow> n \<in> inode_units a - inode_free_set a)"

text \<open>The nodes keep their identity when only link counts and entry arrays change.\<close>

definition same_nodes :: "fs_store \<Rightarrow> fs_store \<Rightarrow> bool" where
  "same_nodes st st' \<longleftrightarrow>
     (\<forall>p. fi_inode_number (st_inode st' p) = fi_inode_number (st_inode st p) \<and>
          fi_type (st_inode st' p) = fi_type (st_inode st p) \<and>
          di_inode_number (st_disk_inode st' p) = di_inode_number (st_disk_inode st p) \<and>
          di_type (st_disk_inode st' p) = di_type (st_disk_inode st p))"

lemma same_nodes_views:
  assumes "same_nodes st st'"
  shows "node_number st' = node_number st" and "node_is_dir st' = node_is_dir st"
    and "node_ok st' = node_ok st" and "ns_map st' = ns_map st" and "ns_ok st' = ns_ok st"
    and "entries_distinct st' = entries_distinct st"
proof -
  show a: "node_number st' = node_number st" "node_is_dir st' = node_is_dir st"
    using assms by (auto simp: same_nodes_def node_number_def node_is_dir_def fun_eq_iff)
  show b: "node_ok st' = node_ok st"
    using assms a by (auto simp: same_nodes_def node_ok_def fun_eq_iff)
  show "ns_map st' = ns_map st" by (simp add: fun_eq_iff ns_map_def a)
  show "ns_ok st' = ns_ok st" by (simp add: fun_eq_iff ns_ok_def a b)
  show "entries_distinct st' = entries_distinct st" by (simp add: fun_eq_iff entries_distinct_def a)
qed

lemma distinct_entries_node:
  assumes "entries_distinct st ns" and "x \<in> set (live_nodes ns)" and "y \<in> set (live_nodes ns)"
    and "node_is_dir st x" and "node_is_dir st y" and "nn_entries x = nn_entries y"
  shows "x = y"
  using assms by (auto simp: entries_distinct_def distinct_map dest: inj_onD)

text \<open>Inodes of everything but directories stay exactly as they are.\<close>

definition files_kept :: "initrafs_namespace_t \<Rightarrow> fs_store \<Rightarrow> fs_store \<Rightarrow> bool" where
  "files_kept ns st st' \<longleftrightarrow>
     (\<forall>x \<in> set (live_nodes ns). \<not> node_is_dir st x \<longrightarrow>
        st_inode st' (nn_inode x) = st_inode st (nn_inode x) \<and>
        st_disk_inode st' (nn_disk_inode x) = st_disk_inode st (nn_disk_inode x))"

lemma unlink_effect:
  assumes tree: "tree_ok st ns" and ed: "entries_distinct st ns"
    and q: "ns_map st ns q = Some pn" "node_is_dir st pn"
    and c: "valid_name c" "c \<notin> dots" and b: "dir_map (node_entries st pn) c \<noteq> None"
  shows "\<exists>st'. path_remove_unlink st pn c = Some st' \<and> same_nodes st st' \<and> tree_ok st' ns \<and>
           children st' ns = (children st ns)(q \<mapsto> (dir_map (node_entries st pn))(c := None)) \<and>
           fi_link_count (st_inode st' (nn_inode pn)) = drop_link (fi_link_count (st_inode st (nn_inode pn))) \<and>
           initrafs_inode_integrity_verify (Some (st_disk_inode st' (nn_disk_inode pn))) \<and> files_kept ns st st'"
proof -
  have nsok: "ns_ok st ns" using tree by (simp add: tree_ok_def)
  note N = ns_map_Some [OF nsok q(1)] and T = tree_okD [OF tree q(1)]
  let ?es = "node_entries st pn"
  have dok: "dir_ok ?es" by (rule T(2) [OF q(2)])
  obtain es' where es': "dir_remove ?es c = Some es'"
    using dir.remove_defined [OF dok c(1)] c(2) b by (auto simp: dots_def)
  note R = dir.remove_contents [OF dok c(1) es'] dir.invar_remove [OF dok c(1) es']
  have len: "length es' = length ?es" using dir_remove_cases [OF dok c(1)] es' by auto
  define st' where "st' = (let i = st_inode st (nn_inode pn); d = st_disk_inode st (nn_disk_inode pn)
          in st\<lparr>st_entries := (st_entries st)(nn_entries pn := es'),
                      st_inode := (st_inode st)(nn_inode pn :=
                        i\<lparr>fi_link_count := drop_link (fi_link_count i)\<rparr>),
                      st_disk_inode := (st_disk_inode st)(nn_disk_inode pn :=
                        initrafs_inode_integrity_update
                          (d\<lparr>di_link_count := drop_link (di_link_count d)\<rparr>))\<rparr>)"
  have u: "path_remove_unlink st pn c = Some st'"
    using es' T(3) [OF q(2)]
    by (simp add: path_remove_unlink_def dir_remove_def node_entries_def st'_def Let_def)
  have sn: "same_nodes st st'" by (simp add: same_nodes_def st'_def Let_def)
  note S = same_nodes_views [OF sn]
  have ent: "node_entries st' x = (if x = pn then es' else node_entries st x)"
    if "x \<in> set (live_nodes ns)" "node_is_dir st x" for x
    using distinct_entries_node [OF ed that(1) N(1) that(2) q(2)]
    by (auto simp: node_entries_def st'_def Let_def)
  have tree': "tree_ok st' ns"
    using tree R(2) len ent by (auto simp: tree_ok_def S)
  have "children st' ns = (children st ns)(q \<mapsto> (dir_map ?es)(c := None))"
  proof (rule ext)
    fix n
    show "children st' ns n = ((children st ns)(q \<mapsto> (dir_map ?es)(c := None))) n"
    proof (cases "n = q")
      case True
      then show ?thesis using q ent [OF N(1) q(2)] R(1) by (simp add: children_def S)
    next
      case False
      show ?thesis
      proof (cases "ns_map st ns n")
        case None
        then show ?thesis using False by (simp add: children_def S)
      next
        case (Some x)
        note X = ns_map_Some [OF nsok Some]
        from False X(2) N(2) have "x \<noteq> pn" by blast
        then show ?thesis using Some False ent [OF X(1)] by (simp add: children_def S)
      qed
    qed
  qed
  moreover have "fi_link_count (st_inode st' (nn_inode pn)) = drop_link (fi_link_count (st_inode st (nn_inode pn)))"
    "initrafs_inode_integrity_verify (Some (st_disk_inode st' (nn_disk_inode pn)))"
    by (simp_all add: st'_def Let_def)
  moreover have "files_kept ns st st'"
    using live_same_inode [OF nsok _ N(1)] q(2) by (auto simp: files_kept_def st'_def Let_def)
  ultimately show ?thesis using u sn tree' by (intro exI [of _ st']) simp
qed

subsection \<open>When a directory can be removed\<close>

lemma volume_okD:
  assumes "volume_ok st ns a"
  shows "tree_ok st ns" and "ns_ok st ns" and "parents_ok (children st ns)" and "entries_distinct st ns"
    and "inode_allocator_ok a"
    and "ns_map st ns n \<noteq> None \<Longrightarrow> n \<noteq> ns_root_inode ns \<Longrightarrow> n \<in> inode_units a - inode_free_set a"
  using assms by (auto simp: volume_ok_def tree_ok_def)

lemma find_children:
  assumes "tree_ok st ns" and "children st ns n = Some m"
  shows "\<exists>i node. initrafs_namespace_find st (Some ns) n = Some i \<and> the (ns_nodes ns) ! i = node \<and>
           ns_map st ns n = Some node \<and> node_is_dir st node \<and> m = dir_map (node_entries st node)"
proof -
  have ok: "ns_ok st ns" using assms(1) by (simp add: tree_ok_def)
  from assms(2) obtain node where n: "ns_map st ns n = Some node" "node_is_dir st node"
    "m = dir_map (node_entries st node)" by (auto simp: children_def split: option.splits if_splits)
  with find_spec [OF ok, of n] show ?thesis by (auto split: option.splits)
qed

text \<open>
  The checks of the removal in terms of the tree. The parent is found through
  the \<open>..\<close> entry of the child.
\<close>

lemma remove_target_eq:
  assumes tree: "tree_ok st ns"
  shows "path_remove_target st ns p =
    (case initrafs_path_lookup st (Some ns) (Some p) True of
       None \<Rightarrow> None
     | Some n \<Rightarrow>
         if n = ns_root_inode ns then None
         else (case children st ns n of
                 None \<Rightarrow> None
               | Some m \<Rightarrow>
                   if \<not> dom m \<subseteq> dots then None
                   else (case m ''..'' of
                           None \<Rightarrow> None
                         | Some q \<Rightarrow>
                             (case ns_map st ns q of
                                None \<Rightarrow> None
                              | Some pn \<Rightarrow> if nn_entries pn = NULL then None else Some (n, pn)))))"
proof (cases "initrafs_path_lookup st (Some ns) (Some p) True")
  case (Some n)
  have ok: "ns_ok st ns" using tree by (simp add: tree_ok_def)
  show ?thesis
  proof (cases "children st ns n")
    case None
    then have "ns_map st ns n = None \<or> (\<exists>x. ns_map st ns n = Some x \<and> \<not> node_is_dir st x)"
      by (auto simp: children_def split: option.splits if_splits)
    with find_spec [OF ok, of n] None Some show ?thesis
      by (auto simp: path_remove_target_def node_is_dir_def Let_def split: option.splits)
  next
    case (Some m)
    then obtain i x where x: "initrafs_namespace_find st (Some ns) n = Some i" "the (ns_nodes ns) ! i = x"
      "ns_map st ns n = Some x" "node_is_dir st x" "m = dir_map (node_entries st x)"
      using find_children [OF tree] by blast
    note T = tree_okD [OF tree x(3)] and V = node_dir_lookup [OF tree x(3,4) valid_dots(2)]
    have nx: "nn_inode x \<noteq> NULL" "nn_disk_inode x \<noteq> NULL" "nn_entries x \<noteq> NULL" "fi_type (st_inode st (nn_inode x)) = 2"
      using T(1) x(4) by (auto simp: node_ok_def node_is_dir_def)
    have "2 \<le> unat (nn_entry_count x)"
      using T(1) x(4) by (simp add: node_ok_def node_is_dir_def word_less_nat_alt not_less)
    then have "2 \<le> length (node_entries st x)"
      using dir_okD(4) [OF T(2) [OF x(4)]] T(3) [OF x(4)] by simp
    then have em: "initrafs_directory_is_empty (Some (st_entries st (nn_entries x))) (nn_entry_count x) \<longleftrightarrow>
        dom m \<subseteq> dots"
      using directory_is_empty_map [OF T(2) [OF x(4)]] T(3) [OF x(4)] x(5)
      by (simp add: node_entries_def dots_def)
    have par: "(case initrafs_namespace_find st (Some ns) q of
                  None \<Rightarrow> None
                | Some k \<Rightarrow>
                    let pn = the (ns_nodes ns) ! k
                    in if nn_inode pn = NULL \<or> nn_disk_inode pn = NULL \<or> nn_entries pn = NULL
                       then None else Some (n, pn)) =
               (case ns_map st ns q of
                  None \<Rightarrow> None
                | Some pn \<Rightarrow> if nn_entries pn = NULL then None else Some (n, pn))" for q
    proof (cases "ns_map st ns q")
      case None
      then show ?thesis using find_None [OF ok, of q] by simp
    next
      case (Some pn)
      with find_spec [OF ok, of q] tree_okD(1) [OF tree Some] show ?thesis
        by (auto simp: node_ok_def split: option.splits)
    qed
    show ?thesis
      unfolding path_remove_target_def \<open>initrafs_path_lookup st (Some ns) (Some p) True = Some n\<close>
        option.case Some x(1,2) Let_def V em x(5) [symmetric] par [unfolded Let_def]
      using nx by (simp split: option.splits)
  qed
qed (simp add: path_remove_target_def)

definition removable ::
  "fs_store \<Rightarrow> initrafs_namespace_t \<Rightarrow> string \<Rightarrow> u32 \<Rightarrow> u32 \<Rightarrow> string \<Rightarrow> bool" where
  "removable st ns p n q c \<longleftrightarrow>
     last p \<noteq> slash \<and> (\<forall>x \<in> set (components p). length x \<le> 48) \<and>
     (\<exists>cs d names m pn. components p = cs @ [c] \<and> c \<notin> dots \<and>
        walk (children st ns) cs 0 (ns_root_inode ns) = Some (d, q) \<and>
        children st ns q = Some names \<and> names c = Some n \<and> n \<noteq> ns_root_inode ns \<and>
        children st ns n = Some m \<and> dom m \<subseteq> dots \<and>
        ns_map st ns q = Some pn \<and>
        (\<exists>e \<in> set (node_entries st pn). de_inode_number e = n \<and> de_type e = INITRAFS_TYPE_DIRECTORY))"

definition remove_plan ::
  "fs_store \<Rightarrow> initrafs_namespace_t \<Rightarrow> string \<Rightarrow> (u32 \<times> initrafs_namespace_node_t \<times> string) option" where
  "remove_plan st ns p =
     (case path_remove_target st ns p of
        None \<Rightarrow> None
      | Some (n, pn) \<Rightarrow> map_option (\<lambda>c. (n, pn, c)) (path_remove_component st p n pn))"

lemma remove_component_eq:
  assumes p: "nul \<notin> set p" "p \<noteq> []"
    and cs: "components p = cs @ [c]" "\<forall>x \<in> set (components p). length x \<le> 48"
  shows "path_remove_component st p n pn =
    (if last p \<noteq> slash \<and> c \<notin> dots \<and>
        (\<exists>e \<in> set (take (unat (nn_entry_count pn)) (st_entries st (nn_entries pn))).
           de_inode_number e = n \<and> de_type e = INITRAFS_TYPE_DIRECTORY)
     then Some c else None)"
proof -
  have c: "c \<noteq> []" "nul \<notin> set c" using components_facts [of c p] cs(1) p(1) by auto
  have l: "cstr_at p (last_component_loop p 0 0) = nul \<longleftrightarrow> last p = slash"
    using last_component_nul [OF p(1), of 0 0] cstr_at_nul_iff [OF p(1), of 0] p(2)
    by (auto dest: last_in_set)
  have s: "scan_components p 0 [] = c"
    using scan_components_last [OF p(1) _ _ cs(2), of 0 "[]"] cs(1) by simp
  have "cstr_at c 0 \<noteq> nul" using cstr_at_nul_iff [OF c(2), of 0] c(1) by simp
  then show ?thesis
    unfolding path_remove_component_def Let_def l s component_is_dot [OF c(2)] list_ex_iff
    by (simp add: dots_def)
qed

lemma dir_node_take:
  assumes "tree_ok st ns" and "ns_map st ns q = Some pn" and "node_is_dir st pn"
  shows "take (unat (nn_entry_count pn)) (st_entries st (nn_entries pn)) = node_entries st pn"
  using tree_okD(3) [OF assms] dir_okD(4) [OF tree_okD(2) [OF assms]] by (simp add: node_entries_def)

lemma remove_plan_iff:
  assumes vol: "volume_ok st ns a" and p: "nul \<notin> set p" "p \<noteq> []"
  shows "remove_plan st ns p = Some (n, pn, c) \<longleftrightarrow> (\<exists>q. removable st ns p n q c \<and> ns_map st ns q = Some pn)"
proof -
  note V = volume_okD [OF vol]
  let ?r = "ns_root_inode ns" and ?ch = "children st ns"
  note lk = path_lookup_walk [OF V(1) p(1)]
  show ?thesis
  proof
    assume plan: "remove_plan st ns p = Some (n, pn, c)"
    then have t: "path_remove_target st ns p = Some (n, pn)" and k: "path_remove_component st p n pn = Some c"
      by (auto simp: remove_plan_def split: option.splits)
    from t obtain m q where l: "initrafs_path_lookup st (Some ns) (Some p) True = Some n" "n \<noteq> ?r"
        "?ch n = Some m" "dom m \<subseteq> dots" "m ''..'' = Some q" "ns_map st ns q = Some pn"
      unfolding remove_target_eq [OF V(1)] by (auto split: option.splits if_splits)
    from l(1) obtain d where w: "walk ?ch (components p) 0 ?r = Some (d, n)"
      and len: "\<forall>x \<in> set (components p). length x \<le> 48"
      unfolding lk by (auto split: if_splits simp: not_less)
    with l(2) obtain cs c' where cs: "components p = cs @ [c']"
      by (cases "components p" rule: rev_cases) auto
    with w obtain d0 q' where w0: "walk ?ch cs 0 ?r = Some (d0, q')" and st: "walk ?ch [c'] d0 q' = Some (d, n)"
      by (auto simp: walk_append split: option.splits)
    note ce = remove_component_eq [OF p cs len, of st n pn]
    from k have c: "c' = c" "c \<notin> dots" "last p \<noteq> slash"
      and e: "\<exists>e \<in> set (take (unat (nn_entry_count pn)) (st_entries st (nn_entries pn))).
           de_inode_number e = n \<and> de_type e = INITRAFS_TYPE_DIRECTORY"
      unfolding ce by (simp_all split: if_splits)
    with st obtain names where names: "?ch q' = Some names" "names c = Some n"
      by (auto simp: dots_def split: option.splits if_splits)
    then have "m ''..'' = Some q'" using V(3) c(2) l(3) unfolding parents_ok_def dots_def by blast
    with l(5) have q: "q' = q" by simp
    then have "node_is_dir st pn" using names(1) l(6) by (auto simp: children_def split: if_splits)
    note tk = dir_node_take [OF V(1) l(6) this]
    show "\<exists>q. removable st ns p n q c \<and> ns_map st ns q = Some pn"
      unfolding removable_def using c cs len w0 names l e [unfolded tk] q by blast
  next
    assume "\<exists>q. removable st ns p n q c \<and> ns_map st ns q = Some pn"
    then obtain q where rq: "removable st ns p n q c" and q: "ns_map st ns q = Some pn" by blast
    from rq obtain cs d names m pn' where r: "last p \<noteq> slash" "\<forall>x \<in> set (components p). length x \<le> 48"
        "components p = cs @ [c]" "c \<notin> dots" "walk ?ch cs 0 ?r = Some (d, q)" "?ch q = Some names"
        "names c = Some n" "n \<noteq> ?r" "?ch n = Some m" "dom m \<subseteq> dots" "ns_map st ns q = Some pn'"
        "\<exists>e \<in> set (node_entries st pn'). de_inode_number e = n \<and> de_type e = INITRAFS_TYPE_DIRECTORY"
      unfolding removable_def by blast
    have pn': "pn' = pn" using q r(11) by simp
    note r = r [unfolded pn']
    have w: "walk ?ch (components p) 0 ?r = Some (Suc d, n)"
      using r(3-7) by (simp add: walk_append dots_def)
    have mq: "m ''..'' = Some q" using V(3) r(4,6,7,9) unfolding parents_ok_def dots_def by blast
    have "node_is_dir st pn" using r(6,11) by (auto simp: children_def split: if_splits)
    moreover from this have "nn_entries pn \<noteq> NULL"
      using tree_okD(1) [OF V(1) r(11)] by (auto simp: node_ok_def node_is_dir_def)
    moreover have "initrafs_path_lookup st (Some ns) (Some p) True = Some n"
      unfolding lk using w r(2) p(2) by auto
    ultimately show "remove_plan st ns p = Some (n, pn, c)"
      using r mq remove_component_eq [OF p r(3,2)] dir_node_take [OF V(1) r(11)]
      by (simp add: remove_plan_def remove_target_eq [OF V(1)])
  qed
qed

lemma parents_ok_remove:
  assumes "parents_ok dirs" and "dirs q = Some names" and "c \<noteq> ''..''"
  shows "parents_ok (dirs(q \<mapsto> names(c := None), n := None))"
  unfolding parents_ok_def
proof (intro allI impI)
  let ?dirs = "dirs(q \<mapsto> names(c := None), n := None)"
  fix d xs s k xs'
  assume a: "?dirs d = Some xs" "xs s = Some k" "s \<notin> {''.'', ''..''}" "?dirs k = Some xs'"
  from a(1,2) assms(2) obtain ys where "dirs d = Some ys" "ys s = Some k" by (auto split: if_splits)
  moreover from a(4) assms(2,3) obtain ys' where "dirs k = Some ys'" "xs' ''..'' = ys' ''..''"
    by (auto split: if_splits)
  ultimately show "xs' ''..'' = Some d" using assms(1) a(3) unfolding parents_ok_def by metis
qed

text \<open>
  The removal as a whole. When the path leads to an empty directory other than
  the root, linked from its parent under the path's last name, exactly that
  directory disappears: from its parent's entries, from the namespace and from
  the allocator. In every other case nothing changes at all.
\<close>

lemma remove_directory_removes:
  assumes vol: "volume_ok st ns a" and p: "nul \<notin> set p" "p \<noteq> []" and r: "removable st ns p n q c"
  shows "\<exists>st' ns' a' names. children st ns q = Some names \<and>
     initrafs_path_remove_directory st (Some ns) (Some a) (Some p) = (True, st', Some ns', Some a') \<and>
     same_nodes st st' \<and> files_kept ns st st' \<and> volume_ok st' ns' a' \<and>
     set (live_nodes ns') \<subseteq> set (live_nodes ns) \<and>
     ns_map st' ns' = (ns_map st ns)(n := None) \<and> ns_root_inode ns' = ns_root_inode ns \<and>
     children st' ns' = (children st ns)(q \<mapsto> names(c := None), n := None) \<and>
     inode_free_set a' = insert n (inode_free_set a) \<and> inode_units a' = inode_units a"
proof -
  note V = volume_okD [OF vol]
  from r obtain pn where pn: "ns_map st ns q = Some pn" by (auto simp: removable_def)
  with r have plan: "remove_plan st ns p = Some (n, pn, c)" using remove_plan_iff [OF vol p] by blast
  from r pn obtain names m where t: "children st ns q = Some names" "names c = Some n" "c \<notin> dots"
      "n \<noteq> ns_root_inode ns" "children st ns n = Some m" "length c \<le> 48" "c \<in> set (components p)"
    unfolding removable_def by auto
  have c: "valid_name c"
    using components_facts [OF t(7)] t(6) p(1) by (auto simp: valid_name_def)
  from t(1) pn have dir: "node_is_dir st pn" "names = dir_map (node_entries st pn)"
    by (auto simp: children_def split: if_splits)
  obtain st' where u: "path_remove_unlink st pn c = Some st'" "same_nodes st st'" "tree_ok st' ns"
      "children st' ns = (children st ns)(q \<mapsto> names(c := None))" "files_kept ns st st'"
    using unlink_effect [OF V(1,4) pn dir(1) c t(3)] t(2) dir(2) by auto
  note S = same_nodes_views [OF u(2)]
  obtain x where x: "ns_map st ns n = Some x" using t(5) by (auto simp: children_def split: option.splits)
  have n0: "n \<noteq> 0" using ns_map_Some [OF V(2) x] by (auto simp: node_ok_def)
  have ok': "ns_ok st' ns" using V(2) by (simp add: S)
  obtain ns' where ns': "initrafs_namespace_unregister st' (Some ns) n = Some ns'"
    using unregister_defined [OF ok', of n] n0 t(4) x by (auto simp: S)
  note U = unregister_effect [OF ok' ns']
  have al: "n \<in> inode_units a - inode_free_set a" using V(6) [of n] x t(4) by simp
  obtain b a' where g: "inode_give a n = (b, a')" by fastforce
  note G = inode_alloc.give_ok [OF V(5) al g] inode_alloc.invar_give [OF V(5) g]
  have "initrafs_path_remove_directory st (Some ns) (Some a) (Some p) = (True, st', Some ns', Some a')"
    using plan u(1) ns' g G(1) cstr_at_nul_iff [OF p(1), of 0] p(2)
    by (auto simp: initrafs_path_remove_directory_def remove_plan_def inode_free_give split: option.splits)
  moreover have tree: "tree_ok st' ns'" using u(3) U(1,2) by (auto simp: tree_ok_def)
  moreover have ch: "children st' ns' = (children st ns)(q \<mapsto> names(c := None), n := None)"
  proof -
    have "children st' ns' = (children st' ns)(n := None)" by (auto simp: fun_eq_iff children_def U(3))
    then show ?thesis by (simp add: u(4))
  qed
  moreover have ed: "entries_distinct st' ns'"
  proof -
    have "filter (node_is_dir st') (live_nodes ns') =
        filter (\<lambda>x. node_number st x \<noteq> n) (filter (node_is_dir st) (live_nodes ns))"
      unfolding U(2) S filter_filter by (rule filter_cong) auto
    then show ?thesis using V(4) unfolding entries_distinct_def by (simp only: distinct_map_filter)
  qed
  moreover have nm: "ns_map st' ns' = (ns_map st ns)(n := None)" using U(3) by (simp add: S)
  moreover have "parents_ok (children st' ns')"
    unfolding ch by (rule parents_ok_remove [OF V(3) t(1)]) (use t(3) in \<open>simp add: dots_def\<close>)
  then have "volume_ok st' ns' a'"
    using tree ed G V(6) by (auto simp: volume_ok_def nm U(4))
  moreover have "set (live_nodes ns') \<subseteq> set (live_nodes ns)" using U(2) by auto
  ultimately show ?thesis using t(1) u(2,5) U(4) G by blast
qed

lemma remove_directory_refuses:
  assumes vol: "volume_ok st ns a" and p: "nul \<notin> set p" and r: "p = [] \<or> (\<nexists>n q c. removable st ns p n q c)"
  shows "initrafs_path_remove_directory st (Some ns) (Some a) (Some p) = (False, st, Some ns, Some a)"
proof (cases "p = []")
  case True
  then show ?thesis by (simp add: initrafs_path_remove_directory_def Let_def)
next
  case False
  with r have "remove_plan st ns p = None" using remove_plan_iff [OF vol p False]
    by (metis not_Some_eq prod.exhaust)
  then show ?thesis using cstr_at_nul_iff [OF p, of 0] False
    by (auto simp: initrafs_path_remove_directory_def remove_plan_def Let_def split: option.splits)
qed

end
