(* ===== verification/Instance.thy ===== *)
theory Instance
  imports Path_Remove File_Content
begin

section \<open>Runtime instances\<close>

text \<open>
  \<open>initrafs_instance_init\<close> and \<open>initrafs_instance_unmount\<close> of
  \<open>fs/initrafs.c\<close>, over the state all file-system objects live in: the store of
  inodes and directory entries, the block devices and the instances, each by
  address.

  The members of \<open>initrafs_instance_t\<close> that other objects point to are found
  where they are pointed to from: \<open>superblock\<close>, \<open>block_bitmap\<close> and
  \<open>inode_bitmap\<close> in the allocators, \<open>namespace_nodes\<close> in the namespace, and
  \<open>root_inode\<close>, \<open>root_disk_inode\<close> and \<open>root_entries\<close> in the store, at the
  addresses \<open>in_root_inode\<close>, \<open>in_root_disk_inode\<close> and \<open>in_root_entries\<close> of those
  members, which never change.
\<close>

definition INITRAFS_INSTANCE_MAX_BLOCKS :: u32 where [simp]: "INITRAFS_INSTANCE_MAX_BLOCKS = 32768"
definition INITRAFS_INSTANCE_BLOCK_BITMAP_BYTES :: u32 where
  [simp]: "INITRAFS_INSTANCE_BLOCK_BITMAP_BYTES = 4096"
definition INITRAFS_INSTANCE_INODE_BITMAP_BYTES :: u32 where
  [simp]: "INITRAFS_INSTANCE_INODE_BITMAP_BYTES = 16"
definition INITRAFS_INSTANCE_DIRECTORY_ENTRIES :: u32 where
  [simp]: "INITRAFS_INSTANCE_DIRECTORY_ENTRIES = 8"

record initrafs_instance_t =
  in_root_inode :: ptr
  in_root_disk_inode :: ptr
  in_root_entries :: ptr
  in_device :: ptr
  in_block_allocator :: initrafs_block_allocator_t
  in_inode_allocator :: initrafs_inode_allocator_t
  in_namespace :: initrafs_namespace_t
  in_mounted :: u32

record 'd fs_world =
  fw_store :: fs_store
  fw_device :: "ptr \<Rightarrow> 'd block_device"
  fw_instance :: "ptr \<Rightarrow> initrafs_instance_t"

definition zero_superblock :: initrafs_superblock_t where
  [layout]: "zero_superblock =
     \<lparr>sb_magic = 0, sb_version = 0, sb_block_size = 0, sb_total_blocks = 0, sb_inode_count = 0,
      sb_free_block_count = 0, sb_inode_table_start = 0, sb_inode_table_blocks = 0,
      sb_data_start = 0, sb_root_inode = 0, sb_filesystem_flags = 0\<rparr>"

definition zero_block_allocator :: initrafs_block_allocator_t where
  [layout]: "zero_block_allocator =
     \<lparr>ba_bitmap = None, ba_bitmap_bytes = 0, ba_total_blocks = 0, ba_first_data_block = 0,
      ba_free_blocks = 0, ba_superblock = None\<rparr>"

definition zero_inode_allocator :: initrafs_inode_allocator_t where
  [layout]: "zero_inode_allocator =
     \<lparr>ia_bitmap = None, ia_bitmap_bytes = 0, ia_total_inodes = 0, ia_first_allocatable_inode = 0,
      ia_free_inodes = 0, ia_superblock = None\<rparr>"

definition zero_namespace :: initrafs_namespace_t where
  [layout]: "zero_namespace =
     \<lparr>ns_nodes = None, ns_node_count = 0, ns_node_capacity = 0, ns_root_inode = 0\<rparr>"

subsection \<open>The source's functions\<close>

text \<open>\<open>initrafs_zero_bytes\<close> over a whole instance: its own fields and its members in the store.\<close>

definition zero_instance_bytes :: "'d fs_world \<Rightarrow> ptr \<Rightarrow> 'd fs_world" where
  "zero_instance_bytes w instance =
     (let i = fw_instance w instance
      in w\<lparr>fw_instance := (fw_instance w)(instance :=
               i\<lparr>in_device := NULL, in_block_allocator := zero_block_allocator,
                 in_inode_allocator := zero_inode_allocator, in_namespace := zero_namespace,
                 in_mounted := 0\<rparr>),
           fw_store := (fw_store w)
             \<lparr>st_inode := (st_inode (fw_store w))(in_root_inode i := zero_fs_inode),
              st_disk_inode := (st_disk_inode (fw_store w))(in_root_disk_inode i := zero_disk_inode),
              st_entries := (st_entries (fw_store w))(in_root_entries i :=
                replicate (unat INITRAFS_INSTANCE_DIRECTORY_ENTRIES) zero_dirent)\<rparr>\<rparr>)"

text \<open>
  The objects of a fresh instance, in the order the code makes them; \<open>None\<close> is
  the return value 0 of one of the calls. After the checks of the device only
  the first call can fail, on a device of at most 24 blocks, before it has
  written anything (\<open>instance_objects_small\<close>, \<open>instance_objects_fresh\<close>), so a
  failure leaves the zeroed instance.
\<close>

definition instance_objects ::
  "u32 \<Rightarrow> (initrafs_block_allocator_t \<times> initrafs_inode_allocator_t \<times> initrafs_disk_inode_t
           \<times> initrafs_disk_dirent_t list \<times> fs_inode) option" where
  "instance_objects block_count =
     (case initrafs_superblock_init (Some zero_superblock) block_count of
        None \<Rightarrow> None
      | Some superblock \<Rightarrow>
     (case initrafs_block_allocator_init (Some zero_block_allocator) (Some superblock)
             (Some (replicate (unat INITRAFS_INSTANCE_BLOCK_BITMAP_BYTES) 0))
             INITRAFS_INSTANCE_BLOCK_BITMAP_BYTES of
        None \<Rightarrow> None
      | Some block_allocator \<Rightarrow>
     (case initrafs_inode_allocator_init (Some zero_inode_allocator) (ba_superblock block_allocator)
             (Some (replicate (unat INITRAFS_INSTANCE_INODE_BITMAP_BYTES) 0))
             INITRAFS_INSTANCE_INODE_BITMAP_BYTES of
        None \<Rightarrow> None
      | Some inode_allocator \<Rightarrow>
     (case initrafs_root_inode_init (Some zero_disk_inode) (ba_superblock block_allocator) of
        None \<Rightarrow> None
      | Some root_disk_inode \<Rightarrow>
     (case initrafs_root_directory_init
             (Some (replicate (unat INITRAFS_INSTANCE_DIRECTORY_ENTRIES) zero_dirent))
             INITRAFS_INSTANCE_DIRECTORY_ENTRIES of
        None \<Rightarrow> None
      | Some root_entries \<Rightarrow>
     (case initrafs_inode_init (Some zero_fs_inode) INITRAFS_ROOT_INODE INODE_TYPE_DIRECTORY
             INITRAFS_ROOT_MODE of
        None \<Rightarrow> None
      | Some root_inode \<Rightarrow>
          Some (block_allocator, inode_allocator, root_disk_inode, root_entries,
            root_inode\<lparr>fi_size := di_size root_disk_inode, fi_flags := di_flags root_disk_inode,
              fi_link_count := di_link_count root_disk_inode\<rparr>)))))))"

definition store_root ::
  "fs_store \<Rightarrow> initrafs_instance_t \<Rightarrow> fs_inode \<Rightarrow> initrafs_disk_inode_t \<Rightarrow> initrafs_disk_dirent_t list
     \<Rightarrow> fs_store" where
  "store_root st i root_inode root_disk_inode root_entries =
     st\<lparr>st_inode := (st_inode st)(in_root_inode i := root_inode),
        st_disk_inode := (st_disk_inode st)(in_root_disk_inode i := root_disk_inode),
        st_entries := (st_entries st)(in_root_entries i := root_entries)\<rparr>"

definition initrafs_instance_init :: "'d fs_world \<Rightarrow> ptr \<Rightarrow> ptr \<Rightarrow> bool \<times> 'd fs_world" where
  "initrafs_instance_init w instance device =
     (if instance = NULL \<or> device = NULL \<or>
         bd_block_size (fw_device w device) \<noteq> INITRAFS_BLOCK_SIZE \<or>
         bd_block_count (fw_device w device) = 0 \<or>
         bd_block_count (fw_device w device) > INITRAFS_INSTANCE_MAX_BLOCKS
      then (False, w)
      else
        let w = zero_instance_bytes w instance; i = fw_instance w instance
        in case instance_objects (bd_block_count (fw_device w device)) of
             None \<Rightarrow> (False, w)
           | Some (block_allocator, inode_allocator, root_disk_inode, root_entries, root_inode) \<Rightarrow>
               let st = store_root (fw_store w) i root_inode root_disk_inode root_entries;
                   i = i\<lparr>in_block_allocator := block_allocator, in_inode_allocator := inode_allocator\<rparr>;
                   w = w\<lparr>fw_store := st\<rparr>
               in case initrafs_namespace_init (Some (in_namespace i))
                         (Some (replicate (unat INITRAFS_DEFAULT_INODE_COUNT) zero_node))
                         INITRAFS_DEFAULT_INODE_COUNT INITRAFS_ROOT_INODE of
                    None \<Rightarrow> (False, w\<lparr>fw_instance := (fw_instance w)(instance := i)\<rparr>)
                  | Some ns \<Rightarrow>
                      (case initrafs_namespace_register st (Some ns) (in_root_inode i)
                              (in_root_disk_inode i) (in_root_entries i)
                              INITRAFS_INSTANCE_DIRECTORY_ENTRIES of
                         None \<Rightarrow>
                           (False, w\<lparr>fw_instance := (fw_instance w)(instance := i\<lparr>in_namespace := ns\<rparr>)\<rparr>)
                       | Some ns' \<Rightarrow>
                           (True, w\<lparr>fw_instance := (fw_instance w)(instance :=
                              i\<lparr>in_namespace := ns', in_device := device, in_mounted := 1\<rparr>)\<rparr>)))"

definition initrafs_instance_unmount :: "'d fs_world \<Rightarrow> ptr \<Rightarrow> bool \<times> 'd fs_world" where
  "initrafs_instance_unmount w instance =
     (if instance = NULL \<or> in_mounted (fw_instance w instance) = 0 then (False, w)
      else (True, zero_instance_bytes w instance))"

subsection \<open>A fresh instance is in good order\<close>

lemma instance_objects_small: "n \<le> 24 \<Longrightarrow> instance_objects n = None"
  by (simp add: instance_objects_def superblock_init_eq)

lemma instance_objects_fresh:
  assumes n: "24 < n" "n \<le> 32768"
  shows "\<exists>ba ia d i. instance_objects n = Some (ba, ia, d, fresh_directory 1 1 6, i) \<and>
     block_allocator_ok ba \<and> block_free_set ba = {b. 24 < b \<and> b < n} \<and> block_units ba = {b. 24 < b \<and> b < n} \<and>
     inode_allocator_ok ia \<and> inode_free_set ia = inode_units ia \<and>
     fi_inode_number i = 1 \<and> fi_type i = 2 \<and> fi_mode i = INITRAFS_ROOT_MODE \<and> fi_owner i = 0 \<and> fi_group i = 0 \<and>
     fi_flags i = 1 \<and> fi_link_count i = 2 \<and>
     di_inode_number d = 1 \<and> di_type d = 2 \<and> initrafs_inode_integrity_verify (Some d)"
proof -
  have un: "unat n \<le> 32768" using n(2) by (simp add: word_le_nat_alt)
  define sb where "sb = the (initrafs_superblock_init (Some zero_superblock) n)"
  have sb: "initrafs_superblock_init (Some zero_superblock) n = Some sb" "sb_total_blocks sb = n"
    "sb_data_start sb = 24" "sb_inode_count sb = 128" "sb_root_inode sb = 1"
    using n(1) by (auto simp: sb_def superblock_init_eq not_le)
  have bb: "unat (initrafs_bitmap_bytes n) \<le> 4096" using unat_bitmap_bytes [of n] un by simp
  define ba where "ba = the (initrafs_block_allocator_init (Some zero_block_allocator) (Some sb)
      (Some (replicate 4096 0)) 4096)"
  have ba: "initrafs_block_allocator_init (Some zero_block_allocator) (Some sb) (Some (replicate 4096 0)) 4096
      = Some ba"
    using sb n(1) bb
    by (auto simp: ba_def initrafs_block_allocator_init_def Let_def not_le not_less word_le_nat_alt word_less_nat_alt)
  have B: "block_allocator_ok ba" "block_free_set ba = block_units ba" "ba_total_blocks ba = n"
      "ba_first_data_block ba = 24" "ba_superblock ba = Some (sb\<lparr>sb_free_block_count := ba_free_blocks ba\<rparr>)"
    using block_allocator_init_ok [OF ba] un sb by auto
  let ?sb = "sb\<lparr>sb_free_block_count := ba_free_blocks ba\<rparr>"
  define ia where "ia = the (initrafs_inode_allocator_init (Some zero_inode_allocator) (Some ?sb)
      (Some (replicate 16 0)) 16)"
  have ia: "initrafs_inode_allocator_init (Some zero_inode_allocator) (Some ?sb) (Some (replicate 16 0)) 16
      = Some ia"
    using sb by (simp add: ia_def initrafs_inode_allocator_init_def initrafs_inode_bitmap_bytes_def Let_def
        word_le_nat_alt word_less_nat_alt)
  have A: "inode_allocator_ok ia" "inode_free_set ia = inode_units ia"
    using inode_allocator_init_ok [OF ia] sb by simp_all
  have "\<exists>d. initrafs_root_inode_init (Some zero_disk_inode) (Some ?sb) = Some d \<and>
      di_inode_number d = 1 \<and> di_type d = 2 \<and> di_flags d = 1 \<and> di_link_count d = 2 \<and>
      initrafs_inode_integrity_verify (Some d)"
    using sb n(1) by (simp add: initrafs_root_inode_init_def not_le)
  then obtain d where d: "initrafs_root_inode_init (Some zero_disk_inode) (Some ?sb) = Some d"
      "di_inode_number d = 1" "di_type d = 2" "di_flags d = 1" "di_link_count d = 2"
      "initrafs_inode_integrity_verify (Some d)" by blast
  have es: "initrafs_root_directory_init (Some (replicate 8 zero_dirent)) 8 = Some (fresh_directory 1 1 6)"
    by (subst directory_init_eq) (simp_all add: fresh_directory_def word_less_nat_alt)
  obtain i where i: "initrafs_inode_init (Some zero_fs_inode) 1 2 INITRAFS_ROOT_MODE = Some i"
    using inode_init_Some [of 1 2 zero_fs_inode INITRAFS_ROOT_MODE] by auto
  note I = inode_init_fields [OF i]
  have "instance_objects n = Some (ba, ia, d, fresh_directory 1 1 6,
      i\<lparr>fi_size := di_size d, fi_flags := di_flags d, fi_link_count := di_link_count d\<rparr>)"
    using sb(1) ba ia d(1) es i B(5) by (simp add: instance_objects_def)
  with B A d I show ?thesis by (auto simp: block_units_def)
qed

text \<open>
  A mounted instance in good order: the namespace and the inode allocator fit
  together, every registered file is in good order on the instance's device,
  and no two files share a block.
\<close>

definition node_file ::
  "fs_store \<Rightarrow> initrafs_namespace_node_t \<Rightarrow> fs_inode \<times> initrafs_disk_inode_t" where
  "node_file st node = (st_inode st (nn_inode node), st_disk_inode st (nn_disk_inode node))"

definition node_is_file :: "fs_store \<Rightarrow> initrafs_namespace_node_t \<Rightarrow> bool" where
  "node_is_file st node \<longleftrightarrow> fi_type (st_inode st (nn_inode node)) = INODE_TYPE_FILE"

definition files_ok :: "fs_store \<Rightarrow> initrafs_namespace_t \<Rightarrow> u32 \<Rightarrow> initrafs_block_allocator_t \<Rightarrow> bool" where
  "files_ok st ns count a \<longleftrightarrow>
     block_allocator_ok a \<and> (\<forall>b \<in> block_units a. b < count) \<and>
     (\<forall>x \<in> set (live_nodes ns). node_is_file st x \<longrightarrow>
        file_ok count a (fst (node_file st x)) (snd (node_file st x))) \<and>
     (\<forall>x \<in> set (live_nodes ns). \<forall>y \<in> set (live_nodes ns).
        node_is_file st x \<and> node_is_file st y \<and> x \<noteq> y \<longrightarrow>
        ran (block_map (snd (node_file st x))) \<inter> ran (block_map (snd (node_file st y))) = {})"

definition instance_ok :: "'d fs_world \<Rightarrow> ptr \<Rightarrow> bool" where
  "instance_ok w p \<longleftrightarrow>
     (let i = fw_instance w p in
        p \<noteq> NULL \<and> in_mounted i \<noteq> 0 \<and> in_device i \<noteq> NULL \<and>
        volume_ok (fw_store w) (in_namespace i) (in_inode_allocator i) \<and>
        files_ok (fw_store w) (in_namespace i) (bd_block_count (fw_device w (in_device i)))
          (in_block_allocator i))"

text \<open>A namespace whose only node is a fresh root directory.\<close>

definition root_only :: "fs_store \<Rightarrow> initrafs_namespace_t \<Rightarrow> initrafs_namespace_node_t \<Rightarrow> bool" where
  "root_only st ns node \<longleftrightarrow>
     ns_ok st ns \<and> live_nodes ns = [node] \<and> ns_root_inode ns = 1 \<and> node_number st node = 1 \<and>
     node_is_dir st node \<and> node_entries st node = fresh_directory 1 1 6 \<and> nn_entry_count node = 8"

lemma root_only_tree:
  assumes "root_only st ns node"
  shows "tree_ok st ns" and "ns_map st ns = [1 \<mapsto> node]"
    and "children st ns = [1 \<mapsto> [''.'' \<mapsto> 1, ''..'' \<mapsto> 1]]" and "parents_ok (children st ns)"
    and "entries_distinct st ns"
proof -
  note r = assms [unfolded root_only_def]
  have f: "dir_ok (fresh_directory 1 1 6)" "dir_map (fresh_directory 1 1 6) = [''.'' \<mapsto> 1, ''..'' \<mapsto> 1]"
    by (rule fresh_directory_facts; simp)+
  show "tree_ok st ns" using r f(1) by (simp add: tree_ok_def) (simp add: fresh_directory_def)
  show m: "ns_map st ns = [1 \<mapsto> node]" using r by (simp add: ns_map_def)
  show c: "children st ns = [1 \<mapsto> [''.'' \<mapsto> 1, ''..'' \<mapsto> 1]]"
    using r f(2) by (auto simp: fun_eq_iff children_def m)
  show "parents_ok (children st ns)" unfolding c parents_ok_def by (auto split: if_splits)
  show "entries_distinct st ns" using r by (simp add: entries_distinct_def)
qed

lemma register_root:
  assumes "i \<noteq> NULL" "d \<noteq> NULL" "e \<noteq> NULL"
    and "fi_inode_number (st_inode st i) = 1" "fi_type (st_inode st i) = 2"
    and "di_inode_number (st_disk_inode st d) = 1" "di_type (st_disk_inode st d) = 2"
    and "st_entries st e = fresh_directory 1 1 6"
  shows "\<exists>ns ns'. initrafs_namespace_init (Some ns0) (Some (replicate 128 zero_node)) 128 1 = Some ns \<and>
     initrafs_namespace_register st (Some ns) i d e 8 = Some ns' \<and>
     root_only st ns' \<lparr>nn_inode = i, nn_disk_inode = d, nn_entries = e, nn_entry_count = 8\<rparr>"
proof -
  let ?node = "\<lparr>nn_inode = i, nn_disk_inode = d, nn_entries = e, nn_entry_count = 8\<rparr>"
  obtain ns where ns: "initrafs_namespace_init (Some ns0) (Some (replicate 128 zero_node)) 128 1 = Some ns"
    by (simp add: initrafs_namespace_init_def Let_def)
  note N = namespace_init_ok [OF ns, of st, simplified]
  then have ok: "ns_ok st ns" by simp
  have nd: "node_ok st ?node" "node_number st ?node = 1"
    using assms by (auto simp: node_ok_def node_number_def word_less_nat_alt)
  obtain ns' where ns': "initrafs_namespace_register st (Some ns) i d e 8 = Some ns'"
    using N nd by (simp add: register_spec [OF ok])
  from register_effect [OF ok ns'] N nd assms have "root_only st ns' ?node"
    by (simp add: root_only_def node_is_dir_def node_entries_def)
  with ns ns' show ?thesis by blast
qed

lemma initrafs_instance_init_ok:
  assumes "p \<noteq> NULL" and "dev \<noteq> NULL"
    and addr: "in_root_inode (fw_instance w p) \<noteq> NULL" "in_root_disk_inode (fw_instance w p) \<noteq> NULL"
      "in_root_entries (fw_instance w p) \<noteq> NULL"
    and geom: "bd_block_size (fw_device w dev) = 512" "24 < bd_block_count (fw_device w dev)"
      "bd_block_count (fw_device w dev) \<le> 32768"
  shows "\<exists>w'. initrafs_instance_init w p dev = (True, w') \<and> instance_ok w' p \<and>
     in_device (fw_instance w' p) = dev \<and> fw_device w' = fw_device w \<and>
     ns_root_inode (in_namespace (fw_instance w' p)) = 1 \<and>
     children (fw_store w') (in_namespace (fw_instance w' p)) = [1 \<mapsto> [''.'' \<mapsto> 1, ''..'' \<mapsto> 1]] \<and>
     live_nodes (in_namespace (fw_instance w' p)) =
       [\<lparr>nn_inode = in_root_inode (fw_instance w p), nn_disk_inode = in_root_disk_inode (fw_instance w p),
         nn_entries = in_root_entries (fw_instance w p), nn_entry_count = 8\<rparr>]"
proof -
  let ?w = "zero_instance_bytes w p" and ?i = "fw_instance w p"
  let ?n = "bd_block_count (fw_device w dev)"
  have z: "fw_device ?w = fw_device w" "in_root_inode (fw_instance ?w p) = in_root_inode ?i"
    "in_root_disk_inode (fw_instance ?w p) = in_root_disk_inode ?i"
    "in_root_entries (fw_instance ?w p) = in_root_entries ?i"
    by (simp_all add: zero_instance_bytes_def Let_def)
  obtain ba ia d i where ob: "instance_objects ?n = Some (ba, ia, d, fresh_directory 1 1 6, i)"
    and B: "block_allocator_ok ba" "block_units ba = {b. 24 < b \<and> b < ?n}"
    and A: "inode_allocator_ok ia"
    and I: "fi_inode_number i = 1" "fi_type i = 2" "di_inode_number d = 1" "di_type d = 2"
    using instance_objects_fresh [OF geom(2,3)] by blast
  define st where "st = store_root (fw_store ?w) (fw_instance ?w p) i d (fresh_directory 1 1 6)"
  let ?node = "\<lparr>nn_inode = in_root_inode ?i, nn_disk_inode = in_root_disk_inode ?i,
      nn_entries = in_root_entries ?i, nn_entry_count = 8\<rparr>"
  have S: "fi_inode_number (st_inode st (in_root_inode ?i)) = 1" "fi_type (st_inode st (in_root_inode ?i)) = 2"
    "di_inode_number (st_disk_inode st (in_root_disk_inode ?i)) = 1"
    "di_type (st_disk_inode st (in_root_disk_inode ?i)) = 2"
    "st_entries st (in_root_entries ?i) = fresh_directory 1 1 6"
    using I by (simp_all add: st_def store_root_def z)
  obtain ns ns' where ns: "initrafs_namespace_init (Some (in_namespace (fw_instance ?w p)))
        (Some (replicate 128 zero_node)) 128 1 = Some ns"
      "initrafs_namespace_register st (Some ns) (in_root_inode ?i) (in_root_disk_inode ?i) (in_root_entries ?i) 8
        = Some ns'"
      and root: "root_only st ns' ?node"
    using register_root [OF addr S, of "in_namespace (fw_instance ?w p)"] by blast
  define i' where "i' = (fw_instance ?w p)\<lparr>in_block_allocator := ba, in_inode_allocator := ia,
      in_namespace := ns', in_device := dev, in_mounted := 1\<rparr>"
  define w' where "w' = ?w\<lparr>fw_store := st, fw_instance := (fw_instance ?w)(p := i')\<rparr>"
  have n0: "?n \<noteq> 0" using geom(2) by auto
  have "initrafs_instance_init w p dev = (True, w')"
    using assms(1,2) geom n0 ob ns
    by (simp add: initrafs_instance_init_def z Let_def st_def w'_def i'_def not_less)
  moreover note T = root_only_tree [OF root]
  have "volume_ok st ns' ia"
    using T A root by (simp add: volume_ok_def root_only_def)
  moreover have "files_ok st ns' ?n ba"
    using B root by (auto simp: files_ok_def root_only_def node_is_file_def node_is_dir_def)
  ultimately show ?thesis
    using T(3) root assms(1,2) by (simp add: w'_def i'_def instance_ok_def z root_only_def)
qed


end
