(* ===== verification/Vfs_Adapter.thy ===== *)
theory Vfs_Adapter
  imports Vfs Instance
begin

section \<open>InitraFS as a file system of the VFS\<close>

text \<open>
  The functions of \<open>fs/initrafs.c\<close> that \<open>initrafs_vfs_init\<close> puts into a
  \<open>filesystem_t\<close>, over the world of instances, devices and stored objects.

  The \<open>filesystem\<close> argument of each function is represented by the only field
  it reads, \<open>private_data\<close>; the NULL test on the argument itself cannot fail
  here because the VFS passes the file system it found the function in.
  \<open>identity\<close> is what \<open>vfs_get_caller_identity\<close> reports.
\<close>

type_synonym 'd world = "'d fs_world"

definition initrafs_vfs_instance :: "ptr \<Rightarrow> ptr option" where
  "initrafs_vfs_instance private_data = (if private_data = NULL then None else Some private_data)"

definition device_at :: "'d world \<Rightarrow> ptr \<Rightarrow> 'd block_device option" where
  "device_at w p = (if p = NULL then None else Some (fw_device w p))"

definition initrafs_vfs_mount :: "'d world \<Rightarrow> ptr \<Rightarrow> ptr \<Rightarrow> bool \<times> 'd world" where
  "initrafs_vfs_mount w private_data device =
     (case initrafs_vfs_instance private_data of
        None \<Rightarrow> (False, w)
      | Some instance \<Rightarrow>
          if device = NULL \<or> in_mounted (fw_instance w instance) \<noteq> 0 then (False, w)
          else initrafs_instance_init w instance device)"

definition initrafs_vfs_unmount :: "'d world \<Rightarrow> ptr \<Rightarrow> bool \<times> 'd world" where
  "initrafs_vfs_unmount w private_data =
     (case initrafs_vfs_instance private_data of
        None \<Rightarrow> (False, w)
      | Some instance \<Rightarrow> initrafs_instance_unmount w instance)"

definition initrafs_vfs_lookup :: "'d world \<Rightarrow> ptr \<Rightarrow> string \<Rightarrow> ptr option" where
  "initrafs_vfs_lookup w private_data path =
     (case initrafs_vfs_instance private_data of
        None \<Rightarrow> None
      | Some p \<Rightarrow>
          let i = fw_instance w p; ns = in_namespace i
          in if in_mounted i = 0 then None
             else case initrafs_path_lookup (fw_store w) (Some ns) (Some path) True of
                    None \<Rightarrow> None
                  | Some inode_number \<Rightarrow>
                      (case initrafs_namespace_find (fw_store w) (Some ns) inode_number of
                         None \<Rightarrow> None
                       | Some index \<Rightarrow>
                           let node = the (ns_nodes ns) ! index
                           in if nn_inode node = NULL then None else Some (nn_inode node)))"

text \<open>
  How read and write find the node of an open inode: the node registered under
  the inode's number, if it is this very inode and has an on-disk inode.
\<close>

definition file_node :: "'d world \<Rightarrow> ptr \<Rightarrow> ptr \<Rightarrow> initrafs_namespace_node_t option" where
  "file_node w private_data inode =
     (case initrafs_vfs_instance private_data of
        None \<Rightarrow> None
      | Some p \<Rightarrow>
          let i = fw_instance w p; ns = in_namespace i
          in if in_mounted i = 0 \<or> inode = NULL then None
             else case initrafs_namespace_find (fw_store w) (Some ns)
                         (fi_inode_number (st_inode (fw_store w) inode)) of
                    None \<Rightarrow> None
                  | Some index \<Rightarrow>
                      let node = the (ns_nodes ns) ! index
                      in if nn_inode node \<noteq> inode \<or> nn_disk_inode node = NULL then None else Some node)"

definition initrafs_vfs_read ::
  "'d world \<Rightarrow> identity \<Rightarrow> ptr \<Rightarrow> ptr \<Rightarrow> u32 \<Rightarrow> u8 list \<Rightarrow> u32 \<Rightarrow> int \<times> u8 list" where
  "initrafs_vfs_read w caller private_data inode offset buffer size_arg =
     (case file_node w private_data inode of
        None \<Rightarrow> (-1, buffer)
      | Some node \<Rightarrow>
          if \<not> initrafs_inode_check_permission (Some (st_inode (fw_store w) (nn_inode node)))
                 (fst caller) (snd caller) INITRAFS_PERMISSION_READ
          then (-1, buffer)
          else
            let (result, buf) =
              initrafs_file_read (Some (st_inode (fw_store w) (nn_inode node)))
                (Some (st_disk_inode (fw_store w) (nn_disk_inode node)))
                (device_at w (in_device (fw_instance w private_data))) offset (Some buffer) size_arg
            in (result, the buf))"

text \<open>The objects \<open>initrafs_file_write\<close> changed, put back at their addresses.\<close>

definition put_file ::
  "'d world \<Rightarrow> ptr \<Rightarrow> initrafs_namespace_node_t \<Rightarrow> fs_inode \<Rightarrow> initrafs_disk_inode_t
     \<Rightarrow> initrafs_block_allocator_t \<Rightarrow> 'd block_device option \<Rightarrow> 'd world" where
  "put_file w p node i d a v =
     w\<lparr>fw_store := (fw_store w)\<lparr>st_inode := (st_inode (fw_store w))(nn_inode node := i),
                                st_disk_inode := (st_disk_inode (fw_store w))(nn_disk_inode node := d)\<rparr>,
       fw_instance := (fw_instance w)(p := (fw_instance w p)\<lparr>in_block_allocator := a\<rparr>),
       fw_device := (case v of
                       None \<Rightarrow> fw_device w
                     | Some dev \<Rightarrow> (fw_device w)(in_device (fw_instance w p) := dev))\<rparr>"

definition initrafs_vfs_write ::
  "'d world \<Rightarrow> identity \<Rightarrow> ptr \<Rightarrow> ptr \<Rightarrow> u32 \<Rightarrow> u8 list \<Rightarrow> u32 \<Rightarrow> int \<times> 'd world" where
  "initrafs_vfs_write w caller private_data inode offset buffer size_arg =
     (case file_node w private_data inode of
        None \<Rightarrow> (-1, w)
      | Some node \<Rightarrow>
          if \<not> initrafs_inode_check_permission (Some (st_inode (fw_store w) (nn_inode node)))
                 (fst caller) (snd caller) INITRAFS_PERMISSION_WRITE
          then (-1, w)
          else
            let i = fw_instance w private_data;
                (result, inode', disk_inode', allocator', device') =
                  initrafs_file_write (Some (st_inode (fw_store w) (nn_inode node)))
                    (Some (st_disk_inode (fw_store w) (nn_disk_inode node)))
                    (Some (in_block_allocator i)) (device_at w (in_device i)) offset (Some buffer) size_arg
            in (result, put_file w private_data node (the inode') (the disk_inode') (the allocator') device'))"

definition initrafs_vfs_readdir ::
  "'d world \<Rightarrow> ptr \<Rightarrow> string \<Rightarrow> initrafs_disk_dirent_t list \<Rightarrow> u32 \<Rightarrow> int \<times> initrafs_disk_dirent_t list" where
  "initrafs_vfs_readdir w private_data path entry entry_size =
     (if entry_size < sizeof_disk_dirent then (0, entry)
      else case initrafs_vfs_lookup w private_data path of
             None \<Rightarrow> (0, entry)
           | Some inode \<Rightarrow>
               if fi_type (st_inode (fw_store w) inode) \<noteq> INODE_TYPE_DIRECTORY then (0, entry)
               else case file_node w private_data inode of
                      None \<Rightarrow> (0, entry)
                    | Some node \<Rightarrow>
                        if nn_entries node = NULL \<or> nn_entry_count node = 0 then (0, entry)
                        else case initrafs_directory_list
                                    (Some (st_entries (fw_store w) (nn_entries node))) (nn_entry_count node)
                                    (Some entry) (entry_size div sizeof_disk_dirent) True of
                               None \<Rightarrow> (0, entry)
                             | Some (listed, entry') \<Rightarrow> (sint listed, entry'))"

text \<open>The checks of \<open>initrafs_vfs_rmdir\<close> before it removes anything.\<close>

definition rmdir_allowed :: "'d world \<Rightarrow> identity \<Rightarrow> ptr \<Rightarrow> string \<Rightarrow> bool" where
  "rmdir_allowed w caller private_data path =
     (case initrafs_vfs_lookup w private_data path of
        None \<Rightarrow> False
      | Some inode \<Rightarrow>
          if fi_flags (st_inode (fw_store w) inode) AND INITRAFS_INODE_FLAG_SYSTEM_PROTECTED \<noteq> 0 then False
          else case file_node w private_data inode of
                 None \<Rightarrow> False
               | Some node \<Rightarrow>
                   if nn_entries node = NULL then False
                   else case initrafs_directory_lookup (Some (st_entries (fw_store w) (nn_entries node)))
                               (nn_entry_count node) (Some ''..'') True of
                          None \<Rightarrow> False
                        | Some parent_inode \<Rightarrow>
                            let ns = in_namespace (fw_instance w private_data)
                            in case initrafs_namespace_find (fw_store w) (Some ns) parent_inode of
                                 None \<Rightarrow> False
                               | Some index \<Rightarrow>
                                   let parent_node = the (ns_nodes ns) ! index
                                   in nn_inode parent_node \<noteq> NULL \<and> nn_disk_inode parent_node \<noteq> NULL \<and>
                                      initrafs_inode_check_permission
                                        (Some (st_inode (fw_store w) (nn_inode parent_node)))
                                        (fst caller) (snd caller)
                                        (INITRAFS_PERMISSION_WRITE OR INITRAFS_PERMISSION_EXECUTE))"

definition initrafs_vfs_rmdir :: "'d world \<Rightarrow> identity \<Rightarrow> ptr \<Rightarrow> string \<Rightarrow> int \<times> 'd world" where
  "initrafs_vfs_rmdir w caller private_data path =
     (if \<not> rmdir_allowed w caller private_data path then (0, w)
      else
        let i = fw_instance w private_data;
            (ok, st, ns, a) = initrafs_path_remove_directory (fw_store w) (Some (in_namespace i))
                                (Some (in_inode_allocator i)) (Some path)
        in (if ok then 1 else 0,
            w\<lparr>fw_store := st,
              fw_instance := (fw_instance w)(private_data :=
                i\<lparr>in_namespace := the ns, in_inode_allocator := the a\<rparr>)\<rparr>))"

definition initrafs_vfs_init :: "nonnull \<Rightarrow> ptr \<Rightarrow> 'd world filesystem_t option" where
  "initrafs_vfs_init filesystem instance =
     (if \<not> filesystem \<or> instance = NULL then None
      else Some \<lparr>fs_name = Some ''initrafs'', fs_mount = Some initrafs_vfs_mount,
                 fs_unmount = Some initrafs_vfs_unmount, fs_lookup = Some initrafs_vfs_lookup,
                 fs_create = None, fs_remove = None, fs_read = Some initrafs_vfs_read,
                 fs_write = Some initrafs_vfs_write, fs_mkdir = None, fs_rmdir = Some initrafs_vfs_rmdir,
                 fs_readdir = Some initrafs_vfs_readdir, fs_private_data = instance\<rparr>)"

subsection \<open>Nodes of an instance in good order\<close>

text \<open>The objects of an instance, by name.\<close>

definition the_ns :: "'d world \<Rightarrow> ptr \<Rightarrow> initrafs_namespace_t" where
  "the_ns w p = in_namespace (fw_instance w p)"

definition the_dev :: "'d world \<Rightarrow> ptr \<Rightarrow> 'd block_device" where
  "the_dev w p = fw_device w (in_device (fw_instance w p))"

lemma instance_okD:
  assumes "instance_ok w p"
  shows "p \<noteq> NULL" and "in_mounted (fw_instance w p) \<noteq> 0" and "in_device (fw_instance w p) \<noteq> NULL"
    and "volume_ok (fw_store w) (the_ns w p) (in_inode_allocator (fw_instance w p))"
    and "files_ok (fw_store w) (the_ns w p) (bd_block_count (the_dev w p)) (in_block_allocator (fw_instance w p))"
    and "tree_ok (fw_store w) (the_ns w p)" and "ns_ok (fw_store w) (the_ns w p)"
  using assms volume_okD(1,2) by (auto simp: instance_ok_def the_ns_def the_dev_def Let_def)

lemma file_node_iff:
  assumes ok: "instance_ok w p"
  shows "file_node w p inode = Some node \<longleftrightarrow> node \<in> set (live_nodes (the_ns w p)) \<and> nn_inode node = inode"
proof -
  note I = instance_okD [OF ok]
  let ?st = "fw_store w" and ?ns = "the_ns w p"
  let ?m = "ns_map ?st ?ns (fi_inode_number (st_inode ?st inode))"
  have fn: "file_node w p inode =
      (if inode = NULL then None
       else case ?m of
              None \<Rightarrow> None
            | Some node \<Rightarrow> if nn_inode node \<noteq> inode \<or> nn_disk_inode node = NULL then None else Some node)"
    using I(1,2) by (simp add: file_node_def initrafs_vfs_instance_def the_ns_def
        find_node [OF I(7), unfolded the_ns_def, symmetric] Let_def split: option.splits)
  show ?thesis
  proof
    assume "file_node w p inode = Some node"
    then have "?m = Some node" "nn_inode node = inode" unfolding fn by (auto split: option.splits if_splits)
    then show "node \<in> set (live_nodes ?ns) \<and> nn_inode node = inode" using ns_map_Some(1) [OF I(7)] by blast
  next
    assume n: "node \<in> set (live_nodes ?ns) \<and> nn_inode node = inode"
    then have "?m = Some node" using ns_map_live [OF I(7), of node] by (simp add: node_number_def)
    moreover have "node_ok ?st node" using n I(7) by (simp add: ns_ok_def)
    ultimately show "file_node w p inode = Some node" using n unfolding fn by (simp add: node_ok_def)
  qed
qed

lemma vfs_lookup_walk:
  assumes ok: "instance_ok w p" and "nul \<notin> set path"
  shows "initrafs_vfs_lookup w p path =
     (if path = [] \<or> (\<exists>c \<in> set (components path). 48 < length c) then None
      else case walk (children (fw_store w) (the_ns w p)) (components path) 0 (ns_root_inode (the_ns w p)) of
             None \<Rightarrow> None
           | Some (d, n) \<Rightarrow> map_option nn_inode (ns_map (fw_store w) (the_ns w p) n))"
proof -
  note I = instance_okD [OF ok]
  have nz: "ns_map (fw_store w) (the_ns w p) n = Some node \<Longrightarrow> nn_inode node \<noteq> NULL" for n node
    using ns_map_Some(3) [OF I(7)] by (auto simp: node_ok_def)
  show ?thesis
    using I(1,2) path_lookup_walk [OF I(6) assms(2)] nz
    by (auto simp: initrafs_vfs_lookup_def initrafs_vfs_instance_def the_ns_def
        find_node [OF I(7), unfolded the_ns_def, symmetric] Let_def split: option.splits prod.splits)
qed

lemma vfs_lookup_node:
  assumes ok: "instance_ok w p" and l: "initrafs_vfs_lookup w p path = Some inode"
  shows "\<exists>node. node \<in> set (live_nodes (the_ns w p)) \<and> nn_inode node = inode"
proof -
  note I = instance_okD [OF ok]
  from l I(1,2) obtain n index where "initrafs_namespace_find (fw_store w) (Some (the_ns w p)) n = Some index"
      "nn_inode (the (ns_nodes (the_ns w p)) ! index) = inode"
    by (auto simp: initrafs_vfs_lookup_def initrafs_vfs_instance_def the_ns_def Let_def
        split: option.splits if_splits)
  with find_node [OF I(7), of n] ns_map_Some(1) [OF I(7), of n] show ?thesis by (metis option.simps(9))
qed


subsection \<open>Access control\<close>

text \<open>
  Whatever the state of the volume: an operation that returns anything but its
  error value, or changes anything, had the permission it needs.
\<close>

lemma file_node_inode: "file_node w p inode = Some node \<Longrightarrow> nn_inode node = inode"
  by (auto simp: file_node_def Let_def split: option.splits if_splits)

lemma vfs_read_permission:
  assumes "initrafs_vfs_read w caller p inode off buf n \<noteq> (-1, buf)"
  shows "initrafs_inode_check_permission (Some (st_inode (fw_store w) inode)) (fst caller) (snd caller)
           INITRAFS_PERMISSION_READ"
  using assms file_node_inode [of w p inode]
  by (auto simp: initrafs_vfs_read_def split: option.splits if_splits)

lemma vfs_write_permission:
  assumes "initrafs_vfs_write w caller p inode off buf n \<noteq> (-1, w)"
  shows "initrafs_inode_check_permission (Some (st_inode (fw_store w) inode)) (fst caller) (snd caller)
           INITRAFS_PERMISSION_WRITE"
  using assms file_node_inode [of w p inode]
  by (auto simp: initrafs_vfs_write_def split: option.splits if_splits)

lemma vfs_rmdir_permission:
  assumes "initrafs_vfs_rmdir w caller p path \<noteq> (0, w)"
  shows "rmdir_allowed w caller p path"
  using assms by (auto simp: initrafs_vfs_rmdir_def split: if_splits)

subsection \<open>Files as a map from inode numbers to contents\<close>

definition file_map ::
  "('d block_device \<Rightarrow> u32 \<Rightarrow> u8 list) \<Rightarrow> 'd world \<Rightarrow> ptr \<Rightarrow> u32 \<Rightarrow> u8 list option" where
  "file_map blocks w p m =
     (case ns_map (fw_store w) (the_ns w p) m of
        None \<Rightarrow> None
      | Some node \<Rightarrow>
          if node_is_file (fw_store w) node
          then Some (file_content (blocks (the_dev w p)) (st_disk_inode (fw_store w) (nn_disk_inode node)))
          else None)"

lemma files_okD:
  assumes "files_ok st ns count a" and "x \<in> set (live_nodes ns)" and "node_is_file st x"
  shows "file_ok count a (st_inode st (nn_inode x)) (st_disk_inode st (nn_disk_inode x))"
    and "\<lbrakk>y \<in> set (live_nodes ns); node_is_file st y; x \<noteq> y\<rbrakk> \<Longrightarrow>
      ran (block_map (st_disk_inode st (nn_disk_inode x))) \<inter> ran (block_map (st_disk_inode st (nn_disk_inode y))) = {}"
  using assms by (auto simp: files_ok_def node_file_def)

text \<open>Replacing the two inodes of one file by ones with the same number and type.\<close>

lemma put_file_same_nodes:
  assumes "fi_inode_number i = fi_inode_number (st_inode (fw_store w) (nn_inode node))"
    and "fi_type i = fi_type (st_inode (fw_store w) (nn_inode node))"
    and "di_inode_number d = di_inode_number (st_disk_inode (fw_store w) (nn_disk_inode node))"
    and "di_type d = di_type (st_disk_inode (fw_store w) (nn_disk_inode node))"
  shows "same_nodes (fw_store w) (fw_store (put_file w p node i d a v))"
  using assms by (simp add: same_nodes_def put_file_def)

lemma same_nodes_children:
  assumes "same_nodes st st'" and "st_entries st' = st_entries st"
  shows "children st' = children st" and "tree_ok st' = tree_ok st" and "node_is_file st' = node_is_file st"
    and "volume_ok st' ns ia = volume_ok st ns ia"
proof -
  note S = same_nodes_views [OF assms(1)]
  show c: "children st' = children st"
    by (auto simp: fun_eq_iff children_def S node_entries_def assms(2) split: option.split)
  show t: "tree_ok st' = tree_ok st" by (auto simp: fun_eq_iff tree_ok_def S node_entries_def assms(2))
  show "node_is_file st' = node_is_file st" using assms(1) by (auto simp: fun_eq_iff node_is_file_def same_nodes_def)
  show "volume_ok st' ns ia = volume_ok st ns ia" by (simp add: volume_ok_def c t S)
qed


text \<open>
  A write to one file, seen as an update of that map: the instance stays in good
  order and nothing but this file's contents changes. \<open>file_update\<close> collects
  what a write guarantees of the objects it produces.
\<close>

definition file_update ::
  "('d block_device \<Rightarrow> u32 \<Rightarrow> u8 list) \<Rightarrow> 'd world \<Rightarrow> ptr \<Rightarrow> initrafs_namespace_node_t \<Rightarrow> fs_inode
     \<Rightarrow> initrafs_disk_inode_t \<Rightarrow> initrafs_block_allocator_t \<Rightarrow> 'd block_device \<Rightarrow> bool" where
  "file_update blocks w p node i' d' a' v' \<longleftrightarrow>
     (let i = st_inode (fw_store w) (nn_inode node); d = st_disk_inode (fw_store w) (nn_disk_inode node);
          a = in_block_allocator (fw_instance w p); count = bd_block_count (the_dev w p)
      in node \<in> set (live_nodes (the_ns w p)) \<and> node_is_file (fw_store w) node \<and>
         file_ok count a' i' d' \<and> fi_inode_number i' = fi_inode_number i \<and>
         block_units a' = block_units a \<and> block_free_set a' \<subseteq> block_free_set a \<and>
         ran (block_map d') \<subseteq> ran (block_map d) \<union> block_free_set a \<and>
         bd_block_count v' = count \<and> untouched count d' (blocks (the_dev w p)) (blocks v'))"

lemma file_updateD:
  assumes "file_update blocks w p node i' d' a' v'"
  shows "node \<in> set (live_nodes (the_ns w p))" and "node_is_file (fw_store w) node"
    and "file_ok (bd_block_count (the_dev w p)) a' i' d'"
    and "fi_inode_number i' = fi_inode_number (st_inode (fw_store w) (nn_inode node))"
    and "block_units a' = block_units (in_block_allocator (fw_instance w p))"
    and "block_free_set a' \<subseteq> block_free_set (in_block_allocator (fw_instance w p))"
    and "ran (block_map d') \<subseteq> ran (block_map (st_disk_inode (fw_store w) (nn_disk_inode node)))
        \<union> block_free_set (in_block_allocator (fw_instance w p))"
    and "bd_block_count v' = bd_block_count (the_dev w p)"
    and "untouched (bd_block_count (the_dev w p)) d' (blocks (the_dev w p)) (blocks v')"
  using assms by (simp_all add: file_update_def Let_def)

lemma put_file_views [simp]:
  "the_dev (put_file w p node i d a (Some v)) p = v"
  "the_ns (put_file w p node i d a (Some v)) p = the_ns w p"
  "st_entries (fw_store (put_file w p node i d a v')) = st_entries (fw_store w)"
  "st_inode (fw_store (put_file w p node i d a v')) (nn_inode node) = i"
  "st_disk_inode (fw_store (put_file w p node i d a v')) (nn_disk_inode node) = d"
  "in_block_allocator (fw_instance (put_file w p node i d a v') p) = a"
  by (simp_all add: put_file_def the_dev_def the_ns_def)

lemma put_file_other:
  assumes "ns_ok (fw_store w) (the_ns w p)" and "node \<in> set (live_nodes (the_ns w p))"
    and "x \<in> set (live_nodes (the_ns w p))" and "x \<noteq> node"
  shows "st_inode (fw_store (put_file w p node i d a v)) (nn_inode x) = st_inode (fw_store w) (nn_inode x)"
    and "st_disk_inode (fw_store (put_file w p node i d a v)) (nn_disk_inode x) =
           st_disk_inode (fw_store w) (nn_disk_inode x)"
  using live_same_inode [OF assms(1,3,2)] assms(4) by (auto simp: put_file_def)

text \<open>Blocks of the updated file and of any other file stay apart.\<close>

lemma file_update_disjoint:
  assumes ok: "instance_ok w p" and u: "file_update blocks w p node i' d' a' v'"
    and x: "x \<in> set (live_nodes (the_ns w p))" "node_is_file (fw_store w) x" "x \<noteq> node"
  shows "ran (block_map d') \<inter> ran (block_map (st_disk_inode (fw_store w) (nn_disk_inode x))) = {}"
  using file_updateD(1,2,7) [OF u] x files_okD [OF instance_okD(5) [OF ok]] file_okD(8) by blast

lemma put_file_same:
  assumes ok: "instance_ok w p" and u: "file_update blocks w p node i' d' a' v'"
  shows "same_nodes (fw_store w) (fw_store (put_file w p node i' d' a' v))"
  using file_updateD(4) [OF u] file_okD(9) [OF file_updateD(3) [OF u]]
    file_okD(9) [OF files_okD(1) [OF instance_okD(5) [OF ok] file_updateD(1,2) [OF u]]]
  by (intro put_file_same_nodes) (simp_all add: initrafs_file_inode_pair_valid_def)

lemma put_file_files_ok:
  assumes ok: "instance_ok w p" and u: "file_update blocks w p node i' d' a' v'"
  shows "files_ok (fw_store (put_file w p node i' d' a' v)) (the_ns w p) (bd_block_count (the_dev w p)) a'"
proof -
  note I = instance_okD [OF ok] and U = file_updateD [OF u]
  let ?st = "fw_store w" and ?ns = "the_ns w p" and ?st' = "fw_store (put_file w p node i' d' a' v)"
    and ?c = "bd_block_count (the_dev w p)"
  note C = same_nodes_children [OF put_file_same [OF ok u] put_file_views(3)]
  note other = put_file_other [OF I(7) U(1), of _ i' d' a' v]
  note dis = file_update_disjoint [OF ok u]
  have fok: "file_ok ?c a' (st_inode ?st' (nn_inode x)) (st_disk_inode ?st' (nn_disk_inode x))"
    if "x \<in> set (live_nodes ?ns)" "node_is_file ?st x" for x
  proof (cases "x = node")
    case False
    from files_okD(1) [OF I(5) that] U(3,5,6) show ?thesis
      unfolding other [OF that(1) False] by (auto simp: file_ok_def)
  qed (simp add: U(3))
  have apart: "ran (block_map (st_disk_inode ?st' (nn_disk_inode x))) \<inter>
      ran (block_map (st_disk_inode ?st' (nn_disk_inode y))) = {}"
    if "x \<in> set (live_nodes ?ns)" "y \<in> set (live_nodes ?ns)"
      "node_is_file ?st x \<and> node_is_file ?st y \<and> x \<noteq> y" for x y
    using dis [OF that(1)] dis [OF that(2)] files_okD(2) [OF I(5) that(1) _ that(2)] that
      other(2) [OF that(1)] other(2) [OF that(2)]
    by (cases "x = node"; cases "y = node") (auto simp: Int_commute)
  show ?thesis
    unfolding files_ok_def C(3) node_file_def fst_conv snd_conv
    using file_okD(4,5) [OF U(3)] fok apart by blast
qed

lemma put_file_map:
  assumes ok: "instance_ok w p" and u: "file_update blocks w p node i' d' a' v'"
    and m: "ns_map (fw_store w) (the_ns w p) m = Some node"
  shows "file_map blocks (put_file w p node i' d' a' (Some v')) p =
           (file_map blocks w p)(m \<mapsto> file_content (blocks v') d')"
proof
  fix k
  note I = instance_okD [OF ok] and U = file_updateD [OF u]
  let ?st = "fw_store w" and ?ns = "the_ns w p"
  note C = same_nodes_children [OF put_file_same [OF ok u] put_file_views(3)]
    and S = same_nodes_views [OF put_file_same [OF ok u]]
  show "file_map blocks (put_file w p node i' d' a' (Some v')) p k =
      ((file_map blocks w p)(m \<mapsto> file_content (blocks v') d')) k"
  proof (cases "ns_map ?st ?ns k")
    case None
    then show ?thesis using m by (auto simp: file_map_def S)
  next
    case (Some x)
    note X = ns_map_Some [OF I(7) Some]
    show ?thesis
    proof (cases "k = m")
      case True
      then show ?thesis using m U(2) by (simp add: file_map_def S C)
    next
      case False
      then have x: "x \<noteq> node" using X(2) ns_map_Some(2) [OF I(7) m] by auto
      have "file_content (blocks v') (st_disk_inode ?st (nn_disk_inode x)) =
          file_content (blocks (the_dev w p)) (st_disk_inode ?st (nn_disk_inode x))" if "node_is_file ?st x"
        using untouched_content [OF U(9) file_okD(7) [OF files_okD(1) [OF I(5) X(1) that]]]
          file_update_disjoint [OF ok u X(1) that x] by blast
      then show ?thesis using False Some put_file_other(2) [OF I(7) U(1) X(1) x] by (simp add: file_map_def S C)
    qed
  qed
qed

lemma put_file_ok:
  assumes ok: "instance_ok w p" and u: "file_update blocks w p node i' d' a' v'"
  shows "instance_ok (put_file w p node i' d' a' (Some v')) p"
    and "children (fw_store (put_file w p node i' d' a' v)) = children (fw_store w)"
    and "ns_map (fw_store (put_file w p node i' d' a' v)) = ns_map (fw_store w)"
proof -
  note I = instance_okD [OF ok] and U = file_updateD [OF u]
  note C = same_nodes_children [OF put_file_same [OF ok u] put_file_views(3)]
    and S = same_nodes_views [OF put_file_same [OF ok u]]
  show "children (fw_store (put_file w p node i' d' a' v)) = children (fw_store w)"
    "ns_map (fw_store (put_file w p node i' d' a' v)) = ns_map (fw_store w)" by (rule C S)+
  let ?w' = "put_file w p node i' d' a' (Some v')"
  have "files_ok (fw_store ?w') (the_ns ?w' p) (bd_block_count (the_dev ?w' p))
      (in_block_allocator (fw_instance ?w' p))"
    using put_file_files_ok [OF ok u, of "Some v'"] U(8) by simp
  moreover have "volume_ok (fw_store ?w') (the_ns ?w' p) (in_inode_allocator (fw_instance ?w' p))"
    using I(4) C(4) by (simp add: put_file_def the_ns_def)
  ultimately show "instance_ok ?w' p"
    using I(1-3) unfolding instance_ok_def the_ns_def the_dev_def Let_def by (simp add: put_file_def)
qed

text \<open>Writing and reading through the adapter.\<close>

definition room_for :: "'d world \<Rightarrow> ptr \<Rightarrow> initrafs_namespace_node_t \<Rightarrow> u32 \<Rightarrow> u32 \<Rightarrow> bool" where
  "room_for w p node off n \<longleftrightarrow>
     card (missing (st_disk_inode (fw_store w) (nn_disk_inode node)) (set (write_range off n)))
       \<le> card (block_free_set (in_block_allocator (fw_instance w p)))"

context reliable_device
begin

lemma vfs_write_refines:
  assumes ok: "instance_ok w p" and dev: "dev_ok (the_dev w p)"
    and m: "ns_map (fw_store w) (the_ns w p) m = Some node" and c: "file_map contents w p m = Some bytes"
    and perm: "initrafs_inode_check_permission (Some (st_inode (fw_store w) (nn_inode node)))
                 (fst caller) (snd caller) INITRAFS_PERMISSION_WRITE"
    and n: "n \<noteq> 0" "unat off \<le> length bytes" "unat off + unat n \<le> 4096" "unat n \<le> length buf"
    and room: "room_for w p node off n"
  shows "\<exists>w' s. initrafs_vfs_write w caller p (nn_inode node) off buf n = (int (unat n), w') \<and>
     instance_ok w' p \<and> dev_ok (the_dev w' p) \<and> the_ns w' p = the_ns w p \<and>
     file_map contents w' p = (file_map contents w p)(m \<mapsto> blit bytes (unat off) (take (unat n) buf)) \<and>
     children (fw_store w') = children (fw_store w) \<and> ns_map (fw_store w') = ns_map (fw_store w) \<and>
     st_inode (fw_store w') = (st_inode (fw_store w))(nn_inode node := (st_inode (fw_store w) (nn_inode node))\<lparr>fi_size := s\<rparr>)"
proof -
  note I = instance_okD [OF ok] and N = ns_map_Some [OF instance_okD(7) [OF ok] m]
  let ?st = "fw_store w" and ?v = "the_dev w p" and ?a = "in_block_allocator (fw_instance w p)"
  let ?i = "st_inode ?st (nn_inode node)" and ?d = "st_disk_inode ?st (nn_disk_inode node)"
  from m c have isf: "node_is_file ?st node" and b: "bytes = file_content (contents ?v) ?d"
    by (auto simp: file_map_def split: if_splits)
  note F = files_okD(1) [OF I(5) N(1) isf] and W = usable [OF dev]
  obtain i' d' a' v' where fw: "file_write_blocks ?i ?d ?a ?v off buf n = (int (unat n), i', d', a', v')"
    and g: "file_ok (bd_block_count ?v) a' i' d'" "dev_ok v'" "bd_block_count v' = bd_block_count ?v"
      "block_free_set a' \<subseteq> block_free_set ?a" "ran (block_map d') \<subseteq> ran (block_map ?d) \<union> block_free_set ?a"
      "block_units a' = block_units ?a" "untouched (bd_block_count ?v) d' (contents ?v) (contents v')"
    and c': "file_content (contents v') d' = blit (file_content (contents ?v) ?d) (unat off) (take (unat n) buf)"
    using file_write_content [OF F dev n(1) _ n(3,4)] n(2) room b by (auto simp: room_for_def)
  obtain s where s: "i' = ?i\<lparr>fi_size := s\<rparr>" using file_write_blocks_inode [OF fw] by blast
  have u: "file_update contents w p node i' d' a' v'"
    using N(1) isf g s by (simp add: file_update_def)
  define w' where "w' = put_file w p node i' d' a' (Some v')"
  have "initrafs_vfs_write w caller p (nn_inode node) off buf n = (int (unat n), w')"
    using file_node_iff [OF ok, of "nn_inode node" node] N(1) perm I(3) n b fw
      file_write_checks [OF F, of ?v off buf n] W
    by (simp add: initrafs_vfs_write_def w'_def device_at_def the_dev_def [symmetric])
  moreover have "st_inode (fw_store w') = (st_inode ?st)(nn_inode node := ?i\<lparr>fi_size := s\<rparr>)"
    by (simp add: w'_def put_file_def s)
  ultimately show ?thesis
    using put_file_ok [OF ok u] put_file_map [OF ok u m] c' b g(2) by (auto simp: w'_def)
qed

lemma vfs_read_refines:
  assumes ok: "instance_ok w p" and dev: "dev_ok (the_dev w p)"
    and m: "ns_map (fw_store w) (the_ns w p) m = Some node" and c: "file_map contents w p m = Some bytes"
    and perm: "initrafs_inode_check_permission (Some (st_inode (fw_store w) (nn_inode node)))
                 (fst caller) (snd caller) INITRAFS_PERMISSION_READ"
    and n: "unat n \<le> length buf"
  shows "initrafs_vfs_read w caller p (nn_inode node) off buf n =
     (int (length (take (unat n) (drop (unat off) bytes))), blit buf 0 (take (unat n) (drop (unat off) bytes)))"
proof -
  note I = instance_okD [OF ok] and N = ns_map_Some [OF instance_okD(7) [OF ok] m]
  from m c have isf: "node_is_file (fw_store w) node"
    and b: "bytes = file_content (contents (the_dev w p)) (st_disk_inode (fw_store w) (nn_disk_inode node))"
    by (auto simp: file_map_def split: if_splits)
  note F = file_okD [OF files_okD(1) [OF I(5) N(1) isf]]
  show ?thesis
    using file_node_iff [OF ok, of "nn_inode node" node] N(1) perm I(3) b
      file_read_content [OF dev F(9,6,7) n]
    by (simp add: initrafs_vfs_read_def device_at_def the_dev_def [symmetric] Let_def)
qed

end

subsection \<open>Removing directories through the adapter\<close>

text \<open>
  The caller may remove the directory \<open>n\<close> from its parent \<open>q\<close>: the directory is
  not protected, and the parent grants write and execute.
\<close>

definition may_remove :: "'d world \<Rightarrow> identity \<Rightarrow> ptr \<Rightarrow> u32 \<Rightarrow> u32 \<Rightarrow> bool" where
  "may_remove w caller p n q \<longleftrightarrow>
     (\<exists>x y. ns_map (fw_store w) (the_ns w p) n = Some x \<and> ns_map (fw_store w) (the_ns w p) q = Some y \<and>
        fi_flags (st_inode (fw_store w) (nn_inode x)) AND INITRAFS_INODE_FLAG_SYSTEM_PROTECTED = 0 \<and>
        initrafs_inode_check_permission (Some (st_inode (fw_store w) (nn_inode y))) (fst caller) (snd caller)
          (INITRAFS_PERMISSION_WRITE OR INITRAFS_PERMISSION_EXECUTE))"

lemma removable_node:
  assumes vol: "volume_ok st ns a" and r: "removable st ns path n q c"
  shows "\<exists>x y. walk (children st ns) (components path) 0 (ns_root_inode ns) \<noteq> None \<and>
     snd (the (walk (children st ns) (components path) 0 (ns_root_inode ns))) = n \<and>
     ns_map st ns n = Some x \<and> node_is_dir st x \<and> ns_map st ns q = Some y \<and>
     initrafs_directory_lookup (Some (st_entries st (nn_entries x))) (nn_entry_count x) (Some ''..'') True = Some q"
proof -
  note V = volume_okD [OF vol]
  from r obtain cs d names m y where R: "components path = cs @ [c]" "c \<notin> dots"
      "walk (children st ns) cs 0 (ns_root_inode ns) = Some (d, q)" "children st ns q = Some names"
      "names c = Some n" "children st ns n = Some m" "ns_map st ns q = Some y"
    unfolding removable_def by blast
  then obtain x where x: "ns_map st ns n = Some x" "node_is_dir st x" "m = dir_map (node_entries st x)"
    using find_children [OF V(1) R(6)] by blast
  have "m ''..'' = Some q" using V(3) R(2,4,5,6) unfolding parents_ok_def dots_def by blast
  then have "initrafs_directory_lookup (Some (st_entries st (nn_entries x))) (nn_entry_count x) (Some ''..'') True
      = Some q"
    using node_dir_lookup [OF V(1) x(1,2), of "''..''"] x(3) by (simp add: valid_name_def)
  moreover have "walk (children st ns) (components path) 0 (ns_root_inode ns) = Some (Suc d, n)"
    using R by (simp add: walk_append dots_def)
  ultimately show ?thesis using x R(7) by auto
qed

lemma rmdir_allowed_iff:
  assumes ok: "instance_ok w p" and path: "nul \<notin> set path" "path \<noteq> []"
    and r: "removable (fw_store w) (the_ns w p) path n q c"
  shows "rmdir_allowed w caller p path \<longleftrightarrow> may_remove w caller p n q"
proof -
  note I = instance_okD [OF ok]
  let ?st = "fw_store w" and ?ns = "the_ns w p"
  obtain x y where R: "walk (children ?st ?ns) (components path) 0 (ns_root_inode ?ns) \<noteq> None"
      "snd (the (walk (children ?st ?ns) (components path) 0 (ns_root_inode ?ns))) = n"
      "ns_map ?st ?ns n = Some x" "node_is_dir ?st x" "ns_map ?st ?ns q = Some y"
      "initrafs_directory_lookup (Some (st_entries ?st (nn_entries x))) (nn_entry_count x) (Some ''..'') True = Some q"
    using removable_node [OF I(4) r] by blast
  have "\<not> (\<exists>c \<in> set (components path). 48 < length c)" using r by (auto simp: removable_def not_less)
  then have lk: "initrafs_vfs_lookup w p path = Some (nn_inode x)"
    using vfs_lookup_walk [OF ok path(1)] path(2) R(1-3) by (auto split: option.splits)
  have fx: "file_node w p (nn_inode x) = Some x"
    using file_node_iff [OF ok] ns_map_Some(1) [OF I(7) R(3)] by blast
  have ex: "nn_entries x \<noteq> NULL" using ns_map_Some(3) [OF I(7) R(3)] R(4) by (simp add: node_ok_def node_is_dir_def)
  obtain k where k: "initrafs_namespace_find ?st (Some ?ns) q = Some k" "the (ns_nodes ?ns) ! k = y"
    using find_node [OF I(7), of q] R(5) by (metis (no_types, lifting) map_option_eq_Some)
  have y: "nn_inode y \<noteq> NULL" "nn_disk_inode y \<noteq> NULL"
    using ns_map_Some(3) [OF I(7) R(5)] by (simp_all add: node_ok_def)
  show ?thesis
    using lk fx ex k y R(3,5,6)
    by (simp add: rmdir_allowed_def may_remove_def the_ns_def [symmetric] Let_def)
qed

lemma files_kept_ok:
  assumes f: "files_ok st ns count a" and k: "files_kept ns st st'" "same_nodes st st'"
    and sub: "set (live_nodes ns') \<subseteq> set (live_nodes ns)"
  shows "files_ok st' ns' count a"
proof -
  have nf: "node_is_file st' = node_is_file st"
    using k(2) by (auto simp: fun_eq_iff node_is_file_def same_nodes_def)
  have "node_file st' x = node_file st x" if "x \<in> set (live_nodes ns')" "node_is_file st x" for x
    using that sub k(1) by (auto simp: files_kept_def node_file_def node_is_file_def node_is_dir_def)
  with f sub show ?thesis unfolding files_ok_def nf by (auto 0 3)
qed

lemma vfs_rmdir_refines:
  assumes ok: "instance_ok w p" and path: "nul \<notin> set path" "path \<noteq> []"
    and r: "removable (fw_store w) (the_ns w p) path n q c" and may: "may_remove w caller p n q"
  shows "\<exists>w' names. initrafs_vfs_rmdir w caller p path = (1, w') \<and> instance_ok w' p \<and>
     children (fw_store w) (the_ns w p) q = Some names \<and>
     children (fw_store w') (the_ns w' p) =
       (children (fw_store w) (the_ns w p))(q \<mapsto> names(c := None), n := None) \<and>
     file_map blocks w' p = file_map blocks w p"
proof -
  note I = instance_okD [OF ok]
  let ?st = "fw_store w" and ?ns = "the_ns w p" and ?i = "fw_instance w p"
  obtain st' ns' a' names where R: "children ?st ?ns q = Some names"
      "initrafs_path_remove_directory ?st (Some ?ns) (Some (in_inode_allocator ?i)) (Some path)
         = (True, st', Some ns', Some a')"
      "same_nodes ?st st'" "files_kept ?ns ?st st'" "volume_ok st' ns' a'"
      "set (live_nodes ns') \<subseteq> set (live_nodes ?ns)" "ns_map st' ns' = (ns_map ?st ?ns)(n := None)"
      "children st' ns' = (children ?st ?ns)(q \<mapsto> names(c := None), n := None)"
    using remove_directory_removes [OF I(4) path r] by blast
  define w' where "w' = w\<lparr>fw_store := st', fw_instance := (fw_instance w)(p :=
      ?i\<lparr>in_namespace := ns', in_inode_allocator := a'\<rparr>)\<rparr>"
  have w': "the_ns w' p = ns'" "the_dev w' p = the_dev w p" "fw_store w' = st'"
    by (simp_all add: w'_def the_ns_def the_dev_def)
  have "initrafs_vfs_rmdir w caller p path = (1, w')"
    using R(2) rmdir_allowed_iff [OF ok path r, of caller] may
    by (simp add: initrafs_vfs_rmdir_def w'_def the_ns_def)
  moreover have "instance_ok w' p"
    using I(1-3) R(5) files_kept_ok [OF I(5) R(4,3,6)]
    by (simp add: instance_ok_def w'_def Let_def the_dev_def)
  moreover have "file_map blocks w' p k = file_map blocks w p k" for k
  proof -
    obtain x where x: "ns_map ?st ?ns n = Some x" "node_is_dir ?st x" using removable_node [OF I(4) r] by blast
    have nf: "node_is_file st' = node_is_file ?st"
      using R(3) by (auto simp: fun_eq_iff node_is_file_def same_nodes_def)
    show ?thesis
      using x R(4) ns_map_Some(1) [OF I(7), of k]
      by (auto simp: file_map_def w' R(7) nf files_kept_def node_is_file_def node_is_dir_def split: option.splits)
  qed
  ultimately show ?thesis using R(1,8) by (auto simp: w')
qed

lemma vfs_rmdir_refuses:
  assumes ok: "instance_ok w p" and path: "nul \<notin> set path"
    and r: "path = [] \<or> (\<nexists>n q c. removable (fw_store w) (the_ns w p) path n q c)"
  shows "initrafs_vfs_rmdir w caller p path = (0, w)"
  using remove_directory_refuses [OF instance_okD(4) [OF ok] path r]
  by (simp add: initrafs_vfs_rmdir_def the_ns_def)

subsection \<open>The VFS with InitraFS mounted\<close>

text \<open>
  The file system the VFS calls is one that \<open>initrafs_vfs_init\<close> filled in, for
  the instance at \<open>p\<close>.
\<close>

definition initrafs_active :: "'d world vfs \<Rightarrow> ptr \<Rightarrow> bool" where
  "initrafs_active v p \<longleftrightarrow> vfs_active_filesystem v \<noteq> NULL \<and> Some (active v) = initrafs_vfs_init True p"

lemma initrafs_activeD:
  assumes "initrafs_active v p"
  shows "vfs_active_filesystem v \<noteq> NULL" and "fs_private_data (active v) = p"
    and "fs_read (active v) = Some initrafs_vfs_read" and "fs_write (active v) = Some initrafs_vfs_write"
    and "fs_rmdir (active v) = Some initrafs_vfs_rmdir" and "fs_readdir (active v) = Some initrafs_vfs_readdir"
    and "fs_lookup (active v) = Some initrafs_vfs_lookup" and "fs_mkdir (active v) = None"
    and "fs_remove (active v) = None"
  using assms by (auto simp: initrafs_active_def initrafs_vfs_init_def split: if_splits)

lemma initrafs_active_frame [simp]:
  "initrafs_active (set_file v h f) p = initrafs_active v p"
  "initrafs_active (v\<lparr>vfs_world := w\<rparr>) p = initrafs_active v p"
  by (simp_all add: initrafs_active_def) (simp add: active_def)

lemma set_file_same: "vfs_open_files v ! h = f \<Longrightarrow> set_file v h f = v"
  by (auto simp: set_file_def)

lemma vfs_read_denied:
  assumes "initrafs_active v p" and "open_map v h = Some f"
    and "\<not> initrafs_inode_check_permission (Some (st_inode (fw_store (vfs_world v)) (vf_inode f)))
           (vfs_caller_uid v) (vfs_caller_gid v) INITRAFS_PERMISSION_READ"
  shows "vfs_read v (Some h) (Some buf) n = (-1, v, Some buf)"
  using assms initrafs_activeD [OF assms(1)] open_mapD [OF assms(2)]
    vfs_read_permission [of "vfs_world v" "vfs_get_caller_identity v" p "vf_inode f" "vf_position f" buf n]
  by (force simp: vfs_read_def is_open_iff vfs_get_caller_identity_def advance_def set_file_same)

lemma vfs_write_denied:
  assumes "initrafs_active v p" and "open_map v h = Some f"
    and "\<not> initrafs_inode_check_permission (Some (st_inode (fw_store (vfs_world v)) (vf_inode f)))
           (vfs_caller_uid v) (vfs_caller_gid v) INITRAFS_PERMISSION_WRITE"
  shows "vfs_write v (Some h) (Some buf) n = (-1, v)"
  using assms initrafs_activeD [OF assms(1)] open_mapD [OF assms(2)]
    vfs_write_permission [of "vfs_world v" "vfs_get_caller_identity v" p "vf_inode f" "vf_position f" buf n]
  by (force simp: vfs_write_def is_open_iff vfs_get_caller_identity_def advance_def set_file_same)


lemma vfs_read_initrafs:
  assumes ok: "vfs_ok v" "initrafs_active v p" "instance_ok (vfs_world v) p" "ram_disk_ok (the_dev (vfs_world v) p)"
    and f: "open_map v h = Some f" "ns_map (fw_store (vfs_world v)) (the_ns (vfs_world v) p) m = Some node"
      "vf_inode f = nn_inode node" "file_map ram_disk_block (vfs_world v) p m = Some bytes"
    and perm: "initrafs_inode_check_permission (Some (st_inode (fw_store (vfs_world v)) (vf_inode f)))
           (vfs_caller_uid v) (vfs_caller_gid v) INITRAFS_PERMISSION_READ"
    and n: "unat n \<le> length buf"
  shows "vfs_read v (Some h) (Some buf) n =
     (let bs = take (unat n) (drop (unat (vf_position f)) bytes)
      in (int (length bs), set_file v h (f\<lparr>vf_position := vf_position f + of_nat (length bs)\<rparr>),
          Some (blit buf 0 bs)))"
proof -
  note A = initrafs_activeD [OF ok(2)]
  let ?bs = "take (unat n) (drop (unat (vf_position f)) bytes)"
  have "initrafs_vfs_read (vfs_world v) (vfs_get_caller_identity v) p (nn_inode node) (vf_position f) buf n =
      (int (length ?bs), blit buf 0 ?bs)"
    using ram_disk.vfs_read_refines [OF ok(3,4) f(2,4) _ n] perm f(3) by (simp add: vfs_get_caller_identity_def)
  then have "vfs_read v (Some h) (Some buf) n = (int (length ?bs), set_file v h (advance f (int (length ?bs))), Some (blit buf 0 ?bs))"
    using vfs_read_spec(1) [OF ok(1) f(1) A(1,3)] f(3) A(2) by simp
  moreover have "advance f (int (length ?bs)) = f\<lparr>vf_position := vf_position f + of_nat (length ?bs)\<rparr>"
    by (cases "length ?bs = 0") (simp_all add: advance_def)
  ultimately show ?thesis by (simp add: Let_def)
qed

lemma vfs_write_initrafs:
  assumes ok: "vfs_ok v" "initrafs_active v p" "instance_ok (vfs_world v) p" "ram_disk_ok (the_dev (vfs_world v) p)"
    and f: "open_map v h = Some f" "ns_map (fw_store (vfs_world v)) (the_ns (vfs_world v) p) m = Some node"
      "vf_inode f = nn_inode node" "file_map ram_disk_block (vfs_world v) p m = Some bytes"
    and perm: "initrafs_inode_check_permission (Some (st_inode (fw_store (vfs_world v)) (vf_inode f)))
           (vfs_caller_uid v) (vfs_caller_gid v) INITRAFS_PERMISSION_WRITE"
    and n: "n \<noteq> 0" "unat (vf_position f) \<le> length bytes" "unat (vf_position f) + unat n \<le> 4096" "unat n \<le> length buf"
    and room: "room_for (vfs_world v) p node (vf_position f) n"
  shows "\<exists>w' s. vfs_write v (Some h) (Some buf) n =
       (int (unat n), set_file (v\<lparr>vfs_world := w'\<rparr>) h (f\<lparr>vf_position := vf_position f + n\<rparr>)) \<and>
     instance_ok w' p \<and> ram_disk_ok (the_dev w' p) \<and> the_ns w' p = the_ns (vfs_world v) p \<and>
     file_map ram_disk_block w' p = (file_map ram_disk_block (vfs_world v) p)
        (m \<mapsto> blit bytes (unat (vf_position f)) (take (unat n) buf)) \<and>
     children (fw_store w') = children (fw_store (vfs_world v)) \<and> ns_map (fw_store w') = ns_map (fw_store (vfs_world v)) \<and>
     st_inode (fw_store w') = (st_inode (fw_store (vfs_world v)))
       (nn_inode node := (st_inode (fw_store (vfs_world v)) (nn_inode node))\<lparr>fi_size := s\<rparr>)"
proof -
  note A = initrafs_activeD [OF ok(2)]
  obtain w' s where w: "initrafs_vfs_write (vfs_world v) (vfs_get_caller_identity v) p (nn_inode node) (vf_position f) buf n
      = (int (unat n), w')"
    and w': "instance_ok w' p" "ram_disk_ok (the_dev w' p)" "the_ns w' p = the_ns (vfs_world v) p"
     "file_map ram_disk_block w' p = (file_map ram_disk_block (vfs_world v) p)
        (m \<mapsto> blit bytes (unat (vf_position f)) (take (unat n) buf))"
     "children (fw_store w') = children (fw_store (vfs_world v))" "ns_map (fw_store w') = ns_map (fw_store (vfs_world v))"
     "st_inode (fw_store w') = (st_inode (fw_store (vfs_world v)))
       (nn_inode node := (st_inode (fw_store (vfs_world v)) (nn_inode node))\<lparr>fi_size := s\<rparr>)"
    using ram_disk.vfs_write_refines [OF ok(3,4) f(2,4) _ n room, of "vfs_get_caller_identity v"] perm f(3)
    by (auto simp: vfs_get_caller_identity_def)
  have "0 < uint n" using n(1) by (metis uint_0_iff uint_ge_0 order_le_imp_less_or_eq)
  then have "advance f (int (unat n)) = f\<lparr>vf_position := vf_position f + n\<rparr>" by (simp add: advance_def)
  then have "vfs_write v (Some h) (Some buf) n =
      (int (unat n), set_file (v\<lparr>vfs_world := w'\<rparr>) h (f\<lparr>vf_position := vf_position f + n\<rparr>))"
    using vfs_write_spec(1) [OF ok(1) f(1) A(1,4)] w f(3) A(2) by simp
  with w' show ?thesis by blast
qed

lemma check_permission_size [simp]:
  "initrafs_inode_check_permission (Some (i\<lparr>fi_size := s\<rparr>)) = initrafs_inode_check_permission (Some i)"
  by (simp add: fun_eq_iff initrafs_inode_check_permission_def)

lemma active_lookup_initrafs:
  assumes a: "initrafs_active v p" and ok: "instance_ok (vfs_world v) p"
    and l: "initrafs_path_lookup (fw_store (vfs_world v)) (Some (the_ns (vfs_world v) p)) (Some path) True = Some m"
    and m: "ns_map (fw_store (vfs_world v)) (the_ns (vfs_world v) p) m = Some node"
  shows "active_lookup v (Some path) = Some (nn_inode node)" "initrafs_vfs_lookup (vfs_world v) p path = Some (nn_inode node)"
proof -
  note I = instance_okD [OF ok] and A = initrafs_activeD [OF a]
  have nz: "nn_inode node \<noteq> NULL" using ns_map_Some(3) [OF I(7) m] by (simp add: node_ok_def)
  obtain k where k: "initrafs_namespace_find (fw_store (vfs_world v)) (Some (the_ns (vfs_world v) p)) m = Some k"
      "the (ns_nodes (the_ns (vfs_world v) p)) ! k = node"
    using find_node [OF I(7), of m] m by (metis (no_types, lifting) map_option_eq_Some)
  show lk: "initrafs_vfs_lookup (vfs_world v) p path = Some (nn_inode node)"
    using l k nz I(1,2)
    by (simp add: initrafs_vfs_lookup_def initrafs_vfs_instance_def the_ns_def [symmetric] Let_def)
  show "active_lookup v (Some path) = Some (nn_inode node)"
    using lk nz A(1,2,7) by (simp add: active_lookup_def)
qed

lemma set_file_twice [simp]: "set_file (set_file v h f) h g = set_file v h g"
  by (simp add: set_file_def)

lemma file_map_length:
  assumes "instance_ok w p" and "file_map blocks w p m = Some bytes"
  shows "length bytes \<le> 4096"
proof -
  note I = instance_okD [OF assms(1)]
  from assms(2) obtain node where n: "ns_map (fw_store w) (the_ns w p) m = Some node" "node_is_file (fw_store w) node"
      "bytes = file_content (blocks (the_dev w p)) (st_disk_inode (fw_store w) (nn_disk_inode node))"
    by (auto simp: file_map_def split: option.splits if_splits)
  show ?thesis using file_okD(6) [OF files_okD(1) [OF I(5) ns_map_Some(1) [OF I(7) n(1)] n(2)]] n(3) by simp
qed

lemma take_drop_split:
  "take (a + b) (drop k xs) = take a (drop k xs) @ take b (drop (k + length (take a (drop k xs))) xs)"
  by (cases "a \<le> length xs - k") (simp_all add: take_add add.commute)

lemma advanced_position:
  assumes "bs = take a (drop (unat (x :: u32)) bytes)" and "length bytes \<le> 4096"
  shows "drop (unat (x + of_nat (length bs))) bytes = drop (unat x + length bs) bytes"
proof (cases "bs = []")
  case False
  then have "unat x < length bytes" using assms(1) by (cases "unat x < length bytes") simp_all
  moreover have "length bs \<le> length bytes - unat x" using assms(1) by simp
  ultimately have "unat x + length bs \<le> 4096" using assms(2) by linarith
  then have "unat (x + of_nat (length bs)) = unat x + length bs" by (simp add: unat_word_ariths unat_of_nat)
  then show ?thesis by simp
qed simp

lemma vfs_readdir_initrafs:
  assumes a: "initrafs_active v p" and ok: "instance_ok (vfs_world v) p"
    and l: "initrafs_path_lookup (fw_store (vfs_world v)) (Some (the_ns (vfs_world v) p)) (Some path) True = Some m"
    and m: "ns_map (fw_store (vfs_world v)) (the_ns (vfs_world v) p) m = Some node"
    and d: "node_is_dir (fw_store (vfs_world v)) node"
  defines "es \<equiv> filter entry_used (node_entries (fw_store (vfs_world v)) node)"
  shows "vfs_readdir v (Some path) (Some out) size_arg =
     (if length es \<le> unat size_arg div 60 then (int (length es), Some (es @ drop (length es) out)) else (0, Some out))"
proof -
  note I = instance_okD [OF ok] and A = initrafs_activeD [OF a]
  let ?st = "fw_store (vfs_world v)"
  note N = ns_map_Some [OF I(7) m] and T = tree_okD [OF I(6) m]
  have dir: "dir_ok (node_entries ?st node)" "nn_entry_count node = of_nat (length (node_entries ?st node))"
    using T(2,3) d by blast+
  have ty: "fi_type (st_inode ?st (nn_inode node)) = INODE_TYPE_DIRECTORY" "nn_entries node \<noteq> NULL"
    using N(3) d by (auto simp: node_is_dir_def node_ok_def)
  have u: "filter (\<lambda>e. de_inode_number e \<noteq> INITRAFS_UNUSED_INODE)
        (take (unat (nn_entry_count node)) (st_entries ?st (nn_entries node))) = es"
    using dir_okD(4) [OF dir(1)] unfolding es_def dir(2)
    by (simp add: node_entries_def entry_used_def cong: filter_cong)
  have fn: "file_node (vfs_world v) p (nn_inode node) = Some node" using file_node_iff [OF ok] N(1) by blast
  have len: "length es < 2 ^ 32"
    using dir(1) length_filter_le [of entry_used "node_entries ?st node"] unfolding es_def dir_ok_def by linarith
  then have ul: "unat (of_nat (length es) :: u32) = length es" by (simp add: unat_of_nat)
  have cap: "size_arg div 60 < of_nat (length es) \<longleftrightarrow> unat size_arg div 60 < length es"
    using ul by (simp add: word_less_nat_alt unat_div_distrib)
  have s: "sint (of_nat (length es) :: u32) = int (length es)" if "length es \<le> unat size_arg div 60"
  proof -
    have "unat size_arg < 4294967296" using unsigned_less [of size_arg] by simp
    then have "int (length es) < 2 ^ 31" using that by simp
    then show ?thesis using ul
      by (simp add: sint_uint uint_nat signed_take_bit_int_eq_self)
  qed
  have es0: "es = []" if "length es \<le> unat size_arg div 60" "size_arg < 60"
    using that by (simp add: word_less_nat_alt)
  show ?thesis
    using A(1,2,6) active_lookup_initrafs(2) [OF a ok l m] ty fn dir_okD(5) [OF dir(1)] u cap s es0
    by (auto simp: vfs_readdir_def initrafs_vfs_readdir_def initrafs_directory_list_def dir(2) Let_def)
qed

text \<open>A fresh handle for the inode a path leads to.\<close>

definition fresh_file :: "'w vfs \<Rightarrow> ptr \<Rightarrow> u32 \<Rightarrow> vfs_file_t" where
  "fresh_file v inode flags =
     \<lparr>vf_inode = inode, vf_position = 0, vf_flags = flags, vf_filesystem_private = fs_private_data (active v)\<rparr>"

lemma vfs_open_initrafs:
  assumes ok: "vfs_ok v" and a: "initrafs_active v p" "instance_ok (vfs_world v) p"
    and room: "card (dom (open_map v)) < VFS_MAX_OPEN_FILES"
    and l: "initrafs_path_lookup (fw_store (vfs_world v)) (Some (the_ns (vfs_world v) p)) (Some path) True = Some m"
      "ns_map (fw_store (vfs_world v)) (the_ns (vfs_world v) p) m = Some node"
  shows "\<exists>h < VFS_MAX_OPEN_FILES. nn_inode node \<noteq> NULL \<and>
     vfs_open v (Some path) flags True = (Some h, set_file v h (fresh_file v (nn_inode node) flags)) \<and>
     vfs_ok (set_file v h (fresh_file v (nn_inode node) flags))"
proof -
  note lk = active_lookup_initrafs(1) [OF a l]
  have "dom (open_map v) \<noteq> {..<VFS_MAX_OPEN_FILES}" using room by auto
  then obtain h where h: "vfs_file_slot v = Some h" using vfs_file_slot_iff(2) [OF ok] by blast
  then have "h < VFS_MAX_OPEN_FILES" using vfs_file_slot_iff(1) [OF ok] by blast
  moreover have op: "vfs_open v (Some path) flags True = (Some h, set_file v h (fresh_file v (nn_inode node) flags))"
    using lk h by (simp add: vfs_open_def fresh_file_def)
  moreover have "vfs_ok (set_file v h (fresh_file v (nn_inode node) flags))"
    using vfs_open_ok [OF ok, of "Some path" flags True] op by simp
  ultimately show ?thesis using active_lookup_active [OF lk] by blast
qed

lemma set_file_caller [simp]:
  "vfs_caller_uid (set_file v h f) = vfs_caller_uid v" "vfs_caller_gid (set_file v h f) = vfs_caller_gid v"
  by (simp_all add: set_file_def)

lemma vfs_seek_open:
  assumes "vfs_ok v" and "h < VFS_MAX_OPEN_FILES" and "vf_inode f \<noteq> NULL"
  shows "vfs_seek (set_file v h f) (Some h) position = (True, set_file v h (f\<lparr>vf_position := position\<rparr>))"
proof -
  have m: "open_map (set_file v h f) h = Some f" using open_map_set_file [OF assms(1,2)] assms(3) by simp
  show ?thesis using m open_mapD [OF m] by (simp add: vfs_seek_def is_open_iff)
qed


lemma set_file_world [simp]: "(set_file v h f)\<lparr>vfs_world := w\<rparr> = set_file (v\<lparr>vfs_world := w\<rparr>) h f"
  by (simp add: set_file_def)

end
