(* ===== verification/Example_Mount.thy ===== *)
theory Example_Mount
  imports Vfs_Adapter Example_Volume
begin

section \<open>A concrete mounted volume\<close>

text \<open>
  An instance with a root directory that holds an empty file \<open>f\<close> (inode 2,
  mode 0644) and an empty directory \<open>d\<close> (inode 3, mode 0755), on the RAM disk of
  \<open>Example_Volume\<close>, and a VFS with this instance mounted. All objects are made by
  the source's own functions; instances of the properties of mounted volumes
  refer to them.
\<close>

definition ex_dir_inode :: "u32 \<Rightarrow> fs_inode" where
  "ex_dir_inode n = the (initrafs_inode_init (Some zero_fs_inode) n INODE_TYPE_DIRECTORY 0x1ED)"

definition ex_dir_disk_inode :: "u32 \<Rightarrow> initrafs_disk_inode_t" where
  "ex_dir_disk_inode n =
     initrafs_inode_integrity_update
       (zero_disk_inode\<lparr>di_inode_number := n, di_type := INITRAFS_TYPE_DIRECTORY, di_mode := 0x1ED,
          di_link_count := 2\<rparr>)"

definition ex_entries_1 :: "initrafs_disk_dirent_t list" where
  "ex_entries_1 = the (dir_add (fresh_directory 1 1 6) 2 INITRAFS_TYPE_FILE ''f'')"

definition ex_root_entries :: "initrafs_disk_dirent_t list" where
  "ex_root_entries = the (dir_add ex_entries_1 3 INITRAFS_TYPE_DIRECTORY ''d'')"

definition ex_store :: fs_store where
  "ex_store =
     \<lparr>st_inode = (\<lambda>_. zero_fs_inode)(10 := ex_dir_inode 1, 20 := ex_inode, 30 := ex_dir_inode 3),
      st_disk_inode =
        (\<lambda>_. zero_disk_inode)(11 := ex_dir_disk_inode 1, 21 := ex_disk_inode, 31 := ex_dir_disk_inode 3),
      st_entries = (\<lambda>_. [])(12 := ex_root_entries, 32 := fresh_directory 3 1 0)\<rparr>"

definition ex_root_node :: initrafs_namespace_node_t where
  "ex_root_node = \<lparr>nn_inode = 10, nn_disk_inode = 11, nn_entries = 12, nn_entry_count = 8\<rparr>"

definition ex_file_node :: initrafs_namespace_node_t where
  "ex_file_node = \<lparr>nn_inode = 20, nn_disk_inode = 21, nn_entries = NULL, nn_entry_count = 0\<rparr>"

definition ex_dir_node :: initrafs_namespace_node_t where
  "ex_dir_node = \<lparr>nn_inode = 30, nn_disk_inode = 31, nn_entries = 32, nn_entry_count = 2\<rparr>"

definition ex_namespace :: initrafs_namespace_t where
  "ex_namespace =
     \<lparr>ns_nodes = Some ([ex_root_node, ex_file_node, ex_dir_node] @ replicate 5 zero_node),
      ns_node_count = 3, ns_node_capacity = 8, ns_root_inode = 1\<rparr>"

definition ex_inodes_used :: initrafs_inode_allocator_t where
  "ex_inodes_used = snd (inode_take (snd (inode_take ex_inodes)))"

definition ex_instance :: initrafs_instance_t where
  "ex_instance =
     \<lparr>in_root_inode = 10, in_root_disk_inode = 11, in_root_entries = 12, in_device = 2,
      in_block_allocator = ex_blocks, in_inode_allocator = ex_inodes_used, in_namespace = ex_namespace,
      in_mounted = 1\<rparr>"

definition ex_world :: "u8 list option world" where
  "ex_world = \<lparr>fw_store = ex_store, fw_device = (\<lambda>_. ex_device), fw_instance = (\<lambda>_. ex_instance)\<rparr>"

definition ex_vfs :: "u8 list option world vfs" where
  "ex_vfs =
     (vfs_boot ex_world (\<lambda>_. the (initrafs_vfs_init True 1)))
       \<lparr>vfs_filesystems := 5 # replicate 7 NULL, vfs_active_filesystem := 5\<rparr>"

subsection \<open>The objects are in good order\<close>

lemma ex_live: "live_nodes ex_namespace = [ex_root_node, ex_file_node, ex_dir_node]"
  by (simp add: live_nodes_def ex_namespace_def)

lemma ex_entries:
  "dir_add (fresh_directory 1 1 6) 2 INITRAFS_TYPE_FILE ''f'' = Some ex_entries_1"
  "dir_add ex_entries_1 3 INITRAFS_TYPE_DIRECTORY ''d'' = Some ex_root_entries"
  "length ex_root_entries = 8"
  "\<exists>e \<in> set ex_root_entries. de_inode_number e = 3 \<and> de_type e = INITRAFS_TYPE_DIRECTORY"
  by code_simp+

lemma ex_root_dir:
  "dir_ok ex_root_entries \<and> dir_map ex_root_entries = [''.'' \<mapsto> 1, ''..'' \<mapsto> 1, ''f'' \<mapsto> 2, ''d'' \<mapsto> 3]"
proof -
  have n: "valid_name ''f''" "valid_name ''d''" by (simp_all add: valid_name_def)
  have f: "dir_ok (fresh_directory 1 1 6)" "dir_map (fresh_directory 1 1 6) = [''.'' \<mapsto> 1, ''..'' \<mapsto> 1]"
    by (rule fresh_directory_facts; simp)+
  note e1 = dir.invar_add [OF f(1) n(1) ex_entries(1)] dir.add_contents [OF f(1) n(1) ex_entries(1)]
  show ?thesis
    using dir.invar_add [OF e1(1) n(2) ex_entries(2)] dir.add_contents [OF e1(1) n(2) ex_entries(2)] e1(2) f(2)
    by simp
qed

lemma ex_sub_dir:
  "dir_ok (fresh_directory 3 1 0)" "dir_map (fresh_directory 3 1 0) = [''.'' \<mapsto> 3, ''..'' \<mapsto> 1]"
  by (rule fresh_directory_facts; simp)+

lemmas ex_nodes = ex_root_node_def ex_file_node_def ex_dir_node_def

lemma ex_inode_fields:
  "fi_inode_number ex_inode = 2" "fi_type ex_inode = 1" "di_inode_number ex_disk_inode = 2"
  "di_type ex_disk_inode = 1" "fi_inode_number (ex_dir_inode n) = n \<or> n = 0"
  "n \<noteq> 0 \<Longrightarrow> fi_type (ex_dir_inode n) = 2" "di_inode_number (ex_dir_disk_inode n) = n"
  "di_type (ex_dir_disk_inode n) = 2"
  by (auto simp: ex_inode_def ex_disk_inode_def ex_dir_inode_def ex_dir_disk_inode_def initrafs_inode_init_def
      zero_disk_inode_def zero_fs_inode_def)

lemma ex_numbers:
  "node_number ex_store ex_root_node = 1" "node_number ex_store ex_file_node = 2"
  "node_number ex_store ex_dir_node = 3"
  using ex_inode_fields(5) [of 1] ex_inode_fields(5) [of 3] ex_inode_fields
  by (simp_all add: node_number_def ex_store_def ex_nodes)

lemma ex_types:
  "node_is_dir ex_store ex_root_node" "\<not> node_is_dir ex_store ex_file_node" "node_is_dir ex_store ex_dir_node"
  "\<not> node_is_file ex_store ex_root_node" "node_is_file ex_store ex_file_node"
  "\<not> node_is_file ex_store ex_dir_node"
  using ex_inode_fields by (simp_all add: node_is_dir_def node_is_file_def ex_store_def ex_nodes)

lemma ex_ns_ok: "ns_ok ex_store ex_namespace"
proof -
  have "node_ok ex_store ex_root_node" "node_ok ex_store ex_file_node" "node_ok ex_store ex_dir_node"
    unfolding node_ok_def ex_numbers using ex_inode_fields by (simp_all add: ex_store_def ex_nodes word_less_nat_alt)
  then show ?thesis by (simp add: ns_ok_def ex_live ex_numbers) (simp add: ex_namespace_def)
qed

lemma ex_ns_map: "ns_map ex_store ex_namespace = [1 \<mapsto> ex_root_node, 2 \<mapsto> ex_file_node, 3 \<mapsto> ex_dir_node]"
  by (auto simp: ns_map_def ex_live ex_numbers fun_eq_iff)

lemma ex_node_entries:
  "node_entries ex_store ex_root_node = ex_root_entries"
  "node_entries ex_store ex_dir_node = fresh_directory 3 1 0"
  by (simp_all add: node_entries_def ex_store_def ex_nodes)

lemma ex_entry_counts: "nn_entry_count ex_root_node = 8" "nn_entry_count ex_dir_node = 2"
  by (simp_all add: ex_nodes)

lemma ex_root: "ns_root_inode ex_namespace = 1"
  by (simp add: ex_namespace_def)

lemma ex_tree_ok: "tree_ok ex_store ex_namespace"
proof -
  have "length (fresh_directory 3 1 0) = 2" by (simp add: fresh_directory_def)
  then show ?thesis
    using ex_ns_ok ex_root_dir ex_sub_dir ex_entries(3)
    by (simp add: tree_ok_def ex_live ex_types ex_node_entries ex_entry_counts)
qed

lemma ex_children:
  "children ex_store ex_namespace =
     [1 \<mapsto> [''.'' \<mapsto> 1, ''..'' \<mapsto> 1, ''f'' \<mapsto> 2, ''d'' \<mapsto> 3], 3 \<mapsto> [''.'' \<mapsto> 3, ''..'' \<mapsto> 1]]"
  using ex_root_dir ex_sub_dir
  by (auto simp: fun_eq_iff children_def ex_ns_map ex_types ex_node_entries)

lemma ex_inodes_used:
  "inode_allocator_ok ex_inodes_used" "{2, 3} \<subseteq> inode_units ex_inodes_used - inode_free_set ex_inodes_used"
proof -
  obtain a where a: "inode_take ex_inodes = (2, a)" "inode_take a = (3, ex_inodes_used)"
  proof -
    have "fst (inode_take ex_inodes) = 2 \<and> fst (inode_take (snd (inode_take ex_inodes))) = 3" by code_simp
    then show thesis using that by (cases "inode_take ex_inodes"; cases "inode_take (snd (inode_take ex_inodes))")
        (simp add: ex_inodes_used_def)
  qed
  note ok = ex_inodes_ok [THEN conjunct1]
  note ok' = inode_alloc.invar_take [OF ok a(1)]
  show "inode_allocator_ok ex_inodes_used" by (rule inode_alloc.invar_take [OF ok' a(2)])
  show "{2, 3} \<subseteq> inode_units ex_inodes_used - inode_free_set ex_inodes_used"
    using inode_alloc.take_cases [OF ok a(1)] inode_alloc.take_cases [OF ok' a(2)]
      inode_alloc.free_subset [OF ok] inode_alloc.free_subset [OF ok'] by auto
qed

lemma ex_volume_ok: "volume_ok ex_store ex_namespace ex_inodes_used"
proof -
  have "parents_ok (children ex_store ex_namespace)"
    unfolding parents_ok_def ex_children by (auto split: if_splits)
  moreover have "entries_distinct ex_store ex_namespace"
    by (simp add: entries_distinct_def ex_live ex_types) (simp add: ex_nodes)
  ultimately show ?thesis
    using ex_tree_ok ex_inodes_used by (auto simp: volume_ok_def ex_ns_map ex_root split: if_splits)
qed

lemma ex_instance_ok: "instance_ok ex_world 1"
proof -
  have "file_ok 64 ex_blocks (st_inode ex_store 20) (st_disk_inode ex_store 21)"
    using ex_file_ok by (simp add: ex_store_def)
  then have "files_ok ex_store ex_namespace 64 ex_blocks"
    using ex_blocks_ok by (auto simp: files_ok_def ex_live ex_types node_file_def ex_file_node_def)
  then show ?thesis
    using ex_volume_ok by (simp add: instance_ok_def ex_world_def ex_instance_def ex_device_count)
qed

subsection \<open>Paths on the volume, and the VFS with an open file\<close>

lemma ex_components:
  "components ''//d/.././f'' = [''d'', ''..'', ''.'', ''f'']" "components ''/d'' = [''d'']"
  "components ''/..'' = [''..'']" "components ''/f'' = [''f'']"
  by (code_simp)+

text \<open>The concrete VFS state is reachable: register, mount, then the volume changes below.\<close>

lemma ex_vfs_fields:
  "vfs_filesystem_at ex_vfs = (\<lambda>_. the (initrafs_vfs_init True 1))" "vfs_world ex_vfs = ex_world"
  "vfs_active_filesystem ex_vfs = 5" "vfs_caller_uid ex_vfs = 0" "vfs_caller_gid ex_vfs = 0"
  by (simp_all add: ex_vfs_def vfs_boot_def)

lemma ex_unmounted: "initrafs_vfs_mount (ex_world\<lparr>fw_instance := (\<lambda>_. ex_instance\<lparr>in_mounted := 0\<rparr>)\<rparr>) 1 2 \<noteq> (False, w)"
proof -
  let ?w = "ex_world\<lparr>fw_instance := (\<lambda>_. ex_instance\<lparr>in_mounted := 0\<rparr>)\<rparr>"
  have "\<exists>w'. initrafs_instance_init ?w 1 2 = (True, w')"
    using initrafs_instance_init_ok [of 1 2 ?w]
    by (auto simp: ex_world_def ex_instance_def ex_device_def word_less_nat_alt word_le_nat_alt)
  then show ?thesis by (auto simp: initrafs_vfs_mount_def initrafs_vfs_instance_def)
qed

lemma ex_vfs_reachable: "vfs_reachable ex_vfs"
proof -
  let ?fs = "\<lambda>_ :: ptr. the (initrafs_vfs_init True 1) :: u8 list option world filesystem_t"
  let ?w = "ex_world\<lparr>fw_instance := (\<lambda>_. ex_instance\<lparr>in_mounted := 0\<rparr>)\<rparr>"
  let ?v0 = "vfs_boot ?w ?fs"
  let ?v1 = "snd (filesystem_register ?v0 5)"
  have v1: "?v1 = ?v0\<lparr>vfs_filesystems := 5 # replicate 7 NULL\<rparr>"
    by (simp add: filesystem_register_def vfs_boot_def vfs_filesystem_is_registered_def initrafs_vfs_init_def
        numeral_eq_Suc)
  obtain w' where m: "initrafs_vfs_mount ?w 1 2 = (True, w')"
    using ex_unmounted by (cases "initrafs_vfs_mount ?w 1 2") (metis (full_types))
  let ?v2 = "snd (vfs_mount ?v1 5 2)"
  have v2: "?v2 = ?v1\<lparr>vfs_world := w', vfs_active_filesystem := 5\<rparr>"
    using m unfolding v1
    by (simp add: vfs_mount_def vfs_filesystem_is_registered_def vfs_boot_def initrafs_vfs_init_def)
  have "vfs_reachable (?v2\<lparr>vfs_world := ex_world\<rparr>)"
    by (intro vfs_reachable.step [OF _ vfs_step.below] vfs_reachable.step [OF _ vfs_step.mount]
        vfs_reachable.step [OF _ vfs_step.register] vfs_reachable.boot)
  moreover have "?v2\<lparr>vfs_world := ex_world\<rparr> = ex_vfs"
    unfolding v2 unfolding v1 by (simp add: ex_vfs_def vfs_boot_def)
  ultimately show ?thesis by simp
qed

lemma ex_views: "the_ns ex_world 1 = ex_namespace" "fw_store ex_world = ex_store" "the_dev ex_world 1 = ex_device"
  by (simp_all add: the_ns_def the_dev_def ex_world_def ex_instance_def)

lemma ex_active: "initrafs_active ex_vfs 1"
  by (simp add: initrafs_active_def active_def ex_vfs_fields initrafs_vfs_init_def)

lemma ex_lookup: "active_lookup ex_vfs (Some ''/f'') = Some 20" "active_lookup ex_vfs (Some ''/d'') = Some 30"
  using vfs_lookup_walk [OF ex_instance_ok, of "''/f''"] vfs_lookup_walk [OF ex_instance_ok, of "''/d''"]
  by (simp_all add: active_lookup_def ex_vfs_fields initrafs_activeD [OF ex_active] ex_views ex_components ex_children
      ex_root ex_ns_map ex_nodes)

lemma ex_open_map: "open_map ex_vfs = Map.empty"
  by (auto simp: fun_eq_iff open_map_def vfs_file_is_open_def ex_vfs_def vfs_boot_def)

definition ex_file :: vfs_file_t where
  "ex_file = \<lparr>vf_inode = 20, vf_position = 0, vf_flags = 0, vf_filesystem_private = 1\<rparr>"

definition ex_opened :: "u8 list option world vfs" where
  "ex_opened = set_file ex_vfs 0 ex_file"

lemma ex_vfs_ok: "vfs_ok ex_vfs"
  by (rule vfs_reachable_ok [OF ex_vfs_reachable])

lemma ex_open: "vfs_open ex_vfs (Some ''/f'') 0 True = (Some 0, ex_opened)"
  using vfs_file_slot_iff(1) [OF ex_vfs_ok, of 0] initrafs_activeD(2) [OF ex_active]
  by (simp add: vfs_open_def ex_lookup ex_open_map ex_opened_def ex_file_def)

lemma ex_opened_reachable: "vfs_reachable ex_opened"
  using vfs_reachable.step [OF ex_vfs_reachable vfs_step.open_file [of _ "Some ''/f''" 0 True]] by (simp add: ex_open)

lemma ex_opened_map: "open_map ex_opened = [0 \<mapsto> ex_file]"
  using open_map_set_file [OF ex_vfs_ok, of 0 ex_file] by (simp add: ex_opened_def ex_open_map) (simp add: ex_file_def)

lemma ex_opened_fields:
  "vfs_world ex_opened = ex_world" "initrafs_active ex_opened 1" "vfs_caller_uid ex_opened = 0"
  "vfs_caller_gid ex_opened = 0"
  using ex_active by (simp_all add: ex_opened_def ex_vfs_fields)

lemma ex_permissions:
  "initrafs_inode_check_permission (Some (st_inode ex_store 20)) 0 0 INITRAFS_PERMISSION_READ"
  "initrafs_inode_check_permission (Some (st_inode ex_store 20)) 0 0 INITRAFS_PERMISSION_WRITE"
  "\<not> initrafs_inode_check_permission (Some (st_inode ex_store 20)) 7 7 INITRAFS_PERMISSION_WRITE"
  "initrafs_inode_check_permission (Some (st_inode ex_store 10)) 0 0
     (INITRAFS_PERMISSION_WRITE OR INITRAFS_PERMISSION_EXECUTE)"
  "fi_flags (st_inode ex_store 30) AND INITRAFS_INODE_FLAG_SYSTEM_PROTECTED = 0"
  by code_simp+

lemma ex_file_map: "file_map ram_disk_block ex_world 1 2 = Some []"
  using ex_types(5)
  by (simp add: file_map_def ex_views ex_ns_map ex_nodes)
    (simp add: file_content_def ex_store_def ex_disk_inode_def zero_disk_inode_def)

end
