(* ===== verification/Volume_Properties.thy ===== *)
theory Volume_Properties
  imports Example_Mount
begin

section \<open>Properties of namespaces, paths and instances\<close>

text \<open>
  What path resolution, the registry of nodes, directory removal and the set-up
  of an instance promise, each with an instance on the concrete mounted volume
  where it has hypotheses.
\<close>

subsection \<open>Paths\<close>

text \<open>
  C34: Path resolution implements a walk over the tree of directories. On a
  volume in good order, \<open>initrafs_path_lookup\<close> returns exactly the inode reached
  by following the path's components from the root, where \<open>.\<close> stays, \<open>..\<close>
  goes to the parent and is refused at the root, and repeated slashes do not
  matter. It fails for the empty path and for any component longer than 48
  characters.
\<close>

theorem path_lookup_refines_walk:
  assumes "tree_ok st ns" and "nul \<notin> set p"
  shows "initrafs_path_lookup st (Some ns) (Some p) True =
           (if p = [] \<or> (\<exists>c \<in> set (components p). 48 < length c) then None
            else map_option snd (walk (children st ns) (components p) 0 (ns_root_inode ns)))"
  by (rule path_lookup_walk [OF assms])

theorem path_lookup_refines_walk_witness:
  "initrafs_path_lookup ex_store (Some ex_namespace) (Some ''//d/.././f'') True = Some 2 \<and>
   initrafs_path_lookup ex_store (Some ex_namespace) (Some ''/..'') True = None"
  using path_lookup_refines_walk [OF ex_tree_ok, of "''//d/.././f''"]
    path_lookup_refines_walk [OF ex_tree_ok, of "''/..''"]
  by (simp add: ex_components ex_children ex_root)

text \<open>
  C33: No path escapes the root. When a lookup succeeds on a volume whose
  directories know their parents, the same inode is reached by a list of plain
  names, without \<open>.\<close> and \<open>..\<close>, namely the lexical normal form of the path; and
  no prefix of the path has more \<open>..\<close> than names.
\<close>

theorem path_lookup_confined:
  assumes "tree_ok st ns" and "parents_ok (children st ns)" and "nul \<notin> set p"
    and "initrafs_path_lookup st (Some ns) (Some p) True = Some n"
  shows "(\<forall>c \<in> set (normalise (components p)). c \<notin> {''.'', ''..''}) \<and>
         map_option snd (walk (children st ns) (normalise (components p)) 0 (ns_root_inode ns)) = Some n \<and>
         (\<forall>k. parents_in (take k (components p)) \<le> names_in (take k (components p)))"
proof -
  from assms(4) obtain d where w: "walk (children st ns) (components p) 0 (ns_root_inode ns) = Some (d, n)"
    by (auto simp: path_lookup_walk [OF assms(1,3)] split: if_splits)
  show ?thesis
    using walk_normalise [OF assms(2) w] normalise_no_dots [of _ "components p"] walk_prefix_depth [OF w]
    by auto
qed

theorem path_lookup_confined_witness:
  "map_option snd (walk (children ex_store ex_namespace) [''f''] 0 1) = Some 2"
proof -
  have l: "initrafs_path_lookup ex_store (Some ex_namespace) (Some ''//d/.././f'') True = Some 2"
    by (simp add: path_lookup_walk [OF ex_tree_ok] ex_components ex_children ex_root)
  have "normalise (components ''//d/.././f'') = [''f'']"
    by (simp add: ex_components normalise_def normal_step_def)
  then show ?thesis
    using path_lookup_confined [OF ex_tree_ok volume_okD(3) [OF ex_volume_ok] _ l] by (simp add: ex_root)
qed

subsection \<open>The registry of nodes\<close>

text \<open>
  The namespace is a map from inode numbers to nodes. Registration succeeds
  exactly for a consistent node with an unused number while there is room, and
  adds exactly that binding; a second node with the number is refused; removing
  the node again restores the map.
\<close>

theorem namespace_registry:
  assumes "ns_ok st ns"
    and "initrafs_namespace_register st (Some ns) (nn_inode x) (nn_disk_inode x) (nn_entries x) (nn_entry_count x)
           = Some ns'"
    and "node_number st x \<noteq> ns_root_inode ns"
  shows "node_ok st x \<and> ns_map st ns (node_number st x) = None \<and> ns_ok st ns' \<and>
         ns_map st ns' = (ns_map st ns)(node_number st x \<mapsto> x) \<and>
         initrafs_namespace_register st (Some ns') (nn_inode x) (nn_disk_inode x) (nn_entries x) (nn_entry_count x)
           = None \<and>
         (\<exists>ns''. initrafs_namespace_unregister st (Some ns') (node_number st x) = Some ns'' \<and>
            ns_ok st ns'' \<and> ns_map st ns'' = ns_map st ns)"
proof -
  have r: "reg_register (st, ns) x = Some (st, ns')" using assms(2) by (simp add: reg_register_def)
  have i: "ns_ok (fst (st, ns)) (snd (st, ns))" using assms(1) by simp
  show ?thesis
    using reg.register_nodes [OF i r] reg.register_defined [OF i, of x] r
      reg.register_twice_fails [OF i r refl] reg.unregister_registered [OF i r] assms(1,3)
    by (auto simp: reg_register_def reg_unregister_def)
qed

definition ex_root_namespace :: initrafs_namespace_t where
  "ex_root_namespace =
     \<lparr>ns_nodes = Some (ex_root_node # replicate 7 zero_node), ns_node_count = 1, ns_node_capacity = 8,
      ns_root_inode = 1\<rparr>"

theorem namespace_registry_witness:
  "ns_map ex_store (the (initrafs_namespace_register ex_store (Some ex_root_namespace) 20 21 NULL 0)) 2 =
     Some ex_file_node"
proof -
  have live: "live_nodes ex_root_namespace = [ex_root_node]"
    by (simp add: live_nodes_def ex_root_namespace_def)
  have "node_ok ex_store ex_root_node" using ex_ns_ok by (simp add: ns_ok_def ex_live)
  then have ok: "ns_ok ex_store ex_root_namespace"
    by (simp add: ns_ok_def live) (simp add: ex_root_namespace_def)
  have "initrafs_namespace_register ex_store (Some ex_root_namespace) 20 21 NULL 0 \<noteq> None" by code_simp
  then obtain ns' where "initrafs_namespace_register ex_store (Some ex_root_namespace) 20 21 NULL 0 = Some ns'"
    by blast
  then show ?thesis
    using namespace_registry [OF ok, of ex_file_node ns'] ex_numbers
    by (simp add: ex_file_node_def ex_root_namespace_def)
qed

subsection \<open>Removing directories\<close>

text \<open>
  \<open>initrafs_path_remove_directory\<close> removes the directory a path leads to
  exactly when it is empty, not the root, linked from its parent under the
  path's last name, which is neither \<open>.\<close> nor \<open>..\<close>, and the path does not end in
  a slash. Then its parent loses that name, the namespace loses that node, the
  inode number becomes free, and the volume stays in good order. In every other
  case nothing changes at all.
\<close>

theorem remove_directory_exact:
  assumes "volume_ok st ns a" and "nul \<notin> set p"
  shows "(\<exists>n q c names st' ns' a'. p \<noteq> [] \<and> removable st ns p n q c \<and> children st ns q = Some names \<and>
            initrafs_path_remove_directory st (Some ns) (Some a) (Some p) = (True, st', Some ns', Some a') \<and>
            children st' ns' = (children st ns)(q \<mapsto> names(c := None), n := None) \<and>
            ns_map st' ns' = (ns_map st ns)(n := None) \<and>
            inode_free_set a' = insert n (inode_free_set a) \<and> volume_ok st' ns' a') \<or>
         (p = [] \<or> (\<nexists>n q c. removable st ns p n q c)) \<and>
         initrafs_path_remove_directory st (Some ns) (Some a) (Some p) = (False, st, Some ns, Some a)"
proof (cases "p = [] \<or> (\<nexists>n q c. removable st ns p n q c)")
  case True
  then show ?thesis using remove_directory_refuses [OF assms True] by blast
next
  case False
  then obtain n q c where "removable st ns p n q c" "p \<noteq> []" by blast
  from remove_directory_removes [OF assms(1,2) this(2,1)] this show ?thesis by blast
qed

lemma ex_removable: "removable ex_store ex_namespace ''/d'' 3 1 ''d''"
  using ex_entries(4)
  by (auto simp: removable_def ex_components ex_children ex_root ex_ns_map ex_node_entries dots_def)

theorem remove_directory_exact_witness:
  "\<exists>n q c names st' ns' a'. removable ex_store ex_namespace ''/d'' n q c \<and>
     children ex_store ex_namespace q = Some names \<and>
     initrafs_path_remove_directory ex_store (Some ex_namespace) (Some ex_inodes_used) (Some ''/d'') =
       (True, st', Some ns', Some a') \<and>
     children st' ns' = (children ex_store ex_namespace)(q \<mapsto> names(c := None), n := None)"
proof -
  have "nul \<notin> set ''/d''" by simp
  from remove_directory_exact [OF ex_volume_ok this] ex_removable show ?thesis by blast
qed

subsection \<open>Instances\<close>

text \<open>
  Setting up an instance on any device with blocks of 512 bytes and between
  25 and 32768 of them succeeds, and yields a mounted instance in good order:
  allocators, namespace and directories agree, and the tree is the root
  directory alone, its own parent. No device changes.
\<close>

theorem instance_init_correct:
  assumes "p \<noteq> NULL" and "dev \<noteq> NULL"
    and "in_root_inode (fw_instance w p) \<noteq> NULL" and "in_root_disk_inode (fw_instance w p) \<noteq> NULL"
    and "in_root_entries (fw_instance w p) \<noteq> NULL"
    and "bd_block_size (fw_device w dev) = 512" and "24 < bd_block_count (fw_device w dev)"
    and "bd_block_count (fw_device w dev) \<le> 32768"
  shows "\<exists>w'. initrafs_instance_init w p dev = (True, w') \<and> instance_ok w' p \<and>
     in_device (fw_instance w' p) = dev \<and> fw_device w' = fw_device w \<and>
     children (fw_store w') (in_namespace (fw_instance w' p)) = [1 \<mapsto> [''.'' \<mapsto> 1, ''..'' \<mapsto> 1]]"
  using initrafs_instance_init_ok [OF assms] by blast

theorem instance_init_correct_witness:
  "\<exists>w'. initrafs_instance_init ex_world 1 2 = (True, w') \<and> instance_ok w' 1"
  using instance_init_correct [of 1 2 ex_world]
  by (auto simp: ex_world_def ex_instance_def ex_device_def word_less_nat_alt word_le_nat_alt)

end
