(* ===== verification/Vfs_Properties.thy ===== *)
theory Vfs_Properties
  imports Example_Mount
begin

section \<open>Properties of the VFS and of InitraFS mounted in it\<close>

text \<open>
  The invariant of the VFS over all reachable states, its handles, and what a
  program that opens, reads, writes and removes through the VFS can rely on,
  down to the bytes on the RAM disk.
\<close>

subsection \<open>Reachable states\<close>

text \<open>
  C8: Whatever sequence of VFS calls is made with whatever arguments, over any
  file systems: the tables keep their sizes, no file system is registered
  twice, the mounted file system is a registered one, and a file can be open
  only while a file system is mounted. Consequently the mounted file system
  cannot be unregistered, a second one cannot be mounted, and unmounting is
  refused while a file is open; each refusal changes nothing.
\<close>

theorem vfs_reachable_safe:
  assumes "vfs_reachable v"
  shows "length (vfs_filesystems v) = VFS_MAX_FILESYSTEMS \<and> length (vfs_open_files v) = VFS_MAX_OPEN_FILES \<and>
         distinct (filter (\<lambda>p. p \<noteq> NULL) (vfs_filesystems v)) \<and>
         (vfs_active_filesystem v \<noteq> NULL \<longrightarrow>
            vfs_active_filesystem v \<in> set (vfs_filesystems v) \<and>
            filesystem_unregister v (vfs_active_filesystem v) = (False, v) \<and>
            (\<forall>p device. vfs_mount v p device = (False, v))) \<and>
         (vfs_active_filesystem v = NULL \<longrightarrow> open_map v = Map.empty) \<and>
         (open_map v \<noteq> Map.empty \<longrightarrow> (\<forall>p. vfs_unmount v p = (False, v)))"
proof -
  have ok: "vfs_ok v" by (rule vfs_reachable_ok [OF assms])
  note S = some_file_open_iff [OF ok]
  have "open_map v \<noteq> Map.empty \<Longrightarrow> vfs_unmount v p = (False, v)" for p
    using S by (auto simp: vfs_unmount_def some_file_open_def list_ex_iff split: option.splits)
  moreover have "vfs_active_filesystem v \<noteq> NULL \<Longrightarrow> vfs_mount v p device = (False, v)" for p device
    by (simp add: vfs_mount_def)
  moreover have "vfs_active_filesystem v \<noteq> NULL \<Longrightarrow> filesystem_unregister v (vfs_active_filesystem v) = (False, v)"
    by (simp add: filesystem_unregister_def)
  ultimately show ?thesis using ok S by (auto simp: vfs_ok_def registered_def)
qed

theorem vfs_reachable_safe_witness:
  "vfs_mount ex_vfs 6 2 = (False, ex_vfs) \<and> filesystem_unregister ex_vfs 5 = (False, ex_vfs)"
  using vfs_reachable_safe [OF ex_vfs_reachable] by (auto simp: ex_vfs_fields)


subsection \<open>Handles\<close>

text \<open>
  C38: Opening succeeds exactly when the path resolves and fewer than 32 files
  are open. The handle is the lowest free one; it refers to the resolved inode
  at position 0, and no other handle changes. A failed open changes nothing.
\<close>

theorem vfs_open_exact:
  assumes "vfs_reachable v" and "vfs_open v path flags True = (r, v')"
  shows "(r \<noteq> None \<longleftrightarrow> active_lookup v path \<noteq> None \<and> card (dom (open_map v)) < VFS_MAX_OPEN_FILES) \<and>
         (case r of
            None \<Rightarrow> v' = v
          | Some h \<Rightarrow> h < VFS_MAX_OPEN_FILES \<and> open_map v h = None \<and> (\<forall>m < h. open_map v m \<noteq> None) \<and>
              open_map v' = (open_map v)(h \<mapsto>
                \<lparr>vf_inode = the (active_lookup v path), vf_position = 0, vf_flags = flags,
                 vf_filesystem_private = fs_private_data (active v)\<rparr>))"
proof -
  note ok = vfs_reachable_ok [OF assms(1)]
  note sp = vfs_open_spec [OF ok assms(2)]
  have sub: "dom (open_map v) \<subseteq> {..<32}" using open_mapD [of v] by auto
  show ?thesis
  proof (cases r)
    case None
    then show ?thesis using sp by auto
  next
    case (Some h)
    then have h: "h < 32" "open_map v h = None" using sp by auto
    then have "dom (open_map v) \<subset> {..<32}" using sub by auto
    then have "card (dom (open_map v)) < 32" using psubset_card_mono [of "{..<32 :: nat}"] by simp
    then show ?thesis using sp Some by auto
  qed
qed

theorem vfs_open_exact_witness: "fst (vfs_open ex_vfs (Some ''/f'') 0 True) = Some 0"
  using vfs_open_exact [OF ex_vfs_reachable, of "Some ''/f''" 0 "fst (vfs_open ex_vfs (Some ''/f'') 0 True)"
      "snd (vfs_open ex_vfs (Some ''/f'') 0 True)"]
  by (auto simp: ex_lookup ex_open_map split: option.splits)

text \<open>
  Closing succeeds exactly for an open handle. Afterwards the handle is
  dead: a second close, a seek, a read and a write through it are refused
  without effect. All other handles are as before, and the world below is
  untouched.
\<close>

theorem vfs_close_invalidates:
  assumes "vfs_reachable v" and "vfs_close v (Some h) = (r, v')"
  shows "(r \<longleftrightarrow> open_map v h \<noteq> None) \<and> open_map v' = (open_map v)(h := None) \<and> vfs_world v' = vfs_world v \<and>
         vfs_close v' (Some h) = (False, v') \<and> vfs_seek v' (Some h) position = (False, v') \<and>
         vfs_read v' (Some h) buf n = (-1, v', buf) \<and> vfs_write v' (Some h) buf n = (-1, v')"
proof -
  note ok = vfs_reachable_ok [OF assms(1)]
  note C = vfs_close_spec [OF ok]
  have m: "open_map v' = (open_map v)(h := None)" using C(2) [of h] assms(2) by simp
  then have "\<not> vfs_file_is_open v' (Some h)" by (simp add: is_open_iff)
  moreover have "vfs_world v' = vfs_world v" using assms(2) by (auto simp: vfs_close_def split: if_splits)
  ultimately show ?thesis
    using C(1) [of "Some h"] assms(2) m
    by (simp add: vfs_close_def [of v'] vfs_seek_def vfs_read_def vfs_write_def)
qed

theorem vfs_close_invalidates_witness:
  "fst (vfs_close ex_opened (Some 0)) \<and> \<not> fst (vfs_close (snd (vfs_close ex_opened (Some 0))) (Some 0))"
  using vfs_close_invalidates [OF ex_opened_reachable, of 0 "fst (vfs_close ex_opened (Some 0))"
      "snd (vfs_close ex_opened (Some 0))"]
  by (simp add: ex_opened_map)

subsection \<open>Access control\<close>

text \<open>
  C13: A caller without the write permission on an open file's inode writes
  nothing, and one without the read permission reads nothing: the call returns
  -1, and neither the buffer nor any part of the state of the VFS, of the
  volume or of the device changes. The permission is checked at every call, for
  the identity of that moment.
\<close>

theorem vfs_access_denied:
  assumes "initrafs_active v p" and "open_map v h = Some f"
  shows "(\<not> initrafs_inode_check_permission (Some (st_inode (fw_store (vfs_world v)) (vf_inode f)))
             (vfs_caller_uid v) (vfs_caller_gid v) INITRAFS_PERMISSION_WRITE \<longrightarrow>
            vfs_write v (Some h) (Some buf) n = (-1, v)) \<and>
         (\<not> initrafs_inode_check_permission (Some (st_inode (fw_store (vfs_world v)) (vf_inode f)))
             (vfs_caller_uid v) (vfs_caller_gid v) INITRAFS_PERMISSION_READ \<longrightarrow>
            vfs_read v (Some h) (Some buf) n = (-1, v, Some buf))"
  using vfs_write_denied [OF assms] vfs_read_denied [OF assms] by blast

definition ex_guest :: "u8 list option world vfs" where
  "ex_guest = snd (vfs_set_caller_identity ex_opened 7 7)"

theorem vfs_access_denied_witness: "vfs_write ex_guest (Some 0) (Some [1, 2]) 2 = (-1, ex_guest)"
proof -
  have g: "ex_guest = ex_opened\<lparr>vfs_caller_uid := 7, vfs_caller_gid := 7\<rparr>"
    by (simp add: ex_guest_def vfs_set_caller_identity_def)
  have a: "initrafs_active ex_guest 1"
    using ex_opened_fields(2) by (simp add: g initrafs_active_def) (simp add: active_def)
  have h: "open_map ex_guest 0 = Some ex_file" by (simp add: g ex_opened_map)
  show ?thesis
    using vfs_access_denied [OF a h, of "[1, 2]" 2] ex_permissions(3)
    by (simp add: g ex_opened_fields ex_views ex_file_def)
qed


subsection \<open>Files through the VFS\<close>

text \<open>
  C4: What is written through the VFS is read back. With InitraFS mounted on
  the RAM disk and a free handle, opening the path of a file, writing at most
  4096 bytes from its beginning when there is room, going back to the beginning
  and reading as much again succeeds at every step and returns the bytes
  written. In the end the file's contents are these bytes followed by the rest
  of the old ones, every other file has its old contents, the tree of
  directories is the same and the volume is in good order.
\<close>

theorem vfs_open_write_read:
  assumes "vfs_reachable v" and "initrafs_active v p" and "instance_ok (vfs_world v) p"
    and "ram_disk_ok (the_dev (vfs_world v) p)" and "card (dom (open_map v)) < VFS_MAX_OPEN_FILES"
    and "initrafs_path_lookup (fw_store (vfs_world v)) (Some (the_ns (vfs_world v) p)) (Some path) True = Some m"
    and "ns_map (fw_store (vfs_world v)) (the_ns (vfs_world v) p) m = Some node"
    and "file_map ram_disk_block (vfs_world v) p m = Some bytes"
    and "\<forall>k \<in> {INITRAFS_PERMISSION_READ, INITRAFS_PERMISSION_WRITE}.
           initrafs_inode_check_permission (Some (st_inode (fw_store (vfs_world v)) (nn_inode node)))
             (vfs_caller_uid v) (vfs_caller_gid v) k"
    and "n \<noteq> 0" and "unat n \<le> 4096" and "unat n \<le> length buf" and "length out = unat n"
    and "room_for (vfs_world v) p node 0 n"
  shows "\<exists>h v1 v2 v3 v4.
     vfs_open v (Some path) flags True = (Some h, v1) \<and>
     vfs_write v1 (Some h) (Some buf) n = (int (unat n), v2) \<and>
     vfs_seek v2 (Some h) 0 = (True, v3) \<and>
     vfs_read v3 (Some h) (Some out) n = (int (unat n), v4, Some (take (unat n) buf)) \<and>
     file_map ram_disk_block (vfs_world v4) p =
       (file_map ram_disk_block (vfs_world v) p)(m \<mapsto> take (unat n) buf @ drop (unat n) bytes) \<and>
     children (fw_store (vfs_world v4)) = children (fw_store (vfs_world v)) \<and> instance_ok (vfs_world v4) p"
proof -
  note ok = vfs_reachable_ok [OF assms(1)]
  let ?w = "vfs_world v" and ?f = "fresh_file v (nn_inode node) flags"
  obtain h where h: "h < VFS_MAX_OPEN_FILES" "nn_inode node \<noteq> NULL"
      and op: "vfs_open v (Some path) flags True = (Some h, set_file v h ?f)" and ok1: "vfs_ok (set_file v h ?f)"
    using vfs_open_initrafs [OF ok assms(2,3,5,6,7), of flags] by blast
  have f: "vf_inode ?f = nn_inode node" "vf_position ?f = 0" by (simp_all add: fresh_file_def)
  have m1: "open_map (set_file v h ?f) h = Some ?f" using open_map_set_file [OF ok h(1)] h(2) f by simp
  obtain w' s where w: "vfs_write (set_file v h ?f) (Some h) (Some buf) n =
       (int (unat n), set_file (v\<lparr>vfs_world := w'\<rparr>) h (?f\<lparr>vf_position := n\<rparr>))"
    and W: "instance_ok w' p" "ram_disk_ok (the_dev w' p)" "the_ns w' p = the_ns ?w p"
      "file_map ram_disk_block w' p = (file_map ram_disk_block ?w p)(m \<mapsto> blit bytes 0 (take (unat n) buf))"
      "children (fw_store w') = children (fw_store ?w)" "ns_map (fw_store w') = ns_map (fw_store ?w)"
      "st_inode (fw_store w') = (st_inode (fw_store ?w))
         (nn_inode node := (st_inode (fw_store ?w) (nn_inode node))\<lparr>fi_size := s\<rparr>)"
    using vfs_write_initrafs [OF ok1 _ _ _ m1, of p m node bytes n buf] assms(2-4,7-12,14) f
    by auto
  let ?v = "v\<lparr>vfs_world := w'\<rparr>"
  have ok2: "vfs_ok ?v" using ok by simp
  have sk: "vfs_seek (set_file ?v h (?f\<lparr>vf_position := n\<rparr>)) (Some h) 0 = (True, set_file ?v h ?f)"
    using vfs_seek_open [OF ok2 h(1), of "?f\<lparr>vf_position := n\<rparr>" 0] h(2) f by (simp add: fresh_file_def)
  have ok3: "vfs_ok (set_file ?v h ?f)"
    by (rule vfs_ok_set_file [OF ok2]) (use initrafs_activeD(1) [OF assms(2)] in simp)
  have m3: "open_map (set_file ?v h ?f) h = Some ?f" using open_map_set_file [OF ok2 h(1)] h(2) f by simp
  have "vfs_read (set_file ?v h ?f) (Some h) (Some out) n =
      (int (unat n), set_file ?v h (?f\<lparr>vf_position := n\<rparr>), Some (take (unat n) buf))"
    using vfs_read_initrafs [OF ok3 _ _ _ m3, of p m node "blit bytes 0 (take (unat n) buf)" n out] W
      assms(2,7,9,12,13) f by (simp add: blit_def)
  moreover have "blit bytes 0 (take (unat n) buf) = take (unat n) buf @ drop (unat n) bytes"
    using assms(12) by (simp add: blit_def)
  ultimately show ?thesis
    using op w sk W by (intro exI [of _ h] exI conjI) (assumption | simp)+
qed

lemma ex_write_room: "room_for ex_world 1 ex_file_node 0 3"
proof -
  have "write_range 0 3 = [0]" by (simp add: write_range_def logical_range_def)
  then show ?thesis
    using ex_blocks_free ex_disk_inode_blocks
    by (simp add: room_for_def missing_def ex_world_def ex_instance_def ex_store_def ex_file_node_def Collect_conv_if)
qed

lemma ex_lookup_f: "initrafs_path_lookup ex_store (Some ex_namespace) (Some ''/f'') True = Some 2"
  by (simp add: path_lookup_walk [OF ex_tree_ok] ex_components ex_children ex_root)

theorem vfs_open_write_read_witness:
  "\<exists>h v1 v2 v3 v4.
     vfs_open ex_vfs (Some ''/f'') 0 True = (Some h, v1) \<and> vfs_write v1 (Some h) (Some [104, 105, 33]) 3 = (3, v2) \<and>
     vfs_seek v2 (Some h) 0 = (True, v3) \<and>
     vfs_read v3 (Some h) (Some [0, 0, 0]) 3 = (3, v4, Some [104, 105, 33])"
  using vfs_open_write_read [OF ex_vfs_reachable ex_active, of "''/f''" 2 ex_file_node "[]" 3 "[104, 105, 33]" "[0, 0, 0]" 0]
    ex_instance_ok ex_device_ok ex_open_map ex_lookup_f ex_ns_map ex_file_map ex_permissions(1,2) ex_write_room
  by (auto simp: ex_vfs_fields ex_views ex_nodes)

text \<open>
  C39: Reading in two steps is the same as reading at once: two consecutive
  reads through the same handle return together exactly the bytes that a single
  read of the combined length returns, and leave the same state, also when the
  end of the file is reached in between.
\<close>

theorem vfs_read_split:
  assumes "vfs_reachable v" and "initrafs_active v p" and "instance_ok (vfs_world v) p"
    and "ram_disk_ok (the_dev (vfs_world v) p)" and "open_map v h = Some f"
    and "ns_map (fw_store (vfs_world v)) (the_ns (vfs_world v) p) m = Some node" and "vf_inode f = nn_inode node"
    and "file_map ram_disk_block (vfs_world v) p m = Some bytes"
    and "initrafs_inode_check_permission (Some (st_inode (fw_store (vfs_world v)) (vf_inode f)))
           (vfs_caller_uid v) (vfs_caller_gid v) INITRAFS_PERMISSION_READ"
    and "length b1 = unat n1" and "length b2 = unat n2" and "unat n1 + unat n2 < 2 ^ 32"
    and "vfs_read v (Some h) (Some b1) n1 = (r1, v1, Some c1)" and "vfs_read v1 (Some h) (Some b2) n2 = (r2, v2, Some c2)"
  shows "\<exists>c. vfs_read v (Some h) (Some (b1 @ b2)) (n1 + n2) = (r1 + r2, v2, Some c) \<and>
           take (nat (r1 + r2)) c = take (nat r1) c1 @ take (nat r2) c2"
proof -
  note ok = vfs_reachable_ok [OF assms(1)]
  note rd = vfs_read_initrafs [OF ok assms(2-9)]
  let ?x = "vf_position f"
  define s1 where "s1 = take (unat n1) (drop (unat ?x) bytes)"
  define f1 where "f1 = f\<lparr>vf_position := ?x + of_nat (length s1)\<rparr>"
  define s2 where "s2 = take (unat n2) (drop (unat ?x + length s1) bytes)"
  have e1: "r1 = int (length s1)" "v1 = set_file v h f1" "c1 = blit b1 0 s1"
    using rd [of n1 b1] assms(10,13) by (simp_all add: s1_def f1_def Let_def)
  have hl: "h < VFS_MAX_OPEN_FILES" "vf_inode f \<noteq> NULL" using open_mapD [OF assms(5)] by auto
  have ok1: "vfs_ok v1"
    unfolding e1 by (rule vfs_ok_set_file [OF ok]) (use initrafs_activeD(1) [OF assms(2)] in simp)
  have m1: "open_map v1 h = Some f1" using open_map_set_file [OF ok hl(1)] hl(2) by (simp add: e1 f1_def)
  have p2: "take (unat n2) (drop (unat (vf_position f1)) bytes) = s2"
    using advanced_position [OF s1_def file_map_length [OF assms(3,8)]] by (simp add: f1_def s2_def)
  have "initrafs_active v1 p" "instance_ok (vfs_world v1) p" "ram_disk_ok (the_dev (vfs_world v1) p)"
      "ns_map (fw_store (vfs_world v1)) (the_ns (vfs_world v1) p) m = Some node" "vf_inode f1 = nn_inode node"
      "file_map ram_disk_block (vfs_world v1) p m = Some bytes"
      "initrafs_inode_check_permission (Some (st_inode (fw_store (vfs_world v1)) (vf_inode f1)))
         (vfs_caller_uid v1) (vfs_caller_gid v1) INITRAFS_PERMISSION_READ"
    using assms(2-4,6-9) by (simp_all add: e1 f1_def)
  note rd2 = vfs_read_initrafs [OF ok1 this(1-3) m1 this(4-7), of n2 b2, unfolded p2 Let_def]
  have e2: "r2 = int (length s2)" "c2 = blit b2 0 s2"
      "v2 = set_file v h (f\<lparr>vf_position := ?x + of_nat (length s1) + of_nat (length s2)\<rparr>)"
    using rd2 assms(11,14) by (simp_all add: e1 f1_def)
  have u: "unat (n1 + n2) = unat n1 + unat n2" using assms(12) by (simp add: unat_word_ariths)
  have b: "take (unat (n1 + n2)) (drop (unat ?x) bytes) = s1 @ s2"
    unfolding u s1_def s2_def by (rule take_drop_split)
  have "vfs_read v (Some h) (Some (b1 @ b2)) (n1 + n2) = (r1 + r2, v2, Some (blit (b1 @ b2) 0 (s1 @ s2)))"
    using rd [of "n1 + n2" "b1 @ b2", unfolded b Let_def] assms(10,11) u by (simp add: e1 e2 add.assoc)
  moreover have "nat (r1 + r2) = length (s1 @ s2)" by (simp add: e1 e2)
  ultimately show ?thesis by (auto simp: e1 e2 blit_def)
qed

theorem vfs_read_split_witness:
  "\<exists>r1 v1 c1 r2 v2 c2 c. vfs_read ex_opened (Some 0) (Some [7]) 1 = (r1, v1, Some c1) \<and>
     vfs_read v1 (Some 0) (Some [7]) 1 = (r2, v2, Some c2) \<and>
     vfs_read ex_opened (Some 0) (Some [7, 7]) 2 = (r1 + r2, v2, Some c)"
proof -
  note A = ex_opened_reachable ex_opened_fields(2)
  note rd = vfs_read_initrafs [OF vfs_reachable_ok [OF A(1)] A(2), of 0 ex_file 2 ex_file_node "[]"]
  have hyps: "instance_ok (vfs_world ex_opened) 1" "ram_disk_ok (the_dev (vfs_world ex_opened) 1)"
      "open_map ex_opened 0 = Some ex_file"
      "ns_map (fw_store (vfs_world ex_opened)) (the_ns (vfs_world ex_opened) 1) 2 = Some ex_file_node"
      "vf_inode ex_file = nn_inode ex_file_node" "file_map ram_disk_block (vfs_world ex_opened) 1 2 = Some []"
      "initrafs_inode_check_permission (Some (st_inode (fw_store (vfs_world ex_opened)) (vf_inode ex_file)))
         (vfs_caller_uid ex_opened) (vfs_caller_gid ex_opened) INITRAFS_PERMISSION_READ"
    using ex_instance_ok ex_device_ok ex_opened_map ex_ns_map ex_file_map ex_permissions(1)
    by (simp_all add: ex_opened_fields ex_views ex_file_def ex_nodes)
  have r: "vfs_read ex_opened (Some 0) (Some [7]) 1 = (0, ex_opened, Some [7])"
    using rd [OF hyps, of 1 "[7]"] open_mapD [OF hyps(3)] by (simp add: blit_def set_file_same)
  show ?thesis
    using vfs_read_split [OF A hyps, of "[7]" 1 "[7]" 1] r by fastforce
qed


subsection \<open>Directories through the VFS\<close>

text \<open>
  C11: Removing a directory through the VFS succeeds exactly when the path leads
  to an empty directory other than the root, linked under the path's last name,
  that is not protected by the system, and the caller may write and execute its
  parent. Then exactly this directory disappears from the tree, all files keep
  their contents and the volume stays in good order; otherwise the call returns
  0 and nothing changes.
\<close>

theorem vfs_rmdir_exact:
  assumes "initrafs_active v p" and "instance_ok (vfs_world v) p" and "nul \<notin> set path"
  shows "(\<exists>n q c names w'. path \<noteq> [] \<and> removable (fw_store (vfs_world v)) (the_ns (vfs_world v) p) path n q c \<and>
            may_remove (vfs_world v) (vfs_get_caller_identity v) p n q \<and>
            children (fw_store (vfs_world v)) (the_ns (vfs_world v) p) q = Some names \<and>
            vfs_rmdir v (Some path) = (1, v\<lparr>vfs_world := w'\<rparr>) \<and> instance_ok w' p \<and>
            children (fw_store w') (the_ns w' p) =
              (children (fw_store (vfs_world v)) (the_ns (vfs_world v) p))(q \<mapsto> names(c := None), n := None) \<and>
            file_map blocks w' p = file_map blocks (vfs_world v) p) \<or>
         (\<forall>n q c. path \<noteq> [] \<and> removable (fw_store (vfs_world v)) (the_ns (vfs_world v) p) path n q c \<longrightarrow>
            \<not> may_remove (vfs_world v) (vfs_get_caller_identity v) p n q) \<and>
         vfs_rmdir v (Some path) = (0, v)"
proof -
  note A = initrafs_activeD [OF assms(1)]
  let ?w = "vfs_world v" and ?c = "vfs_get_caller_identity v"
  have rm: "vfs_rmdir v (Some path) = (case initrafs_vfs_rmdir ?w ?c p path of (r, w) \<Rightarrow> (r, v\<lparr>vfs_world := w\<rparr>))"
    using A(1,2,5) by (simp add: vfs_rmdir_def path_op_def)
  show ?thesis
  proof (cases "path \<noteq> [] \<and> (\<exists>n q c. removable (fw_store ?w) (the_ns ?w p) path n q c)")
    case True
    then obtain n q c where r: "path \<noteq> []" "removable (fw_store ?w) (the_ns ?w p) path n q c" by blast
    note al = rmdir_allowed_iff [OF assms(2,3) r, of ?c]
    show ?thesis
    proof (cases "may_remove ?w ?c p n q")
      case True
      from vfs_rmdir_refines [OF assms(2,3) r True, of blocks] r True rm show ?thesis by fastforce
    next
      case False
      then have "\<not> rmdir_allowed ?w ?c p path" using al by simp
      then have "vfs_rmdir v (Some path) = (0, v)" by (simp add: rm initrafs_vfs_rmdir_def)
      moreover have "\<not> may_remove ?w ?c p n' q'"
        if "path \<noteq> [] \<and> removable (fw_store ?w) (the_ns ?w p) path n' q' c'" for n' q' c'
        using rmdir_allowed_iff [OF assms(2,3), of n' q' c' ?c] that \<open>\<not> rmdir_allowed ?w ?c p path\<close> by blast
      ultimately show ?thesis by blast
    qed
  next
    case False
    then show ?thesis using vfs_rmdir_refuses [OF assms(2,3), of ?c] rm by auto
  qed
qed

theorem vfs_rmdir_exact_witness: "fst (vfs_rmdir ex_vfs (Some ''/d'')) = 1"
proof -
  have i: "instance_ok (vfs_world ex_vfs) 1" "nul \<notin> set ''/d''" using ex_instance_ok by (simp_all add: ex_vfs_fields)
  have r: "removable (fw_store (vfs_world ex_vfs)) (the_ns (vfs_world ex_vfs) 1) ''/d'' 3 1 ''d''"
    using ex_entries(4) by (auto simp: ex_vfs_fields ex_views removable_def ex_components ex_children ex_root
        ex_ns_map ex_node_entries dots_def)
  have "may_remove (vfs_world ex_vfs) (vfs_get_caller_identity ex_vfs) 1 3 1"
    using ex_permissions(4,5)
    by (simp add: may_remove_def ex_vfs_fields ex_views ex_ns_map vfs_get_caller_identity_def ex_nodes)
  with r vfs_rmdir_exact [OF ex_active i] show ?thesis by fastforce
qed

text \<open>
  Listing a directory through the VFS returns the number of its entries in
  use and writes exactly these, in order, to the front of the array, leaving
  the rest of it alone. If they do not fit into the given number of bytes, at 60
  bytes per entry, it returns 0 and writes nothing.
\<close>

theorem vfs_readdir_lists:
  assumes "initrafs_active v p" and "instance_ok (vfs_world v) p"
    and "initrafs_path_lookup (fw_store (vfs_world v)) (Some (the_ns (vfs_world v) p)) (Some path) True = Some m"
    and "ns_map (fw_store (vfs_world v)) (the_ns (vfs_world v) p) m = Some node"
    and "node_is_dir (fw_store (vfs_world v)) node"
  shows "vfs_readdir v (Some path) (Some out) size_arg =
     (let es = filter entry_used (node_entries (fw_store (vfs_world v)) node)
      in if length es \<le> unat size_arg div 60 then (int (length es), Some (es @ drop (length es) out))
         else (0, Some out))"
  using vfs_readdir_initrafs [OF assms, of out size_arg] by (simp add: Let_def)

theorem vfs_readdir_lists_witness:
  "fst (vfs_readdir ex_vfs (Some ''/d'') (Some (replicate 2 zero_dirent)) 120) = 2 \<and>
   vfs_readdir ex_vfs (Some ''/d'') (Some [zero_dirent]) 60 = (0, Some [zero_dirent])"
proof -
  have l: "initrafs_path_lookup (fw_store (vfs_world ex_vfs)) (Some (the_ns (vfs_world ex_vfs) 1)) (Some ''/d'') True = Some 3"
    by (simp add: ex_vfs_fields ex_views path_lookup_walk [OF ex_tree_ok] ex_components ex_children ex_root)
  have n: "ns_map (fw_store (vfs_world ex_vfs)) (the_ns (vfs_world ex_vfs) 1) 3 = Some ex_dir_node"
      "node_is_dir (fw_store (vfs_world ex_vfs)) ex_dir_node" "instance_ok (vfs_world ex_vfs) 1"
    using ex_types(3) ex_instance_ok by (simp_all add: ex_vfs_fields ex_views ex_ns_map)
  have es: "length (filter entry_used (node_entries (fw_store (vfs_world ex_vfs)) ex_dir_node)) = 2"
    unfolding ex_vfs_fields ex_views ex_node_entries by code_simp
  show ?thesis
    using vfs_readdir_lists [OF ex_active n(3) l n(1,2), of "replicate 2 zero_dirent" 120]
      vfs_readdir_lists [OF ex_active n(3) l n(1,2), of "[zero_dirent]" 60] es
    by (simp add: Let_def)
qed

end
