(* ===== verification/Security_Core.thy ===== *)
theory Security_Core
  imports InitraOS_Prelude
begin

section \<open>The security core\<close>

text \<open>
  \<open>security.c\<close> and \<open>security.h\<close>: authorization decisions and the audit log, a
  ring of 16 events. The log is shown to be the last 16 of all decisions since
  \<open>security_init\<close>, in order, with consecutive sequence numbers.
\<close>

definition SECURITY_PRIVILEGE_KERNEL :: u32 where [simp]: "SECURITY_PRIVILEGE_KERNEL = 0"
definition SECURITY_PRIVILEGE_USER :: u32 where [simp]: "SECURITY_PRIVILEGE_USER = 3"
definition SECURITY_ALLOWED :: u32 where [simp]: "SECURITY_ALLOWED = 1"
definition SECURITY_DENIED :: u32 where [simp]: "SECURITY_DENIED = 0"
definition SECURITY_MAX_AUDIT_EVENTS :: u32 where [simp]: "SECURITY_MAX_AUDIT_EVENTS = 16"
definition SECURITY_OPERATION_PROTECTED_TEST :: u32 where [simp]: "SECURITY_OPERATION_PROTECTED_TEST = 1"
definition SECURITY_OPERATION_RESOURCE_ACCESS :: u32 where [simp]: "SECURITY_OPERATION_RESOURCE_ACCESS = 2"
definition SECURITY_AUDIT_FILTER_ALL :: u32 where [simp]: "SECURITY_AUDIT_FILTER_ALL = 0"
definition SECURITY_AUDIT_FILTER_RESULT :: u32 where [simp]: "SECURITY_AUDIT_FILTER_RESULT = 1"
definition SECURITY_AUDIT_FILTER_OPERATION :: u32 where [simp]: "SECURITY_AUDIT_FILTER_OPERATION = 2"
definition SECURITY_STATUS_KERNEL_PROTECTION :: u32 where [simp]: "SECURITY_STATUS_KERNEL_PROTECTION = 0x01"
definition SECURITY_STATUS_USER_ISOLATION :: u32 where [simp]: "SECURITY_STATUS_USER_ISOLATION = 0x02"
definition SECURITY_STATUS_AUDIT_SUBSYSTEM :: u32 where [simp]: "SECURITY_STATUS_AUDIT_SUBSYSTEM = 0x04"
definition SECURITY_STATUS_FILESYSTEM_ACCESS :: u32 where [simp]: "SECURITY_STATUS_FILESYSTEM_ACCESS = 0x08"
definition SECURITY_STATUS_FILESYSTEM_INTEGRITY :: u32 where [simp]: "SECURITY_STATUS_FILESYSTEM_INTEGRITY = 0x10"
definition SECURITY_STATUS_SYSTEM_PROTECTION :: u32 where [simp]: "SECURITY_STATUS_SYSTEM_PROTECTION = 0x20"
definition SECURITY_STATUS_MASK :: u32 where [simp]: "SECURITY_STATUS_MASK = 0x3F"

record security_identity_info_t =
  sii_pid :: u32
  sii_uid :: u32
  sii_gid :: u32
  sii_privilege :: u32

record security_audit_event_t =
  ev_sequence :: u32
  ev_pid :: u32
  ev_privilege :: u32
  ev_operation :: u32
  ev_result :: u32

text \<open>The static variables of \<open>security.c\<close>.\<close>

record security_state =
  audit_events :: "security_audit_event_t list"
  audit_count :: u32
  audit_head :: u32
  audit_sequence :: u32

subsection \<open>The source's functions\<close>

definition security_audit_record :: "security_state \<Rightarrow> u32 \<Rightarrow> u32 \<Rightarrow> u32 \<Rightarrow> u32 \<Rightarrow> security_state" where
  "security_audit_record s pid privilege operation result =
     (let (position, s) =
        (if audit_count s < SECURITY_MAX_AUDIT_EVENTS
         then ((audit_head s + audit_count s) mod SECURITY_MAX_AUDIT_EVENTS,
               s\<lparr>audit_count := audit_count s + 1\<rparr>)
         else (audit_head s, s\<lparr>audit_head := (audit_head s + 1) mod SECURITY_MAX_AUDIT_EVENTS\<rparr>));
          s = s\<lparr>audit_sequence := audit_sequence s + 1\<rparr>
      in s\<lparr>audit_events := (audit_events s)[unat position :=
             \<lparr>ev_sequence = audit_sequence s, ev_pid = pid, ev_privilege = privilege,
              ev_operation = operation, ev_result = result\<rparr>]\<rparr>)"

definition zero_event :: security_audit_event_t where
  "zero_event = \<lparr>ev_sequence = 0, ev_pid = 0, ev_privilege = 0, ev_operation = 0, ev_result = 0\<rparr>"

definition security_init :: "security_state \<Rightarrow> security_state" where
  "security_init s =
     s\<lparr>audit_events := replicate (unat SECURITY_MAX_AUDIT_EVENTS) zero_event,
       audit_count := 0, audit_head := 0, audit_sequence := 0\<rparr>"

definition security_authorize ::
  "security_state \<Rightarrow> u32 \<Rightarrow> u32 \<Rightarrow> u32 \<Rightarrow> u32 \<Rightarrow> u32 \<times> security_state" where
  "security_authorize s pid caller_privilege operation required_privilege =
     (let result = (if caller_privilege \<le> required_privilege then SECURITY_ALLOWED else SECURITY_DENIED)
      in (result, security_audit_record s pid caller_privilege operation result))"

definition security_resource_authorize ::
  "security_state \<Rightarrow> u32 \<Rightarrow> u32 \<Rightarrow> u32 \<Rightarrow> u32 \<times> security_state" where
  "security_resource_authorize s caller_pid caller_privilege resource_owner_pid =
     (let result = (if caller_privilege \<le> SECURITY_PRIVILEGE_KERNEL then SECURITY_ALLOWED
                    else if caller_pid = resource_owner_pid then SECURITY_ALLOWED
                    else SECURITY_DENIED)
      in (result, security_audit_record s caller_pid caller_privilege
                    SECURITY_OPERATION_RESOURCE_ACCESS result))"

definition security_audit_count :: "security_state \<Rightarrow> u32" where
  "security_audit_count s = audit_count s"

definition security_status :: u32 where
  "security_status =
     SECURITY_STATUS_KERNEL_PROTECTION OR SECURITY_STATUS_USER_ISOLATION OR
     SECURITY_STATUS_AUDIT_SUBSYSTEM OR SECURITY_STATUS_FILESYSTEM_ACCESS OR
     SECURITY_STATUS_FILESYSTEM_INTEGRITY OR SECURITY_STATUS_SYSTEM_PROTECTION"

text \<open>The event at the given offset from the oldest one.\<close>

definition event_at :: "security_state \<Rightarrow> nat \<Rightarrow> security_audit_event_t" where
  "event_at s offset =
     audit_events s ! unat ((audit_head s + of_nat offset) mod SECURITY_MAX_AUDIT_EVENTS)"

text \<open>The two \<open>continue\<close> conditions of the loop, negated.\<close>

definition filter_matches :: "u32 \<Rightarrow> u32 \<Rightarrow> security_audit_event_t \<Rightarrow> bool" where
  "filter_matches filter_type filter_value event \<longleftrightarrow>
     \<not> (filter_type = SECURITY_AUDIT_FILTER_RESULT \<and> ev_result event \<noteq> filter_value) \<and>
     \<not> (filter_type = SECURITY_AUDIT_FILTER_OPERATION \<and> ev_operation event \<noteq> filter_value)"

fun audit_filter_loop ::
  "security_state \<Rightarrow> u32 \<Rightarrow> u32 \<Rightarrow> u32 \<Rightarrow> nat list \<Rightarrow> u32 \<Rightarrow> security_audit_event_t option" where
  "audit_filter_loop s filter_type filter_value index [] matched = None"
| "audit_filter_loop s filter_type filter_value index (offset # rest) matched =
     (if \<not> filter_matches filter_type filter_value (event_at s offset)
      then audit_filter_loop s filter_type filter_value index rest matched
      else if matched = index then Some (event_at s offset)
      else audit_filter_loop s filter_type filter_value index rest (matched + 1))"

definition security_audit_get_filtered ::
  "security_state \<Rightarrow> u32 \<Rightarrow> u32 \<Rightarrow> u32 \<Rightarrow> nonnull \<Rightarrow> security_audit_event_t option" where
  "security_audit_get_filtered s filter_type filter_value index event =
     (if \<not> event \<or> filter_type > SECURITY_AUDIT_FILTER_OPERATION then None
      else audit_filter_loop s filter_type filter_value index [0..<unat (audit_count s)] 0)"

definition security_audit_get :: "security_state \<Rightarrow> u32 \<Rightarrow> nonnull \<Rightarrow> security_audit_event_t option" where
  "security_audit_get s index event =
     (if \<not> event \<or> index \<ge> audit_count s then None else Some (event_at s (unat index)))"

subsection \<open>The contract of a bounded log\<close>

text \<open>
  A log of bounded capacity keeps the most recent entries. \<open>last_n\<close> says which.
\<close>

definition last_n :: "nat \<Rightarrow> 'a list \<Rightarrow> 'a list" where
  "last_n n xs = drop (length xs - n) xs"

lemma last_n_short [simp]: "length xs \<le> n \<Longrightarrow> last_n n xs = xs"
  by (simp add: last_n_def)

lemma length_last_n [simp]: "length (last_n n xs) = min n (length xs)"
  by (simp add: last_n_def)

lemma last_n_append_last_n: "last_n n (last_n n xs @ ys) = last_n n (xs @ ys)"
  by (cases "length xs \<le> n") (auto simp: last_n_def add.commute)

lemma map_last_n: "map f (last_n n xs) = last_n n (map f xs)"
  by (simp add: last_n_def drop_map)

locale bounded_log =
  fixes log_ok :: "'s \<Rightarrow> bool"
    and entries :: "'s \<Rightarrow> 'e list"
    and record_entry :: "'s \<Rightarrow> 'e \<Rightarrow> 's"
    and capacity :: nat
  assumes bounded: "log_ok s \<Longrightarrow> length (entries s) \<le> capacity"
    and record_ok: "log_ok s \<Longrightarrow> log_ok (record_entry s e)"
    and record_entries: "log_ok s \<Longrightarrow> entries (record_entry s e) = last_n capacity (entries s @ [e])"
begin

lemma record_all_ok: "log_ok s \<Longrightarrow> log_ok (fold (\<lambda>e s. record_entry s e) es s)"
  by (induction es arbitrary: s) (simp_all add: record_ok)

lemma record_all:
  "log_ok s \<Longrightarrow> entries (fold (\<lambda>e s. record_entry s e) es s) = last_n capacity (entries s @ es)"
proof (induction es arbitrary: s)
  case Nil
  then show ?case using bounded by simp
next
  case (Cons e es)
  then show ?case using last_n_append_last_n [of capacity "entries s @ [e]" es]
    by (simp add: record_ok record_entries)
qed

end

subsection \<open>The ring as a list of events\<close>

definition audit_list :: "security_state \<Rightarrow> security_audit_event_t list" where
  "audit_list s = map (event_at s) [0..<unat (audit_count s)]"

definition ring_ok :: "security_state \<Rightarrow> bool" where
  "ring_ok s \<longleftrightarrow> length (audit_events s) = 16 \<and> audit_head s < 16 \<and> audit_count s \<le> 16"

definition new_event :: "security_state \<Rightarrow> u32 \<Rightarrow> u32 \<Rightarrow> u32 \<Rightarrow> u32 \<Rightarrow> security_audit_event_t" where
  "new_event s pid privilege operation result =
     \<lparr>ev_sequence = audit_sequence s + 1, ev_pid = pid, ev_privilege = privilege,
      ev_operation = operation, ev_result = result\<rparr>"

lemma ring_position:
  assumes "h < 16" and "k \<le> 16"
  shows "unat ((h + of_nat k) mod (16 :: u32)) = (unat h + k) mod 16"
proof -
  have "unat h < 16" using assms(1) by (simp add: word_less_nat_alt)
  then have "unat (h + of_nat k) = unat h + k" using assms(2) by (simp add: unat_word_ariths unat_of_nat)
  then show ?thesis by (simp add: unat_mod_distrib)
qed

lemma ring_distinct: "j < k \<Longrightarrow> k < j + 16 \<Longrightarrow> (h + j) mod 16 \<noteq> (h + k) mod (16 :: nat)"
proof
  assume "j < k" "k < j + 16" "(h + j) mod 16 = (h + k) mod 16"
  then have "(16 :: nat) dvd h + k - (h + j)" by (metis add_le_cancel_left less_imp_le mod_eq_dvd_iff_nat)
  with \<open>j < k\<close> \<open>k < j + 16\<close> show False by (auto dest: dvd_imp_le)
qed

lemma length_audit_list [simp]: "length (audit_list s) = unat (audit_count s)"
  by (simp add: audit_list_def)

lemma record_ring_ok: "ring_ok s \<Longrightarrow> ring_ok (security_audit_record s pid pr op r)"
  by (auto simp: ring_ok_def security_audit_record_def Let_def word_less_nat_alt word_le_nat_alt
      unat_mod_distrib unat_word_ariths)

lemma record_audit_list:
  assumes ok: "ring_ok s"
  shows "audit_list (security_audit_record s pid pr op r) = last_n 16 (audit_list s @ [new_event s pid pr op r])"
proof (cases "audit_count s < 16")
  case True
  let ?c = "unat (audit_count s)" and ?h = "unat (audit_head s)" and ?e = "new_event s pid pr op r"
  from ok True have c: "?c < 16" "audit_head s < 16" "?h < 16" "length (audit_events s) = 16"
    by (simp_all add: ring_ok_def word_less_nat_alt)
  let ?s' = "security_audit_record s pid pr op r"
  have f: "audit_head ?s' = audit_head s" "unat (audit_count ?s') = Suc ?c"
      "audit_events ?s' = (audit_events s)[(?h + ?c) mod 16 := ?e]"
    using True ring_position [OF c(2), of ?c] c
    by (simp_all add: security_audit_record_def new_event_def unat_plus_1 [OF True])
  have "event_at ?s' k = (if k = ?c then ?e else event_at s k)" if "k \<le> ?c" for k
  proof -
    have "(?h + k) mod 16 \<noteq> (?h + ?c) mod 16" if "k \<noteq> ?c"
      using that \<open>k \<le> ?c\<close> c by (intro ring_distinct) auto
    then show ?thesis using ring_position [OF c(2), of k] that c by (auto simp: event_at_def f)
  qed
  then show ?thesis using c by (simp add: audit_list_def f)
next
  case False
  let ?h = "unat (audit_head s)" and ?e = "new_event s pid pr op r"
  from ok False have c: "audit_count s = 16" "audit_head s < 16" "?h < 16" "length (audit_events s) = 16"
    by (auto simp: ring_ok_def word_less_nat_alt not_less)
  let ?s' = "security_audit_record s pid pr op r"
  have f: "unat (audit_head ?s') = (?h + 1) mod 16" "audit_head ?s' < 16" "audit_count ?s' = 16"
      "audit_events ?s' = (audit_events s)[?h := ?e]"
    using ring_position [OF c(2), of 1] record_ring_ok [OF ok, of pid pr op r] c
    by (simp_all add: security_audit_record_def new_event_def ring_ok_def)
  have "event_at ?s' k = (if k = 15 then ?e else event_at s (Suc k))" if "k < 16" for k
  proof -
    have p: "unat ((audit_head ?s' + of_nat k) mod 16) = (?h + Suc k) mod 16"
      using ring_position [OF f(2), of k] that by (simp add: f(1) mod_simps)
    have "(?h + Suc k) mod 16 = ?h" if "k = 15" using that c by simp
    moreover have "(?h + 0) mod 16 \<noteq> (?h + Suc k) mod 16" if "k \<noteq> 15"
      using that \<open>k < 16\<close> by (intro ring_distinct) auto
    ultimately show ?thesis
      using ring_position [OF c(2), of "Suc k"] p that c by (auto simp: event_at_def f(4))
  qed
  then have "audit_list ?s' = map (\<lambda>k. if k = 15 then ?e else event_at s (Suc k)) [0..<16]"
    by (simp add: audit_list_def f)
  also have "\<dots> = map (event_at s) [1..<16] @ [?e]" by (rule nth_equalityI) (auto simp: nth_append)
  also have "\<dots> = last_n 16 (audit_list s @ [?e])" by (simp add: audit_list_def c last_n_def upt_rec)
  finally show ?thesis .
qed

text \<open>
  What an entry records besides its sequence number, and the ring as an
  implementation of the bounded log.
\<close>

type_synonym decision = "u32 \<times> u32 \<times> u32 \<times> u32"

definition event_decision :: "security_audit_event_t \<Rightarrow> decision" where
  "event_decision e = (ev_pid e, ev_privilege e, ev_operation e, ev_result e)"

definition decisions :: "security_state \<Rightarrow> decision list" where
  "decisions s = map event_decision (audit_list s)"

definition record_decision :: "security_state \<Rightarrow> decision \<Rightarrow> security_state" where
  "record_decision s d = (case d of (pid, pr, op, r) \<Rightarrow> security_audit_record s pid pr op r)"

interpretation audit_log: bounded_log ring_ok decisions record_decision 16
proof
  show "length (decisions s) \<le> 16" if "ring_ok s" for s
    using that by (simp add: decisions_def ring_ok_def word_le_nat_alt)
  show "ring_ok (record_decision s e)" if "ring_ok s" for s e
    using that by (simp add: record_decision_def record_ring_ok split: prod.splits)
  show "decisions (record_decision s e) = last_n 16 (decisions s @ [e])" if "ring_ok s" for s e
    using record_audit_list [OF that]
    by (cases e) (simp add: decisions_def record_decision_def map_last_n new_event_def event_decision_def)
qed

text \<open>The sequence numbers of the stored events are consecutive and end at the current one.\<close>

definition sequence_ok :: "security_state \<Rightarrow> bool" where
  "sequence_ok s \<longleftrightarrow>
     map ev_sequence (audit_list s) =
       map (\<lambda>k. audit_sequence s - of_nat k) (rev [0..<unat (audit_count s)])"

definition audit_ok :: "security_state \<Rightarrow> bool" where
  "audit_ok s \<longleftrightarrow> ring_ok s \<and> sequence_ok s"

lemma audit_init_ok: "audit_ok (security_init s) \<and> audit_list (security_init s) = []"
  by (simp add: audit_ok_def ring_ok_def sequence_ok_def security_init_def audit_list_def)

lemma record_fields:
  "audit_sequence (security_audit_record s pid pr op r) = audit_sequence s + 1"
  "ring_ok s \<Longrightarrow> unat (audit_count (security_audit_record s pid pr op r)) = min 16 (Suc (unat (audit_count s)))"
  by (auto simp: security_audit_record_def Let_def ring_ok_def unat_add_1 word_less_nat_alt word_le_nat_alt)

lemma rev_upt_shift: "rev [0..<Suc n] = map Suc (rev [0..<n]) @ [0]"
  by (metis map_Suc_upt rev.simps(2) rev_map upt_conv_Cons zero_less_Suc)

lemma last_n_rev_upt: "m \<le> n \<Longrightarrow> last_n m (rev [0..<n]) = rev [0..<m]"
  by (rule nth_equalityI) (auto simp: last_n_def rev_nth)

lemma record_audit_ok:
  assumes "audit_ok s"
  shows "audit_ok (security_audit_record s pid pr op r)"
proof -
  from assms have ok: "ring_ok s" and sq: "sequence_ok s" by (simp_all add: audit_ok_def)
  let ?s' = "security_audit_record s pid pr op r" and ?c = "unat (audit_count s)"
  let ?f = "\<lambda>k. audit_sequence s + 1 - of_nat k"
  have "map ev_sequence (audit_list ?s') = last_n 16 (map ev_sequence (audit_list s) @ [audit_sequence s + 1])"
    by (simp add: record_audit_list [OF ok] map_last_n new_event_def)
  also have "\<dots> = last_n 16 (map ?f (rev [0..<Suc ?c]))"
    using sq by (simp add: sequence_ok_def rev_upt_shift comp_def del: upt_Suc)
  also have "\<dots> = map ?f (rev [0..<min 16 (Suc ?c)])"
    using last_n_rev_upt [of 16 "Suc ?c"] by (cases "16 \<le> Suc ?c") (simp_all add: map_last_n [symmetric] min_def del: upt_Suc)
  finally show ?thesis
    using record_ring_ok [OF ok] by (simp add: audit_ok_def sequence_ok_def record_fields(2) [OF ok] record_fields(1))
qed

subsection \<open>Reading the log\<close>

definition nth_opt :: "'a list \<Rightarrow> nat \<Rightarrow> 'a option" where
  "nth_opt xs k = (if k < length xs then Some (xs ! k) else None)"

lemma audit_get_spec: "security_audit_get s index True = nth_opt (audit_list s) (unat index)"
  by (auto simp: security_audit_get_def nth_opt_def audit_list_def word_le_nat_alt)

lemma filter_loop_spec:
  "unat m + length xs < 2 ^ 32 \<Longrightarrow> unat m \<le> unat index \<Longrightarrow>
   audit_filter_loop s ft fv index xs m =
     nth_opt (filter (filter_matches ft fv) (map (event_at s) xs)) (unat index - unat m)"
proof (induction xs arbitrary: m)
  case Nil
  then show ?case by (simp add: nth_opt_def)
next
  case (Cons x xs)
  show ?case
  proof (cases "filter_matches ft fv (event_at s x) \<and> m \<noteq> index")
    case True
    then have "unat m \<noteq> unat index" by (simp add: word_unat_eq_iff)
    then have m: "unat (m + 1) = Suc (unat m)" "Suc (unat m) \<le> unat index"
      using Cons.prems unsigned_less [of index] by (auto intro: unat_add_1)
    then have "unat index - unat m = Suc (unat index - unat (m + 1))" by simp
    with True m Cons.prems Cons.IH [of "m + 1"] show ?thesis by (simp add: nth_opt_def)
  next
    case False
    with Cons.prems Cons.IH [of m] show ?thesis by (auto simp: nth_opt_def)
  qed
qed

lemma audit_get_filtered_spec:
  assumes "ring_ok s"
  shows "security_audit_get_filtered s ft fv index True =
     (if ft > 2 then None else nth_opt (filter (filter_matches ft fv) (audit_list s)) (unat index))"
  using filter_loop_spec [of 0 "[0..<unat (audit_count s)]" index s ft fv] assms
  by (simp add: security_audit_get_filtered_def audit_list_def ring_ok_def word_le_nat_alt)

subsection \<open>Sequences of requests\<close>

text \<open>The two kinds of request the kernel makes of the security core.\<close>

datatype request = Authorize u32 u32 u32 u32 | Resource u32 u32 u32

fun request_step :: "request \<Rightarrow> security_state \<Rightarrow> security_state" where
  "request_step (Authorize pid privilege operation required) s =
     snd (security_authorize s pid privilege operation required)"
| "request_step (Resource pid privilege owner) s = snd (security_resource_authorize s pid privilege owner)"

text \<open>The specification: who is allowed what, without any log.\<close>

fun request_decision :: "request \<Rightarrow> decision" where
  "request_decision (Authorize pid privilege operation required) =
     (pid, privilege, operation, if unat privilege \<le> unat required then 1 else 0)"
| "request_decision (Resource pid privilege owner) =
     (pid, privilege, 2, if privilege = 0 \<or> pid = owner then 1 else 0)"

lemma request_step_record: "request_step q s = record_decision s (request_decision q)"
  by (cases q) (auto simp: record_decision_def security_authorize_def security_resource_authorize_def
      Let_def word_le_nat_alt unat_eq_zero)

lemma requests_fold: "fold request_step qs s = fold (\<lambda>d s. record_decision s d) (map request_decision qs) s"
  by (induction qs arbitrary: s) (simp_all add: request_step_record)

lemma requests_audit_ok: "audit_ok s \<Longrightarrow> audit_ok (fold request_step qs s)"
  by (induction qs arbitrary: s) (simp_all add: request_step_record record_decision_def record_audit_ok split: prod.splits)

lemma requests_sequence: "audit_sequence (fold request_step qs s) = audit_sequence s + of_nat (length qs)"
  by (induction qs arbitrary: s)
    (simp_all add: request_step_record record_decision_def record_fields ac_simps split: prod.splits)

subsection \<open>Properties\<close>

text \<open>
  C16: Every decision is on record. After any sequence of requests since
  \<open>security_init\<close>, the audit log holds exactly the last 16 decisions (all of
  them, if there were fewer), oldest first: who asked, with which privilege, for
  what, and the outcome, which is to allow a privilege level at most the
  required one, or access by the kernel or by the owner of a resource. The
  events are numbered consecutively from 1, modulo \<open>2 ^ 32\<close>.
\<close>

theorem audit_log_last_16:
  "decisions (fold request_step qs (security_init s0)) = last_n 16 (map request_decision qs) \<and>
   map ev_sequence (audit_list (fold request_step qs (security_init s0))) =
     last_n 16 (map of_nat [1..<Suc (length qs)])"
proof -
  let ?s = "fold request_step qs (security_init s0)"
  have init: "audit_ok (security_init s0)" "decisions (security_init s0) = []"
    using audit_init_ok [of s0] by (simp_all add: decisions_def)
  then have d: "decisions ?s = last_n 16 (map request_decision qs)"
    unfolding requests_fold using audit_log.record_all [of "security_init s0" "map request_decision qs"]
    by (simp add: audit_ok_def)
  have "length (decisions ?s) = min 16 (length qs)" by (simp only: d length_last_n length_map)
  then have c: "unat (audit_count ?s) = min 16 (length qs)" by (simp add: decisions_def)
  have "map ev_sequence (audit_list ?s) = map (\<lambda>k. of_nat (length qs) - of_nat k) (rev [0..<min 16 (length qs)])"
    using requests_audit_ok [OF init(1), of qs] requests_sequence [of qs "security_init s0"] c
    by (simp add: audit_ok_def sequence_ok_def security_init_def)
  also have "\<dots> = last_n 16 (map of_nat [1..<Suc (length qs)])"
    by (rule nth_equalityI) (auto simp: last_n_def rev_nth of_nat_diff min_def simp del: upt_Suc)
  finally show ?thesis using d by simp
qed

text \<open>
  Reading the log by index returns the events of the log in chronological
  order, and fails past the end; reading through a filter returns the matching
  events in the same order, and fails past the last match and for an unknown
  kind of filter. The count is that of the stored events.
\<close>

theorem audit_query_exact:
  "security_audit_get (fold request_step qs (security_init s0)) index True =
     nth_opt (audit_list (fold request_step qs (security_init s0))) (unat index) \<and>
   security_audit_get_filtered (fold request_step qs (security_init s0)) filter_type filter_value index True =
     (if filter_type > SECURITY_AUDIT_FILTER_OPERATION then None
      else nth_opt (filter (filter_matches filter_type filter_value)
             (audit_list (fold request_step qs (security_init s0)))) (unat index)) \<and>
   unat (security_audit_count (fold request_step qs (security_init s0))) = min 16 (length qs)"
proof -
  let ?s = "fold request_step qs (security_init s0)"
  have init: "audit_ok (security_init s0)" "decisions (security_init s0) = []"
    using audit_init_ok [of s0] by (simp_all add: decisions_def)
  then have ok: "ring_ok ?s" using requests_audit_ok [of "security_init s0" qs] by (simp add: audit_ok_def)
  have "length (decisions ?s) = min 16 (length qs)"
    unfolding requests_fold using init audit_log.record_all [of "security_init s0" "map request_decision qs"]
    by (simp add: audit_ok_def)
  then show ?thesis
    using audit_get_spec [of ?s index] audit_get_filtered_spec [OF ok, of filter_type filter_value index]
    by (simp add: security_audit_count_def decisions_def)
qed

end
