(* ===== verification/Frame_Allocator.thy ===== *)
theory Frame_Allocator
  imports Unit_Allocator
begin

section \<open>The physical frame allocator\<close>

text \<open>
  The allocator of 4 KiB page frames in \<open>kernel.c\<close> (\<open>frame_alloc\<close>,
  \<open>frame_free\<close> and their helpers). The memory map the boot code leaves at
  \<open>E820_ENTRIES_ADDRESS\<close> and the linker symbol \<open>__kernel_end\<close> are fixed parts of
  the state. The allocator is shown to be the third implementation of
  \<open>unit_allocator\<close>.
\<close>

definition E820_MAX_ENTRIES :: nat where [simp]: "E820_MAX_ENTRIES = 32"
definition E820_USABLE :: u32 where [simp]: "E820_USABLE = 1"
definition FRAME_SIZE :: u32 where [simp]: "FRAME_SIZE = 0x1000"
definition FRAME_ALLOC_START :: u32 where [simp]: "FRAME_ALLOC_START = 0x00200000"
definition FRAME_TRACK_LIMIT :: u32 where [simp]: "FRAME_TRACK_LIMIT = 0x08000000"
definition FRAME_BITMAP_BYTES :: nat where [simp]: "FRAME_BITMAP_BYTES = 4096"
definition USER_CODE_BASE :: u32 where [simp]: "USER_CODE_BASE = 0x00100000"
definition USER_STACK_BASE :: u32 where [simp]: "USER_STACK_BASE = 0x007FF000"
definition USER_CODE_SIZE :: u32 where [simp]: "USER_CODE_SIZE = 0x00001000"
definition USER_STACK_SIZE :: u32 where [simp]: "USER_STACK_SIZE = 0x00001000"

record e820_entry =
  ee_base :: u32
  ee_base_high :: u32
  ee_length :: u32
  ee_length_high :: u32
  ee_type :: u32

record frame_state =
  fr_bitmap :: "u8 list"
  fr_e820 :: "e820_entry list"
  fr_kernel_end :: u32

subsection \<open>The source's functions\<close>

definition align_up_4k :: "u32 \<Rightarrow> u32" where
  "align_up_4k address = (address + 0xFFF) AND NOT 0xFFF"

definition frame_bitmap_index :: "u32 \<Rightarrow> u32" where
  "frame_bitmap_index frame = drop_bit 3 (drop_bit 12 frame)"

definition frame_bitmap_mask :: "u32 \<Rightarrow> u8" where
  "frame_bitmap_mask frame = ucast (push_bit (unat (drop_bit 12 frame AND 7)) (1 :: u32))"

definition frame_is_tracked :: "frame_state \<Rightarrow> u32 \<Rightarrow> bool" where
  "frame_is_tracked s frame \<longleftrightarrow>
     (if frame < FRAME_ALLOC_START \<or> frame \<ge> FRAME_TRACK_LIMIT \<or> frame AND (FRAME_SIZE - 1) \<noteq> 0 then False
      else (fr_bitmap s ! unat (frame_bitmap_index frame)) AND frame_bitmap_mask frame \<noteq> 0)"

definition frame_mark_used :: "frame_state \<Rightarrow> u32 \<Rightarrow> frame_state" where
  "frame_mark_used s frame =
     (let i = unat (frame_bitmap_index frame)
      in s\<lparr>fr_bitmap := (fr_bitmap s)[i := (fr_bitmap s ! i) OR frame_bitmap_mask frame]\<rparr>)"

definition frame_mark_free :: "frame_state \<Rightarrow> u32 \<Rightarrow> frame_state" where
  "frame_mark_free s frame =
     (let i = unat (frame_bitmap_index frame)
      in s\<lparr>fr_bitmap := (fr_bitmap s)[i := (fr_bitmap s ! i) AND NOT (frame_bitmap_mask frame)]\<rparr>)"

definition e820_covers :: "u32 \<Rightarrow> e820_entry \<Rightarrow> bool" where
  "e820_covers frame e \<longleftrightarrow>
     \<not> (ee_type e \<noteq> E820_USABLE \<or> ee_base_high e \<noteq> 0 \<or> ee_length_high e \<noteq> 0 \<or> ee_length e < FRAME_SIZE) \<and>
     frame \<ge> ee_base e \<and> frame - ee_base e \<le> ee_length e - FRAME_SIZE"

definition frame_in_usable_e820 :: "frame_state \<Rightarrow> u32 \<Rightarrow> bool" where
  "frame_in_usable_e820 s frame = list_ex (e820_covers frame) (take E820_MAX_ENTRIES (fr_e820 s))"

definition frame_is_reserved :: "frame_state \<Rightarrow> u32 \<Rightarrow> bool" where
  "frame_is_reserved s frame \<longleftrightarrow>
     (let kernel_start = 0x00008800; kernel_end = align_up_4k (fr_kernel_end s)
      in frame < FRAME_ALLOC_START \<or>
         (frame < kernel_end \<and> frame + FRAME_SIZE > kernel_start) \<or>
         frame = USER_CODE_BASE \<or> frame = USER_STACK_BASE)"

lemma frame_step: "frame < 0x08000000 \<Longrightarrow> unat (frame + 0x1000) = unat frame + 4096" for frame :: u32
  by (simp add: word_less_nat_alt unat_word_ariths)

function frame_alloc_loop :: "frame_state \<Rightarrow> u32 \<Rightarrow> u32 \<times> frame_state" where
  "frame_alloc_loop s frame =
     (if frame < FRAME_TRACK_LIMIT then
        if \<not> frame_in_usable_e820 s frame \<or> frame_is_reserved s frame \<or> frame_is_tracked s frame
        then frame_alloc_loop s (frame + FRAME_SIZE)
        else (frame, frame_mark_used s frame)
      else (0, s))"
  by pat_completeness auto

termination
  by (relation "measure (\<lambda>(s, f). 0x08000000 - unat f)") (auto simp: frame_step word_less_nat_alt)

declare frame_alloc_loop.simps [simp del]

definition frame_alloc :: "frame_state \<Rightarrow> u32 \<times> frame_state" where
  "frame_alloc s = frame_alloc_loop s FRAME_ALLOC_START"

definition frame_free :: "frame_state \<Rightarrow> u32 \<Rightarrow> bool \<times> frame_state" where
  "frame_free s frame =
     (if \<not> frame_is_tracked s frame then (False, s)
      else if \<not> frame_in_usable_e820 s frame \<or> frame_is_reserved s frame then (False, s)
      else (True, frame_mark_free s frame))"

subsection \<open>The bitmap contract\<close>

definition frame_in_range :: "u32 \<Rightarrow> bool" where
  "frame_in_range f \<longleftrightarrow> 0x00200000 \<le> f \<and> f < 0x08000000 \<and> unat f mod 4096 = 0"

definition frame_covered :: "frame_state \<Rightarrow> u32 \<Rightarrow> bool" where
  "frame_covered s f \<longleftrightarrow> length (fr_bitmap s) = 4096 \<and> frame_in_range f"

lemma and_FFF: "(f :: u32) AND 0xFFF = 0 \<longleftrightarrow> unat f mod 4096 = 0"
proof -
  have "f AND 0xFFF = f mod 4096"
    using take_bit_eq_mask [of 12 f] take_bit_eq_mod [of 12 f] by (simp add: mask_numeral)
  moreover have "unat (f mod 4096) = unat f mod 4096" by (simp add: unat_mod_distrib)
  ultimately show ?thesis by (metis unat_eq_zero)
qed

lemma frame_index_nat: "unat (frame_bitmap_index f) = unat f div 4096 div 8"
  by (simp add: frame_bitmap_index_def drop_bit_eq_div unat_div_distrib)

lemma frame_mask_bit: "frame_bitmap_mask f = 2 ^ (unat f div 4096 mod 8)"
proof -
  have "unat (drop_bit 12 f AND 7) = unat f div 4096 mod 8" by (simp add: drop_bit_eq_div unat_div_distrib)
  then show ?thesis by (simp add: frame_bitmap_mask_def ucast_push_bit_1)
qed

lemma frame_is_tracked_bit:
  "frame_is_tracked s f \<longleftrightarrow> frame_in_range f \<and> bitmap_bit (fr_bitmap s) (unat f div 4096)"
  by (auto simp: frame_is_tracked_def frame_in_range_def frame_index_nat frame_mask_bit bitmap_test and_FFF)

lemma frame_number_inject:
  "frame_in_range f \<Longrightarrow> frame_in_range g \<Longrightarrow> unat f div 4096 = unat g div 4096 \<longleftrightarrow> f = g"
  unfolding frame_in_range_def by (metis div_mult_mod_eq unat_eq_iff)

lemma frame_number_bound: "frame_in_range f \<Longrightarrow> unat f div 4096 div 8 < 4096"
  by (simp add: frame_in_range_def word_less_nat_alt less_mult_imp_div_less)

interpretation frame_map: unit_bitmap frame_is_tracked frame_mark_used frame_mark_free frame_covered
proof
  fix s :: frame_state and i j :: u32
  assume c: "frame_covered s i"
  then have i: "frame_in_range i" "unat i div 4096 div 8 < length (fr_bitmap s)"
    using frame_number_bound by (auto simp: frame_covered_def)
  show "frame_is_tracked (frame_mark_used s i) j \<longleftrightarrow> j = i \<or> frame_is_tracked s j"
    using i bitmap_bit_set [OF i(2)] frame_number_inject [OF _ i(1), of j]
    by (auto simp: frame_is_tracked_bit frame_mark_used_def Let_def frame_index_nat frame_mask_bit)
  show "frame_is_tracked (frame_mark_free s i) j \<longleftrightarrow> j \<noteq> i \<and> frame_is_tracked s j"
    using i bitmap_bit_clear [OF i(2)] frame_number_inject [OF _ i(1), of j]
    by (auto simp: frame_is_tracked_bit frame_mark_free_def Let_def frame_index_nat frame_mask_bit)
next
  fix s :: frame_state and i j :: u32
  show "frame_covered (frame_mark_used s i) j \<longleftrightarrow> frame_covered s j"
    "frame_covered (frame_mark_free s i) j \<longleftrightarrow> frame_covered s j"
    by (simp_all add: frame_covered_def frame_mark_used_def frame_mark_free_def Let_def)
qed

subsection \<open>Allocation and release as operations on the set of free frames\<close>

definition frame_units :: "frame_state \<Rightarrow> u32 set" where
  "frame_units s = {f. frame_in_range f \<and> frame_in_usable_e820 s f \<and> \<not> frame_is_reserved s f}"

definition frame_free_set :: "frame_state \<Rightarrow> u32 set" where
  "frame_free_set s = {f \<in> frame_units s. \<not> frame_is_tracked s f}"

definition frames_ok :: "frame_state \<Rightarrow> bool" where
  "frames_ok s \<longleftrightarrow> length (fr_bitmap s) = FRAME_BITMAP_BYTES"

lemma frame_mark_simps [simp]:
  "frame_in_usable_e820 (frame_mark_used s f) = frame_in_usable_e820 s"
  "frame_in_usable_e820 (frame_mark_free s f) = frame_in_usable_e820 s"
  "frame_is_reserved (frame_mark_used s f) = frame_is_reserved s"
  "frame_is_reserved (frame_mark_free s f) = frame_is_reserved s"
  "frame_units (frame_mark_used s f) = frame_units s" "frame_units (frame_mark_free s f) = frame_units s"
  "frames_ok (frame_mark_used s f) = frames_ok s" "frames_ok (frame_mark_free s f) = frames_ok s"
  by (simp_all add: frame_mark_used_def frame_mark_free_def Let_def fun_eq_iff frame_in_usable_e820_def
      frame_is_reserved_def frame_units_def frames_ok_def)

lemma frame_free_set_mark:
  assumes "frames_ok s" and "f \<in> frame_units s"
  shows "frame_free_set (frame_mark_used s f) = frame_free_set s - {f}"
    and "frame_free_set (frame_mark_free s f) = insert f (frame_free_set s)"
proof -
  have c: "frame_covered s f" using assms by (simp add: frame_covered_def frames_ok_def frame_units_def)
  show "frame_free_set (frame_mark_used s f) = frame_free_set s - {f}"
    using frame_map.unmarked_mark_used [OF c, of "frame_units s"] by (simp add: frame_free_set_def)
  show "frame_free_set (frame_mark_free s f) = insert f (frame_free_set s)"
    using frame_map.unmarked_mark_free [OF c assms(2)] by (simp add: frame_free_set_def)
qed

text \<open>The loop takes the least free frame from its start on.\<close>

lemma aligned_step:
  assumes "unat f mod 4096 = 0" and "unat g mod 4096 = 0" and "f < 0x08000000"
  shows "f < g \<longleftrightarrow> f + 0x1000 \<le> (g :: u32)"
proof -
  have "unat f = unat f div 4096 * 4096" "unat g = unat g div 4096 * 4096"
    using assms(1,2) by (metis add.right_neutral div_mult_mod_eq)+
  then obtain a b where "unat f = a * 4096" "unat g = b * 4096" by blast
  moreover have "a * 4096 + 4096 \<le> b * 4096 \<longleftrightarrow> a < b"
    using mult_le_cancel2 [of "Suc a" 4096 b] by (simp add: Suc_le_eq add.commute)
  ultimately show ?thesis
    using frame_step [OF assms(3)] by (simp add: word_less_nat_alt word_le_nat_alt)
qed

lemma frame_alloc_loop_spec:
  "0x00200000 \<le> f \<Longrightarrow> unat f mod 4096 = 0 \<Longrightarrow>
   frame_alloc_loop s f =
     (let F = {g \<in> frame_free_set s. f \<le> g}
      in if F = {} then (0, s) else (Min F, frame_mark_used s (Min F)))"
proof (induction s f rule: frame_alloc_loop.induct)
  case (1 s f)
  let ?F = "\<lambda>f. {g \<in> frame_free_set s. f \<le> g}"
  show ?case
  proof (cases "f < 0x08000000")
    case False
    then have "?F f = {}" by (auto simp: frame_free_set_def frame_units_def frame_in_range_def)
    with False show ?thesis by (simp add: frame_alloc_loop.simps [of s f])
  next
    case True
    then have r: "frame_in_range f" using 1 by (simp add: frame_in_range_def)
    show ?thesis
    proof (cases "f \<in> frame_free_set s")
      case fr: True
      then have "Min (?F f) = f" by (intro Min_eqI) auto
      moreover have "frame_alloc_loop s f = (f, frame_mark_used s f)"
        using fr True by (simp add: frame_alloc_loop.simps [of s f] frame_free_set_def frame_units_def)
      moreover have "?F f \<noteq> {}" using fr by blast
      ultimately show ?thesis unfolding Let_def by (simp only: if_False)
    next
      case False
      then have skip: "\<not> frame_in_usable_e820 s f \<or> frame_is_reserved s f \<or> frame_is_tracked s f"
        using r by (auto simp: frame_free_set_def frame_units_def)
      have up: "0x00200000 \<le> f + 0x1000" "unat (f + 0x1000) mod 4096 = 0"
        using 1 frame_step [OF True] by (simp_all add: word_le_nat_alt)
      have "?F (f + 0x1000) = ?F f"
        using False aligned_step [OF "1.prems"(2) _ True]
        by (auto simp: frame_free_set_def frame_units_def frame_in_range_def order_le_less)
      with 1 skip True up show ?thesis by (simp add: frame_alloc_loop.simps [of s f])
    qed
  qed
qed

lemma frame_alloc_eq:
  "frame_alloc s =
     (if frame_free_set s = {} then (0, s)
      else (Min (frame_free_set s), frame_mark_used s (Min (frame_free_set s))))"
proof -
  have "{g \<in> frame_free_set s. 0x00200000 \<le> g} = frame_free_set s"
    by (auto simp: frame_free_set_def frame_units_def frame_in_range_def)
  then show ?thesis using frame_alloc_loop_spec [of "0x00200000" s] by (simp add: frame_alloc_def Let_def)
qed

lemma frame_free_eq:
  "frame_free s f =
     (if f \<in> frame_units s - frame_free_set s then (True, frame_mark_free s f) else (False, s))"
  by (auto simp: frame_free_def frame_units_def frame_free_set_def frame_is_tracked_bit)

interpretation frames: unit_allocator
  frame_alloc frame_free frame_units frame_free_set "\<lambda>s. of_nat (card (frame_free_set s))" frames_ok
proof
  fix s :: frame_state and b r and s'
  assume ok: "frames_ok s"
  show sub: "frame_free_set s \<subseteq> frame_units s" by (auto simp: frame_free_set_def)
  show zero: "0 \<notin> frame_units s" by (simp add: frame_units_def frame_in_range_def)
  show "unat (of_nat (card (frame_free_set s)) :: u32) = card (frame_free_set s)"
  proof -
    have "0 \<notin> frame_free_set s" using zero sub by blast
    then show ?thesis using card_u32_less [of "frame_free_set s"] by (simp add: unat_of_nat)
  qed
  show "frame_free_set s = {} \<Longrightarrow> frame_alloc s = (0, s)" by (simp add: frame_alloc_eq)
  have m: "Min (frame_free_set s) \<in> frame_units s" if "frame_free_set s \<noteq> {}"
    using Min_in [OF finite that] sub by blast
  show "b = Min (frame_free_set s) \<and> frame_free_set s' = frame_free_set s - {b} \<and> frame_units s' = frame_units s"
    if "frame_free_set s \<noteq> {}" "frame_alloc s = (b, s')"
  proof -
    from that have "b = Min (frame_free_set s)" "s' = frame_mark_used s b" by (auto simp: frame_alloc_eq)
    then show ?thesis using frame_free_set_mark(1) [OF ok, of b] m [OF that(1)] by simp
  qed
  show "r \<and> frame_free_set s' = insert b (frame_free_set s) \<and> frame_units s' = frame_units s"
    if "b \<in> frame_units s - frame_free_set s" "frame_free s b = (r, s')"
    using that frame_free_set_mark(2) [OF ok, of b] by (auto simp: frame_free_eq)
  show "b \<notin> frame_units s - frame_free_set s \<Longrightarrow> frame_free s b = (False, s)" by (simp add: frame_free_eq)
  show "frames_ok s'" if "frame_alloc s = (b, s')" using that ok by (auto simp: frame_alloc_eq split: if_splits)
  show "frames_ok s'" if "frame_free s b = (r, s')" using that ok by (auto simp: frame_free_eq split: if_splits)
qed

end
