(* ===== verification/Paging.thy ===== *)
theory Paging
  imports Frame_Allocator
begin

section \<open>Paging\<close>

text \<open>
  Page directories and page tables in \<open>kernel.c\<close>: the identity map of
  \<open>paging_init\<close>, mapping, unmapping and looking up pages in an address space,
  and the kernel heap's pages, which take their frames from the frame allocator.

  An address space holds its tables by value (\<open>None\<close> is the NULL pointer); the
  address the static array \<open>page_tables\<close> is placed at is an argument of
  \<open>paging_init\<close>. \<open>page_invalidate\<close> (the \<open>invlpg\<close> instruction) and
  \<open>paging_enable\<close> (loading \<open>cr3\<close> and \<open>cr0\<close>) act on the processor only.
\<close>

definition PAGE_PRESENT :: u32 where [simp]: "PAGE_PRESENT = 0x001"
definition PAGE_WRITABLE :: u32 where [simp]: "PAGE_WRITABLE = 0x002"
definition PAGE_USER :: u32 where [simp]: "PAGE_USER = 0x004"
definition PAGE_TABLE_COUNT :: u32 where [simp]: "PAGE_TABLE_COUNT = 4"
definition VGA_MEMORY_PAGE :: u32 where [simp]: "VGA_MEMORY_PAGE = 0x000B8000"
definition KERNEL_TEST_ADDRESS :: u32 where [simp]: "KERNEL_TEST_ADDRESS = 0x00008800"
definition USER_STACK_TOP :: u32 where [simp]: "USER_STACK_TOP = 0x00800000"
definition HEAP_PAGED_BASE :: u32 where [simp]: "HEAP_PAGED_BASE = 0x00030000"
definition HEAP_PAGED_LIMIT :: u32 where [simp]: "HEAP_PAGED_LIMIT = 0x00080000"
definition HEAP_PAGE_SIZE :: u32 where [simp]: "HEAP_PAGE_SIZE = 0x1000"

record process_address_space_t =
  as_page_directory :: "u32 list option"
  as_page_tables :: "u32 list list option"
  as_page_table_count :: u32

text \<open>The state the kernel's own pages live in.\<close>

record vm_state =
  vm_frames :: frame_state
  vm_kernel_space :: process_address_space_t

subsection \<open>The source's functions\<close>

definition page_directory_init :: "u32 list" where
  "page_directory_init = replicate 1024 0"

definition page_tables_init :: "u32 list list" where
  "page_tables_init =
     map (\<lambda>table. map (\<lambda>entry. (of_nat (table * 1024 + entry) * 0x1000) OR PAGE_PRESENT OR PAGE_WRITABLE)
                    [0..<1024])
       [0..<unat PAGE_TABLE_COUNT]"

definition address_space_init ::
  "process_address_space_t option \<Rightarrow> u32 list \<Rightarrow> u32 list list \<Rightarrow> u32 \<Rightarrow> process_address_space_t option" where
  "address_space_init address_space directory tables table_count =
     map_option (\<lambda>_. \<lparr>as_page_directory = Some directory, as_page_tables = Some tables,
                      as_page_table_count = table_count\<rparr>) address_space"

text \<open>\<open>xs[i] |= v\<close> on an entry of a table.\<close>

definition or_entry :: "u32 list list \<Rightarrow> nat \<Rightarrow> nat \<Rightarrow> u32 \<Rightarrow> u32 list list" where
  "or_entry tables t e v = tables[t := (tables ! t)[e := (tables ! t ! e) OR v]]"

definition paging_init :: "process_address_space_t \<Rightarrow> u32 \<Rightarrow> process_address_space_t" where
  "paging_init kernel_address_space tables_address =
     (let directory = page_directory_init; tables = page_tables_init;
          directory = map (\<lambda>table. (tables_address + of_nat table * 0x1000) OR PAGE_PRESENT OR PAGE_WRITABLE)
                        [0..<unat PAGE_TABLE_COUNT] @ drop (unat PAGE_TABLE_COUNT) directory;
          directory = directory[0 := (directory ! 0) OR PAGE_USER];
          directory = directory[1 := (directory ! 1) OR PAGE_USER];
          tables = or_entry tables 0 (unat (drop_bit 12 VGA_MEMORY_PAGE)) PAGE_USER;
          tables = or_entry tables 0 (unat (drop_bit 12 USER_CODE_BASE AND 0x3FF)) PAGE_USER;
          tables = or_entry tables 1 (unat (drop_bit 12 USER_STACK_BASE AND 0x3FF)) PAGE_USER;
          tables = tables[0 := (tables ! 0)[unat (drop_bit 12 KERNEL_TEST_ADDRESS) :=
                     KERNEL_TEST_ADDRESS OR PAGE_PRESENT OR PAGE_WRITABLE]]
      in the (address_space_init (Some kernel_address_space) directory tables PAGE_TABLE_COUNT))"

definition directory_index :: "u32 \<Rightarrow> u32" where
  "directory_index virtual_address = drop_bit 22 virtual_address AND 0x3FF"

definition table_index :: "u32 \<Rightarrow> u32" where
  "table_index virtual_address = drop_bit 12 virtual_address AND 0x3FF"

text \<open>\<open>page_tables[directory_index][table_index]\<close>, read and assigned.\<close>

definition entry_at :: "u32 list list \<Rightarrow> u32 \<Rightarrow> u32" where
  "entry_at tables va = tables ! unat (directory_index va) ! unat (table_index va)"

definition set_entry :: "u32 list list \<Rightarrow> u32 \<Rightarrow> u32 \<Rightarrow> u32 list list" where
  "set_entry tables va x =
     tables[unat (directory_index va) := (tables ! unat (directory_index va))[unat (table_index va) := x]]"

definition page_map_in_address_space ::
  "process_address_space_t option \<Rightarrow> u32 \<Rightarrow> u32 \<Rightarrow> u32 \<Rightarrow> bool \<times> process_address_space_t option" where
  "page_map_in_address_space address_space virtual_address physical_address flags =
     (case address_space of
        None \<Rightarrow> (False, None)
      | Some as \<Rightarrow>
          (case as_page_tables as of
             None \<Rightarrow> (False, Some as)
           | Some tables \<Rightarrow>
               if directory_index virtual_address \<ge> as_page_table_count as then (False, Some as)
               else (True, Some (as\<lparr>as_page_tables := Some (set_entry tables virtual_address
                       ((physical_address AND 0xFFFFF000) OR (flags AND 0xFFF)))\<rparr>))))"

definition page_map :: "vm_state \<Rightarrow> u32 \<Rightarrow> u32 \<Rightarrow> u32 \<Rightarrow> bool \<times> vm_state" where
  "page_map s virtual_address physical_address flags =
     (let (ok, as) = page_map_in_address_space (Some (vm_kernel_space s)) virtual_address physical_address flags
      in (ok, s\<lparr>vm_kernel_space := the as\<rparr>))"

definition page_unmap_in_address_space ::
  "process_address_space_t option \<Rightarrow> u32 \<Rightarrow> bool \<times> process_address_space_t option" where
  "page_unmap_in_address_space address_space virtual_address =
     (case address_space of
        None \<Rightarrow> (False, None)
      | Some as \<Rightarrow>
          (case as_page_tables as of
             None \<Rightarrow> (False, Some as)
           | Some tables \<Rightarrow>
               if directory_index virtual_address \<ge> as_page_table_count as then (False, Some as)
               else (True, Some (as\<lparr>as_page_tables := Some (set_entry tables virtual_address 0)\<rparr>))))"

definition page_unmap :: "vm_state \<Rightarrow> u32 \<Rightarrow> bool \<times> vm_state" where
  "page_unmap s virtual_address =
     (let (ok, as) = page_unmap_in_address_space (Some (vm_kernel_space s)) virtual_address
      in (ok, s\<lparr>vm_kernel_space := the as\<rparr>))"

text \<open>The result is the frame written through \<open>physical_address\<close>; no caller passes NULL there.\<close>

definition page_map_new_frame :: "vm_state \<Rightarrow> u32 \<Rightarrow> u32 \<Rightarrow> u32 option \<times> vm_state" where
  "page_map_new_frame s virtual_address flags =
     (let (frame, fs) = frame_alloc (vm_frames s); s = s\<lparr>vm_frames := fs\<rparr>
      in if frame = 0 then (None, s)
         else
           let (ok, s) = page_map s virtual_address frame flags
           in if \<not> ok then (None, s\<lparr>vm_frames := snd (frame_free (vm_frames s) frame)\<rparr>)
              else (Some frame, s))"

definition heap_page_valid :: "u32 \<Rightarrow> bool" where
  "heap_page_valid virtual_address \<longleftrightarrow>
     \<not> (virtual_address AND (HEAP_PAGE_SIZE - 1) \<noteq> 0) \<and>
     \<not> (virtual_address < HEAP_PAGED_BASE \<or> virtual_address \<ge> HEAP_PAGED_LIMIT)"

definition heap_map_page :: "vm_state \<Rightarrow> u32 \<Rightarrow> bool \<times> vm_state" where
  "heap_map_page s virtual_address =
     (if \<not> heap_page_valid virtual_address then (False, s)
      else map_prod (\<lambda>frame. frame \<noteq> None) id
             (page_map_new_frame s virtual_address (PAGE_PRESENT OR PAGE_WRITABLE)))"

definition heap_unmap_page :: "vm_state \<Rightarrow> u32 \<Rightarrow> bool \<times> vm_state" where
  "heap_unmap_page s virtual_address =
     (if \<not> heap_page_valid virtual_address then (False, s)
      else if directory_index virtual_address \<ge> PAGE_TABLE_COUNT then (False, s)
      else
        let entry = entry_at (the (as_page_tables (vm_kernel_space s))) virtual_address
        in if entry AND PAGE_PRESENT = 0 then (False, s)
           else
             let frame = entry AND 0xFFFFF000; (ok, s) = page_unmap s virtual_address
             in if \<not> ok then (False, s)
                else let (freed, fs) = frame_free (vm_frames s) frame in (freed, s\<lparr>vm_frames := fs\<rparr>))"

definition page_get_physical_in_address_space :: "process_address_space_t option \<Rightarrow> u32 \<Rightarrow> u32" where
  "page_get_physical_in_address_space address_space virtual_address =
     (case address_space of
        None \<Rightarrow> 0
      | Some as \<Rightarrow>
          (case as_page_tables as of
             None \<Rightarrow> 0
           | Some tables \<Rightarrow>
               if virtual_address AND (FRAME_SIZE - 1) \<noteq> 0 then 0
               else if directory_index virtual_address \<ge> as_page_table_count as then 0
               else
                 let entry = entry_at tables virtual_address
                 in if entry AND PAGE_PRESENT = 0 then 0 else entry AND 0xFFFFF000))"

definition page_get_physical :: "vm_state \<Rightarrow> u32 \<Rightarrow> u32" where
  "page_get_physical s virtual_address =
     page_get_physical_in_address_space (Some (vm_kernel_space s)) virtual_address"

subsection \<open>Well-formed address spaces and their entries\<close>

definition space_ok :: "process_address_space_t \<Rightarrow> bool" where
  "space_ok as \<longleftrightarrow>
     (\<exists>tables. as_page_tables as = Some tables \<and> length tables = unat (as_page_table_count as) \<and>
        (\<forall>t \<in> set tables. length t = 1024))"

definition pages_of :: "process_address_space_t \<Rightarrow> u32 \<Rightarrow> u32 option" where
  "pages_of as va =
     (if directory_index va < as_page_table_count as
      then Some (entry_at (the (as_page_tables as)) va) else None)"

lemma index_nat:
  "unat (directory_index va) = unat va div 4194304" "unat (table_index va) = unat va div 4096 mod 1024"
proof -
  have m: "x AND 0x3FF = x mod 1024" for x :: u32
    using take_bit_eq_mask [of 10 x] take_bit_eq_mod [of 10 x] by (simp add: mask_numeral)
  have "unat va < 4294967296" using unsigned_less [of va] by simp
  then have "unat va div 4194304 < 1024" by (simp add: less_mult_imp_div_less)
  then show "unat (directory_index va) = unat va div 4194304"
    by (simp add: directory_index_def m drop_bit_eq_div unat_div_distrib unat_mod_distrib)
  show "unat (table_index va) = unat va div 4096 mod 1024"
    by (simp add: table_index_def m drop_bit_eq_div unat_div_distrib unat_mod_distrib)
qed

text \<open>Two addresses have the same entry exactly when they lie in the same page.\<close>

definition page_of :: "u32 \<Rightarrow> nat" where
  "page_of va = unat va div 4096"

lemma same_page:
  "directory_index va = directory_index vb \<and> table_index va = table_index vb \<longleftrightarrow> page_of va = page_of vb"
proof -
  have d: "unat x div 4194304 = unat x div 4096 div 1024" for x :: u32
    using div_mult2_eq [of "unat x" 4096 1024] by simp
  show ?thesis
    unfolding page_of_def unat_eq_iff [symmetric] index_nat d by (metis div_mult_mod_eq)
qed

lemma set_entry_entry_at:
  assumes "length tables = unat n" and "\<forall>t \<in> set tables. length t = 1024" and "directory_index va < n"
    and "directory_index vb < n"
  shows "entry_at (set_entry tables va x) vb = (if page_of va = page_of vb then x else entry_at tables vb)"
proof -
  have "unat (table_index va) < 1024" by (simp add: index_nat)
  then have l: "unat (directory_index va) < length tables"
      "unat (table_index va) < length (tables ! unat (directory_index va))"
    using assms by (simp_all add: word_less_nat_alt)
  show ?thesis
  proof (cases "directory_index va = directory_index vb")
    case True
    then show ?thesis using l same_page [of va vb]
      by (auto simp: entry_at_def set_entry_def nth_list_update unat_eq_iff)
  next
    case False
    then show ?thesis using l same_page [of va vb] by (auto simp: entry_at_def set_entry_def unat_eq_iff)
  qed
qed

lemma set_entry_ok:
  "length (set_entry tables va x) = length tables"
  "\<forall>t \<in> set tables. length t = 1024 \<Longrightarrow> unat (directory_index va) < length tables \<Longrightarrow>
     \<forall>t \<in> set (set_entry tables va x). length t = 1024"
  by (auto simp: set_entry_def dest!: in_set_conv_nth [THEN iffD1]) (auto simp: nth_list_update)

lemma space_okE:
  assumes "space_ok as"
  obtains tables where "as_page_tables as = Some tables" "length tables = unat (as_page_table_count as)"
    "\<forall>t \<in> set tables. length t = 1024"
  using assms by (auto simp: space_ok_def)

text \<open>Changing the entry of a page, as an update of the map of pages.\<close>

definition with_entry :: "process_address_space_t \<Rightarrow> u32 \<Rightarrow> u32 \<Rightarrow> process_address_space_t" where
  "with_entry as va x = as\<lparr>as_page_tables := Some (set_entry (the (as_page_tables as)) va x)\<rparr>"

lemma with_entry_pages:
  assumes "space_ok as" and "directory_index va < as_page_table_count as"
  shows "space_ok (with_entry as va x)"
    and "pages_of (with_entry as va x) vb = (if page_of va = page_of vb then Some x else pages_of as vb)"
proof -
  from assms(1) obtain ts where ts: "as_page_tables as = Some ts" "length ts = unat (as_page_table_count as)"
    "\<forall>t \<in> set ts. length t = 1024" by (rule space_okE)
  have l: "unat (directory_index va) < length ts" using assms(2) ts(2) by (simp add: word_less_nat_alt)
  show "space_ok (with_entry as va x)"
    using ts set_entry_ok(2) [OF ts(3) l] by (simp add: space_ok_def with_entry_def set_entry_ok(1))
  have "page_of va = page_of vb \<Longrightarrow> directory_index vb = directory_index va" using same_page [of va vb] by auto
  then show "pages_of (with_entry as va x) vb = (if page_of va = page_of vb then Some x else pages_of as vb)"
    using set_entry_entry_at [OF ts(2,3) assms(2), of vb x] assms(2) ts(1) by (auto simp: pages_of_def with_entry_def)
qed

lemma map_in_space_eq:
  assumes "space_ok as"
  shows "page_map_in_address_space (Some as) va pa flags =
     (if directory_index va < as_page_table_count as
      then (True, Some (with_entry as va ((pa AND 0xFFFFF000) OR (flags AND 0xFFF)))) else (False, Some as))"
    and "page_unmap_in_address_space (Some as) va =
     (if directory_index va < as_page_table_count as then (True, Some (with_entry as va 0)) else (False, Some as))"
  using assms
  by (auto simp: page_map_in_address_space_def page_unmap_in_address_space_def with_entry_def space_ok_def not_less)

lemma get_physical_eq:
  assumes "space_ok as" and "unat va mod 4096 = 0"
  shows "page_get_physical_in_address_space (Some as) va =
     (case pages_of as va of
        None \<Rightarrow> 0
      | Some entry \<Rightarrow> if entry AND PAGE_PRESENT = 0 then 0 else entry AND 0xFFFFF000)"
  using assms by (auto simp: page_get_physical_in_address_space_def pages_of_def space_ok_def and_FFF Let_def)

text \<open>The parts of an entry.\<close>

lemma entry_parts:
  "((pa AND 0xFFFFF000) OR (fl AND 0xFFF)) AND 0xFFFFF000 = (pa :: u32) AND 0xFFFFF000"
  "((pa AND 0xFFFFF000) OR (fl AND 0xFFF)) AND PAGE_PRESENT = (fl :: u32) AND PAGE_PRESENT"
proof -
  have c: "(0xFFFFF000 :: u32) = NOT 0xFFF" "(0xFFF :: u32) = mask 12" "(PAGE_PRESENT :: u32) = mask 1"
    by (simp_all add: mask_numeral mask_eq_exp_minus_1)
  show "((pa AND 0xFFFFF000) OR (fl AND 0xFFF)) AND 0xFFFFF000 = pa AND 0xFFFFF000"
    unfolding c by (rule bit_word_eqI) (auto simp: bit_simps)
  show "((pa AND 0xFFFFF000) OR (fl AND 0xFFF)) AND PAGE_PRESENT = fl AND PAGE_PRESENT"
    unfolding c by (rule bit_word_eqI) (auto simp: bit_simps)
qed

lemma frame_aligned: "unat (f :: u32) mod 4096 = 0 \<Longrightarrow> f AND 0xFFFFF000 = f"
proof -
  assume "unat f mod 4096 = 0"
  then have "f AND 0xFFF = 0" by (simp add: and_FFF)
  moreover have "f = (f AND NOT 0xFFF) OR (f AND 0xFFF)" by (rule bit_word_eqI) (auto simp: bit_simps)
  moreover have "(0xFFFFF000 :: u32) = NOT 0xFFF" by simp
  ultimately show ?thesis by (metis or.right_neutral)
qed

subsection \<open>The initial identity map\<close>

lemma or_entry_ok:
  assumes "length ts = n" and "\<forall>t \<in> set ts. length t = 1024" and "t < n"
  shows "length (or_entry ts t e v) = n" and "\<forall>t' \<in> set (or_entry ts t e v). length t' = 1024"
  using assms by (auto simp: or_entry_def dest!: in_set_conv_nth [THEN iffD1]) (auto simp: nth_list_update)

lemma or_entry_nth:
  assumes "length ts = n" and "\<forall>t \<in> set ts. length t = 1024" and "t < n" "e < 1024"
  shows "or_entry ts t e v ! i ! j = (if i = t \<and> j = e then ts ! t ! e OR v else ts ! i ! j)"
  using assms by (auto simp: or_entry_def nth_list_update)

lemma page_tables_init_ok:
  "length page_tables_init = 4" "\<forall>t \<in> set page_tables_init. length t = 1024"
  by (auto simp: page_tables_init_def)

lemma page_tables_init_nth:
  "i < 4 \<Longrightarrow> j < 1024 \<Longrightarrow>
   page_tables_init ! i ! j = (of_nat (i * 1024 + j) * 0x1000) OR PAGE_PRESENT OR PAGE_WRITABLE"
  by (simp add: page_tables_init_def)

definition user_pages :: "nat set" where
  "user_pages = {0xB8, 0x100, 0x7FF}"

lemma paging_init_tables:
  obtains ts where "as_page_tables (paging_init k a) = Some ts" "length ts = 4" "\<forall>t \<in> set ts. length t = 1024"
    "\<And>i j. i < 4 \<Longrightarrow> j < 1024 \<Longrightarrow> ts ! i ! j =
       (if i = 0 \<and> j = 8 then 0x8803
        else (of_nat (i * 1024 + j) * 0x1000) OR PAGE_PRESENT OR PAGE_WRITABLE OR
             (if i * 1024 + j \<in> user_pages then PAGE_USER else 0))"
proof -
  let ?a = "or_entry page_tables_init 0 0xB8 4" let ?b = "or_entry ?a 0 0x100 4" let ?c = "or_entry ?b 1 0x3FF 4"
  note A = or_entry_ok [OF page_tables_init_ok, of 0 "0xB8" 4]
  note B = or_entry_ok [OF A, of 0 "0x100" 4]
  note C = or_entry_ok [OF B, of 1 "0x3FF" 4]
  have t: "as_page_tables (paging_init k a) = Some (?c[0 := (?c ! 0)[8 := 0x8803]])"
    by (simp add: paging_init_def Let_def address_space_init_def)
  show thesis
  proof (rule that [OF t])
    show "length (?c[0 := (?c ! 0)[8 := 0x8803]]) = 4" using C by simp
    show "\<forall>t \<in> set (?c[0 := (?c ! 0)[8 := 0x8803]]). length t = 1024"
      using C by (auto dest!: set_update_subset_insert [THEN subsetD])
    fix i j :: nat assume ij: "i < 4" "j < 1024"
    have "i = 0 \<or> i = 1 \<or> i = 2 \<or> i = 3" using ij by linarith
    then show "?c[0 := (?c ! 0)[8 := 0x8803]] ! i ! j =
       (if i = 0 \<and> j = 8 then 0x8803
        else (of_nat (i * 1024 + j) * 0x1000) OR PAGE_PRESENT OR PAGE_WRITABLE OR
             (if i * 1024 + j \<in> user_pages then PAGE_USER else 0))"
      using ij C or_entry_nth [OF page_tables_init_ok, of 0 "0xB8" 4] or_entry_nth [OF A, of 0 "0x100" 4]
        or_entry_nth [OF B, of 1 "0x3FF" 4] page_tables_init_nth [of i j]
      by (auto simp: nth_list_update user_pages_def or.assoc)
  qed
qed

lemma paging_init_space: "space_ok (paging_init k a)" "as_page_table_count (paging_init k a) = PAGE_TABLE_COUNT"
proof -
  show c: "as_page_table_count (paging_init k a) = PAGE_TABLE_COUNT"
    by (simp add: paging_init_def Let_def address_space_init_def)
  obtain ts where "as_page_tables (paging_init k a) = Some ts" "length ts = 4" "\<forall>t \<in> set ts. length t = 1024"
    by (rule paging_init_tables)
  then show "space_ok (paging_init k a)" unfolding space_ok_def c by simp
qed

lemma page_parts: "unat va div 4194304 * 1024 + unat va div 4096 mod 1024 = page_of va"
proof -
  have d: "unat va div 4194304 = unat va div 4096 div 1024"
    using div_mult2_eq [of "unat va" 4096 1024] by simp
  show ?thesis unfolding d page_of_def by (rule div_mult_mod_eq)
qed

lemma page_base: "of_nat (page_of va) * 0x1000 = va AND 0xFFFFF000"
proof -
  have "of_nat (page_of va) * 0x1000 = push_bit 12 (drop_bit 12 va)"
    by (simp add: page_of_def push_bit_eq_mult drop_bit_eq_div word_arith_nat_div)
  moreover have "push_bit 12 (drop_bit 12 va) = va AND NOT (mask 12)"
    by (rule bit_word_eqI) (auto simp: bit_simps)
  moreover have "NOT (mask 12) = (0xFFFFF000 :: u32)" by (simp add: mask_numeral mask_eq_exp_minus_1)
  ultimately show ?thesis by simp
qed

lemma paging_init_entry:
  "pages_of (paging_init k a) va =
     (if va < 0x1000000
      then Some (if page_of va = 8 then 0x8803
                 else (va AND 0xFFFFF000) OR PAGE_PRESENT OR PAGE_WRITABLE OR
                      (if page_of va \<in> user_pages then PAGE_USER else 0))
      else None)"
proof -
  have d: "directory_index va < 4 \<longleftrightarrow> va < 0x1000000"
    by (simp add: word_less_nat_alt index_nat div_less_iff_less_mult)
  obtain ts where ts: "as_page_tables (paging_init k a) = Some ts"
    "\<And>i j. i < 4 \<Longrightarrow> j < 1024 \<Longrightarrow> ts ! i ! j =
       (if i = 0 \<and> j = 8 then 0x8803
        else (of_nat (i * 1024 + j) * 0x1000) OR PAGE_PRESENT OR PAGE_WRITABLE OR
             (if i * 1024 + j \<in> user_pages then PAGE_USER else 0))"
    by (rule paging_init_tables [of k a]) blast
  show ?thesis
  proof (cases "va < 0x1000000")
    case False
    then show ?thesis using d by (simp add: pages_of_def paging_init_space(2))
  next
    case True
    then have "unat (directory_index va) < 4" using d by (simp add: word_less_nat_alt)
    from ts(2) [OF this, of "unat (table_index va)"]
    have "entry_at ts va = (if directory_index va = 0 \<and> table_index va = 8 then 0x8803
        else (va AND 0xFFFFF000) OR PAGE_PRESENT OR PAGE_WRITABLE OR
             (if page_of va \<in> user_pages then PAGE_USER else 0))"
      by (simp add: entry_at_def index_nat page_base page_parts unat_eq_zero flip: unat_eq_iff)
    moreover have "directory_index va = 0 \<and> table_index va = 8 \<longleftrightarrow> page_of va = 8"
      using same_page [of va "0x8000"] by (simp add: directory_index_def table_index_def page_of_def)
    ultimately have "entry_at ts va = (if page_of va = 8 then 0x8803
        else (va AND 0xFFFFF000) OR PAGE_PRESENT OR PAGE_WRITABLE OR
             (if page_of va \<in> user_pages then PAGE_USER else 0))"
      by simp
    then show ?thesis using True d ts(1) by (simp add: pages_of_def paging_init_space(2))
  qed
qed

subsection \<open>The pages of the kernel heap\<close>

definition vm_ok :: "vm_state \<Rightarrow> bool" where
  "vm_ok s \<longleftrightarrow> frames_ok (vm_frames s) \<and> space_ok (vm_kernel_space s) \<and>
     as_page_table_count (vm_kernel_space s) = PAGE_TABLE_COUNT"

lemma heap_page_valid_iff:
  "heap_page_valid va \<longleftrightarrow> unat va mod 4096 = 0 \<and> 0x30000 \<le> va \<and> va < 0x80000"
  by (auto simp: heap_page_valid_def and_FFF)

lemma heap_page_directory: "heap_page_valid va \<Longrightarrow> directory_index va = 0"
proof -
  assume "heap_page_valid va"
  then have "unat va div 4194304 = 0" by (simp add: heap_page_valid_iff word_less_nat_alt)
  then show ?thesis using index_nat(1) [of va] by (simp add: unat_eq_zero)
qed

definition heap_entry :: "u32 \<Rightarrow> u32" where
  "heap_entry frame = (frame AND 0xFFFFF000) OR ((PAGE_PRESENT OR PAGE_WRITABLE) AND 0xFFF)"

lemma page_map_new_frame_eq:
  assumes ok: "vm_ok s" and d: "directory_index va < PAGE_TABLE_COUNT"
  shows "page_map_new_frame s va flags =
     (let (f, fs) = frame_alloc (vm_frames s)
      in if f = 0 then (None, s)
         else (Some f, \<lparr>vm_frames = fs, vm_kernel_space =
                          with_entry (vm_kernel_space s) va ((f AND 0xFFFFF000) OR (flags AND 0xFFF))\<rparr>))"
proof (cases "frame_alloc (vm_frames s)")
  case (Pair f fs)
  have "f = 0 \<Longrightarrow> fs = vm_frames s"
    using frames.take_cases [OF _ Pair] ok by (auto simp: vm_ok_def)
  then show ?thesis
    using ok d Pair by (simp add: page_map_new_frame_def page_map_def vm_ok_def map_in_space_eq(1))
qed

lemma heap_map_page_spec:
  assumes ok: "vm_ok s" and va: "heap_page_valid va" and m: "heap_map_page s va = (r, s')"
  shows "(r \<longleftrightarrow> frame_free_set (vm_frames s) \<noteq> {}) \<and> vm_ok s' \<and>
     (if r then \<exists>f \<in> frame_free_set (vm_frames s). f = Min (frame_free_set (vm_frames s)) \<and>
         frame_free_set (vm_frames s') = frame_free_set (vm_frames s) - {f} \<and>
         frame_units (vm_frames s') = frame_units (vm_frames s) \<and>
         pages_of (vm_kernel_space s') = (\<lambda>vb. if page_of va = page_of vb then Some (heap_entry f)
            else pages_of (vm_kernel_space s) vb)
      else s' = s)"
proof (cases "frame_alloc (vm_frames s)")
  case (Pair f fs)
  have fok: "frames_ok (vm_frames s)" and sok: "space_ok (vm_kernel_space s)" using ok by (simp_all add: vm_ok_def)
  have d: "directory_index va < PAGE_TABLE_COUNT" "directory_index va < as_page_table_count (vm_kernel_space s)"
    using heap_page_directory [OF va] ok by (simp_all add: vm_ok_def)
  note F = frames.take_cases [OF fok Pair] frames.invar_take [OF fok Pair]
  note W = with_entry_pages [OF sok d(2), of "heap_entry f"]
  have c: "as_page_table_count (with_entry as va x) = as_page_table_count as" for as x
    by (simp add: with_entry_def)
  show ?thesis
  proof (cases "f = 0")
    case True
    then show ?thesis using m va ok F by (simp add: heap_map_page_def page_map_new_frame_eq [OF ok d(1)] Pair)
  next
    case False
    then have "r" "s' = \<lparr>vm_frames = fs, vm_kernel_space = with_entry (vm_kernel_space s) va (heap_entry f)\<rparr>"
      using m va by (simp_all add: heap_map_page_def page_map_new_frame_eq [OF ok d(1)] Pair heap_entry_def)
    then show ?thesis using F False W ok by (auto simp: vm_ok_def c fun_eq_iff)
  qed
qed

lemma heap_unmap_page_spec:
  assumes ok: "vm_ok s" and va: "heap_page_valid va" and p: "pages_of (vm_kernel_space s) va = Some e"
    and u: "heap_unmap_page s va = (r, s')"
  shows "vm_ok s' \<and>
     (if e AND PAGE_PRESENT = 0 then \<not> r \<and> s' = s
      else (r \<longleftrightarrow> e AND 0xFFFFF000 \<in> frame_units (vm_frames s) - frame_free_set (vm_frames s)) \<and>
        frame_free_set (vm_frames s') =
          (if r then insert (e AND 0xFFFFF000) (frame_free_set (vm_frames s)) else frame_free_set (vm_frames s)) \<and>
        frame_units (vm_frames s') = frame_units (vm_frames s) \<and>
        pages_of (vm_kernel_space s') = (\<lambda>vb. if page_of va = page_of vb then Some 0
           else pages_of (vm_kernel_space s) vb))"
proof -
  have fok: "frames_ok (vm_frames s)" and sok: "space_ok (vm_kernel_space s)" using ok by (simp_all add: vm_ok_def)
  have d: "directory_index va < as_page_table_count (vm_kernel_space s)"
    using heap_page_directory [OF va] ok by (simp add: vm_ok_def)
  have e: "entry_at (the (as_page_tables (vm_kernel_space s))) va = e" using p by (simp add: pages_of_def split: if_splits)
  obtain r' fs where g: "frame_free (vm_frames s) (e AND 0xFFFFF000) = (r', fs)" by fastforce
  note W = with_entry_pages [OF sok d, of 0]
  have c: "as_page_table_count (with_entry as va x) = as_page_table_count as" for as x
    by (simp add: with_entry_def)
  show ?thesis
  proof (cases "e AND PAGE_PRESENT = 0")
    case True
    then show ?thesis using u va e ok by (simp add: heap_unmap_page_def heap_page_directory [OF va])
  next
    case False
    then have s': "r = r'" "s' = \<lparr>vm_frames = fs, vm_kernel_space = with_entry (vm_kernel_space s) va 0\<rparr>"
      using u va e d g by (auto simp: heap_unmap_page_def heap_page_directory [OF va] page_unmap_def
          map_in_space_eq(2) [OF sok] Let_def)
    show ?thesis
      using frames.give_ok [OF fok _ g] frames.give_bad [OF fok, of "e AND 0xFFFFF000"] g
        frames.invar_give [OF fok g] False W ok s'
      by (cases "e AND 0xFFFFF000 \<in> frame_units (vm_frames s) - frame_free_set (vm_frames s)")
        (auto simp: vm_ok_def c fun_eq_iff)
  qed
qed

text \<open>
  Which frame a heap page holds, and the ownership invariant of the heap's pages:
  the frames of the allocator they hold are in use, each by one page.
\<close>

definition heap_frame :: "vm_state \<Rightarrow> u32 \<Rightarrow> u32 option" where
  "heap_frame s va =
     (if heap_page_valid va then
        (case pages_of (vm_kernel_space s) va of
           Some e \<Rightarrow> if e AND PAGE_PRESENT \<noteq> 0 \<and> e AND 0xFFFFF000 \<in> frame_units (vm_frames s)
                       then Some (e AND 0xFFFFF000) else None
         | None \<Rightarrow> None)
      else None)"

definition vm_owned :: "vm_state \<Rightarrow> bool" where
  "vm_owned s \<longleftrightarrow> vm_ok s \<and> inj_on (heap_frame s) (dom (heap_frame s)) \<and>
     ran (heap_frame s) \<inter> frame_free_set (vm_frames s) = {}"

lemma heap_page_inject:
  "heap_page_valid va \<Longrightarrow> heap_page_valid vb \<Longrightarrow> page_of va = page_of vb \<longleftrightarrow> va = vb"
  unfolding heap_page_valid_iff page_of_def by (metis div_mult_mod_eq unat_eq_iff)

lemma heap_entry_parts: "heap_entry f AND PAGE_PRESENT \<noteq> 0" "heap_entry f AND 0xFFFFF000 = f AND 0xFFFFF000"
  unfolding heap_entry_def using entry_parts [of f "PAGE_PRESENT OR PAGE_WRITABLE"] by simp_all

lemma frame_unit_aligned: "f \<in> frame_units s \<Longrightarrow> f AND 0xFFFFF000 = f"
  by (rule frame_aligned) (simp add: frame_units_def frame_in_range_def)

lemma free_frame_unit: "frame_free_set s \<subseteq> frame_units s"
  by (auto simp: frame_free_set_def)

lemma heap_map_page_owned:
  assumes own: "vm_owned s" and m: "heap_map_page s va = (r, s')"
  shows "vm_owned s' \<and>
     (if r then heap_page_valid va \<and>
         (\<exists>f \<in> frame_free_set (vm_frames s). heap_frame s' = (heap_frame s)(va \<mapsto> f) \<and>
           frame_free_set (vm_frames s') = frame_free_set (vm_frames s) - {f})
      else s' = s \<and> (heap_page_valid va \<longrightarrow> frame_free_set (vm_frames s) = {}))"
proof (cases "heap_page_valid va")
  case False
  then show ?thesis using m own by (simp add: heap_map_page_def)
next
  case True
  have ok: "vm_ok s" using own by (simp add: vm_owned_def)
  note S = heap_map_page_spec [OF ok True m]
  show ?thesis
  proof (cases r)
    case r: True
    with S obtain f where f: "f \<in> frame_free_set (vm_frames s)"
      "frame_free_set (vm_frames s') = frame_free_set (vm_frames s) - {f}"
      "frame_units (vm_frames s') = frame_units (vm_frames s)"
      "pages_of (vm_kernel_space s') = (\<lambda>vb. if page_of va = page_of vb then Some (heap_entry f)
            else pages_of (vm_kernel_space s) vb)" by auto
    have u: "f \<in> frame_units (vm_frames s)" using f(1) free_frame_unit by blast
    have h: "heap_frame s' = (heap_frame s)(va \<mapsto> f)"
      using True u heap_page_inject [OF True] heap_entry_parts [of f] frame_unit_aligned [OF u]
      by (auto simp: fun_eq_iff heap_frame_def f(3,4) split: option.split)
    have fr: "f \<notin> ran (heap_frame s)" using own f(1) by (auto simp: vm_owned_def)
    then have "inj_on (heap_frame s') (dom (heap_frame s'))"
      using own unfolding h by (auto simp: vm_owned_def inj_on_def ran_def)
    moreover have "ran (heap_frame s') \<inter> frame_free_set (vm_frames s') = {}"
      using own unfolding h f(2) by (auto simp: vm_owned_def ran_def)
    ultimately have "vm_owned s'" using S by (simp add: vm_owned_def)
    then show ?thesis using r True h f(1,2) by auto
  next
    case False
    then show ?thesis using S own by auto
  qed
qed

lemma heap_unmap_page_owned:
  assumes own: "vm_owned s" and u: "heap_unmap_page s va = (r, s')"
  shows "vm_owned s' \<and> heap_frame s' = (heap_frame s)(va := None) \<and> (r \<longleftrightarrow> heap_frame s va \<noteq> None) \<and>
     frame_free_set (vm_frames s') = set_option (heap_frame s va) \<union> frame_free_set (vm_frames s)"
proof (cases "heap_page_valid va")
  case False
  then have "heap_frame s va = None" by (simp add: heap_frame_def)
  then show ?thesis using False u own by (auto simp: heap_unmap_page_def fun_eq_iff)
next
  case True
  have ok: "vm_ok s" using own by (simp add: vm_owned_def)
  then obtain e where p: "pages_of (vm_kernel_space s) va = Some e"
    by (simp add: pages_of_def vm_ok_def heap_page_directory [OF True])
  note S = heap_unmap_page_spec [OF ok True p u]
  have hv: "heap_frame s va = (if e AND PAGE_PRESENT \<noteq> 0 \<and> e AND 0xFFFFF000 \<in> frame_units (vm_frames s)
     then Some (e AND 0xFFFFF000) else None)" using True p by (simp add: heap_frame_def)
  show ?thesis
  proof (cases "e AND PAGE_PRESENT = 0")
    case c: True
    then show ?thesis using S own hv by (auto simp: fun_eq_iff)
  next
    case c: False
    with S have s': "frame_units (vm_frames s') = frame_units (vm_frames s)"
      "pages_of (vm_kernel_space s') = (\<lambda>vb. if page_of va = page_of vb then Some 0 else pages_of (vm_kernel_space s) vb)"
      by auto
    have h: "heap_frame s' = (heap_frame s)(va := None)"
      using heap_page_inject [OF True] by (auto simp: fun_eq_iff heap_frame_def s' split: option.split)
    have nf: "f \<notin> frame_free_set (vm_frames s)" if "heap_frame s vb = Some f" for vb f
      using that own by (auto simp: vm_owned_def ran_def)
    have r: "r \<longleftrightarrow> heap_frame s va \<noteq> None" using S c hv nf by auto
    have fs: "frame_free_set (vm_frames s') = set_option (heap_frame s va) \<union> frame_free_set (vm_frames s)"
      using S c r hv by auto
    have i: "va = vb" if "heap_frame s va = Some x" "heap_frame s vb = Some x" for vb x
      using own that inj_onD [of "heap_frame s" "dom (heap_frame s)" va vb] by (simp add: vm_owned_def domI)
    have "inj_on (heap_frame s') (dom (heap_frame s'))"
      using own unfolding h by (auto simp: vm_owned_def inj_on_def)
    moreover have "ran (heap_frame s') \<inter> frame_free_set (vm_frames s') = {}"
      using own nf i unfolding h fs by (auto simp: vm_owned_def ran_def split: if_splits)
    ultimately show ?thesis using S h r fs by (simp add: vm_owned_def)
  qed
qed

end
