(* ===== verification/Linked_Chain.thy ===== *)
theory Linked_Chain
  imports InitraOS_Prelude "HOL-Library.Monad_Syntax"
begin

section \<open>Singly linked lists in memory\<close>

text \<open>
  The kernel keeps its heap blocks and its tasks on NULL-terminated lists linked
  through a \<open>next\<close> field. \<open>chain nx p xs q\<close> says that following \<open>nx\<close> from \<open>p\<close>
  passes the non-NULL addresses \<open>xs\<close> and arrives at \<open>q\<close>; \<open>chain_find\<close> is the
  loop \<open>while (p != 0 && !P(p)) p = p->next\<close> all traversals of the kernel are
  instances of. It need not end on a cyclic list, so it is a partial function
  whose result \<open>None\<close> is the endless loop.
\<close>

fun chain :: "(u32 \<Rightarrow> u32) \<Rightarrow> u32 \<Rightarrow> u32 list \<Rightarrow> u32 \<Rightarrow> bool" where
  "chain nx p [] q \<longleftrightarrow> p = q"
| "chain nx p (a # xs) q \<longleftrightarrow> p = a \<and> a \<noteq> 0 \<and> chain nx (nx a) xs q"

partial_function (option) chain_find :: "(u32 \<Rightarrow> u32) \<Rightarrow> (u32 \<Rightarrow> bool) \<Rightarrow> u32 \<Rightarrow> u32 option" where
  "chain_find nx P p = (if p = 0 \<or> P p then Some p else chain_find nx P (nx p))"

declare chain_find.simps [code]

lemma chain_append: "chain nx p (xs @ ys) q \<longleftrightarrow> (\<exists>m. chain nx p xs m \<and> chain nx m ys q)"
  by (induction xs arbitrary: p) auto

lemma chain_nonzero: "chain nx p xs q \<Longrightarrow> 0 \<notin> set xs"
  by (induction xs arbitrary: p) auto

lemma chain_cong: "(\<And>a. a \<in> set xs \<Longrightarrow> nx a = ny a) \<Longrightarrow> chain nx p xs q = chain ny p xs q"
  by (induction xs arbitrary: p) auto

lemma chain_upd: "a \<notin> set xs \<Longrightarrow> chain (nx(a := b)) p xs q = chain nx p xs q"
  by (rule chain_cong) auto

lemma chain_unique: "chain nx p xs 0 \<Longrightarrow> chain nx p ys 0 \<Longrightarrow> xs = ys"
proof (induction xs arbitrary: p ys)
  case Nil
  then show ?case by (cases ys) auto
next
  case (Cons a xs)
  then show ?case by (cases ys) auto
qed

lemma chain_prefix: "chain nx p xs 0 \<Longrightarrow> chain nx p ys a \<Longrightarrow> a \<noteq> 0 \<Longrightarrow> \<exists>zs. xs = ys @ a # zs"
proof (induction xs arbitrary: p ys)
  case Nil
  then show ?case by (cases ys) auto
next
  case (Cons b xs)
  then show ?case by (cases ys) auto
qed

lemma chain_suffix: "chain nx p (ys @ a # zs) q \<Longrightarrow> chain nx p ys a \<and> a \<noteq> 0 \<and> chain nx (nx a) zs q"
  by (auto simp: chain_append)

lemma chain_distinct: "chain nx p xs 0 \<Longrightarrow> distinct xs"
proof (induction xs arbitrary: p)
  case (Cons a xs)
  have "a \<notin> set xs"
  proof
    assume "a \<in> set xs"
    then obtain ys zs where "xs = ys @ a # zs" by (meson split_list)
    with Cons.prems have c: "chain nx (nx a) (ys @ a # zs) 0" by simp
    then have "chain nx (nx a) zs 0" using chain_suffix [OF c] by blast
    from chain_unique [OF this c] have "length zs = length (ys @ a # zs)" by simp
    then show False by simp
  qed
  with Cons show ?case by auto
qed simp

text \<open>On a NULL-terminated list the loop ends with the first element found, or NULL.\<close>

lemma chain_find_eq:
  "chain nx p xs 0 \<Longrightarrow> chain_find nx P p = Some (case find P xs of None \<Rightarrow> 0 | Some a \<Rightarrow> a)"
  by (induction xs arbitrary: p) (auto simp: chain_find.simps)

text \<open>The addresses on the list that starts at \<open>p\<close>.\<close>

definition on_chain :: "(u32 \<Rightarrow> u32) \<Rightarrow> u32 \<Rightarrow> u32 \<Rightarrow> bool" where
  "on_chain nx p a \<longleftrightarrow> a \<noteq> 0 \<and> (\<exists>xs. chain nx p xs a)"

lemma on_chain_iff: "chain nx p xs 0 \<Longrightarrow> on_chain nx p a \<longleftrightarrow> a \<in> set xs"
proof
  assume "chain nx p xs 0" "on_chain nx p a"
  then show "a \<in> set xs" unfolding on_chain_def using chain_prefix by fastforce
next
  assume c: "chain nx p xs 0" and "a \<in> set xs"
  then obtain ys zs where "xs = ys @ a # zs" by (meson split_list)
  with c show "on_chain nx p a" unfolding on_chain_def using chain_suffix by blast
qed

text \<open>Appending an element, inserting one after another and unlinking one.\<close>

lemma chain_snoc:
  assumes "chain nx p xs 0" and "xs \<noteq> []" and "b \<notin> set xs" and "b \<noteq> 0" and "nx b = 0"
  shows "chain (nx(last xs := b)) p (xs @ [b]) 0"
proof -
  obtain ys a where xs: "xs = ys @ [a]" using assms(2) by (meson rev_exhaust)
  have "a \<notin> set ys" using chain_distinct [OF assms(1)] xs by simp
  then show ?thesis using assms xs by (auto simp: chain_append chain_upd)
qed

lemma chain_insert_after:
  assumes "chain nx p (ys @ a # zs) 0" and "b \<notin> set (ys @ a # zs)" and "b \<noteq> 0"
  shows "chain (nx(b := nx a, a := b)) p (ys @ a # b # zs) 0"
proof -
  have "a \<notin> set ys" "a \<notin> set zs" using chain_distinct [OF assms(1)] by auto
  then show ?thesis using assms by (auto simp: chain_append chain_upd)
qed

lemma chain_unlink_next:
  assumes "chain nx p (ys @ a # b # zs) 0"
  shows "chain (nx(a := nx b)) p (ys @ a # zs) 0"
proof -
  have "a \<notin> set ys" "a \<notin> set zs" using chain_distinct [OF assms] by auto
  then show ?thesis using assms by (auto simp: chain_append chain_upd)
qed

lemma find_last: "find (\<lambda>a. nx a = 0) xs = Some (last xs)" if "chain nx p xs 0" "xs \<noteq> []"
  using that
proof (induction xs arbitrary: p)
  case (Cons a xs)
  show ?case
  proof (cases "xs = []")
    case False
    then obtain b ys where "xs = b # ys" by (meson neq_Nil_conv)
    then have "nx a \<noteq> 0" using Cons.prems by auto
    then show ?thesis using Cons False by auto
  qed (use Cons.prems in auto)
qed simp

lemma find_previous: "chain nx p (ys @ a # b # zs) 0 \<Longrightarrow> find (\<lambda>x. nx x = b) (ys @ a # b # zs) = Some a"
proof (induction ys arbitrary: p)
  case (Cons y ys)
  have "b \<notin> set (ys @ [a])" using chain_distinct [OF Cons.prems] by auto
  moreover have "nx y \<in> set (ys @ [a])" using Cons.prems by (cases ys) auto
  ultimately show ?case using Cons by auto
qed auto

lemma find_previous_first: "chain nx p (b # zs) 0 \<Longrightarrow> find (\<lambda>x. nx x = b) (b # zs) = None"
proof -
  assume c: "chain nx p (b # zs) 0"
  have "nx x \<noteq> b" if "x \<in> set (b # zs)" for x
  proof
    assume n: "nx x = b"
    from that obtain ys ws where s: "b # zs = ys @ x # ws" by (meson split_list)
    with c have "chain nx (nx x) ws 0" using chain_suffix by fastforce
    then have "b \<in> set ws" using n c by (cases ws) auto
    moreover have "distinct (ys @ x # ws)" using chain_distinct [OF c] s by simp
    ultimately show False using s by (cases ys) auto
  qed
  then show ?thesis by (simp add: find_None_iff)
qed

end
