(* ===== verification/Kernel_Heap.thy ===== *)
theory Kernel_Heap
  imports Paging Linked_Chain
begin

section \<open>The kernel heap\<close>

text \<open>
  The kernel's two heaps in \<open>kernel.c\<close>. Before paging is enabled \<open>heap_alloc\<close>
  serves requests from a list of blocks with headers, growing from the end of the
  kernel image to \<open>heap_limit\<close>; blocks are reused first fit, split, and merged
  with free neighbours. Afterwards it serves them from \<open>heap_alloc_paged\<close>, which
  maps fresh frames and keeps its blocks in the table \<open>paged_heap_blocks\<close>.

  The headers of the blocks, which lie in memory just before the payload, are
  kept by address in \<open>hs_blocks\<close>; the bytes of the payloads are physical memory,
  \<open>hs_memory\<close>, which the code reaches through the page tables once paging is on.
  A result \<open>None\<close> means that the call does not return: a loop over a list that
  does not end, or an access to a page that is not present.
\<close>

record heap_block_t =
  hb_size :: u32
  hb_free :: u32
  hb_next :: u32

record paged_heap_block_t =
  pb_address :: u32
  pb_size :: u32
  pb_free :: u32

record heap_state =
  hs_pointer :: u32
  hs_limit :: u32
  hs_paging :: u32
  hs_first :: u32
  hs_blocks :: "u32 \<Rightarrow> heap_block_t"
  hs_paged :: "paged_heap_block_t list"
  hs_vm :: vm_state
  hs_memory :: "u32 \<Rightarrow> u8"

definition sizeof_heap_block :: u32 where [simp]: "sizeof_heap_block = 12"
definition HEAP_PAGED_MAX_BLOCKS :: nat where
  [simp]: "HEAP_PAGED_MAX_BLOCKS = unat ((HEAP_PAGED_LIMIT - HEAP_PAGED_BASE) div HEAP_PAGE_SIZE)"

abbreviation next_block :: "heap_state \<Rightarrow> u32 \<Rightarrow> u32" where
  "next_block s a \<equiv> hb_next (hs_blocks s a)"

definition set_block :: "heap_state \<Rightarrow> u32 \<Rightarrow> heap_block_t \<Rightarrow> heap_state" where
  "set_block s a b = s\<lparr>hs_blocks := (hs_blocks s)(a := b)\<rparr>"

subsection \<open>The paged heap\<close>

definition align_size :: "u32 \<Rightarrow> u32" where
  "align_size size_arg = (size_arg + 3) AND NOT 3"

definition page_start :: "u32 \<Rightarrow> u32" where
  "page_start address = address AND NOT (HEAP_PAGE_SIZE - 1)"

lemma heap_map_page_advances:
  assumes "heap_map_page vm page = (True, vm')"
  shows "0x80000 - unat (page + 0x1000) < 0x80000 - unat page"
proof -
  have "heap_page_valid page" using assms by (auto simp: heap_map_page_def split: if_splits)
  then have "page < 0x80000" by (simp add: heap_page_valid_iff)
  then show ?thesis by (simp add: word_less_nat_alt unat_word_ariths)
qed

function map_pages :: "vm_state \<Rightarrow> u32 \<Rightarrow> u32 \<Rightarrow> u32 \<Rightarrow> bool \<times> u32 \<times> vm_state" where
  "map_pages vm page end_arg mapped_page_count =
     (if page < end_arg then
        let (ok, vm') = heap_map_page vm page
        in if \<not> ok then (False, mapped_page_count, vm')
           else map_pages vm' (page + HEAP_PAGE_SIZE) end_arg (mapped_page_count + 1)
      else (True, mapped_page_count, vm))"
  by pat_completeness auto
termination
  by (relation "measure (\<lambda>(vm, page, e, n). 0x80000 - unat page)") (use heap_map_page_advances [OF sym] in auto)

declare map_pages.simps [simp del]

partial_function (option) unmap_pages :: "vm_state \<Rightarrow> u32 \<Rightarrow> u32 \<Rightarrow> vm_state option" where
  "unmap_pages vm page end_arg =
     (if page < end_arg
      then unmap_pages (snd (heap_unmap_page vm page)) (page + HEAP_PAGE_SIZE) end_arg
      else Some vm)"

declare unmap_pages.simps [code]

definition reusable_slot :: "u32 \<Rightarrow> paged_heap_block_t \<Rightarrow> bool" where
  "reusable_slot size_arg slot \<longleftrightarrow>
     \<not> (pb_free slot \<noteq> 1 \<or> pb_address slot = 0) \<and>
     (let address = pb_address slot; block_start = address - sizeof_heap_block; e = address + size_arg
      in \<not> (block_start < HEAP_PAGED_BASE \<or> e < address \<or> e > HEAP_PAGED_LIMIT))"

definition available_slot :: "paged_heap_block_t \<Rightarrow> bool" where
  "available_slot slot \<longleftrightarrow> pb_free slot = 1 \<or> pb_address slot = 0"

text \<open>
  The common end of the three ways to allocate: map the pages of
  \<open>[start, end)\<close>, or roll back to \<open>cleanup_end mapped\<close> and return 0.
\<close>

definition map_block ::
  "heap_state \<Rightarrow> u32 \<Rightarrow> u32 \<Rightarrow> (u32 \<Rightarrow> u32) \<Rightarrow> (heap_state \<Rightarrow> u32 \<times> heap_state) \<Rightarrow> (u32 \<times> heap_state) option" where
  "map_block s start e cleanup_end commit =
     (let (ok, mapped_page_count, vm) = map_pages (hs_vm s) (page_start start) e 0
      in if ok then Some (commit (s\<lparr>hs_vm := vm\<rparr>))
         else do {
           vm \<leftarrow> unmap_pages vm (page_start start) (cleanup_end (mapped_page_count * HEAP_PAGE_SIZE));
           Some (0, s\<lparr>hs_vm := vm\<rparr>) })"

definition heap_alloc_paged :: "heap_state \<Rightarrow> u32 \<Rightarrow> (u32 \<times> heap_state) option" where
  "heap_alloc_paged s size_arg =
     (if size_arg = 0 then Some (0, s)
      else
        let size_arg = align_size size_arg
        in case find_slot (reusable_slot size_arg) (hs_paged s) 0 of
             Some index \<Rightarrow>
               let slot = hs_paged s ! index; address = pb_address slot;
                   block_start = address - sizeof_heap_block; e = address + size_arg
               in map_block s block_start e (\<lambda>n. page_start block_start + n)
                    (\<lambda>s. (address, s\<lparr>hs_paged := (hs_paged s)[index := slot\<lparr>pb_size := size_arg, pb_free := 0\<rparr>]\<rparr>))
           | None \<Rightarrow>
               (case find_slot available_slot (hs_paged s) 0 of
                  None \<Rightarrow> Some (0, s)
                | Some index \<Rightarrow>
                    let block_size = sizeof_heap_block + size_arg;
                        start = align_up_4k (hs_pointer s);
                        start = (if start < HEAP_PAGED_BASE then HEAP_PAGED_BASE else start);
                        e = start + block_size
                    in if e < start \<or> e > HEAP_PAGED_LIMIT then Some (0, s)
                       else map_block s start e (\<lambda>n. start + n)
                         (\<lambda>s. (start + sizeof_heap_block,
                               s\<lparr>hs_paged := (hs_paged s)[index :=
                                   \<lparr>pb_address = start + sizeof_heap_block, pb_size = size_arg, pb_free = 0\<rparr>],
                                 hs_pointer := e\<rparr>))))"

definition heap_alloc_paged_aligned :: "heap_state \<Rightarrow> u32 \<Rightarrow> (u32 \<times> heap_state) option" where
  "heap_alloc_paged_aligned s size_arg =
     (if size_arg = 0 then Some (0, s)
      else
        let size_arg = align_size size_arg
        in case find_slot available_slot (hs_paged s) 0 of
             None \<Rightarrow> Some (0, s)
           | Some index \<Rightarrow>
               let address = align_up_4k (hs_pointer s + sizeof_heap_block);
                   block_start = address - sizeof_heap_block; e = address + size_arg
               in if block_start < HEAP_PAGED_BASE then Some (0, s)
                  else if e < address \<or> e > HEAP_PAGED_LIMIT then Some (0, s)
                  else map_block s block_start e (\<lambda>n. block_start + n)
                    (\<lambda>s. (address,
                          (set_block s block_start \<lparr>hb_size = size_arg, hb_free = 0, hb_next = 0\<rparr>)
                            \<lparr>hs_paged := (hs_paged s)[index :=
                               \<lparr>pb_address = address, pb_size = size_arg, pb_free = 0\<rparr>],
                             hs_pointer := e\<rparr>)))"

subsection \<open>Allocation\<close>

definition block_fits :: "heap_state \<Rightarrow> u32 \<Rightarrow> u32 \<Rightarrow> bool" where
  "block_fits s size_arg a \<longleftrightarrow> hb_free (hs_blocks s a) = 1 \<and> hb_size (hs_blocks s a) \<ge> size_arg"

text \<open>Using the free block \<open>current\<close>, splitting off what is left over.\<close>

definition reuse_block :: "heap_state \<Rightarrow> u32 \<Rightarrow> u32 \<Rightarrow> u32 \<times> heap_state" where
  "reuse_block s current size_arg =
     (let block = hs_blocks s current;
          s = (if hb_size block \<ge> size_arg + sizeof_heap_block + 1 then
                 let new_block = current + sizeof_heap_block + size_arg;
                     s = set_block s new_block \<lparr>hb_size = hb_size block - size_arg - sizeof_heap_block,
                           hb_free = 1, hb_next = hb_next block\<rparr>
                 in set_block s current ((hs_blocks s current)\<lparr>hb_size := size_arg, hb_next := new_block\<rparr>)
               else s);
          s = set_block s current ((hs_blocks s current)\<lparr>hb_free := 0\<rparr>)
      in (current + sizeof_heap_block, s))"

definition no_room :: "heap_state \<Rightarrow> u32 \<Rightarrow> bool" where
  "no_room s size_arg \<longleftrightarrow>
     hs_pointer s > hs_limit s \<or> hs_limit s - hs_pointer s < sizeof_heap_block \<or>
     size_arg > (hs_limit s - hs_pointer s) - sizeof_heap_block"

definition append_block :: "heap_state \<Rightarrow> u32 \<Rightarrow> (u32 \<times> heap_state) option" where
  "append_block s size_arg =
     (let block = hs_pointer s;
          s = set_block s block \<lparr>hb_size = size_arg, hb_free = 0, hb_next = 0\<rparr>
      in do {
           s \<leftarrow> (if hs_first s = 0 then Some (s\<lparr>hs_first := block\<rparr>)
                else do {
                  current \<leftarrow> chain_find (next_block s) (\<lambda>a. next_block s a = 0) (hs_first s);
                  Some (set_block s current ((hs_blocks s current)\<lparr>hb_next := block\<rparr>)) });
           let s = s\<lparr>hs_pointer := hs_pointer s + sizeof_heap_block\<rparr>;
           let address = hs_pointer s;
           Some (address, s\<lparr>hs_pointer := hs_pointer s + size_arg\<rparr>) })"

definition heap_alloc :: "heap_state \<Rightarrow> u32 \<Rightarrow> (u32 \<times> heap_state) option" where
  "heap_alloc s size_arg =
     (if hs_paging s \<noteq> 0 then heap_alloc_paged s size_arg
      else if size_arg = 0 then Some (0, s)
      else
        let size_arg = align_size size_arg
        in do {
          current \<leftarrow> chain_find (next_block s) (block_fits s size_arg) (hs_first s);
          if current \<noteq> 0 then Some (reuse_block s current size_arg)
          else if no_room s size_arg then Some (0, s)
          else append_block s size_arg })"

subsection \<open>Release\<close>

definition paged_heap_find :: "heap_state \<Rightarrow> u32 \<Rightarrow> nat option" where
  "paged_heap_find s address = find_slot (\<lambda>slot. pb_address slot = address) (hs_paged s) 0"

definition heap_blocks_adjacent :: "heap_state \<Rightarrow> u32 \<Rightarrow> u32 \<Rightarrow> bool" where
  "heap_blocks_adjacent s first second \<longleftrightarrow> first + sizeof_heap_block + hb_size (hs_blocks s first) = second"

text \<open>Taking the block after \<open>a\<close> into \<open>a\<close>.\<close>

definition absorb_next :: "heap_state \<Rightarrow> u32 \<Rightarrow> u32 \<Rightarrow> heap_state" where
  "absorb_next s a b =
     set_block s a ((hs_blocks s a)\<lparr>hb_size := hb_size (hs_blocks s a) + (sizeof_heap_block + hb_size (hs_blocks s b)),
                                   hb_next := next_block s b\<rparr>)"

definition release_block :: "heap_state \<Rightarrow> u32 \<Rightarrow> heap_state option" where
  "release_block s current =
     (if hb_free (hs_blocks s current) = 1 then Some s
      else
        let s = set_block s current ((hs_blocks s current)\<lparr>hb_free := 1\<rparr>);
            nxt = next_block s current;
            s = (if nxt \<noteq> 0 \<and> hb_free (hs_blocks s nxt) = 1 \<and> heap_blocks_adjacent s current nxt
                 then absorb_next s current nxt else s)
        in do {
          previous \<leftarrow> chain_find (next_block s) (\<lambda>a. next_block s a = current) (hs_first s);
          Some (if previous \<noteq> 0 \<and> hb_free (hs_blocks s previous) = 1 \<and> heap_blocks_adjacent s previous current
                then absorb_next s previous current else s) })"

definition heap_free :: "heap_state \<Rightarrow> u32 \<Rightarrow> heap_state option" where
  "heap_free s address =
     (if address = 0 then Some s
      else case paged_heap_find s address of
             Some index \<Rightarrow>
               let paged = hs_paged s ! index
               in if pb_free paged = 1 then Some s
                  else
                    let paged_block_start = address - sizeof_heap_block;
                        paged_block_end = paged_block_start + sizeof_heap_block + pb_size paged
                    in do {
                      vm \<leftarrow> unmap_pages (hs_vm s) (page_start paged_block_start) paged_block_end;
                      Some (s\<lparr>hs_paged := (hs_paged s)[index := paged\<lparr>pb_free := 1\<rparr>], hs_vm := vm\<rparr>) }
           | None \<Rightarrow>
               do {
                 current \<leftarrow> chain_find (next_block s) (\<lambda>a. a + sizeof_heap_block = address) (hs_first s);
                 if current \<noteq> 0 then release_block s current else Some s })"

subsection \<open>Reallocation\<close>

text \<open>The physical address the processor uses for an address, \<open>None\<close> for a page fault.\<close>

definition translate :: "heap_state \<Rightarrow> u32 \<Rightarrow> u32 option" where
  "translate s va =
     (if hs_paging s = 0 then Some va
      else if directory_index va \<ge> PAGE_TABLE_COUNT then None
      else
        let entry = entry_at (the (as_page_tables (vm_kernel_space (hs_vm s)))) va
        in if entry AND PAGE_PRESENT = 0 then None
           else Some ((entry AND 0xFFFFF000) OR (va AND 0xFFF)))"

definition load_byte :: "heap_state \<Rightarrow> u32 \<Rightarrow> u8 option" where
  "load_byte s va = map_option (hs_memory s) (translate s va)"

definition store_byte :: "heap_state \<Rightarrow> u32 \<Rightarrow> u8 \<Rightarrow> heap_state option" where
  "store_byte s va b = map_option (\<lambda>pa. s\<lparr>hs_memory := (hs_memory s)(pa := b)\<rparr>) (translate s va)"

fun copy_bytes :: "heap_state \<Rightarrow> u32 \<Rightarrow> u32 \<Rightarrow> nat \<Rightarrow> heap_state option" where
  "copy_bytes s source destination 0 = Some s"
| "copy_bytes s source destination (Suc n) =
     do { b \<leftarrow> load_byte s source;
          s \<leftarrow> store_byte s destination b;
          copy_bytes s (source + 1) (destination + 1) n }"

definition move_block :: "heap_state \<Rightarrow> u32 \<Rightarrow> u32 \<Rightarrow> (heap_state \<Rightarrow> u32) \<Rightarrow> (u32 \<times> heap_state) option" where
  "move_block s address size_arg old_size =
     do { (new_address, s) \<leftarrow> heap_alloc s size_arg;
          if new_address = 0 then Some (0, s)
          else do {
            s \<leftarrow> copy_bytes s address new_address (unat (old_size s));
            s \<leftarrow> heap_free s address;
            Some (new_address, s) } }"

definition heap_realloc :: "heap_state \<Rightarrow> u32 \<Rightarrow> u32 \<Rightarrow> (u32 \<times> heap_state) option" where
  "heap_realloc s address size_arg =
     (if address = 0 then heap_alloc s size_arg
      else if size_arg = 0 then map_option (\<lambda>s. (0, s)) (heap_free s address)
      else
        let size_arg = align_size size_arg
        in case paged_heap_find s address of
             Some index \<Rightarrow>
               if pb_free (hs_paged s ! index) = 1 then Some (0, s)
               else if pb_size (hs_paged s ! index) \<ge> size_arg then Some (address, s)
               else move_block s address size_arg (\<lambda>s. pb_size (hs_paged s ! index))
           | None \<Rightarrow>
               do {
                 current \<leftarrow> chain_find (next_block s) (\<lambda>a. a + sizeof_heap_block = address) (hs_first s);
                 if current = 0 then Some (0, s)
                 else if hb_size (hs_blocks s current) \<ge> size_arg then Some (address, s)
                 else move_block s address size_arg (\<lambda>s. hb_size (hs_blocks s current)) })"

end
