(* ===== verification/Heap_Blocks.thy ===== *)
theory Heap_Blocks
  imports Kernel_Heap
begin

section \<open>The heap before paging is enabled\<close>

text \<open>
  The list of blocks is kept in the order of addresses, without overlaps and
  below \<open>heap_pointer\<close> (\<open>heap_ok\<close>). On such a heap every traversal ends, and the
  operations are updates of the map \<open>allocated\<close> from the addresses handed out to
  the sizes of their blocks: \<open>heap_alloc_spec\<close>, \<open>heap_free_spec\<close> and
  \<open>heap_realloc_spec\<close>.
\<close>

subsection \<open>The list of blocks\<close>

text \<open>Blocks in increasing order that do not overlap, between \<open>lo\<close> and \<open>hi\<close>.\<close>

fun spaced :: "(u32 \<Rightarrow> u32) \<Rightarrow> nat \<Rightarrow> u32 list \<Rightarrow> nat \<Rightarrow> bool" where
  "spaced sz lo [] hi \<longleftrightarrow> lo \<le> hi"
| "spaced sz lo (a # xs) hi \<longleftrightarrow> lo \<le> unat a \<and> spaced sz (unat a + 12 + unat (sz a)) xs hi"

lemma spaced_append: "spaced sz lo (xs @ ys) hi \<longleftrightarrow> (\<exists>m. spaced sz lo xs m \<and> spaced sz m ys hi)"
proof (induction xs arbitrary: lo)
  case Nil
  have mono: "spaced sz m ys hi \<Longrightarrow> lo \<le> m \<Longrightarrow> spaced sz lo ys hi" for m by (cases ys) auto
  then show ?case by auto
qed auto

lemma spaced_le: "spaced sz lo xs hi \<Longrightarrow> lo \<le> hi"
  by (induction xs arbitrary: lo) fastforce+

lemma spaced_weaken: "spaced sz lo xs hi \<Longrightarrow> lo' \<le> lo \<Longrightarrow> hi \<le> hi' \<Longrightarrow> spaced sz lo' xs hi'"
  by (induction xs arbitrary: lo lo') auto

lemma spaced_cong: "(\<And>a. a \<in> set xs \<Longrightarrow> sz a = sz' a) \<Longrightarrow> spaced sz lo xs hi = spaced sz' lo xs hi"
  by (induction xs arbitrary: lo) auto

lemma spaced_upd: "a \<notin> set xs \<Longrightarrow> spaced (sz(a := n)) lo xs hi = spaced sz lo xs hi"
  by (rule spaced_cong) auto

lemma spaced_bounds: "spaced sz lo xs hi \<Longrightarrow> a \<in> set xs \<Longrightarrow> lo \<le> unat a \<and> unat a + 12 + unat (sz a) \<le> hi"
proof (induction xs arbitrary: lo)
  case (Cons b xs)
  then show ?case using spaced_le [of sz _ xs hi] by fastforce
qed simp

lemma spaced_disjoint:
  "spaced sz lo xs hi \<Longrightarrow> a \<in> set xs \<Longrightarrow> b \<in> set xs \<Longrightarrow> a \<noteq> b \<Longrightarrow>
   unat a + 12 + unat (sz a) \<le> unat b \<or> unat b + 12 + unat (sz b) \<le> unat a"
proof (induction xs arbitrary: lo)
  case (Cons c xs)
  then show ?case using spaced_bounds [of sz _ xs hi] by fastforce
qed simp

definition block_size :: "heap_state \<Rightarrow> u32 \<Rightarrow> u32" where
  "block_size s a = hb_size (hs_blocks s a)"

definition heap_list :: "heap_state \<Rightarrow> u32 list \<Rightarrow> bool" where
  "heap_list s xs \<longleftrightarrow> chain (next_block s) (hs_first s) xs 0 \<and> spaced (block_size s) 1 xs (unat (hs_pointer s))"

definition heap_ok :: "heap_state \<Rightarrow> bool" where
  "heap_ok s \<longleftrightarrow> (\<exists>xs. heap_list s xs)"

text \<open>The blocks in use, by the address the caller holds.\<close>

definition allocated :: "heap_state \<Rightarrow> u32 \<Rightarrow> u32 option" where
  "allocated s r =
     (let a = r - sizeof_heap_block
      in if on_chain (next_block s) (hs_first s) a \<and> hb_free (hs_blocks s a) \<noteq> 1 then Some (block_size s a) else None)"

lemma allocated_list:
  "heap_list s xs \<Longrightarrow> allocated s r = (if r - 12 \<in> set xs \<and> hb_free (hs_blocks s (r - 12)) \<noteq> 1
     then Some (block_size s (r - 12)) else None)"
  using on_chain_iff [of "next_block s" "hs_first s" xs] by (simp add: allocated_def heap_list_def Let_def)

lemma heap_list_cases:
  assumes "heap_list s (ys @ a # zs)"
  shows "chain (next_block s) (hs_first s) (ys @ a # zs) 0" "distinct (ys @ a # zs)" "0 \<notin> set (ys @ a # zs)"
    and "spaced (block_size s) 1 ys (unat a)"
    and "unat a + 12 + unat (block_size s a) \<le> unat (hs_pointer s)"
    and "spaced (block_size s) (unat a + 12 + unat (block_size s a)) zs (unat (hs_pointer s))"
  using assms chain_distinct chain_nonzero spaced_bounds [of "block_size s" 1 "ys @ a # zs" _ a]
  by (fastforce simp: heap_list_def spaced_append intro: spaced_weaken)+

lemma unat_add_le: "unat (x :: u32) + unat y \<le> unat (z :: u32) \<Longrightarrow> unat (x + y) = unat x + unat y"
proof -
  assume "unat x + unat y \<le> unat z"
  moreover have "unat z < 4294967296" using unsigned_less [of z] by simp
  ultimately show ?thesis by (simp add: unat_word_ariths)
qed

lemma u32_less: "unat (z :: u32) < 4294967296"
  using unsigned_less [of z] by simp

lemma block_end:
  assumes "unat a + 12 + unat x \<le> unat (p :: u32)"
  shows "unat (a + 12 :: u32) = unat a + 12" "unat (a + 12 + x :: u32) = unat a + 12 + unat x"
proof -
  have "unat a + unat (12 :: u32) \<le> unat p" using assms by simp
  then show a: "unat (a + 12) = unat a + 12" using unat_add_le [of a 12 p] by simp
  show "unat (a + 12 + x) = unat a + 12 + unat x"
    using unat_add_le [of "a + 12" x p] a assms by simp
qed

text \<open>Blocks in use do not overlap, headers included.\<close>

lemma allocated_disjoint:
  assumes "heap_ok s" and "allocated s p = Some n" and "allocated s q = Some m" and "p \<noteq> q"
  shows "unat p + unat n + 12 \<le> unat q \<or> unat q + unat m + 12 \<le> unat p"
proof -
  obtain xs where l: "heap_list s xs" using assms(1) by (auto simp: heap_ok_def)
  note A = allocated_list [OF l]
  have a: "p - 12 \<in> set xs" "n = block_size s (p - 12)" "q - 12 \<in> set xs" "m = block_size s (q - 12)" "p - 12 \<noteq> q - 12"
    using assms(2-4) by (auto simp: A split: if_splits)
  have sp: "spaced (block_size s) 1 xs (unat (hs_pointer s))" using l by (simp add: heap_list_def)
  have u: "unat x = unat (x - 12) + 12" if "x - 12 \<in> set xs" for x
    using block_end(1) [OF conjunct2 [OF spaced_bounds [OF sp that]]] by simp
  show ?thesis using spaced_disjoint [OF sp a(1,3,5)] u [OF a(1)] u [OF a(3)] a(2,4) by auto
qed

lemma allocated_bounds:
  assumes "heap_ok s" and "allocated s p = Some n"
  shows "12 < unat p \<and> unat p + unat n \<le> unat (hs_pointer s)"
proof -
  obtain xs where l: "heap_list s xs" using assms(1) by (auto simp: heap_ok_def)
  have a: "p - 12 \<in> set xs" "n = block_size s (p - 12)"
    using assms(2) by (auto simp: allocated_list [OF l] split: if_splits)
  have sp: "spaced (block_size s) 1 xs (unat (hs_pointer s))" using l by (simp add: heap_list_def)
  show ?thesis using spaced_bounds [OF sp a(1)] block_end(1) [OF conjunct2 [OF spaced_bounds [OF sp a(1)]]] a(2) by simp
qed

definition same_paged :: "heap_state \<Rightarrow> heap_state \<Rightarrow> bool" where
  "same_paged s s' \<longleftrightarrow> hs_paging s' = hs_paging s \<and> hs_limit s' = hs_limit s \<and> hs_paged s' = hs_paged s \<and>
     hs_vm s' = hs_vm s \<and> hs_memory s' = hs_memory s"

lemma set_block_simps [simp]:
  "hs_blocks (set_block s a b) = (hs_blocks s)(a := b)" "hs_first (set_block s a b) = hs_first s"
  "hs_pointer (set_block s a b) = hs_pointer s" "hs_limit (set_block s a b) = hs_limit s"
  "hs_paging (set_block s a b) = hs_paging s" "hs_paged (set_block s a b) = hs_paged s"
  "hs_vm (set_block s a b) = hs_vm s" "hs_memory (set_block s a b) = hs_memory s"
  by (simp_all add: set_block_def)

lemma block_size_cong: "hs_blocks s' = hs_blocks s \<Longrightarrow> block_size s' = block_size s"
  by (simp add: block_size_def fun_eq_iff)

lemma heap_listI:
  assumes "chain (next_block s) (hs_first s) (ys @ ws) 0"
    and "spaced (block_size s) 1 ys m" and "spaced (block_size s) m ws (unat (hs_pointer s))"
  shows "heap_list s (ys @ ws)"
  using assms by (auto simp: heap_list_def spaced_append)

text \<open>Adding or removing one block in use.\<close>

lemma allocated_insert:
  assumes l: "heap_list s xs" and l': "heap_list s' xs'" and a: "a \<in> set xs'" "hb_free (hs_blocks s' a) \<noteq> 1"
    and n: "a \<notin> set xs \<or> hb_free (hs_blocks s a) = 1"
    and o: "\<And>b. b \<noteq> a \<Longrightarrow> b \<in> set xs \<and> hb_free (hs_blocks s b) \<noteq> 1 \<longleftrightarrow> b \<in> set xs' \<and> hb_free (hs_blocks s' b) \<noteq> 1"
    and z: "\<And>b. b \<noteq> a \<Longrightarrow> b \<in> set xs \<Longrightarrow> hb_free (hs_blocks s b) \<noteq> 1 \<Longrightarrow> block_size s' b = block_size s b"
  shows "allocated s (a + 12) = None \<and> allocated s' = (allocated s)(a + 12 \<mapsto> block_size s' a)"
proof -
  have e: "r - 12 = a \<longleftrightarrow> r = a + 12" for r by (auto simp: algebra_simps)
  have "allocated s' r = ((allocated s)(a + 12 \<mapsto> block_size s' a)) r" for r
    using a o [of "r - 12"] z [of "r - 12"] e [of r] by (auto simp: allocated_list [OF l] allocated_list [OF l'])
  then show ?thesis using n by (auto simp: allocated_list [OF l] fun_eq_iff)
qed

lemma reuse_block_spec:
  assumes l: "heap_list s (ys @ a # zs)" and f: "hb_free (hs_blocks s a) = 1" and n: "n \<le> block_size s a"
    and r: "reuse_block s a n = (r, s')"
  shows "r = a + 12 \<and> heap_ok s' \<and> same_paged s s' \<and> hs_pointer s' = hs_pointer s \<and> n \<le> block_size s' a \<and>
    allocated s r = None \<and> allocated s' = (allocated s)(r \<mapsto> block_size s' a)"
proof -
  note L = heap_list_cases [OF l]
  note E = block_end [OF L(5)]
  have i: "a \<notin> set ys" "a \<notin> set zs" using L(2) by auto
  have nn: "unat a + 12 + unat n \<le> unat (hs_pointer s)" using L(5) n by (simp add: word_le_nat_alt)
  note N = block_end [OF nn]
  have "unat (n + 13) = unat n + 13"
    using nn L(3,4) spaced_le [OF L(4)] u32_less [of "hs_pointer s"] by (simp add: unat_word_ariths)
  then have c: "n + 13 \<le> block_size s a \<longleftrightarrow> unat n + 13 \<le> unat (block_size s a)" by (simp add: word_le_nat_alt)
  show ?thesis
  proof (cases "n + 13 \<le> block_size s a")
    case False
    then have s': "r = a + 12" "s' = set_block s a ((hs_blocks s a)\<lparr>hb_free := 0\<rparr>)"
      using r by (auto simp: reuse_block_def Let_def block_size_def add.assoc)
    have nx: "next_block s' = next_block s" and bs: "block_size s' = block_size s"
      by (auto simp: s'(2) block_size_def)
    have l': "heap_list s' (ys @ a # zs)" using l by (simp add: heap_list_def nx bs) (simp add: s'(2))
    have "allocated s (a + 12) = None \<and> allocated s' = (allocated s)(a + 12 \<mapsto> block_size s' a)"
      by (rule allocated_insert [OF l l']) (use f bs in \<open>auto simp: s'(2)\<close>)
    then show ?thesis using s' l' n bs by (auto simp: heap_ok_def same_paged_def)
  next
    case True
    let ?b = "a + 12 + n" let ?k = "block_size s a - n - 12"
    have k: "unat ?k = unat (block_size s a) - unat n - 12"
      using True c n by (simp add: unat_minus_le word_le_nat_alt)
    have ab: "unat ?b = unat a + 12 + unat n" by (rule N(2))
    have s': "r = a + 12" "hs_first s' = hs_first s" "hs_pointer s' = hs_pointer s" "same_paged s s'"
      "hs_blocks s' = (hs_blocks s)(?b := \<lparr>hb_size = ?k, hb_free = 1, hb_next = next_block s a\<rparr>,
          a := (hs_blocks s a)\<lparr>hb_size := n, hb_next := ?b, hb_free := 0\<rparr>)"
      using r True ab by (auto simp: reuse_block_def Let_def block_size_def add.assoc same_paged_def)
    have b: "?b \<notin> set (ys @ a # zs)"
    proof
      assume "?b \<in> set (ys @ a # zs)"
      then consider "?b \<in> set ys" | "?b = a" | "?b \<in> set zs" by auto
      then show False
        using ab True c spaced_bounds [OF L(4), of ?b] spaced_bounds [OF L(6), of ?b] by cases auto
    qed
    have b0: "?b \<noteq> 0" using ab by auto
    have nx: "next_block s' = (next_block s)(?b := next_block s a, a := ?b)" by (auto simp: s'(5))
    have bs: "block_size s' = (block_size s)(?b := ?k, a := n)" by (auto simp: s'(5) block_size_def)
    have "chain (next_block s') (hs_first s') (ys @ a # ?b # zs) 0"
      unfolding nx s'(2) by (rule chain_insert_after [OF L(1) b b0])
    moreover have y: "spaced (block_size s') lo xs hi = spaced (block_size s) lo xs hi"
      if "set xs \<subseteq> set ys \<union> set zs" for xs lo hi
      by (rule spaced_cong) (use b i that in \<open>auto simp: bs\<close>)
    moreover have "spaced (block_size s') 1 ys (unat a)"
      using L(4) y by simp
    moreover have "spaced (block_size s') (unat a) (a # ?b # zs) (unat (hs_pointer s'))"
      using L(6) y [of zs] ab k True c b by (simp add: bs s'(3) ac_simps)
    ultimately have l': "heap_list s' (ys @ a # ?b # zs)" by (intro heap_listI)
    have "allocated s (a + 12) = None \<and> allocated s' = (allocated s)(a + 12 \<mapsto> block_size s' a)"
      by (rule allocated_insert [OF l l']) (use f b in \<open>auto simp: s'(5) bs\<close>)
    then show ?thesis using s' l' bs by (auto simp: heap_ok_def)
  qed
qed

lemma append_block_spec:
  assumes l: "heap_list s xs" and n: "\<not> no_room s n"
  obtains s' where "append_block s n = Some (hs_pointer s + 12, s')" "heap_ok s'" "same_paged s s'"
    "unat (hs_pointer s') = unat (hs_pointer s) + 12 + unat n" "hs_pointer s' \<le> hs_limit s"
    "allocated s (hs_pointer s + 12) = None" "allocated s' = (allocated s)(hs_pointer s + 12 \<mapsto> n)"
proof -
  let ?p = "hs_pointer s"
  have le: "?p \<le> hs_limit s" "12 \<le> hs_limit s - ?p" "n \<le> hs_limit s - ?p - 12"
    using n by (simp_all add: no_room_def not_less)
  have nr: "unat ?p + 12 + unat n \<le> unat (hs_limit s)"
    using le unat_minus_le [OF le(1)] unat_minus_le [OF le(2)] by (simp add: word_le_nat_alt)
  note E = block_end [OF nr]
  have c: "chain (next_block s) (hs_first s) xs 0" and sp: "spaced (block_size s) 1 xs (unat ?p)"
    using l by (simp_all add: heap_list_def)
  have p: "?p \<noteq> 0" "?p \<notin> set xs" using spaced_le [OF sp] spaced_bounds [OF sp, of ?p] by auto
  let ?s = "set_block s ?p \<lparr>hb_size = n, hb_free = 0, hb_next = 0\<rparr>"
  have c1: "chain (next_block ?s) (hs_first s) xs 0"
    using c chain_upd [OF p(2), of "next_block s" 0] by (simp add: fun_upd_def if_distrib [of hb_next] cong: if_cong)
  obtain t where t: "append_block s n = Some (?p + 12, t)" "hs_pointer t = ?p + 12 + n" "same_paged s t"
    "chain (next_block t) (hs_first t) (xs @ [?p]) 0" "block_size t = (block_size s)(?p := n)"
    "\<And>b. hb_free (hs_blocks t b) = (if b = ?p then 0 else hb_free (hs_blocks s b))"
  proof (cases "xs = []")
    case True
    then have "hs_first s = 0" using c by simp
    then show ?thesis using True p
      by (intro that [of "?s\<lparr>hs_first := ?p, hs_pointer := ?p + 12 + n\<rparr>"])
        (auto simp: append_block_def Let_def same_paged_def block_size_def)
  next
    case False
    then have "hs_first s = hd xs" "hd xs \<noteq> 0" using c by (cases xs; auto)+
    then have f: "chain_find (next_block ?s) (\<lambda>a. next_block ?s a = 0) (hs_first s) = Some (last xs)" "hs_first s \<noteq> 0"
      using chain_find_eq [OF c1] find_last [OF c1 False] by auto
    have q: "last xs \<noteq> ?p" using False p(2) last_in_set by metis
    let ?t = "set_block ?s (last xs) ((hs_blocks ?s (last xs))\<lparr>hb_next := ?p\<rparr>)"
    have "next_block ?t = (next_block ?s)(last xs := ?p)" by auto
    then have "chain (next_block ?t) (hs_first s) (xs @ [?p]) 0"
      using chain_snoc [OF c1 False p(2,1)] by simp
    then show ?thesis using False p f q
      by (intro that [of "?t\<lparr>hs_pointer := ?p + 12 + n\<rparr>"])
        (auto simp: append_block_def Let_def same_paged_def block_size_def)
  qed
  have "spaced (block_size t) 1 xs (unat ?p)"
    using sp p(2) by (simp add: t(5) spaced_upd)
  then have l': "heap_list t (xs @ [?p])" using t(4) E by (intro heap_listI) (auto simp: t(2,5))
  have "allocated s (?p + 12) = None \<and> allocated t = (allocated s)(?p + 12 \<mapsto> block_size t ?p)"
    by (rule allocated_insert [OF l l']) (use p in \<open>auto simp: t(5,6)\<close>)
  then show ?thesis using that [of t] t l' E nr by (auto simp: heap_ok_def word_le_nat_alt)
qed

lemma allocated_delete:
  assumes l: "heap_list s xs" and l': "heap_list s' xs'"
    and o: "\<And>b. b \<in> set xs' \<and> hb_free (hs_blocks s' b) \<noteq> 1 \<longleftrightarrow> b \<in> set xs \<and> hb_free (hs_blocks s b) \<noteq> 1 \<and> b \<notin> D"
    and z: "\<And>b. b \<in> set xs \<Longrightarrow> hb_free (hs_blocks s b) \<noteq> 1 \<Longrightarrow> b \<notin> D \<Longrightarrow> block_size s' b = block_size s b"
  shows "allocated s' = (\<lambda>r. if r - 12 \<in> D then None else allocated s r)"
  using o z by (fastforce simp: fun_eq_iff allocated_list [OF l] allocated_list [OF l'])

lemma absorb_next_spec:
  assumes l: "heap_list s (ys @ a # b # zs)" and f: "hb_free (hs_blocks s a) = 1" "hb_free (hs_blocks s b) = 1"
    and adj: "heap_blocks_adjacent s a b"
  defines "s' \<equiv> absorb_next s a b"
  shows "heap_list s' (ys @ a # zs) \<and> allocated s' = allocated s \<and> same_paged s s' \<and> hs_pointer s' = hs_pointer s \<and>
    hs_first s' = hs_first s \<and> (\<forall>c. hb_free (hs_blocks s' c) = hb_free (hs_blocks s c))"
proof -
  note L = heap_list_cases [OF l]
  have lb: "heap_list s ((ys @ [a]) @ b # zs)" using l by simp
  note M = heap_list_cases [OF lb]
  have i: "a \<notin> set ys" "a \<notin> set zs" "b \<notin> set ys" "b \<noteq> a" "b \<notin> set zs" using L(2) by auto
  have ub: "unat b = unat a + 12 + unat (block_size s a)"
    using block_end(2) [OF L(5)] adj by (simp add: heap_blocks_adjacent_def block_size_def)
  have sz: "unat (block_size s a + (12 + block_size s b)) = unat (block_size s a) + 12 + unat (block_size s b)"
    using M(5) ub u32_less [of "hs_pointer s"] by (simp add: unat_word_ariths)
  have nx: "next_block s' = (next_block s)(a := next_block s b)"
    and bs: "block_size s' = (block_size s)(a := block_size s a + (12 + block_size s b))"
    and o: "hs_first s' = hs_first s" "hs_pointer s' = hs_pointer s" "same_paged s s'"
      "\<And>c. hb_free (hs_blocks s' c) = hb_free (hs_blocks s c)"
    by (auto simp: s'_def absorb_next_def block_size_def same_paged_def)
  have y: "spaced (block_size s') lo xs hi = spaced (block_size s) lo xs hi" if "a \<notin> set xs" for xs lo hi
    by (rule spaced_cong) (use that in \<open>auto simp: bs\<close>)
  have "chain (next_block s') (hs_first s') (ys @ a # zs) 0"
    unfolding nx o(1) by (rule chain_unlink_next [OF L(1)])
  moreover have "spaced (block_size s') 1 ys (unat a)" using L(4) y i by simp
  moreover have "spaced (block_size s') (unat a) (a # zs) (unat (hs_pointer s'))"
    using M(6) y [OF i(2)] sz ub by (simp add: bs o(2) ac_simps)
  ultimately have l': "heap_list s' (ys @ a # zs)" by (rule heap_listI)
  have "allocated s' = (\<lambda>r. if r - 12 \<in> {} then None else allocated s r)"
    by (rule allocated_delete [OF l l']) (use f in \<open>auto simp: o(4) bs\<close>)
  then show ?thesis using l' o by simp
qed

lemma release_block_spec:
  assumes l: "heap_list s (ys @ a # zs)" and f: "hb_free (hs_blocks s a) \<noteq> 1"
  obtains s' where "release_block s a = Some s'" "heap_ok s'" "same_paged s s'" "hs_pointer s' = hs_pointer s"
    "allocated s' = (allocated s)(a + 12 := None)"
proof -
  let ?s1 = "set_block s a ((hs_blocks s a)\<lparr>hb_free := 1\<rparr>)"
  have nx1: "next_block ?s1 = next_block s" and bs1: "block_size ?s1 = block_size s"
    by (auto simp: block_size_def)
  have l1: "heap_list ?s1 (ys @ a # zs)" using l unfolding heap_list_def nx1 bs1 by simp
  have e: "r - 12 = a \<longleftrightarrow> r = a + 12" for r by (auto simp: algebra_simps)
  have "allocated ?s1 = (\<lambda>r. if r - 12 \<in> {a} then None else allocated s r)"
    by (rule allocated_delete [OF l l1]) (auto simp: bs1)
  then have A1: "allocated ?s1 = (allocated s)(a + 12 := None)" by (simp add: e fun_eq_iff)
  let ?nxt = "next_block ?s1 a"
  define s2 where "s2 = (if ?nxt \<noteq> 0 \<and> hb_free (hs_blocks ?s1 ?nxt) = 1 \<and> heap_blocks_adjacent ?s1 a ?nxt
                 then absorb_next ?s1 a ?nxt else ?s1)"
  obtain zs2 where s2: "heap_list s2 (ys @ a # zs2)" "allocated s2 = (allocated s)(a + 12 := None)" "same_paged s s2"
    "hs_pointer s2 = hs_pointer s" "hb_free (hs_blocks s2 a) = 1"
  proof (cases "?nxt \<noteq> 0 \<and> hb_free (hs_blocks ?s1 ?nxt) = 1 \<and> heap_blocks_adjacent ?s1 a ?nxt")
    case True
    have "chain (next_block ?s1) ?nxt zs 0" using heap_list_cases(1) [OF l1] by (auto simp: chain_append)
    then obtain zs' where zs: "zs = ?nxt # zs'" using True by (cases zs) auto
    then have l2: "heap_list ?s1 (ys @ a # ?nxt # zs')" using l1 by simp
    have "hb_free (hs_blocks ?s1 a) = 1" by simp
    from absorb_next_spec [OF l2 this] True A1 show ?thesis
      by (intro that [of zs']) (auto simp: s2_def same_paged_def)
  next
    case False
    then have "s2 = ?s1" by (auto simp: s2_def)
    then show ?thesis using l1 A1 by (intro that [of zs]) (auto simp: same_paged_def)
  qed
  define P where "P = chain_find (next_block s2) (\<lambda>x. next_block s2 x = a) (hs_first s2)"
  have r: "release_block s a = P \<bind> (\<lambda>previous. Some (
      if previous \<noteq> 0 \<and> hb_free (hs_blocks s2 previous) = 1 \<and> heap_blocks_adjacent s2 previous a
      then absorb_next s2 previous a else s2))"
    unfolding release_block_def Let_def P_def s2_def by (simp only: f if_False)
  note c2 = heap_list_cases(1) [OF s2(1)]
  show ?thesis
  proof (cases ys rule: rev_cases)
    case Nil
    then have c3: "chain (next_block s2) (hs_first s2) (a # zs2) 0" using c2 by simp
    have "P = Some 0" unfolding P_def chain_find_eq [OF c3] find_previous_first [OF c3] by simp
    then show ?thesis using s2 r by (intro that [of s2]) (auto simp: heap_ok_def)
  next
    case (snoc ws c)
    have c3: "chain (next_block s2) (hs_first s2) (ws @ c # a # zs2) 0" "heap_list s2 (ws @ c # a # zs2)"
      using c2 s2(1) snoc by simp_all
    have P: "P = Some c" using chain_find_eq [OF c3(1)] find_previous [OF c3(1)] by (simp add: P_def)
    show ?thesis
    proof (cases "c \<noteq> 0 \<and> hb_free (hs_blocks s2 c) = 1 \<and> heap_blocks_adjacent s2 c a")
      case True
      then have "heap_list (absorb_next s2 c a) (ws @ c # zs2) \<and> allocated (absorb_next s2 c a) = allocated s2 \<and>
          same_paged s2 (absorb_next s2 c a) \<and> hs_pointer (absorb_next s2 c a) = hs_pointer s2"
        using absorb_next_spec [OF c3(2) _ s2(5)] by blast
      then show ?thesis using True P r s2 by (intro that [of "absorb_next s2 c a"]) (auto simp: heap_ok_def same_paged_def)
    next
      case False
      then show ?thesis using P r s2 by (intro that [of s2]) (auto simp: heap_ok_def)
    qed
  qed
qed

lemma align_size_nat: "n \<le> 0xFFFFFFFC \<Longrightarrow> unat (align_size n) = (unat n + 3) div 4 * 4"
proof -
  assume "n \<le> 0xFFFFFFFC"
  then have u: "unat (n + 3) = unat n + 3" by (simp add: unat_word_ariths word_le_nat_alt)
  have "align_size n = push_bit 2 (drop_bit 2 (n + 3))"
  proof -
    have "NOT (3 :: u32) = NOT (mask 2)" by (simp add: mask_numeral)
    moreover have "x AND NOT (mask 2) = push_bit 2 (drop_bit 2 x)" for x :: u32
      by (rule bit_word_eqI) (auto simp: bit_simps, (metis add_2_eq_Suc le_add_diff_inverse not_less)+)
    ultimately show ?thesis by (simp add: align_size_def)
  qed
  also have "\<dots> = (n + 3) div 4 * 4" by (simp add: push_bit_eq_mult drop_bit_eq_div)
  finally have a: "align_size n = (n + 3) div 4 * 4" .
  have "(unat n + 3) div 4 * 4 < 4294967296"
    using \<open>n \<le> 0xFFFFFFFC\<close> by (simp add: word_le_nat_alt)
  then show ?thesis unfolding a by (simp add: unat_word_ariths unat_div_distrib u)
qed

lemma align_size_ge: "n \<le> 0xFFFFFFFC \<Longrightarrow> n \<le> align_size n"
  using align_size_nat [of n] by (simp add: word_le_nat_alt)

lemma heap_alloc_spec:
  assumes ok: "heap_ok s" and pg: "hs_paging s = 0" and z: "n \<noteq> 0" "n \<le> 0xFFFFFFFC"
  obtains r s' where "heap_alloc s n = Some (r, s')" "heap_ok s'" "same_paged s s'"
    "r = 0 \<longrightarrow> s' = s \<and> no_room s (align_size n) \<and> (\<forall>a. on_chain (next_block s) (hs_first s) a \<longrightarrow> \<not> block_fits s (align_size n) a)"
    "r \<noteq> 0 \<longrightarrow> allocated s r = None \<and> (\<exists>m \<ge> align_size n. allocated s' = (allocated s)(r \<mapsto> m))"
    "hs_pointer s \<le> hs_limit s \<longrightarrow> hs_pointer s' \<le> hs_limit s"
proof -
  obtain xs where l: "heap_list s xs" using ok by (auto simp: heap_ok_def)
  have c: "chain (next_block s) (hs_first s) xs 0" using l by (simp add: heap_list_def)
  let ?n = "align_size n"
  have nz: "a \<noteq> 0" if "find (block_fits s ?n) xs = Some a" for a
    using that chain_nonzero [OF c] by (metis find_Some_iff nth_mem)
  have e: "heap_alloc s n = (case find (block_fits s ?n) xs of
      Some a \<Rightarrow> Some (reuse_block s a ?n)
    | None \<Rightarrow> if no_room s ?n then Some (0, s) else append_block s ?n)"
    using nz pg z(1) by (auto simp: heap_alloc_def chain_find_eq [OF c] Let_def split: option.splits)
  show ?thesis
  proof (cases "find (block_fits s ?n) xs")
    case None
    then have nf: "\<forall>a. on_chain (next_block s) (hs_first s) a \<longrightarrow> \<not> block_fits s ?n a"
      by (simp add: on_chain_iff [OF c] find_None_iff)
    show ?thesis
    proof (cases "no_room s ?n")
      case True
      then show ?thesis using None e ok nf by (intro that [of 0 s]) (auto simp: same_paged_def)
    next
      case False
      then obtain s' where s': "append_block s ?n = Some (hs_pointer s + 12, s')" "heap_ok s'" "same_paged s s'"
        "unat (hs_pointer s') = unat (hs_pointer s) + 12 + unat ?n" "hs_pointer s' \<le> hs_limit s"
        "allocated s (hs_pointer s + 12) = None" "allocated s' = (allocated s)(hs_pointer s + 12 \<mapsto> ?n)"
        by (rule append_block_spec [OF l])
      have "allocated s' (hs_pointer s + 12) = Some ?n" using s'(7) by simp
      then have "hs_pointer s + 12 \<noteq> 0" using allocated_bounds [OF s'(2)] by fastforce
      then show ?thesis using None e False s' by (intro that [of "hs_pointer s + 12" s']) auto
    qed
  next
    case (Some a)
    then have a: "a \<in> set xs" "block_fits s ?n a" by (auto simp: find_Some_iff)
    then obtain ys zs where xs: "xs = ys @ a # zs" by (meson split_list)
    obtain r s' where r: "reuse_block s a ?n = (r, s')" by fastforce
    have f: "hb_free (hs_blocks s a) = 1" "?n \<le> block_size s a" using a(2) by (auto simp: block_fits_def block_size_def)
    note R = reuse_block_spec [OF l [unfolded xs] f r]
    then have "allocated s' r = Some (block_size s' a)" by simp
    then have "r \<noteq> 0" using allocated_bounds [of s' r] R by fastforce
    then show ?thesis using Some e r R by (intro that [of r s']) auto
  qed
qed

lemma heap_free_spec:
  assumes ok: "heap_ok s" and pg: "paged_heap_find s r = None"
  obtains s' where "heap_free s r = Some s'" "heap_ok s'" "same_paged s s'" "hs_pointer s' = hs_pointer s"
    "allocated s' = (allocated s)(r := None)" "allocated s r = None \<longrightarrow> s' = s"
proof -
  obtain xs where l: "heap_list s xs" using ok by (auto simp: heap_ok_def)
  have c: "chain (next_block s) (hs_first s) xs 0" using l by (simp add: heap_list_def)
  have p: "a + 12 = r \<longleftrightarrow> a = r - 12" for a by (auto simp: algebra_simps)
  have fnd: "find (\<lambda>a. a = r - 12) xs = (if r - 12 \<in> set xs then Some (r - 12) else None)"
    by (induction xs) auto
  have cf: "chain_find (next_block s) (\<lambda>a. a + 12 = r) (hs_first s) = Some (if r - 12 \<in> set xs then r - 12 else 0)"
    unfolding p chain_find_eq [OF c] fnd by simp
  have r0: "allocated s 0 = None" using allocated_bounds [OF ok, of 0] by (cases "allocated s 0") auto
  have e: "heap_free s r = (if r \<noteq> 0 \<and> r - 12 \<in> set xs then release_block s (r - 12) else Some s)"
    using cf pg chain_nonzero [OF c] by (auto simp: heap_free_def)
  show ?thesis
  proof (cases "allocated s r")
    case None
    then have "heap_free s r = Some s"
      using e allocated_list [OF l] by (auto simp: release_block_def split: if_splits)
    then show ?thesis using None ok by (intro that [of s]) (auto simp: same_paged_def)
  next
    case (Some n)
    then have a: "r - 12 \<in> set xs" "hb_free (hs_blocks s (r - 12)) \<noteq> 1" and "r \<noteq> 0"
      using allocated_list [OF l] r0 by (auto split: if_splits)
    obtain ys zs where xs: "xs = ys @ (r - 12) # zs" using a(1) by (meson split_list)
    show ?thesis
      by (rule release_block_spec [OF l [unfolded xs] a(2)]) (use that e a Some \<open>r \<noteq> 0\<close> in auto)
  qed
qed

text \<open>Copying while paging is off.\<close>

lemma copy_bytes_spec:
  assumes "hs_paging s = 0" and "unat p + n < 2 ^ 32" and "unat q + n < 2 ^ 32"
    and "unat p + n \<le> unat q \<or> unat q + n \<le> unat p"
  shows "copy_bytes s p q n = Some (s\<lparr>hs_memory := (\<lambda>x. if unat q \<le> unat x \<and> unat x < unat q + n
           then hs_memory s (p + (x - q)) else hs_memory s x)\<rparr>)"
  using assms
proof (induction n arbitrary: s p q)
  case 0
  then show ?case by (auto simp: fun_eq_iff intro!: heap_state.equality)
next
  case (Suc n)
  have u: "unat (p + 1) = unat p + 1" "unat (q + 1) = unat q + 1"
    using Suc.prems(2,3) by (simp_all add: unat_word_ariths)
  let ?s = "s\<lparr>hs_memory := (hs_memory s)(q := hs_memory s p)\<rparr>"
  have "copy_bytes s p q (Suc n) = copy_bytes ?s (p + 1) (q + 1) n"
    using Suc.prems(1) by (simp add: load_byte_def store_byte_def translate_def)
  also have "\<dots> = Some (?s\<lparr>hs_memory := (\<lambda>x. if unat (q + 1) \<le> unat x \<and> unat x < unat (q + 1) + n
           then hs_memory ?s (p + 1 + (x - (q + 1))) else hs_memory ?s x)\<rparr>)"
    using Suc.prems u by (intro Suc.IH) auto
  also have "(\<lambda>x. if unat (q + 1) \<le> unat x \<and> unat x < unat (q + 1) + n
           then hs_memory ?s (p + 1 + (x - (q + 1))) else hs_memory ?s x) =
      (\<lambda>x. if unat q \<le> unat x \<and> unat x < unat q + Suc n then hs_memory s (p + (x - q)) else hs_memory s x)"
  proof
    fix x :: u32
    have e: "p + 1 + (x - (q + 1)) = p + (x - q)" by (simp add: algebra_simps)
    have ne: "p + (x - q) \<noteq> q" if "unat q \<le> unat x" "unat x < unat q + Suc n"
    proof
      assume h: "p + (x - q) = q"
      have "unat (p + (x - q)) = unat p + (unat x - unat q)"
        using that Suc.prems(2) unat_minus_le [of q x] by (simp add: unat_word_ariths word_le_nat_alt)
      then have "unat q = unat p + (unat x - unat q)" unfolding h .
      then show False using that Suc.prems(4) by linarith
    qed
    show "(if unat (q + 1) \<le> unat x \<and> unat x < unat (q + 1) + n
           then hs_memory ?s (p + 1 + (x - (q + 1))) else hs_memory ?s x) =
      (if unat q \<le> unat x \<and> unat x < unat q + Suc n then hs_memory s (p + (x - q)) else hs_memory s x)"
    proof (cases "x = q")
      case False
      then have "unat x \<noteq> unat q" by (simp add: unat_eq_iff)
      then show ?thesis unfolding e u using ne False by auto
    qed (simp add: u)
  qed
  finally show ?case by simp
qed

lemma align_size_bounds: "n \<le> 0xFFFFFFFC \<Longrightarrow> align_size n \<le> 0xFFFFFFFC \<and> (n \<noteq> 0 \<longrightarrow> align_size n \<noteq> 0)"
proof -
  assume n: "n \<le> 0xFFFFFFFC"
  then have "(unat n + 3) div 4 * 4 \<le> 4294967292" by (simp add: word_le_nat_alt)
  then have "align_size n \<le> 0xFFFFFFFC" using align_size_nat [OF n] by (simp add: word_le_nat_alt)
  moreover have "n = 0" if "align_size n = 0" using align_size_ge [OF n] that by simp
  ultimately show ?thesis by blast
qed

lemma paged_find_same: "same_paged s s' \<Longrightarrow> paged_heap_find s' r = paged_heap_find s r"
  by (simp add: same_paged_def paged_heap_find_def)

lemma heap_ok_memory:
  "heap_ok (s\<lparr>hs_memory := m\<rparr>) = heap_ok s" "allocated (s\<lparr>hs_memory := m\<rparr>) = allocated s"
proof -
  have b: "block_size (s\<lparr>hs_memory := m\<rparr>) = block_size s" by (simp add: block_size_def fun_eq_iff)
  show "heap_ok (s\<lparr>hs_memory := m\<rparr>) = heap_ok s" by (simp add: heap_ok_def heap_list_def b)
  show "allocated (s\<lparr>hs_memory := m\<rparr>) = allocated s" by (simp add: allocated_def b fun_eq_iff Let_def)
qed

lemma heap_realloc_spec:
  assumes ok: "heap_ok s" and pg: "hs_paging s = 0" "paged_heap_find s r = None"
    and z: "n \<noteq> 0" "n \<le> 0xFFFFFFFC" and r: "allocated s r = Some m"
  obtains q s' where "heap_realloc s r n = Some (q, s')" "heap_ok s'"
    "q = 0 \<longrightarrow> s' = s" "q = r \<longrightarrow> s' = s \<and> n \<le> m"
    "q \<noteq> 0 \<longrightarrow> q \<noteq> r \<longrightarrow> m < align_size n \<and> allocated s q = None \<and>
       (\<exists>k \<ge> align_size n. allocated s' = (allocated s)(r := None, q \<mapsto> k)) \<and>
       (\<forall>x. hs_memory s' x = (if unat q \<le> unat x \<and> unat x < unat q + unat m then hs_memory s (r + (x - q)) else hs_memory s x))"
proof -
  obtain xs where l: "heap_list s xs" using ok by (auto simp: heap_ok_def)
  have c: "chain (next_block s) (hs_first s) xs 0" using l by (simp add: heap_list_def)
  let ?a = "r - 12" and ?n = "align_size n"
  have a: "?a \<in> set xs" "m = hb_size (hs_blocks s ?a)" using r allocated_list [OF l] by (auto simp: block_size_def split: if_splits)
  have r0: "r \<noteq> 0" using allocated_bounds [OF ok r] by auto
  have p: "b + 12 = r \<longleftrightarrow> b = ?a" for b by (auto simp: algebra_simps)
  have fnd: "find (\<lambda>b. b = ?a) xs = Some ?a" using a(1) by (induction xs) auto
  have cf: "chain_find (next_block s) (\<lambda>b. b + 12 = r) (hs_first s) = Some ?a"
    unfolding p chain_find_eq [OF c] fnd by simp
  have a0: "?a \<noteq> 0" using a(1) chain_nonzero [OF c] by auto
  have e: "heap_realloc s r n = (if m \<ge> ?n then Some (r, s) else move_block s r ?n (\<lambda>s. hb_size (hs_blocks s ?a)))"
    using cf pg(2) r0 z(1) a0 a(2) by (simp add: heap_realloc_def Let_def)
  show ?thesis
  proof (cases "m \<ge> ?n")
    case True
    then show ?thesis using e ok r0 align_size_ge [OF z(2)] by (intro that [of r s]) auto
  next
    case False
    have zn: "?n \<noteq> 0" "?n \<le> 0xFFFFFFFC" using align_size_bounds [OF z(2)] z(1) by auto
    obtain q s1 where A: "heap_alloc s ?n = Some (q, s1)" "heap_ok s1" "same_paged s s1" "q = 0 \<longrightarrow> s1 = s"
      "q \<noteq> 0 \<longrightarrow> allocated s q = None \<and> (\<exists>k \<ge> align_size ?n. allocated s1 = (allocated s)(q \<mapsto> k))"
      by (rule heap_alloc_spec [OF ok pg(1) zn]) blast
    show ?thesis
    proof (cases "q = 0")
      case True
      then show ?thesis using e False A ok r0 by (intro that [of 0 s]) (auto simp: move_block_def)
    next
      case q: False
      with A obtain k where k: "allocated s q = None" "align_size ?n \<le> k" "allocated s1 = (allocated s)(q \<mapsto> k)" by auto
      have qr: "q \<noteq> r" using k(1) r by auto
      then have s1r: "allocated s1 r = Some m" "allocated s1 q = Some k" using k r by auto
      have nk: "?n \<le> k" using k(2) align_size_ge [OF zn(2)] by simp
      have sz: "hb_size (hs_blocks s1 ?a) = m" using s1r(1) by (auto simp: allocated_def Let_def block_size_def split: if_splits)
      note B = allocated_bounds [OF A(2) s1r(1)] allocated_bounds [OF A(2) s1r(2)]
      have mk: "unat m < unat k" using False nk by (simp add: word_le_nat_alt)
      have pt: "unat (hs_pointer s1) < 2 ^ 32" using u32_less by simp
      have copy: "copy_bytes s1 r q (unat m) = Some (s1\<lparr>hs_memory := (\<lambda>x. if unat q \<le> unat x \<and> unat x < unat q + unat m
           then hs_memory s1 (r + (x - q)) else hs_memory s1 x)\<rparr>)" (is "_ = Some ?s2")
        by (rule copy_bytes_spec)
          (use A(3) pg(1) B pt mk allocated_disjoint [OF A(2) s1r] qr in \<open>auto simp: same_paged_def\<close>)
      have ok2: "heap_ok ?s2" "allocated ?s2 = allocated s1" using A(2) by (simp_all add: heap_ok_memory)
      have pf: "paged_heap_find ?s2 r = None" using pg(2) A(3) by (simp add: paged_heap_find_def same_paged_def)
      obtain s3 where F: "heap_free ?s2 r = Some s3" "heap_ok s3" "same_paged ?s2 s3"
        "allocated s3 = (allocated ?s2)(r := None)" using heap_free_spec [OF ok2(1) pf] by blast
      have "heap_realloc s r n = Some (q, s3)"
        using e False A(1) q copy F(1) by (simp add: move_block_def sz)
      moreover have "\<exists>k \<ge> ?n. allocated s3 = (allocated s)(r := None, q \<mapsto> k)"
        using F(4) ok2(2) k(3) qr nk by (intro exI [of _ k]) (auto simp: fun_eq_iff)
      moreover have "hs_memory s3 = hs_memory ?s2" "hs_memory s1 = hs_memory s"
        using F(3) A(3) by (simp_all add: same_paged_def)
      ultimately show ?thesis using that [of q s3] F(2) q qr k(1) False by auto
    qed
  qed
qed

end
