(* ===== verification/Paged_Heap.thy ===== *)
theory Paged_Heap
  imports Heap_Blocks
begin

section \<open>The heap after paging is enabled\<close>

text \<open>
  Mapping and unmapping ranges of pages keeps the ownership of frames, ends, and
  is exact on the set of free frames. From this the operations of the paged heap
  keep \<open>paged_ok\<close>: blocks lie between \<open>HEAP_PAGED_BASE\<close> and \<open>HEAP_PAGED_LIMIT\<close>
  in a table of distinct addresses, and frames are owned by one page each.
\<close>

subsection \<open>Mapping and unmapping a range of pages\<close>

definition frames_between :: "vm_state \<Rightarrow> u32 \<Rightarrow> u32 \<Rightarrow> u32 set" where
  "frames_between vm p e = {f. \<exists>q. p \<le> q \<and> q < e \<and> heap_frame vm q = Some f}"

lemma heap_frame_valid: "heap_frame vm q = Some f \<Longrightarrow> unat q mod 4096 = 0 \<and> 0x30000 \<le> q \<and> q < 0x80000"
  by (auto simp: heap_frame_def heap_page_valid_iff split: if_splits)

text \<open>An aligned address is at or after \<open>p\<close> exactly when it is \<open>p\<close> or on a later page.\<close>

lemma aligned_le:
  assumes "unat p mod 4096 = 0" and "unat q mod 4096 = 0" and "p < 0xFFFFF000"
  shows "p \<le> q \<longleftrightarrow> q = p \<or> p + 0x1000 \<le> (q :: u32)"
proof -
  have "unat (p + 0x1000) = unat p + 4096" using assms(3) by (simp add: unat_word_ariths word_less_nat_alt)
  moreover obtain a b where ab: "unat p = a * 4096" "unat q = b * 4096"
    using assms(1,2) by (metis add.right_neutral div_mult_mod_eq)
  moreover have "a * 4096 \<le> b * 4096 \<longleftrightarrow> b * 4096 = a * 4096 \<or> a * 4096 + 4096 \<le> b * 4096"
    using mult_le_cancel2 [of a 4096 b] mult_le_cancel2 [of "Suc a" 4096 b] by auto
  ultimately show ?thesis by (simp add: word_le_nat_alt word_unat_eq_iff)
qed

lemma unmap_pages_spec:
  assumes "vm_owned vm" and "unat p mod 4096 = 0" and "e \<le> 0xFFFFF000"
  shows "\<exists>vm'. unmap_pages vm p e = Some vm' \<and> vm_owned vm' \<and>
     heap_frame vm' = (\<lambda>q. if p \<le> q \<and> q < e then None else heap_frame vm q) \<and>
     frame_free_set (vm_frames vm') = frame_free_set (vm_frames vm) \<union> frames_between vm p e"
  using assms
proof (induction "unat e - unat p" arbitrary: vm p rule: less_induct)
  case less
  show ?case
  proof (cases "p < e")
    case False
    then have z: "\<not> (p \<le> q \<and> q < e)" for q by auto
    then have "frames_between vm p e = {}" by (auto simp: frames_between_def)
    moreover have "heap_frame vm = (\<lambda>q. if p \<le> q \<and> q < e then None else heap_frame vm q)"
      using z by (auto simp: fun_eq_iff)
    ultimately show ?thesis using False less.prems(1) by (simp add: unmap_pages.simps [of vm p])
  next
    case True
    then have lt: "p < 0xFFFFF000" using less.prems(3) by simp
    then have u: "unat (p + 0x1000) = unat p + 4096" by (simp add: unat_word_ariths word_less_nat_alt)
    obtain r vm1 where m: "heap_unmap_page vm p = (r, vm1)" by fastforce
    note U = heap_unmap_page_owned [OF less.prems(1) m]
    have "unat e - unat (p + 0x1000) < unat e - unat p" "unat (p + 0x1000) mod 4096 = 0"
      using True u less.prems(2) by (simp_all add: word_less_nat_alt)
    with less.hyps [of "p + 0x1000" vm1] U less.prems(3)
    obtain vm' where IH: "unmap_pages vm1 (p + 0x1000) e = Some vm'" "vm_owned vm'"
      "heap_frame vm' = (\<lambda>q. if p + 0x1000 \<le> q \<and> q < e then None else heap_frame vm1 q)"
      "frame_free_set (vm_frames vm') = frame_free_set (vm_frames vm1) \<union> frames_between vm1 (p + 0x1000) e"
      by blast
    have al: "heap_frame vm q \<noteq> None \<Longrightarrow> p \<le> q \<longleftrightarrow> q = p \<or> p + 0x1000 \<le> q" for q
      using aligned_le [OF less.prems(2) _ lt, of q] heap_frame_valid [of vm q] by auto
    have ne: "\<not> p + 0x1000 \<le> p" using u by (simp add: word_le_nat_alt)
    have "heap_frame vm' = (\<lambda>q. if p \<le> q \<and> q < e then None else heap_frame vm q)"
    proof
      fix q show "heap_frame vm' q = (if p \<le> q \<and> q < e then None else heap_frame vm q)"
        using al [of q] True U IH(3) ne by (cases "heap_frame vm q") auto
    qed
    moreover have "set_option (heap_frame vm p) \<union> frames_between vm1 (p + 0x1000) e = frames_between vm p e"
    proof -
      have "f \<in> frames_between vm1 (p + 0x1000) e \<longleftrightarrow> (\<exists>q. p + 0x1000 \<le> q \<and> q < e \<and> heap_frame vm q = Some f)" for f
        using U ne unfolding frames_between_def by auto
      moreover have "(\<exists>q. p \<le> q \<and> q < e \<and> heap_frame vm q = Some f) \<longleftrightarrow>
          heap_frame vm p = Some f \<or> (\<exists>q. p + 0x1000 \<le> q \<and> q < e \<and> heap_frame vm q = Some f)" for f
        using al True by (metis option.distinct(1))
      ultimately show ?thesis unfolding frames_between_def by auto
    qed
    ultimately show ?thesis
      using IH(1,2,4) U True m by (intro exI [of _ vm']) (auto simp: unmap_pages.simps [of vm p])
  qed
qed

lemma map_pages_spec:
  "vm_owned vm \<Longrightarrow> unat p mod 4096 = 0 \<Longrightarrow> map_pages vm p e n = (ok, k, vm') \<Longrightarrow>
   \<exists>x. x = p + (k - n) * 0x1000 \<and> vm_owned vm' \<and> p \<le> x \<and> (ok \<longrightarrow> e \<le> x) \<and> (\<not> ok \<longrightarrow> x < e) \<and> (x \<noteq> p \<longrightarrow> x \<le> 0x80000) \<and>
     (\<forall>q. heap_frame vm' q \<noteq> heap_frame vm q \<longrightarrow> p \<le> q \<and> q < x) \<and>
     (\<forall>q. p \<le> q \<longrightarrow> q < x \<longrightarrow> unat q mod 4096 = 0 \<longrightarrow> heap_frame vm' q \<noteq> None \<and> q < e) \<and>
     frame_free_set (vm_frames vm') \<inter> frames_between vm' p x = {} \<and>
     frame_free_set (vm_frames vm) = frame_free_set (vm_frames vm') \<union> frames_between vm' p x"
proof (induction vm p e n rule: map_pages.induct)
  case (1 vm p e n)
  show ?case
  proof (cases "p < e")
    case False
    have "frames_between vm p p = {}" by (auto simp: frames_between_def)
    with 1 False show ?thesis by (auto simp: map_pages.simps [of vm p e])
  next
    case True
    obtain r vm1 where m: "heap_map_page vm p = (r, vm1)" by fastforce
    note M = heap_map_page_owned [OF "1.prems"(1) m]
    show ?thesis
    proof (cases r)
      case False
      have "frames_between vm p p = {}" by (auto simp: frames_between_def)
      with 1 False True M m show ?thesis by (auto simp: map_pages.simps [of vm p e])
    next
      case r: True
      then obtain f where f: "heap_page_valid p" "f \<in> frame_free_set (vm_frames vm)" "heap_frame vm1 = (heap_frame vm)(p \<mapsto> f)"
        "frame_free_set (vm_frames vm1) = frame_free_set (vm_frames vm) - {f}" "vm_owned vm1" using M by auto
      have lt: "p < 0x80000" using f(1) by (simp add: heap_page_valid_iff)
      then have u: "unat (p + 0x1000) = unat p + 4096" by (simp add: unat_word_ariths word_less_nat_alt)
      have al: "unat q mod 4096 = 0 \<Longrightarrow> p \<le> q \<longleftrightarrow> q = p \<or> p + 0x1000 \<le> q" for q
        by (rule aligned_le) (use "1.prems"(2) lt in \<open>simp_all add: word_less_nat_alt\<close>)
      have "map_pages vm1 (p + 0x1000) e (n + 1) = (ok, k, vm')"
        using "1.prems"(3) True m r by (simp add: map_pages.simps [of vm p e])
      with "1.IH" [OF True m [symmetric] refl] r f(5) u "1.prems"(2)
      obtain x where x: "x = p + 0x1000 + (k - (n + 1)) * 0x1000" "vm_owned vm'" "p + 0x1000 \<le> x"
        "ok \<longrightarrow> e \<le> x" "\<not> ok \<longrightarrow> x < e" "x \<noteq> p + 0x1000 \<longrightarrow> x \<le> 0x80000"
        "\<forall>q. heap_frame vm' q \<noteq> heap_frame vm1 q \<longrightarrow> p + 0x1000 \<le> q \<and> q < x"
        "\<forall>q. p + 0x1000 \<le> q \<longrightarrow> q < x \<longrightarrow> unat q mod 4096 = 0 \<longrightarrow> heap_frame vm' q \<noteq> None \<and> q < e"
        "frame_free_set (vm_frames vm') \<inter> frames_between vm' (p + 0x1000) x = {}"
        "frame_free_set (vm_frames vm1) = frame_free_set (vm_frames vm') \<union> frames_between vm' (p + 0x1000) x"
        by auto
      have ne: "\<not> p + 0x1000 \<le> p" "p < x" using u x(3) by (auto simp: word_le_nat_alt word_less_nat_alt)
      have "heap_frame vm' p = heap_frame vm1 p" using x(7) [rule_format, of p] ne by blast
      then have hp: "heap_frame vm' p = Some f" using f(3) by simp
      have fb: "frames_between vm' p x = insert f (frames_between vm' (p + 0x1000) x)"
      proof -
        have "(\<exists>q. p \<le> q \<and> q < x \<and> heap_frame vm' q = Some g) \<longleftrightarrow>
          g = f \<or> (\<exists>q. p + 0x1000 \<le> q \<and> q < x \<and> heap_frame vm' q = Some g)" for g
          using al heap_frame_valid [of vm'] hp ne by (metis option.inject)
        then show ?thesis unfolding frames_between_def by auto
      qed
      have own: "f \<notin> frame_free_set (vm_frames vm')" using x(2) hp by (auto simp: vm_owned_def ran_def)
      have "p + 0x1000 \<le> 0x80000"
        using f(1) aligned_step [of p "0x80000"] by (simp add: heap_page_valid_iff word_less_nat_alt)
      then have "x \<le> 0x80000" using x(6) by auto
      moreover have "x = p + (k - n) * 0x1000" by (simp add: x(1) algebra_simps)
      moreover have "heap_frame vm' q \<noteq> heap_frame vm q \<longrightarrow> p \<le> q \<and> q < x" for q
      proof (cases "q = p")
        case False
        then show ?thesis using x(7) [rule_format, of q] f(3) u by (auto simp: word_le_nat_alt)
      qed (use ne in simp)
      moreover have "p \<le> q \<longrightarrow> q < x \<longrightarrow> unat q mod 4096 = 0 \<longrightarrow> heap_frame vm' q \<noteq> None \<and> q < e" for q
        using x(8) [rule_format, of q] al [of q] hp True by auto
      moreover have "frame_free_set (vm_frames vm) = frame_free_set (vm_frames vm') \<union> frames_between vm' p x"
        using x(10) f(2,4) fb by auto
      moreover have "frame_free_set (vm_frames vm') \<inter> frames_between vm' p x = {}"
        using own fb x(9) by auto
      ultimately show ?thesis using x(2,4,5) ne by (intro exI [of _ x]) auto
    qed
  qed
qed

subsection \<open>The blocks of the paged heap\<close>

definition slot_ok :: "paged_heap_block_t \<Rightarrow> bool" where
  "slot_ok b \<longleftrightarrow> pb_address b \<noteq> 0 \<longrightarrow>
     0x3000C \<le> pb_address b \<and> unat (pb_address b) + unat (pb_size b) \<le> 0x80000"

definition paged_ok :: "heap_state \<Rightarrow> bool" where
  "paged_ok s \<longleftrightarrow> vm_owned (hs_vm s) \<and> length (hs_paged s) = HEAP_PAGED_MAX_BLOCKS \<and>
     list_all (\<lambda>b. slot_ok b \<and> pb_address b \<le> hs_pointer s) (hs_paged s) \<and>
     distinct (filter (\<lambda>a. a \<noteq> 0) (map pb_address (hs_paged s))) \<and> hs_pointer s \<le> HEAP_PAGED_LIMIT"

text \<open>The pages of \<open>[start, e)\<close> are all mapped.\<close>

definition range_mapped :: "vm_state \<Rightarrow> u32 \<Rightarrow> u32 \<Rightarrow> bool" where
  "range_mapped vm start e \<longleftrightarrow>
     (\<forall>q. page_start start \<le> q \<longrightarrow> q < e \<longrightarrow> unat q mod 4096 = 0 \<longrightarrow> heap_frame vm q \<noteq> None)"

lemma page_start_nat: "unat (page_start a) = unat a div 4096 * 4096" "unat (page_start a) mod 4096 = 0" "page_start a \<le> a"
proof -
  have e: "page_start a = push_bit 12 (drop_bit 12 a)"
  proof -
    have c: "HEAP_PAGE_SIZE - 1 = (mask 12 :: u32)" by (simp add: mask_numeral)
    show ?thesis unfolding page_start_def c by (rule bit_word_eqI) (auto simp: bit_simps)
  qed
  show "unat (page_start a) = unat a div 4096 * 4096"
  proof -
    have "unat a div 4096 * 4096 \<le> unat a" by simp
    then show ?thesis using u32_less [of a]
      by (simp add: e push_bit_eq_mult drop_bit_eq_div unat_word_ariths unat_div_distrib)
  qed
  then show "unat (page_start a) mod 4096 = 0" "page_start a \<le> a" by (simp_all add: word_le_nat_alt)
qed

lemma map_block_spec:
  assumes own: "vm_owned (hs_vm s)" and e: "e \<le> 0x80000"
    and cl: "\<And>n. page_start start + n \<le> 0x80000 \<Longrightarrow> page_start start + n \<le> cleanup_end n \<and> cleanup_end n \<le> page_start start + n + 0xFFF"
  shows "\<exists>r s' vm'. map_block s start e cleanup_end commit = Some (r, s') \<and> vm_owned vm' \<and>
    ((r, s') = commit (s\<lparr>hs_vm := vm'\<rparr>) \<and> range_mapped vm' start e \<and>
       frame_free_set (vm_frames (hs_vm s)) = frame_free_set (vm_frames vm') \<union> frames_between vm' (page_start start) e \<or>
     r = 0 \<and> s' = s\<lparr>hs_vm := vm'\<rparr> \<and> frame_free_set (vm_frames (hs_vm s)) \<subseteq> frame_free_set (vm_frames vm') \<and>
       (cleanup_end = (\<lambda>n. page_start start + n) \<longrightarrow> frame_free_set (vm_frames vm') = frame_free_set (vm_frames (hs_vm s))))"
proof -
  let ?p = "page_start start"
  obtain ok k vm1 where m: "map_pages (hs_vm s) ?p e 0 = (ok, k, vm1)" by (metis prod_cases3)
  from map_pages_spec [OF own page_start_nat(2) m]
  obtain x where x: "x = ?p + k * 0x1000" "vm_owned vm1" "?p \<le> x" "ok \<longrightarrow> e \<le> x" "\<not> ok \<longrightarrow> x < e"
    "\<forall>q. ?p \<le> q \<longrightarrow> q < x \<longrightarrow> unat q mod 4096 = 0 \<longrightarrow> heap_frame vm1 q \<noteq> None \<and> q < e"
    "frame_free_set (vm_frames vm1) \<inter> frames_between vm1 ?p x = {}"
    "frame_free_set (vm_frames (hs_vm s)) = frame_free_set (vm_frames vm1) \<union> frames_between vm1 ?p x"
    by auto
  show ?thesis
  proof (cases ok)
    case True
    then have "range_mapped vm1 start e" using x by (auto simp: range_mapped_def)
    moreover have "frames_between vm1 ?p x = frames_between vm1 ?p e"
      using True x(4,6) heap_frame_valid [of vm1] by (fastforce simp: frames_between_def)
    ultimately show ?thesis using True m x(2,8)
      by (intro exI [of _ "fst (commit (s\<lparr>hs_vm := vm1\<rparr>))"] exI [of _ "snd (commit (s\<lparr>hs_vm := vm1\<rparr>))"] exI [of _ vm1])
        (auto simp: map_block_def)
  next
    case False
    let ?c = "cleanup_end (k * 0x1000)"
    have le: "x \<le> 0x80000" using x(5) e False by auto
    then have c: "x \<le> ?c" "?c \<le> x + 0xFFF" using cl [of "k * 0x1000"] x(1) by auto
    have "unat (x + 0xFFF) = unat x + 4095" using le by (simp add: unat_word_ariths word_le_nat_alt)
    then have "?c \<le> 0xFFFFF000" using c(2) le by (simp add: word_le_nat_alt)
    from unmap_pages_spec [OF x(2) page_start_nat(2) this]
    obtain vm2 where u: "unmap_pages vm1 ?p ?c = Some vm2" "vm_owned vm2"
      "frame_free_set (vm_frames vm2) = frame_free_set (vm_frames vm1) \<union> frames_between vm1 ?p ?c" by blast
    have "frames_between vm1 ?p x \<subseteq> frames_between vm1 ?p ?c"
      using c(1) by (fastforce simp: frames_between_def)
    moreover have "cleanup_end = (\<lambda>n. ?p + n) \<Longrightarrow> ?c = x" by (simp add: x(1))
    ultimately show ?thesis using False m u x(8) by (auto simp: map_block_def)
  qed
qed

lemma paged_ok_vm: "paged_ok s \<Longrightarrow> vm_owned vm \<Longrightarrow> paged_ok (s\<lparr>hs_vm := vm\<rparr>)"
  by (simp add: paged_ok_def)

lemma distinct_nonzero_update:
  assumes "distinct (filter (\<lambda>a. a \<noteq> 0) xs)" and "i < length xs" and "b = xs ! i \<or> b \<notin> set xs"
  shows "distinct (filter (\<lambda>a. a \<noteq> (0 :: u32)) (xs[i := b]))"
proof (cases "b = xs ! i")
  case False
  let ?A = "take i xs" and ?B = "drop (Suc i) xs"
  have "xs = ?A @ xs ! i # ?B" using assms(2) by (rule id_take_nth_drop)
  then have "distinct (filter (\<lambda>a. a \<noteq> 0) (?A @ xs ! i # ?B))" using assms(1) by simp
  moreover have "b \<notin> set ?A" "b \<notin> set ?B" using False assms(3) in_set_takeD in_set_dropD by metis+
  ultimately show ?thesis using assms(2) by (auto simp: upd_conv_take_nth_drop split: if_splits)
qed (use assms in simp)

lemma paged_ok_update:
  assumes ok: "paged_ok s" and b: "slot_ok b" "pb_address b \<le> p" and i: "i < length (hs_paged s)"
    and p: "p \<le> HEAP_PAGED_LIMIT" "hs_pointer s \<le> p"
    and a: "pb_address b = pb_address (hs_paged s ! i) \<or> hs_pointer s < pb_address b"
  shows "paged_ok (s\<lparr>hs_paged := (hs_paged s)[i := b], hs_pointer := p\<rparr>)"
proof -
  have le: "slot_ok c \<and> pb_address c \<le> hs_pointer s" if "c \<in> set (hs_paged s)" for c
    using ok that by (auto simp: paged_ok_def list_all_iff)
  have "list_all (\<lambda>b. slot_ok b \<and> pb_address b \<le> p) ((hs_paged s)[i := b])"
    using b p(2) le set_update_subset_insert [of "hs_paged s" i b] by (fastforce simp: list_all_iff)
  moreover have "distinct (filter (\<lambda>a. a \<noteq> 0) ((map pb_address (hs_paged s))[i := pb_address b]))"
    by (rule distinct_nonzero_update) (use ok i a le in \<open>fastforce simp: paged_ok_def\<close>)+
  ultimately show ?thesis using ok p by (simp add: paged_ok_def map_update)
qed

lemma paged_ok_reuse:
  assumes "paged_ok s" and "slot_ok b" and "i < length (hs_paged s)" and "pb_address b = pb_address (hs_paged s ! i)"
  shows "paged_ok (s\<lparr>hs_paged := (hs_paged s)[i := b]\<rparr>)"
proof -
  have "pb_address b \<le> hs_pointer s" "hs_pointer s \<le> HEAP_PAGED_LIMIT"
    using assms nth_mem [OF assms(3)] by (auto simp: paged_ok_def list_all_iff)
  from paged_ok_update [OF assms(1,2) this(1) assms(3) this(2) order_refl] assms(4) show ?thesis
    by (simp add: paged_ok_def)
qed

text \<open>The slot of an address is found.\<close>

lemma paged_find_member:
  assumes "paged_ok s" and "b \<in> set (hs_paged s)" and "pb_address b \<noteq> 0"
  obtains i where "paged_heap_find s (pb_address b) = Some i" "i < length (hs_paged s)" "hs_paged s ! i = b"
proof -
  obtain j where j: "j < length (hs_paged s)" "hs_paged s ! j = b" using assms(2) by (auto simp: in_set_conv_nth)
  then obtain i where i: "paged_heap_find s (pb_address b) = Some i"
    using find_slot_None [of "\<lambda>c. pb_address c = pb_address b" "hs_paged s" 0] assms(2)
    by (cases "paged_heap_find s (pb_address b)") (auto simp: paged_heap_find_def)
  from find_slot_Some [OF i [unfolded paged_heap_find_def]]
  have i2: "i < length (hs_paged s)" "pb_address (hs_paged s ! i) = pb_address b" "\<forall>m<i. pb_address (hs_paged s ! m) \<noteq> pb_address b"
    by auto
  have "i = j"
  proof (rule ccontr)
    assume "i \<noteq> j"
    then have lt: "i < j" using i2(3) j by (metis nat_neq_iff)
    let ?xs = "map pb_address (hs_paged s)"
    have "?xs = take j ?xs @ ?xs ! j # drop (Suc j) ?xs" using j(1) by (intro id_take_nth_drop) simp
    moreover have "pb_address b \<in> set (take j ?xs)"
      using lt i2(1,2) j(1) by (auto simp: in_set_conv_nth intro!: exI [of _ i])
    moreover have "?xs ! j = pb_address b" using j by simp
    moreover have "distinct (filter (\<lambda>a. a \<noteq> 0) ?xs)" using assms(1) by (simp add: paged_ok_def)
    ultimately have "distinct (filter (\<lambda>a. a \<noteq> 0) (take j ?xs @ pb_address b # drop (Suc j) ?xs))" by metis
    then show False using \<open>pb_address b \<in> set (take j ?xs)\<close> assms(3) by simp
  qed
  then show thesis using that i i2(1) j(2) by simp
qed

text \<open>What a successful allocation leaves: the block in the table, with all its pages.\<close>

definition paged_block :: "heap_state \<Rightarrow> u32 \<Rightarrow> u32 \<Rightarrow> bool" where
  "paged_block s r n \<longleftrightarrow> r \<noteq> 0 \<and> \<lparr>pb_address = r, pb_size = n, pb_free = 0\<rparr> \<in> set (hs_paged s) \<and>
     range_mapped (hs_vm s) (r - 12) (r + n)"

lemma align_up_nat: "a \<le> 0xFFFFF000 \<Longrightarrow> unat (align_up_4k a) = (unat a + 4095) div 4096 * 4096"
proof -
  assume a: "a \<le> 0xFFFFF000"
  have "align_up_4k a = page_start (a + 0xFFF)" by (simp add: align_up_4k_def page_start_def)
  moreover have "unat (a + 0xFFF) = unat a + 4095" using a by (simp add: unat_word_ariths word_le_nat_alt)
  ultimately show ?thesis using page_start_nat(1) [of "a + 0xFFF"] by simp
qed

lemma no_wrap: "(a :: u32) \<le> a + b \<longleftrightarrow> unat (a + b) = unat a + unat b"
proof
  assume "a \<le> a + b"
  then show "unat (a + b) = unat a + unat b" by (metis unat_plus_simple)
qed (simp add: word_le_nat_alt)

lemma near_page: "(x :: u32) \<le> 0x80000 \<Longrightarrow> x \<le> x + 0xFFF"
  by (simp add: word_le_nat_alt unat_word_ariths)

lemma near_add: "(x :: u32) \<le> 0x80000 \<Longrightarrow> unat d \<le> 4095 \<Longrightarrow> unat (x + d) = unat x + unat d"
  by (simp add: word_le_nat_alt unat_word_ariths)

lemma page_start_aligned: "unat p mod 4096 = 0 \<Longrightarrow> page_start p = p"
proof -
  assume "unat p mod 4096 = 0"
  then have "unat (page_start p) = unat p" using div_mult_mod_eq [of "unat p" 4096] by (simp add: page_start_nat(1))
  then show ?thesis by (simp add: unat_eq_iff)
qed

lemma heap_alloc_paged_spec:
  assumes ok: "paged_ok s" and n: "n \<noteq> 0" "n \<le> 0xFFFFFFF0"
  shows "\<exists>r s'. heap_alloc_paged s n = Some (r, s') \<and> paged_ok s' \<and>
    (if r = 0 then hs_paged s' = hs_paged s \<and> hs_pointer s' = hs_pointer s \<and>
       frame_free_set (vm_frames (hs_vm s')) = frame_free_set (vm_frames (hs_vm s))
     else paged_block s' r (align_size n) \<and>
       frame_free_set (vm_frames (hs_vm s)) =
         frame_free_set (vm_frames (hs_vm s')) \<union> frames_between (hs_vm s') (page_start (r - 12)) (r + align_size n))"
proof -
  have own: "vm_owned (hs_vm s)" and sl: "b \<in> set (hs_paged s) \<Longrightarrow> slot_ok b" for b
    using ok by (auto simp: paged_ok_def list_all_iff)
  let ?n = "align_size n"
  show ?thesis
  proof (cases "find_slot (reusable_slot ?n) (hs_paged s) 0")
    case (Some i)
    let ?b = "hs_paged s ! i" let ?a = "pb_address ?b" let ?b' = "?b\<lparr>pb_size := ?n, pb_free := 0\<rparr>"
    from find_slot_Some [OF Some] have i: "i < length (hs_paged s)" "reusable_slot ?n ?b" by auto
    then have a: "?a \<noteq> 0" "?a \<le> ?a + ?n" "?a + ?n \<le> 0x80000" by (auto simp: reusable_slot_def Let_def not_less)
    then have a2: "0x3000C \<le> ?a" using sl [of ?b] i(1) by (auto simp: slot_ok_def)
    have b': "slot_ok ?b'" using a(3) a2 a(2) [unfolded no_wrap] by (simp add: slot_ok_def word_le_nat_alt)
    let ?c = "\<lambda>s. (?a, s\<lparr>hs_paged := (hs_paged s)[i := ?b']\<rparr>)"
    have e: "heap_alloc_paged s n = map_block s (?a - 12) (?a + ?n) (\<lambda>k. page_start (?a - 12) + k) ?c"
      using Some n(1) by (simp add: heap_alloc_paged_def Let_def)
    from map_block_spec [OF own a(3), of "?a - 12" "\<lambda>k. page_start (?a - 12) + k" ?c] near_page
    obtain r s' vm' where m: "heap_alloc_paged s n = Some (r, s')" "vm_owned vm'"
      "(r, s') = ?c (s\<lparr>hs_vm := vm'\<rparr>) \<and> range_mapped vm' (?a - 12) (?a + ?n) \<and>
         frame_free_set (vm_frames (hs_vm s)) = frame_free_set (vm_frames vm') \<union> frames_between vm' (page_start (?a - 12)) (?a + ?n) \<or>
       r = 0 \<and> s' = s\<lparr>hs_vm := vm'\<rparr> \<and> frame_free_set (vm_frames vm') = frame_free_set (vm_frames (hs_vm s))"
      unfolding e by auto
    have eq: "\<lparr>pb_address = ?a, pb_size = ?n, pb_free = 0\<rparr> = ?b'" by simp
    have "\<lparr>pb_address = ?a, pb_size = ?n, pb_free = 0\<rparr> \<in> set ((hs_paged s)[i := ?b'])"
      unfolding eq by (rule set_update_memI [OF i(1)])
    then have "paged_block (snd (?c (s\<lparr>hs_vm := vm'\<rparr>))) ?a ?n" if "range_mapped vm' (?a - 12) (?a + ?n)"
      using a(1) that by (simp add: paged_block_def)
    moreover have "paged_ok (snd (?c (s\<lparr>hs_vm := vm'\<rparr>)))"
      using paged_ok_reuse [OF paged_ok_vm [OF ok m(2)] b', of i] i(1) by simp
    ultimately show ?thesis
      using m(1) m(3) a(1) paged_ok_vm [OF ok m(2)] by (elim disjE conjE) simp_all
  next
    case None
    show ?thesis
    proof (cases "find_slot available_slot (hs_paged s) 0")
      case n2: None
      then show ?thesis using None n(1) ok by (simp add: heap_alloc_paged_def Let_def)
    next
      case (Some i)
      from find_slot_Some [OF Some] have i: "i < length (hs_paged s)" by auto
      define start where "start = (let st = align_up_4k (hs_pointer s) in if st < HEAP_PAGED_BASE then HEAP_PAGED_BASE else st)"
      let ?e = "start + (12 + ?n)" let ?r = "start + 12" let ?b = "\<lparr>pb_address = ?r, pb_size = ?n, pb_free = 0\<rparr>"
      let ?c = "\<lambda>s. (?r, s\<lparr>hs_paged := (hs_paged s)[i := ?b], hs_pointer := ?e\<rparr>)"
      have p: "hs_pointer s \<le> 0x80000" using ok by (simp add: paged_ok_def)
      then have "unat (align_up_4k (hs_pointer s)) mod 4096 = 0"
        using align_up_nat [of "hs_pointer s"] by (simp add: word_le_nat_alt)
      then have st: "unat start mod 4096 = 0" "0x30000 \<le> start" by (auto simp: start_def Let_def not_less)
      have e: "heap_alloc_paged s n = (if ?e < start \<or> ?e > 0x80000 then Some (0, s)
          else map_block s start ?e (\<lambda>k. start + k) ?c)"
        using None Some n(1) by (simp add: heap_alloc_paged_def Let_def start_def)
      show ?thesis
      proof (cases "?e < start \<or> ?e > 0x80000")
        case True
        then show ?thesis using e ok by simp
      next
        case False
        then have le: "start \<le> ?e" "?e \<le> 0x80000" by auto
        have "unat (12 + ?n) = 12 + unat ?n"
          using n(2) align_size_nat [of n] by (simp add: unat_word_ariths word_le_nat_alt)
        then have ue: "unat ?e = unat start + 12 + unat ?n" using le(1) no_wrap [of start "12 + ?n"] by simp
        then have ur: "unat ?r = unat start + 12" using le(2) by (simp add: unat_word_ariths word_le_nat_alt)
        have b: "slot_ok ?b" using ur ue le(2) st(2) by (simp add: slot_ok_def word_le_nat_alt)
        note ps = page_start_aligned [OF st(1)]
        from map_block_spec [OF own le(2), of start "\<lambda>k. start + k" ?c] near_page
        obtain r s' vm' where m: "heap_alloc_paged s n = Some (r, s')" "vm_owned vm'"
          "(r, s') = ?c (s\<lparr>hs_vm := vm'\<rparr>) \<and> range_mapped vm' start ?e \<and>
             frame_free_set (vm_frames (hs_vm s)) = frame_free_set (vm_frames vm') \<union> frames_between vm' start ?e \<or>
           r = 0 \<and> s' = s\<lparr>hs_vm := vm'\<rparr> \<and> frame_free_set (vm_frames vm') = frame_free_set (vm_frames (hs_vm s))"
          using e False by (auto simp: ps)
        have r0: "?r \<noteq> 0" using ur by auto
        have "unat (hs_pointer s) \<le> unat start"
          using align_up_nat [of "hs_pointer s"] p
          by (auto simp: start_def Let_def word_le_nat_alt word_less_nat_alt)
        then have gt: "hs_pointer s < ?r" "?r \<le> ?e" "hs_pointer s \<le> ?e"
          using ur ue by (simp_all add: word_less_nat_alt word_le_nat_alt)
        have "?b \<in> set ((hs_paged s)[i := ?b])" using i by (simp add: set_update_memI)
        then have "paged_block (snd (?c (s\<lparr>hs_vm := vm'\<rparr>))) ?r ?n" if "range_mapped vm' start ?e"
          using r0 that by (simp add: paged_block_def add.assoc)
        moreover have "paged_ok (snd (?c (s\<lparr>hs_vm := vm'\<rparr>)))"
          using paged_ok_update [OF paged_ok_vm [OF ok m(2)] b, of ?e i] le(2) i gt by simp
        ultimately show ?thesis
          using m(1) m(3) r0 paged_ok_vm [OF ok m(2)] by (elim disjE conjE) (simp_all add: ps add.assoc)
      qed
    qed
  qed
qed

lemma heap_alloc_paged_aligned_spec:
  assumes ok: "paged_ok s" and n: "n \<noteq> 0" "n \<le> 0xFFFFFFF0"
  shows "\<exists>r s'. heap_alloc_paged_aligned s n = Some (r, s') \<and> paged_ok s' \<and>
    (if r = 0 then hs_paged s' = hs_paged s \<and> hs_pointer s' = hs_pointer s \<and>
       frame_free_set (vm_frames (hs_vm s)) \<subseteq> frame_free_set (vm_frames (hs_vm s'))
     else paged_block s' r (align_size n) \<and> unat r mod 4096 = 0 \<and>
       frame_free_set (vm_frames (hs_vm s)) =
         frame_free_set (vm_frames (hs_vm s')) \<union> frames_between (hs_vm s') (page_start (r - 12)) (r + align_size n))"
proof -
  have own: "vm_owned (hs_vm s)" using ok by (auto simp: paged_ok_def)
  let ?n = "align_size n"
  show ?thesis
  proof (cases "find_slot available_slot (hs_paged s) 0")
    case None
    then show ?thesis using n(1) ok by (simp add: heap_alloc_paged_aligned_def Let_def)
  next
    case (Some i)
    from find_slot_Some [OF Some] have i: "i < length (hs_paged s)" by auto
    define r where "r = align_up_4k (hs_pointer s + 12)"
    let ?st = "r - 12" let ?e = "r + ?n" let ?b = "\<lparr>pb_address = r, pb_size = ?n, pb_free = 0\<rparr>"
    let ?h = "\<lparr>hb_size = ?n, hb_free = 0, hb_next = 0\<rparr>"
    let ?c = "\<lambda>s. (r, (set_block s ?st ?h)\<lparr>hs_paged := (hs_paged s)[i := ?b], hs_pointer := ?e\<rparr>)"
    have e: "heap_alloc_paged_aligned s n = (if ?st < 0x30000 then Some (0, s)
        else if ?e < r \<or> ?e > 0x80000 then Some (0, s) else map_block s ?st ?e (\<lambda>k. ?st + k) ?c)"
      using Some n(1) by (simp add: heap_alloc_paged_aligned_def Let_def r_def)
    have p: "hs_pointer s \<le> 0x80000" using ok by (simp add: paged_ok_def)
    then have "unat (hs_pointer s + 12) = unat (hs_pointer s) + 12" by (simp add: unat_word_ariths word_le_nat_alt)
    then have ur: "unat r = (unat (hs_pointer s) + 4107) div 4096 * 4096"
      using p align_up_nat [of "hs_pointer s + 12"] by (simp add: r_def word_le_nat_alt)
    then have r0: "4096 \<le> unat r" "unat r mod 4096 = 0" by simp_all
    then have us: "unat ?st = unat r - 12" by (simp add: unat_minus_le word_le_nat_alt)
    show ?thesis
    proof (cases "?st < 0x30000 \<or> ?e < r \<or> ?e > 0x80000")
      case True
      then show ?thesis using e ok by auto
    next
      case False
      then have le: "0x30000 \<le> ?st" "r \<le> ?e" "?e \<le> 0x80000" by auto
      have "196620 \<le> unat r" using le(1) us r0(1) by (simp add: word_le_nat_alt)
      then have b: "slot_ok ?b" using le(3) le(2) [unfolded no_wrap] by (simp add: slot_ok_def word_le_nat_alt)
      have cl: "page_start ?st + k \<le> ?st + k \<and> ?st + k \<le> page_start ?st + k + 0xFFF"
        if "page_start ?st + k \<le> 0x80000" for k
      proof -
        let ?d = "?st - page_start ?st"
        have d: "unat ?d = unat ?st mod 4096"
          using page_start_nat [of ?st] by (simp add: unat_minus_le minus_div_mult_eq_mod)
        have s: "?st + k = page_start ?st + k + ?d" by (simp add: algebra_simps)
        have d': "unat ?d \<le> 4095" unfolding d by (simp add: less_Suc_eq_le [symmetric])
        have "unat (page_start ?st + k + 0xFFF) = unat (page_start ?st + k) + unat (0xFFF :: u32)"
          by (rule near_add [OF that]) simp
        with near_add [OF that d'] d' show ?thesis unfolding s word_le_nat_alt by simp
      qed
      from map_block_spec [OF own le(3) cl, of ?c]
      obtain q s' vm' where m: "heap_alloc_paged_aligned s n = Some (q, s')" "vm_owned vm'"
        "(q, s') = ?c (s\<lparr>hs_vm := vm'\<rparr>) \<and> range_mapped vm' ?st ?e \<and>
           frame_free_set (vm_frames (hs_vm s)) = frame_free_set (vm_frames vm') \<union> frames_between vm' (page_start ?st) ?e \<or>
         q = 0 \<and> s' = s\<lparr>hs_vm := vm'\<rparr> \<and> frame_free_set (vm_frames (hs_vm s)) \<subseteq> frame_free_set (vm_frames vm')"
        using e False by auto
      have gt: "hs_pointer s < r" "hs_pointer s \<le> ?e"
        using ur le(2) by (simp_all add: word_less_nat_alt word_le_nat_alt)
      have "r \<noteq> 0" using r0 by auto
      moreover have "?b \<in> set ((hs_paged s)[i := ?b])" using i by (simp add: set_update_memI)
      ultimately have "paged_block (snd (?c (s\<lparr>hs_vm := vm'\<rparr>))) r ?n" if "range_mapped vm' ?st ?e"
        using that by (simp add: paged_block_def)
      moreover have "paged_ok (snd (?c (s\<lparr>hs_vm := vm'\<rparr>)))"
        using paged_ok_update [OF paged_ok_vm [OF ok m(2)] b, of ?e i] le(2,3) i gt by (simp add: paged_ok_def)
      ultimately show ?thesis
        using m(1) m(3) \<open>r \<noteq> 0\<close> r0(2) paged_ok_vm [OF ok m(2)] by (elim disjE conjE) simp_all
    qed
  qed
qed

lemma heap_free_paged_spec:
  assumes ok: "paged_ok s" and b: "b \<in> set (hs_paged s)" "pb_address b = r" "r \<noteq> 0" "pb_free b \<noteq> 1"
  shows "\<exists>s'. heap_free s r = Some s' \<and> paged_ok s' \<and> b\<lparr>pb_free := 1\<rparr> \<in> set (hs_paged s') \<and>
    frame_free_set (vm_frames (hs_vm s')) =
      frame_free_set (vm_frames (hs_vm s)) \<union> frames_between (hs_vm s) (page_start (r - 12)) (r + pb_size b) \<and>
    heap_frame (hs_vm s') = (\<lambda>q. if page_start (r - 12) \<le> q \<and> q < r + pb_size b then None else heap_frame (hs_vm s) q)"
proof -
  obtain i where i: "paged_heap_find s r = Some i" "i < length (hs_paged s)" "hs_paged s ! i = b"
    using paged_find_member [OF ok b(1)] b(2,3) by auto
  have own: "vm_owned (hs_vm s)" and sl: "slot_ok b" using ok b(1) by (auto simp: paged_ok_def list_all_iff)
  let ?e = "r + pb_size b"
  have e: "r - 12 + 12 + pb_size b = ?e" by simp
  have "unat r + unat (pb_size b) \<le> 0x80000" using sl b(2,3) by (simp add: slot_ok_def)
  then have "unat ?e \<le> 0x80000" by (simp add: unat_word_ariths)
  then have "?e \<le> 0xFFFFF000" by (simp add: word_le_nat_alt)
  from unmap_pages_spec [OF own page_start_nat(2) this, of "r - 12"]
  obtain vm' where u: "unmap_pages (hs_vm s) (page_start (r - 12)) ?e = Some vm'" "vm_owned vm'"
    "heap_frame vm' = (\<lambda>q. if page_start (r - 12) \<le> q \<and> q < ?e then None else heap_frame (hs_vm s) q)"
    "frame_free_set (vm_frames vm') =
      frame_free_set (vm_frames (hs_vm s)) \<union> frames_between (hs_vm s) (page_start (r - 12)) ?e" by blast
  have "paged_ok (s\<lparr>hs_vm := vm', hs_paged := (hs_paged s)[i := b\<lparr>pb_free := 1\<rparr>]\<rparr>)"
    using paged_ok_reuse [OF paged_ok_vm [OF ok u(2)], of "b\<lparr>pb_free := 1\<rparr>" i] sl i by (simp add: slot_ok_def)
  moreover have "heap_free s r = Some (s\<lparr>hs_vm := vm', hs_paged := (hs_paged s)[i := b\<lparr>pb_free := 1\<rparr>]\<rparr>)"
    using b(3,4) i(1,3) u(1) by (simp add: heap_free_def Let_def e)
  ultimately show ?thesis using u i(2) by (auto intro: set_update_memI)
qed

text \<open>Releasing a fresh block gives back exactly the frames it took.\<close>

lemma paged_block_free:
  assumes ok: "paged_ok s'" and b: "paged_block s' r n"
    and f: "frame_free_set (vm_frames (hs_vm s)) =
      frame_free_set (vm_frames (hs_vm s')) \<union> frames_between (hs_vm s') (page_start (r - 12)) (r + n)"
  shows "\<exists>s''. heap_free s' r = Some s'' \<and> paged_ok s'' \<and>
    frame_free_set (vm_frames (hs_vm s'')) = frame_free_set (vm_frames (hs_vm s)) \<and> heap_free s'' r = Some s''"
proof -
  let ?b = "\<lparr>pb_address = r, pb_size = n, pb_free = 0\<rparr>"
  have "?b \<in> set (hs_paged s')" "r \<noteq> 0" using b by (auto simp: paged_block_def)
  then obtain s'' where s'': "heap_free s' r = Some s''" "paged_ok s''" "?b\<lparr>pb_free := 1\<rparr> \<in> set (hs_paged s'')"
    "frame_free_set (vm_frames (hs_vm s'')) = frame_free_set (vm_frames (hs_vm s))"
    using heap_free_paged_spec [OF ok, of ?b r] f by auto
  obtain i where "paged_heap_find s'' r = Some i" "hs_paged s'' ! i = ?b\<lparr>pb_free := 1\<rparr>"
    using paged_find_member [OF s''(2,3)] \<open>r \<noteq> 0\<close> by auto
  then have "heap_free s'' r = Some s''" using \<open>r \<noteq> 0\<close> by (simp add: heap_free_def)
  then show ?thesis using s'' by blast
qed

end
