(* ===== verification/Memory_Properties.thy ===== *)
theory Memory_Properties
  imports Paging
begin

section \<open>Properties of physical and virtual memory\<close>

text \<open>
  What the frame allocator and the page tables promise to the rest of the
  kernel, stated over the definitions of \<open>Frame_Allocator\<close> and \<open>Paging\<close>, with
  the machine the witnesses run on: three usable frames from 2 MiB on, and the
  address space \<open>paging_init\<close> sets up.
\<close>

definition ex_e820 :: e820_entry where
  "ex_e820 = \<lparr>ee_base = 0x00200000, ee_base_high = 0, ee_length = 0x100000, ee_length_high = 0, ee_type = 1\<rparr>"

definition ex_frames :: frame_state where
  "ex_frames = \<lparr>fr_bitmap = replicate 4096 0, fr_e820 = [ex_e820], fr_kernel_end = 0x25000\<rparr>"

definition ex_space :: process_address_space_t where
  "ex_space = paging_init \<lparr>as_page_directory = None, as_page_tables = None, as_page_table_count = 0\<rparr> 0x21000"

definition ex_vm :: vm_state where
  "ex_vm = \<lparr>vm_frames = ex_frames, vm_kernel_space = ex_space\<rparr>"

lemma ex_frames_ok: "frames_ok ex_frames"
  by (simp add: frames_ok_def ex_frames_def)

lemma ex_space_ok: "space_ok ex_space" "as_page_table_count ex_space = 4"
  using paging_init_space by (simp_all add: ex_space_def)

lemma ex_vm_ok: "vm_ok ex_vm"
  by (simp add: vm_ok_def ex_vm_def ex_frames_ok ex_space_ok)

text \<open>A freshly initialised address space holds no frame of the allocator.\<close>

lemma paging_init_owned:
  assumes "frames_ok (vm_frames s)" and "vm_kernel_space s = paging_init k a"
  shows "vm_owned s" and "heap_frame s = Map.empty"
proof -
  have "heap_frame s va = None" for va
  proof (cases "heap_page_valid va")
    case True
    then have v: "va < 0x80000" by (simp add: heap_page_valid_iff)
    moreover have "va AND 0xFFFFF000 \<le> va" by (rule word_and_le2)
    ultimately have "va AND 0xFFFFF000 < 0x00200000" by (simp add: word_less_nat_alt word_le_nat_alt)
    moreover have "page_of va \<noteq> 8" "va < 0x1000000" "page_of va \<notin> user_pages"
      using True by (auto simp: heap_page_valid_iff page_of_def user_pages_def word_less_nat_alt word_le_nat_alt)
    moreover have "((va AND 0xFFFFF000) OR 3) AND 0xFFFFF000 = va AND 0xFFFFF000"
      using entry_parts(1) [of va 3] by simp
    ultimately show ?thesis
      using paging_init_entry [of k a va] assms(2)
      by (auto simp: heap_frame_def frame_units_def frame_in_range_def not_less)
  qed (simp add: heap_frame_def)
  then show h: "heap_frame s = Map.empty" by (simp add: fun_eq_iff)
  show "vm_owned s" using assms paging_init_space by (simp add: vm_owned_def vm_ok_def h)
qed

lemma ex_vm_owned: "vm_owned ex_vm"
  by (rule paging_init_owned) (simp_all add: ex_vm_def ex_frames_ok ex_space_def)

lemma frame_unit_bounds:
  assumes "f \<in> frame_units s"
  shows "0x00200000 \<le> f \<and> f < 0x08000000 \<and> f AND 0xFFF = 0 \<and> f \<noteq> USER_STACK_BASE \<and>
    align_up_4k (fr_kernel_end s) \<le> f \<and> frame_in_usable_e820 s f"
proof -
  have f: "0x00200000 \<le> f" "f < 0x08000000" "unat f mod 4096 = 0" and u: "frame_in_usable_e820 s f"
    and r: "\<not> frame_is_reserved s f"
    using assms by (auto simp: frame_units_def frame_in_range_def)
  have "f + 0x1000 > 0x8800" using f(1,2) by (simp add: word_less_nat_alt word_le_nat_alt frame_step [OF f(2)])
  then have "\<not> f < align_up_4k (fr_kernel_end s)" "f \<noteq> USER_STACK_BASE"
    using r by (auto simp: frame_is_reserved_def Let_def)
  then show ?thesis using f u by (simp add: and_FFF not_less)
qed

lemma ex_free: "0x00200000 \<in> frame_free_set ex_frames"
  by (simp add: frame_free_set_def frame_units_def frame_in_range_def frame_in_usable_e820_def e820_covers_def
      frame_is_reserved_def align_up_4k_def frame_is_tracked_def frame_bitmap_index_def frame_bitmap_mask_def
      ex_frames_def ex_e820_def Let_def)

lemma ex_alloc: "fst (frame_alloc ex_frames) = 0x00200000"
proof -
  have "Min (frame_free_set ex_frames) = 0x00200000"
    using ex_free by (intro Min_eqI) (auto simp: frame_free_set_def frame_units_def frame_in_range_def)
  then show ?thesis using ex_free by (auto simp: frame_alloc_eq)
qed

text \<open>
  \<open>frame_alloc\<close> returns the least frame that is page aligned, usable
  according to the memory map, above the kernel image, inside the tracked range,
  not the user stack page and not in use, and takes exactly it; it returns 0
  without any change when there is none. \<open>frame_free\<close> succeeds exactly for frames
  in use, undoes an allocation, and refuses a second release of the same frame.
\<close>

theorem frame_alloc_free_exact:
  assumes "frames_ok s" and "frame_alloc s = (f, s1)" and "frame_free s1 f = (r, s2)"
  shows "frames_ok s1 \<and> (f = 0 \<longleftrightarrow> frame_free_set s = {}) \<and>
    (if f = 0 then s1 = s
     else f = Min (frame_free_set s) \<and> frame_free_set s1 = frame_free_set s - {f} \<and>
       0x00200000 \<le> f \<and> f < 0x08000000 \<and> f AND 0xFFF = 0 \<and> f \<noteq> USER_STACK_BASE \<and>
       align_up_4k (fr_kernel_end s) \<le> f \<and> frame_in_usable_e820 s f \<and> \<not> frame_is_tracked s f \<and>
       r \<and> frame_free_set s2 = frame_free_set s \<and> frame_free s2 f = (False, s2)) \<and>
    (fst (frame_free s g) \<longleftrightarrow> g \<in> frame_units s \<and> frame_is_tracked s g)"
proof -
  note T = frames.take_cases [OF assms(1,2)] and I = frames.invar_take [OF assms(1,2)]
  have g: "fst (frame_free s g) \<longleftrightarrow> g \<in> frame_units s \<and> frame_is_tracked s g"
    by (auto simp: frame_free_eq frame_free_set_def)
  show ?thesis
  proof (cases "f = 0")
    case True
    then show ?thesis using T I g by auto
  next
    case False
    then have f: "f \<in> frame_free_set s" "f = Min (frame_free_set s)" "frame_free_set s1 = frame_free_set s - {f}"
      using T by auto
    have "f \<in> frame_units s" "\<not> frame_is_tracked s f" using f(1) by (auto simp: frame_free_set_def)
    moreover have "frame_free s2 f = (False, s2)" by (rule frames.double_give_fails [OF I assms(3)])
    moreover have "frame_free_set s \<noteq> {}" using f(1) by blast
    ultimately show ?thesis
      using f frame_unit_bounds [of f s] frames.give_take [OF assms(1,2) False assms(3)] I g False
      by simp
  qed
qed

theorem frame_alloc_free_exact_witness:
  "fst (frame_alloc ex_frames) = 0x00200000 \<and>
   fst (frame_free (snd (frame_alloc ex_frames)) 0x00200000)"
proof -
  obtain s1 where a: "frame_alloc ex_frames = (0x00200000, s1)" using ex_alloc by (metis prod.collapse)
  obtain r s2 where f: "frame_free s1 0x00200000 = (r, s2)" by fastforce
  show ?thesis using frame_alloc_free_exact [OF ex_frames_ok a f, of 0] by (simp add: a f)
qed

text \<open>
  C32: after \<open>paging_init\<close> exactly the first 16 MiB are mapped, every page to
  itself, and code in ring 3 can reach exactly three pages: the screen, the user
  code page and the user stack page.
\<close>

theorem paging_init_protects:
  "(case pages_of (paging_init k a) va of
      None \<Rightarrow> va \<ge> 0x01000000
    | Some e \<Rightarrow> va < 0x01000000 \<and> e AND PAGE_PRESENT \<noteq> 0 \<and> e AND 0xFFFFF000 = va AND 0xFFFFF000 \<and>
        (e AND PAGE_USER \<noteq> 0 \<longleftrightarrow>
           va AND 0xFFFFF000 \<in> {VGA_MEMORY_PAGE, USER_CODE_BASE, USER_STACK_BASE}))"
proof -
  have b: "va AND 0xFFFFF000 = 0x1000 * of_nat (page_of va)" by (simp flip: page_base)
  have "unat va < 4294967296" using unsigned_less [of va] by simp
  then have n: "page_of va < 1048576" by (simp add: page_of_def less_mult_imp_div_less)
  have eq: "va AND 0xFFFFF000 = 0x1000 * of_nat m \<longleftrightarrow> page_of va = m" if "m < 1048576" for m
    unfolding b using n that by (simp add: word_unat_eq_iff unat_word_ariths unat_of_nat)
  have u: "va AND 0xFFFFF000 \<in> {VGA_MEMORY_PAGE, USER_CODE_BASE, USER_STACK_BASE} \<longleftrightarrow> page_of va \<in> user_pages"
    using eq [of "0xB8"] eq [of "0x100"] eq [of "0x7FF"] by (auto simp: user_pages_def)
  have e8: "page_of va = 8 \<Longrightarrow> va AND 0xFFFFF000 = 0x8000" using eq [of 8] by simp
  have p: "((va AND 0xFFFFF000) OR x) AND 0xFFFFF000 = va AND 0xFFFFF000"
      "((va AND 0xFFFFF000) OR x) AND 4 = x AND 4" "((va AND 0xFFFFF000) OR x) AND 1 = x AND 1"
    if "x AND 0xFFF = x" for x
    using entry_parts [of va x] that by (simp_all add: bit.conj_disj_distrib2 and.assoc)
  show ?thesis
    using p [of 3] p [of 7] e8 u
    by (auto simp: paging_init_entry not_less user_pages_def)
qed

text \<open>
  in a well-formed address space mapping a present page makes the lookup of
  that page return the physical page and unmapping it makes it return 0, while
  the lookups of all other pages stay as they were; an address outside the page
  tables is refused without any change.
\<close>

theorem page_map_unmap_exact:
  assumes ok: "space_ok as" and fl: "flags AND PAGE_PRESENT \<noteq> 0" and va: "va AND 0xFFF = 0"
    and m: "page_map_in_address_space (Some as) va pa flags = (r, Some as1)"
    and u: "page_unmap_in_address_space (Some as1) va = (q, Some as2)"
  shows "(r \<longleftrightarrow> directory_index va < as_page_table_count as) \<and> (q \<longleftrightarrow> r) \<and> (\<not> r \<longrightarrow> as1 = as \<and> as2 = as) \<and>
    space_ok as1 \<and> space_ok as2 \<and>
    (r \<longrightarrow> page_get_physical_in_address_space (Some as1) va = pa AND 0xFFFFF000 \<and>
            page_get_physical_in_address_space (Some as2) va = 0) \<and>
    (vb AND 0xFFFFF000 \<noteq> va \<longrightarrow>
       page_get_physical_in_address_space (Some as1) vb = page_get_physical_in_address_space (Some as) vb \<and>
       page_get_physical_in_address_space (Some as2) vb = page_get_physical_in_address_space (Some as) vb)"
proof (cases "directory_index va < as_page_table_count as")
  case False
  then show ?thesis using m u ok by (auto simp: map_in_space_eq)
next
  case True
  let ?e = "(pa AND 0xFFFFF000) OR (flags AND 0xFFF)"
  have 1: "r" "as1 = with_entry as va ?e" using m True by (auto simp: map_in_space_eq [OF ok])
  note W = with_entry_pages [OF ok True, of ?e, folded 1(2)]
  have c: "as_page_table_count as1 = as_page_table_count as" by (simp add: 1(2) with_entry_def)
  then have 2: "q" "as2 = with_entry as1 va 0" using u True by (auto simp: map_in_space_eq [OF W(1)])
  note V = with_entry_pages [OF W(1), of va 0, folded 2(2), unfolded c, OF True]
  have al: "unat va mod 4096 = 0" using va by (simp add: and_FFF)
  have z: "page_get_physical_in_address_space (Some x) vb = 0" if "space_ok x" "vb AND 0xFFF \<noteq> 0" for x
    using that by (auto simp: page_get_physical_in_address_space_def space_ok_def)
  have o: "page_of va \<noteq> page_of vb" if "vb AND 0xFFFFF000 \<noteq> va"
    using that page_base [of va] page_base [of vb] frame_aligned [OF al] by metis
  show ?thesis
    using True 1 2 W V ok fl o z [OF ok] z [OF W(1)] z [OF V(1)] entry_parts [of pa flags]
      get_physical_eq [OF ok] get_physical_eq [OF W(1)] get_physical_eq [OF V(1)] al
    by (cases "vb AND 0xFFF = 0") (simp_all add: and_FFF)
qed

theorem page_map_unmap_exact_witness:
  "\<exists>as1 as2. page_map_in_address_space (Some ex_space) 0x30000 0x00201000 3 = (True, Some as1) \<and>
     page_unmap_in_address_space (Some as1) 0x30000 = (True, Some as2) \<and>
     page_get_physical_in_address_space (Some as1) 0x30000 = 0x00201000 \<and>
     page_get_physical_in_address_space (Some as2) 0x30000 = 0"
proof -
  have d: "directory_index 0x30000 < as_page_table_count ex_space" by (simp add: ex_space_ok directory_index_def)
  then obtain as1 where m: "page_map_in_address_space (Some ex_space) 0x30000 0x00201000 3 = (True, Some as1)"
    "as1 = with_entry ex_space 0x30000 0x00201003" by (simp add: map_in_space_eq [OF ex_space_ok(1)])
  have "space_ok as1" using with_entry_pages(1) [OF ex_space_ok(1) d] m(2) by simp
  then obtain as2 where u: "page_unmap_in_address_space (Some as1) 0x30000 = (True, Some as2)"
    using d m(2) by (simp add: map_in_space_eq with_entry_def)
  show ?thesis using page_map_unmap_exact [OF ex_space_ok(1) _ _ m(1) u] m(1) u by simp
qed

text \<open>
  C7: the pages of the kernel heap own their frames: no two of them share a frame
  of the allocator and none of those frames is free, and mapping and unmapping
  keep this. Mapping a page takes exactly one free frame for it and fails only
  when the address is no heap page or no frame is free, without any change;
  unmapping it again gives exactly that frame back.
\<close>

theorem heap_pages_own_frames:
  assumes "vm_owned s" and "heap_map_page s va = (r, s1)" and "heap_unmap_page s1 va = (q, s2)"
  shows "vm_owned s1 \<and> vm_owned s2 \<and>
    (r \<longleftrightarrow> heap_page_valid va \<and> frame_free_set (vm_frames s) \<noteq> {}) \<and>
    (if r then \<exists>f \<in> frame_free_set (vm_frames s).
        heap_frame s1 = (heap_frame s)(va \<mapsto> f) \<and> f \<notin> ran (heap_frame s) \<and>
        frame_free_set (vm_frames s1) = frame_free_set (vm_frames s) - {f} \<and>
        q \<and> heap_frame s2 = (heap_frame s)(va := None) \<and>
        frame_free_set (vm_frames s2) = frame_free_set (vm_frames s)
     else s1 = s)"
proof -
  note M = heap_map_page_owned [OF assms(1,2)]
  then have o: "vm_owned s1" by blast
  note U = heap_unmap_page_owned [OF o assms(3)]
  show ?thesis
  proof (cases r)
    case True
    with M obtain f where f: "f \<in> frame_free_set (vm_frames s)" "heap_frame s1 = (heap_frame s)(va \<mapsto> f)"
      "frame_free_set (vm_frames s1) = frame_free_set (vm_frames s) - {f}" "heap_page_valid va" by auto
    moreover have "f \<notin> ran (heap_frame s)" using f(1) assms(1) by (auto simp: vm_owned_def)
    ultimately show ?thesis using True U o by auto
  next
    case False
    then show ?thesis using M U by auto
  qed
qed

theorem heap_pages_own_frames_witness:
  "fst (heap_map_page ex_vm 0x30000) \<and> fst (heap_unmap_page (snd (heap_map_page ex_vm 0x30000)) 0x30000)"
proof -
  obtain r s1 where m: "heap_map_page ex_vm 0x30000 = (r, s1)" by fastforce
  obtain q s2 where u: "heap_unmap_page s1 0x30000 = (q, s2)" by fastforce
  have "heap_page_valid 0x30000" by (simp add: heap_page_valid_def)
  moreover have "frame_free_set (vm_frames ex_vm) \<noteq> {}" using ex_free by (auto simp: ex_vm_def)
  ultimately show ?thesis using heap_pages_own_frames [OF ex_vm_owned m u] by (auto simp: m u)
qed

end
