(* ===== verification/Heap_Properties.thy ===== *)
theory Heap_Properties
  imports Paged_Heap Memory_Properties
begin

section \<open>Properties of the kernel heap\<close>

text \<open>
  The theorems about the two heaps, over the heap of a machine just booted
  (\<open>ex_heap\<close>, and \<open>ex_paged_heap\<close> after paging has been enabled) for their witnesses.
\<close>

definition ex_heap :: heap_state where
  "ex_heap = \<lparr>hs_pointer = 0x25000, hs_limit = 0x80000, hs_paging = 0, hs_first = 0,
     hs_blocks = (\<lambda>_. \<lparr>hb_size = 0, hb_free = 0, hb_next = 0\<rparr>),
     hs_paged = replicate 80 \<lparr>pb_address = 0, pb_size = 0, pb_free = 0\<rparr>, hs_vm = ex_vm,
     hs_memory = (\<lambda>a. ucast a)\<rparr>"

definition ex_paged_heap :: heap_state where
  "ex_paged_heap = ex_heap\<lparr>hs_paging := 1\<rparr>"

lemma ex_heap_ok: "heap_ok ex_heap"
  unfolding heap_ok_def by (rule exI [of _ "[]"]) (simp add: heap_list_def ex_heap_def)

lemma ex_paged_ok: "paged_ok ex_paged_heap"
  by (simp add: paged_ok_def ex_paged_heap_def ex_heap_def ex_vm_owned slot_ok_def list_all_iff)

text \<open>A block of \<open>m\<close> bytes at \<open>r\<close> overlaps no block in use, headers included.\<close>

definition apart :: "heap_state \<Rightarrow> u32 \<Rightarrow> u32 \<Rightarrow> bool" where
  "apart s r m \<longleftrightarrow> (\<forall>q k. allocated s q = Some k \<longrightarrow>
     unat r + unat m + 12 \<le> unat q \<or> unat q + unat k + 12 \<le> unat r)"

text \<open>
  C10: before paging is enabled, on every well-formed heap, \<open>heap_alloc\<close> and
  \<open>heap_free\<close> return and keep the heap well-formed. An allocation fails only when
  no free block fits and the rest of the heap is too small, and then changes
  nothing; otherwise it hands out an address not in use whose block has at least
  the requested size, lies below \<open>heap_pointer\<close> and overlaps no block in use,
  headers included. Releasing an address takes exactly it out of use, and
  releasing an address that is not in use, a second time in particular, changes
  nothing.
\<close>

theorem heap_alloc_free_exact:
  assumes ok: "heap_ok s" and pg: "hs_paging s = 0" and n: "n \<noteq> 0" "n \<le> 0xFFFFFFFC"
    and f: "paged_heap_find s p = None"
  shows "(\<exists>r s1. heap_alloc s n = Some (r, s1) \<and> heap_ok s1 \<and>
      (if r = 0 then s1 = s \<and> no_room s (align_size n) \<and>
         (\<forall>a. on_chain (next_block s) (hs_first s) a \<longrightarrow> \<not> block_fits s (align_size n) a)
       else allocated s r = None \<and> (\<exists>m \<ge> n. allocated s1 = (allocated s)(r \<mapsto> m) \<and>
         unat r + unat m \<le> unat (hs_pointer s1) \<and>
         apart s r m))) \<and>
    (\<exists>s2. heap_free s p = Some s2 \<and> heap_ok s2 \<and> allocated s2 = (allocated s)(p := None) \<and>
      (allocated s p = None \<longrightarrow> s2 = s) \<and> heap_free s2 p = Some s2)"
proof
  obtain r s1 where A: "heap_alloc s n = Some (r, s1)" "heap_ok s1"
    "r = 0 \<longrightarrow> s1 = s \<and> no_room s (align_size n) \<and>
       (\<forall>a. on_chain (next_block s) (hs_first s) a \<longrightarrow> \<not> block_fits s (align_size n) a)"
    "r \<noteq> 0 \<longrightarrow> allocated s r = None \<and> (\<exists>m \<ge> align_size n. allocated s1 = (allocated s)(r \<mapsto> m))"
    by (rule heap_alloc_spec [OF ok pg n]) (rule that; assumption)
  have B: "\<exists>m \<ge> n. allocated s1 = (allocated s)(r \<mapsto> m) \<and> unat r + unat m \<le> unat (hs_pointer s1) \<and>
         apart s r m"
    if "r \<noteq> 0"
  proof -
    from A(4) that obtain m where m: "align_size n \<le> m" "allocated s1 = (allocated s)(r \<mapsto> m)" "allocated s r = None"
      by auto
    have r: "allocated s1 r = Some m" by (simp add: m(2))
    have "unat r + unat m + 12 \<le> unat q \<or> unat q + unat k + 12 \<le> unat r" if "allocated s q = Some k" for q k
      using allocated_disjoint [OF A(2) r, of q k] that m(2,3) by (cases "r = q") auto
    then have "apart s r m" by (simp add: apart_def)
    then show ?thesis using m align_size_ge [OF n(2)] allocated_bounds [OF A(2) r] by (intro exI [of _ m]) simp
  qed
  show "\<exists>r s1. heap_alloc s n = Some (r, s1) \<and> heap_ok s1 \<and>
      (if r = 0 then s1 = s \<and> no_room s (align_size n) \<and>
         (\<forall>a. on_chain (next_block s) (hs_first s) a \<longrightarrow> \<not> block_fits s (align_size n) a)
       else allocated s r = None \<and> (\<exists>m \<ge> n. allocated s1 = (allocated s)(r \<mapsto> m) \<and>
         unat r + unat m \<le> unat (hs_pointer s1) \<and>
         apart s r m))"
  proof (intro exI conjI)
    show "if r = 0 then s1 = s \<and> no_room s (align_size n) \<and>
         (\<forall>a. on_chain (next_block s) (hs_first s) a \<longrightarrow> \<not> block_fits s (align_size n) a)
       else allocated s r = None \<and> (\<exists>m \<ge> n. allocated s1 = (allocated s)(r \<mapsto> m) \<and>
         unat r + unat m \<le> unat (hs_pointer s1) \<and> apart s r m)"
      using A(3,4) B by (simp only: split: if_split) simp
  qed (rule A(1), rule A(2))
  obtain s2 where F: "heap_free s p = Some s2" "heap_ok s2" "same_paged s s2"
    "allocated s2 = (allocated s)(p := None)" "allocated s p = None \<longrightarrow> s2 = s"
    by (rule heap_free_spec [OF ok f]) (rule that; assumption)
  have f2: "paged_heap_find s2 p = None" using paged_find_same [OF F(3)] f by simp
  obtain s3 where "heap_free s2 p = Some s3" "allocated s2 p = None \<longrightarrow> s3 = s2"
    by (rule heap_free_spec [OF F(2) f2]) (rule that; assumption)
  then have "heap_free s2 p = Some s2" by (simp add: F(4))
  then show "\<exists>s2. heap_free s p = Some s2 \<and> heap_ok s2 \<and> allocated s2 = (allocated s)(p := None) \<and>
      (allocated s p = None \<longrightarrow> s2 = s) \<and> heap_free s2 p = Some s2"
    by (intro exI [of _ s2] conjI F(1,2,4,5))
qed

lemma ex_alloc_100: "heap_alloc ex_heap 100 = Some (0x2500C, (set_block ex_heap 0x25000 \<lparr>hb_size = 100, hb_free = 0, hb_next = 0\<rparr>)
    \<lparr>hs_first := 0x25000, hs_pointer := 0x25070\<rparr>)"
  by (simp add: heap_alloc_def ex_heap_def chain_find.simps align_size_def no_room_def append_block_def set_block_def)

theorem heap_alloc_free_exact_witness:
  "\<exists>s1. heap_alloc ex_heap 100 = Some (0x2500C, s1) \<and> heap_ok s1 \<and> heap_free ex_heap 0x2500C = Some ex_heap"
proof -
  have "paged_heap_find ex_heap 0x2500C = None" by (simp add: paged_heap_find_def ex_heap_def find_slot_None)
  moreover have "hs_paging ex_heap = 0" "allocated ex_heap 0x2500C = None"
    using allocated_bounds [OF ex_heap_ok, of "0x2500C"]
    by (cases "allocated ex_heap 0x2500C"; simp add: ex_heap_def)+
  ultimately show ?thesis using heap_alloc_free_exact [OF ex_heap_ok, of 100 "0x2500C"] ex_alloc_100 by auto
qed


text \<open>The heap after one allocation of 100 bytes, for the witness.\<close>

definition ex_heap1 :: heap_state where
  "ex_heap1 = snd (the (heap_alloc ex_heap 100))"

lemma ex_heap1: "heap_ok ex_heap1" "allocated ex_heap1 0x2500C = Some 100" "hs_paging ex_heap1 = 0"
  "paged_heap_find ex_heap1 0x2500C = None"
proof -
  have e: "ex_heap1 = (set_block ex_heap 0x25000 \<lparr>hb_size = 100, hb_free = 0, hb_next = 0\<rparr>)
    \<lparr>hs_first := 0x25000, hs_pointer := 0x25070\<rparr>" by (simp add: ex_heap1_def ex_alloc_100)
  have l: "heap_list ex_heap1 [0x25000]"
    by (simp add: e heap_list_def ex_heap_def set_block_def block_size_def)
  then show "heap_ok ex_heap1" by (auto simp: heap_ok_def)
  show "allocated ex_heap1 0x2500C = Some 100" using allocated_list [OF l] by (simp add: e block_size_def)
  show "hs_paging ex_heap1 = 0" by (simp add: e ex_heap_def)
  show "paged_heap_find ex_heap1 0x2500C = None" by (simp add: e paged_heap_find_def ex_heap_def find_slot_None)
qed


text \<open>What an allocation of \<open>n\<close> bytes from the paged heap results in.\<close>

definition paged_outcome :: "heap_state \<Rightarrow> u32 \<Rightarrow> u32 \<Rightarrow> heap_state \<Rightarrow> bool" where
  "paged_outcome s n r s1 \<longleftrightarrow> paged_ok s1 \<and>
    (if r = 0 then hs_paged s1 = hs_paged s \<and>
       frame_free_set (vm_frames (hs_vm s)) \<subseteq> frame_free_set (vm_frames (hs_vm s1))
     else paged_block s1 r (align_size n) \<and> n \<le> align_size n \<and>
       (\<exists>s2. heap_free s1 r = Some s2 \<and> paged_ok s2 \<and>
          frame_free_set (vm_frames (hs_vm s2)) = frame_free_set (vm_frames (hs_vm s)) \<and>
          heap_free s2 r = Some s2))"

lemma paged_outcomeI:
  assumes n: "n \<le> 0xFFFFFFF0" and ok: "paged_ok s1"
    and o: "if r = 0 then hs_paged s1 = hs_paged s \<and>
        frame_free_set (vm_frames (hs_vm s)) \<subseteq> frame_free_set (vm_frames (hs_vm s1))
      else paged_block s1 r (align_size n) \<and> frame_free_set (vm_frames (hs_vm s)) =
         frame_free_set (vm_frames (hs_vm s1)) \<union> frames_between (hs_vm s1) (page_start (r - 12)) (r + align_size n)"
  shows "paged_outcome s n r s1"
proof -
  have "n \<le> align_size n" using n by (intro align_size_ge) (simp add: word_le_nat_alt)
  moreover have "\<exists>s2. heap_free s1 r = Some s2 \<and> paged_ok s2 \<and>
      frame_free_set (vm_frames (hs_vm s2)) = frame_free_set (vm_frames (hs_vm s)) \<and> heap_free s2 r = Some s2" if "r \<noteq> 0"
    using paged_block_free [OF ok, of r "align_size n" s] o that by simp
  ultimately show ?thesis using ok o by (simp add: paged_outcome_def)
qed



end
