(* ===== verification/User_Programs.thy ===== *)
theory User_Programs
  imports Heap_Properties
begin

section \<open>User memory and the program loader\<close>

text \<open>
  The user regions of \<open>kernel.c\<close>, the loader \<open>user_program_load\<close> for the program
  format of \<open>program.h\<close>, and the functions that load one of the images linked
  into the kernel and clear the user stack. The images are arguments: they are
  built from assembly and delimited by linker symbols.

  Memory is reached through \<open>translate\<close>, as in \<open>Kernel_Heap\<close>; a result \<open>None\<close> is
  a page fault.
\<close>

definition INITRAOS_PROGRAM_MAGIC :: u32 where [simp]: "INITRAOS_PROGRAM_MAGIC = 0x49504F53"
definition INITRAOS_PROGRAM_VERSION :: u32 where [simp]: "INITRAOS_PROGRAM_VERSION = 1"
definition MEMORY_REGION_USER :: u32 where [simp]: "MEMORY_REGION_USER = 0x01"
definition MEMORY_REGION_WRITABLE :: u32 where [simp]: "MEMORY_REGION_WRITABLE = 0x02"
definition MEMORY_REGION_EXECUTABLE :: u32 where [simp]: "MEMORY_REGION_EXECUTABLE = 0x04"

record initraos_program_header_t =
  ph_magic :: u32
  ph_version :: u32
  ph_entry :: u32
  ph_code_size :: u32
  ph_data_size :: u32
  ph_bss_size :: u32

record memory_region_t =
  mr_base :: u32
  mr_size :: u32
  mr_flags :: u32

definition user_code_region :: memory_region_t where
  "user_code_region = \<lparr>mr_base = USER_CODE_BASE, mr_size = USER_CODE_SIZE,
     mr_flags = MEMORY_REGION_USER OR MEMORY_REGION_EXECUTABLE\<rparr>"

definition user_stack_region :: memory_region_t where
  "user_stack_region = \<lparr>mr_base = USER_STACK_BASE, mr_size = USER_STACK_SIZE,
     mr_flags = MEMORY_REGION_USER OR MEMORY_REGION_WRITABLE\<rparr>"

definition sizeof_program_header :: u32 where [simp]: "sizeof_program_header = 24"

text \<open>The header at the start of an image, little endian.\<close>

definition word_at :: "u8 list \<Rightarrow> nat \<Rightarrow> u32" where
  "word_at bs i = u32_of_bytes (bs ! i) (bs ! (i + 1)) (bs ! (i + 2)) (bs ! (i + 3))"

definition program_header :: "u8 list \<Rightarrow> initraos_program_header_t" where
  "program_header img = \<lparr>ph_magic = word_at img 0, ph_version = word_at img 4, ph_entry = word_at img 8,
     ph_code_size = word_at img 12, ph_data_size = word_at img 16, ph_bss_size = word_at img 20\<rparr>"

fun store_bytes :: "heap_state \<Rightarrow> u32 \<Rightarrow> u8 list \<Rightarrow> heap_state option" where
  "store_bytes h destination [] = Some h"
| "store_bytes h destination (b # bs) =
     do { h \<leftarrow> store_byte h destination b; store_bytes h (destination + 1) bs }"

text \<open>The checks of the loader; the result is the payload size and the size in memory.\<close>

definition program_checked :: "initraos_program_header_t \<Rightarrow> u32 \<Rightarrow> (u32 \<times> u32) option" where
  "program_checked header image_size =
     (if ph_magic header \<noteq> INITRAOS_PROGRAM_MAGIC then None
      else if ph_version header \<noteq> INITRAOS_PROGRAM_VERSION then None
      else
        let payload_size = ph_code_size header + ph_data_size header
        in if ph_code_size header = 0 then None
           else if payload_size < ph_code_size header then None
           else if ph_bss_size header > mr_size user_code_region - payload_size then None
           else if sizeof_program_header > image_size \<or> payload_size > image_size - sizeof_program_header then None
           else
             let image_memory_size = payload_size + ph_bss_size header
             in if image_memory_size < payload_size \<or> image_memory_size > mr_size user_code_region then None
                else if ph_entry header \<ge> ph_code_size header then None
                else Some (payload_size, image_memory_size))"

definition user_program_load ::
  "heap_state \<Rightarrow> u8 list option \<Rightarrow> u32 \<Rightarrow> nonnull \<Rightarrow> (u32 option \<times> heap_state) option" where
  "user_program_load h image_start image_size entry_point =
     (case image_start of
        None \<Rightarrow> Some (None, h)
      | Some img \<Rightarrow>
          if \<not> entry_point \<or> image_size < sizeof_program_header then Some (None, h)
          else case program_checked (program_header img) image_size of
                 None \<Rightarrow> Some (None, h)
               | Some (payload_size, image_memory_size) \<Rightarrow>
                   do {
                     h \<leftarrow> store_bytes h (mr_base user_code_region)
                            (take (unat payload_size) (drop (unat sizeof_program_header) img));
                     h \<leftarrow> store_bytes h (mr_base user_code_region + payload_size)
                            (replicate (unat (image_memory_size - payload_size)) 0);
                     Some (Some (mr_base user_code_region + ph_entry (program_header img)), h) })"

text \<open>
  Loading an image linked into the kernel and clearing the user stack: the
  common body of the functions below, which differ in their linker symbols.
\<close>

definition prepare_image :: "heap_state \<Rightarrow> u8 list \<Rightarrow> nonnull \<Rightarrow> (u32 option \<times> heap_state) option" where
  "prepare_image h img entry_point =
     (let image_size = of_nat (length img)
      in if \<not> entry_point \<or> image_size = 0 then Some (None, h)
         else do {
           (entry, h) \<leftarrow> user_program_load h (Some img) image_size entry_point;
           if entry = None then Some (None, h)
           else do {
             h \<leftarrow> store_bytes h (mr_base user_stack_region) (replicate (unat (mr_size user_stack_region)) 0);
             Some (entry, h) } })"

text \<open>The images, each the bytes between its two linker symbols.\<close>

record user_images =
  ui_mode_code :: "u8 list"
  ui_secaudit_code :: "u8 list"
  ui_secinfo_code :: "u8 list"
  ui_secusers_code :: "u8 list"
  ui_secperm_code :: "u8 list"

definition user_space_prepare :: "heap_state \<Rightarrow> user_images \<Rightarrow> nonnull \<Rightarrow> (u32 option \<times> heap_state) option" where
  "user_space_prepare h images entry_point = prepare_image h (ui_mode_code images) entry_point"

definition user_secinfo_prepare :: "heap_state \<Rightarrow> user_images \<Rightarrow> nonnull \<Rightarrow> (u32 option \<times> heap_state) option" where
  "user_secinfo_prepare h images entry_point = prepare_image h (ui_secinfo_code images) entry_point"

definition user_secusers_prepare :: "heap_state \<Rightarrow> user_images \<Rightarrow> nonnull \<Rightarrow> (u32 option \<times> heap_state) option" where
  "user_secusers_prepare h images entry_point = prepare_image h (ui_secusers_code images) entry_point"

definition user_secperm_prepare :: "heap_state \<Rightarrow> user_images \<Rightarrow> nonnull \<Rightarrow> (u32 option \<times> heap_state) option" where
  "user_secperm_prepare h images entry_point = prepare_image h (ui_secperm_code images) entry_point"

definition user_secaudit_prepare :: "heap_state \<Rightarrow> user_images \<Rightarrow> nonnull \<Rightarrow> (u32 option \<times> heap_state) option" where
  "user_secaudit_prepare h images entry_point = prepare_image h (ui_secaudit_code images) entry_point"

subsection \<open>Writing within one page\<close>

lemma or_offset: "(e AND 0xFFFFF000) OR (va AND 0xFFF) = (e AND 0xFFFFF000) + (va AND 0xFFF)" for e va :: u32
proof -
  have "(e AND 0xFFFFF000) AND (va AND 0xFFF) = 0"
    by (simp add: and.left_commute and.assoc)
  then show ?thesis by (simp add: disjunctive_add_eq_or)
qed

lemma low_bits: "unat (va AND 0xFFF) = unat va mod 4096" for va :: u32
proof -
  have "va AND 0xFFF = va mod 4096"
    using take_bit_eq_mask [of 12 va] take_bit_eq_mod [of 12 va] by (simp add: mask_numeral)
  then show ?thesis by (simp add: unat_mod_distrib)
qed

lemma unat_in_page:
  fixes va :: u32
  assumes "unat va mod 4096 + i < 4096"
  shows "unat (va + of_nat i) = unat va + i"
proof -
  have "unat va < 1048576 * 4096" using unsigned_less [of va] by simp
  then have "unat va div 4096 < 1048576" by (rule less_mult_imp_div_less)
  then have "unat va div 4096 * 4096 \<le> 1048575 * 4096" by (intro mult_right_mono) simp_all
  then have "unat va + i < 4294967296" "i < 4294967296" using assms div_mult_mod_eq [of "unat va" 4096] by linarith+
  then show ?thesis by (simp add: unat_word_ariths unat_of_nat)
qed

lemma translate_offset:
  assumes t: "translate h va = Some pa" and i: "unat va mod 4096 + i < 4096"
  shows "translate h (va + of_nat i) = Some (pa + of_nat i)"
proof (cases "hs_paging h = 0")
  case True
  then show ?thesis using t by (simp add: translate_def)
next
  case False
  have u: "unat (va + of_nat i) = unat va + i" by (rule unat_in_page [OF i])
  have m: "(unat va + i) mod 4096 = unat va mod 4096 + i" using i by (metis mod_add_left_eq mod_less)
  have "(unat va + i) div 4096 = unat va div 4096"
    using m div_mult_mod_eq [of "unat va + i" 4096] div_mult_mod_eq [of "unat va" 4096] by linarith
  then have p: "page_of (va + of_nat i) = page_of va" by (simp only: page_of_def u)
  have d: "directory_index (va + of_nat i) = directory_index va" "table_index (va + of_nat i) = table_index va"
    using same_page [of "va + of_nat i" va] p by blast+
  then have e: "entry_at ts (va + of_nat i) = entry_at ts va" for ts by (simp only: entry_at_def)
  have "unat (va AND 0xFFF) mod 4096 + i < 4096" using i by (simp only: low_bits mod_mod_trivial)
  then have "unat ((va AND 0xFFF) + of_nat i) = unat va mod 4096 + i" using unat_in_page low_bits by metis
  moreover have "unat ((va + of_nat i) AND 0xFFF) = unat va mod 4096 + i" by (simp only: low_bits u m)
  ultimately have "(va + of_nat i) AND 0xFFF = (va AND 0xFFF) + of_nat i" by (simp only: word_unat_eq_iff)
  note eq = this
  let ?e = "entry_at (the (as_page_tables (vm_kernel_space (hs_vm h)))) va"
  have T: "\<not> directory_index va \<ge> PAGE_TABLE_COUNT" "?e AND PAGE_PRESENT \<noteq> 0"
    "pa = (?e AND 0xFFFFF000) OR (va AND 0xFFF)"
    using t False by (simp_all add: translate_def Let_def split: if_splits)
  have "(?e AND 0xFFFFF000) OR ((va + of_nat i) AND 0xFFF) = pa + of_nat i"
    unfolding T(3) or_offset unfolding eq add.assoc by (rule refl)
  then show ?thesis using False T(1,2) by (simp add: translate_def Let_def d e)
qed

definition overwrite :: "(u32 \<Rightarrow> u8) \<Rightarrow> u32 \<Rightarrow> u8 list \<Rightarrow> u32 \<Rightarrow> u8" where
  "overwrite m pa bs = (\<lambda>x. if unat (x - pa) < length bs then bs ! unat (x - pa) else m x)"

lemma overwrite_Nil [simp]: "overwrite m pa [] = m"
  by (simp add: overwrite_def)

lemma overwrite_Cons:
  assumes "length bs < 4096"
  shows "overwrite (m(pa := b)) (pa + 1) bs = overwrite m pa (b # bs)"
proof
  fix x
  show "overwrite (m(pa := b)) (pa + 1) bs x = overwrite m pa (b # bs) x"
  proof (cases "x = pa")
    case True
    have "unat (x - (pa + 1)) = 4294967295" using True by (simp add: unsigned_minus_1_eq_mask mask_eq_exp_minus_1)
    then show ?thesis using True assms by (simp add: overwrite_def)
  next
    case False
    then have "x - pa \<noteq> 0" by simp
    then have "unat (x - pa) = Suc (unat (x - pa - 1))" using unat_minus_1 [of "x - pa"] by (simp add: unat_gt_0)
    then show ?thesis using False by (simp add: overwrite_def diff_diff_eq)
  qed
qed

lemma translate_memory [simp]: "translate (h\<lparr>hs_memory := m\<rparr>) va = translate h va"
  by (simp add: translate_def)

lemma store_bytes_spec:
  "translate h va = Some pa \<Longrightarrow> unat va mod 4096 + length bs \<le> 4096 \<Longrightarrow>
   store_bytes h va bs = Some (h\<lparr>hs_memory := overwrite (hs_memory h) pa bs\<rparr>)"
proof (induction bs arbitrary: h va pa)
  case (Cons b bs)
  let ?h = "h\<lparr>hs_memory := (hs_memory h)(pa := b)\<rparr>"
  have s: "store_byte h va b = Some ?h" by (simp add: store_byte_def Cons.prems(1))
  have l: "length bs < 4096" using Cons.prems(2) by simp
  show ?case
  proof (cases "bs = []")
    case True
    then show ?thesis using s overwrite_Cons [of "[]" "hs_memory h" pa b] by simp
  next
    case False
    then have i: "unat va mod 4096 + 1 < 4096" using Cons.prems(2) by (cases bs) simp_all
    have "translate ?h (va + 1) = Some (pa + 1)" using translate_offset [OF Cons.prems(1) i] by simp
    moreover have "unat (va + 1) mod 4096 = unat va mod 4096 + 1"
      using unat_in_page [OF i] i by (simp add: mod_Suc)
    ultimately have "store_bytes ?h (va + 1) bs =
        Some (?h\<lparr>hs_memory := overwrite (hs_memory ?h) (pa + 1) bs\<rparr>)"
      using Cons.prems(2) by (intro Cons.IH) simp_all
    then show ?thesis using s overwrite_Cons [OF l, of "hs_memory h" pa b] by simp
  qed
qed simp


subsection \<open>What the loader accepts and writes\<close>

definition program_valid :: "initraos_program_header_t \<Rightarrow> nat \<Rightarrow> bool" where
  "program_valid header image_size \<longleftrightarrow>
     ph_magic header = INITRAOS_PROGRAM_MAGIC \<and> ph_version header = INITRAOS_PROGRAM_VERSION \<and>
     unat (ph_entry header) < unat (ph_code_size header) \<and>
     unat (ph_code_size header) + unat (ph_data_size header) + unat (ph_bss_size header) \<le> unat USER_CODE_SIZE \<and>
     24 + unat (ph_code_size header) + unat (ph_data_size header) \<le> image_size"

text \<open>The guards of the loader, which compare wrapped sums, are the mathematical conditions.\<close>

lemma unat_add_u32: "unat (a + b) = (if unat a + unat b < 4294967296 then unat a + unat b
     else unat a + unat b - 4294967296)" for a b :: u32
  by (simp add: unat_plus_if')

lemma program_checked_spec:
  "program_checked header n =
     (if program_valid header (unat n)
      then Some (ph_code_size header + ph_data_size header,
             ph_code_size header + ph_data_size header + ph_bss_size header)
      else None)"
proof -
  let ?c = "ph_code_size header" and ?d = "ph_data_size header" and ?b = "ph_bss_size header" and ?e = "ph_entry header"
  have b: "unat ?c < 4294967296" "unat ?d < 4294967296" "unat ?b < 4294967296" "unat n < 4294967296"
    using unsigned_less [of ?c] unsigned_less [of ?d] unsigned_less [of ?b] unsigned_less [of n] by simp_all
  show ?thesis
  proof (cases "program_valid header (unat n)")
    case True
    then have v: "unat ?e < unat ?c" "unat ?c + unat ?d + unat ?b \<le> 4096" "24 + unat ?c + unat ?d \<le> unat n"
      by (simp_all add: program_valid_def)
    have p: "unat (?c + ?d) = unat ?c + unat ?d" using v by (simp add: unat_add_u32)
    have i: "unat (?c + ?d + ?b) = unat ?c + unat ?d + unat ?b" using v p by (simp add: unat_add_u32 [of "?c + ?d"])
    have m: "unat (4096 - (?c + ?d)) = 4096 - (unat ?c + unat ?d)" using v p unat_minus_le [of "?c + ?d" 4096]
      by (simp add: word_le_nat_alt)
    have n: "unat (n - 24) = unat n - 24" using v unat_minus_le [of 24 n] by (simp add: word_le_nat_alt)
    have "program_checked header n = Some (?c + ?d, ?c + ?d + ?b)"
      using True v by (simp add: program_checked_def program_valid_def Let_def user_code_region_def
          word_less_nat_alt word_le_nat_alt word_unat_eq_iff p i m n) (intro conjI impI; linarith)
    then show ?thesis using True by simp
  next
    case False
    have "program_checked header n = None"
    proof (rule ccontr)
      assume "program_checked header n \<noteq> None"
      then have g: "ph_magic header = INITRAOS_PROGRAM_MAGIC" "ph_version header = INITRAOS_PROGRAM_VERSION"
        "unat ?c \<le> unat (?c + ?d)" "24 \<le> unat n" "unat (?c + ?d) \<le> unat (n - 24)"
        "unat (?c + ?d) \<le> unat (?c + ?d + ?b)" "unat (?c + ?d + ?b) \<le> 4096" "unat ?e < unat ?c"
        by (auto simp: program_checked_def Let_def user_code_region_def word_less_nat_alt word_le_nat_alt
            not_less not_le split: if_splits)
      have p: "unat (?c + ?d) = unat ?c + unat ?d"
        using g(3,8) b by (auto simp: unat_add_u32 split: if_splits)
      have i: "unat (?c + ?d + ?b) = unat ?c + unat ?d + unat ?b"
        using g(6,8) b p by (auto simp: unat_add_u32 [of "?c + ?d"] split: if_splits)
      have n: "unat (n - 24) = unat n - 24" using g(4) unat_minus_le [of 24 n] by (simp add: word_le_nat_alt)
      have "program_valid header (unat n)" using g p i n by (simp add: program_valid_def)
      then show False using False by simp
    qed
    then show ?thesis using False by simp
  qed
qed


text \<open>The bytes an accepted image puts into user memory: its payload, then the cleared bss.\<close>

definition program_bytes :: "u8 list \<Rightarrow> u8 list" where
  "program_bytes img =
     (let header = program_header img
      in take (unat (ph_code_size header) + unat (ph_data_size header)) (drop 24 img) @
         replicate (unat (ph_bss_size header)) 0)"

lemma overwrite_append:
  assumes "length (as @ bs) \<le> 4096"
  shows "overwrite (overwrite m pa as) (pa + of_nat (length as)) bs = overwrite m pa (as @ bs)"
proof
  fix x
  have l: "length as < 4294967296" "length bs < 4294967296 - length as" using assms by auto
  have u: "unat (of_nat (length as) :: u32) = length as" using l by (simp add: unat_of_nat)
  have p: "(2 :: nat) ^ LENGTH(32) = 4294967296" by simp
  note d = unat_sub_if' [of "x - pa" "of_nat (length as)", unfolded u p]
  have x: "x - (pa + of_nat (length as)) = x - pa - of_nat (length as)" by (simp add: diff_diff_eq)
  show "overwrite (overwrite m pa as) (pa + of_nat (length as)) bs x = overwrite m pa (as @ bs) x"
  proof (cases "length as \<le> unat (x - pa)")
    case True
    then show ?thesis unfolding overwrite_def x d nth_append by auto
  next
    case False
    then have "\<not> unat (x - pa) + 4294967296 - length as < length bs" using l by linarith
    then show ?thesis unfolding overwrite_def x d nth_append using False by simp
  qed
qed

lemma program_bytes_parts:
  assumes v: "program_valid (program_header img) (length img)"
  defines "n \<equiv> unat (ph_code_size (program_header img)) + unat (ph_data_size (program_header img))"
  shows "length (take n (drop 24 img)) = n" "n + unat (ph_bss_size (program_header img)) \<le> 4096"
    "length (program_bytes img) \<le> 4096" "0 < n"
    "unat (ph_code_size (program_header img) + ph_data_size (program_header img)) = n"
    "unat (ph_code_size (program_header img) + ph_data_size (program_header img) +
       ph_bss_size (program_header img) - (ph_code_size (program_header img) + ph_data_size (program_header img))) =
     unat (ph_bss_size (program_header img))"
proof -
  let ?p = "program_header img"
  have w: "unat (ph_entry ?p) < unat (ph_code_size ?p)" "n + unat (ph_bss_size ?p) \<le> 4096" "24 + n \<le> length img"
    using v by (simp_all add: program_valid_def n_def)
  then show "length (take n (drop 24 img)) = n" "n + unat (ph_bss_size ?p) \<le> 4096" "0 < n"
    by (simp_all add: n_def)
  show "length (program_bytes img) \<le> 4096" using w by (simp add: program_bytes_def Let_def n_def)
  show "unat (ph_code_size ?p + ph_data_size ?p) = n" using w by (simp add: n_def unat_add_u32)
  show "unat (ph_code_size ?p + ph_data_size ?p + ph_bss_size ?p - (ph_code_size ?p + ph_data_size ?p)) =
     unat (ph_bss_size ?p)" by (simp add: algebra_simps)
qed

lemma in_code_page: "k < 4096 \<Longrightarrow> (1048576 + k) mod 4096 = k" for k :: nat
  using mod_mult_self3 [of 256 4096 k] by simp

lemma user_program_load_spec:
  assumes t: "translate h USER_CODE_BASE = Some pa" and n: "unat n = length img"
  shows "user_program_load h (Some img) n True = Some
    (if program_valid (program_header img) (length img)
     then (Some (USER_CODE_BASE + ph_entry (program_header img)),
           h\<lparr>hs_memory := overwrite (hs_memory h) pa (program_bytes img)\<rparr>)
     else (None, h))"
proof (cases "program_valid (program_header img) (length img)")
  case True
  let ?p = "program_header img"
  let ?n = "unat (ph_code_size ?p) + unat (ph_data_size ?p)"
  let ?code = "take ?n (drop 24 img)" and ?bss = "replicate (unat (ph_bss_size ?p)) (0 :: u8)"
  note P = program_bytes_parts [OF True]
  let ?h = "h\<lparr>hs_memory := overwrite (hs_memory h) pa ?code\<rparr>"
  have s: "\<not> n < sizeof_program_header" using True n by (simp add: program_valid_def word_less_nat_alt)
  have c: "store_bytes h USER_CODE_BASE ?code = Some ?h"
    using P(1,2) by (intro store_bytes_spec [OF t]) simp
  have b: "store_bytes ?h (USER_CODE_BASE + (ph_code_size ?p + ph_data_size ?p)) ?bss =
      Some (h\<lparr>hs_memory := overwrite (hs_memory h) pa (program_bytes img)\<rparr>)"
  proof (cases "ph_bss_size ?p = 0")
    case True
    then show ?thesis by (simp add: program_bytes_def Let_def)
  next
    case False
    then have "unat (ph_bss_size ?p) \<noteq> 0" by (simp add: unat_eq_0)
    then have i: "unat (USER_CODE_BASE :: u32) mod 4096 + ?n < 4096" using P(2) by simp
    have e: "ph_code_size ?p + ph_data_size ?p = of_nat ?n" by (simp add: word_unat_eq_iff unat_of_nat P(5) unat_add_u32)
    have t': "translate ?h (USER_CODE_BASE + of_nat ?n) = Some (pa + of_nat ?n)" using translate_offset [OF t i] by simp
    have S: "store_bytes ?h (USER_CODE_BASE + of_nat ?n) ?bss =
        Some (?h\<lparr>hs_memory := overwrite (hs_memory ?h) (pa + of_nat ?n) ?bss\<rparr>)"
      using P(2) unat_in_page [OF i] i in_code_page [of ?n] by (intro store_bytes_spec [OF t']) simp
    have O: "overwrite (hs_memory ?h) (pa + of_nat ?n) ?bss = overwrite (hs_memory h) pa (program_bytes img)"
      using overwrite_append [of ?code ?bss "hs_memory h" pa] P(1,2) by (simp add: program_bytes_def Let_def)
    show ?thesis unfolding e S O by simp
  qed
  show ?thesis
    using True s c b by (simp add: user_program_load_def program_checked_spec n P(5,6) user_code_region_def)
next
  case False
  then show ?thesis by (simp add: user_program_load_def program_checked_spec n)
qed


lemma prepare_image_spec:
  assumes code: "translate h USER_CODE_BASE = Some pa" and stack: "translate h USER_STACK_BASE = Some ps"
    and n: "length img < 2 ^ 32"
  shows "prepare_image h img True = Some
    (if program_valid (program_header img) (length img)
     then (Some (USER_CODE_BASE + ph_entry (program_header img)),
           h\<lparr>hs_memory := overwrite (overwrite (hs_memory h) pa (program_bytes img)) ps (replicate 4096 0)\<rparr>)
     else (None, h))"
proof -
  let ?p = "program_header img"
  have u: "unat (of_nat (length img) :: u32) = length img" using n by (simp add: unat_of_nat)
  have z: "of_nat (length img) = (0 :: u32) \<longleftrightarrow> length img = 0" using u by (metis unat_eq_0)
  note L = user_program_load_spec [OF code u]
  show ?thesis
  proof (cases "program_valid ?p (length img)")
    case True
    let ?h = "h\<lparr>hs_memory := overwrite (hs_memory h) pa (program_bytes img)\<rparr>"
    have "length img \<noteq> 0" using True unfolding program_valid_def by linarith
    moreover have "store_bytes ?h USER_STACK_BASE (replicate 4096 0) =
        Some (?h\<lparr>hs_memory := overwrite (hs_memory ?h) ps (replicate 4096 0)\<rparr>)"
      using stack by (intro store_bytes_spec) simp_all
    ultimately show ?thesis using True z by (simp add: prepare_image_def L user_stack_region_def)
  qed (simp add: prepare_image_def L z Let_def)
qed

text \<open>A program of two bytes of code, one of data and two of bss, entered at its second byte.\<close>

definition ex_image :: "u8 list" where
  "ex_image = [0x53, 0x4F, 0x50, 0x49, 1, 0, 0, 0, 1, 0, 0, 0, 2, 0, 0, 0, 1, 0, 0, 0, 2, 0, 0, 0, 0x90, 0xC3, 7]"

lemma ex_image_header: "program_header ex_image = \<lparr>ph_magic = 0x49504F53, ph_version = 1, ph_entry = 1,
  ph_code_size = 2, ph_data_size = 1, ph_bss_size = 2\<rparr>"
  by (simp add: program_header_def ex_image_def word_at_def u32_of_bytes_def)

lemma ex_image_bytes: "program_bytes ex_image = [0x90, 0xC3, 7, 0, 0]"
  by (simp add: program_bytes_def ex_image_header Let_def) (simp add: ex_image_def eval_nat_numeral)

text \<open>
  C26: whenever the user code page and the user stack page are mapped, preparing
  a program returns, and succeeds exactly for an image whose header has the magic
  number and the version, whose entry lies in its code, whose code, data and bss
  fit together into the 4 KB code region and whose payload is inside the image,
  all sums taken without wrap-around. It then writes the payload and the cleared
  bss to the code page and clears the stack page, changes no other byte of memory
  and returns the entry point, an address of the loaded code; a rejected image
  changes nothing.
\<close>

theorem prepare_image_exact:
  assumes code: "translate h USER_CODE_BASE = Some pa" and stack: "translate h USER_STACK_BASE = Some ps"
    and n: "length img < 2 ^ 32"
  shows "prepare_image h img True = Some
    (if program_valid (program_header img) (length img)
     then (Some (USER_CODE_BASE + ph_entry (program_header img)),
           h\<lparr>hs_memory := overwrite (overwrite (hs_memory h) pa (program_bytes img)) ps (replicate 4096 0)\<rparr>)
     else (None, h)) \<and>
    (program_valid (program_header img) (length img) \<longrightarrow>
     unat (USER_CODE_BASE :: u32) \<le> unat (USER_CODE_BASE + ph_entry (program_header img)) \<and>
     unat (USER_CODE_BASE + ph_entry (program_header img)) <
       unat (USER_CODE_BASE :: u32) + unat (ph_code_size (program_header img)) \<and>
     unat (ph_code_size (program_header img)) \<le> 4096)"
  using prepare_image_spec [OF assms] by (simp add: program_valid_def unat_add_u32)

theorem prepare_image_exact_witness:
  "\<exists>m. prepare_image ex_heap ex_image True = Some (Some 0x100001, ex_heap\<lparr>hs_memory := m\<rparr>) \<and> m 0x100002 = 7"
proof -
  have t: "translate ex_heap va = Some va" for va by (simp add: translate_def ex_heap_def)
  have v: "program_valid (program_header ex_image) (length ex_image)"
    by (simp add: program_valid_def ex_image_header) (simp add: ex_image_def)
  have "length ex_image < 2 ^ 32" by (simp add: ex_image_def)
  note P = prepare_image_exact [OF t t this]
  let ?m = "overwrite (overwrite (hs_memory ex_heap) 0x100000 (program_bytes ex_image)) 0x7FF000 (replicate 4096 0)"
  have "prepare_image ex_heap ex_image True = Some (Some 0x100001, ex_heap\<lparr>hs_memory := ?m\<rparr>)"
    using P v by (simp add: ex_image_header)
  moreover have "?m 0x100002 = 7" by (simp add: overwrite_def ex_image_bytes)
  ultimately show ?thesis by blast
qed

end
