(* ===== verification/Tasks.thy ===== *)
theory Tasks
  imports Paged_Heap
begin

section \<open>Tasks and processes\<close>

text \<open>
  Tasks, their contexts, processes and their address spaces in \<open>kernel.c\<close>:
  creation, destruction, termination and the round-robin scheduler.

  Every kind of object has its own store by address; objects are allocated and
  released in the kernel heap \<open>ks_heap\<close>. A page directory is a list of 1024
  entries and a block of page tables a list of lists, both by address.
\<close>

definition TASK_READY :: u32 where [simp]: "TASK_READY = 0"
definition TASK_RUNNING :: u32 where [simp]: "TASK_RUNNING = 1"
definition TASK_BLOCKED :: u32 where [simp]: "TASK_BLOCKED = 2"
definition TASK_FINISHED :: u32 where [simp]: "TASK_FINISHED = 3"
definition TASK_KERNEL :: u32 where [simp]: "TASK_KERNEL = 0"
definition TASK_USER :: u32 where [simp]: "TASK_USER = 3"
definition INITRAOS_DEFAULT_UID :: u32 where [simp]: "INITRAOS_DEFAULT_UID = 1000"
definition INITRAOS_DEFAULT_GID :: u32 where [simp]: "INITRAOS_DEFAULT_GID = 1000"

record task_context_t =
  cx_eax :: u32
  cx_ebx :: u32
  cx_ecx :: u32
  cx_edx :: u32
  cx_esi :: u32
  cx_edi :: u32
  cx_ebp :: u32
  cx_esp :: u32
  cx_eip :: u32
  cx_eflags :: u32
  cx_privilege :: u32

record task_t =
  tk_id :: u32
  tk_state :: u32
  tk_privilege :: u32
  tk_process :: u32
  tk_esp :: u32
  tk_ebp :: u32
  tk_stack_base :: u32
  tk_context :: u32
  tk_next :: u32

record process_t =
  pr_pid :: u32
  pr_state :: u32
  pr_privilege :: u32
  pr_uid :: u32
  pr_gid :: u32
  pr_address_space :: u32
  pr_task :: u32

text \<open>A \<open>process_address_space_t\<close> on the heap, with its two pointers.\<close>

record heap_address_space =
  ha_page_directory :: u32
  ha_page_tables :: u32
  ha_page_table_count :: u32

definition sizeof_task :: u32 where [simp]: "sizeof_task = 36"
definition sizeof_task_context :: u32 where [simp]: "sizeof_task_context = 44"
definition sizeof_process :: u32 where [simp]: "sizeof_process = 28"
definition sizeof_address_space :: u32 where [simp]: "sizeof_address_space = 12"

record kernel_state =
  ks_heap :: heap_state
  ks_tasks :: "u32 \<Rightarrow> task_t"
  ks_contexts :: "u32 \<Rightarrow> task_context_t"
  ks_processes :: "u32 \<Rightarrow> process_t"
  ks_spaces :: "u32 \<Rightarrow> heap_address_space"
  ks_directories :: "u32 \<Rightarrow> u32 list"
  ks_tables :: "u32 \<Rightarrow> u32 list list"
  ks_current_task :: u32
  ks_task_list :: u32
  ks_next_task_id :: u32
  ks_next_process_id :: u32

definition put_task :: "kernel_state \<Rightarrow> u32 \<Rightarrow> task_t \<Rightarrow> kernel_state" where
  "put_task s a t = s\<lparr>ks_tasks := (ks_tasks s)(a := t)\<rparr>"

definition put_process :: "kernel_state \<Rightarrow> u32 \<Rightarrow> process_t \<Rightarrow> kernel_state" where
  "put_process s a p = s\<lparr>ks_processes := (ks_processes s)(a := p)\<rparr>"

definition put_space :: "kernel_state \<Rightarrow> u32 \<Rightarrow> heap_address_space \<Rightarrow> kernel_state" where
  "put_space s a p = s\<lparr>ks_spaces := (ks_spaces s)(a := p)\<rparr>"

abbreviation next_task :: "kernel_state \<Rightarrow> u32 \<Rightarrow> u32" where
  "next_task s a \<equiv> tk_next (ks_tasks s a)"

text \<open>\<open>heap_alloc\<close>, \<open>heap_alloc_paged_aligned\<close> and \<open>heap_free\<close> on the kernel's heap.\<close>

definition kernel_alloc :: "kernel_state \<Rightarrow> u32 \<Rightarrow> (u32 \<times> kernel_state) option" where
  "kernel_alloc s n = map_option (\<lambda>(r, h). (r, s\<lparr>ks_heap := h\<rparr>)) (heap_alloc (ks_heap s) n)"

definition kernel_alloc_aligned :: "kernel_state \<Rightarrow> u32 \<Rightarrow> (u32 \<times> kernel_state) option" where
  "kernel_alloc_aligned s n = map_option (\<lambda>(r, h). (r, s\<lparr>ks_heap := h\<rparr>)) (heap_alloc_paged_aligned (ks_heap s) n)"

definition kernel_free :: "kernel_state \<Rightarrow> u32 \<Rightarrow> kernel_state option" where
  "kernel_free s a = map_option (\<lambda>h. s\<lparr>ks_heap := h\<rparr>) (heap_free (ks_heap s) a)"

subsection \<open>Tasks\<close>

definition task_set_state :: "kernel_state \<Rightarrow> u32 \<Rightarrow> u32 \<Rightarrow> kernel_state" where
  "task_set_state s task state =
     (if task = 0 then s else put_task s task ((ks_tasks s task)\<lparr>tk_state := state\<rparr>))"

definition process_attach_task :: "kernel_state \<Rightarrow> u32 \<Rightarrow> u32 \<Rightarrow> kernel_state" where
  "process_attach_task s process task =
     (if process = 0 \<or> task = 0 then s
      else put_task s task ((ks_tasks s task)\<lparr>tk_process := process\<rparr>))"

text \<open>Adding a task at the end of the scheduler's list.\<close>

definition append_task :: "kernel_state \<Rightarrow> u32 \<Rightarrow> kernel_state option" where
  "append_task s task =
     (if ks_task_list s = 0 then Some (s\<lparr>ks_task_list := task\<rparr>)
      else do {
        current \<leftarrow> chain_find (next_task s) (\<lambda>a. next_task s a = 0) (ks_task_list s);
        Some (put_task s current ((ks_tasks s current)\<lparr>tk_next := task\<rparr>)) })"

definition task_create :: "kernel_state \<Rightarrow> (u32 \<times> kernel_state) option" where
  "task_create s =
     do {
       (task, s) \<leftarrow> kernel_alloc s sizeof_task;
       if task = 0 then Some (0, s)
       else do {
         let s = put_task s task
               \<lparr>tk_id = ks_next_task_id s, tk_state = TASK_READY, tk_privilege = TASK_KERNEL, tk_process = 0,
                tk_esp = 0, tk_ebp = 0, tk_stack_base = 0, tk_context = 0, tk_next = 0\<rparr>;
         let s = s\<lparr>ks_next_task_id := ks_next_task_id s + 1\<rparr>;
         (stack, s) \<leftarrow> kernel_alloc s 4096;
         let s = put_task s task ((ks_tasks s task)\<lparr>tk_stack_base := stack\<rparr>);
         if stack = 0 then do { s \<leftarrow> kernel_free s task; Some (0, s) }
         else do { s \<leftarrow> append_task s task; Some (task, s) } } }"

definition task_create_user :: "kernel_state \<Rightarrow> u32 \<Rightarrow> u32 \<Rightarrow> (u32 \<times> kernel_state) option" where
  "task_create_user s process entry_point =
     do {
       (task, s) \<leftarrow> task_create s;
       if task = 0 then Some (0, s)
       else do {
         let s = put_task s task ((ks_tasks s task)\<lparr>tk_process := process, tk_privilege := TASK_USER\<rparr>);
         s \<leftarrow> kernel_free s (tk_stack_base (ks_tasks s task));
         let esp = USER_STACK_TOP AND NOT 0x0F;
         let s = put_task s task ((ks_tasks s task)\<lparr>tk_stack_base := USER_STACK_BASE, tk_esp := esp, tk_ebp := esp\<rparr>);
         (context, s) \<leftarrow> kernel_alloc s sizeof_task_context;
         let s = put_task s task ((ks_tasks s task)\<lparr>tk_context := context\<rparr>);
         if context = 0 then Some (task, task_set_state s task TASK_FINISHED)
         else Some (task, s\<lparr>ks_contexts := (ks_contexts s)(context :=
                \<lparr>cx_eax = 0, cx_ebx = tk_id (ks_tasks s task), cx_ecx = 0, cx_edx = 0, cx_esi = 0, cx_edi = 0,
                 cx_ebp = tk_ebp (ks_tasks s task), cx_esp = tk_esp (ks_tasks s task), cx_eip = entry_point,
                 cx_eflags = 0x202, cx_privilege = TASK_USER\<rparr>)\<rparr>) } }"

text \<open>Taking a task off the list; \<open>None\<close> inside is the task not found.\<close>

definition unlink_task :: "kernel_state \<Rightarrow> u32 \<Rightarrow> kernel_state option option" where
  "unlink_task s task =
     (if ks_task_list s = task then Some (Some (s\<lparr>ks_task_list := next_task s task\<rparr>))
      else do {
        previous \<leftarrow> chain_find (next_task s) (\<lambda>a. next_task s a = task) (ks_task_list s);
        Some (if previous = 0 then None
              else Some (put_task s previous ((ks_tasks s previous)\<lparr>tk_next := next_task s task\<rparr>))) })"

definition task_destroy :: "kernel_state \<Rightarrow> u32 \<Rightarrow> kernel_state option" where
  "task_destroy s task =
     (if task = 0 \<or> task = ks_current_task s then Some s
      else do {
        unlinked \<leftarrow> unlink_task s task;
        case unlinked of
          None \<Rightarrow> Some s
        | Some s \<Rightarrow>
            do {
              s \<leftarrow> (if tk_context (ks_tasks s task) \<noteq> 0
                   then do {
                     s \<leftarrow> kernel_free s (tk_context (ks_tasks s task));
                     Some (put_task s task ((ks_tasks s task)\<lparr>tk_context := 0\<rparr>)) }
                   else Some s);
              s \<leftarrow> (if tk_stack_base (ks_tasks s task) \<noteq> 0 \<and> tk_stack_base (ks_tasks s task) \<noteq> USER_STACK_BASE
                   then kernel_free s (tk_stack_base (ks_tasks s task)) else Some s);
              let s = put_task s task ((ks_tasks s task)\<lparr>tk_stack_base := 0, tk_process := 0, tk_next := 0\<rparr>);
              kernel_free s task } })"

subsection \<open>Processes\<close>

definition address_space_create :: "kernel_state \<Rightarrow> (u32 \<times> kernel_state) option" where
  "address_space_create s =
     do {
       (address_space, s) \<leftarrow> kernel_alloc s sizeof_address_space;
       if address_space = 0 then Some (0, s)
       else do {
         (directory, s) \<leftarrow> kernel_alloc_aligned s (1024 * 4);
         let s = put_space s address_space ((ks_spaces s address_space)\<lparr>ha_page_directory := directory\<rparr>);
         if directory = 0 then do { s \<leftarrow> kernel_free s address_space; Some (0, s) }
         else do {
           let s = s\<lparr>ks_directories := (ks_directories s)(directory := replicate 1024 0)\<rparr>;
           (tables, s) \<leftarrow> kernel_alloc_aligned s (PAGE_TABLE_COUNT * 1024 * 4);
           let s = put_space s address_space ((ks_spaces s address_space)\<lparr>ha_page_tables := tables\<rparr>);
           if tables = 0 then do {
             s \<leftarrow> kernel_free s (ha_page_directory (ks_spaces s address_space));
             s \<leftarrow> kernel_free s address_space;
             Some (0, s) }
           else do {
             let s = s\<lparr>ks_tables := (ks_tables s)(tables := replicate (unat PAGE_TABLE_COUNT) (replicate 1024 0)),
                       ks_directories := (ks_directories s)(directory :=
                         map (\<lambda>table. (tables + of_nat table * 0x1000) OR PAGE_PRESENT OR PAGE_WRITABLE)
                           [0..<unat PAGE_TABLE_COUNT] @ drop (unat PAGE_TABLE_COUNT) (ks_directories s directory))\<rparr>;
             Some (address_space,
               put_space s address_space ((ks_spaces s address_space)\<lparr>ha_page_table_count := PAGE_TABLE_COUNT\<rparr>)) } } } }"

definition process_create :: "kernel_state \<Rightarrow> (u32 \<times> kernel_state) option" where
  "process_create s =
     do {
       (process, s) \<leftarrow> kernel_alloc s sizeof_process;
       if process = 0 then Some (0, s)
       else do {
         let s = put_process s process ((ks_processes s process)
               \<lparr>pr_pid := ks_next_process_id s, pr_state := TASK_READY, pr_privilege := TASK_USER,
                pr_uid := INITRAOS_DEFAULT_UID, pr_gid := INITRAOS_DEFAULT_GID\<rparr>);
         let s = s\<lparr>ks_next_process_id := ks_next_process_id s + 1\<rparr>;
         (address_space, s) \<leftarrow> address_space_create s;
         let s = put_process s process ((ks_processes s process)\<lparr>pr_address_space := address_space\<rparr>);
         if address_space = 0 then do { s \<leftarrow> kernel_free s process; Some (0, s) }
         else do {
           (task, s) \<leftarrow> task_create_user s process USER_CODE_BASE;
           let s = put_process s process ((ks_processes s process)\<lparr>pr_task := task\<rparr>);
           if task = 0 then do {
             s \<leftarrow> kernel_free s (pr_address_space (ks_processes s process));
             s \<leftarrow> kernel_free s process;
             Some (0, s) }
           else Some (process, s) } } }"

definition process_destroy :: "kernel_state \<Rightarrow> u32 \<Rightarrow> kernel_state option" where
  "process_destroy s process =
     (if process = 0 then Some s
      else do {
        s \<leftarrow> (if pr_task (ks_processes s process) \<noteq> 0
             then do {
               s \<leftarrow> task_destroy s (pr_task (ks_processes s process));
               Some (put_process s process ((ks_processes s process)\<lparr>pr_task := 0\<rparr>)) }
             else Some s);
        s \<leftarrow> (let as = pr_address_space (ks_processes s process)
             in if as \<noteq> 0
                then do {
                  s \<leftarrow> (if ha_page_tables (ks_spaces s as) \<noteq> 0
                       then kernel_free s (ha_page_tables (ks_spaces s as)) else Some s);
                  s \<leftarrow> (if ha_page_directory (ks_spaces s as) \<noteq> 0
                       then kernel_free s (ha_page_directory (ks_spaces s as)) else Some s);
                  s \<leftarrow> kernel_free s as;
                  Some (put_process s process ((ks_processes s process)\<lparr>pr_address_space := 0\<rparr>)) }
                else Some s);
        kernel_free s process })"

text \<open>The result is the return value; \<open>syscall_exit\<close> calls it for the current task.\<close>

definition process_terminate :: "kernel_state \<Rightarrow> u32 \<Rightarrow> bool \<times> kernel_state" where
  "process_terminate s task =
     (if task = 0 \<or> ks_current_task s = 0 \<or> task \<noteq> ks_current_task s then (False, s)
      else if tk_state (ks_tasks s task) \<noteq> TASK_RUNNING then (False, s)
      else
        let s = task_set_state s task TASK_FINISHED; process = tk_process (ks_tasks s task)
        in (True, if process \<noteq> 0
                  then put_process s process ((ks_processes s process)\<lparr>pr_state := TASK_FINISHED\<rparr>)
                  else s))"

subsection \<open>The scheduler\<close>

partial_function (option) schedule_loop :: "kernel_state \<Rightarrow> u32 \<Rightarrow> u32 \<Rightarrow> u32 option" where
  "schedule_loop s start task =
     (if tk_state (ks_tasks s task) = TASK_READY then Some task
      else
        let task = next_task s task; task = (if task = 0 then ks_task_list s else task)
        in if task \<noteq> start then schedule_loop s start task else Some 0)"

declare schedule_loop.simps [code]

definition task_schedule_next :: "kernel_state \<Rightarrow> u32 option" where
  "task_schedule_next s =
     (if ks_task_list s = 0 then Some 0
      else
        let start = (if ks_current_task s \<noteq> 0 \<and> next_task s (ks_current_task s) \<noteq> 0
                     then next_task s (ks_current_task s) else ks_task_list s)
        in schedule_loop s start start)"

definition scheduler_tick :: "kernel_state \<Rightarrow> kernel_state option" where
  "scheduler_tick s =
     (if ks_current_task s = 0 then Some s
      else do {
        next_arg \<leftarrow> task_schedule_next s;
        if next_arg = 0 \<or> next_arg = ks_current_task s then Some s else Some s })"

end
