(* ===== verification/Task_Lists.thy ===== *)
theory Task_Lists
  imports Tasks
begin

section \<open>The scheduler's order and the life of tasks\<close>

text \<open>
  The round-robin order as a rotation of the list of tasks, the scheduler as the
  search for the first ready task in that order, and what inserting and removing
  a task does to the list.
\<close>

subsection \<open>Round-robin order\<close>

text \<open>The tasks of the list \<open>xs\<close> in the order they are considered after \<open>c\<close>.\<close>

definition turn_order :: "u32 list \<Rightarrow> u32 \<Rightarrow> u32 list" where
  "turn_order xs c =
     (if c \<in> set xs then tl (dropWhile (\<lambda>x. x \<noteq> c) xs) @ takeWhile (\<lambda>x. x \<noteq> c) xs @ [c] else xs)"

lemma turn_order_split: "distinct (as @ c # bs) \<Longrightarrow> turn_order (as @ c # bs) c = bs @ as @ [c]"
proof -
  assume d: "distinct (as @ c # bs)"
  then have "dropWhile (\<lambda>x. x \<noteq> c) (as @ c # bs) = c # bs" "takeWhile (\<lambda>x. x \<noteq> c) (as @ c # bs) = as"
    by (induction as) auto
  then show ?thesis by (simp add: turn_order_def)
qed

lemma set_turn_order [simp]: "distinct xs \<Longrightarrow> set (turn_order xs c) = set xs"
proof (cases "c \<in> set xs")
  case True
  assume d: "distinct xs"
  from True obtain as bs where "xs = as @ c # bs" by (meson split_list)
  with d show ?thesis using turn_order_split by auto
qed (simp add: turn_order_def)

lemma length_turn_order: "distinct xs \<Longrightarrow> length (turn_order xs c) = length xs"
proof (cases "c \<in> set xs")
  case True
  assume d: "distinct xs"
  from True obtain as bs where "xs = as @ c # bs" by (meson split_list)
  with d show ?thesis using turn_order_split by simp
qed (simp add: turn_order_def)

lemma split_unique: "distinct (us @ p # vs) \<Longrightarrow> xs @ p # ys = us @ p # vs \<Longrightarrow> us = xs \<and> vs = ys"
  by (metis (no_types, lifting) append_Cons_eq_iff distinct_append distinct.simps(2) not_distinct_conv_prefix)

lemma turn_order_next:
  assumes "distinct xs" and "turn_order xs c = us @ p # vs"
  shows "turn_order xs p = vs @ us @ [p]"
proof (cases "c \<in> set xs")
  case False
  then show ?thesis using assms turn_order_split by (auto simp: turn_order_def)
next
  case True
  then obtain as bs where xs: "xs = as @ c # bs" by (meson split_list)
  have o: "bs @ as @ [c] = us @ p # vs" using turn_order_split assms xs by simp
  have d: "distinct (us @ p # vs)" unfolding o [symmetric] using assms(1) xs by auto
  have "p \<in> set (bs @ as @ [c])" unfolding o by simp
  then consider b1 b2 where "bs = b1 @ p # b2" | a1 a2 where "as = a1 @ p # a2" | "p = c"
    by (auto dest: split_list)
  then show ?thesis
  proof cases
    case 1
    then have "b1 @ p # (b2 @ as @ [c]) = us @ p # vs" using o by simp
    then have "us = b1 \<and> vs = b2 @ as @ [c]" using split_unique [OF d] by blast
    then show ?thesis using turn_order_split [of "as @ c # b1" p b2] assms(1) xs 1 by simp
  next
    case 2
    then have "(bs @ a1) @ p # (a2 @ [c]) = us @ p # vs" using o by simp
    then have "us = bs @ a1 \<and> vs = a2 @ [c]" using split_unique [OF d] by blast
    then show ?thesis using turn_order_split [of a1 p "a2 @ c # bs"] assms(1) xs 2 by simp
  next
    case 3
    then have "(bs @ as) @ p # [] = us @ p # vs" using o by simp
    then have "us = bs @ as \<and> vs = []" using split_unique [OF d] by blast
    then show ?thesis using o xs 3 assms by simp
  qed
qed

text \<open>The successor the scheduler uses: the list closed to a cycle.\<close>

definition cyclic_next :: "kernel_state \<Rightarrow> u32 \<Rightarrow> u32" where
  "cyclic_next s t = (if next_task s t = 0 then ks_task_list s else next_task s t)"

definition task_chain :: "kernel_state \<Rightarrow> u32 list \<Rightarrow> bool" where
  "task_chain s xs \<longleftrightarrow> chain (next_task s) (ks_task_list s) xs 0"

lemma task_chainD:
  assumes "task_chain s xs"
  shows "distinct xs" "0 \<notin> set xs" "ks_task_list s = (if xs = [] then 0 else hd xs)"
proof -
  have c: "chain (next_task s) (ks_task_list s) xs 0" using assms by (simp add: task_chain_def)
  show "distinct xs" by (rule chain_distinct [OF c])
  show "0 \<notin> set xs" by (rule chain_nonzero [OF c])
  show "ks_task_list s = (if xs = [] then 0 else hd xs)" using c by (cases xs) auto
qed

lemma cyclic_segment:
  "chain (next_task s) m vs q \<Longrightarrow> chain (cyclic_next s) m vs (if vs \<noteq> [] \<and> q = 0 then ks_task_list s else q)"
proof (induction vs arbitrary: m)
  case (Cons b vs)
  have "next_task s b \<noteq> 0" if "vs \<noteq> []" using Cons.prems that by (cases vs) auto
  then show ?case using Cons by (cases "vs = []") (auto simp: cyclic_next_def)
qed simp

lemma cyclic_rotation:
  assumes "task_chain s (ys @ a # zs)"
  shows "chain (cyclic_next s) a ((a # zs) @ ys) a"
proof -
  from assms have "chain (next_task s) (ks_task_list s) ys a" "chain (next_task s) a (a # zs) 0" "a \<noteq> 0"
    by (auto simp: task_chain_def chain_append)
  then have "chain (cyclic_next s) (ks_task_list s) ys a" "chain (cyclic_next s) a (a # zs) (ks_task_list s)"
    using cyclic_segment [of s _ ys a] cyclic_segment [of s a "a # zs" 0] by (auto split: if_splits)
  then show ?thesis unfolding chain_append by blast
qed

definition first_ready :: "kernel_state \<Rightarrow> u32 list \<Rightarrow> u32" where
  "first_ready s xs = (case find (\<lambda>t. tk_state (ks_tasks s t) = TASK_READY) xs of None \<Rightarrow> 0 | Some t \<Rightarrow> t)"

lemma schedule_loop_eq:
  "chain (cyclic_next s) t vs a \<Longrightarrow> vs \<noteq> [] \<Longrightarrow> a \<notin> set (tl vs) \<Longrightarrow>
   schedule_loop s a t = Some (first_ready s vs)"
proof (induction vs arbitrary: t)
  case (Cons b vs)
  then have b: "t = b" "chain (cyclic_next s) (cyclic_next s b) vs a" by auto
  show ?case
  proof (cases "tk_state (ks_tasks s b) = TASK_READY")
    case True
    then show ?thesis using b by (simp add: schedule_loop.simps first_ready_def)
  next
    case False
    then have r: "schedule_loop s a t = (if cyclic_next s b \<noteq> a then schedule_loop s a (cyclic_next s b) else Some 0)"
      using b by (simp add: schedule_loop.simps [of s a b] cyclic_next_def Let_def)
    have f: "first_ready s (b # vs) = first_ready s vs" using False by (simp add: first_ready_def)
    show ?thesis
    proof (cases vs)
      case Nil
      then show ?thesis using r f b by (simp add: first_ready_def)
    next
      case (Cons d ws)
      then have "cyclic_next s b = d" "d \<noteq> a" "a \<notin> set (tl vs)" using b Cons.prems by auto
      then show ?thesis using r f Cons.IH [of "cyclic_next s b"] b(2) Cons by simp
    qed
  qed
qed simp

lemma schedule_next_eq:
  assumes c: "task_chain s xs" and cur: "ks_current_task s = 0 \<or> ks_current_task s \<in> set xs"
  shows "task_schedule_next s = Some (first_ready s (turn_order xs (ks_current_task s)))"
proof (cases "xs = []")
  case True
  then show ?thesis using task_chainD [OF c] cur by (simp add: task_schedule_next_def first_ready_def turn_order_def)
next
  case False
  note D = task_chainD [OF c]
  have l: "ks_task_list s = hd xs" "ks_task_list s \<noteq> 0" using D False hd_in_set [OF False] by (auto, metis)
  let ?c = "ks_current_task s"
  have whole: "schedule_loop s (hd xs) (hd xs) = Some (first_ready s xs)"
  proof -
    obtain a zs where xs: "xs = a # zs" using False by (cases xs) auto
    then have "chain (cyclic_next s) a ((a # zs) @ []) a" using cyclic_rotation [of s "[]" a zs] c by simp
    from schedule_loop_eq [OF this] show ?thesis using xs D(1) by simp
  qed
  show ?thesis
  proof (cases "?c \<noteq> 0 \<and> next_task s ?c \<noteq> 0")
    case False
    have "turn_order xs ?c = xs"
    proof (cases "?c = 0")
      case True
      then show ?thesis using D(2) by (simp add: turn_order_def)
    next
      case c0: False
      then have "next_task s ?c = 0" "?c \<in> set xs" using False cur by auto
      then obtain as bs where xs: "xs = as @ ?c # bs" by (meson split_list)
      then have "chain (next_task s) (next_task s ?c) bs 0" using c by (auto simp: task_chain_def chain_append)
      then have "bs = []" using \<open>next_task s ?c = 0\<close> by (cases bs) auto
      then show ?thesis using xs turn_order_split [of as ?c "[]"] D(1) by simp
    qed
    then show ?thesis using False l whole by (auto simp: task_schedule_next_def Let_def)
  next
    case True
    then have "?c \<in> set xs" using cur by auto
    then obtain as bs where xs: "xs = as @ ?c # bs" by (meson split_list)
    have ch: "chain (next_task s) (next_task s ?c) bs 0" using c xs by (metis chain_suffix task_chain_def)
    then obtain a zs where bs: "bs = a # zs" "a = next_task s ?c" using True by (cases bs) auto
    have "chain (cyclic_next s) a ((a # zs) @ (as @ [?c])) a"
      using cyclic_rotation [of s "as @ [?c]" a zs] c xs bs(1) by simp
    then have "schedule_loop s a a = Some (first_ready s ((a # zs) @ (as @ [?c])))"
      by (rule schedule_loop_eq) (use D(1) xs bs(1) in auto)
    moreover have "turn_order xs ?c = (a # zs) @ (as @ [?c])" using xs turn_order_split D(1) bs(1) by metis
    ultimately show ?thesis using True l bs(2) by (simp add: task_schedule_next_def Let_def)
  qed
qed

text \<open>Making the task the scheduler selects the current one.\<close>

definition dispatch :: "kernel_state \<Rightarrow> kernel_state" where
  "dispatch s = s\<lparr>ks_current_task := the (task_schedule_next s)\<rparr>"

lemma dispatch_frame:
  "ks_tasks (dispatch s) = ks_tasks s" "ks_task_list (dispatch s) = ks_task_list s"
  "task_chain (dispatch s) xs = task_chain s xs" "first_ready (dispatch s) = first_ready s"
  by (simp_all add: dispatch_def task_chain_def first_ready_def fun_eq_iff)

lemma first_ready_before:
  assumes "t \<in> set (take m ws)" and "tk_state (ks_tasks s t) = TASK_READY"
  obtains us p vs where "ws = us @ p # vs" "first_ready s ws = p" "length us < m" "t = p \<or> t \<in> set (take (m - length us - 1) vs)"
proof -
  have "t \<in> set ws" using assms(1) by (meson in_set_takeD)
  then obtain p where p: "find (\<lambda>t. tk_state (ks_tasks s t) = TASK_READY) ws = Some p"
    using assms(2) by (metis (mono_tags, lifting) find_None_iff option.exhaust)
  then obtain i where i: "i < length ws" "p = ws ! i" "\<forall>j<i. tk_state (ks_tasks s (ws ! j)) \<noteq> TASK_READY"
    by (auto simp: find_Some_iff)
  have ws: "ws = take i ws @ p # drop (Suc i) ws" using i by (simp add: id_take_nth_drop)
  obtain k where k: "k < m" "k < length ws" "t = ws ! k" using assms(1) by (auto simp: in_set_conv_nth)
  have ik: "i \<le> k" using i(3) k(3) assms(2) by (metis leI)
  have "t = p \<or> t \<in> set (take (m - i - 1) (drop (Suc i) ws))"
  proof (cases "k = i")
    case False
    then have "t = take (m - i - 1) (drop (Suc i) ws) ! (k - Suc i)" "k - Suc i < length (take (m - i - 1) (drop (Suc i) ws))"
      using ik k by auto
    then show ?thesis by (metis nth_mem)
  qed (use i k in simp)
  then show thesis using that [OF ws] p i(1) ik k(1) by (simp add: first_ready_def)
qed

lemma dispatch_reaches:
  assumes "task_chain s xs" and "ks_current_task s = 0 \<or> ks_current_task s \<in> set xs"
    and "t \<in> set (take m (turn_order xs (ks_current_task s)))" and "tk_state (ks_tasks s t) = TASK_READY"
  shows "\<exists>k. 0 < k \<and> k \<le> m \<and> ks_current_task ((dispatch ^^ k) s) = t"
  using assms
proof (induction m arbitrary: s rule: less_induct)
  case (less m)
  let ?ws = "turn_order xs (ks_current_task s)"
  note D = task_chainD [OF less.prems(1)]
  obtain us p vs where p: "?ws = us @ p # vs" "first_ready s ?ws = p" "length us < m"
    "t = p \<or> t \<in> set (take (m - length us - 1) vs)"
    by (rule first_ready_before [OF less.prems(3,4)])
  have cur: "ks_current_task (dispatch s) = p"
    using schedule_next_eq [OF less.prems(1,2)] p(2) by (simp add: dispatch_def)
  show ?case
  proof (cases "t = p")
    case True
    then show ?thesis using cur p(3) by (intro exI [of _ 1]) simp
  next
    case False
    have "p \<in> set xs" using set_turn_order [OF D(1), of "ks_current_task s"] p(1) by (metis in_set_conv_decomp)
    moreover have "turn_order xs p = vs @ us @ [p]" by (rule turn_order_next [OF D(1) p(1)])
    moreover have "t \<in> set (take (m - length us - 1) (vs @ us @ [p]))" using p(4) False by (auto dest: in_set_takeD)
    moreover have "m - length us - 1 < m" using p(3) by simp
    ultimately obtain k where k: "0 < k" "k \<le> m - length us - 1" "ks_current_task ((dispatch ^^ k) (dispatch s)) = t"
      using less.IH [of "m - length us - 1" "dispatch s"] less.prems(1,4) cur by (auto simp: dispatch_frame)
    then show ?thesis using p(3) by (intro exI [of _ "Suc k"]) (simp add: funpow_swap1)
  qed
qed

subsection \<open>The list of tasks under its operations\<close>

lemma put_task_simps [simp]:
  "ks_tasks (put_task s a t) = (ks_tasks s)(a := t)" "ks_heap (put_task s a t) = ks_heap s"
  "ks_task_list (put_task s a t) = ks_task_list s" "ks_current_task (put_task s a t) = ks_current_task s"
  "ks_next_task_id (put_task s a t) = ks_next_task_id s" "ks_contexts (put_task s a t) = ks_contexts s"
  "ks_processes (put_task s a t) = ks_processes s"
  by (simp_all add: put_task_def)

text \<open>The tasks except their \<open>next\<close> fields.\<close>

definition task_data :: "kernel_state \<Rightarrow> u32 \<Rightarrow> task_t" where
  "task_data s t = (ks_tasks s t)\<lparr>tk_next := 0\<rparr>"

lemma append_task_spec:
  assumes c: "task_chain s xs" and t: "t \<notin> set xs" "t \<noteq> 0" "next_task s t = 0"
  obtains s' where "append_task s t = Some s'" "task_chain s' (xs @ [t])" "task_data s' = task_data s"
    "ks_tasks s' t = ks_tasks s t" "ks_heap s' = ks_heap s" "ks_next_task_id s' = ks_next_task_id s"
    "ks_current_task s' = ks_current_task s"
proof (cases "xs = []")
  case True
  then have "ks_task_list s = 0" using c by (simp add: task_chain_def)
  then show ?thesis using True t
    by (intro that [of "s\<lparr>ks_task_list := t\<rparr>"]) (auto simp: append_task_def task_chain_def task_data_def)
next
  case False
  have ch: "chain (next_task s) (ks_task_list s) xs 0" using c by (simp add: task_chain_def)
  have l: "ks_task_list s \<noteq> 0" using task_chainD [OF c] False hd_in_set [OF False] by (auto, metis)
  let ?l = "last xs" let ?s = "put_task s ?l ((ks_tasks s ?l)\<lparr>tk_next := t\<rparr>)"
  have "chain_find (next_task s) (\<lambda>a. next_task s a = 0) (ks_task_list s) = Some ?l"
    using chain_find_eq [OF ch] find_last [OF ch False] by simp
  then have "append_task s t = Some ?s" using l by (simp add: append_task_def)
  moreover have "next_task ?s = (next_task s)(?l := t)" by auto
  then have "task_chain ?s (xs @ [t])" using chain_snoc [OF ch False t] by (simp add: task_chain_def)
  moreover have "?l \<noteq> t" using t(1) False by auto
  ultimately show ?thesis by (intro that [of ?s]) (auto simp: task_data_def)
qed

lemma unlink_task_spec:
  assumes c: "task_chain s (ys @ t # zs)"
  obtains s' where "unlink_task s t = Some (Some s')" "task_chain s' (ys @ zs)" "task_data s' = task_data s"
    "ks_heap s' = ks_heap s" "ks_current_task s' = ks_current_task s"
proof -
  have ch: "chain (next_task s) (ks_task_list s) (ys @ t # zs) 0" using c by (simp add: task_chain_def)
  show thesis
  proof (cases ys rule: rev_cases)
    case Nil
    then show ?thesis using ch
      by (intro that [of "s\<lparr>ks_task_list := next_task s t\<rparr>"]) (auto simp: unlink_task_def task_chain_def task_data_def)
  next
    case (snoc ws p)
    then have ch2: "chain (next_task s) (ks_task_list s) (ws @ p # t # zs) 0" using ch by simp
    let ?s = "put_task s p ((ks_tasks s p)\<lparr>tk_next := next_task s t\<rparr>)"
    have d: "p \<noteq> 0" "distinct (ws @ p # t # zs)" using chain_nonzero [OF ch2] chain_distinct [OF ch2] by auto
    have "hd (ws @ p # t # zs) \<noteq> t" using d(2) by (cases ws) auto
    then have nl: "ks_task_list s \<noteq> t" using ch2 by (cases ws) auto
    have "chain_find (next_task s) (\<lambda>a. next_task s a = t) (ks_task_list s) = Some p"
      using chain_find_eq [OF ch2] find_previous [OF ch2] by simp
    then have "unlink_task s t = Some (Some ?s)" using nl d(1) by (simp add: unlink_task_def)
    moreover have "next_task ?s = (next_task s)(p := next_task s t)" by auto
    then have "task_chain ?s (ys @ zs)" using chain_unlink_next [OF ch2] snoc by (simp add: task_chain_def)
    ultimately show ?thesis by (intro that [of ?s]) (auto simp: task_data_def)
  qed
qed

lemma unlink_task_absent:
  assumes c: "task_chain s xs" and t: "t \<notin> set xs" "t \<noteq> 0"
  shows "unlink_task s t = Some None"
proof -
  have ch: "chain (next_task s) (ks_task_list s) xs 0" using c by (simp add: task_chain_def)
  have nl: "ks_task_list s \<noteq> t" using task_chainD(3) [OF c] t hd_in_set [of xs] by (auto split: if_splits)
  have "next_task s x \<noteq> t" if "x \<in> set xs" for x
  proof -
    from that obtain us vs where xs: "xs = us @ x # vs" by (meson split_list)
    then have "chain (next_task s) (next_task s x) vs 0" using ch chain_suffix by metis
    then show ?thesis using t xs by (cases vs) auto
  qed
  then have "find (\<lambda>x. next_task s x = t) xs = None" by (simp add: find_None_iff)
  then show ?thesis using nl chain_find_eq [OF ch] by (simp add: unlink_task_def)
qed

lemma task_chain_frame:
  "ks_task_list s' = ks_task_list s \<Longrightarrow> (\<And>t. t \<in> set xs \<Longrightarrow> next_task s' t = next_task s t) \<Longrightarrow> task_chain s' xs = task_chain s xs"
  using chain_cong [of xs "next_task s'" "next_task s"] by (simp add: task_chain_def)

end
