(* ===== verification/Kernel_Memory.thy ===== *)
theory Kernel_Memory
  imports Heap_Blocks Paged_Heap
begin

section \<open>One contract for both heaps\<close>

text \<open>
  The kernel allocates from the block list until paging is enabled and from the
  paged heap afterwards, and releases blocks of either kind at any time. What its
  clients rely on is one contract, \<open>block_store\<close>: the blocks in use, as a map from
  addresses to sizes, that every operation updates at one address. The
  interpretation \<open>kernel_blocks\<close> shows it for \<open>heap_alloc\<close>,
  \<open>heap_alloc_paged_aligned\<close> and \<open>heap_free\<close> in both modes.
\<close>

text \<open>
  What lies outside the heap's pages is translated as before, user memory in
  particular, and no further page is open to the user. \<open>user_page\<close> is the entry of a
  page that is.
\<close>

definition user_page :: "vm_state \<Rightarrow> u32 \<Rightarrow> u32 option" where
  "user_page vm va = (case pages_of (vm_kernel_space vm) va of
     Some e \<Rightarrow> if e AND PAGE_USER \<noteq> 0 then Some e else None | None \<Rightarrow> None)"

definition same_outside :: "heap_state \<Rightarrow> heap_state \<Rightarrow> bool" where
  "same_outside h h' \<longleftrightarrow> hs_paging h' = hs_paging h \<and> (\<forall>va \<ge> HEAP_PAGED_LIMIT. translate h' va = translate h va) \<and>
     user_page (hs_vm h') \<subseteq>\<^sub>m user_page (hs_vm h)"

lemma same_outside_trans: "same_outside h h' \<Longrightarrow> same_outside h' h'' \<Longrightarrow> same_outside h h''"
  using map_le_trans [of "user_page (hs_vm h'')" "user_page (hs_vm h')" "user_page (hs_vm h)"]
  by (simp add: same_outside_def)

lemma same_outside_refl [simp]: "same_outside h h"
  by (simp add: same_outside_def)

locale block_store =
  fixes store_ok :: "heap_state \<Rightarrow> bool"
    and blocks :: "heap_state \<Rightarrow> u32 \<Rightarrow> u32 option"
  assumes blocks_zero: "store_ok h \<Longrightarrow> blocks h 0 = None"
    and alloc_law: "store_ok h \<Longrightarrow> n \<noteq> 0 \<Longrightarrow> n \<le> 0xFFFFFFF0 \<Longrightarrow>
      \<exists>r h'. heap_alloc h n = Some (r, h') \<and> store_ok h' \<and> same_outside h h' \<and>
        (if r = 0 then blocks h' = blocks h
         else blocks h r = None \<and> (\<exists>m \<ge> n. blocks h' = (blocks h)(r \<mapsto> m)))"
    and alloc_aligned_law: "store_ok h \<Longrightarrow> hs_paging h \<noteq> 0 \<Longrightarrow> n \<noteq> 0 \<Longrightarrow> n \<le> 0xFFFFFFF0 \<Longrightarrow>
      \<exists>r h'. heap_alloc_paged_aligned h n = Some (r, h') \<and> store_ok h' \<and> same_outside h h' \<and>
        (if r = 0 then blocks h' = blocks h
         else blocks h r = None \<and> unat r mod 4096 = 0 \<and> (\<exists>m \<ge> n. blocks h' = (blocks h)(r \<mapsto> m)))"
    and free_law: "store_ok h \<Longrightarrow>
      \<exists>h'. heap_free h a = Some h' \<and> store_ok h' \<and> same_outside h h' \<and> blocks h' = (blocks h)(a := None)"

subsection \<open>Pages outside the heap\<close>

definition vm_outside :: "vm_state \<Rightarrow> vm_state \<Rightarrow> bool" where
  "vm_outside vm vm' \<longleftrightarrow> (\<forall>va \<ge> 0x80000. pages_of (vm_kernel_space vm') va = pages_of (vm_kernel_space vm) va) \<and>
     user_page vm' \<subseteq>\<^sub>m user_page vm"

lemma vm_outside_trans: "vm_outside a b \<Longrightarrow> vm_outside b c \<Longrightarrow> vm_outside a c"
  using map_le_trans [of "user_page c" "user_page b" "user_page a"] by (simp add: vm_outside_def)

lemma user_page_update:
  assumes "pages_of (vm_kernel_space vm') = (\<lambda>vb. if c vb then Some e else pages_of (vm_kernel_space vm) vb)"
    and "e AND PAGE_USER = 0"
  shows "user_page vm' \<subseteq>\<^sub>m user_page vm"
  using assms by (auto simp: map_le_def user_page_def split: if_splits option.splits)

lemma heap_entry_kernel: "heap_entry f AND PAGE_USER = 0"
  by (simp add: heap_entry_def bit.conj_disj_distrib2 and.assoc)

lemma vm_outside_refl [simp]: "vm_outside vm vm"
  by (simp add: vm_outside_def)

lemma vm_owned_ok: "vm_owned vm \<Longrightarrow> vm_ok vm"
  by (simp add: vm_owned_def)

lemma heap_page_apart: "heap_page_valid p \<Longrightarrow> va \<ge> 0x80000 \<Longrightarrow> page_of p \<noteq> page_of va"
proof -
  assume a: "heap_page_valid p" "va \<ge> 0x80000"
  have "unat p div 4096 < 128" using a(1) by (simp add: heap_page_valid_iff word_less_nat_alt less_mult_imp_div_less)
  moreover have "524288 div 4096 \<le> unat va div 4096" using a(2) by (intro div_le_mono) (simp add: word_le_nat_alt)
  ultimately show "page_of p \<noteq> page_of va" by (simp add: page_of_def)
qed

lemma heap_map_page_outside:
  assumes "vm_owned vm" and m: "heap_map_page vm p = (r, vm')"
  shows "vm_outside vm vm'"
proof (cases "heap_page_valid p \<and> r")
  case True
  then obtain f where f: "pages_of (vm_kernel_space vm') = (\<lambda>vb. if page_of p = page_of vb then Some (heap_entry f)
      else pages_of (vm_kernel_space vm) vb)" using heap_map_page_spec [OF vm_owned_ok [OF assms(1)] _ m] by auto
  then show ?thesis using user_page_update [OF f heap_entry_kernel] True heap_page_apart [of p]
    by (auto simp: vm_outside_def)
next
  case False
  then have "vm' = vm" using heap_map_page_owned [OF assms] by (auto split: if_splits)
  then show ?thesis by simp
qed

lemma heap_unmap_page_outside:
  assumes own: "vm_owned vm" and u: "heap_unmap_page vm p = (r, vm')"
  shows "vm_outside vm vm'"
proof (cases "heap_page_valid p")
  case True
  have c: "as_page_table_count (vm_kernel_space vm) = PAGE_TABLE_COUNT" using own by (simp add: vm_owned_def vm_ok_def)
  obtain e where e: "pages_of (vm_kernel_space vm) p = Some e"
    using heap_page_directory [OF True] by (simp add: pages_of_def c)
  show ?thesis
    using heap_unmap_page_spec [OF vm_owned_ok [OF own] True e u] heap_page_apart [OF True] user_page_update [of vm' "\<lambda>vb. page_of p = page_of vb" 0 vm]
    by (auto simp: vm_outside_def split: if_splits)
next
  case False
  then have "vm' = vm" using u by (auto simp: heap_unmap_page_def)
  then show ?thesis by simp
qed

lemma map_pages_outside: "vm_owned vm \<Longrightarrow> map_pages vm p e n = (ok, k, vm') \<Longrightarrow> vm_outside vm vm'"
proof (induction vm p e n rule: map_pages.induct)
  case (1 vm p e n)
  show ?case
  proof (cases "p < e")
    case True
    obtain r vm1 where m: "heap_map_page vm p = (r, vm1)" by fastforce
    have o: "vm_outside vm vm1" "vm_owned vm1" using heap_map_page_outside [OF 1(2) m] heap_map_page_owned [OF 1(2) m] by auto
    show ?thesis
    proof (cases r)
      case r: True
      have "map_pages vm1 (p + HEAP_PAGE_SIZE) e (n + 1) = (ok, k, vm')"
        using 1(3) True m r by (simp add: map_pages.simps [of vm p])
      then show ?thesis using 1(1) [OF True m [symmetric] _ _ o(2)] r o(1) vm_outside_trans by blast
    qed (use 1(3) True m o(1) in \<open>simp add: map_pages.simps [of vm p]\<close>)
  qed (use 1(3) in \<open>simp add: map_pages.simps [of vm p]\<close>)
qed

lemma unmap_pages_outside:
  assumes "unmap_pages vm p e = Some vm'"
  shows "vm_owned vm \<longrightarrow> vm_outside vm vm'"
proof (rule unmap_pages.raw_induct [OF _ assms, of "\<lambda>vm p e vm'. vm_owned vm \<longrightarrow> vm_outside vm vm'"], rule impI)
  fix f vm p e vm'
  assume IH: "\<And>vm p e vm'. f vm p e = Some vm' \<Longrightarrow> vm_owned vm \<longrightarrow> vm_outside vm vm'"
    and e: "(if p < e then f (snd (heap_unmap_page vm p)) (p + HEAP_PAGE_SIZE) e else Some vm) = Some vm'" and own: "vm_owned vm"
  obtain r vm1 where u: "heap_unmap_page vm p = (r, vm1)" by fastforce
  have o: "vm_outside vm vm1" "vm_owned vm1" using heap_unmap_page_outside [OF own u] heap_unmap_page_owned [OF own u] by auto
  show "vm_outside vm vm'"
  proof (cases "p < e")
    case True
    then have "f vm1 (p + HEAP_PAGE_SIZE) e = Some vm'" using e u by simp
    then show ?thesis using IH o vm_outside_trans by blast
  qed (use e in simp)
qed

lemma map_block_outside:
  assumes own: "vm_owned (hs_vm s)" and b: "map_block s st e cl commit = Some (r, s')"
    and c: "\<And>u. hs_vm (snd (commit u)) = hs_vm u"
  shows "vm_outside (hs_vm s) (hs_vm s')"
proof -
  obtain ok n vm where m: "map_pages (hs_vm s) (page_start st) e 0 = (ok, n, vm)" by (metis prod_cases3)
  have o: "vm_outside (hs_vm s) vm" by (rule map_pages_outside [OF own m])
  show ?thesis
  proof (cases ok)
    case True
    then have "commit (s\<lparr>hs_vm := vm\<rparr>) = (r, s')" using b m by (simp add: map_block_def)
    then show ?thesis using c [of "s\<lparr>hs_vm := vm\<rparr>"] o by simp
  next
    case False
    then obtain vm2 where u: "unmap_pages vm (page_start st) (cl (n * HEAP_PAGE_SIZE)) = Some vm2" "hs_vm s' = vm2"
      using b m by (auto simp: map_block_def bind_eq_Some_conv)
    have "vm_owned vm" using map_pages_spec [OF own page_start_nat(2) m] by blast
    then show ?thesis using unmap_pages_outside [OF u(1)] o u(2) vm_outside_trans by blast
  qed
qed

lemma alloc_paged_outside:
  assumes "paged_ok s" "heap_alloc_paged s n = Some (r, s')"
  shows "vm_outside (hs_vm s) (hs_vm s')"
  using assms map_block_outside [of s]
  by (auto simp: heap_alloc_paged_def paged_ok_def Let_def split: if_splits option.splits)

lemma alloc_aligned_outside:
  assumes "paged_ok s" "heap_alloc_paged_aligned s n = Some (r, s')"
  shows "vm_outside (hs_vm s) (hs_vm s')"
  using assms map_block_outside [of s]
  by (auto simp: heap_alloc_paged_aligned_def paged_ok_def Let_def set_block_def split: if_splits option.splits)

lemma translate_outside:
  assumes "vm_ok (hs_vm h)" "vm_ok (hs_vm h')" and "vm_outside (hs_vm h) (hs_vm h')" and "hs_paging h' = hs_paging h"
  shows "same_outside h h'"
proof -
  have "translate h' va = translate h va" if "va \<ge> 0x80000" for va
  proof -
    have "pages_of (vm_kernel_space (hs_vm h')) va = pages_of (vm_kernel_space (hs_vm h)) va"
      using assms(3) that by (simp add: vm_outside_def)
    moreover have "as_page_table_count (vm_kernel_space (hs_vm h)) = PAGE_TABLE_COUNT"
      "as_page_table_count (vm_kernel_space (hs_vm h')) = PAGE_TABLE_COUNT" using assms(1,2) by (simp_all add: vm_ok_def)
    ultimately show ?thesis using assms(4) by (auto simp: translate_def pages_of_def Let_def not_le split: if_splits)
  qed
  then show ?thesis using assms(3,4) by (simp add: same_outside_def vm_outside_def)
qed

subsection \<open>How an allocation changes the table of paged blocks\<close>

lemma heap_map_block_effect:
  "map_block s st e cl commit = Some (r, s') \<Longrightarrow>
   \<exists>vm. commit (s\<lparr>hs_vm := vm\<rparr>) = (r, s') \<or> (r, s') = (0, s\<lparr>hs_vm := vm\<rparr>)"
  by (auto simp: map_block_def Let_def bind_eq_Some_conv split: prod.splits if_splits)

text \<open>
  The new block \<open>b\<close> takes a slot: one of a released block with its address, or a
  free slot for an address above everything handed out so far.
\<close>

definition slot_taken :: "heap_state \<Rightarrow> u32 \<Rightarrow> u32 \<Rightarrow> heap_state \<Rightarrow> bool" where
  "slot_taken s r n s' \<longleftrightarrow>
     (\<exists>i. i < length (hs_paged s) \<and> r \<noteq> 0 \<and> hs_pointer s \<le> hs_pointer s' \<and>
        hs_paged s' = (hs_paged s)[i := \<lparr>pb_address = r, pb_size = n, pb_free = 0\<rparr>] \<and>
        available_slot (hs_paged s ! i) \<and> (pb_address (hs_paged s ! i) = r \<or> hs_pointer s < r) \<and>
        hs_first s' = hs_first s \<and> hs_paging s' = hs_paging s \<and>
        (\<forall>a < hs_pointer s. hs_blocks s' a = hs_blocks s a))"

lemma align_size_16: "n \<le> 0xFFFFFFF0 \<Longrightarrow> unat (12 + align_size n) = 12 + unat (align_size n)"
  using align_size_nat [of n] by (simp add: unat_word_ariths word_le_nat_alt)

lemma append_position:
  fixes n p :: u32
  defines "start \<equiv> (let st = align_up_4k p in if st < HEAP_PAGED_BASE then HEAP_PAGED_BASE else st)"
  assumes p: "p \<le> 0x80000" and n: "n \<le> 0xFFFFFFF0" and e: "\<not> start + (12 + align_size n) < start" "\<not> start + (12 + align_size n) > 0x80000"
  shows "p < start + 12" "start + 12 \<noteq> 0" "p \<le> start + (12 + align_size n)"
proof -
  let ?e = "start + (12 + align_size n)"
  have ue: "unat ?e = unat start + 12 + unat (align_size n)"
    using e(1) no_wrap [of start "12 + align_size n"] align_size_16 [OF n] by (simp add: not_less)
  have le: "unat ?e \<le> 0x80000" using e(2) by (simp add: word_le_nat_alt not_less)
  have ur: "unat (start + 12) = unat start + 12" using ue le by (simp add: unat_word_ariths)
  have "unat p \<le> unat start"
    using align_up_nat [of p] p by (auto simp: start_def Let_def word_le_nat_alt word_less_nat_alt)
  then show "p < start + 12" "start + 12 \<noteq> 0" "p \<le> ?e" using ur ue by (auto simp: word_less_nat_alt word_le_nat_alt)
qed

lemma alloc_paged_effect:
  assumes ok: "paged_ok s" and n: "n \<noteq> 0" "n \<le> 0xFFFFFFF0" and a: "heap_alloc_paged s n = Some (r, s')"
  shows "(\<exists>vm. (r, s') = (0, s\<lparr>hs_vm := vm\<rparr>)) \<or> slot_taken s r (align_size n) s'"
proof (cases "find_slot (reusable_slot (align_size n)) (hs_paged s) 0")
  case (Some i)
  let ?b = "hs_paged s ! i" let ?b' = "?b\<lparr>pb_size := align_size n, pb_free := 0\<rparr>"
  from find_slot_Some [OF Some] have i: "i < length (hs_paged s)" "reusable_slot (align_size n) ?b" by auto
  have b: "\<lparr>pb_address = pb_address ?b, pb_size = align_size n, pb_free = 0\<rparr> = ?b'" by simp
  have "\<exists>st e cl. heap_alloc_paged s n = map_block s st e cl (\<lambda>s. (pb_address ?b, s\<lparr>hs_paged := (hs_paged s)[i := ?b']\<rparr>))"
    using Some n(1) by (simp add: heap_alloc_paged_def Let_def) blast
  then obtain st e cl where "map_block s st e cl (\<lambda>s. (pb_address ?b, s\<lparr>hs_paged := (hs_paged s)[i := ?b']\<rparr>)) = Some (r, s')"
    using a by auto
  from heap_map_block_effect [OF this]
  obtain vm where v: "(r, s') = (pb_address ?b, s\<lparr>hs_vm := vm, hs_paged := (hs_paged s)[i := ?b']\<rparr>) \<or>
      (r, s') = (0, s\<lparr>hs_vm := vm\<rparr>)" by auto
  show ?thesis
  proof (cases "(r, s') = (0, s\<lparr>hs_vm := vm\<rparr>)")
    case False
    then have f: "r = pb_address ?b" "s' = s\<lparr>hs_vm := vm, hs_paged := (hs_paged s)[i := ?b']\<rparr>" using v by auto
    have "hs_paged s' = (hs_paged s)[i := \<lparr>pb_address = pb_address ?b, pb_size = align_size n, pb_free = 0\<rparr>]"
      unfolding b using f(2) by simp
    moreover have "pb_address ?b \<noteq> 0" "available_slot ?b" using i(2) by (auto simp: reusable_slot_def available_slot_def)
    ultimately have "slot_taken s r (align_size n) s'" using i(1) f unfolding slot_taken_def by (intro exI [of _ i] conjI) simp_all
    then show ?thesis ..
  qed blast
next
  case None
  show ?thesis
  proof (cases "find_slot available_slot (hs_paged s) 0")
    case n2: None
    then have "(r, s') = (0, s\<lparr>hs_vm := hs_vm s\<rparr>)" using a None n(1) by (simp add: heap_alloc_paged_def Let_def)
    then show ?thesis by blast
  next
    case (Some i)
    from find_slot_Some [OF Some] have i: "i < length (hs_paged s)" "available_slot (hs_paged s ! i)" by auto
    define start where "start = (let st = align_up_4k (hs_pointer s) in if st < HEAP_PAGED_BASE then HEAP_PAGED_BASE else st)"
    let ?e = "start + (12 + align_size n)" let ?b = "\<lparr>pb_address = start + 12, pb_size = align_size n, pb_free = 0\<rparr>"
    have e: "heap_alloc_paged s n = (if ?e < start \<or> ?e > 0x80000 then Some (0, s)
        else map_block s start ?e (\<lambda>k. start + k) (\<lambda>s. (start + 12, s\<lparr>hs_paged := (hs_paged s)[i := ?b], hs_pointer := ?e\<rparr>)))"
      using None Some n(1) by (simp add: heap_alloc_paged_def Let_def start_def)
    have p: "hs_pointer s \<le> 0x80000" using ok by (simp add: paged_ok_def)
    show ?thesis
    proof (cases "?e < start \<or> ?e > 0x80000")
      case True
      then have "(r, s') = (0, s\<lparr>hs_vm := hs_vm s\<rparr>)" using a e by simp
      then show ?thesis by blast
    next
      case False
      then have "map_block s start ?e (\<lambda>k. start + k) (\<lambda>s. (start + 12, s\<lparr>hs_paged := (hs_paged s)[i := ?b], hs_pointer := ?e\<rparr>)) = Some (r, s')"
        using a e by simp
      from heap_map_block_effect [OF this]
      obtain vm where v: "(r, s') = (start + 12, s\<lparr>hs_vm := vm, hs_paged := (hs_paged s)[i := ?b], hs_pointer := ?e\<rparr>) \<or>
          (r, s') = (0, s\<lparr>hs_vm := vm\<rparr>)" by auto
      have P: "hs_pointer s < start + 12" "start + 12 \<noteq> 0" "hs_pointer s \<le> ?e"
        using append_position [OF p n(2)] False by (auto simp: start_def)
      show ?thesis
      proof (cases "(r, s') = (0, s\<lparr>hs_vm := vm\<rparr>)")
        case False
        then have "r = start + 12" "s' = s\<lparr>hs_vm := vm, hs_paged := (hs_paged s)[i := ?b], hs_pointer := ?e\<rparr>" using v by auto
        then have "slot_taken s r (align_size n) s'" using i P unfolding slot_taken_def by (intro exI [of _ i]) simp
        then show ?thesis ..
      qed blast
    qed
  qed
qed


lemma aligned_position:
  fixes n p :: u32
  defines "r \<equiv> align_up_4k (p + 12)"
  assumes p: "p \<le> 0x80000" and e: "\<not> r + n < r"
  shows "p < r" "p \<le> r - 12" "p \<le> r + n" "r \<noteq> 0"
proof -
  have "unat (p + 12) = unat p + 12" using p by (simp add: unat_word_ariths word_le_nat_alt)
  then have ur: "unat r = (unat p + 4107) div 4096 * 4096"
    using p align_up_nat [of "p + 12"] by (simp add: r_def word_le_nat_alt)
  then have g: "unat p + 12 \<le> unat r" by simp
  then have "unat (r - 12) = unat r - 12" by (simp add: unat_minus_le word_le_nat_alt)
  then show "p < r" "p \<le> r - 12" "p \<le> r + n" "r \<noteq> 0"
    using g e by (auto simp: word_less_nat_alt word_le_nat_alt not_less)
qed

lemma alloc_aligned_effect:
  assumes ok: "paged_ok s" and n: "n \<noteq> 0" and a: "heap_alloc_paged_aligned s n = Some (r, s')"
  shows "(\<exists>vm. (r, s') = (0, s\<lparr>hs_vm := vm\<rparr>)) \<or> slot_taken s r (align_size n) s'"
proof (cases "find_slot available_slot (hs_paged s) 0")
  case None
  then have "(r, s') = (0, s\<lparr>hs_vm := hs_vm s\<rparr>)" using a n by (simp add: heap_alloc_paged_aligned_def Let_def)
  then show ?thesis by blast
next
  case (Some i)
  from find_slot_Some [OF Some] have i: "i < length (hs_paged s)" "available_slot (hs_paged s ! i)" by auto
  define q where "q = align_up_4k (hs_pointer s + 12)"
  let ?n = "align_size n" let ?b = "\<lparr>pb_address = q, pb_size = ?n, pb_free = 0\<rparr>" let ?h = "\<lparr>hb_size = ?n, hb_free = 0, hb_next = 0\<rparr>"
  let ?c = "\<lambda>s. (q, (set_block s (q - 12) ?h)\<lparr>hs_paged := (hs_paged s)[i := ?b], hs_pointer := q + ?n\<rparr>)"
  have e: "heap_alloc_paged_aligned s n = (if q - 12 < 0x30000 then Some (0, s)
      else if q + ?n < q \<or> q + ?n > 0x80000 then Some (0, s) else map_block s (q - 12) (q + ?n) (\<lambda>k. q - 12 + k) ?c)"
    using Some n by (simp add: heap_alloc_paged_aligned_def Let_def q_def)
  have p: "hs_pointer s \<le> 0x80000" using ok by (simp add: paged_ok_def)
  show ?thesis
  proof (cases "q - 12 < 0x30000 \<or> q + ?n < q \<or> q + ?n > 0x80000")
    case True
    then have "(r, s') = (0, s\<lparr>hs_vm := hs_vm s\<rparr>)" using a e by (auto split: if_splits)
    then show ?thesis by blast
  next
    case False
    then have "map_block s (q - 12) (q + ?n) (\<lambda>k. q - 12 + k) ?c = Some (r, s')" using a e by simp
    from heap_map_block_effect [OF this]
    obtain vm where v: "(r, s') = ?c (s\<lparr>hs_vm := vm\<rparr>) \<or> (r, s') = (0, s\<lparr>hs_vm := vm\<rparr>)" by auto
    have P: "hs_pointer s < q" "hs_pointer s \<le> q - 12" "hs_pointer s \<le> q + ?n" "q \<noteq> 0"
      using aligned_position [OF p, of ?n] False by (auto simp: q_def)
    show ?thesis
    proof (cases "(r, s') = (0, s\<lparr>hs_vm := vm\<rparr>)")
      case False
      then have "r = q" "s' = (set_block s (q - 12) ?h)\<lparr>hs_vm := vm, hs_paged := (hs_paged s)[i := ?b], hs_pointer := q + ?n\<rparr>"
        using v by (auto simp: set_block_def)
      then have "slot_taken s r ?n s'" using i P unfolding slot_taken_def by (intro exI [of _ i]) auto
      then show ?thesis ..
    qed blast
  qed
qed

subsection \<open>The blocks in use\<close>

definition paged_size :: "heap_state \<Rightarrow> u32 \<Rightarrow> u32 option" where
  "paged_size h r =
     map_option pb_size (find (\<lambda>b. pb_address b = r \<and> r \<noteq> 0 \<and> pb_free b \<noteq> 1) (hs_paged h))"

definition live_blocks :: "heap_state \<Rightarrow> u32 \<Rightarrow> u32 option" where
  "live_blocks h = paged_size h ++ allocated h"

text \<open>
  The invariant of the kernel's memory: both heaps are well-formed, addresses of
  the two are different, and the paged heap is empty until paging is enabled.
\<close>

definition kernel_heap_ok :: "heap_state \<Rightarrow> bool" where
  "kernel_heap_ok h \<longleftrightarrow> heap_ok h \<and> paged_ok h \<and>
     (\<forall>b \<in> set (hs_paged h). pb_address b \<noteq> 0 \<longrightarrow> allocated h (pb_address b) = None) \<and>
     (hs_paging h = 0 \<longrightarrow> hs_pointer h \<le> hs_limit h \<and> hs_limit h \<le> HEAP_PAGED_LIMIT \<and>
        (\<forall>b \<in> set (hs_paged h). pb_address b = 0))"


lemma kernel_heap_okD:
  assumes "kernel_heap_ok h"
  shows "heap_ok h" "paged_ok h" "b \<in> set (hs_paged h) \<Longrightarrow> pb_address b \<noteq> 0 \<Longrightarrow> allocated h (pb_address b) = None"
  using assms by (auto simp: kernel_heap_ok_def)

lemma unique_slot:
  assumes "distinct (filter (\<lambda>a. a \<noteq> 0) (map pb_address xs))" and "b \<in> set xs" "c \<in> set xs"
    and "pb_address b = pb_address c" "pb_address b \<noteq> (0 :: u32)"
  shows "b = c"
  using assms by (induction xs) (auto split: if_splits simp: image_iff)

lemma paged_size_Some:
  assumes "paged_ok h"
  shows "paged_size h r = Some m \<longleftrightarrow> (\<exists>b \<in> set (hs_paged h). pb_address b = r \<and> r \<noteq> 0 \<and> pb_free b \<noteq> 1 \<and> pb_size b = m)"
proof
  assume "paged_size h r = Some m"
  then show "\<exists>b \<in> set (hs_paged h). pb_address b = r \<and> r \<noteq> 0 \<and> pb_free b \<noteq> 1 \<and> pb_size b = m"
    by (auto simp: paged_size_def find_Some_iff)
next
  assume "\<exists>b \<in> set (hs_paged h). pb_address b = r \<and> r \<noteq> 0 \<and> pb_free b \<noteq> 1 \<and> pb_size b = m"
  then obtain b where b: "b \<in> set (hs_paged h)" "pb_address b = r" "r \<noteq> 0" "pb_free b \<noteq> 1" "pb_size b = m" by blast
  then obtain c where c: "find (\<lambda>b. pb_address b = r \<and> r \<noteq> 0 \<and> pb_free b \<noteq> 1) (hs_paged h) = Some c"
    by (cases "find (\<lambda>b. pb_address b = r \<and> r \<noteq> 0 \<and> pb_free b \<noteq> 1) (hs_paged h)") (auto simp: find_None_iff)
  then have "c \<in> set (hs_paged h)" "pb_address c = r" by (auto simp: find_Some_iff)
  moreover have "distinct (filter (\<lambda>a. a \<noteq> 0) (map pb_address (hs_paged h)))" using assms by (simp add: paged_ok_def)
  ultimately have "c = b" using unique_slot b by metis
  then show "paged_size h r = Some m" using c b(5) by (simp add: paged_size_def)
qed

lemma paged_size_None:
  assumes "paged_ok h"
  shows "paged_size h r = None \<longleftrightarrow> (\<forall>b \<in> set (hs_paged h). pb_address b = r \<longrightarrow> r \<noteq> 0 \<longrightarrow> pb_free b = 1)"
  by (auto simp: paged_size_def find_None_iff)

text \<open>The block list is unaffected by what happens above \<open>heap_pointer\<close>.\<close>

lemma block_list_frame:
  assumes ok: "heap_ok s" and f: "hs_first s' = hs_first s" "\<forall>a < hs_pointer s. hs_blocks s' a = hs_blocks s a"
    "hs_pointer s \<le> hs_pointer s'"
  shows "heap_ok s'" "allocated s' = allocated s"
proof -
  obtain xs where l: "heap_list s xs" using ok by (auto simp: heap_ok_def)
  then have sp: "spaced (block_size s) 1 xs (unat (hs_pointer s))" by (simp add: heap_list_def)
  have same: "hs_blocks s' a = hs_blocks s a" if "a \<in> set xs" for a
    using spaced_bounds [OF sp that] f(2) by (simp add: word_less_nat_alt)
  have "chain (next_block s') (hs_first s') xs 0"
    using l f(1) same by (subst chain_cong [of xs _ "next_block s"]) (auto simp: heap_list_def)
  moreover have "spaced (block_size s') 1 xs (unat (hs_pointer s))"
    using sp same by (subst spaced_cong [of xs _ "block_size s"]) (auto simp: block_size_def)
  then have "spaced (block_size s') 1 xs (unat (hs_pointer s'))"
    by (rule spaced_weaken) (use f(3) in \<open>simp_all add: word_le_nat_alt\<close>)
  ultimately have l': "heap_list s' xs" by (simp add: heap_list_def)
  then show "heap_ok s'" by (auto simp: heap_ok_def)
  show "allocated s' = allocated s"
    using same by (auto simp: fun_eq_iff allocated_list [OF l] allocated_list [OF l'] block_size_def)
qed

lemma slot_taken_blocks:
  assumes ok: "kernel_heap_ok s" and t: "slot_taken s r n s'" and ok': "paged_ok s'" and pg: "hs_paging s \<noteq> 0"
  shows "kernel_heap_ok s'" "live_blocks s r = None" "live_blocks s' = (live_blocks s)(r \<mapsto> n)"
proof -
  let ?b = "\<lparr>pb_address = r, pb_size = n, pb_free = 0\<rparr>"
  note K = kernel_heap_okD [OF ok]
  obtain i where i: "i < length (hs_paged s)" "r \<noteq> 0" "hs_pointer s \<le> hs_pointer s'"
    "hs_paged s' = (hs_paged s)[i := ?b]" "available_slot (hs_paged s ! i)"
    "pb_address (hs_paged s ! i) = r \<or> hs_pointer s < r" "hs_first s' = hs_first s" "hs_paging s' = hs_paging s"
    "\<forall>a < hs_pointer s. hs_blocks s' a = hs_blocks s a"
    using t unfolding slot_taken_def by blast
  note B = block_list_frame [OF K(1) i(7,9,3)]
  have le: "pb_address b \<le> hs_pointer s" if "b \<in> set (hs_paged s)" for b
    using K(2) that by (simp add: paged_ok_def list_all_iff)
  have ar: "allocated s r = None"
  proof (cases "pb_address (hs_paged s ! i) = r")
    case True
    then show ?thesis using K(3) [OF nth_mem [OF i(1)]] i(2) by simp
  next
    case False
    then have "hs_pointer s < r" using i(6) by simp
    then show ?thesis using allocated_bounds [OF K(1), of r] by (cases "allocated s r") (auto simp: word_less_nat_alt)
  qed
  have owner: "b = hs_paged s ! i" if "b \<in> set (hs_paged s)" "pb_address b = r" for b
  proof (cases "pb_address (hs_paged s ! i) = r")
    case True
    then show ?thesis using unique_slot [of "hs_paged s" b "hs_paged s ! i"] K(2) that i(1,2) by (simp add: paged_ok_def)
  next
    case False
    then show ?thesis using i(6) le [OF that(1)] that(2) by simp
  qed
  have pr: "paged_size s r = None"
    using owner i(2,5) by (auto simp: paged_size_None [OF K(2)] available_slot_def)
  show "live_blocks s r = None" using ar pr by (simp add: live_blocks_def map_add_def)
  have ps: "paged_size s' = (paged_size s)(r \<mapsto> n)"
  proof
    fix q
    show "paged_size s' q = ((paged_size s)(r \<mapsto> n)) q"
    proof (cases "q = r")
      case True
      have "?b \<in> set (hs_paged s')" using i(1,4) by (simp add: set_update_memI)
      then have "paged_size s' r = Some n" using i(2) by (subst paged_size_Some [OF ok']) (rule bexI [of _ ?b]; simp)
      then show ?thesis using True by simp
    next
      case False
      have m: "b \<in> set (hs_paged s') \<longleftrightarrow> b \<in> set (hs_paged s)" if "pb_address b = q" "q \<noteq> 0" "pb_free b \<noteq> 1" for b
      proof
        assume "b \<in> set (hs_paged s')"
        then have "b = ?b \<or> b \<in> set (hs_paged s)" using set_update_subset_insert [of "hs_paged s" i ?b] i(4) by auto
        then show "b \<in> set (hs_paged s)" using that(1) False by auto
      next
        assume "b \<in> set (hs_paged s)"
        then obtain j where j: "j < length (hs_paged s)" "hs_paged s ! j = b" by (auto simp: in_set_conv_nth)
        then have "j \<noteq> i" using that i(5) by (auto simp: available_slot_def)
        then show "b \<in> set (hs_paged s')" using j i(4) by (auto simp: in_set_conv_nth intro!: exI [of _ j])
      qed
      have "paged_size s' q = Some k \<longleftrightarrow> paged_size s q = Some k" for k
        unfolding paged_size_Some [OF ok'] paged_size_Some [OF K(2)] using m by blast
      then have "paged_size s' q = paged_size s q" by (cases "paged_size s q"; cases "paged_size s' q") auto
      then show ?thesis using False by simp
    qed
  qed
  show "live_blocks s' = (live_blocks s)(r \<mapsto> n)"
    using ar by (auto simp: live_blocks_def ps B(2) fun_eq_iff map_add_def split: option.splits)
  have "allocated s' (pb_address b) = None" if "b \<in> set (hs_paged s')" "pb_address b \<noteq> 0" for b
    using that set_update_subset_insert [of "hs_paged s" i ?b] i(4) ar K(3) by (auto simp: B(2))
  then show "kernel_heap_ok s'" using B(1) ok' pg i(8) by (simp add: kernel_heap_ok_def)
qed


text \<open>Only the page tables of the heap changed.\<close>

lemma same_blocks_vm:
  assumes "kernel_heap_ok s" and "paged_ok (s\<lparr>hs_vm := vm\<rparr>)"
  shows "kernel_heap_ok (s\<lparr>hs_vm := vm\<rparr>)" "live_blocks (s\<lparr>hs_vm := vm\<rparr>) = live_blocks s"
proof -
  note B = block_list_frame [OF kernel_heap_okD(1) [OF assms(1)], of "s\<lparr>hs_vm := vm\<rparr>", simplified]
  show "kernel_heap_ok (s\<lparr>hs_vm := vm\<rparr>)" using assms by (simp add: kernel_heap_ok_def B)
  show "live_blocks (s\<lparr>hs_vm := vm\<rparr>) = live_blocks s" by (simp add: live_blocks_def paged_size_def [abs_def] B(2))
qed

text \<open>An allocation from the paged heap, of either kind.\<close>

lemma paged_alloc_blocks:
  assumes ok: "kernel_heap_ok s" and ok': "paged_ok s'" and pg: "hs_paging s \<noteq> 0" and n: "n \<le> 0xFFFFFFF0"
    and e: "(\<exists>vm. (r, s') = (0, s\<lparr>hs_vm := vm\<rparr>)) \<or> slot_taken s r (align_size n) s'"
  shows "kernel_heap_ok s' \<and> hs_paging s' = hs_paging s \<and>
    (if r = 0 then live_blocks s' = live_blocks s
     else live_blocks s r = None \<and> (\<exists>m \<ge> n. live_blocks s' = (live_blocks s)(r \<mapsto> m)))"
  using e
proof
  assume "\<exists>vm. (r, s') = (0, s\<lparr>hs_vm := vm\<rparr>)"
  then show ?thesis using same_blocks_vm [OF ok] ok' by auto
next
  assume t: "slot_taken s r (align_size n) s'"
  then have "r \<noteq> 0" "hs_paging s' = hs_paging s" by (auto simp: slot_taken_def)
  moreover have "n \<le> align_size n" by (rule align_size_ge) (use n in \<open>simp add: word_le_nat_alt\<close>)
  ultimately show ?thesis using slot_taken_blocks [OF ok t ok' pg] by auto
qed

lemma same_translation: "hs_paging h' = hs_paging h \<Longrightarrow> hs_vm h' = hs_vm h \<Longrightarrow> same_outside h h'"
  by (simp add: same_outside_def translate_def)

lemma paged_ok_vm_ok: "paged_ok h \<Longrightarrow> vm_ok (hs_vm h)"
  by (simp add: paged_ok_def vm_owned_ok)

lemma paged_size_boot: "\<forall>b \<in> set (hs_paged h). pb_address b = 0 \<Longrightarrow> paged_size h = Map.empty"
  by (auto simp: paged_size_def fun_eq_iff find_None_iff)

lemma boot_alloc_blocks:
  assumes ok: "kernel_heap_ok h" and pg: "hs_paging h = 0" and n: "n \<noteq> 0" "n \<le> 0xFFFFFFF0"
  obtains r h' where "heap_alloc h n = Some (r, h')" "kernel_heap_ok h'" "same_outside h h'"
    "if r = 0 then live_blocks h' = live_blocks h
     else live_blocks h r = None \<and> (\<exists>m \<ge> n. live_blocks h' = (live_blocks h)(r \<mapsto> m))"
proof -
  have n': "n \<le> 0xFFFFFFFC" using n(2) by (simp add: word_le_nat_alt)
  have b: "hs_pointer h \<le> hs_limit h" "hs_limit h \<le> HEAP_PAGED_LIMIT" "\<forall>b \<in> set (hs_paged h). pb_address b = 0"
    using ok pg by (auto simp: kernel_heap_ok_def)
  obtain r h' where A: "heap_alloc h n = Some (r, h')" "heap_ok h'" "same_paged h h'"
    "r = 0 \<longrightarrow> h' = h \<and> no_room h (align_size n) \<and> (\<forall>a. on_chain (next_block h) (hs_first h) a \<longrightarrow> \<not> block_fits h (align_size n) a)"
    "r \<noteq> 0 \<longrightarrow> allocated h r = None \<and> (\<exists>m \<ge> align_size n. allocated h' = (allocated h)(r \<mapsto> m))"
    "hs_pointer h \<le> hs_limit h \<longrightarrow> hs_pointer h' \<le> hs_limit h"
    by (rule heap_alloc_spec [OF kernel_heap_okD(1) [OF ok] pg n(1) n']) (rule that; assumption)
  have s: "hs_paged h' = hs_paged h" "hs_paging h' = hs_paging h" "hs_limit h' = hs_limit h" "hs_vm h' = hs_vm h"
    using A(3) by (simp_all add: same_paged_def)
  have p: "hs_pointer h' \<le> hs_limit h" using A(6) b(1) by simp
  have "paged_ok h'" using kernel_heap_okD(2) [OF ok] s order_trans [OF p b(2)] b(3)
    by (simp add: paged_ok_def list_all_iff)
  then have k: "kernel_heap_ok h'" using A(2) b s p by (simp add: kernel_heap_ok_def)
  have l: "live_blocks h = allocated h" "live_blocks h' = allocated h'"
    using paged_size_boot [OF b(3)] paged_size_boot [of h'] b(3) s(1) by (simp_all add: live_blocks_def)
  have "if r = 0 then live_blocks h' = live_blocks h
     else live_blocks h r = None \<and> (\<exists>m \<ge> n. live_blocks h' = (live_blocks h)(r \<mapsto> m))"
    unfolding l using A(4,5) order_trans [OF align_size_ge [OF n']] by auto
  then show ?thesis by (rule that [OF A(1) k same_translation [OF s(2,4)]])
qed

lemma free_blocks:
  assumes ok: "kernel_heap_ok h"
  obtains h' where "heap_free h a = Some h'" "kernel_heap_ok h'" "same_outside h h'"
    "live_blocks h' = (live_blocks h)(a := None)"
proof -
  note K = kernel_heap_okD [OF ok]
  have a0: "allocated h 0 = None" using allocated_bounds [OF K(1), of 0] by (cases "allocated h 0") auto
  consider "a = 0" | b where "a \<noteq> 0" "b \<in> set (hs_paged h)" "pb_address b = a" | "a \<noteq> 0" "paged_heap_find h a = None"
  proof (cases "paged_heap_find h a")
    case (Some i)
    then have "hs_paged h ! i \<in> set (hs_paged h)" "pb_address (hs_paged h ! i) = a"
      using find_slot_Some [OF Some [unfolded paged_heap_find_def]] by auto
    then show ?thesis using that by blast
  qed (use that in blast)
  then show ?thesis
  proof cases
    case 1
    have "live_blocks h 0 = None" using a0 by (simp add: live_blocks_def paged_size_def map_add_def find_None_iff)
    then show ?thesis using 1 ok by (intro that [of h]) (auto simp: heap_free_def fun_eq_iff)
  next
    case (2 b)
    then obtain i where i: "paged_heap_find h a = Some i" "i < length (hs_paged h)" "hs_paged h ! i = b"
      using paged_find_member [OF K(2) 2(2)] by auto
    have al: "allocated h a = None" using K(3) [OF 2(2)] 2 by simp
    show ?thesis
    proof (cases "pb_free b = 1")
      case True
      have d: "distinct (filter (\<lambda>a. a \<noteq> 0) (map pb_address (hs_paged h)))" using K(2) by (simp add: paged_ok_def)
      have "c = b" if "c \<in> set (hs_paged h)" "pb_address c = a" for c
        by (rule unique_slot [OF d that(1) 2(2)]) (simp_all add: that(2) 2(1,3))
      then have "paged_size h a = None" using True by (auto simp: paged_size_None [OF K(2)])
      then have "live_blocks h a = None" using al by (simp add: live_blocks_def map_add_def)
      moreover have "heap_free h a = Some h" using True 2(1) i by (simp add: heap_free_def)
      ultimately show ?thesis using ok by (intro that [of h]) (auto simp: fun_eq_iff)
    next
      case False
      then obtain h' where F: "heap_free h a = Some h'" "paged_ok h'"
        using heap_free_paged_spec [OF K(2) 2(2,3,1)] by auto
      then obtain vm where h': "h' = h\<lparr>hs_paged := (hs_paged h)[i := b\<lparr>pb_free := 1\<rparr>], hs_vm := vm\<rparr>"
        using 2(1) i False by (auto simp: heap_free_def Let_def bind_eq_Some_conv)
      note B = block_list_frame [OF K(1), of h', unfolded h', simplified, folded h']
      have ps: "paged_size h' q = (if q = a then None else paged_size h q)" for q
      proof (cases "q = a")
        case True
        have "pb_free c = 1" if "c \<in> set (hs_paged h')" "pb_address c = a" for c
        proof -
          have b: "b\<lparr>pb_free := 1\<rparr> \<in> set (hs_paged h')" using i(2) h' by (simp add: set_update_memI)
          have d: "distinct (filter (\<lambda>a. a \<noteq> 0) (map pb_address (hs_paged h')))" using F(2) by (simp add: paged_ok_def)
          have "c = b\<lparr>pb_free := 1\<rparr>" by (rule unique_slot [OF d that(1) b]) (simp_all add: that(2) 2(1,3))
          then show ?thesis by simp
        qed
        then show ?thesis using True by (auto simp: paged_size_None [OF F(2)])
      next
        case False
        have "c \<in> set (hs_paged h') \<longleftrightarrow> c \<in> set (hs_paged h)" if "pb_address c = q" for c
        proof
          assume "c \<in> set (hs_paged h')"
          then show "c \<in> set (hs_paged h)"
            using set_update_subset_insert [of "hs_paged h" i "b\<lparr>pb_free := 1\<rparr>"] h' that False 2(3) by auto
        next
          assume "c \<in> set (hs_paged h)"
          then obtain j where j: "j < length (hs_paged h)" "hs_paged h ! j = c" by (auto simp: in_set_conv_nth)
          then have "j \<noteq> i" using that False 2(3) i(3) by auto
          then show "c \<in> set (hs_paged h')" using j h' by (auto simp: in_set_conv_nth intro!: exI [of _ j])
        qed
        then have "paged_size h' q = Some k \<longleftrightarrow> paged_size h q = Some k" for k
          unfolding paged_size_Some [OF F(2)] paged_size_Some [OF K(2)] by blast
        then show ?thesis using False by (cases "paged_size h q"; cases "paged_size h' q") auto
      qed
      have "live_blocks h' = (live_blocks h)(a := None)"
        using al by (auto simp: live_blocks_def ps B(2) fun_eq_iff map_add_def split: option.splits)
      moreover have "kernel_heap_ok h'"
      proof -
        have "hs_paging h \<noteq> 0" using ok 2 by (auto simp: kernel_heap_ok_def)
        moreover have "allocated h' (pb_address c) = None" if "c \<in> set (hs_paged h')" "pb_address c \<noteq> 0" for c
        proof -
          have "c = b\<lparr>pb_free := 1\<rparr> \<or> c \<in> set (hs_paged h)"
            using that(1) set_update_subset_insert [of "hs_paged h" i "b\<lparr>pb_free := 1\<rparr>"] h' by auto
          then have "allocated h (pb_address c) = None" using al K(3) that(2) 2(3) by auto
          then show ?thesis unfolding B(2) .
        qed
        ultimately show ?thesis using B(1) F(2) h' by (simp add: kernel_heap_ok_def)
      qed
      moreover have "same_outside h h'"
      proof (rule translate_outside [OF paged_ok_vm_ok [OF K(2)] paged_ok_vm_ok [OF F(2)]])
        have "vm_owned (hs_vm h)" using K(2) by (simp add: paged_ok_def)
        then show "vm_outside (hs_vm h) (hs_vm h')"
          using unmap_pages_outside F(1) 2(1) i False by (fastforce simp: heap_free_def Let_def bind_eq_Some_conv)
      qed (simp add: h')
      ultimately show ?thesis using F(1) by (intro that [of h'])
    qed
  next
    case 3
    obtain h' where F: "heap_free h a = Some h'" "heap_ok h'" "same_paged h h'" "hs_pointer h' = hs_pointer h"
      "allocated h' = (allocated h)(a := None)"
      by (rule heap_free_spec [OF K(1) 3(2)]) (rule that; assumption)
    have s: "hs_paged h' = hs_paged h" "hs_paging h' = hs_paging h" "hs_limit h' = hs_limit h" "hs_vm h' = hs_vm h"
      using F(3) by (simp_all add: same_paged_def)
    have pa: "paged_size h a = None"
      using 3(2) by (auto simp: paged_heap_find_def find_slot_None paged_size_def find_None_iff)
    have "paged_size h' = paged_size h" by (simp add: paged_size_def [abs_def] s(1))
    then have "live_blocks h' = (live_blocks h)(a := None)"
      using pa by (auto simp: live_blocks_def F(5) fun_eq_iff map_add_def split: option.splits)
    moreover have "kernel_heap_ok h'" using ok F(2,4,5) s by (auto simp: kernel_heap_ok_def paged_ok_def)
    ultimately show ?thesis using F(1) same_translation [OF s(2,4)] by (intro that [of h'])
  qed
qed


subsection \<open>The contract holds in both modes\<close>

lemma live_zero: "kernel_heap_ok h \<Longrightarrow> live_blocks h 0 = None"
  using allocated_bounds [of h 0] kernel_heap_okD(1) [of h]
  by (cases "allocated h 0") (auto simp: live_blocks_def paged_size_def map_add_def find_None_iff)

lemma alloc_blocks:
  assumes ok: "kernel_heap_ok h" and n: "n \<noteq> 0" "n \<le> 0xFFFFFFF0"
  shows "\<exists>r h'. heap_alloc h n = Some (r, h') \<and> kernel_heap_ok h' \<and> same_outside h h' \<and>
        (if r = 0 then live_blocks h' = live_blocks h
         else live_blocks h r = None \<and> (\<exists>m \<ge> n. live_blocks h' = (live_blocks h)(r \<mapsto> m)))"
proof (cases "hs_paging h = 0")
  case True
  obtain r h' where A: "heap_alloc h n = Some (r, h')" "kernel_heap_ok h'" "same_outside h h'"
    "if r = 0 then live_blocks h' = live_blocks h
     else live_blocks h r = None \<and> (\<exists>m \<ge> n. live_blocks h' = (live_blocks h)(r \<mapsto> m))"
    by (rule boot_alloc_blocks [OF ok True n])
  show ?thesis by (rule exI [of _ r], rule exI [of _ h']) (intro conjI A)
next
  case False
  obtain r h' where A: "heap_alloc_paged h n = Some (r, h')" "paged_ok h'"
    using heap_alloc_paged_spec [OF kernel_heap_okD(2) [OF ok] n] by blast
  have e: "heap_alloc h n = Some (r, h')" using A(1) False by (simp add: heap_alloc_def)
  have P: "kernel_heap_ok h' \<and> hs_paging h' = hs_paging h \<and>
    (if r = 0 then live_blocks h' = live_blocks h
     else live_blocks h r = None \<and> (\<exists>m \<ge> n. live_blocks h' = (live_blocks h)(r \<mapsto> m)))"
    by (rule paged_alloc_blocks [OF ok A(2) False n(2) alloc_paged_effect [OF kernel_heap_okD(2) [OF ok] n A(1)]])
  have "same_outside h h'"
    using translate_outside [OF paged_ok_vm_ok [OF kernel_heap_okD(2) [OF ok]] paged_ok_vm_ok [OF A(2)]
        alloc_paged_outside [OF kernel_heap_okD(2) [OF ok] A(1)]] P by blast
  then show ?thesis using e P by blast
qed

lemma alloc_aligned_blocks:
  assumes ok: "kernel_heap_ok h" and pg: "hs_paging h \<noteq> 0" and n: "n \<noteq> 0" "n \<le> 0xFFFFFFF0"
  shows "\<exists>r h'. heap_alloc_paged_aligned h n = Some (r, h') \<and> kernel_heap_ok h' \<and> same_outside h h' \<and>
        (if r = 0 then live_blocks h' = live_blocks h
         else live_blocks h r = None \<and> unat r mod 4096 = 0 \<and> (\<exists>m \<ge> n. live_blocks h' = (live_blocks h)(r \<mapsto> m)))"
proof -
  obtain r h' where A: "heap_alloc_paged_aligned h n = Some (r, h')" "paged_ok h'" "r \<noteq> 0 \<longrightarrow> unat r mod 4096 = 0"
    using heap_alloc_paged_aligned_spec [OF kernel_heap_okD(2) [OF ok] n] by (metis (no_types, lifting))
  have P: "kernel_heap_ok h' \<and> hs_paging h' = hs_paging h \<and>
    (if r = 0 then live_blocks h' = live_blocks h
     else live_blocks h r = None \<and> (\<exists>m \<ge> n. live_blocks h' = (live_blocks h)(r \<mapsto> m)))"
    by (rule paged_alloc_blocks [OF ok A(2) pg n(2) alloc_aligned_effect [OF kernel_heap_okD(2) [OF ok] n(1) A(1)]])
  have "same_outside h h'"
    using translate_outside [OF paged_ok_vm_ok [OF kernel_heap_okD(2) [OF ok]] paged_ok_vm_ok [OF A(2)]
        alloc_aligned_outside [OF kernel_heap_okD(2) [OF ok] A(1)]] P by blast
  then show ?thesis using P A(1,3) by (intro exI [of _ r] exI [of _ h']) (simp split: if_splits)
qed

interpretation kernel_blocks: block_store kernel_heap_ok live_blocks
proof
  show "kernel_heap_ok h \<Longrightarrow> live_blocks h 0 = None" for h by (rule live_zero)
  show "\<exists>h'. heap_free h a = Some h' \<and> kernel_heap_ok h' \<and> same_outside h h' \<and>
      live_blocks h' = (live_blocks h)(a := None)" if "kernel_heap_ok h" for h a
    by (rule free_blocks [OF that, of a]) blast
qed (rule alloc_blocks alloc_aligned_blocks; assumption)+

end
