(* ===== verification/Task_Life.thy ===== *)
theory Task_Life
  imports Task_Lists Kernel_Memory
begin

section \<open>The life of tasks\<close>

text \<open>
  Creating and destroying tasks, kernel and user ones, as updates of the list of
  tasks and of the blocks in use. The lemmas are proved once from the contract
  \<open>block_store\<close>, so they hold before and after paging is enabled.
\<close>

text \<open>A list of tasks that are blocks in use, on a well-formed heap.\<close>

definition kernel_tasks ::
  "(heap_state \<Rightarrow> bool) \<Rightarrow> (heap_state \<Rightarrow> u32 \<Rightarrow> u32 option) \<Rightarrow> kernel_state \<Rightarrow> u32 list \<Rightarrow> bool" where
  "kernel_tasks ok blocks s xs \<longleftrightarrow> ok (ks_heap s) \<and> task_chain s xs \<and> set xs \<subseteq> dom (blocks (ks_heap s))"

text \<open>
  The part of the state that operations on tasks leave alone, with the translation
  of the addresses outside the heap.
\<close>

definition user_translation :: "heap_state \<Rightarrow> u32 \<Rightarrow> u32 option" where
  "user_translation h va = (if va \<ge> HEAP_PAGED_LIMIT then translate h va else None)"

definition process_part :: "kernel_state \<Rightarrow> (u32 \<Rightarrow> process_t) \<times> (u32 \<Rightarrow> heap_address_space) \<times> (u32 \<Rightarrow> u32 list) \<times>
    (u32 \<Rightarrow> u32 list list) \<times> u32 \<times> u32 \<times> (u32 \<Rightarrow> u32 option)" where
  "process_part s = (ks_processes s, ks_spaces s, ks_directories s, ks_tables s, ks_next_process_id s,
     hs_paging (ks_heap s), user_translation (ks_heap s))"

lemma process_part_simps [simp]:
  "process_part (put_task s a t) = process_part s"
  "process_part (s\<lparr>ks_task_list := l\<rparr>) = process_part s"
  "process_part (s\<lparr>ks_current_task := l\<rparr>) = process_part s"
  "process_part (s\<lparr>ks_next_task_id := n\<rparr>) = process_part s"
  "process_part (s\<lparr>ks_contexts := c\<rparr>) = process_part s"
  by (simp_all add: process_part_def put_task_def)

lemma process_part_heap: "same_outside (ks_heap s) h \<Longrightarrow> process_part (s\<lparr>ks_heap := h\<rparr>) = process_part s"
  by (simp add: process_part_def same_outside_def user_translation_def fun_eq_iff)

lemma process_part_translate: "process_part s' = process_part s \<Longrightarrow> va \<ge> HEAP_PAGED_LIMIT \<Longrightarrow>
    translate (ks_heap s') va = translate (ks_heap s) va"
  by (auto simp: process_part_def user_translation_def fun_eq_iff split: if_splits)

lemma append_task_part: "append_task s t = Some s' \<Longrightarrow> process_part s' = process_part s"
  by (auto simp: append_task_def bind_eq_Some_conv split: if_splits)

lemma unlink_task_part: "unlink_task s t = Some (Some s') \<Longrightarrow> process_part s' = process_part s"
  by (auto simp: unlink_task_def bind_eq_Some_conv split: if_splits)

context block_store
begin

lemma kernel_alloc_law:
  assumes "store_ok (ks_heap s)" and "n \<noteq> 0" "n \<le> 0xFFFFFFF0"
  obtains r h where "kernel_alloc s n = Some (r, s\<lparr>ks_heap := h\<rparr>)" "store_ok h"
    "process_part (s\<lparr>ks_heap := h\<rparr>) = process_part s"
    "(r = 0 \<and> blocks h = blocks (ks_heap s)) \<or>
     (r \<noteq> 0 \<and> blocks (ks_heap s) r = None \<and> (\<exists>m \<ge> n. blocks h = (blocks (ks_heap s))(r \<mapsto> m)))"
proof -
  obtain r h where "heap_alloc (ks_heap s) n = Some (r, h)" "store_ok h" "same_outside (ks_heap s) h"
    "if r = 0 then blocks h = blocks (ks_heap s)
     else blocks (ks_heap s) r = None \<and> (\<exists>m \<ge> n. blocks h = (blocks (ks_heap s))(r \<mapsto> m))"
    using alloc_law [OF assms] by blast
  then show ?thesis using process_part_heap
    by (intro that [of r h]) (simp_all add: kernel_alloc_def split: if_splits)
qed

lemma kernel_alloc_aligned_law:
  assumes "store_ok (ks_heap s)" "hs_paging (ks_heap s) \<noteq> 0" and "n \<noteq> 0" "n \<le> 0xFFFFFFF0"
  obtains r h where "kernel_alloc_aligned s n = Some (r, s\<lparr>ks_heap := h\<rparr>)" "store_ok h"
    "process_part (s\<lparr>ks_heap := h\<rparr>) = process_part s"
    "(r = 0 \<and> blocks h = blocks (ks_heap s)) \<or>
     (r \<noteq> 0 \<and> unat r mod 4096 = 0 \<and> blocks (ks_heap s) r = None \<and> (\<exists>m \<ge> n. blocks h = (blocks (ks_heap s))(r \<mapsto> m)))"
proof -
  obtain r h where "heap_alloc_paged_aligned (ks_heap s) n = Some (r, h)" "store_ok h" "same_outside (ks_heap s) h"
    "if r = 0 then blocks h = blocks (ks_heap s)
     else blocks (ks_heap s) r = None \<and> unat r mod 4096 = 0 \<and> (\<exists>m \<ge> n. blocks h = (blocks (ks_heap s))(r \<mapsto> m))"
    using alloc_aligned_law [OF assms] by blast
  then show ?thesis using process_part_heap
    by (intro that [of r h]) (simp_all add: kernel_alloc_aligned_def split: if_splits)
qed

lemma kernel_free_law:
  assumes "store_ok (ks_heap s)"
  obtains h where "kernel_free s a = Some (s\<lparr>ks_heap := h\<rparr>)" "store_ok h"
    "blocks h = (blocks (ks_heap s))(a := None)" "process_part (s\<lparr>ks_heap := h\<rparr>) = process_part s"
proof -
  obtain h where "heap_free (ks_heap s) a = Some h" "store_ok h" "same_outside (ks_heap s) h"
    "blocks h = (blocks (ks_heap s))(a := None)"
    using free_law [OF assms, of a] by blast
  then show ?thesis using process_part_heap by (intro that [of h]) (simp_all add: kernel_free_def)
qed

lemma task_create_spec:
  assumes b: "kernel_tasks store_ok blocks s xs"
  obtains r s' where "task_create s = Some (r, s')" "ks_current_task s' = ks_current_task s"
    "process_part s' = process_part s"
    "(r = 0 \<and> kernel_tasks store_ok blocks s' xs \<and> blocks (ks_heap s') = blocks (ks_heap s) \<and>
        (\<forall>t \<in> set xs. ks_tasks s' t = ks_tasks s t)) \<or>
     (r \<noteq> 0 \<and> r \<notin> set xs \<and> kernel_tasks store_ok blocks s' (xs @ [r]) \<and> ks_next_task_id s' = ks_next_task_id s + 1 \<and>
        (\<forall>t. t \<noteq> r \<longrightarrow> task_data s' t = task_data s t) \<and>
        tk_id (ks_tasks s' r) = ks_next_task_id s \<and> tk_state (ks_tasks s' r) = TASK_READY \<and>
        tk_privilege (ks_tasks s' r) = TASK_KERNEL \<and> tk_process (ks_tasks s' r) = 0 \<and> tk_context (ks_tasks s' r) = 0 \<and>
        (\<exists>m k. 36 \<le> m \<and> 4096 \<le> k \<and> tk_stack_base (ks_tasks s' r) \<noteq> 0 \<and>
           blocks (ks_heap s) r = None \<and> blocks (ks_heap s) (tk_stack_base (ks_tasks s' r)) = None \<and>
           tk_stack_base (ks_tasks s' r) \<noteq> r \<and>
           blocks (ks_heap s') = (blocks (ks_heap s))(r \<mapsto> m, tk_stack_base (ks_tasks s' r) \<mapsto> k)))"
proof -
  have bh: "store_ok (ks_heap s)" and ch: "task_chain s xs" and sub: "set xs \<subseteq> dom (blocks (ks_heap s))"
    using b by (simp_all add: kernel_tasks_def)
  have z: "(36 :: u32) \<noteq> 0" "(36 :: u32) \<le> 0xFFFFFFF0" "(4096 :: u32) \<noteq> 0" "(4096 :: u32) \<le> 0xFFFFFFF0" by simp_all
  obtain t h where A: "kernel_alloc s 36 = Some (t, s\<lparr>ks_heap := h\<rparr>)" "store_ok h"
    "process_part (s\<lparr>ks_heap := h\<rparr>) = process_part s"
    "(t = 0 \<and> blocks h = blocks (ks_heap s)) \<or>
     (t \<noteq> 0 \<and> blocks (ks_heap s) t = None \<and> (\<exists>m \<ge> 36. blocks h = (blocks (ks_heap s))(t \<mapsto> m)))"
    by (rule kernel_alloc_law [OF bh z(1,2)])
  show thesis
  proof (cases "t = 0")
    case True
    have "kernel_tasks store_ok blocks (s\<lparr>ks_heap := h\<rparr>) xs"
      using b A(2,4) True by (simp add: kernel_tasks_def task_chain_def)
    moreover have "task_create s = Some (0, s\<lparr>ks_heap := h\<rparr>)" using A(1) True by (simp add: task_create_def)
    ultimately show ?thesis using A(3,4) True by (intro that [of 0 "s\<lparr>ks_heap := h\<rparr>"]) simp_all
  next
    case t0: False
    then obtain m where m: "36 \<le> m" "blocks h = (blocks (ks_heap s))(t \<mapsto> m)" "blocks (ks_heap s) t = None"
      using A(4) by auto
    then have tx: "t \<notin> set xs" using sub by auto
    define s1 where "s1 = (put_task (s\<lparr>ks_heap := h\<rparr>) t
               \<lparr>tk_id = ks_next_task_id s, tk_state = TASK_READY, tk_privilege = TASK_KERNEL, tk_process = 0,
                tk_esp = 0, tk_ebp = 0, tk_stack_base = 0, tk_context = 0, tk_next = 0\<rparr>)
             \<lparr>ks_next_task_id := ks_next_task_id s + 1\<rparr>"
    have s1: "ks_heap s1 = h" "ks_task_list s1 = ks_task_list s" "ks_current_task s1 = ks_current_task s"
      "ks_next_task_id s1 = ks_next_task_id s + 1" "process_part s1 = process_part s" by (simp_all add: s1_def A(3))
    have "store_ok (ks_heap s1)" using A(2) s1(1) by simp
    then obtain st h2 where B: "kernel_alloc s1 4096 = Some (st, s1\<lparr>ks_heap := h2\<rparr>)" "store_ok h2"
      "process_part (s1\<lparr>ks_heap := h2\<rparr>) = process_part s"
      "(st = 0 \<and> blocks h2 = blocks h) \<or>
       (st \<noteq> 0 \<and> blocks h st = None \<and> (\<exists>k \<ge> 4096. blocks h2 = (blocks h)(st \<mapsto> k)))"
      using kernel_alloc_law [of s1, OF _ z(3,4)] unfolding s1(1,5) by metis
    let ?s2 = "put_task (s1\<lparr>ks_heap := h2\<rparr>) t ((ks_tasks s1 t)\<lparr>tk_stack_base := st\<rparr>)"
    have e: "task_create s = (if st = 0 then do { s \<leftarrow> kernel_free ?s2 t; Some (0, s) }
        else do { s \<leftarrow> append_task ?s2 t; Some (t, s) })"
      using A(1) B(1) t0 by (simp add: task_create_def s1_def Let_def)
    have d2: "ks_tasks ?s2 a = ks_tasks s a" if "a \<noteq> t" for a using that by (simp add: s1_def)
    have c2: "task_chain ?s2 xs"
      using ch by (subst task_chain_frame [of ?s2 s xs]) (use d2 tx s1(2) in auto)
    have p2: "process_part ?s2 = process_part s" using B(3) by simp
    show ?thesis
    proof (cases "st = 0")
      case True
      have "store_ok (ks_heap ?s2)" using B(2) by simp
      then obtain h3 where F: "kernel_free ?s2 t = Some (?s2\<lparr>ks_heap := h3\<rparr>)" "store_ok h3"
        "blocks h3 = (blocks (ks_heap ?s2))(t := None)" "process_part (?s2\<lparr>ks_heap := h3\<rparr>) = process_part ?s2"
        by (rule kernel_free_law)
      let ?s3 = "?s2\<lparr>ks_heap := h3\<rparr>"
      have a: "blocks h3 = blocks (ks_heap s)" using F(3) B(4) True m by (auto simp: fun_eq_iff)
      have "task_chain ?s3 xs" using c2 by (simp add: task_chain_def)
      then have "kernel_tasks store_ok blocks ?s3 xs" using F(2) a sub by (simp add: kernel_tasks_def)
      moreover have "process_part ?s3 = process_part s" using F(4) p2 by simp
      ultimately show ?thesis using e True F(1) a s1(3) d2 tx by (intro that [of 0 ?s3]) auto
    next
      case False
      then obtain k where k: "4096 \<le> k" "blocks h2 = (blocks h)(st \<mapsto> k)" "blocks h st = None" using B(4) by auto
      have n: "st \<noteq> t" "blocks (ks_heap s) st = None" using k(3) m(2) by (auto split: if_splits)
      have nt: "next_task ?s2 t = 0" by (simp add: s1_def)
      obtain s' where P: "append_task ?s2 t = Some s'" "task_chain s' (xs @ [t])" "task_data s' = task_data ?s2"
        "ks_tasks s' t = ks_tasks ?s2 t" "ks_heap s' = ks_heap ?s2" "ks_next_task_id s' = ks_next_task_id ?s2"
        "ks_current_task s' = ks_current_task ?s2" by (rule append_task_spec [OF c2 tx t0 nt])
      have h': "ks_heap s' = h2" "blocks h2 = (blocks (ks_heap s))(t \<mapsto> m, st \<mapsto> k)" using P(5) k(2) m(2) by simp_all
      have f: "tk_stack_base (ks_tasks s' t) = st" "tk_id (ks_tasks s' t) = ks_next_task_id s"
        "tk_state (ks_tasks s' t) = TASK_READY" "tk_privilege (ks_tasks s' t) = TASK_KERNEL"
        "tk_process (ks_tasks s' t) = 0" "tk_context (ks_tasks s' t) = 0" by (simp_all add: P(4) s1_def)
      have "kernel_tasks store_ok blocks s' (xs @ [t])" using P(2) h' B(2) sub by (auto simp: kernel_tasks_def)
      moreover have "\<forall>a. a \<noteq> t \<longrightarrow> task_data s' a = task_data s a" using P(3) d2 by (auto simp: task_data_def)
      moreover have "\<exists>m k. 36 \<le> m \<and> 4096 \<le> k \<and> st \<noteq> 0 \<and> blocks (ks_heap s) t = None \<and>
          blocks (ks_heap s) st = None \<and> st \<noteq> t \<and> blocks (ks_heap s') = (blocks (ks_heap s))(t \<mapsto> m, st \<mapsto> k)"
        using m(1,3) k(1) n h' False by (intro exI [of _ m] exI [of _ k]) simp
      moreover have "ks_next_task_id s' = ks_next_task_id s + 1" "ks_current_task s' = ks_current_task s"
        using P(6,7) s1 by simp_all
      moreover have "process_part s' = process_part s" using append_task_part [OF P(1)] p2 by simp
      ultimately show ?thesis using e False P(1) t0 tx f by (intro that [of t s']) simp_all
    qed
  qed
qed

text \<open>Destroying a task of the list that is not the current one.\<close>

lemma task_destroy_spec:
  assumes b: "kernel_tasks store_ok blocks s xs" and t: "t \<in> set xs" "t \<noteq> ks_current_task s"
  obtains s' where "task_destroy s t = Some s'" "task_chain s' (remove1 t xs)" "store_ok (ks_heap s')"
    "ks_current_task s' = ks_current_task s" "\<forall>a. a \<noteq> t \<longrightarrow> task_data s' a = task_data s a"
    "blocks (ks_heap s') = (\<lambda>r. if r = t \<or> r = tk_context (ks_tasks s t) \<or>
        r = tk_stack_base (ks_tasks s t) \<and> r \<noteq> USER_STACK_BASE then None else blocks (ks_heap s) r)"
    "process_part s' = process_part s"
proof -
  have bh: "store_ok (ks_heap s)" and ch: "task_chain s xs" using b by (simp_all add: kernel_tasks_def)
  note D = task_chainD [OF ch]
  have t0: "t \<noteq> 0" using t(1) D(2) by auto
  obtain ys zs where xs: "xs = ys @ t # zs" using t(1) by (meson split_list)
  have rm: "remove1 t xs = ys @ zs" using D(1) xs by (simp add: remove1_append)
  obtain s1 where U: "unlink_task s t = Some (Some s1)" "task_chain s1 (ys @ zs)" "task_data s1 = task_data s"
    "ks_heap s1 = ks_heap s" "ks_current_task s1 = ks_current_task s" by (rule unlink_task_spec [OF ch [unfolded xs]])
  have p1: "process_part s1 = process_part s" by (rule unlink_task_part [OF U(1)])
  have d1: "tk_context (ks_tasks s1 t) = tk_context (ks_tasks s t)" "tk_stack_base (ks_tasks s1 t) = tk_stack_base (ks_tasks s t)"
    using arg_cong [OF fun_cong [OF U(3), of t], of tk_context] arg_cong [OF fun_cong [OF U(3), of t], of tk_stack_base]
    by (simp_all add: task_data_def)
  let ?c = "tk_context (ks_tasks s t)" and ?b = "tk_stack_base (ks_tasks s t)"
  have z: "blocks (ks_heap s) 0 = None" by (rule blocks_zero [OF bh])
  define S2 where "S2 = (if ?c \<noteq> 0 then do { s \<leftarrow> kernel_free s1 ?c; Some (put_task s t ((ks_tasks s t)\<lparr>tk_context := 0\<rparr>)) } else Some s1)"
  obtain s2 where S2: "S2 = Some s2" "store_ok (ks_heap s2)" "blocks (ks_heap s2) = (blocks (ks_heap s))(?c := None)"
    "ks_task_list s2 = ks_task_list s1" "ks_current_task s2 = ks_current_task s" "tk_stack_base (ks_tasks s2 t) = ?b"
    "\<forall>a. a \<noteq> t \<longrightarrow> ks_tasks s2 a = ks_tasks s1 a" "process_part s2 = process_part s"
  proof (cases "?c = 0")
    case True
    then show ?thesis using bh U(4,5) d1 z p1 by (intro that [of s1]) (auto simp: S2_def fun_eq_iff)
  next
    case False
    have "store_ok (ks_heap s1)" using bh U(4) by simp
    then obtain h where F: "kernel_free s1 ?c = Some (s1\<lparr>ks_heap := h\<rparr>)" "store_ok h" "blocks h = (blocks (ks_heap s1))(?c := None)"
      "process_part (s1\<lparr>ks_heap := h\<rparr>) = process_part s1" by (rule kernel_free_law)
    then show ?thesis using False U(4,5) d1 p1
      by (intro that [of "put_task (s1\<lparr>ks_heap := h\<rparr>) t ((ks_tasks s1 t)\<lparr>tk_context := 0\<rparr>)"]) (auto simp: S2_def)
  qed
  define S3 where "S3 = (if ?b \<noteq> 0 \<and> ?b \<noteq> USER_STACK_BASE then kernel_free s2 ?b else Some s2)"
  obtain h3 where S3: "S3 = Some (s2\<lparr>ks_heap := h3\<rparr>)" "store_ok h3"
    "blocks h3 = (\<lambda>r. if r = ?c \<or> r = ?b \<and> r \<noteq> USER_STACK_BASE then None else blocks (ks_heap s) r)"
    "process_part (s2\<lparr>ks_heap := h3\<rparr>) = process_part s"
  proof (cases "?b \<noteq> 0 \<and> ?b \<noteq> USER_STACK_BASE")
    case True
    obtain h where "kernel_free s2 ?b = Some (s2\<lparr>ks_heap := h\<rparr>)" "store_ok h" "blocks h = (blocks (ks_heap s2))(?b := None)"
      "process_part (s2\<lparr>ks_heap := h\<rparr>) = process_part s2" by (rule kernel_free_law [OF S2(2)])
    then show ?thesis using True S2(3,8) by (intro that [of h]) (auto simp: S3_def fun_eq_iff)
  next
    case False
    then show ?thesis using S2(2,3,8) z by (intro that [of "ks_heap s2"]) (auto simp: S3_def fun_eq_iff)
  qed
  let ?s4 = "put_task (s2\<lparr>ks_heap := h3\<rparr>) t ((ks_tasks s2 t)\<lparr>tk_stack_base := 0, tk_process := 0, tk_next := 0\<rparr>)"
  have "store_ok (ks_heap ?s4)" using S3(2) by simp
  then obtain h5 where F: "kernel_free ?s4 t = Some (?s4\<lparr>ks_heap := h5\<rparr>)" "store_ok h5" "blocks h5 = (blocks (ks_heap ?s4))(t := None)"
    "process_part (?s4\<lparr>ks_heap := h5\<rparr>) = process_part ?s4" by (rule kernel_free_law)
  let ?s5 = "?s4\<lparr>ks_heap := h5\<rparr>"
  have "task_destroy s t = Some ?s5"
  proof -
    have "task_destroy s t = do { s \<leftarrow> S2; s \<leftarrow> (if tk_stack_base (ks_tasks s t) \<noteq> 0 \<and> tk_stack_base (ks_tasks s t) \<noteq> USER_STACK_BASE
                   then kernel_free s (tk_stack_base (ks_tasks s t)) else Some s);
              kernel_free (put_task s t ((ks_tasks s t)\<lparr>tk_stack_base := 0, tk_process := 0, tk_next := 0\<rparr>)) t }"
      using t0 t(2) U(1) d1(1) by (simp add: task_destroy_def S2_def Let_def)
    moreover have "(if tk_stack_base (ks_tasks s2 t) \<noteq> 0 \<and> tk_stack_base (ks_tasks s2 t) \<noteq> USER_STACK_BASE
        then kernel_free s2 (tk_stack_base (ks_tasks s2 t)) else Some s2) = S3" by (simp add: S3_def S2(6))
    ultimately show ?thesis by (simp only: S2(1) S3(1) F(1) bind.bind_lunit)  (simp add: F(1))
  qed
  moreover have "task_chain ?s5 (remove1 t xs)"
  proof -
    have "t \<notin> set (ys @ zs)" using D(1) xs by auto
    then show ?thesis unfolding rm using U(2) S2(4,7)
      by (subst task_chain_frame [of ?s5 s1]) auto
  qed
  moreover have "\<forall>a. a \<noteq> t \<longrightarrow> task_data ?s5 a = task_data s a"
    using S2(7) U(3) by (auto simp: task_data_def fun_eq_iff)
  moreover have "process_part ?s5 = process_part s" using F(4) S3(4) by simp
  ultimately show thesis using F(2,3) S2(5) S3(3) by (intro that [of ?s5]) (auto simp: fun_eq_iff)
qed

text \<open>A user task: its kernel stack is given back, a context is added when there is room.\<close>

lemma task_create_user_spec:
  assumes b: "kernel_tasks store_ok blocks s xs"
  obtains r s' where "task_create_user s p e = Some (r, s')" "ks_current_task s' = ks_current_task s"
    "process_part s' = process_part s"
    "(r = 0 \<and> kernel_tasks store_ok blocks s' xs \<and> blocks (ks_heap s') = blocks (ks_heap s) \<and>
        (\<forall>t \<in> set xs. ks_tasks s' t = ks_tasks s t)) \<or>
     (r \<noteq> 0 \<and> r \<notin> set xs \<and> kernel_tasks store_ok blocks s' (xs @ [r]) \<and>
        (\<forall>t. t \<noteq> r \<longrightarrow> task_data s' t = task_data s t) \<and> blocks (ks_heap s) r = None \<and>
        tk_id (ks_tasks s' r) = ks_next_task_id s \<and> tk_privilege (ks_tasks s' r) = TASK_USER \<and>
        tk_process (ks_tasks s' r) = p \<and> tk_stack_base (ks_tasks s' r) = USER_STACK_BASE \<and>
        (\<exists>m \<ge> 36. if tk_context (ks_tasks s' r) = 0
           then tk_state (ks_tasks s' r) = TASK_FINISHED \<and> blocks (ks_heap s') = (blocks (ks_heap s))(r \<mapsto> m)
           else tk_state (ks_tasks s' r) = TASK_READY \<and> tk_context (ks_tasks s' r) \<noteq> r \<and>
             blocks (ks_heap s) (tk_context (ks_tasks s' r)) = None \<and>
             cx_eip (ks_contexts s' (tk_context (ks_tasks s' r))) = e \<and>
             cx_esp (ks_contexts s' (tk_context (ks_tasks s' r))) = USER_STACK_TOP \<and>
             cx_privilege (ks_contexts s' (tk_context (ks_tasks s' r))) = TASK_USER \<and>
             (\<exists>k \<ge> 44. blocks (ks_heap s') = (blocks (ks_heap s))(r \<mapsto> m, tk_context (ks_tasks s' r) \<mapsto> k))))"
proof -
  obtain t s1 where C: "task_create s = Some (t, s1)" "ks_current_task s1 = ks_current_task s"
    "process_part s1 = process_part s"
    "(t = 0 \<and> kernel_tasks store_ok blocks s1 xs \<and> blocks (ks_heap s1) = blocks (ks_heap s) \<and>
        (\<forall>t \<in> set xs. ks_tasks s1 t = ks_tasks s t)) \<or>
     (t \<noteq> 0 \<and> t \<notin> set xs \<and> kernel_tasks store_ok blocks s1 (xs @ [t]) \<and> ks_next_task_id s1 = ks_next_task_id s + 1 \<and>
        (\<forall>a. a \<noteq> t \<longrightarrow> task_data s1 a = task_data s a) \<and>
        tk_id (ks_tasks s1 t) = ks_next_task_id s \<and> tk_state (ks_tasks s1 t) = TASK_READY \<and>
        tk_privilege (ks_tasks s1 t) = TASK_KERNEL \<and> tk_process (ks_tasks s1 t) = 0 \<and> tk_context (ks_tasks s1 t) = 0 \<and>
        (\<exists>m k. 36 \<le> m \<and> 4096 \<le> k \<and> tk_stack_base (ks_tasks s1 t) \<noteq> 0 \<and>
           blocks (ks_heap s) t = None \<and> blocks (ks_heap s) (tk_stack_base (ks_tasks s1 t)) = None \<and>
           tk_stack_base (ks_tasks s1 t) \<noteq> t \<and>
           blocks (ks_heap s1) = (blocks (ks_heap s))(t \<mapsto> m, tk_stack_base (ks_tasks s1 t) \<mapsto> k)))"
    by (rule task_create_spec [OF b])
  show thesis
  proof (cases "t = 0")
    case True
    then show ?thesis using C by (intro that [of 0 s1]) (simp_all add: task_create_user_def)
  next
    case t0: False
    let ?b = "tk_stack_base (ks_tasks s1 t)"
    from C(4) t0 obtain m k0 where T: "t \<notin> set xs" "kernel_tasks store_ok blocks s1 (xs @ [t])"
      "\<forall>a. a \<noteq> t \<longrightarrow> task_data s1 a = task_data s a" "tk_id (ks_tasks s1 t) = ks_next_task_id s" "36 \<le> m"
      "tk_state (ks_tasks s1 t) = TASK_READY" "blocks (ks_heap s) t = None" "blocks (ks_heap s) ?b = None" "?b \<noteq> t"
      "blocks (ks_heap s1) = (blocks (ks_heap s))(t \<mapsto> m, ?b \<mapsto> k0)" by auto
    have ch: "task_chain s1 (xs @ [t])" and sub: "set xs \<subseteq> dom (blocks (ks_heap s))"
      using T(2) b by (simp_all add: kernel_tasks_def)
    define s2 where "s2 = put_task s1 t ((ks_tasks s1 t)\<lparr>tk_process := p, tk_privilege := TASK_USER\<rparr>)"
    have "store_ok (ks_heap s2)" using T(2) by (simp add: kernel_tasks_def s2_def)
    then obtain h3 where F: "kernel_free s2 ?b = Some (s2\<lparr>ks_heap := h3\<rparr>)" "store_ok h3"
      "blocks h3 = (blocks (ks_heap s2))(?b := None)" "process_part (s2\<lparr>ks_heap := h3\<rparr>) = process_part s2"
      by (rule kernel_free_law)
    have bl3: "blocks h3 = (blocks (ks_heap s))(t \<mapsto> m)" using F(3) T(8-10) by (auto simp: s2_def fun_eq_iff)
    define s3 where "s3 = put_task (s2\<lparr>ks_heap := h3\<rparr>) t ((ks_tasks s2 t)\<lparr>tk_stack_base := USER_STACK_BASE,
        tk_esp := USER_STACK_TOP AND NOT 0x0F, tk_ebp := USER_STACK_TOP AND NOT 0x0F\<rparr>)"
    have z: "(44 :: u32) \<noteq> 0" "(44 :: u32) \<le> 0xFFFFFFF0" by simp_all
    have "store_ok (ks_heap s3)" using F(2) by (simp add: s3_def)
    from kernel_alloc_law [OF this z]
    obtain c h4 where A: "kernel_alloc s3 44 = Some (c, s3\<lparr>ks_heap := h4\<rparr>)" "store_ok h4"
      "process_part (s3\<lparr>ks_heap := h4\<rparr>) = process_part s3"
      "(c = 0 \<and> blocks h4 = blocks (ks_heap s3)) \<or>
       (c \<noteq> 0 \<and> blocks (ks_heap s3) c = None \<and> (\<exists>k \<ge> 44. blocks h4 = (blocks (ks_heap s3))(c \<mapsto> k)))" .
    have bl: "blocks (ks_heap s3) = (blocks (ks_heap s))(t \<mapsto> m)" using bl3 by (simp add: s3_def)
    define s4 where "s4 = put_task (s3\<lparr>ks_heap := h4\<rparr>) t ((ks_tasks s3 t)\<lparr>tk_context := c\<rparr>)"
    define s5 where "s5 = (if c = 0 then task_set_state s4 t TASK_FINISHED
      else s4\<lparr>ks_contexts := (ks_contexts s4)(c := \<lparr>cx_eax = 0, cx_ebx = tk_id (ks_tasks s4 t), cx_ecx = 0, cx_edx = 0, cx_esi = 0, cx_edi = 0,
                 cx_ebp = tk_ebp (ks_tasks s4 t), cx_esp = tk_esp (ks_tasks s4 t), cx_eip = e,
                 cx_eflags = 0x202, cx_privilege = TASK_USER\<rparr>)\<rparr>)"
    have r: "task_create_user s p e = Some (t, s5)"
      using C(1) t0 F(1) A(1) by (simp add: task_create_user_def Let_def s2_def s3_def s4_def s5_def)
    have h5: "ks_heap s5 = h4" "ks_current_task s5 = ks_current_task s" "ks_task_list s5 = ks_task_list s1"
      "process_part s5 = process_part s"
      using A(3) F(4) C(2,3) t0 by (simp_all add: s5_def s4_def s3_def s2_def task_set_state_def)
    have d5: "ks_tasks s5 a = ks_tasks s1 a" if "a \<noteq> t" for a
      using that by (simp add: s5_def s4_def s3_def s2_def task_set_state_def)
    have n5: "next_task s5 a = next_task s1 a" for a
      by (simp add: s5_def s4_def s3_def s2_def task_set_state_def)
    have ch5: "task_chain s5 (xs @ [t])" using ch h5(3) n5 by (subst task_chain_frame [of s5 s1]) auto
    have f5: "tk_id (ks_tasks s5 t) = ks_next_task_id s" "tk_privilege (ks_tasks s5 t) = TASK_USER"
      "tk_process (ks_tasks s5 t) = p" "tk_stack_base (ks_tasks s5 t) = USER_STACK_BASE" "tk_context (ks_tasks s5 t) = c"
      "tk_state (ks_tasks s5 t) = (if c = 0 then TASK_FINISHED else TASK_READY)"
      using t0 T(4,6) by (simp_all add: s5_def s4_def s3_def s2_def task_set_state_def)
    have x5: "cx_eip (ks_contexts s5 c) = e" "cx_esp (ks_contexts s5 c) = USER_STACK_TOP" "cx_privilege (ks_contexts s5 c) = TASK_USER"
      if "c \<noteq> 0" using that by (simp_all add: s5_def s4_def s3_def)
    have "set (xs @ [t]) \<subseteq> dom (blocks h4)" using A(4) bl sub by auto
    then have k5: "kernel_tasks store_ok blocks s5 (xs @ [t])" using A(2) ch5 h5(1) by (simp add: kernel_tasks_def)
    have td: "\<forall>a. a \<noteq> t \<longrightarrow> task_data s5 a = task_data s a" using T(3) d5 by (simp add: task_data_def)
    have U: "\<exists>m \<ge> 36. if tk_context (ks_tasks s5 t) = 0 then tk_state (ks_tasks s5 t) = TASK_FINISHED \<and> blocks (ks_heap s5) = (blocks (ks_heap s))(t \<mapsto> m)
        else tk_state (ks_tasks s5 t) = TASK_READY \<and> tk_context (ks_tasks s5 t) \<noteq> t \<and> blocks (ks_heap s) (tk_context (ks_tasks s5 t)) = None \<and>
          cx_eip (ks_contexts s5 (tk_context (ks_tasks s5 t))) = e \<and> cx_esp (ks_contexts s5 (tk_context (ks_tasks s5 t))) = USER_STACK_TOP \<and>
          cx_privilege (ks_contexts s5 (tk_context (ks_tasks s5 t))) = TASK_USER \<and>
          (\<exists>k \<ge> 44. blocks (ks_heap s5) = (blocks (ks_heap s))(t \<mapsto> m, tk_context (ks_tasks s5 t) \<mapsto> k))"
      unfolding f5(5) using A(4) T(5) bl f5(6) x5 h5(1) by (intro exI [of _ m]) (auto split: if_splits)
    show ?thesis
      by (rule that [OF r h5(2,4)], rule disjI2, intro conjI t0 T(1,7) k5 td f5(1-4) U)
  qed
qed

end

end
