(* ===== verification/Process_Life.thy ===== *)
theory Process_Life
  imports Task_Life
begin

section \<open>The life of processes\<close>

text \<open>
  Creating a process with its own page directory, page tables and user task, and
  destroying it, again from the contract of the kernel's memory.
\<close>

text \<open>The part of the state that operations on address spaces leave alone.\<close>

definition task_part :: "kernel_state \<Rightarrow> (u32 \<Rightarrow> task_t) \<times> (u32 \<Rightarrow> task_context_t) \<times> (u32 \<Rightarrow> process_t) \<times> u32 \<times> u32 \<times> u32 \<times> u32" where
  "task_part s = (ks_tasks s, ks_contexts s, ks_processes s, ks_task_list s, ks_current_task s,
     ks_next_task_id s, ks_next_process_id s)"

lemma task_part_simps [simp]:
  "task_part (s\<lparr>ks_heap := h\<rparr>) = task_part s"
  "task_part (put_space s a x) = task_part s"
  "task_part (s\<lparr>ks_directories := d\<rparr>) = task_part s"
  "task_part (s\<lparr>ks_tables := t\<rparr>) = task_part s"
  by (simp_all add: task_part_def put_space_def)

lemma put_space_simps [simp]:
  "ks_heap (put_space s a x) = ks_heap s" "ks_spaces (put_space s a x) = (ks_spaces s)(a := x)"
  "ks_directories (put_space s a x) = ks_directories s" "ks_tables (put_space s a x) = ks_tables s"
  by (simp_all add: put_space_def)

lemma put_process_simps [simp]:
  "ks_heap (put_process s a x) = ks_heap s" "ks_processes (put_process s a x) = (ks_processes s)(a := x)"
  "ks_spaces (put_process s a x) = ks_spaces s" "ks_next_process_id (put_process s a x) = ks_next_process_id s"
  "ks_tasks (put_process s a x) = ks_tasks s" "ks_task_list (put_process s a x) = ks_task_list s"
  "ks_current_task (put_process s a x) = ks_current_task s"
  "ks_directories (put_process s a x) = ks_directories s" "ks_tables (put_process s a x) = ks_tables s"
  by (simp_all add: put_process_def)

text \<open>A new address space: nothing mapped by its tables, the directory pointing to them.\<close>

definition fresh_space :: "kernel_state \<Rightarrow> u32 \<Rightarrow> bool" where
  "fresh_space s r \<longleftrightarrow>
     (let d = ha_page_directory (ks_spaces s r); t = ha_page_tables (ks_spaces s r)
      in ha_page_table_count (ks_spaces s r) = PAGE_TABLE_COUNT \<and>
         ks_tables s t = replicate 4 (replicate 1024 0) \<and>
         ks_directories s d = map (\<lambda>i. (t + of_nat i * 0x1000) OR PAGE_PRESENT OR PAGE_WRITABLE) [0..<4] @ replicate 1020 0 \<and>
         unat d mod 4096 = 0 \<and> unat t mod 4096 = 0)"

text \<open>The addresses of the blocks that belong to a process.\<close>

definition owned :: "kernel_state \<Rightarrow> u32 \<Rightarrow> u32 set" where
  "owned s r =
     (let a = pr_address_space (ks_processes s r); t = pr_task (ks_processes s r)
      in {r, a, ha_page_directory (ks_spaces s a), ha_page_tables (ks_spaces s a), t, tk_context (ks_tasks s t)} - {0})"

text \<open>Clearing entries of a map, as a restriction of it.\<close>

lemma clear_one: "m(x := None) = m |` (- {x})"
  by (auto simp: restrict_map_def)

lemma clear_six: "m(t := None, c := None, p := None, d := None, a := None, r := None) = m |` (- {r, a, d, p, t, c})"
  unfolding clear_one restrict_restrict by (rule arg_cong [where f = "\<lambda>A. m |` A"]) blast

lemma restrict_added: "(\<And>x. x \<in> A \<Longrightarrow> n x = None) \<Longrightarrow> (\<And>x. x \<notin> A \<Longrightarrow> m x = n x) \<Longrightarrow> m |` (- A) = n"
  by (auto simp: restrict_map_def)

lemma restrict_nonzero: "m 0 = None \<Longrightarrow> m |` (- A) = m |` (- (A - {0}))"
  by (auto simp: restrict_map_def)

context block_store
begin

lemma address_space_create_spec:
  assumes ok: "store_ok (ks_heap s)" and pg: "hs_paging (ks_heap s) \<noteq> 0"
  obtains r s' where "address_space_create s = Some (r, s')" "task_part s' = task_part s" "store_ok (ks_heap s')"
    "hs_paging (ks_heap s') = hs_paging (ks_heap s)"
    "(r = 0 \<and> blocks (ks_heap s') = blocks (ks_heap s)) \<or>
     (r \<noteq> 0 \<and> fresh_space s' r \<and> (\<exists>d t m k j. ks_spaces s' r = \<lparr>ha_page_directory = d, ha_page_tables = t, ha_page_table_count = PAGE_TABLE_COUNT\<rparr> \<and>
        distinct [0, r, d, t] \<and> (\<forall>a \<in> {r, d, t}. blocks (ks_heap s) a = None) \<and> 12 \<le> m \<and> 4096 \<le> k \<and> 16384 \<le> j \<and>
        blocks (ks_heap s') = (blocks (ks_heap s))(r \<mapsto> m, d \<mapsto> k, t \<mapsto> j)))"
proof -
  have z: "(12 :: u32) \<noteq> 0" "(12 :: u32) \<le> 0xFFFFFFF0" "(4096 :: u32) \<noteq> 0" "(4096 :: u32) \<le> 0xFFFFFFF0"
    "(16384 :: u32) \<noteq> 0" "(16384 :: u32) \<le> 0xFFFFFFF0" by simp_all
  let ?B = "blocks (ks_heap s)"
  have pp: "hs_paging h = hs_paging (ks_heap u)" if "process_part (u\<lparr>ks_heap := h\<rparr>) = process_part u" for u h
    using that by (simp add: process_part_def)
  obtain r h1 where A: "kernel_alloc s 12 = Some (r, s\<lparr>ks_heap := h1\<rparr>)" "store_ok h1"
    "process_part (s\<lparr>ks_heap := h1\<rparr>) = process_part s"
    "(r = 0 \<and> blocks h1 = ?B) \<or> (r \<noteq> 0 \<and> ?B r = None \<and> (\<exists>m \<ge> 12. blocks h1 = ?B(r \<mapsto> m)))"
    by (rule kernel_alloc_law [OF ok z(1,2)])
  note p1 = pp [OF A(3)]
  show thesis
  proof (cases "r = 0")
    case True
    then show ?thesis using A p1 by (intro that [of 0 "s\<lparr>ks_heap := h1\<rparr>"]) (simp_all add: address_space_create_def)
  next
    case r0: False
    then obtain m where m: "12 \<le> m" "blocks h1 = ?B(r \<mapsto> m)" "?B r = None" using A(4) by auto
    define s1 where "s1 = s\<lparr>ks_heap := h1\<rparr>"
    have s1: "store_ok (ks_heap s1)" "hs_paging (ks_heap s1) \<noteq> 0" "task_part s1 = task_part s" "ks_heap s1 = h1"
      using A(2) p1 pg by (simp_all add: s1_def)
    obtain d h2 where B: "kernel_alloc_aligned s1 4096 = Some (d, s1\<lparr>ks_heap := h2\<rparr>)" "store_ok h2"
      "process_part (s1\<lparr>ks_heap := h2\<rparr>) = process_part s1"
      "(d = 0 \<and> blocks h2 = blocks (ks_heap s1)) \<or>
       (d \<noteq> 0 \<and> unat d mod 4096 = 0 \<and> blocks (ks_heap s1) d = None \<and> (\<exists>k \<ge> 4096. blocks h2 = (blocks (ks_heap s1))(d \<mapsto> k)))"
      by (rule kernel_alloc_aligned_law [OF s1(1,2) z(3,4)])
    have p2: "hs_paging h2 = hs_paging (ks_heap s)" using pp [OF B(3)] p1 by (simp add: s1_def)
    define s2 where "s2 = put_space (s1\<lparr>ks_heap := h2\<rparr>) r ((ks_spaces s1 r)\<lparr>ha_page_directory := d\<rparr>)"
    have s2: "store_ok (ks_heap s2)" "task_part s2 = task_part s" "ks_heap s2 = h2" using B(2) s1(3) by (simp_all add: s2_def)
    have e1: "address_space_create s = (if d = 0 then do { s \<leftarrow> kernel_free s2 r; Some (0, s) }
        else do {
           (tables, s) \<leftarrow> kernel_alloc_aligned (s2\<lparr>ks_directories := (ks_directories s2)(d := replicate 1024 0)\<rparr>) 16384;
           let s = put_space s r ((ks_spaces s r)\<lparr>ha_page_tables := tables\<rparr>);
           if tables = 0 then do {
             s \<leftarrow> kernel_free s (ha_page_directory (ks_spaces s r));
             s \<leftarrow> kernel_free s r;
             Some (0, s) }
           else do {
             let s = s\<lparr>ks_tables := (ks_tables s)(tables := replicate (unat PAGE_TABLE_COUNT) (replicate 1024 0)),
                       ks_directories := (ks_directories s)(d :=
                         map (\<lambda>table. (tables + of_nat table * 0x1000) OR PAGE_PRESENT OR PAGE_WRITABLE)
                           [0..<unat PAGE_TABLE_COUNT] @ drop (unat PAGE_TABLE_COUNT) (ks_directories s d))\<rparr>;
             Some (r, put_space s r ((ks_spaces s r)\<lparr>ha_page_table_count := PAGE_TABLE_COUNT\<rparr>)) } })"
      using A(1) B(1) r0 by (simp add: address_space_create_def s1_def s2_def Let_def)
    show ?thesis
    proof (cases "d = 0")
      case True
      obtain h3 where F: "kernel_free s2 r = Some (s2\<lparr>ks_heap := h3\<rparr>)" "store_ok h3" "blocks h3 = (blocks (ks_heap s2))(r := None)"
        "process_part (s2\<lparr>ks_heap := h3\<rparr>) = process_part s2" by (rule kernel_free_law [OF s2(1)])
      have "blocks h3 = ?B" using F(3) B(4) True m s1(4) s2(3) by (auto simp: fun_eq_iff)
      moreover have "hs_paging h3 = hs_paging (ks_heap s)" using pp [OF F(4)] p2 s2(3) by simp
      ultimately show ?thesis using e1 True F(1,2) s2(2) by (intro that [of 0 "s2\<lparr>ks_heap := h3\<rparr>"]) simp_all
    next
      case d0: False
      then obtain k where k: "4096 \<le> k" "blocks h2 = ?B(r \<mapsto> m, d \<mapsto> k)" "unat d mod 4096 = 0" "?B d = None" "d \<noteq> r"
        using B(4) m(2) s1(4) by (auto split: if_splits)
      define s3 where "s3 = s2\<lparr>ks_directories := (ks_directories s2)(d := replicate 1024 0)\<rparr>"
      have s3: "store_ok (ks_heap s3)" "hs_paging (ks_heap s3) \<noteq> 0" "task_part s3 = task_part s" "ks_heap s3 = h2"
        using s2 p2 pg by (simp_all add: s3_def)
      obtain t h4 where T: "kernel_alloc_aligned s3 16384 = Some (t, s3\<lparr>ks_heap := h4\<rparr>)" "store_ok h4"
        "process_part (s3\<lparr>ks_heap := h4\<rparr>) = process_part s3"
        "(t = 0 \<and> blocks h4 = blocks (ks_heap s3)) \<or>
         (t \<noteq> 0 \<and> unat t mod 4096 = 0 \<and> blocks (ks_heap s3) t = None \<and> (\<exists>j \<ge> 16384. blocks h4 = (blocks (ks_heap s3))(t \<mapsto> j)))"
        by (rule kernel_alloc_aligned_law [OF s3(1,2) z(5,6)])
      have p4: "hs_paging h4 = hs_paging (ks_heap s)" using pp [OF T(3)] p2 s3(4) by simp
      define s4 where "s4 = put_space (s3\<lparr>ks_heap := h4\<rparr>) r ((ks_spaces s3 r)\<lparr>ha_page_tables := t\<rparr>)"
      have s4: "store_ok (ks_heap s4)" "task_part s4 = task_part s" "ks_heap s4 = h4" "ha_page_directory (ks_spaces s4 r) = d"
        using T(2) s3(3) by (simp_all add: s4_def s3_def s2_def)
      have e2: "address_space_create s = (if t = 0 then do {
             s \<leftarrow> kernel_free s4 d;
             s \<leftarrow> kernel_free s r;
             Some (0, s) }
           else
             let s = s4\<lparr>ks_tables := (ks_tables s4)(t := replicate (unat PAGE_TABLE_COUNT) (replicate 1024 0)),
                       ks_directories := (ks_directories s4)(d :=
                         map (\<lambda>table. (t + of_nat table * 0x1000) OR PAGE_PRESENT OR PAGE_WRITABLE)
                           [0..<unat PAGE_TABLE_COUNT] @ drop (unat PAGE_TABLE_COUNT) (ks_directories s4 d))\<rparr>
             in Some (r, put_space s r ((ks_spaces s r)\<lparr>ha_page_table_count := PAGE_TABLE_COUNT\<rparr>)))"
        using e1 d0 T(1) by (simp add: s3_def [symmetric] s4_def [symmetric] s4(4) del: put_space_simps)
      show ?thesis
      proof (cases "t = 0")
        case True
        obtain h5 where F: "kernel_free s4 d = Some (s4\<lparr>ks_heap := h5\<rparr>)" "store_ok h5" "blocks h5 = (blocks (ks_heap s4))(d := None)"
          "process_part (s4\<lparr>ks_heap := h5\<rparr>) = process_part s4" by (rule kernel_free_law [OF s4(1)])
        let ?s5 = "s4\<lparr>ks_heap := h5\<rparr>"
        have "store_ok (ks_heap ?s5)" using F(2) by simp
        then obtain h6 where G: "kernel_free ?s5 r = Some (?s5\<lparr>ks_heap := h6\<rparr>)" "store_ok h6" "blocks h6 = (blocks (ks_heap ?s5))(r := None)"
          "process_part (?s5\<lparr>ks_heap := h6\<rparr>) = process_part ?s5" by (rule kernel_free_law)
        have "blocks h6 = ?B" using G(3) F(3) T(4) True k m(3) s4(3) s3(4) by (auto simp: fun_eq_iff)
        moreover have "hs_paging h6 = hs_paging (ks_heap s)" using pp [OF G(4)] pp [OF F(4)] p4 s4(3) by simp
        moreover have "address_space_create s = Some (0, ?s5\<lparr>ks_heap := h6\<rparr>)"
          using e2 True F(1) G(1) by simp
        ultimately show ?thesis using G(2) s4(2) by (intro that [of 0 "?s5\<lparr>ks_heap := h6\<rparr>"]) simp_all
      next
        case t0: False
        then obtain j where j: "16384 \<le> j" "blocks h4 = ?B(r \<mapsto> m, d \<mapsto> k, t \<mapsto> j)" "unat t mod 4096 = 0" "?B t = None" "t \<noteq> r" "t \<noteq> d"
          using T(4) k(2) s3(4) by (auto split: if_splits)
        define s6 where "s6 = s4\<lparr>ks_tables := (ks_tables s4)(t := replicate 4 (replicate 1024 0)),
            ks_directories := (ks_directories s4)(d :=
              map (\<lambda>i. (t + of_nat i * 0x1000) OR PAGE_PRESENT OR PAGE_WRITABLE) [0..<4] @ drop 4 (ks_directories s4 d))\<rparr>"
        let ?s7 = "put_space s6 r ((ks_spaces s6 r)\<lparr>ha_page_table_count := PAGE_TABLE_COUNT\<rparr>)"
        have e: "address_space_create s = Some (r, ?s7)"
          using e2 t0 by (simp add: s6_def Let_def)
        have sp: "ks_spaces ?s7 r = \<lparr>ha_page_directory = d, ha_page_tables = t, ha_page_table_count = PAGE_TABLE_COUNT\<rparr>"
          by (simp add: s6_def s4_def s3_def s2_def)
        have "drop 4 (replicate 1024 (0 :: u32)) = replicate 1020 0" by (simp add: drop_replicate)
        then have "fresh_space ?s7 r" unfolding fresh_space_def Let_def sp using k(3) j(3)
          by (simp add: s6_def s4_def s3_def)
        moreover have "task_part ?s7 = task_part s" using s4(2) by (simp add: s6_def task_part_def put_space_def)
        moreover have "\<exists>d t m k j. ks_spaces ?s7 r = \<lparr>ha_page_directory = d, ha_page_tables = t, ha_page_table_count = PAGE_TABLE_COUNT\<rparr> \<and>
          distinct [0, r, d, t] \<and> (\<forall>a \<in> {r, d, t}. ?B a = None) \<and> 12 \<le> m \<and> 4096 \<le> k \<and> 16384 \<le> j \<and>
          blocks (ks_heap ?s7) = ?B(r \<mapsto> m, d \<mapsto> k, t \<mapsto> j)"
          by (rule exI [of _ d], rule exI [of _ t], rule exI [of _ m], rule exI [of _ k], rule exI [of _ j])
            (use sp r0 d0 t0 m k j s4(3) in \<open>simp add: s6_def\<close>)
        ultimately show ?thesis using e r0 T(2) p4 s4(3) by (intro that [of r ?s7]) (simp_all add: s6_def)
      qed
    qed
  qed
qed

text \<open>Releasing an address the kernel holds, unless it is NULL.\<close>

lemma kernel_free_unless_zero:
  assumes "store_ok (ks_heap s)"
  obtains h where "(if a \<noteq> 0 then kernel_free s a else Some s) = Some (s\<lparr>ks_heap := h\<rparr>)" "store_ok h"
    "blocks h = (blocks (ks_heap s))(a := None)"
proof (cases "a = 0")
  case True
  then show ?thesis using assms blocks_zero [OF assms] by (intro that [of "ks_heap s"]) (auto simp: fun_eq_iff)
next
  case False
  then show ?thesis using kernel_free_law [OF assms, of a] that by (metis (full_types))
qed

lemma process_destroy_spec:
  fixes s r
  defines "t \<equiv> pr_task (ks_processes s r)" and "a \<equiv> pr_address_space (ks_processes s r)"
  assumes k: "kernel_tasks store_ok blocks s xs" and r: "r \<noteq> 0" "a \<noteq> 0"
    and t: "t \<in> set xs" "t \<noteq> ks_current_task s" "tk_stack_base (ks_tasks s t) = USER_STACK_BASE"
    and sep: "(set xs - {t}) \<inter> owned s r = {}"
  obtains s' where "process_destroy s r = Some s'" "kernel_tasks store_ok blocks s' (remove1 t xs)"
    "blocks (ks_heap s') = blocks (ks_heap s) |` (- owned s r)" "ks_current_task s' = ks_current_task s"
    "\<forall>x. x \<noteq> t \<longrightarrow> task_data s' x = task_data s x"
proof -
  have ch: "task_chain s xs" and sub: "set xs \<subseteq> dom (blocks (ks_heap s))" and ok: "store_ok (ks_heap s)"
    using k by (simp_all add: kernel_tasks_def)
  have t0: "t \<noteq> 0" using t(1) task_chainD(2) [OF ch] by auto
  let ?d = "ha_page_directory (ks_spaces s a)" and ?p = "ha_page_tables (ks_spaces s a)" and ?c = "tk_context (ks_tasks s t)"
  let ?B = "blocks (ks_heap s)"
  obtain s1 where D: "task_destroy s t = Some s1" "task_chain s1 (remove1 t xs)" "store_ok (ks_heap s1)"
    "ks_current_task s1 = ks_current_task s" "\<forall>x. x \<noteq> t \<longrightarrow> task_data s1 x = task_data s x"
    "blocks (ks_heap s1) = (\<lambda>x. if x = t \<or> x = ?c \<or> x = tk_stack_base (ks_tasks s t) \<and> x \<noteq> USER_STACK_BASE then None else ?B x)"
    "process_part s1 = process_part s"
    by (rule task_destroy_spec [OF k t(1,2)])
  define s2 where "s2 = put_process s1 r ((ks_processes s1 r)\<lparr>pr_task := 0\<rparr>)"
  have s2: "store_ok (ks_heap s2)" "pr_address_space (ks_processes s2 r) = a" "ks_spaces s2 = ks_spaces s"
    "blocks (ks_heap s2) = ?B(t := None, ?c := None)"
    using D(3,6,7) t(3) by (auto simp: s2_def process_part_def a_def fun_eq_iff)
  obtain h3 where F3: "(if ?p \<noteq> 0 then kernel_free s2 ?p else Some s2) = Some (s2\<lparr>ks_heap := h3\<rparr>)" "store_ok h3"
    "blocks h3 = (blocks (ks_heap s2))(?p := None)" by (rule kernel_free_unless_zero [OF s2(1)])
  let ?s3 = "s2\<lparr>ks_heap := h3\<rparr>"
  have "store_ok (ks_heap ?s3)" using F3(2) by simp
  then obtain h4 where F4: "(if ?d \<noteq> 0 then kernel_free ?s3 ?d else Some ?s3) = Some (?s3\<lparr>ks_heap := h4\<rparr>)" "store_ok h4"
    "blocks h4 = (blocks (ks_heap ?s3))(?d := None)" by (rule kernel_free_unless_zero)
  let ?s4 = "?s3\<lparr>ks_heap := h4\<rparr>"
  have "store_ok (ks_heap ?s4)" using F4(2) by simp
  then obtain h5 where F5: "kernel_free ?s4 a = Some (?s4\<lparr>ks_heap := h5\<rparr>)" "store_ok h5"
    "blocks h5 = (blocks (ks_heap ?s4))(a := None)" by (rule kernel_free_law)
  let ?s5 = "put_process (?s4\<lparr>ks_heap := h5\<rparr>) r ((ks_processes s2 r)\<lparr>pr_address_space := 0\<rparr>)"
  have "store_ok (ks_heap ?s5)" using F5(2) by simp
  then obtain h6 where F6: "kernel_free ?s5 r = Some (?s5\<lparr>ks_heap := h6\<rparr>)" "store_ok h6"
    "blocks h6 = (blocks (ks_heap ?s5))(r := None)" by (rule kernel_free_law)
  let ?s6 = "?s5\<lparr>ks_heap := h6\<rparr>"
  have "process_destroy s r = Some ?s6"
  proof -
    let ?a = "pr_address_space (ks_processes s2 r)"
    have "?a \<noteq> 0" using s2(2) r(2) by simp
    then have "process_destroy s r = do {
        s \<leftarrow> (if ha_page_tables (ks_spaces s2 ?a) \<noteq> 0 then kernel_free s2 (ha_page_tables (ks_spaces s2 ?a)) else Some s2);
        s \<leftarrow> (if ha_page_directory (ks_spaces s ?a) \<noteq> 0 then kernel_free s (ha_page_directory (ks_spaces s ?a)) else Some s);
        s \<leftarrow> kernel_free s ?a;
        kernel_free (put_process s r ((ks_processes s r)\<lparr>pr_address_space := 0\<rparr>)) r }"
      using r t0 D(1) by (simp add: process_destroy_def t_def [symmetric] s2_def [symmetric] Let_def)
    note e = this [unfolded s2(2,3)]
    have sp3: "ks_spaces ?s3 = ks_spaces s" by (simp add: s2(3))
    have "(if ha_page_directory (ks_spaces ?s3 a) \<noteq> 0 then kernel_free ?s3 (ha_page_directory (ks_spaces ?s3 a)) else Some ?s3) =
        Some (?s3\<lparr>ks_heap := h4\<rparr>)" unfolding sp3 by (rule F4(1))
    then show ?thesis using e by (simp only: F3(1) F5(1) bind.bind_lunit) (simp add: F6(1) [simplified])
  qed
  moreover have bl: "blocks (ks_heap ?s6) = ?B |` (- owned s r)"
  proof -
    have "blocks (ks_heap ?s6) = ?B(t := None, ?c := None, ?p := None, ?d := None, a := None, r := None)"
      using F6(3) F5(3) F4(3) F3(3) s2(4) by simp
    also have "\<dots> = ?B |` (- {r, a, ?d, ?p, t, ?c})" by (rule clear_six)
    also have "\<dots> = ?B |` (- owned s r)" unfolding owned_def Let_def t_def [symmetric] a_def [symmetric]
      by (rule restrict_nonzero) (rule blocks_zero [OF ok])
    finally show ?thesis .
  qed
  moreover have "task_chain ?s6 (remove1 t xs)" using D(2) by (simp add: task_chain_def s2_def put_process_def)
  moreover have "set (remove1 t xs) \<subseteq> dom (blocks (ks_heap ?s6))"
    using sub sep task_chainD(1) [OF ch] unfolding bl by (auto simp: restrict_map_def subset_iff domIff)
  moreover have "\<forall>x. x \<noteq> t \<longrightarrow> task_data ?s6 x = task_data s x" using D(5) by (simp add: task_data_def s2_def)
  ultimately show ?thesis using F6(2) D(4) by (intro that [of ?s6]) (simp_all add: kernel_tasks_def s2_def)
qed

text \<open>
  Creating a process. When the user task cannot be created the blocks of the page
  directory and the page tables stay in use.
\<close>

lemma process_create_spec:
  assumes k: "kernel_tasks store_ok blocks s xs" and pg: "hs_paging (ks_heap s) \<noteq> 0"
  obtains r s' where "process_create s = Some (r, s')" "ks_current_task s' = ks_current_task s"
    "(r = 0 \<and> kernel_tasks store_ok blocks s' xs \<and> blocks (ks_heap s) \<subseteq>\<^sub>m blocks (ks_heap s') \<and>
        (\<forall>t \<in> set xs. ks_tasks s' t = ks_tasks s t)) \<or>
     (r \<noteq> 0 \<and> (let p = ks_processes s' r; t = pr_task p; a = pr_address_space p
        in t \<notin> set xs \<and> kernel_tasks store_ok blocks s' (xs @ [t]) \<and> (\<forall>x \<in> set xs. task_data s' x = task_data s x) \<and>
           pr_pid p = ks_next_process_id s \<and> ks_next_process_id s' = ks_next_process_id s + 1 \<and>
           pr_state p = TASK_READY \<and> pr_privilege p = TASK_USER \<and> pr_uid p = INITRAOS_DEFAULT_UID \<and> pr_gid p = INITRAOS_DEFAULT_GID \<and>
           tk_process (ks_tasks s' t) = r \<and> tk_privilege (ks_tasks s' t) = TASK_USER \<and> tk_stack_base (ks_tasks s' t) = USER_STACK_BASE \<and>
           (tk_context (ks_tasks s' t) \<noteq> 0 \<longrightarrow> cx_eip (ks_contexts s' (tk_context (ks_tasks s' t))) = USER_CODE_BASE) \<and>
           fresh_space s' a \<and> distinct [0, r, t, a, ha_page_directory (ks_spaces s' a), ha_page_tables (ks_spaces s' a)] \<and>
           owned s' r \<subseteq> dom (blocks (ks_heap s')) \<and> blocks (ks_heap s') |` (- owned s' r) = blocks (ks_heap s)))"
    "hs_paging (ks_heap s') = hs_paging (ks_heap s)"
    "r \<noteq> 0 \<longrightarrow> (let t = ks_tasks s' (pr_task (ks_processes s' r))
       in tk_state t = (if tk_context t = 0 then TASK_FINISHED else TASK_READY))"
proof -
  have ok: "store_ok (ks_heap s)" and ch: "task_chain s xs" and sub: "set xs \<subseteq> dom (blocks (ks_heap s))"
    using k by (simp_all add: kernel_tasks_def)
  let ?B = "blocks (ks_heap s)"
  have z: "(28 :: u32) \<noteq> 0" "(28 :: u32) \<le> 0xFFFFFFF0" by simp_all
  obtain r h1 where A: "kernel_alloc s 28 = Some (r, s\<lparr>ks_heap := h1\<rparr>)" "store_ok h1"
    "process_part (s\<lparr>ks_heap := h1\<rparr>) = process_part s"
    "(r = 0 \<and> blocks h1 = ?B) \<or> (r \<noteq> 0 \<and> ?B r = None \<and> (\<exists>m \<ge> 28. blocks h1 = ?B(r \<mapsto> m)))"
    by (rule kernel_alloc_law [OF ok z])
  show thesis
  proof (cases "r = 0")
    case True
    have "kernel_tasks store_ok blocks (s\<lparr>ks_heap := h1\<rparr>) xs" using k A(2,4) True by (simp add: kernel_tasks_def task_chain_def)
    moreover have "process_create s = Some (0, s\<lparr>ks_heap := h1\<rparr>)" using A(1) True by (simp add: process_create_def)
    moreover have "hs_paging h1 = hs_paging (ks_heap s)" using A(3) by (simp add: process_part_def)
    ultimately show ?thesis using A(4) True by (intro that [of 0 "s\<lparr>ks_heap := h1\<rparr>"]) simp_all
  next
    case r0: False
    then obtain m where m: "blocks h1 = ?B(r \<mapsto> m)" "?B r = None" using A(4) by auto
    define s1 where "s1 = (put_process (s\<lparr>ks_heap := h1\<rparr>) r ((ks_processes s r)
        \<lparr>pr_pid := ks_next_process_id s, pr_state := TASK_READY, pr_privilege := TASK_USER,
         pr_uid := INITRAOS_DEFAULT_UID, pr_gid := INITRAOS_DEFAULT_GID\<rparr>))\<lparr>ks_next_process_id := ks_next_process_id s + 1\<rparr>"
    have s1: "store_ok (ks_heap s1)" "hs_paging (ks_heap s1) \<noteq> 0" "ks_heap s1 = h1"
      and hp: "hs_paging (ks_heap s1) = hs_paging (ks_heap s)"
      using A(2,3) pg by (simp_all add: s1_def process_part_def)
    obtain a s2 where S: "address_space_create s1 = Some (a, s2)" "task_part s2 = task_part s1" "store_ok (ks_heap s2)"
      "hs_paging (ks_heap s2) = hs_paging (ks_heap s1)"
      "(a = 0 \<and> blocks (ks_heap s2) = blocks (ks_heap s1)) \<or>
       (a \<noteq> 0 \<and> fresh_space s2 a \<and> (\<exists>d t m k j. ks_spaces s2 a = \<lparr>ha_page_directory = d, ha_page_tables = t, ha_page_table_count = PAGE_TABLE_COUNT\<rparr> \<and>
        distinct [0, a, d, t] \<and> (\<forall>x \<in> {a, d, t}. blocks (ks_heap s1) x = None) \<and> 12 \<le> m \<and> 4096 \<le> k \<and> 16384 \<le> j \<and>
        blocks (ks_heap s2) = (blocks (ks_heap s1))(a \<mapsto> m, d \<mapsto> k, t \<mapsto> j)))"
      by (rule address_space_create_spec [OF s1(1,2)])
    have tp: "ks_tasks s2 = ks_tasks s" "ks_task_list s2 = ks_task_list s" "ks_current_task s2 = ks_current_task s"
      "ks_processes s2 = ks_processes s1" "ks_next_process_id s2 = ks_next_process_id s + 1"
      using S(2) by (simp_all add: task_part_def s1_def)
    define s3 where "s3 = put_process s2 r ((ks_processes s2 r)\<lparr>pr_address_space := a\<rparr>)"
    have s3: "store_ok (ks_heap s3)" "ks_heap s3 = ks_heap s2" using S(3) by (simp_all add: s3_def)
    have ch3: "task_chain s3 xs" using ch tp by (simp add: task_chain_def s3_def)
    have e1: "process_create s = (if a = 0 then do { s \<leftarrow> kernel_free s3 r; Some (0, s) }
        else do {
          (task, s) \<leftarrow> task_create_user s3 r USER_CODE_BASE;
          let s = put_process s r ((ks_processes s r)\<lparr>pr_task := task\<rparr>);
          if task = 0 then do {
            s \<leftarrow> kernel_free s (pr_address_space (ks_processes s r));
            s \<leftarrow> kernel_free s r;
            Some (0, s) }
          else Some (r, s) })"
      using A(1) r0 S(1) by (simp add: process_create_def s1_def s3_def Let_def)
    show ?thesis
    proof (cases "a = 0")
      case True
      obtain h4 where F: "kernel_free s3 r = Some (s3\<lparr>ks_heap := h4\<rparr>)" "store_ok h4" "blocks h4 = (blocks (ks_heap s3))(r := None)"
        "process_part (s3\<lparr>ks_heap := h4\<rparr>) = process_part s3" by (rule kernel_free_law [OF s3(1)])
      have b: "blocks h4 = ?B" using F(3) s3(2) S(5) True s1(3) m by (auto simp: fun_eq_iff)
      have "kernel_tasks store_ok blocks (s3\<lparr>ks_heap := h4\<rparr>) xs" using ch3 F(2) b sub by (simp add: kernel_tasks_def task_chain_def)
      moreover have "hs_paging h4 = hs_paging (ks_heap s)" using F(4) s3(2) S(4) hp by (simp add: process_part_def)
      ultimately show ?thesis using e1 True F(1) b tp by (intro that [of 0 "s3\<lparr>ks_heap := h4\<rparr>"]) (simp_all add: s3_def)
    next
      case a0: False
      from S(5) a0 obtain d t m2 k2 j2 where sp: "fresh_space s2 a"
        "ks_spaces s2 a = \<lparr>ha_page_directory = d, ha_page_tables = t, ha_page_table_count = PAGE_TABLE_COUNT\<rparr>"
        "distinct [0, a, d, t]" "\<forall>x \<in> {a, d, t}. blocks h1 x = None"
        "blocks (ks_heap s2) = ?B(r \<mapsto> m, a \<mapsto> m2, d \<mapsto> k2, t \<mapsto> j2)" unfolding s1(3) m(1) by auto
      have nr: "r \<notin> {a, d, t}" "\<forall>x \<in> {a, d, t}. ?B x = None" using sp(4) m by (auto split: if_splits)
      have k3: "kernel_tasks store_ok blocks s3 xs" using ch3 s3 sub sp(5) by (auto simp: kernel_tasks_def)
      obtain tk s4 where U: "task_create_user s3 r USER_CODE_BASE = Some (tk, s4)" "ks_current_task s4 = ks_current_task s3"
        "process_part s4 = process_part s3"
        "(tk = 0 \<and> kernel_tasks store_ok blocks s4 xs \<and> blocks (ks_heap s4) = blocks (ks_heap s3) \<and>
            (\<forall>x \<in> set xs. ks_tasks s4 x = ks_tasks s3 x)) \<or>
         (tk \<noteq> 0 \<and> tk \<notin> set xs \<and> kernel_tasks store_ok blocks s4 (xs @ [tk]) \<and>
            (\<forall>x. x \<noteq> tk \<longrightarrow> task_data s4 x = task_data s3 x) \<and> blocks (ks_heap s3) tk = None \<and>
            tk_id (ks_tasks s4 tk) = ks_next_task_id s3 \<and> tk_privilege (ks_tasks s4 tk) = TASK_USER \<and>
            tk_process (ks_tasks s4 tk) = r \<and> tk_stack_base (ks_tasks s4 tk) = USER_STACK_BASE \<and>
            (\<exists>m \<ge> 36. if tk_context (ks_tasks s4 tk) = 0
               then tk_state (ks_tasks s4 tk) = TASK_FINISHED \<and> blocks (ks_heap s4) = (blocks (ks_heap s3))(tk \<mapsto> m)
               else tk_state (ks_tasks s4 tk) = TASK_READY \<and> tk_context (ks_tasks s4 tk) \<noteq> tk \<and>
                 blocks (ks_heap s3) (tk_context (ks_tasks s4 tk)) = None \<and>
                 cx_eip (ks_contexts s4 (tk_context (ks_tasks s4 tk))) = USER_CODE_BASE \<and>
                 cx_esp (ks_contexts s4 (tk_context (ks_tasks s4 tk))) = USER_STACK_TOP \<and>
                 cx_privilege (ks_contexts s4 (tk_context (ks_tasks s4 tk))) = TASK_USER \<and>
                 (\<exists>k \<ge> 44. blocks (ks_heap s4) = (blocks (ks_heap s3))(tk \<mapsto> m, tk_context (ks_tasks s4 tk) \<mapsto> k))))"
        by (rule task_create_user_spec [OF k3, of r USER_CODE_BASE])
      define s5 where "s5 = put_process s4 r ((ks_processes s4 r)\<lparr>pr_task := tk\<rparr>)"
      have pr: "ks_processes s5 r = (ks_processes s1 r)\<lparr>pr_address_space := a, pr_task := tk\<rparr>"
        "ks_spaces s5 = ks_spaces s2" "ks_directories s5 = ks_directories s2" "ks_tables s5 = ks_tables s2"
        "ks_next_process_id s5 = ks_next_process_id s + 1"
        using U(3) tp(4,5) by (simp_all add: s5_def process_part_def s3_def)
      have e2: "process_create s = (if tk = 0 then do {
            s \<leftarrow> kernel_free s5 a;
            s \<leftarrow> kernel_free s r;
            Some (0, s) }
          else Some (r, s5))"
        using e1 a0 U(1) pr(1) by (simp add: s5_def [symmetric])
      have cur: "ks_current_task s5 = ks_current_task s" using U(2) tp(3) by (simp add: s5_def s3_def)
      have t5: "task_data s5 = task_data s4" "ks_tasks s5 = ks_tasks s4" "ks_heap s5 = ks_heap s4" "ks_contexts s5 = ks_contexts s4"
        "task_chain s5 ys = task_chain s4 ys" for ys
        by (simp_all add: s5_def task_data_def fun_eq_iff task_chain_def put_process_def)
      have hp5: "hs_paging (ks_heap s5) = hs_paging (ks_heap s)"
        using U(3) t5(3) s3(2) S(4) hp by (simp add: process_part_def)
      show ?thesis
      proof (cases "tk = 0")
        case True
        then have V: "kernel_tasks store_ok blocks s4 xs" "blocks (ks_heap s4) = blocks (ks_heap s3)"
          "\<forall>x \<in> set xs. ks_tasks s4 x = ks_tasks s x" using U(4) tp(1) by (auto simp: s3_def)
        have "store_ok (ks_heap s5)" using V(1) t5(3) by (simp add: kernel_tasks_def)
        then obtain h6 where F: "kernel_free s5 a = Some (s5\<lparr>ks_heap := h6\<rparr>)" "store_ok h6" "blocks h6 = (blocks (ks_heap s5))(a := None)"
          "process_part (s5\<lparr>ks_heap := h6\<rparr>) = process_part s5" by (rule kernel_free_law)
        let ?s6 = "s5\<lparr>ks_heap := h6\<rparr>"
        have "store_ok (ks_heap ?s6)" using F(2) by simp
        then obtain h7 where G: "kernel_free ?s6 r = Some (?s6\<lparr>ks_heap := h7\<rparr>)" "store_ok h7" "blocks h7 = (blocks (ks_heap ?s6))(r := None)"
          "process_part (?s6\<lparr>ks_heap := h7\<rparr>) = process_part ?s6" by (rule kernel_free_law)
        have "blocks h7 = (blocks (ks_heap s2))(a := None, r := None)" using G(3) F(3) V(2) s3(2) t5(3) by simp
        also have "\<dots> = ?B(d \<mapsto> k2, t \<mapsto> j2)" unfolding sp(5) using nr sp(3) m(2) by (auto simp: fun_eq_iff)
        finally have b: "blocks h7 = ?B(d \<mapsto> k2, t \<mapsto> j2)" .
        have le: "?B \<subseteq>\<^sub>m blocks h7" unfolding b using nr(2) by (auto simp: map_le_def dom_def)
        have "task_chain s4 xs" using V(1) by (simp add: kernel_tasks_def)
        then have "task_chain (?s6\<lparr>ks_heap := h7\<rparr>) xs" using t5(5) by (simp add: task_chain_def)
        moreover have "set xs \<subseteq> dom (blocks h7)" using sub b by auto
        ultimately have "kernel_tasks store_ok blocks (?s6\<lparr>ks_heap := h7\<rparr>) xs" using G(2) by (simp add: kernel_tasks_def)
        moreover have "hs_paging h7 = hs_paging (ks_heap s)"
          using F(4) G(4) hp5 by (simp add: process_part_def)
        ultimately show ?thesis using e2 True F(1) G(1) le cur V(3) t5(2) by (intro that [of 0 "?s6\<lparr>ks_heap := h7\<rparr>"]) simp_all
      next
        case tk0: False
        let ?c = "tk_context (ks_tasks s4 tk)"
        have V: "tk \<notin> set xs" "kernel_tasks store_ok blocks s4 (xs @ [tk])"
          "\<forall>x. x \<noteq> tk \<longrightarrow> task_data s4 x = task_data s3 x" "blocks (ks_heap s3) tk = None"
          "tk_privilege (ks_tasks s4 tk) = TASK_USER" "tk_process (ks_tasks s4 tk) = r" "tk_stack_base (ks_tasks s4 tk) = USER_STACK_BASE"
          using U(4) tk0 by simp_all
        from U(4) tk0 obtain m5 where W: "if ?c = 0 then tk_state (ks_tasks s4 tk) = TASK_FINISHED \<and> blocks (ks_heap s4) = (blocks (ks_heap s3))(tk \<mapsto> m5)
           else tk_state (ks_tasks s4 tk) = TASK_READY \<and> ?c \<noteq> tk \<and> blocks (ks_heap s3) ?c = None \<and>
             cx_eip (ks_contexts s4 ?c) = USER_CODE_BASE \<and> cx_esp (ks_contexts s4 ?c) = USER_STACK_TOP \<and>
             cx_privilege (ks_contexts s4 ?c) = TASK_USER \<and>
             (\<exists>k \<ge> 44. blocks (ks_heap s4) = (blocks (ks_heap s3))(tk \<mapsto> m5, ?c \<mapsto> k))" by blast
        have o: "owned s5 r = {r, a, d, t, tk, ?c} - {0}" by (simp add: owned_def Let_def pr(1,2) sp(2) t5(2))
        have b3: "blocks (ks_heap s3) = ?B(r \<mapsto> m, a \<mapsto> m2, d \<mapsto> k2, t \<mapsto> j2)" using s3(2) sp(5) by simp
        have tn: "tk \<notin> {r, a, d, t}" "?B tk = None" using V(4) b3 by (auto split: if_splits)
        have cn: "?c \<noteq> 0 \<longrightarrow> ?c \<notin> {r, a, d, t, tk} \<and> ?B ?c = None" using W b3 by (auto split: if_splits)
        have bl: "\<exists>k. blocks (ks_heap s5) = (if ?c = 0 then ?B(r \<mapsto> m, a \<mapsto> m2, d \<mapsto> k2, t \<mapsto> j2, tk \<mapsto> m5)
            else ?B(r \<mapsto> m, a \<mapsto> m2, d \<mapsto> k2, t \<mapsto> j2, tk \<mapsto> m5, ?c \<mapsto> k))"
          using W t5(3) b3 by (auto split: if_splits)
        obtain k where K: "blocks (ks_heap s5) = (if ?c = 0 then ?B(r \<mapsto> m, a \<mapsto> m2, d \<mapsto> k2, t \<mapsto> j2, tk \<mapsto> m5)
            else ?B(r \<mapsto> m, a \<mapsto> m2, d \<mapsto> k2, t \<mapsto> j2, tk \<mapsto> m5, ?c \<mapsto> k))" using bl by blast
        have bd: "owned s5 r \<subseteq> dom (blocks (ks_heap s5))" "blocks (ks_heap s5) |` (- owned s5 r) = ?B"
        proof -
          show "owned s5 r \<subseteq> dom (blocks (ks_heap s5))" unfolding o K by (cases "?c = 0") (simp_all, blast+)
          show "blocks (ks_heap s5) |` (- owned s5 r) = ?B"
          proof (rule restrict_added)
            fix x
            show "?B x = None" if "x \<in> owned s5 r"
              using that cn m(2) nr(2) tn(2) unfolding o by (elim DiffE insertE emptyE) simp_all
            assume "x \<notin> owned s5 r"
            then have "x \<notin> {r, a, d, t, tk}" "?c \<noteq> 0 \<longrightarrow> x \<noteq> ?c" using r0 tk0 sp(3) unfolding o by auto
            then show "blocks (ks_heap s5) x = ?B x" unfolding K by simp
          qed
        qed
        have fs: "fresh_space s5 a" using sp(1) by (simp add: fresh_space_def pr(2-4))
        have dis: "distinct [0, r, tk, a, d, t]" using sp(3) nr(1) tn(1) r0 tk0 by auto
        have kt: "kernel_tasks store_ok blocks s5 (xs @ [tk])" using V(2) t5(3,5) by (simp add: kernel_tasks_def)
        have td: "\<forall>x \<in> set xs. task_data s5 x = task_data s x"
          using V(1,3) t5(1) tp(1) by (auto simp: task_data_def s3_def)
        have ci: "?c \<noteq> 0 \<longrightarrow> cx_eip (ks_contexts s5 ?c) = USER_CODE_BASE" using W t5(4) by auto
        have ids: "pr_pid (ks_processes s5 r) = ks_next_process_id s" "pr_state (ks_processes s5 r) = TASK_READY"
          "pr_privilege (ks_processes s5 r) = TASK_USER" "pr_uid (ks_processes s5 r) = INITRAOS_DEFAULT_UID"
          "pr_gid (ks_processes s5 r) = INITRAOS_DEFAULT_GID" by (simp_all add: pr(1) s1_def)
        have pf: "pr_task (ks_processes s5 r) = tk" "pr_address_space (ks_processes s5 r) = a"
          "ha_page_directory (ks_spaces s5 a) = d" "ha_page_tables (ks_spaces s5 a) = t"
          by (simp_all add: pr(1,2) sp(2))
        have e3: "process_create s = Some (r, s5)" using e2 tk0 by simp
        have st: "tk_state (ks_tasks s5 tk) = (if ?c = 0 then TASK_FINISHED else TASK_READY)"
          using W t5(2) by (simp split: if_splits)
        show ?thesis
        proof (rule that [OF e3 cur _ hp5])
          show "r \<noteq> 0 \<longrightarrow> (let t = ks_tasks s5 (pr_task (ks_processes s5 r))
              in tk_state t = (if tk_context t = 0 then TASK_FINISHED else TASK_READY))"
            using st by (simp only: Let_def pf t5(2) simp_thms)
        qed (rule disjI2, simp only: Let_def pf t5(2), intro conjI r0 V(1) kt td ids pr(5) V(5,6,7) ci fs dis bd)
      qed
    qed
  qed
qed

end

end
