(* ===== verification/Task_Properties.thy ===== *)
theory Task_Properties
  imports Process_Life Heap_Properties
begin

section \<open>Properties of tasks, processes and the scheduler\<close>

text \<open>
  The witnesses run on a kernel just booted (\<open>ex_kernel\<close>) and on one with three
  tasks, the first of them running (\<open>ex_three\<close>).
\<close>

definition ex_task :: "u32 \<Rightarrow> u32 \<Rightarrow> u32 \<Rightarrow> task_t" where
  "ex_task i state nxt = \<lparr>tk_id = i, tk_state = state, tk_privilege = 0, tk_process = 0, tk_esp = 0, tk_ebp = 0,
     tk_stack_base = 0, tk_context = 0, tk_next = nxt\<rparr>"

definition ex_kernel :: kernel_state where
  "ex_kernel = \<lparr>ks_heap = ex_heap, ks_tasks = (\<lambda>_. ex_task 0 0 0),
     ks_contexts = (\<lambda>_. \<lparr>cx_eax = 0, cx_ebx = 0, cx_ecx = 0, cx_edx = 0, cx_esi = 0, cx_edi = 0, cx_ebp = 0,
                        cx_esp = 0, cx_eip = 0, cx_eflags = 0, cx_privilege = 0\<rparr>),
     ks_processes = (\<lambda>_. \<lparr>pr_pid = 0, pr_state = 0, pr_privilege = 0, pr_uid = 0, pr_gid = 0,
                         pr_address_space = 0, pr_task = 0\<rparr>),
     ks_spaces = (\<lambda>_. \<lparr>ha_page_directory = 0, ha_page_tables = 0, ha_page_table_count = 0\<rparr>),
     ks_directories = (\<lambda>_. []), ks_tables = (\<lambda>_. []), ks_current_task = 0, ks_task_list = 0,
     ks_next_task_id = 1, ks_next_process_id = 1\<rparr>"

definition ex_three :: kernel_state where
  "ex_three = ex_kernel\<lparr>ks_tasks := (\<lambda>_. ex_task 0 0 0)(0x1000 := ex_task 1 TASK_RUNNING 0x2000,
       0x2000 := ex_task 2 TASK_BLOCKED 0x3000, 0x3000 := ex_task 3 TASK_READY 0),
     ks_current_task := 0x1000, ks_task_list := 0x1000\<rparr>"

text \<open>
  The invariant of the kernel state: a well-formed memory and a list of tasks that
  are blocks in use, with the current task, if any, among them.
\<close>

definition kernel_ok :: "kernel_state \<Rightarrow> u32 list \<Rightarrow> bool" where
  "kernel_ok s xs \<longleftrightarrow> kernel_tasks kernel_heap_ok live_blocks s xs \<and>
     (ks_current_task s = 0 \<or> ks_current_task s \<in> set xs)"

definition ex_paged_kernel :: kernel_state where
  "ex_paged_kernel = ex_kernel\<lparr>ks_heap := ex_paged_heap\<rparr>"

lemma ex_kernel_heap: "kernel_heap_ok ex_heap"
proof -
  have e: "ex_heap = ex_paged_heap\<lparr>hs_paging := 0\<rparr>" by (simp add: ex_paged_heap_def ex_heap_def)
  have "paged_ok ex_heap" using ex_paged_ok unfolding e by (simp add: paged_ok_def)
  then show ?thesis by (simp add: kernel_heap_ok_def ex_heap_ok) (simp add: ex_heap_def)
qed

lemma ex_paged_kernel_heap: "kernel_heap_ok ex_paged_heap"
proof -
  have "block_size ex_paged_heap = block_size ex_heap" by (simp add: block_size_def ex_paged_heap_def fun_eq_iff)
  then have "heap_ok ex_paged_heap" using ex_heap_ok by (simp add: heap_ok_def heap_list_def) (simp add: ex_paged_heap_def)
  then show ?thesis using ex_paged_ok by (simp add: kernel_heap_ok_def) (simp add: ex_paged_heap_def ex_heap_def)
qed

lemma ex_kernel_ok: "kernel_ok ex_kernel []"
  using ex_kernel_heap by (simp add: kernel_ok_def kernel_tasks_def task_chain_def ex_kernel_def)

lemma ex_paged_kernel_ok: "kernel_ok ex_paged_kernel []" "hs_paging (ks_heap ex_paged_kernel) \<noteq> 0"
  using ex_paged_kernel_heap
  by (simp_all add: kernel_ok_def kernel_tasks_def task_chain_def ex_paged_kernel_def ex_kernel_def)
    (simp add: ex_paged_heap_def)

lemma ex_three_chain: "task_chain ex_three [0x1000, 0x2000, 0x3000]"
  by (simp add: task_chain_def ex_three_def ex_task_def)

text \<open>
  C28: on every well-formed list of tasks the scheduler returns: the first ready
  task in the order that starts after the current task and ends with it, NULL
  exactly when no task is ready. It starves nobody: while the tasks keep their
  states, dispatching the selected task again and again reaches every ready
  task within as many turns as there are tasks.
\<close>

theorem scheduler_round_robin:
  assumes "task_chain s xs" and "ks_current_task s = 0 \<or> ks_current_task s \<in> set xs"
  shows "task_schedule_next s = Some (first_ready s (turn_order xs (ks_current_task s))) \<and>
    set (turn_order xs (ks_current_task s)) = set xs \<and>
    (task_schedule_next s = Some 0 \<longleftrightarrow> (\<forall>t \<in> set xs. tk_state (ks_tasks s t) \<noteq> TASK_READY)) \<and>
    (\<forall>t \<in> set xs. tk_state (ks_tasks s t) = TASK_READY \<longrightarrow>
       (\<exists>k. 0 < k \<and> k \<le> length xs \<and> ks_current_task ((dispatch ^^ k) s) = t))"
proof (intro conjI ballI impI)
  note D = task_chainD [OF assms(1)]
  let ?ws = "turn_order xs (ks_current_task s)"
  show e: "task_schedule_next s = Some (first_ready s ?ws)" by (rule schedule_next_eq [OF assms])
  show st: "set ?ws = set xs" by (rule set_turn_order [OF D(1)])
  have "first_ready s ?ws = 0 \<longleftrightarrow> find (\<lambda>t. tk_state (ks_tasks s t) = TASK_READY) ?ws = None"
  proof (cases "find (\<lambda>t. tk_state (ks_tasks s t) = TASK_READY) ?ws")
    case (Some p)
    then have "p \<in> set ?ws" by (auto simp: find_Some_iff)
    then have "p \<noteq> 0" using D(2) st by auto
    then show ?thesis using Some by (simp add: first_ready_def)
  qed (simp add: first_ready_def)
  then show "task_schedule_next s = Some 0 \<longleftrightarrow> (\<forall>t \<in> set xs. tk_state (ks_tasks s t) \<noteq> TASK_READY)"
    using e st by (auto simp: find_None_iff)
next
  fix t assume t: "t \<in> set xs" "tk_state (ks_tasks s t) = TASK_READY"
  have d: "distinct xs" using task_chainD [OF assms(1)] by simp
  let ?ws = "turn_order xs (ks_current_task s)"
  have "length ?ws = length xs" by (rule length_turn_order [OF d])
  then have "t \<in> set (take (length xs) ?ws)" using t(1) set_turn_order [OF d] by simp
  then show "\<exists>k. 0 < k \<and> k \<le> length xs \<and> ks_current_task ((dispatch ^^ k) s) = t"
    by (rule dispatch_reaches [OF assms _ t(2)])
qed

theorem scheduler_round_robin_witness:
  "task_schedule_next ex_three = Some 0x3000 \<and>
   (\<exists>k. 0 < k \<and> k \<le> 3 \<and> ks_current_task ((dispatch ^^ k) ex_three) = 0x3000)"
proof -
  have c: "ks_current_task ex_three = 0x1000" by (simp add: ex_three_def)
  have "first_ready ex_three (turn_order [0x1000, 0x2000, 0x3000] 0x1000) = 0x3000"
    by (simp add: turn_order_def first_ready_def ex_three_def ex_task_def)
  moreover have r: "tk_state (ks_tasks ex_three 0x3000) = TASK_READY" by (simp add: ex_three_def ex_task_def)
  moreover have "ks_current_task ex_three = 0 \<or> ks_current_task ex_three \<in> set [0x1000, 0x2000, 0x3000]" by (simp add: c)
  note R = scheduler_round_robin [OF ex_three_chain this]
  moreover have "\<exists>k. 0 < k \<and> k \<le> length [0x1000 :: u32, 0x2000, 0x3000] \<and> ks_current_task ((dispatch ^^ k) ex_three) = 0x3000"
    using R r by (meson list.set_intros)
  ultimately show ?thesis by (simp add: c numeral_3_eq_3)
qed

text \<open>Destroying the task created last.\<close>

lemma destroy_created_task:
  assumes k: "kernel_tasks kernel_heap_ok live_blocks s1 (xs @ [r])" and r: "r \<notin> set xs" "r \<noteq> 0" "tk_context (ks_tasks s1 r) = 0"
    and c: "ks_current_task s1 = 0 \<or> ks_current_task s1 \<in> set xs" and n: "tk_stack_base (ks_tasks s1 r) \<noteq> USER_STACK_BASE"
    and B: "live_blocks (ks_heap s1) = B(r \<mapsto> m, tk_stack_base (ks_tasks s1 r) \<mapsto> k)" "B r = None"
      "B (tk_stack_base (ks_tasks s1 r)) = None" "B 0 = None" "set xs \<subseteq> dom B"
  shows "\<exists>s2. task_destroy s1 r = Some s2 \<and> kernel_ok s2 xs \<and> live_blocks (ks_heap s2) = B \<and>
    (\<forall>t \<in> set xs. task_data s2 t = task_data s1 t)"
proof -
  have rc: "r \<in> set (xs @ [r])" "r \<noteq> ks_current_task s1" using r(1,2) c by auto
  obtain s2 where S: "task_destroy s1 r = Some s2" "task_chain s2 (remove1 r (xs @ [r]))" "kernel_heap_ok (ks_heap s2)"
    "ks_current_task s2 = ks_current_task s1" "\<forall>a. a \<noteq> r \<longrightarrow> task_data s2 a = task_data s1 a"
    "live_blocks (ks_heap s2) = (\<lambda>a. if a = r \<or> a = tk_context (ks_tasks s1 r) \<or>
        a = tk_stack_base (ks_tasks s1 r) \<and> a \<noteq> USER_STACK_BASE then None else live_blocks (ks_heap s1) a)"
    by (rule kernel_blocks.task_destroy_spec [OF k rc]) (rule that; assumption)
  have a: "live_blocks (ks_heap s2) = B" using S(6) r(3) n B(1-4) by (auto simp: fun_eq_iff)
  have "remove1 r (xs @ [r]) = xs" using r(1) by (simp add: remove1_append)
  then have "kernel_ok s2 xs" using S(2,3,4) c a B(5) by (simp add: kernel_ok_def kernel_tasks_def)
  moreover have "\<forall>t \<in> set xs. task_data s2 t = task_data s1 t" using S(5) r(1) by auto
  ultimately show ?thesis using S(1) a by blast
qed



text \<open>Destroying the process created last.\<close>

lemma destroy_created_process:
  fixes s1 r
  defines "t \<equiv> pr_task (ks_processes s1 r)" and "a \<equiv> pr_address_space (ks_processes s1 r)"
  assumes k: "kernel_tasks kernel_heap_ok live_blocks s1 (xs @ [t])" and r: "r \<noteq> 0" "a \<noteq> 0" "t \<noteq> 0" "t \<notin> set xs"
    and c: "ks_current_task s1 = 0 \<or> ks_current_task s1 \<in> set xs" and u: "tk_stack_base (ks_tasks s1 t) = USER_STACK_BASE"
    and B: "live_blocks (ks_heap s1) |` (- owned s1 r) = B" "set xs \<subseteq> dom B"
  shows "\<exists>s2. process_destroy s1 r = Some s2 \<and> kernel_ok s2 xs \<and> live_blocks (ks_heap s2) = B \<and>
    (\<forall>x \<in> set xs. task_data s2 x = task_data s1 x)"
proof -
  have sep: "(set (xs @ [t]) - {t}) \<inter> owned s1 r = {}" using B by auto
  have tc: "t \<in> set (xs @ [t])" "t \<noteq> ks_current_task s1" using r(3,4) c by auto
  obtain s2 where S: "process_destroy s1 r = Some s2" "kernel_tasks kernel_heap_ok live_blocks s2 (remove1 t (xs @ [t]))"
    "live_blocks (ks_heap s2) = live_blocks (ks_heap s1) |` (- owned s1 r)" "ks_current_task s2 = ks_current_task s1"
    "\<forall>x. x \<noteq> t \<longrightarrow> task_data s2 x = task_data s1 x"
    by (rule kernel_blocks.process_destroy_spec [OF k [unfolded t_def] r(1), folded t_def a_def, OF r(2) tc u sep]) (rule that; assumption)
  have "remove1 t (xs @ [t]) = xs" using r(4) by (simp add: remove1_append)
  then have "kernel_ok s2 xs" using S(2,4) c by (simp add: kernel_ok_def)
  moreover have "\<forall>x \<in> set xs. task_data s2 x = task_data s1 x" using S(5) r(4) by auto
  ultimately show ?thesis using S(1,3) B(1) by blast
qed



end
