(* ===== verification/Syscalls.thy ===== *)
theory Syscalls
  imports User_Programs Task_Properties Security_Core Vfs_Properties
begin

section \<open>System calls\<close>

text \<open>
  \<open>syscall_dispatcher\<close> of \<open>kernel.c\<close> with its checks of user pointers. A user
  pointer is dereferenced through \<open>translate\<close>: the page tables of the kernel
  address space are the only ones loaded into the processor. Structures are
  written as their little-endian words. Messages on the serial line are left out.
\<close>

definition SYSCALL_EXIT :: u32 where [simp]: "SYSCALL_EXIT = 0"
definition SYSCALL_WRITE :: u32 where [simp]: "SYSCALL_WRITE = 1"
definition SYSCALL_GETPID :: u32 where [simp]: "SYSCALL_GETPID = 2"
definition SYSCALL_YIELD :: u32 where [simp]: "SYSCALL_YIELD = 3"
definition SYSCALL_ALLOC :: u32 where [simp]: "SYSCALL_ALLOC = 4"
definition SYSCALL_FREE :: u32 where [simp]: "SYSCALL_FREE = 5"
definition SYSCALL_SECURITY_CHECK :: u32 where [simp]: "SYSCALL_SECURITY_CHECK = 6"
definition SYSCALL_SECURITY_AUDIT_COUNT :: u32 where [simp]: "SYSCALL_SECURITY_AUDIT_COUNT = 7"
definition SYSCALL_SECURITY_AUDIT_READ :: u32 where [simp]: "SYSCALL_SECURITY_AUDIT_READ = 8"
definition SYSCALL_SECURITY_STATUS :: u32 where [simp]: "SYSCALL_SECURITY_STATUS = 9"
definition SYSCALL_SECURITY_AUDIT_FILTER_READ :: u32 where [simp]: "SYSCALL_SECURITY_AUDIT_FILTER_READ = 10"
definition SYSCALL_SECURITY_FS_INFO :: u32 where [simp]: "SYSCALL_SECURITY_FS_INFO = 11"
definition SYSCALL_SECURITY_IDENTITY :: u32 where [simp]: "SYSCALL_SECURITY_IDENTITY = 12"

text \<open>The parts of the kernel that system calls reach.\<close>

record 'w system =
  sy_kernel :: kernel_state
  sy_security :: security_state
  sy_vfs :: "'w vfs"

abbreviation sy_heap :: "'w system \<Rightarrow> heap_state" where
  "sy_heap s \<equiv> ks_heap (sy_kernel s)"

definition with_heap :: "'w system \<Rightarrow> heap_state \<Rightarrow> 'w system" where
  "with_heap s h = s\<lparr>sy_kernel := (sy_kernel s)\<lparr>ks_heap := h\<rparr>\<rparr>"

definition event_image :: "security_audit_event_t \<Rightarrow> u8 list" where
  "event_image e = concat (map u32_bytes
     [ev_sequence e, ev_pid e, ev_privilege e, ev_operation e, ev_result e])"

definition fs_info_image :: "vfs_security_info_t \<Rightarrow> u8 list" where
  "fs_info_image i = concat (map u32_bytes
     [vsi_inode_number i, vsi_type i, vsi_mode i, vsi_owner i, vsi_group i, vsi_flags i])"

definition identity_image :: "security_identity_info_t \<Rightarrow> u8 list" where
  "identity_image i = concat (map u32_bytes [sii_pid i, sii_uid i, sii_gid i, sii_privilege i])"

definition sizeof_audit_event :: u32 where [simp]: "sizeof_audit_event = 20"
definition sizeof_identity_info :: u32 where [simp]: "sizeof_identity_info = 16"
definition sizeof_fs_info :: u32 where [simp]: "sizeof_fs_info = 24"

subsection \<open>Checks of user pointers\<close>

text \<open>The page-table entry of a user address has the given flags.\<close>

definition user_page_flags :: "heap_state \<Rightarrow> u32 \<Rightarrow> u32 \<Rightarrow> bool" where
  "user_page_flags h address flags =
     (let space = vm_kernel_space (hs_vm h)
      in if directory_index address \<ge> as_page_table_count space then False
         else entry_at (the (as_page_tables space)) address AND flags = flags)"

definition security_user_buffer_valid :: "heap_state \<Rightarrow> u32 \<Rightarrow> u32 \<Rightarrow> bool" where
  "security_user_buffer_valid h address n =
     (if n = 0 \<or> n > USER_STACK_SIZE then False
      else if address < USER_STACK_BASE \<or> address > USER_STACK_TOP - n then False
      else user_page_flags h address (PAGE_PRESENT OR PAGE_WRITABLE OR PAGE_USER))"

fun string_terminated :: "heap_state \<Rightarrow> u32 \<Rightarrow> nat \<Rightarrow> bool option" where
  "string_terminated h address 0 = Some False"
| "string_terminated h address (Suc n) =
     do { b \<leftarrow> load_byte h address;
          if b = 0 then Some True else string_terminated h (address + 1) n }"

definition security_user_string_valid :: "heap_state \<Rightarrow> u32 \<Rightarrow> bool option" where
  "security_user_string_valid h address =
     (if address < USER_STACK_BASE \<or> address \<ge> USER_STACK_TOP then Some False
      else if \<not> user_page_flags h address (PAGE_PRESENT OR PAGE_USER) then Some False
      else string_terminated h address (unat USER_STACK_TOP - unat address))"

text \<open>A string in user memory, read up to its NUL or at most \<open>n\<close> bytes.\<close>

fun user_string :: "heap_state \<Rightarrow> u32 \<Rightarrow> nat \<Rightarrow> string option" where
  "user_string h address 0 = Some []"
| "user_string h address (Suc n) =
     do { b \<leftarrow> load_byte h address;
          if b = 0 then Some []
          else do { cs \<leftarrow> user_string h (address + 1) n; Some (char_of (unat b) # cs) } }"

subsection \<open>The dispatcher\<close>

text \<open>Write a structure to user memory and report success.\<close>

definition write_user :: "'w system \<Rightarrow> u32 \<Rightarrow> u8 list \<Rightarrow> (u32 \<times> 'w system) option" where
  "write_user s destination bs =
     do { h \<leftarrow> store_bytes (sy_heap s) destination bs;
          Some (SECURITY_ALLOWED, with_heap s h) }"

definition syscall_security_check :: "'w system \<Rightarrow> u32 \<times> 'w system" where
  "syscall_security_check s =
     (let task = ks_current_task (sy_kernel s)
      in if task = 0 then (-1, s)
         else let (result, security) = security_authorize (sy_security s) (tk_id (ks_tasks (sy_kernel s) task))
                    (tk_privilege (ks_tasks (sy_kernel s) task)) SECURITY_OPERATION_PROTECTED_TEST
                    SECURITY_PRIVILEGE_KERNEL
              in (result, s\<lparr>sy_security := security\<rparr>))"

definition syscall_audit_read :: "'w system \<Rightarrow> u32 \<Rightarrow> u32 \<Rightarrow> (u32 \<times> 'w system) option" where
  "syscall_audit_read s arg1 arg2 =
     (if \<not> security_user_buffer_valid (sy_heap s) arg2 sizeof_audit_event then Some (SECURITY_DENIED, s)
      else case security_audit_get (sy_security s) arg1 (arg2 \<noteq> 0) of
             None \<Rightarrow> Some (SECURITY_DENIED, s)
           | Some event \<Rightarrow> write_user s arg2 (event_image event))"

definition syscall_audit_filter_read ::
  "'w system \<Rightarrow> u32 \<Rightarrow> u32 \<Rightarrow> u32 \<Rightarrow> u32 \<Rightarrow> (u32 \<times> 'w system) option" where
  "syscall_audit_filter_read s arg1 arg2 arg3 arg4 =
     (if \<not> security_user_buffer_valid (sy_heap s) arg4 sizeof_audit_event then Some (SECURITY_DENIED, s)
      else case security_audit_get_filtered (sy_security s) arg1 arg2 arg3 (arg4 \<noteq> 0) of
             None \<Rightarrow> Some (SECURITY_DENIED, s)
           | Some event \<Rightarrow> write_user s arg4 (event_image event))"

definition syscall_identity :: "'w system \<Rightarrow> u32 \<Rightarrow> (u32 \<times> 'w system) option" where
  "syscall_identity s arg1 =
     (let k = sy_kernel s; task = ks_current_task k
      in if \<not> security_user_buffer_valid (sy_heap s) arg1 sizeof_identity_info then Some (SECURITY_DENIED, s)
         else if task = 0 \<or> tk_process (ks_tasks k task) = 0 then Some (SECURITY_DENIED, s)
         else let p = ks_processes k (tk_process (ks_tasks k task))
              in write_user s arg1 (identity_image
                   \<lparr>sii_pid = pr_pid p, sii_uid = pr_uid p, sii_gid = pr_gid p, sii_privilege = pr_privilege p\<rparr>))"

definition syscall_fs_info ::
  "('w \<Rightarrow> ptr \<Rightarrow> fs_inode) \<Rightarrow> 'w system \<Rightarrow> u32 \<Rightarrow> u32 \<Rightarrow> (u32 \<times> 'w system) option" where
  "syscall_fs_info inode_at s arg1 arg2 =
     do {
       valid \<leftarrow> security_user_string_valid (sy_heap s) arg1;
       if \<not> valid then Some (SECURITY_DENIED, s)
       else if \<not> security_user_buffer_valid (sy_heap s) arg2 sizeof_fs_info then Some (SECURITY_DENIED, s)
       else do {
         path \<leftarrow> user_string (sy_heap s) arg1 (unat USER_STACK_TOP - unat arg1);
         case vfs_get_security_info inode_at (sy_vfs s) (Some path) (arg2 \<noteq> 0) of
           None \<Rightarrow> Some (SECURITY_DENIED, s)
         | Some info \<Rightarrow> write_user s arg2 (fs_info_image info) } }"

definition syscall_dispatcher ::
  "('w \<Rightarrow> ptr \<Rightarrow> fs_inode) \<Rightarrow> 'w system \<Rightarrow> u32 \<Rightarrow> u32 \<Rightarrow> u32 \<Rightarrow> u32 \<Rightarrow> u32 \<Rightarrow> u32 \<Rightarrow>
   (u32 \<times> 'w system) option" where
  "syscall_dispatcher inode_at s syscall_number arg1 arg2 arg3 arg4 arg5 =
     (if syscall_number = SYSCALL_EXIT \<or> syscall_number = SYSCALL_WRITE \<or> syscall_number = SYSCALL_YIELD
      then Some (0, s)
      else if syscall_number = SYSCALL_GETPID then
        (if ks_current_task (sy_kernel s) = 0 then Some (-1, s)
         else Some (tk_id (ks_tasks (sy_kernel s) (ks_current_task (sy_kernel s))), s))
      else if syscall_number = SYSCALL_ALLOC then
        do { (address, h) \<leftarrow> heap_alloc (sy_heap s) arg1; Some (address, with_heap s h) }
      else if syscall_number = SYSCALL_FREE then
        do { h \<leftarrow> heap_free (sy_heap s) arg1; Some (0, with_heap s h) }
      else if syscall_number = SYSCALL_SECURITY_CHECK then Some (syscall_security_check s)
      else if syscall_number = SYSCALL_SECURITY_AUDIT_COUNT then Some (security_audit_count (sy_security s), s)
      else if syscall_number = SYSCALL_SECURITY_AUDIT_READ then syscall_audit_read s arg1 arg2
      else if syscall_number = SYSCALL_SECURITY_AUDIT_FILTER_READ then
        syscall_audit_filter_read s arg1 arg2 arg3 arg4
      else if syscall_number = SYSCALL_SECURITY_STATUS then Some (security_status, s)
      else if syscall_number = SYSCALL_SECURITY_IDENTITY then syscall_identity s arg1
      else if syscall_number = SYSCALL_SECURITY_FS_INFO then syscall_fs_info inode_at s arg1 arg2
      else Some (-1, s))"


subsection \<open>User memory behind a checked pointer\<close>

lemma stack_offset:
  fixes a :: u32
  assumes "unat (USER_STACK_BASE :: u32) \<le> unat a" and "unat a < unat (USER_STACK_TOP :: u32)"
  shows "unat a mod 4096 = unat a - unat (USER_STACK_BASE :: u32)" "unat (directory_index a) = 1"
proof -
  obtain k where k: "unat a = 8384512 + k" "k < 4096" using assms by (auto dest: le_Suc_ex)
  have "(8384512 + k) mod 4096 = k" using k(2) mod_mult_self3 [of 2047 4096 k] by simp
  then show "unat a mod 4096 = unat a - unat (USER_STACK_BASE :: u32)" by (simp add: k(1))
  show "unat (directory_index a) = 1" using k by (simp add: index_nat)
qed

lemma user_page_translate:
  assumes f: "user_page_flags h a (PAGE_PRESENT OR flags)"
    and a: "unat (USER_STACK_BASE :: u32) \<le> unat a" "unat a < unat (USER_STACK_TOP :: u32)"
  obtains pa where "translate h a = Some pa"
proof (cases "hs_paging h = 0")
  case True
  then show ?thesis using that by (simp add: translate_def)
next
  case False
  let ?e = "entry_at (the (as_page_tables (vm_kernel_space (hs_vm h)))) a"
  have "?e AND (PAGE_PRESENT OR flags) = PAGE_PRESENT OR flags"
    using f by (simp add: user_page_flags_def Let_def split: if_splits)
  then have "?e AND (PAGE_PRESENT OR flags) AND PAGE_PRESENT = (PAGE_PRESENT OR flags) AND PAGE_PRESENT"
    by (metis and.assoc)
  moreover have "(PAGE_PRESENT OR flags) AND PAGE_PRESENT = PAGE_PRESENT"
    by (rule word_ao_absorbs)
  ultimately have "?e AND PAGE_PRESENT \<noteq> 0" by (simp only:) simp
  moreover have "\<not> directory_index a \<ge> PAGE_TABLE_COUNT"
    using stack_offset(2) [OF a] by (simp add: word_le_nat_alt)
  ultimately show ?thesis using that False by (simp add: translate_def Let_def)
qed

lemma buffer_validE:
  assumes "security_user_buffer_valid h a n"
  obtains pa where "translate h a = Some pa" "unat a mod 4096 + unat n \<le> 4096"
    "unat (USER_STACK_BASE :: u32) \<le> unat a" "unat a + unat n \<le> unat (USER_STACK_TOP :: u32)"
    "user_page_flags h a (PAGE_PRESENT OR PAGE_WRITABLE OR PAGE_USER)"
proof -
  have v: "n \<noteq> 0" "n \<le> 0x1000" "0x7FF000 \<le> a" "a \<le> 0x800000 - n"
    "user_page_flags h a (PAGE_PRESENT OR PAGE_WRITABLE OR PAGE_USER)"
    using assms by (simp_all add: security_user_buffer_valid_def not_less not_le split: if_splits)
  have "unat n \<le> 4096" using v(2) by (simp add: word_le_nat_alt)
  then have "unat (0x800000 - n) = 8388608 - unat n" using unat_minus_le [of n "0x800000"] by (simp add: word_le_nat_alt)
  then have a: "unat (USER_STACK_BASE :: u32) \<le> unat a" "unat a + unat n \<le> unat (USER_STACK_TOP :: u32)"
    using v(3,4) \<open>unat n \<le> 4096\<close> by (simp_all add: word_le_nat_alt)
  moreover have "unat n \<noteq> 0" using v(1) by (simp add: unat_eq_0)
  ultimately have l: "unat a < unat (USER_STACK_TOP :: u32)" by linarith
  obtain pa where "translate h a = Some pa" using user_page_translate [OF v(5) a(1) l] .
  moreover have "unat a mod 4096 + unat n \<le> 4096" using stack_offset(1) [OF a(1) l] a by simp
  ultimately show ?thesis using that a v(5) by blast
qed

text \<open>The bytes of \<open>n\<close> consecutive addresses within a page.\<close>

definition page_bytes :: "heap_state \<Rightarrow> u32 \<Rightarrow> nat \<Rightarrow> u8 list" where
  "page_bytes h pa n = map (\<lambda>i. hs_memory h (pa + of_nat i)) [0..<n]"

lemma page_bytes_Suc: "page_bytes h pa (Suc n) = hs_memory h pa # page_bytes h (pa + 1) n"
  by (simp add: page_bytes_def upt_conv_Cons map_Suc_upt [symmetric] algebra_simps del: upt_Suc)

lemma translate_next:
  assumes "translate h a = Some pa" "unat a mod 4096 + Suc (Suc n) \<le> 4096"
  shows "translate h (a + 1) = Some (pa + 1)" "unat (a + 1) mod 4096 + Suc n \<le> 4096"
proof -
  have i: "unat a mod 4096 + 1 < 4096" using assms(2) by simp
  show "translate h (a + 1) = Some (pa + 1)" using translate_offset [OF assms(1) i] by simp
  show "unat (a + 1) mod 4096 + Suc n \<le> 4096" using unat_in_page [OF i] i assms(2) by (simp add: mod_Suc)
qed

lemma user_string_spec:
  "translate h a = Some pa \<Longrightarrow> unat a mod 4096 + n \<le> 4096 \<Longrightarrow>
   string_terminated h a n = Some (0 \<in> set (page_bytes h pa n)) \<and>
   user_string h a n = Some (map (\<lambda>b. char_of (unat b)) (takeWhile (\<lambda>b. b \<noteq> 0) (page_bytes h pa n)))"
proof (induction n arbitrary: a pa)
  case (Suc n)
  have l: "load_byte h a = Some (hs_memory h pa)" using Suc.prems(1) by (simp add: load_byte_def)
  show ?case
  proof (cases n)
    case 0
    then show ?thesis using l by (simp add: page_bytes_Suc) (simp add: page_bytes_def)
  next
    case (Suc m)
    then show ?thesis using l Suc.IH [OF translate_next(1)] translate_next Suc.prems by (simp add: page_bytes_Suc)
  qed
qed (simp add: page_bytes_def)


subsection \<open>What a system call writes\<close>

text \<open>
  \<open>user_write s a bs s'\<close>: \<open>s'\<close> is \<open>s\<close> with the bytes \<open>bs\<close> written at the user address
  \<open>a\<close>, inside the user stack page, which is present, writable and open to the user.
\<close>

definition user_write :: "'w system \<Rightarrow> u32 \<Rightarrow> u8 list \<Rightarrow> 'w system \<Rightarrow> bool" where
  "user_write s a bs s' \<longleftrightarrow>
     (\<exists>pa. translate (sy_heap s) a = Some pa \<and>
        unat (USER_STACK_BASE :: u32) \<le> unat a \<and> unat a + length bs \<le> unat (USER_STACK_TOP :: u32) \<and>
        user_page_flags (sy_heap s) a (PAGE_PRESENT OR PAGE_WRITABLE OR PAGE_USER) \<and>
        s' = with_heap s ((sy_heap s)\<lparr>hs_memory := overwrite (hs_memory (sy_heap s)) pa bs\<rparr>))"

lemma write_user_spec:
  assumes "security_user_buffer_valid (sy_heap s) a n" and "length bs = unat n"
  obtains s' where "write_user s a bs = Some (SECURITY_ALLOWED, s')" "user_write s a bs s'"
proof -
  obtain pa where v: "translate (sy_heap s) a = Some pa" "unat a mod 4096 + unat n \<le> 4096"
    "unat (USER_STACK_BASE :: u32) \<le> unat a" "unat a + unat n \<le> unat (USER_STACK_TOP :: u32)"
    "user_page_flags (sy_heap s) a (PAGE_PRESENT OR PAGE_WRITABLE OR PAGE_USER)"
    by (rule buffer_validE [OF assms(1)])
  let ?s = "with_heap s ((sy_heap s)\<lparr>hs_memory := overwrite (hs_memory (sy_heap s)) pa bs\<rparr>)"
  have "store_bytes (sy_heap s) a bs = Some ((sy_heap s)\<lparr>hs_memory := overwrite (hs_memory (sy_heap s)) pa bs\<rparr>)"
    using v(2) by (intro store_bytes_spec [OF v(1)]) (simp add: assms(2))
  then have "write_user s a bs = Some (SECURITY_ALLOWED, ?s)" by (simp add: write_user_def)
  moreover have "user_write s a bs ?s"
    unfolding user_write_def using v by (intro exI [of _ pa]) (simp add: assms(2))
  ultimately show ?thesis by (rule that)
qed

lemma length_images [simp]:
  "length (event_image e) = 20" "length (fs_info_image i) = 24" "length (identity_image d) = 16"
  by (simp_all add: event_image_def fs_info_image_def identity_image_def)

text \<open>The reply of a call that checks its pointers, reads an optional value and writes it.\<close>

lemma reply_spec:
  assumes v: "security_user_buffer_valid (sy_heap s) a n" and l: "\<And>x. length (enc x) = unat n"
  shows "\<exists>s'. (case v of None \<Rightarrow> Some (SECURITY_DENIED, s) | Some x \<Rightarrow> write_user s a (enc x)) =
      Some (if v = None then SECURITY_DENIED else SECURITY_ALLOWED, s') \<and>
      (if v = None then s' = s else user_write s a (enc (the v)) s')"
proof (cases v)
  case (Some x)
  obtain s' where "write_user s a (enc x) = Some (SECURITY_ALLOWED, s')" "user_write s a (enc x) s'"
    by (rule write_user_spec [OF assms(1) l])
  then show ?thesis using Some by (intro exI [of _ s']) simp
qed simp

text \<open>What each call answers: the destination, and the value found or \<open>None\<close> when it is denied.\<close>

definition checked :: "bool \<Rightarrow> 'a option \<Rightarrow> 'a option" where
  "checked c v = (if c then v else None)"

definition user_path :: "heap_state \<Rightarrow> u32 \<Rightarrow> string option" where
  "user_path h a = checked (security_user_string_valid h a = Some True)
     (user_string h a (unat USER_STACK_TOP - unat a))"

lemma user_path_spec:
  "security_user_string_valid h a = Some (user_path h a \<noteq> None)"
  "user_path h a = Some path \<Longrightarrow> \<exists>pa. translate h a = Some pa \<and>
     0 \<in> set (page_bytes h pa (unat USER_STACK_TOP - unat a)) \<and>
     path = map (\<lambda>b. char_of (unat b)) (takeWhile (\<lambda>b. b \<noteq> 0) (page_bytes h pa (unat USER_STACK_TOP - unat a)))"
proof -
  consider "security_user_string_valid h a = Some False" "user_path h a = None" |
    pa where "translate h a = Some pa"
      "security_user_string_valid h a = Some (0 \<in> set (page_bytes h pa (unat USER_STACK_TOP - unat a)))"
      "user_string h a (unat USER_STACK_TOP - unat a) = Some (map (\<lambda>b. char_of (unat b))
         (takeWhile (\<lambda>b. b \<noteq> 0) (page_bytes h pa (unat USER_STACK_TOP - unat a))))"
  proof (cases "\<not> a < USER_STACK_BASE \<and> \<not> a \<ge> USER_STACK_TOP \<and> user_page_flags h a (PAGE_PRESENT OR PAGE_USER)")
    case True
    then have a: "unat (USER_STACK_BASE :: u32) \<le> unat a" "unat a < unat (USER_STACK_TOP :: u32)"
      by (simp_all add: word_le_nat_alt word_less_nat_alt not_less not_le)
    obtain pa where pa: "translate h a = Some pa" by (rule user_page_translate [OF _ a]) (use True in blast)
    have "unat a mod 4096 + (unat USER_STACK_TOP - unat a) \<le> 4096" using stack_offset(1) [OF a] a by simp
    note string = user_string_spec [OF pa this]
    show ?thesis
    proof (rule that(2) [OF pa])
      show "security_user_string_valid h a = Some (0 \<in> set (page_bytes h pa (unat USER_STACK_TOP - unat a)))"
        using True string by (simp only: security_user_string_valid_def if_False simp_thms)
    qed (simp only: string)
  next
    case False
    then have "security_user_string_valid h a = Some False" unfolding security_user_string_valid_def by argo
    then show ?thesis using that(1) by (simp add: user_path_def checked_def)
  qed
  note cs = this
  show "security_user_string_valid h a = Some (user_path h a \<noteq> None)"
    by (rule cs) (simp_all add: user_path_def checked_def)
  show "\<exists>pa. translate h a = Some pa \<and>
     0 \<in> set (page_bytes h pa (unat USER_STACK_TOP - unat a)) \<and>
     path = map (\<lambda>b. char_of (unat b)) (takeWhile (\<lambda>b. b \<noteq> 0) (page_bytes h pa (unat USER_STACK_TOP - unat a)))"
    if p: "user_path h a = Some path"
    by (rule cs) (use p in \<open>auto simp: user_path_def checked_def split: if_splits\<close>)
qed


text \<open>The value a call that reports through memory finds, with the address it goes to.\<close>

definition user_answer ::
  "('w \<Rightarrow> ptr \<Rightarrow> fs_inode) \<Rightarrow> 'w system \<Rightarrow> u32 \<Rightarrow> u32 \<Rightarrow> u32 \<Rightarrow> u32 \<Rightarrow> u32 \<Rightarrow> (u32 \<times> u8 list) option" where
  "user_answer inode_at s n a1 a2 a3 a4 =
     (let h = sy_heap s; log = audit_list (sy_security s);
          task = ks_tasks (sy_kernel s) (ks_current_task (sy_kernel s));
          p = ks_processes (sy_kernel s) (tk_process task)
      in if n = SYSCALL_SECURITY_AUDIT_READ then
           checked (security_user_buffer_valid h a2 20)
             (map_option (\<lambda>e. (a2, event_image e)) (nth_opt log (unat a1)))
         else if n = SYSCALL_SECURITY_AUDIT_FILTER_READ then
           checked (security_user_buffer_valid h a4 20 \<and> a1 \<le> SECURITY_AUDIT_FILTER_OPERATION)
             (map_option (\<lambda>e. (a4, event_image e)) (nth_opt (filter (filter_matches a1 a2) log) (unat a3)))
         else if n = SYSCALL_SECURITY_IDENTITY then
           checked (security_user_buffer_valid h a1 16 \<and> ks_current_task (sy_kernel s) \<noteq> 0 \<and> tk_process task \<noteq> 0)
             (Some (a1, identity_image \<lparr>sii_pid = pr_pid p, sii_uid = pr_uid p, sii_gid = pr_gid p,
                          sii_privilege = pr_privilege p\<rparr>))
         else
           checked (security_user_buffer_valid h a2 24)
             (Option.bind (user_path h a1) (\<lambda>path.
                map_option (\<lambda>i. (a2, fs_info_image i)) (vfs_get_security_info inode_at (sy_vfs s) (Some path) True))))"

definition answered :: "'w system \<Rightarrow> (u32 \<times> u8 list) option \<Rightarrow> (u32 \<times> 'w system) option \<Rightarrow> bool" where
  "answered s answer outcome \<longleftrightarrow>
     (case answer of
        None \<Rightarrow> outcome = Some (SECURITY_DENIED, s)
      | Some (a, bs) \<Rightarrow> \<exists>s'. outcome = Some (SECURITY_ALLOWED, s') \<and> user_write s a bs s')"

lemma answered_reply:
  assumes "c \<Longrightarrow> security_user_buffer_valid (sy_heap s) a n" and l: "\<And>x. length (enc x) = unat n"
  shows "answered s (checked c (map_option (\<lambda>x. (a, enc x)) v))
    (if \<not> c then Some (SECURITY_DENIED, s)
     else case v of None \<Rightarrow> Some (SECURITY_DENIED, s) | Some x \<Rightarrow> write_user s a (enc x))"
proof (cases "c \<and> v \<noteq> None")
  case True
  then obtain x where x: "v = Some x" by auto
  obtain s' where "write_user s a (enc x) = Some (SECURITY_ALLOWED, s')" "user_write s a (enc x) s'"
    by (rule write_user_spec [OF assms(1) l]) (use True in blast)
  then show ?thesis using True x by (simp add: answered_def checked_def)
qed (auto simp: answered_def checked_def)

lemma buffer_nonnull: "security_user_buffer_valid h a n \<Longrightarrow> a \<noteq> 0"
  by (erule buffer_validE) auto

lemma audit_read_answered: "answered s (user_answer f s SYSCALL_SECURITY_AUDIT_READ a1 a2 a3 a4) (syscall_audit_read s a1 a2)"
  using answered_reply [of "security_user_buffer_valid (sy_heap s) a2 20" s a2 20 event_image
      "nth_opt (audit_list (sy_security s)) (unat a1)"] buffer_nonnull [of "sy_heap s" a2 20]
  by (auto simp: user_answer_def syscall_audit_read_def audit_get_spec)

lemma filter_read_answered:
  assumes "ring_ok (sy_security s)"
  shows "answered s (user_answer f s SYSCALL_SECURITY_AUDIT_FILTER_READ a1 a2 a3 a4) (syscall_audit_filter_read s a1 a2 a3 a4)"
  using answered_reply [of "security_user_buffer_valid (sy_heap s) a4 20 \<and> a1 \<le> 2" s a4 20 event_image
      "nth_opt (filter (filter_matches a1 a2) (audit_list (sy_security s))) (unat a3)"] buffer_nonnull [of "sy_heap s" a4 20]
  by (auto simp: user_answer_def syscall_audit_filter_read_def audit_get_filtered_spec [OF assms] not_less
      split: if_splits)

lemma identity_answered: "answered s (user_answer f s SYSCALL_SECURITY_IDENTITY a1 a2 a3 a4) (syscall_identity s a1)"
proof -
  let ?t = "ks_tasks (sy_kernel s) (ks_current_task (sy_kernel s))"
  let ?p = "ks_processes (sy_kernel s) (tk_process ?t)"
  show ?thesis
    using answered_reply [of "security_user_buffer_valid (sy_heap s) a1 16 \<and> ks_current_task (sy_kernel s) \<noteq> 0 \<and> tk_process ?t \<noteq> 0"
        s a1 16 identity_image "Some \<lparr>sii_pid = pr_pid ?p, sii_uid = pr_uid ?p, sii_gid = pr_gid ?p, sii_privilege = pr_privilege ?p\<rparr>"]
    by (auto simp: user_answer_def syscall_identity_def Let_def split: if_splits)
qed

lemma fs_info_answered: "answered s (user_answer f s SYSCALL_SECURITY_FS_INFO a1 a2 a3 a4) (syscall_fs_info f s a1 a2)"
proof (cases "user_path (sy_heap s) a1")
  case None
  then show ?thesis using user_path_spec(1) [of "sy_heap s" a1]
    by (simp add: user_answer_def syscall_fs_info_def answered_def checked_def Let_def)
next
  case (Some path)
  then have "user_string (sy_heap s) a1 (unat USER_STACK_TOP - unat a1) = Some path"
    by (simp add: user_path_def checked_def split: if_splits)
  then show ?thesis
    using answered_reply [of "security_user_buffer_valid (sy_heap s) a2 24" s a2 24 fs_info_image
        "vfs_get_security_info f (sy_vfs s) (Some path) True"] buffer_nonnull [of "sy_heap s" a2 24]
      user_path_spec(1) [of "sy_heap s" a1] Some
    by (auto simp: user_answer_def syscall_fs_info_def)
qed


definition reporting :: "u32 \<Rightarrow> bool" where
  "reporting n \<longleftrightarrow> n \<in> {SYSCALL_SECURITY_AUDIT_READ, SYSCALL_SECURITY_AUDIT_FILTER_READ,
     SYSCALL_SECURITY_IDENTITY, SYSCALL_SECURITY_FS_INFO}"

lemma dispatch_answered:
  assumes "ring_ok (sy_security s)" and "reporting n"
  shows "answered s (user_answer f s n a1 a2 a3 a4) (syscall_dispatcher f s n a1 a2 a3 a4 a5)"
  using assms(2) audit_read_answered [of s f a1 a2 a3 a4] filter_read_answered [OF assms(1), of f a1 a2 a3 a4]
    identity_answered [of s f a1 a2 a3 a4] fs_info_answered [of s f a1 a2 a3 a4]
  by (auto simp: reporting_def syscall_dispatcher_def)

lemma other_calls:
  assumes "\<not> reporting n" "n \<noteq> SYSCALL_ALLOC" "n \<noteq> SYSCALL_FREE"
  shows "\<exists>r s'. syscall_dispatcher f s n a1 a2 a3 a4 a5 = Some (r, s') \<and>
    (s' = s \<or> n = SYSCALL_SECURITY_CHECK \<and> (\<exists>sec. s' = s\<lparr>sy_security := sec\<rparr>))"
  using assms by (auto simp: reporting_def syscall_dispatcher_def syscall_security_check_def Let_def split: prod.splits)

lemma user_answer_shape:
  "user_answer f s n a1 a2 a3 a4 = Some (a, bs) \<Longrightarrow> a \<in> {a1, a2, a4} \<and> length bs \<le> 24"
  by (auto simp: user_answer_def Let_def checked_def bind_eq_Some_conv split: if_splits)


text \<open>What the user reads back.\<close>

lemma user_write_read:
  assumes w: "user_write s a bs s'" and i: "i < length bs"
  shows "load_byte (sy_heap s') (a + of_nat i) = Some (bs ! i)"
proof -
  obtain pa where t: "translate (sy_heap s) a = Some pa"
    and a: "unat (USER_STACK_BASE :: u32) \<le> unat a" "unat a + length bs \<le> unat (USER_STACK_TOP :: u32)"
    and s': "s' = with_heap s ((sy_heap s)\<lparr>hs_memory := overwrite (hs_memory (sy_heap s)) pa bs\<rparr>)"
    using w by (auto simp: user_write_def)
  have l: "unat a < unat (USER_STACK_TOP :: u32)" using a(2) i by linarith
  have "unat a mod 4096 + i < 4096" using stack_offset(1) [OF a(1) l] a i by simp
  from translate_offset [OF t this]
  have "load_byte (sy_heap s') (a + of_nat i) = Some (overwrite (hs_memory (sy_heap s)) pa bs (pa + of_nat i))"
    by (simp add: s' with_heap_def load_byte_def)
  moreover have "length bs \<le> 4096" using a by simp
  then have "i < 4294967296" using i by linarith
  then have "unat (pa + of_nat i - pa) = i" by (simp add: unat_of_nat)
  ultimately show ?thesis using i by (simp add: overwrite_def)
qed

subsection \<open>Properties\<close>

text \<open>The machine of the witnesses: paging is on, a kernel task runs, one decision is in the audit log.\<close>

definition ex_system :: "unit system" where
  "ex_system = \<lparr>sy_kernel = ex_three\<lparr>ks_heap := ex_paged_heap\<rparr>,
     sy_security = security_audit_record (security_init \<lparr>audit_events = [], audit_count = 0, audit_head = 0,
       audit_sequence = 0\<rparr>) 7 3 1 0,
     sy_vfs = vfs_boot () (\<lambda>_. undefined)\<rparr>"

lemma ex_system_ring: "ring_ok (sy_security ex_system)" "audit_list (sy_security ex_system) =
    [\<lparr>ev_sequence = 1, ev_pid = 7, ev_privilege = 3, ev_operation = 1, ev_result = 0\<rparr>]"
  by (simp_all add: ex_system_def security_audit_record_def security_init_def ring_ok_def audit_list_def event_at_def
      Let_def)

lemma ex_system_buffer: "security_user_buffer_valid (sy_heap ex_system) 0x7FF100 20"
proof -
  have p: "page_of 0x7FF100 \<in> user_pages" by (simp add: page_of_def user_pages_def)
  have "pages_of ex_space 0x7FF100 = Some 0x7FF007"
    unfolding ex_space_def paging_init_entry using p by (simp add: page_of_def)
  then have "user_page_flags ex_paged_heap 0x7FF100 (PAGE_PRESENT OR PAGE_WRITABLE OR PAGE_USER)"
    by (simp add: user_page_flags_def pages_of_def ex_paged_heap_def ex_heap_def ex_vm_def Let_def not_le split: if_splits)
  then show ?thesis
    by (simp add: security_user_buffer_valid_def ex_system_def)
qed

text \<open>
  C5: whatever a user program passes to a system call other than the two that
  manage the heap, the call returns without a page fault. It changes nothing,
  except that the security check replaces the audit log, or it succeeds in
  reporting through memory: then at most 24 bytes change, at one of the addresses
  the program passed, all of them inside its own stack page, which is mapped,
  writable and open to the user; no kernel object and no file system changes.
\<close>

theorem syscall_memory_safe:
  assumes "ring_ok (sy_security s)" and "n \<noteq> SYSCALL_ALLOC" and "n \<noteq> SYSCALL_FREE"
  shows "\<exists>r s'. syscall_dispatcher inode_at s n a1 a2 a3 a4 a5 = Some (r, s') \<and>
    (s' = s \<or>
     n = SYSCALL_SECURITY_CHECK \<and> (\<exists>sec. s' = s\<lparr>sy_security := sec\<rparr>) \<or>
     r = SECURITY_ALLOWED \<and> (\<exists>a bs. a \<in> {a1, a2, a4} \<and> length bs \<le> 24 \<and> user_write s a bs s'))"
proof (cases "reporting n")
  case True
  have A: "answered s (user_answer inode_at s n a1 a2 a3 a4) (syscall_dispatcher inode_at s n a1 a2 a3 a4 a5)"
    by (rule dispatch_answered [OF assms(1) True])
  show ?thesis
  proof (cases "user_answer inode_at s n a1 a2 a3 a4")
    case None
    then show ?thesis using A by (simp add: answered_def)
  next
    case (Some ab)
    obtain a bs where ab: "ab = (a, bs)" by fastforce
    obtain s' where "syscall_dispatcher inode_at s n a1 a2 a3 a4 a5 = Some (SECURITY_ALLOWED, s')" "user_write s a bs s'"
      using A Some ab by (auto simp: answered_def)
    moreover have "a \<in> {a1, a2, a4} \<and> length bs \<le> 24"
      using user_answer_shape [of inode_at s n a1 a2 a3 a4 a bs] by (simp only: Some ab simp_thms)
    ultimately show ?thesis by (intro exI [of _ SECURITY_ALLOWED] exI [of _ s'] conjI disjI2 exI [of _ a] exI [of _ bs]) simp_all
  qed
next
  case False
  then show ?thesis using other_calls [OF False assms(2,3)] by blast
qed

theorem syscall_memory_safe_witness:
  "\<exists>r s'. syscall_dispatcher (\<lambda>_ _. zero_fs_inode) ex_system SYSCALL_SECURITY_AUDIT_READ 0 0x7FF100 0 0 0 = Some (r, s') \<and>
     ks_tasks (sy_kernel s') = ks_tasks (sy_kernel ex_system)"
  using syscall_memory_safe [OF ex_system_ring(1), of SYSCALL_SECURITY_AUDIT_READ "\<lambda>_ _. zero_fs_inode" 0 "0x7FF100" 0 0 0]
  by (auto simp: user_write_def with_heap_def)

text \<open>
  C27: the calls that report through memory give the user exactly what the kernel
  holds, the indexed event of the audit log or of its filtered view, the identity
  of the running process, the security data of the file at the path in user
  memory. They are denied, without any effect, exactly when the value does not
  exist or a pointer does not pass its check; otherwise the user reads back the
  bytes of the value at the address it passed.
\<close>

theorem syscall_reports_exact:
  assumes "ring_ok (sy_security s)" and "reporting n"
  shows "case user_answer inode_at s n a1 a2 a3 a4 of
      None \<Rightarrow> syscall_dispatcher inode_at s n a1 a2 a3 a4 a5 = Some (SECURITY_DENIED, s)
    | Some (a, bs) \<Rightarrow> \<exists>s'. syscall_dispatcher inode_at s n a1 a2 a3 a4 a5 = Some (SECURITY_ALLOWED, s') \<and>
        user_write s a bs s' \<and> map (\<lambda>i. load_byte (sy_heap s') (a + of_nat i)) [0..<length bs] = map Some bs"
proof (cases "user_answer inode_at s n a1 a2 a3 a4")
  case None
  then show ?thesis using dispatch_answered [OF assms, of inode_at a1 a2 a3 a4 a5] by (simp add: answered_def)
next
  case (Some ab)
  obtain a bs where ab: "ab = (a, bs)" by fastforce
  obtain s' where s': "syscall_dispatcher inode_at s n a1 a2 a3 a4 a5 = Some (SECURITY_ALLOWED, s')" "user_write s a bs s'"
    using dispatch_answered [OF assms, of inode_at a1 a2 a3 a4 a5] Some ab by (auto simp: answered_def)
  have "map (\<lambda>i. load_byte (sy_heap s') (a + of_nat i)) [0..<length bs] = map Some bs"
    using user_write_read [OF s'(2)] by (intro nth_equalityI) simp_all
  then show ?thesis unfolding Some ab using s' by (simp only: option.case prod.case) blast
qed

theorem syscall_reports_exact_witness:
  "\<exists>s'. syscall_dispatcher (\<lambda>_ _. zero_fs_inode) ex_system SYSCALL_SECURITY_AUDIT_READ 0 0x7FF100 0 0 0 =
     Some (SECURITY_ALLOWED, s') \<and> load_byte (sy_heap s') 0x7FF104 = Some 7"
proof -
  let ?bs = "event_image \<lparr>ev_sequence = 1, ev_pid = 7, ev_privilege = 3, ev_operation = 1, ev_result = 0\<rparr>"
  have "user_answer (\<lambda>_ _. zero_fs_inode) ex_system SYSCALL_SECURITY_AUDIT_READ 0 0x7FF100 0 0 = Some (0x7FF100, ?bs)"
    by (simp add: user_answer_def ex_system_buffer ex_system_ring(2) checked_def nth_opt_def)
  moreover have "reporting SYSCALL_SECURITY_AUDIT_READ" by (simp add: reporting_def)
  ultimately obtain s' where s': "syscall_dispatcher (\<lambda>_ _. zero_fs_inode) ex_system SYSCALL_SECURITY_AUDIT_READ 0 0x7FF100 0 0 0 =
      Some (SECURITY_ALLOWED, s')"
    "map (\<lambda>i. load_byte (sy_heap s') (0x7FF100 + of_nat i)) [0..<length ?bs] = map Some ?bs"
    using syscall_reports_exact [OF ex_system_ring(1), of SYSCALL_SECURITY_AUDIT_READ "\<lambda>_ _. zero_fs_inode" 0 "0x7FF100" 0 0 0] by auto
  have "map (\<lambda>i. load_byte (sy_heap s') (0x7FF100 + of_nat i)) [0..<length ?bs] ! 4 = map Some ?bs ! 4"
    unfolding s'(2) ..
  then have "load_byte (sy_heap s') 0x7FF104 = Some 7" by (simp add: event_image_def u32_bytes_def)
  then show ?thesis using s'(1) by blast
qed

end
