(* ===== verification/Shell_Filesystem.thy ===== *)
theory Shell_Filesystem
  imports Vfs_Adapter Block_Device
begin

section \<open>The file system of the shell\<close>

text \<open>
  \<open>shell_filesystem_init\<close> of \<open>kernel.c\<close>: it clears the RAM disk, registers InitraFS
  with the VFS and mounts it, in this order, and undoes the registration when
  mounting fails. The three addresses are those of the static objects
  \<open>shell_filesystem\<close>, \<open>shell_filesystem_instance\<close> and \<open>shell_filesystem_device\<close>;
  the pair is the state of the VFS and the flag \<open>shell_filesystem_mounted\<close>.
\<close>

definition INITRAFS_TEST_FILE_DISK_BLOCKS :: u32 where [simp]: "INITRAFS_TEST_FILE_DISK_BLOCKS = 64"

definition shell_filesystem_device :: "u8 list option block_device" where
  "shell_filesystem_device =
     \<lparr>bd_block_size = INITRAFS_BLOCK_SIZE, bd_block_count = INITRAFS_TEST_FILE_DISK_BLOCKS,
      bd_private_data = Some (replicate (unat (INITRAFS_TEST_FILE_DISK_BLOCKS * INITRAFS_BLOCK_SIZE)) 0),
      bd_read = Some initrafs_test_disk_read, bd_write = Some initrafs_test_disk_write\<rparr>"

definition set_device :: "'d world vfs \<Rightarrow> ptr \<Rightarrow> 'd block_device \<Rightarrow> 'd world vfs" where
  "set_device v p d = v\<lparr>vfs_world := (vfs_world v)\<lparr>fw_device := (fw_device (vfs_world v))(p := d)\<rparr>\<rparr>"

definition set_filesystem :: "'w vfs \<Rightarrow> ptr \<Rightarrow> 'w filesystem_t \<Rightarrow> 'w vfs" where
  "set_filesystem v p f = v\<lparr>vfs_filesystem_at := (vfs_filesystem_at v)(p := f)\<rparr>"

definition shell_filesystem_init ::
  "ptr \<Rightarrow> ptr \<Rightarrow> ptr \<Rightarrow> u8 list option world vfs \<times> u32 \<Rightarrow> bool \<times> u8 list option world vfs \<times> u32" where
  "shell_filesystem_init filesystem instance device s =
     (let (v, mounted) = s; v = set_device v device shell_filesystem_device
      in case initrafs_vfs_init (filesystem \<noteq> NULL) instance of
           None \<Rightarrow> (False, v, mounted)
         | Some f \<Rightarrow>
             let v = set_filesystem v filesystem f; (registered, v) = filesystem_register v filesystem
             in if \<not> registered then (False, v, mounted)
                else
                  let (ok, v) = vfs_mount v filesystem device
                  in if \<not> ok then (False, snd (filesystem_unregister v filesystem), mounted)
                     else (True, snd (vfs_set_caller_identity v 0 0), 1))"

lemma shell_device_ok: "ram_disk_ok shell_filesystem_device"
  by (simp add: ram_disk_ok_def shell_filesystem_device_def)

lemma set_fields [simp]:
  "vfs_filesystems (set_device v p d) = vfs_filesystems v" "vfs_open_files (set_device v p d) = vfs_open_files v"
  "vfs_active_filesystem (set_device v p d) = vfs_active_filesystem v" "vfs_filesystem_at (set_device v p d) = vfs_filesystem_at v"
  "fw_device (vfs_world (set_device v p d)) = (fw_device (vfs_world v))(p := d)"
  "fw_instance (vfs_world (set_device v p d)) = fw_instance (vfs_world v)"
  "vfs_filesystems (set_filesystem u q f) = vfs_filesystems u" "vfs_open_files (set_filesystem u q f) = vfs_open_files u"
  "vfs_active_filesystem (set_filesystem u q f) = vfs_active_filesystem u" "vfs_world (set_filesystem u q f) = vfs_world u"
  "vfs_filesystem_at (set_filesystem u q f) = (vfs_filesystem_at u)(q := f)"
  by (simp_all add: set_device_def set_filesystem_def)

lemma registered_set [simp]: "registered (set_device v p d) = registered v" "registered (set_filesystem u q f) = registered u"
  by (simp_all add: registered_def)

lemma vfs_ok_set [simp]: "vfs_ok (set_device v p d) = vfs_ok v" "vfs_ok (set_filesystem u q f) = vfs_ok u"
  by (simp_all add: vfs_ok_def some_file_open_def)

text \<open>Mounting InitraFS on a registered, unmounted file system.\<close>

lemma mount_initrafs:
  assumes ok: "vfs_ok v" and r: "fsp \<in> registered v" "vfs_active_filesystem v = NULL"
    and f: "Some (vfs_filesystem_at v fsp) = initrafs_vfs_init True p"
    and w: "p \<noteq> NULL" "dev \<noteq> NULL" "in_mounted (fw_instance (vfs_world v) p) = 0"
      "initrafs_instance_init (vfs_world v) p dev = (True, w')"
  shows "vfs_mount v fsp dev = (True, v\<lparr>vfs_world := w', vfs_active_filesystem := fsp\<rparr>) \<and>
    vfs_ok (v\<lparr>vfs_world := w', vfs_active_filesystem := fsp\<rparr>) \<and>
    initrafs_active (v\<lparr>vfs_world := w', vfs_active_filesystem := fsp\<rparr>) p"
proof -
  have m: "fs_mount (vfs_filesystem_at v fsp) = Some initrafs_vfs_mount" "fs_private_data (vfs_filesystem_at v fsp) = p"
    using f w(1) by (auto simp: initrafs_vfs_init_def)
  have mm: "initrafs_vfs_mount (vfs_world v) p dev = (True, w')" using w by (simp add: initrafs_vfs_mount_def initrafs_vfs_instance_def)
  have e: "vfs_mount v fsp dev = (True, v\<lparr>vfs_world := w', vfs_active_filesystem := fsp\<rparr>)"
    using r w(2) m mm by (simp add: vfs_mount_def is_registered_iff)
  have "fsp \<noteq> NULL" using r(1) by (simp add: registered_def)
  then have "initrafs_active (v\<lparr>vfs_world := w', vfs_active_filesystem := fsp\<rparr>) p"
    using f by (simp add: initrafs_active_def active_def)
  moreover have "vfs_ok (v\<lparr>vfs_world := w', vfs_active_filesystem := fsp\<rparr>)"
    using vfs_mount_ok [OF ok, of fsp dev] e by simp
  ultimately show ?thesis using e by blast
qed

text \<open>The listing of a root directory that is the whole tree.\<close>

lemma root_listing:
  assumes a: "initrafs_active v p" "instance_ok (vfs_world v) p" and r: "ns_root_inode (the_ns (vfs_world v) p) = 1"
    and c: "children (fw_store (vfs_world v)) (the_ns (vfs_world v) p) = [1 \<mapsto> [''.'' \<mapsto> 1, ''..'' \<mapsto> 1]]"
  shows "\<exists>es. length es = 2 \<and> (\<forall>out. vfs_readdir v (Some ''/'') (Some out) 480 = (2, Some (es @ drop 2 out)))"
proof -
  let ?st = "fw_store (vfs_world v)" and ?ns = "the_ns (vfs_world v) p"
  note T = instance_okD(6) [OF a(2)]
  have "children ?st ?ns 1 = Some [''.'' \<mapsto> 1, ''..'' \<mapsto> 1]" using c by simp
  then obtain node where n: "ns_map ?st ?ns 1 = Some node" "node_is_dir ?st node"
    "dir_map (node_entries ?st node) = [''.'' \<mapsto> 1, ''..'' \<mapsto> 1]"
    by (auto simp: children_def split: option.splits if_splits)
  have l: "initrafs_path_lookup ?st (Some ?ns) (Some ''/'') True = Some 1"
    using path_lookup_walk [OF T, of "''/''"] r by simp
  define es where "es = filter entry_used (node_entries ?st node)"
  have "dir_ok (node_entries ?st node)" using tree_okD [OF T n(1)] n(2) by blast
  then have "distinct (map entry_name es)" by (simp add: dir_ok_def wf_directory_def es_def)
  then have "length es = card (entry_name ` set es)" using distinct_card [of "map entry_name es"] by simp
  also have "entry_name ` set es = dom (dir_map (node_entries ?st node))" by (simp add: dom_dir_map es_def)
  also have "card \<dots> = 2" by (simp add: n(3))
  finally have e: "length es = 2" .
  have "vfs_readdir v (Some ''/'') (Some out) 480 = (2, Some (es @ drop 2 out))" for out
    using vfs_readdir_initrafs [OF a l n(1,2), of out 480] e by (simp add: es_def)
  then show ?thesis using e by blast
qed


text \<open>The system just booted: static objects at addresses 1 to 4, nothing registered.\<close>

definition ex_boot_world :: "u8 list option world" where
  "ex_boot_world =
     \<lparr>fw_store = \<lparr>st_inode = \<lambda>_. zero_fs_inode, st_disk_inode = \<lambda>_. zero_disk_inode, st_entries = \<lambda>_. []\<rparr>,
      fw_device = (\<lambda>_. shell_filesystem_device),
      fw_instance = (\<lambda>_. \<lparr>in_root_inode = 10, in_root_disk_inode = 11, in_root_entries = 12, in_device = NULL,
        in_block_allocator = zero_block_allocator, in_inode_allocator = zero_inode_allocator,
        in_namespace = zero_namespace, in_mounted = 0\<rparr>)\<rparr>"

definition ex_boot_vfs :: "u8 list option world vfs" where
  "ex_boot_vfs = vfs_boot ex_boot_world (\<lambda>_. the (initrafs_vfs_init True 1))"


end
