(* ===== verification/Shell.thy ===== *)
theory Shell
  imports User_Programs Tasks Security_Core
begin

section \<open>Screen, keyboard and shell\<close>

text \<open>
  The text screen, the keyboard handler and the command shell of \<open>kernel.c\<close>.

  The screen is the function from the cells of the text memory at \<open>0xB8000\<close>, 80
  to a row, to their contents. The counters of the line editor are \<open>int\<close>
  variables of the source that never become negative; they are natural numbers
  here, bounded by the invariant \<open>shell_ok\<close>. A flag is a boolean. Entering a user
  program is a parameter: \<open>task_switch\<close> and the programs are assembly.
\<close>

definition KEYBOARD_BUFFER_SIZE :: nat where [simp]: "KEYBOARD_BUFFER_SIZE = 128"

record shell_state =
  sh_vga :: "nat \<Rightarrow> 16 word"
  keyboard_buffer :: string
  keyboard_index :: nat
  keyboard_column :: nat
  keyboard_row :: nat
  shift_pressed :: bool
  secaudit_requested :: bool
  secinfo_requested :: bool
  secusers_requested :: bool
  secperm_requested :: bool
  secaudit_filter_type :: u32
  secaudit_filter_value :: u32
  cpu_vendor :: string

subsection \<open>Screen\<close>

text \<open>A character, signed as in the source, with the attribute light grey on black.\<close>

definition vga_cell :: "char \<Rightarrow> 16 word" where
  "vga_cell c = 0x0700 OR scast (of_char c :: u8)"

definition put_cell :: "shell_state \<Rightarrow> nat \<Rightarrow> 16 word \<Rightarrow> shell_state" where
  "put_cell s pos cell = s\<lparr>sh_vga := (sh_vga s)(pos := cell)\<rparr>"

lemma put_cell_column [simp]: "keyboard_column (put_cell s pos cell) = keyboard_column s"
  by (simp add: put_cell_def)

fun print_at :: "shell_state \<Rightarrow> nat \<Rightarrow> nat \<Rightarrow> string \<Rightarrow> shell_state" where
  "print_at s row column [] = s"
| "print_at s row column (c # text) =
     (if column < 80 then print_at (put_cell s (row * 80 + column) (vga_cell c)) row (column + 1) text
      else s)"

definition clear_screen :: "shell_state \<Rightarrow> shell_state" where
  "clear_screen s = fold (\<lambda>i s. put_cell s i 0x0720) [0..<80 * 25] s"

subsection \<open>Commands\<close>

text \<open>The loop of \<open>command_equals\<close>: the number of characters compared when all agree.\<close>

fun command_loop :: "string \<Rightarrow> nat \<Rightarrow> string \<Rightarrow> nat option" where
  "command_loop buffer i [] = Some i"
| "command_loop buffer i (c # command) =
     (if buffer ! i \<noteq> c then None else command_loop buffer (i + 1) command)"

definition command_equals :: "shell_state \<Rightarrow> string \<Rightarrow> bool" where
  "command_equals s command = (command_loop (keyboard_buffer s) 0 command = Some (keyboard_index s))"

definition shell_prompt :: "shell_state \<Rightarrow> shell_state" where
  "shell_prompt s = (print_at s (keyboard_row s) 0 ''InitraOS> '')\<lparr>keyboard_column := 10\<rparr>"

definition next_row :: "shell_state \<Rightarrow> shell_state" where
  "next_row s = s\<lparr>keyboard_row := keyboard_row s + 1\<rparr>"

text \<open>\<open>keyboard_row++\<close> and a message at the start of the new row.\<close>

definition print_line :: "string \<Rightarrow> shell_state \<Rightarrow> shell_state" where
  "print_line text s = (let s = next_row s in print_at s (keyboard_row s) 0 text)"

text \<open>The common end of the commands: empty line, wrap of the row, prompt.\<close>

definition shell_done :: "shell_state \<Rightarrow> shell_state" where
  "shell_done s =
     (let s = s\<lparr>keyboard_index := 0\<rparr>;
          s = (if keyboard_row s \<ge> 25 then s\<lparr>keyboard_row := 13\<rparr> else s)
      in shell_prompt s)"

definition shell_help :: "shell_state \<Rightarrow> shell_state" where
  "shell_help s =
     next_row (fold print_line
       [''Commands:'', ''help'', ''clear'', ''cpu'', ''about'', ''secaudit'', ''secinfo'', ''secusers'', ''secperm''] s)"

definition request_secaudit :: "u32 \<Rightarrow> u32 \<Rightarrow> shell_state \<Rightarrow> shell_state" where
  "request_secaudit filter_type filter_value s =
     s\<lparr>secaudit_filter_type := filter_type, secaudit_filter_value := filter_value,
       secaudit_requested := True, keyboard_index := 0\<rparr>"

definition shell_execute :: "shell_state \<Rightarrow> shell_state" where
  "shell_execute s =
     (if command_equals s ''clear'' then
        shell_prompt ((clear_screen s)\<lparr>keyboard_index := 0, keyboard_row := 13\<rparr>)
      else if command_equals s ''cpu'' then
        let s = print_line ''CPU: '' s;
            s = next_row (print_at s (keyboard_row s) 5 (cpu_vendor s))
        in shell_done s
      else if command_equals s ''help'' then shell_done (shell_help s)
      else if command_equals s ''about'' then
        shell_done (next_row (print_line ''InitraOS - custom 32-bit operating system'' s))
      else if command_equals s ''secinfo'' then s\<lparr>secinfo_requested := True, keyboard_index := 0\<rparr>
      else if command_equals s ''secusers'' then s\<lparr>secusers_requested := True, keyboard_index := 0\<rparr>
      else if command_equals s ''secperm'' then s\<lparr>secperm_requested := True, keyboard_index := 0\<rparr>
      else if command_equals s ''secaudit --denied'' then
        request_secaudit SECURITY_AUDIT_FILTER_RESULT SECURITY_DENIED s
      else if command_equals s ''secaudit --allowed'' then
        request_secaudit SECURITY_AUDIT_FILTER_RESULT SECURITY_ALLOWED s
      else if command_equals s ''secaudit'' then request_secaudit SECURITY_AUDIT_FILTER_ALL 0 s
      else if keyboard_index s > 0 then shell_done (next_row (print_line ''Unknown command'' s))
      else shell_done s)"

subsection \<open>Keyboard\<close>

definition scancode_char :: "u8 \<Rightarrow> char option" where
  "scancode_char scancode = map_of
     [(0x10, CHR ''q''), (0x11, CHR ''w''), (0x12, CHR ''e''), (0x13, CHR ''r''), (0x14, CHR ''t''),
      (0x15, CHR ''y''), (0x16, CHR ''u''), (0x17, CHR ''i''), (0x18, CHR ''o''), (0x19, CHR ''p''),
      (0x1E, CHR ''a''), (0x1F, CHR ''s''), (0x20, CHR ''d''), (0x21, CHR ''f''), (0x22, CHR ''g''),
      (0x23, CHR ''h''), (0x24, CHR ''j''), (0x25, CHR ''k''), (0x26, CHR ''l''),
      (0x2C, CHR ''z''), (0x2D, CHR ''x''), (0x2E, CHR ''c''), (0x2F, CHR ''v''), (0x30, CHR ''b''),
      (0x31, CHR ''n''), (0x32, CHR ''m''), (0x39, CHR '' ''), (0x0C, CHR ''-'')] scancode"

definition shifted :: "char \<Rightarrow> char" where
  "shifted c = (if (97 :: nat) \<le> of_char c \<and> of_char c \<le> (122 :: nat) then char_of (of_char c - 97 + (65 :: nat)) else c)"

definition keyboard_handle :: "u8 \<Rightarrow> shell_state \<Rightarrow> shell_state" where
  "keyboard_handle scancode s =
     (if scancode = 0x2A \<or> scancode = 0x36 then s\<lparr>shift_pressed := True\<rparr>
      else if scancode = 0xAA \<or> scancode = 0xB6 then s\<lparr>shift_pressed := False\<rparr>
      else if scancode = 0x0E then
        (if keyboard_column s > 10 \<and> keyboard_index s > 0 then
           let s = s\<lparr>keyboard_column := keyboard_column s - 1, keyboard_index := keyboard_index s - 1\<rparr>;
               s = s\<lparr>keyboard_buffer := (keyboard_buffer s)[keyboard_index s := CHR 0x00]\<rparr>
           in put_cell s (keyboard_row s * 80 + keyboard_column s) 0x0720
         else s)
      else if scancode = 0x1C then
        shell_execute (s\<lparr>keyboard_buffer := (keyboard_buffer s)[keyboard_index s := CHR 0x00]\<rparr>)
      else case scancode_char scancode of
        None \<Rightarrow> s
      | Some c \<Rightarrow>
          let c = (if shift_pressed s then shifted c else c)
          in if keyboard_index s < KEYBOARD_BUFFER_SIZE - 1 \<and> keyboard_column s < 80 then
               let s = s\<lparr>keyboard_buffer := (keyboard_buffer s)[keyboard_index s := c],
                         keyboard_index := keyboard_index s + 1\<rparr>;
                   s = put_cell s (keyboard_row s * 80 + keyboard_column s) (vga_cell c)
               in s\<lparr>keyboard_column := keyboard_column s + 1\<rparr>
             else s)"


subsection \<open>Facts about the screen and the commands\<close>

lemma vga_same: "(\<And>pos. f pos = sh_vga s pos) \<Longrightarrow> s\<lparr>sh_vga := f\<rparr> = s"
  by (cases s) (simp add: fun_eq_iff)

lemma print_at_eq:
  "column \<le> 80 \<Longrightarrow> print_at s row column msg = s\<lparr>sh_vga := (\<lambda>pos.
     if row * 80 + column \<le> pos \<and> pos < row * 80 + 80 \<and> pos < row * 80 + column + length msg
     then vga_cell (msg ! (pos - (row * 80 + column))) else sh_vga s pos)\<rparr>"
proof (induction msg arbitrary: s column)
  case (Cons c msg)
  show ?case
  proof (cases "column < 80")
    case True
    have "print_at s row column (c # msg) = print_at (put_cell s (row * 80 + column) (vga_cell c)) row (column + 1) msg"
      using True by simp
    also have "\<dots> = s\<lparr>sh_vga := (\<lambda>pos.
       if row * 80 + column \<le> pos \<and> pos < row * 80 + 80 \<and> pos < row * 80 + column + length (c # msg)
       then vga_cell ((c # msg) ! (pos - (row * 80 + column))) else sh_vga s pos)\<rparr>"
      using True by (subst Cons.IH) (auto simp: put_cell_def fun_eq_iff nth_Cons' intro!: arg_cong [where f = vga_cell] arg_cong2 [where f = nth])
    finally show ?thesis .
  next
    case False
    then show ?thesis by (subst vga_same) (auto simp: vga_same)
  qed
next
  case Nil
  show ?case by (subst vga_same) auto
qed

declare print_at.simps [simp del]

lemma clear_screen_eq: "clear_screen s = s\<lparr>sh_vga := (\<lambda>pos. if pos < 2000 then 0x0720 else sh_vga s pos)\<rparr>"
proof -
  have "fold (\<lambda>i s. put_cell s i 0x0720) [0..<n] s = s\<lparr>sh_vga := (\<lambda>pos. if pos < n then 0x0720 else sh_vga s pos)\<rparr>" for n
    by (induction n) (auto simp: put_cell_def fun_eq_iff less_Suc_eq)
  then show ?thesis by (simp add: clear_screen_def)
qed

lemma command_loop_eq:
  "i + length command \<le> length buffer \<Longrightarrow>
   command_loop buffer i command =
     (if take (length command) (drop i buffer) = command then Some (i + length command) else None)"
proof (induction command arbitrary: i)
  case (Cons c command)
  then have "drop i buffer = buffer ! i # drop (Suc i) buffer" by (intro Cons_nth_drop_Suc [symmetric]) simp
  then show ?case using Cons by simp
qed simp

text \<open>The line typed so far.\<close>

definition shell_line :: "shell_state \<Rightarrow> string" where
  "shell_line s = take (keyboard_index s) (keyboard_buffer s)"

lemma command_equals_iff:
  assumes "keyboard_index s \<le> length (keyboard_buffer s)" and "length command \<le> length (keyboard_buffer s)"
  shows "command_equals s command \<longleftrightarrow> shell_line s = command"
  using assms by (auto simp: command_equals_def command_loop_eq shell_line_def)

text \<open>Every reachable state of the editor.\<close>

definition shell_ok :: "shell_state \<Rightarrow> bool" where
  "shell_ok s \<longleftrightarrow> length (keyboard_buffer s) = KEYBOARD_BUFFER_SIZE \<and>
     10 + keyboard_index s \<le> keyboard_column s \<and> keyboard_column s \<le> 80 \<and>
     13 \<le> keyboard_row s \<and> keyboard_row s \<le> 24"


text \<open>Which cells a step may change, and what printing keeps.\<close>

definition writes_below :: "nat \<Rightarrow> shell_state \<Rightarrow> shell_state \<Rightarrow> bool" where
  "writes_below n s s' \<longleftrightarrow> (\<forall>pos \<ge> n. sh_vga s' pos = sh_vga s pos)"

lemma writes_below_refl [simp]: "writes_below n s s"
  by (simp add: writes_below_def)

lemma writes_below_trans: "writes_below n s s' \<Longrightarrow> writes_below n s' s'' \<Longrightarrow> writes_below n s s''"
  by (simp add: writes_below_def)

text \<open>Everything but the screen: printing keeps it, and a new row or a prompt changes a counter of it.\<close>

definition blank :: "shell_state \<Rightarrow> shell_state" where
  "blank s = s\<lparr>sh_vga := \<lambda>_. 0\<rparr>"

lemma blank_print [simp]: "column \<le> 80 \<Longrightarrow> blank (print_at s row column msg) = blank s"
  by (simp add: blank_def print_at_eq)

lemma blank_fields:
  assumes "blank s = blank s'"
  shows "keyboard_buffer s = keyboard_buffer s'" "keyboard_index s = keyboard_index s'"
    "keyboard_column s = keyboard_column s'" "keyboard_row s = keyboard_row s'" "shift_pressed s = shift_pressed s'"
    "secaudit_requested s = secaudit_requested s'" "secinfo_requested s = secinfo_requested s'"
    "secusers_requested s = secusers_requested s'" "secperm_requested s = secperm_requested s'"
    "secaudit_filter_type s = secaudit_filter_type s'" "secaudit_filter_value s = secaudit_filter_value s'"
    "cpu_vendor s = cpu_vendor s'"
  using assms by (cases s; cases s'; simp add: blank_def)+

lemma print_below: "column \<le> 80 \<Longrightarrow> row < r \<Longrightarrow> writes_below (r * 80) s (print_at s row column msg)"
  by (auto simp: writes_below_def print_at_eq)

lemma print_line_spec:
  assumes "keyboard_row s + 1 < r"
  shows "blank (print_line msg s) = blank (next_row s)" "writes_below (r * 80) s (print_line msg s)"
    "keyboard_row (print_line msg s) = keyboard_row s + 1"
proof -
  show b: "blank (print_line msg s) = blank (next_row s)" by (simp add: print_line_def Let_def)
  show "keyboard_row (print_line msg s) = keyboard_row s + 1" using blank_fields(4) [OF b] by (simp add: next_row_def)
  show "writes_below (r * 80) s (print_line msg s)"
    using print_below [of 0 "keyboard_row s + 1" r "next_row s" msg] assms
    by (simp add: print_line_def Let_def next_row_def writes_below_def)
qed

lemma blank_next_row: "blank s = blank s' \<Longrightarrow> blank (next_row s) = blank (next_row s')"
  by (cases s; cases s') (simp add: blank_def next_row_def)

lemma print_lines_spec:
  "keyboard_row s + length msgs < r \<Longrightarrow>
   blank (fold print_line msgs s) = blank (s\<lparr>keyboard_row := keyboard_row s + length msgs\<rparr>) \<and>
   writes_below (r * 80) s (fold print_line msgs s)"
proof (induction msgs arbitrary: s)
  case (Cons msg msgs)
  have b: "blank (print_line msg s) = blank (next_row s)" "writes_below (r * 80) s (print_line msg s)"
    "keyboard_row (print_line msg s) = keyboard_row s + 1"
    using print_line_spec [of s r msg] Cons.prems by simp_all
  have "blank (fold print_line msgs (print_line msg s)) =
      blank ((print_line msg s)\<lparr>keyboard_row := keyboard_row s + length (msg # msgs)\<rparr>) \<and>
    writes_below (r * 80) (print_line msg s) (fold print_line msgs (print_line msg s))"
    using Cons.IH [of "print_line msg s"] Cons.prems b(3) by simp
  moreover have "blank ((print_line msg s)\<lparr>keyboard_row := n\<rparr>) = blank (s\<lparr>keyboard_row := n\<rparr>)" for n
    using b(1) by (cases s; cases "print_line msg s") (simp add: blank_def next_row_def)
  ultimately show ?case using writes_below_trans [OF b(2)] by simp
qed (simp add: blank_def)

text \<open>The end of a command, from any row a command reaches.\<close>

lemma shell_done_spec:
  assumes "length (keyboard_buffer s) = 128" "13 \<le> keyboard_row s" "keyboard_row s \<le> 34"
  shows "shell_ok (shell_done s)" "writes_below (34 * 80) s (shell_done s)" "keyboard_index (shell_done s) = 0"
    "keyboard_column (shell_done s) = 10"
    "blank (shell_done s) = blank (s\<lparr>keyboard_index := 0, keyboard_column := 10,
       keyboard_row := (if keyboard_row s \<ge> 25 then 13 else keyboard_row s)\<rparr>)"
proof -
  let ?s = "s\<lparr>keyboard_index := 0, keyboard_row := (if keyboard_row s \<ge> 25 then 13 else keyboard_row s)\<rparr>"
  have d: "shell_done s = (print_at ?s (keyboard_row ?s) 0 ''InitraOS> '')\<lparr>keyboard_column := 10\<rparr>"
    by (simp add: shell_done_def shell_prompt_def Let_def)
  have "shell_done s = s\<lparr>keyboard_index := 0, keyboard_column := 10,
      keyboard_row := (if keyboard_row s \<ge> 25 then 13 else keyboard_row s), sh_vga := sh_vga (shell_done s)\<rparr>"
    unfolding d by (simp add: print_at_eq)
  then obtain v where v: "shell_done s = s\<lparr>keyboard_index := 0, keyboard_column := 10,
      keyboard_row := (if keyboard_row s \<ge> 25 then 13 else keyboard_row s), sh_vga := v\<rparr>" by blast
  show "shell_ok (shell_done s)" "keyboard_index (shell_done s) = 0" "keyboard_column (shell_done s) = 10"
    using assms unfolding v by (auto simp: shell_ok_def)
  show "blank (shell_done s) = blank (s\<lparr>keyboard_index := 0, keyboard_column := 10,
       keyboard_row := (if keyboard_row s \<ge> 25 then 13 else keyboard_row s)\<rparr>)"
    unfolding v by (simp add: blank_def)
  show "writes_below (34 * 80) s (shell_done s)"
    using print_below [of 0 "keyboard_row ?s" 34 ?s "''InitraOS> ''"] assms(3) unfolding d
    by (simp add: writes_below_def)
qed


subsection \<open>Executing a line\<close>

text \<open>The utilities a line can start, with the filter it sets.\<close>

datatype utility = Secaudit | Secinfo | Secusers | Secperm

definition utility_of :: "string \<Rightarrow> (utility \<times> (u32 \<times> u32) option) option" where
  "utility_of line = map_of
     [(''secinfo'', (Secinfo, None)), (''secusers'', (Secusers, None)), (''secperm'', (Secperm, None)),
      (''secaudit --denied'', (Secaudit, Some (SECURITY_AUDIT_FILTER_RESULT, SECURITY_DENIED))),
      (''secaudit --allowed'', (Secaudit, Some (SECURITY_AUDIT_FILTER_RESULT, SECURITY_ALLOWED))),
      (''secaudit'', (Secaudit, Some (SECURITY_AUDIT_FILTER_ALL, 0)))] line"

text \<open>The editor a user sees: the line, the room left in the row, shift, and what has been requested.\<close>

record editor =
  ed_line :: string
  ed_room :: nat
  ed_shift :: bool
  ed_requests :: "utility set"
  ed_filter :: "u32 \<times> u32"

definition requests :: "shell_state \<Rightarrow> utility set" where
  "requests s = {u. u = Secaudit \<and> secaudit_requested s \<or> u = Secinfo \<and> secinfo_requested s \<or>
     u = Secusers \<and> secusers_requested s \<or> u = Secperm \<and> secperm_requested s}"

definition editor_of :: "shell_state \<Rightarrow> editor" where
  "editor_of s = \<lparr>ed_line = shell_line s, ed_room = 80 - keyboard_column s, ed_shift = shift_pressed s,
     ed_requests = requests s, ed_filter = (secaudit_filter_type s, secaudit_filter_value s)\<rparr>"

definition enter_line :: "editor \<Rightarrow> editor" where
  "enter_line e =
     (case utility_of (ed_line e) of
        None \<Rightarrow> e\<lparr>ed_line := [], ed_room := 70\<rparr>
      | Some (u, f) \<Rightarrow> e\<lparr>ed_line := [], ed_requests := insert u (ed_requests e),
          ed_filter := (case f of None \<Rightarrow> ed_filter e | Some x \<Rightarrow> x)\<rparr>)"

text \<open>What printing keeps determines the editor.\<close>

lemma editor_of_blank: "editor_of (blank s) = editor_of s"
  by (simp add: editor_of_def shell_line_def requests_def blank_def)

lemma editor_of_done:
  assumes "blank t = blank (s\<lparr>keyboard_row := r\<rparr>)" and "length (keyboard_buffer s) = 128" "13 \<le> r" "r \<le> 34"
  shows "shell_ok (shell_done t)" "editor_of (shell_done t) = (editor_of s)\<lparr>ed_line := [], ed_room := 70\<rparr>"
    "writes_below (34 * 80) t (shell_done t)"
proof -
  note F = blank_fields [OF assms(1)]
  have t: "length (keyboard_buffer t) = 128" "13 \<le> keyboard_row t" "keyboard_row t \<le> 34"
    using F assms(2-4) by simp_all
  note D = shell_done_spec [OF t]
  show "shell_ok (shell_done t)" "writes_below (34 * 80) t (shell_done t)" by (rule D)+
  note G = blank_fields [OF D(5)]
  show "editor_of (shell_done t) = (editor_of s)\<lparr>ed_line := [], ed_room := 70\<rparr>"
    using F G by (simp add: editor_of_def shell_line_def requests_def)
qed

lemma execute_done:
  assumes "shell_ok s" "blank t = blank (s\<lparr>keyboard_row := r\<rparr>)" "keyboard_row s \<le> r" "r \<le> keyboard_row s + 10"
    "writes_below (34 * 80) s t"
  shows "shell_ok (shell_done t) \<and> editor_of (shell_done t) = (editor_of s)\<lparr>ed_line := [], ed_room := 70\<rparr> \<and>
      writes_below (34 * 80) s (shell_done t)"
proof -
  have o: "length (keyboard_buffer s) = 128" "13 \<le> r" "r \<le> 34" using assms(1,3,4) by (simp_all add: shell_ok_def)
  show ?thesis using editor_of_done [OF assms(2) o] writes_below_trans [OF assms(5)] by simp
qed

lemma command_is:
  assumes "shell_ok s"
  shows "length cmd \<le> 128 \<Longrightarrow> command_equals s cmd \<longleftrightarrow> shell_line s = cmd"
  using command_equals_iff [of s cmd] assms by (simp add: shell_ok_def)

lemma one_line:
  assumes "shell_ok s"
  shows "blank (next_row (print_line msg s)) = blank (s\<lparr>keyboard_row := keyboard_row s + 2\<rparr>)"
    "writes_below (34 * 80) s (next_row (print_line msg s))"
proof -
  have r: "keyboard_row s + 1 < 34" using assms by (simp add: shell_ok_def)
  note L = print_line_spec [OF r, of msg]
  show "blank (next_row (print_line msg s)) = blank (s\<lparr>keyboard_row := keyboard_row s + 2\<rparr>)"
    using blank_next_row [OF L(1)] by (simp add: blank_def next_row_def)
  show "writes_below (34 * 80) s (next_row (print_line msg s))" using L(2) by (simp add: writes_below_def next_row_def)
qed

lemma execute_utility:
  assumes ok: "shell_ok s" and u: "utility_of (shell_line s) = Some (u, f)"
  shows "shell_ok (shell_execute s) \<and> editor_of (shell_execute s) = enter_line (editor_of s) \<and>
    sh_vga (shell_execute s) = sh_vga s"
proof -
  note c = command_is [OF ok]
  have e: "ed_line (editor_of s) = shell_line s" by (simp add: editor_of_def)
  have "shell_line s \<in> {''secinfo'', ''secusers'', ''secperm'', ''secaudit --denied'', ''secaudit --allowed'', ''secaudit''}"
    using u by (auto simp: utility_of_def split: if_splits)
  then show ?thesis
    using ok by (elim insertE emptyE)
      (simp_all add: shell_execute_def c enter_line_def e request_secaudit_def shell_ok_def,
       auto simp: editor_of_def shell_line_def requests_def utility_of_def)
qed

lemma execute_cpu:
  assumes ok: "shell_ok s"
  defines "t \<equiv> print_line ''CPU: '' s"
  shows "shell_ok (shell_done (next_row (print_at t (keyboard_row t) 5 (cpu_vendor t)))) \<and>
    editor_of (shell_done (next_row (print_at t (keyboard_row t) 5 (cpu_vendor t)))) = (editor_of s)\<lparr>ed_line := [], ed_room := 70\<rparr> \<and>
    writes_below (34 * 80) s (shell_done (next_row (print_at t (keyboard_row t) 5 (cpu_vendor t))))"
proof (rule execute_done [OF ok])
  have r: "keyboard_row s + 1 < 34" using ok by (simp add: shell_ok_def)
  note L = print_line_spec [OF r, of "''CPU: ''", folded t_def]
  have "blank (next_row (print_at t (keyboard_row t) 5 (cpu_vendor t))) = blank (next_row t)"
    by (intro blank_next_row) simp
  also have "\<dots> = blank (s\<lparr>keyboard_row := keyboard_row s + 2\<rparr>)"
    using blank_next_row [OF L(1)] by (simp add: blank_def next_row_def)
  finally show "blank (next_row (print_at t (keyboard_row t) 5 (cpu_vendor t))) = blank (s\<lparr>keyboard_row := keyboard_row s + 2\<rparr>)" .
  show "writes_below (34 * 80) s (next_row (print_at t (keyboard_row t) 5 (cpu_vendor t)))"
    using L(2,3) r print_below [of 5 "keyboard_row t" 34 t "cpu_vendor t"]
    by (simp add: writes_below_def next_row_def)
qed simp_all

lemma execute_help:
  assumes ok: "shell_ok s"
  shows "shell_ok (shell_done (shell_help s)) \<and>
    editor_of (shell_done (shell_help s)) = (editor_of s)\<lparr>ed_line := [], ed_room := 70\<rparr> \<and>
    writes_below (34 * 80) s (shell_done (shell_help s))"
proof (rule execute_done [OF ok])
  let ?msgs = "[''Commands:'', ''help'', ''clear'', ''cpu'', ''about'', ''secaudit'', ''secinfo'', ''secusers'', ''secperm'']"
  have "keyboard_row s + length ?msgs < 34" using ok by (simp add: shell_ok_def)
  note P = print_lines_spec [OF this]
  have n: "length ?msgs = 9" by simp
  have L: "blank (fold print_line ?msgs s) = blank (s\<lparr>keyboard_row := keyboard_row s + 9\<rparr>)"
    "writes_below (34 * 80) s (fold print_line ?msgs s)"
    using P unfolding n by blast+
  show "blank (shell_help s) = blank (s\<lparr>keyboard_row := keyboard_row s + 10\<rparr>)"
    using blank_next_row [OF L(1)] unfolding shell_help_def by (simp add: blank_def next_row_def)
  show "writes_below (34 * 80) s (shell_help s)" using L(2) unfolding shell_help_def by (simp add: writes_below_def next_row_def)
qed simp_all


lemma execute_clear:
  assumes ok: "shell_ok s"
  defines "t \<equiv> shell_prompt ((clear_screen s)\<lparr>keyboard_index := 0, keyboard_row := 13\<rparr>)"
  shows "shell_ok t \<and> editor_of t = (editor_of s)\<lparr>ed_line := [], ed_room := 70\<rparr> \<and> writes_below (34 * 80) s t"
proof -
  have t: "t = s\<lparr>keyboard_index := 0, keyboard_row := 13, keyboard_column := 10, sh_vga := sh_vga t\<rparr>"
    unfolding t_def by (cases s) (simp add: shell_prompt_def clear_screen_eq print_at_eq)
  have "writes_below (34 * 80) s t"
    by (auto simp: t_def writes_below_def shell_prompt_def clear_screen_eq print_at_eq)
  then show ?thesis using ok by (subst t, subst (2) t) (simp add: shell_ok_def editor_of_def shell_line_def requests_def)
qed

lemma shell_execute_spec:
  assumes ok: "shell_ok s"
  shows "shell_ok (shell_execute s) \<and> editor_of (shell_execute s) = enter_line (editor_of s) \<and>
    writes_below (34 * 80) s (shell_execute s)"
proof (cases "utility_of (shell_line s)")
  case (Some uf)
  then show ?thesis using execute_utility [OF ok, of "fst uf" "snd uf"] by (simp add: writes_below_def)
next
  case None
  note c = command_is [OF ok]
  have e: "enter_line (editor_of s) = (editor_of s)\<lparr>ed_line := [], ed_room := 70\<rparr>"
    using None by (simp add: enter_line_def editor_of_def)
  have n: "shell_line s \<notin> {''secinfo'', ''secusers'', ''secperm'', ''secaudit --denied'', ''secaudit --allowed'', ''secaudit''}"
    using None by (auto simp: utility_of_def)
  have n': "\<not> command_equals s ''secinfo''" "\<not> command_equals s ''secusers''" "\<not> command_equals s ''secperm''"
    "\<not> command_equals s ''secaudit --denied''" "\<not> command_equals s ''secaudit --allowed''" "\<not> command_equals s ''secaudit''"
    using n by (simp_all add: c)
  have L: "shell_ok (shell_done (next_row (print_line msg s))) \<and>
      editor_of (shell_done (next_row (print_line msg s))) = (editor_of s)\<lparr>ed_line := [], ed_room := 70\<rparr> \<and>
      writes_below (34 * 80) s (shell_done (next_row (print_line msg s)))" for msg
    by (rule execute_done [OF ok one_line(1) [OF ok] _ _ one_line(2) [OF ok]]) simp_all
  have Q: "shell_ok (shell_done s) \<and> editor_of (shell_done s) = (editor_of s)\<lparr>ed_line := [], ed_room := 70\<rparr> \<and>
      writes_below (34 * 80) s (shell_done s)"
    by (rule execute_done [OF ok, of _ "keyboard_row s"]) simp_all
  show ?thesis
    by (simp only: shell_execute_def n' if_False e Let_def L Q execute_clear [OF ok] execute_cpu [OF ok]
        execute_help [OF ok] simp_thms split: if_split)
qed


subsection \<open>The line editor\<close>

definition editor_key :: "u8 \<Rightarrow> editor \<Rightarrow> editor" where
  "editor_key k e =
     (if k \<in> {0x2A, 0x36} then e\<lparr>ed_shift := True\<rparr>
      else if k \<in> {0xAA, 0xB6} then e\<lparr>ed_shift := False\<rparr>
      else if k = 0x0E then
        (if ed_line e = [] then e else e\<lparr>ed_line := butlast (ed_line e), ed_room := ed_room e + 1\<rparr>)
      else if k = 0x1C then enter_line e
      else case scancode_char k of
        None \<Rightarrow> e
      | Some c \<Rightarrow>
          if ed_room e = 0 then e
          else e\<lparr>ed_line := ed_line e @ [if ed_shift e then shifted c else c], ed_room := ed_room e - 1\<rparr>)"

definition key_ok :: "u8 \<Rightarrow> shell_state \<Rightarrow> shell_state \<Rightarrow> bool" where
  "key_ok k s s' \<longleftrightarrow> shell_ok s' \<and> editor_of s' = editor_key k (editor_of s) \<and> writes_below (34 * 80) s s' \<and>
     (k \<noteq> 0x1C \<longrightarrow> (\<forall>pos. sh_vga s' pos \<noteq> sh_vga s pos \<longrightarrow>
        keyboard_row s * 80 + 10 \<le> pos \<and> pos < keyboard_row s * 80 + 80))"

lemma shift_ok:
  assumes "shell_ok s"
  shows "k \<in> {0x2A, 0x36} \<Longrightarrow> key_ok k s (s\<lparr>shift_pressed := True\<rparr>)"
    "k \<in> {0xAA, 0xB6} \<Longrightarrow> key_ok k s (s\<lparr>shift_pressed := False\<rparr>)"
  using assms by (auto simp: key_ok_def shell_ok_def editor_of_def editor_key_def shell_line_def requests_def writes_below_def)

lemma line_empty: "shell_ok s \<Longrightarrow> shell_line s = [] \<longleftrightarrow> keyboard_index s = 0"
  by (auto simp: shell_line_def shell_ok_def)

lemma backspace_ok:
  assumes ok: "shell_ok s" and i: "keyboard_index s > 0"
  defines "j \<equiv> keyboard_index s - 1"
  shows "key_ok 0x0E s (put_cell (s\<lparr>keyboard_column := keyboard_column s - 1, keyboard_index := j,
    keyboard_buffer := (keyboard_buffer s)[j := CHR 0x00]\<rparr>) (keyboard_row s * 80 + (keyboard_column s - 1)) 0x0720)"
proof -
  have o: "length (keyboard_buffer s) = 128" "10 + keyboard_index s \<le> keyboard_column s" "keyboard_column s \<le> 80"
    "13 \<le> keyboard_row s" "keyboard_row s \<le> 24" using ok by (simp_all add: shell_ok_def)
  have l: "take j ((keyboard_buffer s)[j := c]) = butlast (shell_line s)" for c
    using o i by (simp add: shell_line_def butlast_take j_def)
  have "shell_line s \<noteq> []" using i line_empty [OF ok] by simp
  then show ?thesis using o i
    by (auto simp: key_ok_def put_cell_def shell_ok_def editor_of_def editor_key_def requests_def writes_below_def
        j_def [symmetric] shell_line_def [of "_\<lparr>sh_vga := _\<rparr>"] l) (simp_all add: j_def)
qed

lemma type_ok:
  assumes ok: "shell_ok s" and c: "keyboard_column s < 80" "scancode_char k = Some c"
    and k: "k \<notin> {0x2A, 0x36, 0xAA, 0xB6, 0x0E, 0x1C}"
  defines "d \<equiv> (if shift_pressed s then shifted c else c)"
  shows "key_ok k s ((put_cell (s\<lparr>keyboard_buffer := (keyboard_buffer s)[keyboard_index s := d],
    keyboard_index := keyboard_index s + 1\<rparr>) (keyboard_row s * 80 + keyboard_column s) (vga_cell d))
    \<lparr>keyboard_column := keyboard_column s + 1\<rparr>)"
proof -
  have o: "length (keyboard_buffer s) = 128" "10 + keyboard_index s \<le> keyboard_column s"
    "13 \<le> keyboard_row s" "keyboard_row s \<le> 24" using ok by (simp_all add: shell_ok_def)
  have l: "take (Suc (keyboard_index s)) ((keyboard_buffer s)[keyboard_index s := d]) = shell_line s @ [d]"
    using o c(1) by (simp add: shell_line_def take_Suc_conv_app_nth)
  have e: "editor_key k (editor_of s) =
      (editor_of s)\<lparr>ed_line := shell_line s @ [d], ed_room := 80 - keyboard_column s - 1\<rparr>"
    using k c by (simp add: editor_key_def editor_of_def d_def)
  show ?thesis unfolding key_ok_def e using o c(1)
    by (auto simp: put_cell_def shell_ok_def editor_of_def requests_def writes_below_def
        shell_line_def [of "_\<lparr>keyboard_column := _\<rparr>"] l)
qed

lemma enter_ok:
  assumes ok: "shell_ok s"
  defines "t \<equiv> s\<lparr>keyboard_buffer := (keyboard_buffer s)[keyboard_index s := CHR 0x00]\<rparr>"
  shows "key_ok 0x1C s (shell_execute t)"
proof -
  have t: "shell_ok t" using ok by (simp add: t_def shell_ok_def)
  moreover have "editor_of t = editor_of s" by (simp add: t_def editor_of_def shell_line_def requests_def)
  moreover have "writes_below n t u = writes_below n s u" for n u by (simp add: t_def writes_below_def)
  ultimately show ?thesis using shell_execute_spec [OF t] by (simp add: key_ok_def editor_key_def)
qed

lemma idle_ok:
  assumes "shell_ok s" "editor_key k (editor_of s) = editor_of s"
  shows "key_ok k s s"
  using assms by (simp add: key_ok_def)

lemma keyboard_handle_ok:
  assumes ok: "shell_ok s"
  shows "key_ok k s (keyboard_handle k s)"
proof -
  have o: "10 + keyboard_index s \<le> keyboard_column s" "keyboard_column s \<le> 80" using ok by (simp_all add: shell_ok_def)
  consider "k \<in> {0x2A, 0x36}" | "k \<in> {0xAA, 0xB6}" | "k = 0x0E" | "k = 0x1C"
    | "k \<notin> {0x2A, 0x36, 0xAA, 0xB6, 0x0E, 0x1C}" by blast
  then show ?thesis
  proof cases
    case 1
    then show ?thesis using shift_ok(1) [OF ok] by (auto simp: keyboard_handle_def)
  next
    case 2
    then show ?thesis using shift_ok(2) [OF ok] by (auto simp: keyboard_handle_def)
  next
    case 3
    show ?thesis
    proof (cases "keyboard_index s > 0")
      case True
      then show ?thesis using backspace_ok [OF ok] o 3 by (simp add: keyboard_handle_def Let_def)
    next
      case False
      then have "editor_key k (editor_of s) = editor_of s"
        using 3 line_empty [OF ok] by (simp add: editor_key_def editor_of_def)
      then show ?thesis using idle_ok [OF ok] False 3 by (simp add: keyboard_handle_def)
    qed
  next
    case 4
    then show ?thesis using enter_ok [OF ok] by (simp add: keyboard_handle_def)
  next
    case 5
    show ?thesis
    proof (cases "scancode_char k = None \<or> keyboard_column s = 80")
      case True
      then have "editor_key k (editor_of s) = editor_of s"
        using 5 by (auto simp: editor_key_def editor_of_def split: option.split)
      then show ?thesis using idle_ok [OF ok] True 5 by (auto simp: keyboard_handle_def Let_def split: option.split)
    next
      case False
      then obtain c where c: "scancode_char k = Some c" "keyboard_column s < 80" using o by fastforce
      then show ?thesis using type_ok [OF ok c(2,1) 5] o 5 by (cases "shift_pressed s") (simp_all add: keyboard_handle_def Let_def)
    qed
  qed
qed


text \<open>The shell as the kernel enters it: a prompt on row 13 of the screen.\<close>

definition ex_shell :: shell_state where
  "ex_shell = shell_prompt \<lparr>sh_vga = (\<lambda>_. 0x0720), keyboard_buffer = replicate 128 CHR 0x00, keyboard_index = 0,
     keyboard_column = 0, keyboard_row = 13, shift_pressed = False, secaudit_requested = False,
     secinfo_requested = False, secusers_requested = False, secperm_requested = False,
     secaudit_filter_type = 0, secaudit_filter_value = 0, cpu_vendor = ''GenuineIntel''\<rparr>"

lemma ex_shell_ok: "shell_ok ex_shell" "editor_of ex_shell = \<lparr>ed_line = [], ed_room = 70, ed_shift = False,
    ed_requests = {}, ed_filter = (0, 0)\<rparr>"
  by (simp_all add: ex_shell_def shell_prompt_def print_at_eq shell_ok_def editor_of_def shell_line_def requests_def)

text \<open>
  C19: for every sequence of scan codes the keyboard handler and the shell behave
  like a line editor: a character key appends its character, capital while shift
  is held, when there is room in the row, backspace removes the last character,
  and enter empties the line and requests exactly the utility, with its audit
  filter, that the line names, whatever was typed and erased before. The position
  in the buffer stays below its size, the cursor and the row stay on the screen,
  and only the cells of the first 34 rows of the text memory are ever written.
\<close>

theorem keyboard_line_editor:
  assumes "shell_ok s"
  shows "editor_of (fold keyboard_handle ks s) = fold editor_key ks (editor_of s) \<and>
    shell_ok (fold keyboard_handle ks s) \<and> writes_below (34 * 80) s (fold keyboard_handle ks s)"
  using assms
proof (induction ks arbitrary: s)
  case (Cons k ks)
  have k: "shell_ok (keyboard_handle k s)" "editor_of (keyboard_handle k s) = editor_key k (editor_of s)"
    "writes_below (34 * 80) s (keyboard_handle k s)"
    using keyboard_handle_ok [OF Cons.prems] by (simp_all add: key_ok_def)
  show ?case using Cons.IH [OF k(1)] k(2) writes_below_trans [OF k(3)] by simp
qed simp

text \<open>Typing \<open>cz\<close>, erasing the \<open>z\<close>, typing \<open>p\<close> with shift held; typing \<open>secinfo\<close> and enter.\<close>

theorem keyboard_line_editor_witness:
  "shell_line (fold keyboard_handle [0x2E, 0x2C, 0x0E, 0x2A, 0x19, 0xAA] ex_shell) = ''cP'' \<and>
   requests (fold keyboard_handle [0x1F, 0x12, 0x2E, 0x17, 0x31, 0x21, 0x18, 0x1C] ex_shell) = {Secinfo}"
proof -
  have s: "scancode_char 0x2E = Some (CHR ''c'')" "scancode_char 0x2C = Some (CHR ''z'')" "scancode_char 0x19 = Some (CHR ''p'')"
    "scancode_char 0x1F = Some (CHR ''s'')" "scancode_char 0x12 = Some (CHR ''e'')" "scancode_char 0x17 = Some (CHR ''i'')"
    "scancode_char 0x31 = Some (CHR ''n'')" "scancode_char 0x21 = Some (CHR ''f'')" "scancode_char 0x18 = Some (CHR ''o'')"
    by (simp_all add: scancode_char_def)
  have l: "shell_line t = ed_line (editor_of t)" "requests t = ed_requests (editor_of t)" for t
    by (simp_all add: editor_of_def)
  have P: "char_of (80 :: nat) = CHR ''P''" by (simp add: char_of_def bit_0)
  show ?thesis
    unfolding l keyboard_line_editor [OF ex_shell_ok(1), THEN conjunct1] ex_shell_ok(2)
    by (simp add: editor_key_def s P shifted_def enter_line_def utility_of_def)
qed

end
