(* ===== verification/Shell_Utilities.thy ===== *)
theory Shell_Utilities
  imports Shell
begin

section \<open>Running the user-space utilities\<close>

text \<open>
  The four \<open>shell_run_\<close> functions of \<open>kernel.c\<close> and the round of the main loop
  that calls them. What a user program does between the two task switches is the
  parameter \<open>run\<close>, on the state of the kernel; \<open>None\<close> is a program that never
  comes back. A round is one step: keys that arrive while a utility runs are not
  interleaved with it.
\<close>

record console =
  cn_shell :: shell_state
  cn_kernel :: kernel_state

definition load_u32 :: "heap_state \<Rightarrow> u32 \<Rightarrow> u32 option" where
  "load_u32 h a =
     do { b0 \<leftarrow> load_byte h a; b1 \<leftarrow> load_byte h (a + 1); b2 \<leftarrow> load_byte h (a + 2); b3 \<leftarrow> load_byte h (a + 3);
          Some (u32_of_bytes b0 b1 b2 b3) }"

definition store_u32 :: "kernel_state \<Rightarrow> u32 \<Rightarrow> u32 \<Rightarrow> kernel_state option" where
  "store_u32 k a w = do { h \<leftarrow> store_bytes (ks_heap k) a (u32_bytes w); Some (k\<lparr>ks_heap := h\<rparr>) }"

text \<open>The end of each function: a message, then an empty line and a prompt.\<close>

definition report :: "string \<Rightarrow> shell_state \<Rightarrow> shell_state" where
  "report msg s = shell_done (print_line msg s)"

text \<open>
  The common part from the scheduling of the task to its destruction; the
  messages tell a marker word found, a wrong one, and a task that has not exited.
\<close>

definition enter_task :: "kernel_state \<Rightarrow> u32 \<Rightarrow> kernel_state" where
  "enter_task k task =
     (let k = task_set_state k task TASK_READY
      in task_set_state (k\<lparr>ks_current_task := task\<rparr>) task TASK_RUNNING)"

definition run_task ::
  "(kernel_state \<Rightarrow> kernel_state option) \<Rightarrow> kernel_state \<Rightarrow> u32 \<Rightarrow> u32 \<Rightarrow> u32 \<Rightarrow> string \<times> string \<times> string \<Rightarrow>
   (string \<times> kernel_state) option" where
  "run_task run k task offset marker msgs =
     do {
       k \<leftarrow> run (enter_task k task);
       msg \<leftarrow> (if tk_state (ks_tasks k task) = TASK_FINISHED \<and> ks_current_task k = task
              then do { w \<leftarrow> load_u32 (ks_heap k) (USER_STACK_BASE + offset);
                        Some (if w = marker then fst msgs else fst (snd msgs)) }
              else Some (snd (snd msgs)));
       k \<leftarrow> task_destroy (k\<lparr>ks_current_task := 0\<rparr>) task;
       Some (msg, k) }"

definition with_space :: "kernel_state \<Rightarrow> (u32 option \<times> heap_state) option \<Rightarrow> (u32 option \<times> kernel_state) option" where
  "with_space k r = map_option (\<lambda>(entry, h). (entry, k\<lparr>ks_heap := h\<rparr>)) r"

definition shell_run_secinfo ::
  "(kernel_state \<Rightarrow> kernel_state option) \<Rightarrow> user_images \<Rightarrow> console \<Rightarrow> console option" where
  "shell_run_secinfo run images c =
     do {
       let s = clear_screen (cn_shell c);
       (entry, k) \<leftarrow> with_space (cn_kernel c) (user_secinfo_prepare (ks_heap (cn_kernel c)) images True);
       (msg, k) \<leftarrow> (case entry of
           None \<Rightarrow> Some (''secinfo: user image prepare failed'', k)
         | Some entry \<Rightarrow> do {
             (task, k) \<leftarrow> task_create_user k 0 entry;
             if task = 0 \<or> tk_context (ks_tasks k task) = 0
             then Some (''secinfo: user task create failed'', k)
             else run_task run k task 0x1A0 0x53494E46
               (''secinfo: status read completed'', ''secinfo: status read failed'', ''secinfo: user task exit failed'') });
       Some \<lparr>cn_shell = report msg s, cn_kernel = k\<rparr> }"

definition shell_run_secperm ::
  "(kernel_state \<Rightarrow> kernel_state option) \<Rightarrow> user_images \<Rightarrow> console \<Rightarrow> console option" where
  "shell_run_secperm run images c =
     do {
       let s = clear_screen (cn_shell c);
       (entry, k) \<leftarrow> with_space (cn_kernel c) (user_secperm_prepare (ks_heap (cn_kernel c)) images True);
       (msg, k) \<leftarrow> (case entry of
           None \<Rightarrow> Some (''secperm: user image prepare failed'', k)
         | Some entry \<Rightarrow> do {
             (task, k) \<leftarrow> task_create_user k 0 entry;
             if task = 0 \<or> tk_context (ks_tasks k task) = 0
             then Some (''secperm: user task create failed'', k)
             else run_task run k task 0x1A4 0x5343504D
               (''secperm: security metadata read completed'', ''secperm: security metadata read failed'',
                ''secperm: user task exit failed'') });
       Some \<lparr>cn_shell = report msg s, cn_kernel = k\<rparr> }"

text \<open>\<open>identity\<close> is the address of the process descriptor on the kernel stack.\<close>

definition shell_run_secusers ::
  "u32 \<Rightarrow> (kernel_state \<Rightarrow> kernel_state option) \<Rightarrow> user_images \<Rightarrow> console \<Rightarrow> console option" where
  "shell_run_secusers identity run images c =
     do {
       let s = clear_screen (cn_shell c);
       (entry, k) \<leftarrow> with_space (cn_kernel c) (user_secusers_prepare (ks_heap (cn_kernel c)) images True);
       (msg, k) \<leftarrow> (case entry of
           None \<Rightarrow> Some (''secusers: user image prepare failed'', k)
         | Some entry \<Rightarrow> do {
             let k = put_process k identity
                   \<lparr>pr_pid = ks_next_process_id k, pr_state = TASK_READY, pr_privilege = TASK_USER,
                    pr_uid = INITRAOS_DEFAULT_UID, pr_gid = INITRAOS_DEFAULT_GID, pr_address_space = 0, pr_task = 0\<rparr>;
             let k = k\<lparr>ks_next_process_id := ks_next_process_id k + 1\<rparr>;
             (task, k) \<leftarrow> task_create_user k identity entry;
             if task = 0 \<or> tk_context (ks_tasks k task) = 0
             then do {
               k \<leftarrow> (if task \<noteq> 0 then task_destroy k task else Some k);
               Some (''secusers: task allocation failed'', k) }
             else run_task run (put_process k identity ((ks_processes k identity)\<lparr>pr_task := task\<rparr>)) task 0x1A4 0x53435553
               (''secusers: identity read successful'', ''secusers: identity read failed'',
                ''secusers: user task exit failed'') });
       Some \<lparr>cn_shell = report msg s, cn_kernel = k\<rparr> }"

definition shell_run_secaudit ::
  "u32 \<Rightarrow> u32 \<Rightarrow> (kernel_state \<Rightarrow> kernel_state option) \<Rightarrow> user_images \<Rightarrow> console \<Rightarrow> console option" where
  "shell_run_secaudit filter_type filter_value run images c =
     do {
       let s = clear_screen (cn_shell c);
       (entry, k) \<leftarrow> with_space (cn_kernel c) (user_secaudit_prepare (ks_heap (cn_kernel c)) images True);
       (msg, k) \<leftarrow> (case entry of
           None \<Rightarrow> Some (''secaudit: user image prepare failed'', k)
         | Some entry \<Rightarrow> do {
             k \<leftarrow> store_u32 k (USER_STACK_BASE + 0x1C0) filter_type;
             k \<leftarrow> store_u32 k (USER_STACK_BASE + 0x1C4) filter_value;
             (task, k) \<leftarrow> task_create_user k 0 entry;
             if task = 0 \<or> tk_context (ks_tasks k task) = 0
             then Some (''secaudit: user task create failed'', k)
             else run_task run k task 0x180 0x53454341
               (''secaudit: audit read completed'', ''secaudit: audit read failed'', ''secaudit: user task exit failed'') });
       Some \<lparr>cn_shell = report msg s, cn_kernel = k\<rparr> }"

text \<open>One round of the loop at the end of \<open>kernel_main\<close>.\<close>

definition poll_one :: "bool \<Rightarrow> (shell_state \<Rightarrow> shell_state) \<Rightarrow> (console \<Rightarrow> console option) \<Rightarrow> console \<Rightarrow> console option" where
  "poll_one requested clear run_utility c =
     (if requested then run_utility (c\<lparr>cn_shell := clear (cn_shell c)\<rparr>) else Some c)"

definition shell_poll ::
  "u32 \<Rightarrow> (kernel_state \<Rightarrow> kernel_state option) \<Rightarrow> user_images \<Rightarrow> console \<Rightarrow> console option" where
  "shell_poll identity run images c =
     do {
       c \<leftarrow> poll_one (secinfo_requested (cn_shell c)) (secinfo_requested_update (\<lambda>_. False))
              (shell_run_secinfo run images) c;
       c \<leftarrow> poll_one (secusers_requested (cn_shell c)) (secusers_requested_update (\<lambda>_. False))
              (shell_run_secusers identity run images) c;
       c \<leftarrow> poll_one (secperm_requested (cn_shell c)) (secperm_requested_update (\<lambda>_. False))
              (shell_run_secperm run images) c;
       poll_one (secaudit_requested (cn_shell c)) (secaudit_requested_update (\<lambda>_. False))
              (\<lambda>c. shell_run_secaudit (secaudit_filter_type (cn_shell c)) (secaudit_filter_value (cn_shell c))
                     run images c) c }"

end
