(* ===== verification/Shell_Round.thy ===== *)
theory Shell_Round
  imports Shell_Utilities Task_Properties
begin

section \<open>A round of the main loop\<close>

text \<open>
  Launching a utility composes the loader, the creation of a user task, the task
  switch and the destruction of the task. The lemmas follow one launch through
  these steps; \<open>kernel_kept\<close> states what it leaves of the kernel.
\<close>

subsection \<open>Memory contents do not matter to the kernel's bookkeeping\<close>

lemma kernel_memory [simp]:
  "live_blocks (h\<lparr>hs_memory := m\<rparr>) = live_blocks h" "kernel_heap_ok (h\<lparr>hs_memory := m\<rparr>) = kernel_heap_ok h"
proof -
  have "paged_size (h\<lparr>hs_memory := m\<rparr>) = paged_size h" by (simp add: paged_size_def fun_eq_iff)
  then show "live_blocks (h\<lparr>hs_memory := m\<rparr>) = live_blocks h" by (simp add: live_blocks_def heap_ok_memory)
qed (simp add: heap_ok_memory kernel_heap_ok_def paged_ok_def)

abbreviation with_memory :: "kernel_state \<Rightarrow> (u32 \<Rightarrow> u8) \<Rightarrow> kernel_state" where
  "with_memory k m \<equiv> k\<lparr>ks_heap := (ks_heap k)\<lparr>hs_memory := m\<rparr>\<rparr>"

lemma kernel_ok_memory [simp]: "kernel_ok (with_memory k m) xs = kernel_ok k xs"
  by (simp add: kernel_ok_def kernel_tasks_def task_chain_def)

definition user_mapped :: "kernel_state \<Rightarrow> bool" where
  "user_mapped k \<longleftrightarrow> translate (ks_heap k) USER_CODE_BASE \<noteq> None \<and> translate (ks_heap k) USER_STACK_BASE \<noteq> None"

lemma user_mapped_memory [simp]: "user_mapped (with_memory k m) = user_mapped k"
  by (simp add: user_mapped_def)

lemma user_mapped_part: "process_part k' = process_part k \<Longrightarrow> user_mapped k' = user_mapped k"
  using process_part_translate [of k' k USER_CODE_BASE] process_part_translate [of k' k USER_STACK_BASE]
  by (simp add: user_mapped_def)

lemma prepare_keeps:
  assumes "user_mapped k" and "length img < 2 ^ 32"
  obtains entry m where "with_space k (prepare_image (ks_heap k) img True) = Some (entry, with_memory k m)"
proof -
  obtain pa ps where t: "translate (ks_heap k) USER_CODE_BASE = Some pa" "translate (ks_heap k) USER_STACK_BASE = Some ps"
    using assms(1) by (auto simp: user_mapped_def)
  note P = prepare_image_spec [OF t assms(2)]
  show ?thesis
  proof (cases "program_valid (program_header img) (length img)")
    case True
    then show ?thesis using that P by (simp add: with_space_def)
  next
    case False
    then show ?thesis using that [of None "hs_memory (ks_heap k)"] P by (simp add: with_space_def)
  qed
qed

subsection \<open>Words in the user stack page\<close>

lemma stack_bytes:
  assumes "user_mapped k" and "offset + i < 4096"
  obtains pa where "translate (ks_heap k) (USER_STACK_BASE + of_nat offset + of_nat i) = Some pa"
proof -
  obtain ps where t: "translate (ks_heap k) USER_STACK_BASE = Some ps" using assms(1) by (auto simp: user_mapped_def)
  have "translate (ks_heap k) (USER_STACK_BASE + of_nat (offset + i)) = Some (ps + of_nat (offset + i))"
    by (rule translate_offset [OF t]) (use assms(2) in simp)
  then show ?thesis using that by (simp add: add.assoc)
qed

lemma load_stack_word:
  assumes "user_mapped k" and "offset + 4 \<le> 4096"
  obtains w where "load_u32 (ks_heap k) (USER_STACK_BASE + of_nat offset) = Some w"
proof -
  have "\<exists>pa. translate (ks_heap k) (USER_STACK_BASE + of_nat offset + of_nat i) = Some pa" if "i < 4" for i
    using stack_bytes [OF assms(1), of offset i] assms(2) that by auto
  from this [of 0] this [of 1] this [of 2] this [of 3]
  obtain b0 b1 b2 b3 where "load_byte (ks_heap k) (USER_STACK_BASE + of_nat offset) = Some b0"
    "load_byte (ks_heap k) (USER_STACK_BASE + of_nat offset + 1) = Some b1"
    "load_byte (ks_heap k) (USER_STACK_BASE + of_nat offset + 2) = Some b2"
    "load_byte (ks_heap k) (USER_STACK_BASE + of_nat offset + 3) = Some b3" by (auto simp: load_byte_def)
  then show ?thesis using that by (simp add: load_u32_def)
qed

lemma store_stack_word:
  assumes "user_mapped k" and "offset + 4 \<le> 4096"
  obtains m where "store_u32 k (USER_STACK_BASE + of_nat offset) w = Some (with_memory k m)"
proof -
  obtain pa where t: "translate (ks_heap k) (USER_STACK_BASE + of_nat offset) = Some pa"
    using stack_bytes [OF assms(1), of offset 0] assms(2) by auto
  have "unat (USER_STACK_BASE + of_nat offset :: u32) = 8384512 + offset"
    using unat_in_page [of USER_STACK_BASE offset] assms(2) by simp
  then have "unat (USER_STACK_BASE + of_nat offset :: u32) mod 4096 = offset"
    using assms(2) mod_mult_self3 [of 2047 4096 offset] by simp
  then show ?thesis using that store_bytes_spec [OF t, of "u32_bytes w"] assms(2)
    by (simp add: store_u32_def)
qed

subsection \<open>What a launch leaves of the kernel\<close>

text \<open>
  A kernel running no task, with the tasks \<open>ys\<close> added at the end of the list; they
  are tasks without a context, and without them the blocks in use are the same.
\<close>

definition kernel_kept :: "kernel_state \<Rightarrow> u32 list \<Rightarrow> kernel_state \<Rightarrow> u32 list \<Rightarrow> bool" where
  "kernel_kept k xs k' ys \<longleftrightarrow> kernel_ok k' (xs @ ys) \<and> ks_current_task k' = 0 \<and> user_mapped k' \<and>
     live_blocks (ks_heap k) \<subseteq>\<^sub>m live_blocks (ks_heap k') \<and>
     (ys = [] \<longrightarrow> live_blocks (ks_heap k') = live_blocks (ks_heap k)) \<and>
     (\<forall>t \<in> set ys. tk_context (ks_tasks k' t) = 0) \<and>
     (\<forall>t \<in> set xs. tk_context (ks_tasks k' t) = tk_context (ks_tasks k t))"

lemma kernel_kept_refl: "kernel_ok k xs \<Longrightarrow> ks_current_task k = 0 \<Longrightarrow> user_mapped k \<Longrightarrow> kernel_kept k xs k []"
  by (simp add: kernel_kept_def)

lemma kernel_kept_trans:
  assumes "kernel_kept k xs k' ys" and "kernel_kept k' (xs @ ys) k'' zs"
  shows "kernel_kept k xs k'' (ys @ zs)"
  using assms map_le_trans [of "live_blocks (ks_heap k)" "live_blocks (ks_heap k')" "live_blocks (ks_heap k'')"]
  by (auto simp: kernel_kept_def)

lemma task_data_context: "task_data k' t = task_data k t \<Longrightarrow> tk_context (ks_tasks k' t) = tk_context (ks_tasks k t)"
  by (drule arg_cong [where f = tk_context]) (simp add: task_data_def)

text \<open>A new user task: its blocks are its record and its context.\<close>

definition new_task :: "kernel_state \<Rightarrow> u32 list \<Rightarrow> u32 \<Rightarrow> kernel_state \<Rightarrow> bool" where
  "new_task k xs t k' \<longleftrightarrow> t \<noteq> 0 \<and> t \<notin> set xs \<and> kernel_tasks kernel_heap_ok live_blocks k' (xs @ [t]) \<and>
     tk_stack_base (ks_tasks k' t) = USER_STACK_BASE \<and>
     live_blocks (ks_heap k) \<subseteq>\<^sub>m live_blocks (ks_heap k') \<and>
     (live_blocks (ks_heap k'))(t := None, tk_context (ks_tasks k' t) := None) = live_blocks (ks_heap k) \<and>
     set xs \<subseteq> dom (live_blocks (ks_heap k)) \<and>
     (\<forall>x \<in> set xs. tk_context (ks_tasks k' x) = tk_context (ks_tasks k x))"

lemma create_user:
  assumes k: "kernel_kept k xs k []"
  obtains t k' where "task_create_user k p e = Some (t, k')" "ks_current_task k' = 0" "process_part k' = process_part k"
    "t = 0 \<and> kernel_kept k xs k' [] \<or> new_task k xs t k'"
proof -
  have K: "kernel_tasks kernel_heap_ok live_blocks k xs" "ks_current_task k = 0" "user_mapped k"
    using k by (simp_all add: kernel_kept_def kernel_ok_def)
  have z: "live_blocks (ks_heap k) 0 = None" by (rule kernel_blocks.blocks_zero) (use K(1) in \<open>simp add: kernel_tasks_def\<close>)
  obtain r s' where C: "task_create_user k p e = Some (r, s')" "ks_current_task s' = ks_current_task k" "process_part s' = process_part k"
    "(r = 0 \<and> kernel_tasks kernel_heap_ok live_blocks s' xs \<and> live_blocks (ks_heap s') = live_blocks (ks_heap k) \<and>
        (\<forall>t \<in> set xs. ks_tasks s' t = ks_tasks k t)) \<or>
     (r \<noteq> 0 \<and> r \<notin> set xs \<and> kernel_tasks kernel_heap_ok live_blocks s' (xs @ [r]) \<and>
        (\<forall>t. t \<noteq> r \<longrightarrow> task_data s' t = task_data k t) \<and> live_blocks (ks_heap k) r = None \<and>
        tk_id (ks_tasks s' r) = ks_next_task_id k \<and> tk_privilege (ks_tasks s' r) = TASK_USER \<and>
        tk_process (ks_tasks s' r) = p \<and> tk_stack_base (ks_tasks s' r) = USER_STACK_BASE \<and>
        (\<exists>m \<ge> 36. if tk_context (ks_tasks s' r) = 0
           then tk_state (ks_tasks s' r) = TASK_FINISHED \<and> live_blocks (ks_heap s') = (live_blocks (ks_heap k))(r \<mapsto> m)
           else tk_state (ks_tasks s' r) = TASK_READY \<and> tk_context (ks_tasks s' r) \<noteq> r \<and>
             live_blocks (ks_heap k) (tk_context (ks_tasks s' r)) = None \<and>
             cx_eip (ks_contexts s' (tk_context (ks_tasks s' r))) = e \<and>
             cx_esp (ks_contexts s' (tk_context (ks_tasks s' r))) = USER_STACK_TOP \<and>
             cx_privilege (ks_contexts s' (tk_context (ks_tasks s' r))) = TASK_USER \<and>
             (\<exists>k2 \<ge> 44. live_blocks (ks_heap s') = (live_blocks (ks_heap k))(r \<mapsto> m, tk_context (ks_tasks s' r) \<mapsto> k2))))"
    by (rule kernel_blocks.task_create_user_spec [OF K(1), of p e]) (rule that; assumption)
  show ?thesis
  proof (cases "r = 0")
    case True
    then have "kernel_kept k xs s' []" using C(2,4) K user_mapped_part [OF C(3)] by (auto simp: kernel_kept_def kernel_ok_def)
    then show ?thesis using that C(1-3) K(2) True by simp
  next
    case False
    let ?c = "tk_context (ks_tasks s' r)" and ?B = "live_blocks (ks_heap k)"
    have F: "r \<notin> set xs" "kernel_tasks kernel_heap_ok live_blocks s' (xs @ [r])" "\<forall>t. t \<noteq> r \<longrightarrow> task_data s' t = task_data k t"
      "?B r = None" "tk_stack_base (ks_tasks s' r) = USER_STACK_BASE" using C(4) False by simp_all
    have "\<exists>m k2. live_blocks (ks_heap s') = (if ?c = 0 then ?B(r \<mapsto> m) else ?B(r \<mapsto> m, ?c \<mapsto> k2)) \<and>
        (?c \<noteq> 0 \<longrightarrow> ?c \<noteq> r \<and> ?B ?c = None)" using C(4) False by (auto split: if_splits)
    then obtain m k2 where B: "live_blocks (ks_heap s') = (if ?c = 0 then ?B(r \<mapsto> m) else ?B(r \<mapsto> m, ?c \<mapsto> k2))"
      "?c \<noteq> 0 \<longrightarrow> ?c \<noteq> r \<and> ?B ?c = None" by blast
    have "?B \<subseteq>\<^sub>m live_blocks (ks_heap s')" using B F(4) by (auto simp: map_le_def dom_def)
    moreover have "(live_blocks (ks_heap s'))(r := None, ?c := None) = ?B" using B F(4) z by (auto simp: fun_eq_iff)
    moreover have "\<forall>x \<in> set xs. tk_context (ks_tasks s' x) = tk_context (ks_tasks k x)"
      using F(1,3) by (auto intro!: task_data_context)
    ultimately have "new_task k xs r s'" using False F(1,2,5) K(1) by (simp add: new_task_def kernel_tasks_def)
    then show ?thesis using that C(1-3) K(2) by simp
  qed
qed

text \<open>Destroying the new task undoes its creation.\<close>

lemma destroy_new:
  assumes n: "new_task k xs t k1" and c: "ks_current_task k1 = 0" and u: "user_mapped k1"
  obtains k2 where "task_destroy k1 t = Some k2" "kernel_kept k xs k2 []"
proof -
  note N = n [unfolded new_task_def]
  have K: "kernel_tasks kernel_heap_ok live_blocks k1 (xs @ [t])" "t \<in> set (xs @ [t])" "t \<noteq> ks_current_task k1"
    using N c by simp_all
  obtain k2 where D: "task_destroy k1 t = Some k2" "task_chain k2 (remove1 t (xs @ [t]))" "kernel_heap_ok (ks_heap k2)"
    "ks_current_task k2 = ks_current_task k1" "\<forall>a. a \<noteq> t \<longrightarrow> task_data k2 a = task_data k1 a"
    "live_blocks (ks_heap k2) = (\<lambda>r. if r = t \<or> r = tk_context (ks_tasks k1 t) \<or>
        r = tk_stack_base (ks_tasks k1 t) \<and> r \<noteq> USER_STACK_BASE then None else live_blocks (ks_heap k1) r)"
    "process_part k2 = process_part k1"
    by (rule kernel_blocks.task_destroy_spec [OF K]) (rule that; assumption)
  have sb: "tk_stack_base (ks_tasks k1 t) = USER_STACK_BASE" using N by blast
  have "live_blocks (ks_heap k2) = (live_blocks (ks_heap k1))(t := None, tk_context (ks_tasks k1 t) := None)"
    using D(6) sb by (simp add: fun_eq_iff)
  then have b: "live_blocks (ks_heap k2) = live_blocks (ks_heap k)" using N by simp
  have r: "remove1 t (xs @ [t]) = xs" using N by (simp add: remove1_append)
  have "kernel_ok k2 xs" using D(2,3,4) r b c N by (simp add: kernel_ok_def kernel_tasks_def)
  moreover have "\<forall>x \<in> set xs. tk_context (ks_tasks k2 x) = tk_context (ks_tasks k x)"
  proof
    fix x assume x: "x \<in> set xs"
    then have "x \<noteq> t" using N by blast
    then have "tk_context (ks_tasks k2 x) = tk_context (ks_tasks k1 x)" using D(5) task_data_context by blast
    then show "tk_context (ks_tasks k2 x) = tk_context (ks_tasks k x)" using N x by simp
  qed
  ultimately show ?thesis using that D(1,4) b c u user_mapped_part [OF D(7)] by (simp add: kernel_kept_def)
qed

text \<open>
  The contract of a user program: it comes back, from every well-formed kernel in
  which its task is current and running and its pages are mapped, through
  \<open>SYSCALL_EXIT\<close>, and it leaves the list of tasks, their contexts and stacks, the
  blocks in use and the mapping of its pages as they are. What it writes to its
  pages, to the saved registers and to the states of its task and process is up to
  it.
\<close>

definition in_user_mode :: "kernel_state \<Rightarrow> u32 list \<Rightarrow> bool" where
  "in_user_mode k xs \<longleftrightarrow> kernel_ok k xs \<and> user_mapped k \<and> ks_current_task k \<noteq> 0 \<and>
     tk_state (ks_tasks k (ks_current_task k)) = TASK_RUNNING"

definition comes_back :: "(kernel_state \<Rightarrow> kernel_state option) \<Rightarrow> bool" where
  "comes_back run \<longleftrightarrow> (\<forall>k xs. in_user_mode k xs \<longrightarrow>
     (\<exists>k'. run k = Some k' \<and> kernel_ok k' xs \<and> user_mapped k' \<and>
        live_blocks (ks_heap k') = live_blocks (ks_heap k) \<and>
        (\<forall>t. tk_context (ks_tasks k' t) = tk_context (ks_tasks k t) \<and>
             tk_stack_base (ks_tasks k' t) = tk_stack_base (ks_tasks k t))))"

lemma put_state [simp]:
  "ks_heap (task_set_state k t st) = ks_heap k" "ks_current_task (task_set_state k t st) = ks_current_task k"
  "tk_context (ks_tasks (task_set_state k t st) x) = tk_context (ks_tasks k x)"
  "tk_stack_base (ks_tasks (task_set_state k t st) x) = tk_stack_base (ks_tasks k x)"
  "kernel_tasks ok blocks (task_set_state k t st) ys = kernel_tasks ok blocks k ys"
proof -
  have n: "next_task (task_set_state k t st) = next_task k"
    by (auto simp: fun_eq_iff task_set_state_def put_task_def)
  show "kernel_tasks ok blocks (task_set_state k t st) ys = kernel_tasks ok blocks k ys"
    unfolding kernel_tasks_def task_chain_def n by (simp add: task_set_state_def put_task_def)
qed (simp_all add: task_set_state_def put_task_def)

lemma enter_task_simps [simp]:
  "ks_heap (enter_task k t) = ks_heap k" "ks_current_task (enter_task k t) = t"
  "tk_context (ks_tasks (enter_task k t) x) = tk_context (ks_tasks k x)"
  "tk_stack_base (ks_tasks (enter_task k t) x) = tk_stack_base (ks_tasks k x)"
  "user_mapped (enter_task k t) = user_mapped k"
  "t \<noteq> 0 \<Longrightarrow> tk_state (ks_tasks (enter_task k t) t) = TASK_RUNNING"
  by (simp_all add: enter_task_def user_mapped_def task_set_state_def put_task_def Let_def)

lemma enter_task_ok: "kernel_tasks kernel_heap_ok live_blocks k xs \<Longrightarrow> t \<in> set xs \<Longrightarrow> kernel_ok (enter_task k t) xs"
proof -
  assume k: "kernel_tasks kernel_heap_ok live_blocks k xs" "t \<in> set xs"
  have "kernel_tasks kernel_heap_ok live_blocks (u\<lparr>ks_current_task := t\<rparr>) xs = kernel_tasks kernel_heap_ok live_blocks u xs" for u
    by (simp add: kernel_tasks_def task_chain_def)
  then show "kernel_ok (enter_task k t) xs" using k by (simp add: kernel_ok_def enter_task_def Let_def)
qed

lemma run_task_keeps:
  assumes cb: "comes_back run" and n: "new_task k xs t k1" and u: "user_mapped k1" and o: "unat offset + 4 \<le> 4096"
  obtains msg k2 where "run_task run k1 t offset mk msgs = Some (msg, k2)" "kernel_kept k xs k2 []"
proof -
  note N = n [unfolded new_task_def]
  have e: "kernel_ok (enter_task k1 t) (xs @ [t])" by (rule enter_task_ok) (use N in simp_all)
  have "in_user_mode (enter_task k1 t) (xs @ [t])" using e N u by (simp add: in_user_mode_def)
  then obtain k2 where R: "run (enter_task k1 t) = Some k2" "kernel_ok k2 (xs @ [t])" "user_mapped k2"
    "live_blocks (ks_heap k2) = live_blocks (ks_heap (enter_task k1 t))"
    "\<forall>x. tk_context (ks_tasks k2 x) = tk_context (ks_tasks (enter_task k1 t) x) \<and>
       tk_stack_base (ks_tasks k2 x) = tk_stack_base (ks_tasks (enter_task k1 t) x)"
    using cb unfolding comes_back_def by blast
  obtain w where w: "load_u32 (ks_heap k2) (USER_STACK_BASE + offset) = Some w"
    using load_stack_word [OF R(3) o] by auto
  let ?k3 = "k2\<lparr>ks_current_task := 0\<rparr>"
  have "kernel_tasks kernel_heap_ok live_blocks ?k3 (xs @ [t])"
    using R(2) by (simp add: kernel_ok_def kernel_tasks_def task_chain_def)
  then have "new_task k xs t ?k3" using N R(4,5) by (simp add: new_task_def)
  moreover have "user_mapped ?k3" using R(3) by (simp add: user_mapped_def)
  ultimately obtain k4 where D: "task_destroy ?k3 t = Some k4" "kernel_kept k xs k4 []" using destroy_new [of k xs t ?k3] by auto
  show ?thesis
    by (rule that [of "if tk_state (ks_tasks k2 t) = TASK_FINISHED \<and> ks_current_task k2 = t
        then if w = mk then fst msgs else fst (snd msgs) else snd (snd msgs)" k4])
      (use R(1) w D in \<open>simp_all add: run_task_def\<close>)
qed

text \<open>
  From the entry point to the message: the task is created, run and destroyed, or
  one without a context stays behind.
\<close>

definition launched :: "kernel_state \<Rightarrow> u32 list \<Rightarrow> kernel_state \<Rightarrow> bool" where
  "launched k xs k' \<longleftrightarrow> (\<exists>ys. length ys \<le> 1 \<and> kernel_kept k xs k' ys)"

lemma launched_clean: "kernel_kept k xs k' [] \<Longrightarrow> launched k xs k'"
  unfolding launched_def by (rule exI [of _ "[]"]) simp

lemma launch_keeps:
  assumes k: "kernel_kept k xs k []" and r: "comes_back run" and o: "unat offset + 4 \<le> 4096"
  shows "\<exists>msg k'. do { (task, k) \<leftarrow> task_create_user k p e;
      if task = 0 \<or> tk_context (ks_tasks k task) = 0 then Some (m, k)
      else run_task run k task offset mk msgs } = Some (msg, k') \<and> launched k xs k'"
proof -
  obtain t k1 where C: "task_create_user k p e = Some (t, k1)" "ks_current_task k1 = 0" "process_part k1 = process_part k"
    "t = 0 \<and> kernel_kept k xs k1 [] \<or> new_task k xs t k1" by (rule create_user [OF k])
  have u: "user_mapped k1" using user_mapped_part [OF C(3)] k by (simp add: kernel_kept_def)
  consider (none) "t = 0" "kernel_kept k xs k1 []" | (stray) "t \<noteq> 0" "new_task k xs t k1" "tk_context (ks_tasks k1 t) = 0"
    | (task) "t \<noteq> 0" "new_task k xs t k1" "tk_context (ks_tasks k1 t) \<noteq> 0"
    using C(4) new_task_def by blast
  then show ?thesis
  proof cases
    case none
    then show ?thesis using C(1) launched_clean by auto
  next
    case stray
    then have "kernel_kept k xs k1 [t]" using C(2) u by (simp add: new_task_def kernel_kept_def kernel_ok_def)
    then have "launched k xs k1" unfolding launched_def by (intro exI [of _ "[t]"]) simp
    then show ?thesis using C(1) stray by simp
  next
    case task
    obtain msg k2 where "run_task run k1 t offset mk msgs = Some (msg, k2)" "kernel_kept k xs k2 []"
      by (rule run_task_keeps [OF r task(2) u o])
    then show ?thesis using C(1) task launched_clean by auto
  qed
qed

text \<open>Only the heap and the tasks matter.\<close>

definition bookkeeping :: "kernel_state \<Rightarrow> heap_state \<times> u32 \<times> (u32 \<Rightarrow> task_t) \<times> u32" where
  "bookkeeping k = (ks_heap k, ks_task_list k, ks_tasks k, ks_current_task k)"

lemma kernel_kept_cong:
  assumes "bookkeeping k = bookkeeping j" and "bookkeeping k' = bookkeeping j'"
  shows "kernel_kept k xs k' ys = kernel_kept j xs j' ys"
  using assms by (simp add: bookkeeping_def kernel_kept_def kernel_ok_def kernel_tasks_def task_chain_def user_mapped_def)

lemma bookkeeping_simps [simp]:
  "bookkeeping (put_process k a p) = bookkeeping k" "bookkeeping (k\<lparr>ks_next_process_id := n\<rparr>) = bookkeeping k"
  by (simp_all add: bookkeeping_def put_process_def)

lemma kernel_kept_memory:
  assumes "kernel_kept k xs k []"
  shows "kernel_kept k xs (with_memory k m) []" "kernel_kept (with_memory k m) xs (with_memory k m) []"
  using assms by (simp_all add: kernel_kept_def)

text \<open>The shell after a launch.\<close>

definition ended :: "shell_state \<Rightarrow> shell_state \<Rightarrow> bool" where
  "ended s s' \<longleftrightarrow> shell_ok s' \<and> keyboard_index s' = 0 \<and> requests s' = requests s \<and>
     secaudit_filter_type s' = secaudit_filter_type s \<and> secaudit_filter_value s' = secaudit_filter_value s"

lemma report_ended:
  assumes "shell_ok s"
  shows "ended s (report msg (clear_screen s))"
proof -
  let ?c = "clear_screen s"
  have c: "blank ?c = blank s" by (simp add: clear_screen_eq blank_def)
  have r: "keyboard_row s \<le> 24" "13 \<le> keyboard_row s" "length (keyboard_buffer s) = 128" using assms by (simp_all add: shell_ok_def)
  have rc: "keyboard_row ?c + 1 < 34" using r(1) blank_fields(4) [OF c] by simp
  have b: "blank (print_line msg ?c) = blank (next_row ?c)" and k: "keyboard_row (print_line msg ?c) = keyboard_row ?c + 1"
    using print_line_spec [OF rc, of msg] by simp_all
  have p: "length (keyboard_buffer (print_line msg ?c)) = 128" "13 \<le> keyboard_row (print_line msg ?c)"
    "keyboard_row (print_line msg ?c) \<le> 34"
    using r k blank_fields(1) [OF b] blank_fields(1,4) [OF c] by (simp_all add: next_row_def)
  note D = shell_done_spec [OF p]
  have "requests (shell_done (print_line msg ?c)) = requests s"
    "secaudit_filter_type (shell_done (print_line msg ?c)) = secaudit_filter_type s"
    "secaudit_filter_value (shell_done (print_line msg ?c)) = secaudit_filter_value s"
    using blank_fields [OF D(5)] blank_fields [OF b] blank_fields [OF c] by (simp_all add: requests_def next_row_def)
  then show ?thesis using D(1,3) by (simp add: ended_def report_def)
qed

subsection \<open>The four utilities\<close>

lemma launched_memory: "launched (with_memory k m) xs k' = launched k xs k'"
proof -
  have "ks_heap (with_memory k m) = (ks_heap k)\<lparr>hs_memory := m\<rparr>" "ks_tasks (with_memory k m) = ks_tasks k" by simp_all
  then show ?thesis unfolding launched_def kernel_kept_def by (simp only: kernel_memory)
qed

lemma shell_run_secinfo_keeps:
  assumes k: "kernel_kept (cn_kernel c) xs (cn_kernel c) []" and r: "comes_back run" and s: "shell_ok (cn_shell c)"
    and n: "length (ui_secinfo_code images) < 2 ^ 32"
  shows "\<exists>c'. shell_run_secinfo run images c = Some c' \<and> launched (cn_kernel c) xs (cn_kernel c') \<and> ended (cn_shell c) (cn_shell c')"
proof -
  have u: "user_mapped (cn_kernel c)" using k by (simp add: kernel_kept_def)
  obtain entry m where P: "with_space (cn_kernel c) (user_secinfo_prepare (ks_heap (cn_kernel c)) images True) =
      Some (entry, with_memory (cn_kernel c) m)" unfolding user_secinfo_prepare_def by (rule prepare_keeps [OF u n])
  show ?thesis
  proof (cases entry)
    case None
    then show ?thesis using P report_ended [OF s] launched_clean [OF kernel_kept_memory(1) [OF k]]
      by (simp add: shell_run_secinfo_def)
  next
    case (Some e)
    obtain msg k' where "do { (task, k) \<leftarrow> task_create_user (with_memory (cn_kernel c) m) 0 e;
        if task = 0 \<or> tk_context (ks_tasks k task) = 0 then Some (''secinfo: user task create failed'', k)
        else run_task run k task 0x1A0 0x53494E46
          (''secinfo: status read completed'', ''secinfo: status read failed'', ''secinfo: user task exit failed'') } =
        Some (msg, k')" "launched (with_memory (cn_kernel c) m) xs k'"
      using launch_keeps [OF kernel_kept_memory(2) [OF k] r, of "0x1A0"] by force
    then show ?thesis using P Some report_ended [OF s] by (simp add: shell_run_secinfo_def launched_memory del: Option.bind_assoc)
  qed
qed

lemma shell_run_secperm_keeps:
  assumes k: "kernel_kept (cn_kernel c) xs (cn_kernel c) []" and r: "comes_back run" and s: "shell_ok (cn_shell c)"
    and n: "length (ui_secperm_code images) < 2 ^ 32"
  shows "\<exists>c'. shell_run_secperm run images c = Some c' \<and> launched (cn_kernel c) xs (cn_kernel c') \<and> ended (cn_shell c) (cn_shell c')"
proof -
  have u: "user_mapped (cn_kernel c)" using k by (simp add: kernel_kept_def)
  obtain entry m where P: "with_space (cn_kernel c) (user_secperm_prepare (ks_heap (cn_kernel c)) images True) =
      Some (entry, with_memory (cn_kernel c) m)" unfolding user_secperm_prepare_def by (rule prepare_keeps [OF u n])
  show ?thesis
  proof (cases entry)
    case None
    then show ?thesis using P report_ended [OF s] launched_clean [OF kernel_kept_memory(1) [OF k]]
      by (simp add: shell_run_secperm_def)
  next
    case (Some e)
    obtain msg k' where "do { (task, k) \<leftarrow> task_create_user (with_memory (cn_kernel c) m) 0 e;
        if task = 0 \<or> tk_context (ks_tasks k task) = 0 then Some (''secperm: user task create failed'', k)
        else run_task run k task 0x1A4 0x5343504D
          (''secperm: security metadata read completed'', ''secperm: security metadata read failed'', ''secperm: user task exit failed'') } =
        Some (msg, k')" "launched (with_memory (cn_kernel c) m) xs k'"
      using launch_keeps [OF kernel_kept_memory(2) [OF k] r, of "0x1A4"] by force
    then show ?thesis using P Some report_ended [OF s] by (simp add: shell_run_secperm_def launched_memory del: Option.bind_assoc)
  qed
qed

lemma shell_run_secaudit_keeps:
  assumes k: "kernel_kept (cn_kernel c) xs (cn_kernel c) []" and r: "comes_back run" and s: "shell_ok (cn_shell c)"
    and n: "length (ui_secaudit_code images) < 2 ^ 32"
  shows "\<exists>c'. shell_run_secaudit ty va run images c = Some c' \<and> launched (cn_kernel c) xs (cn_kernel c') \<and> ended (cn_shell c) (cn_shell c')"
proof -
  have u: "user_mapped (cn_kernel c)" using k by (simp add: kernel_kept_def)
  obtain entry m where P: "with_space (cn_kernel c) (user_secaudit_prepare (ks_heap (cn_kernel c)) images True) =
      Some (entry, with_memory (cn_kernel c) m)" unfolding user_secaudit_prepare_def by (rule prepare_keeps [OF u n])
  show ?thesis
  proof (cases entry)
    case None
    then show ?thesis using P report_ended [OF s] launched_clean [OF kernel_kept_memory(1) [OF k]]
      by (simp add: shell_run_secaudit_def)
  next
    case (Some e)
    let ?k = "with_memory (cn_kernel c) m"
    have uk: "user_mapped ?k" using u by simp
    obtain m1 where S1: "store_u32 ?k (USER_STACK_BASE + 0x1C0) ty = Some (with_memory ?k m1)"
      using store_stack_word [OF uk, of "0x1C0"] by auto
    have "user_mapped (with_memory ?k m1)" using uk by simp
    then obtain m2 where S2: "store_u32 (with_memory ?k m1) (USER_STACK_BASE + 0x1C4) va = Some (with_memory (with_memory ?k m1) m2)"
      using store_stack_word [of "with_memory ?k m1" "0x1C4"] by auto
    have e2: "with_memory (with_memory ?k m1) m2 = with_memory (cn_kernel c) m2" by simp
    obtain msg k' where "do { (task, k) \<leftarrow> task_create_user (with_memory (cn_kernel c) m2) 0 e;
        if task = 0 \<or> tk_context (ks_tasks k task) = 0 then Some (''secaudit: user task create failed'', k)
        else run_task run k task 0x180 0x53454341
          (''secaudit: audit read completed'', ''secaudit: audit read failed'', ''secaudit: user task exit failed'') } =
        Some (msg, k')" "launched (with_memory (cn_kernel c) m2) xs k'"
      using launch_keeps [OF kernel_kept_memory(2) [OF k] r, of "0x180"] by force
    then show ?thesis using P Some S1 S2 [unfolded e2] report_ended [OF s] by (simp add: shell_run_secaudit_def launched_memory del: Option.bind_assoc)
  qed
qed

text \<open>The launch of \<open>secusers\<close> attaches a process and destroys a task without context.\<close>

lemma new_task_cong: "bookkeeping k1 = bookkeeping k2 \<Longrightarrow> new_task k xs t k1 = new_task k xs t k2"
  by (simp add: bookkeeping_def new_task_def kernel_tasks_def task_chain_def)

lemma launch_identity:
  assumes k: "kernel_kept k xs k []" and r: "comes_back run" and o: "unat offset + 4 \<le> 4096"
  shows "\<exists>msg k'. do { (task, k) \<leftarrow> task_create_user k p e;
      if task = 0 \<or> tk_context (ks_tasks k task) = 0
      then do { k \<leftarrow> (if task \<noteq> 0 then task_destroy k task else Some k); Some (m, k) }
      else run_task run (put_process k p ((ks_processes k p)\<lparr>pr_task := task\<rparr>)) task offset mk msgs } = Some (msg, k') \<and>
    kernel_kept k xs k' []"
proof -
  obtain t k1 where C: "task_create_user k p e = Some (t, k1)" "ks_current_task k1 = 0" "process_part k1 = process_part k"
    "t = 0 \<and> kernel_kept k xs k1 [] \<or> new_task k xs t k1" by (rule create_user [OF k])
  have u: "user_mapped k1" using user_mapped_part [OF C(3)] k by (simp add: kernel_kept_def)
  consider (none) "t = 0" "kernel_kept k xs k1 []" | (stray) "t \<noteq> 0" "new_task k xs t k1" "tk_context (ks_tasks k1 t) = 0"
    | (task) "t \<noteq> 0" "new_task k xs t k1" "tk_context (ks_tasks k1 t) \<noteq> 0"
    using C(4) new_task_def by blast
  then show ?thesis
  proof cases
    case none
    then show ?thesis using C(1) by simp
  next
    case stray
    obtain k2 where "task_destroy k1 t = Some k2" "kernel_kept k xs k2 []" by (rule destroy_new [OF stray(2) C(2) u])
    then show ?thesis using C(1) stray by simp
  next
    case task
    let ?k1 = "put_process k1 p ((ks_processes k1 p)\<lparr>pr_task := t\<rparr>)"
    have "new_task k xs t ?k1" using new_task_cong [of ?k1 k1 k xs t] task(2) by simp
    moreover have "user_mapped ?k1" using u by (simp add: user_mapped_def)
    ultimately obtain msg k2 where "run_task run ?k1 t offset mk msgs = Some (msg, k2)" "kernel_kept k xs k2 []"
      using run_task_keeps [OF r _ _ o] by metis
    then show ?thesis using C(1) task by simp
  qed
qed

lemma shell_run_secusers_keeps:
  assumes k: "kernel_kept (cn_kernel c) xs (cn_kernel c) []" and r: "comes_back run" and s: "shell_ok (cn_shell c)"
    and n: "length (ui_secusers_code images) < 2 ^ 32"
  shows "\<exists>c'. shell_run_secusers identity run images c = Some c' \<and> kernel_kept (cn_kernel c) xs (cn_kernel c') [] \<and> ended (cn_shell c) (cn_shell c')"
proof -
  have u: "user_mapped (cn_kernel c)" using k by (simp add: kernel_kept_def)
  obtain entry m where P: "with_space (cn_kernel c) (user_secusers_prepare (ks_heap (cn_kernel c)) images True) =
      Some (entry, with_memory (cn_kernel c) m)" unfolding user_secusers_prepare_def by (rule prepare_keeps [OF u n])
  show ?thesis
  proof (cases entry)
    case None
    then show ?thesis using P report_ended [OF s] kernel_kept_memory(1) [OF k]
      by (simp add: shell_run_secusers_def)
  next
    case (Some e)
    define k0 where "k0 = (put_process (with_memory (cn_kernel c) m) identity
        \<lparr>pr_pid = ks_next_process_id (cn_kernel c), pr_state = TASK_READY, pr_privilege = TASK_USER,
         pr_uid = INITRAOS_DEFAULT_UID, pr_gid = INITRAOS_DEFAULT_GID, pr_address_space = 0, pr_task = 0\<rparr>)
        \<lparr>ks_next_process_id := ks_next_process_id (cn_kernel c) + 1\<rparr>"
    have b: "bookkeeping k0 = bookkeeping (with_memory (cn_kernel c) m)" by (simp add: k0_def)
    have "kernel_kept k0 xs k0 []" using kernel_kept_cong [OF b b] kernel_kept_memory(2) [OF k] by blast
    then obtain msg k' where L: "do { (task, k) \<leftarrow> task_create_user k0 identity e;
        if task = 0 \<or> tk_context (ks_tasks k task) = 0
        then do { k \<leftarrow> (if task \<noteq> 0 then task_destroy k task else Some k); Some (''secusers: task allocation failed'', k) }
        else run_task run (put_process k identity ((ks_processes k identity)\<lparr>pr_task := task\<rparr>)) task 0x1A4 0x53435553
          (''secusers: identity read successful'', ''secusers: identity read failed'', ''secusers: user task exit failed'') } =
        Some (msg, k')" "kernel_kept k0 xs k' []"
      using launch_identity [OF _ r, of k0 xs "0x1A4"] by force
    have "kernel_kept (with_memory (cn_kernel c) m) xs k' []" using kernel_kept_cong [OF b refl] L(2) by blast
    then have "kernel_kept (cn_kernel c) xs k' []" by (simp add: kernel_kept_def)
    then show ?thesis using P Some report_ended [OF s] L(1)
      by (simp add: shell_run_secusers_def k0_def [simplified put_process_def, simplified, symmetric] put_process_def [of "with_memory (cn_kernel c) m"] del: Option.bind_assoc)
  qed
qed

subsection \<open>One round\<close>

text \<open>What one possible launch does to the console.\<close>

definition round_step :: "utility \<Rightarrow> nat \<Rightarrow> console \<Rightarrow> u32 list \<Rightarrow> console \<Rightarrow> u32 list \<Rightarrow> bool" where
  "round_step u n c xs c' ys \<longleftrightarrow> length ys \<le> n \<and> kernel_kept (cn_kernel c) xs (cn_kernel c') ys \<and>
     shell_ok (cn_shell c') \<and> requests (cn_shell c') = requests (cn_shell c) - {u} \<and>
     keyboard_index (cn_shell c') = (if u \<in> requests (cn_shell c) then 0 else keyboard_index (cn_shell c))"

lemma poll_one_keeps:
  assumes k: "kernel_kept (cn_kernel c) xs (cn_kernel c) []" and s: "shell_ok (cn_shell c)"
    and q: "requested \<longleftrightarrow> u \<in> requests (cn_shell c)"
    and cl: "shell_ok (clear (cn_shell c))" "requests (clear (cn_shell c)) = requests (cn_shell c) - {u}"
    and run: "\<And>d. cn_kernel d = cn_kernel c \<Longrightarrow> shell_ok (cn_shell d) \<Longrightarrow>
      \<exists>c' ys. f d = Some c' \<and> length ys \<le> n \<and> kernel_kept (cn_kernel c) xs (cn_kernel c') ys \<and> ended (cn_shell d) (cn_shell c')"
  shows "\<exists>c' ys. poll_one requested clear f c = Some c' \<and> round_step u n c xs c' ys"
proof (cases requested)
  case True
  then show ?thesis using run [of "c\<lparr>cn_shell := clear (cn_shell c)\<rparr>"] cl q
    by (fastforce simp: poll_one_def round_step_def ended_def)
next
  case False
  then have "round_step u n c xs c []" using k s q by (simp add: round_step_def)
  then show ?thesis using False by (auto simp: poll_one_def)
qed

lemma round_step_ready:
  assumes "round_step u n c xs c' ys"
  shows "kernel_kept (cn_kernel c') (xs @ ys) (cn_kernel c') []" "shell_ok (cn_shell c')"
  using assms by (simp_all add: round_step_def kernel_kept_def)

lemma clear_request [simp]:
  "shell_ok (s\<lparr>secinfo_requested := False\<rparr>) = shell_ok s" "shell_ok (s\<lparr>secusers_requested := False\<rparr>) = shell_ok s"
  "shell_ok (s\<lparr>secperm_requested := False\<rparr>) = shell_ok s" "shell_ok (s\<lparr>secaudit_requested := False\<rparr>) = shell_ok s"
  "requests (s\<lparr>secinfo_requested := False\<rparr>) = requests s - {Secinfo}"
  "requests (s\<lparr>secusers_requested := False\<rparr>) = requests s - {Secusers}"
  "requests (s\<lparr>secperm_requested := False\<rparr>) = requests s - {Secperm}"
  "requests (s\<lparr>secaudit_requested := False\<rparr>) = requests s - {Secaudit}"
  by (auto simp: shell_ok_def requests_def)

text \<open>The images are shorter than the address space.\<close>

definition images_ok :: "user_images \<Rightarrow> bool" where
  "images_ok images \<longleftrightarrow> length (ui_secinfo_code images) < 2 ^ 32 \<and> length (ui_secusers_code images) < 2 ^ 32 \<and>
     length (ui_secperm_code images) < 2 ^ 32 \<and> length (ui_secaudit_code images) < 2 ^ 32"

lemma secinfo_round:
  assumes "kernel_kept (cn_kernel c) xs (cn_kernel c) []" "shell_ok (cn_shell c)" "comes_back run" "images_ok images"
  shows "\<exists>c' ys. poll_one (secinfo_requested (cn_shell c)) (secinfo_requested_update (\<lambda>_. False))
    (shell_run_secinfo run images) c = Some c' \<and> round_step Secinfo 1 c xs c' ys"
proof (rule poll_one_keeps [OF assms(1,2)])
  fix d :: console assume "cn_kernel d = cn_kernel c" "shell_ok (cn_shell d)"
  then show "\<exists>c' ys. shell_run_secinfo run images d = Some c' \<and> length ys \<le> 1 \<and>
      kernel_kept (cn_kernel c) xs (cn_kernel c') ys \<and> ended (cn_shell d) (cn_shell c')"
    using shell_run_secinfo_keeps [of d xs run images] assms by (auto simp: launched_def images_ok_def)
qed (use assms in \<open>auto simp: requests_def\<close>)

lemma secperm_round:
  assumes "kernel_kept (cn_kernel c) xs (cn_kernel c) []" "shell_ok (cn_shell c)" "comes_back run" "images_ok images"
  shows "\<exists>c' ys. poll_one (secperm_requested (cn_shell c)) (secperm_requested_update (\<lambda>_. False))
    (shell_run_secperm run images) c = Some c' \<and> round_step Secperm 1 c xs c' ys"
proof (rule poll_one_keeps [OF assms(1,2)])
  fix d :: console assume "cn_kernel d = cn_kernel c" "shell_ok (cn_shell d)"
  then show "\<exists>c' ys. shell_run_secperm run images d = Some c' \<and> length ys \<le> 1 \<and>
      kernel_kept (cn_kernel c) xs (cn_kernel c') ys \<and> ended (cn_shell d) (cn_shell c')"
    using shell_run_secperm_keeps [of d xs run images] assms by (auto simp: launched_def images_ok_def)
qed (use assms in \<open>auto simp: requests_def\<close>)

lemma secaudit_round:
  assumes "kernel_kept (cn_kernel c) xs (cn_kernel c) []" "shell_ok (cn_shell c)" "comes_back run" "images_ok images"
  shows "\<exists>c' ys. poll_one (secaudit_requested (cn_shell c)) (secaudit_requested_update (\<lambda>_. False))
    (\<lambda>c. shell_run_secaudit (secaudit_filter_type (cn_shell c)) (secaudit_filter_value (cn_shell c)) run images c) c = Some c' \<and> round_step Secaudit 1 c xs c' ys"
proof (rule poll_one_keeps [OF assms(1,2)])
  fix d :: console assume "cn_kernel d = cn_kernel c" "shell_ok (cn_shell d)"
  then show "\<exists>c' ys. shell_run_secaudit (secaudit_filter_type (cn_shell d)) (secaudit_filter_value (cn_shell d)) run images d = Some c' \<and> length ys \<le> 1 \<and>
      kernel_kept (cn_kernel c) xs (cn_kernel c') ys \<and> ended (cn_shell d) (cn_shell c')"
    using shell_run_secaudit_keeps [of d xs run images "secaudit_filter_type (cn_shell d)" "secaudit_filter_value (cn_shell d)"] assms by (auto simp: launched_def images_ok_def)
qed (use assms in \<open>auto simp: requests_def\<close>)

lemma secusers_round:
  assumes "kernel_kept (cn_kernel c) xs (cn_kernel c) []" "shell_ok (cn_shell c)" "comes_back run" "images_ok images"
  shows "\<exists>c' ys. poll_one (secusers_requested (cn_shell c)) (secusers_requested_update (\<lambda>_. False))
    (shell_run_secusers identity run images) c = Some c' \<and> round_step Secusers 0 c xs c' ys"
proof (rule poll_one_keeps [OF assms(1,2)])
  fix d :: console assume "cn_kernel d = cn_kernel c" "shell_ok (cn_shell d)"
  then show "\<exists>c' ys. shell_run_secusers identity run images d = Some c' \<and> length ys \<le> 0 \<and>
      kernel_kept (cn_kernel c) xs (cn_kernel c') ys \<and> ended (cn_shell d) (cn_shell c')"
    using shell_run_secusers_keeps [of d xs run images identity] assms by (auto simp: images_ok_def)
qed (use assms in \<open>auto simp: requests_def\<close>)


text \<open>A program that exits at once.\<close>

definition ex_run :: "kernel_state \<Rightarrow> kernel_state option" where
  "ex_run k = Some (task_set_state k (ks_current_task k) TASK_FINISHED)"

lemma ex_run_back: "comes_back ex_run"
  by (auto simp: comes_back_def in_user_mode_def ex_run_def kernel_ok_def user_mapped_def)


end
