(* ===== verification/User_Mode.thy ===== *)
theory User_Mode
  imports Syscalls Shell_Round
begin

section \<open>User mode\<close>

text \<open>
  A program in user mode, whatever its code, as a step relation: the processor lets
  it store to the pages open to ring 3, and it calls the dispatcher. The system
  calls and the kernel heap meet here; the section shows what no program can do,
  and that a program which ends by \<open>SYSCALL_EXIT\<close> meets the contract \<open>comes_back\<close>
  that the shell relies on.
\<close>

subsection \<open>Steps of a program\<close>

text \<open>An address in a page that user code may write, and all physical addresses it reaches so.\<close>

definition user_writable :: "heap_state \<Rightarrow> u32 \<Rightarrow> bool" where
  "user_writable h a \<longleftrightarrow> user_page_flags h a (PAGE_PRESENT OR PAGE_WRITABLE OR PAGE_USER)"

definition user_memory :: "heap_state \<Rightarrow> u32 set" where
  "user_memory h = {pa. \<exists>a. user_writable h a \<and> translate h a = Some pa}"

text \<open>
  The calls of a well-behaved program: its requests stay below the sizes whose sums
  wrap, and it releases only its own blocks, or addresses that are not in use. Its
  own blocks are those it was given and has not released.
\<close>

definition permitted :: "u32 set \<Rightarrow> 'w system \<Rightarrow> u32 \<Rightarrow> u32 \<Rightarrow> bool" where
  "permitted own s n a1 \<longleftrightarrow> (n = SYSCALL_ALLOC \<longrightarrow> a1 \<le> 0xFFFFFFF0) \<and>
     (n = SYSCALL_FREE \<longrightarrow> a1 \<in> own \<or> live_blocks (sy_heap s) a1 = None)"

definition owned_after :: "u32 set \<Rightarrow> u32 \<Rightarrow> u32 \<Rightarrow> u32 \<Rightarrow> u32 set" where
  "owned_after own n a1 r =
     (if n = SYSCALL_ALLOC \<and> r \<noteq> 0 then insert r own else if n = SYSCALL_FREE then own - {a1} else own)"

inductive user_step ::
  "('w \<Rightarrow> ptr \<Rightarrow> fs_inode) \<Rightarrow> u32 set \<times> 'w system \<Rightarrow> u32 set \<times> 'w system \<Rightarrow> bool" for inode_at where
  user_store: "user_writable (sy_heap s) a \<Longrightarrow> store_byte (sy_heap s) a b = Some h \<Longrightarrow>
    user_step inode_at (own, s) (own, with_heap s h)"
| user_call: "permitted own s n a1 \<Longrightarrow> syscall_dispatcher inode_at s n a1 a2 a3 a4 a5 = Some (r, s') \<Longrightarrow>
    user_step inode_at (own, s) (owned_after own n a1 r, s')"

inductive_cases user_stepE [elim!]: "user_step inode_at (own, s) (own', s')"

subsection \<open>Pages and memory\<close>

lemma map_block_memory:
  assumes "map_block s st e cl commit = Some (r, h)" and "\<And>u. hs_memory (snd (commit u)) = hs_memory u"
  shows "hs_memory h = hs_memory s"
proof -
  obtain vm where v: "commit (s\<lparr>hs_vm := vm\<rparr>) = (r, h) \<or> (r, h) = (0, s\<lparr>hs_vm := vm\<rparr>)"
    using heap_map_block_effect [OF assms(1)] by blast
  show ?thesis using v assms(2) [of "s\<lparr>hs_vm := vm\<rparr>"] by auto
qed

lemma heap_alloc_paged_memory: "heap_alloc_paged h n = Some (r, h') \<Longrightarrow> hs_memory h' = hs_memory h"
  unfolding heap_alloc_paged_def Let_def
  by (auto split: if_splits option.splits elim!: map_block_memory)

lemma reuse_block_memory: "reuse_block h a n = (r, h') \<Longrightarrow> hs_memory h' = hs_memory h"
  unfolding reuse_block_def Let_def by (simp split: if_splits) (auto simp: set_block_def)

lemma append_block_memory: "append_block h n = Some (r, h') \<Longrightarrow> hs_memory h' = hs_memory h"
  unfolding append_block_def Let_def by (auto simp: bind_eq_Some_conv set_block_def split: if_splits)

lemma heap_alloc_memory: "heap_alloc h n = Some (r, h') \<Longrightarrow> hs_memory h' = hs_memory h"
  unfolding heap_alloc_def Let_def
  by (auto simp: bind_eq_Some_conv split: if_splits
      elim: heap_alloc_paged_memory append_block_memory intro: reuse_block_memory)

lemma release_block_memory: "release_block h a = Some h' \<Longrightarrow> hs_memory h' = hs_memory h"
  unfolding release_block_def Let_def absorb_next_def by (auto simp: bind_eq_Some_conv set_block_def split: if_splits)

lemma heap_free_memory: "heap_free h a = Some h' \<Longrightarrow> hs_memory h' = hs_memory h"
  unfolding heap_free_def Let_def
  by (auto simp: bind_eq_Some_conv split: if_splits option.splits dest: release_block_memory)

text \<open>The pages a program writes to.\<close>

definition user_flags :: u32 where
  "user_flags = PAGE_PRESENT OR PAGE_WRITABLE OR PAGE_USER"

lemma user_flags_parts:
  assumes "e AND user_flags = user_flags"
  shows "e AND PAGE_PRESENT \<noteq> 0" "e AND PAGE_USER \<noteq> 0"
proof -
  have "e AND x = x" if "user_flags AND x = x" for x using assms that by (metis and.assoc)
  from this [of PAGE_PRESENT] this [of PAGE_USER] show "e AND PAGE_PRESENT \<noteq> 0" "e AND PAGE_USER \<noteq> 0"
    by (simp_all add: user_flags_def)
qed

lemma user_writable_page:
  assumes "vm_ok (hs_vm h)"
  shows "user_writable h a \<longleftrightarrow> (\<exists>e. user_page (hs_vm h) a = Some e \<and> e AND user_flags = user_flags)"
  using assms user_flags_parts(2)
  by (auto simp: vm_ok_def user_writable_def user_page_flags_def user_page_def pages_of_def user_flags_def Let_def not_le split: if_splits)

lemma user_page_translation:
  assumes "vm_ok (hs_vm h)" and "user_page (hs_vm h) a = Some e"
  shows "translate h a = (if hs_paging h = 0 then Some a else if e AND PAGE_PRESENT = 0 then None
    else Some ((e AND 0xFFFFF000) OR (a AND 0xFFF)))"
  using assms by (auto simp: vm_ok_def user_page_def pages_of_def translate_def Let_def split: if_splits option.splits)

lemma user_memory_outside:
  assumes "vm_ok (hs_vm h)" "vm_ok (hs_vm h')" and "same_outside h h'"
  shows "user_memory h' \<subseteq> user_memory h"
proof
  fix pa assume "pa \<in> user_memory h'"
  then obtain a e where a: "translate h' a = Some pa" "user_page (hs_vm h') a = Some e" "e AND user_flags = user_flags"
    by (auto simp: user_memory_def user_writable_page [OF assms(2)])
  have "user_page (hs_vm h) a = Some e" using a(2) assms(3) by (auto simp: same_outside_def map_le_def dom_def)
  moreover have "hs_paging h' = hs_paging h" using assms(3) by (simp add: same_outside_def)
  ultimately have "user_writable h a" "translate h a = Some pa"
    using a user_page_translation [OF assms(1), of a e] user_page_translation [OF assms(2) a(2)] user_writable_page [OF assms(1), of a]
    by auto
  then show "pa \<in> user_memory h" by (auto simp: user_memory_def)
qed

lemma user_memory_contents [simp]: "user_memory (h\<lparr>hs_memory := m\<rparr>) = user_memory h"
  by (simp add: user_memory_def user_writable_def user_page_flags_def translate_def)

lemma user_writable_offset:
  assumes "user_writable h a" and "unat a mod 4096 + i < 4096"
  shows "user_writable h (a + of_nat i)"
proof -
  have "page_of (a + of_nat i) = page_of a"
    using assms(2) by (simp add: page_of_def unat_in_page [OF assms(2)] div_add1_eq [of "unat a" i])
  then have "directory_index (a + of_nat i) = directory_index a" "table_index (a + of_nat i) = table_index a"
    using same_page [of "a + of_nat i" a] by simp_all
  then show ?thesis using assms(1) by (simp add: user_writable_def user_page_flags_def entry_at_def Let_def split: if_splits)
qed

lemma user_write_memory:
  assumes "user_write s a bs s'" and "pa \<notin> user_memory (sy_heap s)"
  shows "hs_memory (sy_heap s') pa = hs_memory (sy_heap s) pa"
proof -
  obtain p where p: "translate (sy_heap s) a = Some p" "user_writable (sy_heap s) a"
    and a: "unat (USER_STACK_BASE :: u32) \<le> unat a" "unat a + length bs \<le> unat (USER_STACK_TOP :: u32)"
    and s': "s' = with_heap s ((sy_heap s)\<lparr>hs_memory := overwrite (hs_memory (sy_heap s)) p bs\<rparr>)"
    using assms(1) by (auto simp: user_write_def user_writable_def)
  let ?i = "unat (pa - p)"
  have "\<not> ?i < length bs"
  proof
    assume i: "?i < length bs"
    then have "unat a < unat (USER_STACK_TOP :: u32)" using a(2) by linarith
    then have m: "unat a mod 4096 + ?i < 4096" using stack_offset(1) [OF a(1)] a i by simp
    have "translate (sy_heap s) (a + of_nat ?i) = Some pa" using translate_offset [OF p(1) m] by simp
    then show False using user_writable_offset [OF p(2) m] assms(2) unfolding user_memory_def by blast
  qed
  then show ?thesis by (simp add: s' with_heap_def overwrite_def)
qed

subsection \<open>What no program changes\<close>

text \<open>
  The state \<open>s\<close> as a program left it that was started in \<open>s0\<close> and holds the blocks
  \<open>own\<close>: the kernel differs in its heap only, the other blocks are as they were, and
  only bytes of the program's pages have changed.
\<close>

definition confined :: "u32 list \<Rightarrow> 'w system \<Rightarrow> u32 set \<Rightarrow> 'w system \<Rightarrow> bool" where
  "confined xs s0 own s \<longleftrightarrow> kernel_ok (sy_kernel s) xs \<and> ring_ok (sy_security s) \<and> sy_vfs s = sy_vfs s0 \<and>
     sy_kernel s = (sy_kernel s0)\<lparr>ks_heap := sy_heap s\<rparr> \<and>
     live_blocks (sy_heap s) |` (- own) = live_blocks (sy_heap s0) \<and> same_outside (sy_heap s0) (sy_heap s) \<and>
     (\<forall>pa. pa \<notin> user_memory (sy_heap s0) \<longrightarrow> hs_memory (sy_heap s) pa = hs_memory (sy_heap s0) pa)"

lemma kernel_ok_vm: "kernel_ok k xs \<Longrightarrow> vm_ok (hs_vm (ks_heap k))"
  using paged_ok_vm_ok [OF kernel_heap_okD(2)] by (simp add: kernel_ok_def kernel_tasks_def)

text \<open>A heap that keeps the blocks of the kernel and its page tables.\<close>

lemma confined_heap:
  assumes c: "confined xs s0 own s" and k: "kernel_ok (sy_kernel s0) xs"
    and h: "kernel_heap_ok h" "same_outside (sy_heap s) h" "live_blocks h |` (- own') = live_blocks (sy_heap s0)"
    and m: "\<And>pa. pa \<notin> user_memory (sy_heap s) \<Longrightarrow> hs_memory h pa = hs_memory (sy_heap s) pa"
  shows "confined xs s0 own' (with_heap s h)"
proof -
  note C = c [unfolded confined_def]
  have u: "user_memory (sy_heap s) \<subseteq> user_memory (sy_heap s0)"
    using user_memory_outside C kernel_ok_vm [OF k] kernel_ok_vm by blast
  have "set xs \<subseteq> dom (live_blocks (sy_heap s0))" using k by (simp add: kernel_ok_def kernel_tasks_def)
  then have d: "set xs \<subseteq> dom (live_blocks h)" unfolding h(3) [symmetric] by auto
  have "kernel_ok ((sy_kernel s)\<lparr>ks_heap := h\<rparr>) xs"
    using C h(1) d by (simp add: kernel_ok_def kernel_tasks_def task_chain_def)
  moreover have "sy_kernel (with_heap s h) = (sy_kernel s0)\<lparr>ks_heap := h\<rparr>"
    using C by (simp add: with_heap_def) (metis kernel_state.surjective kernel_state.update_convs(1))
  moreover have "hs_memory h pa = hs_memory (sy_heap s0) pa" if "pa \<notin> user_memory (sy_heap s0)" for pa
  proof -
    have "pa \<notin> user_memory (sy_heap s)" using that u by blast
    then show ?thesis using m [of pa] C that by simp
  qed
  ultimately show ?thesis using C h(2,3) same_outside_trans [of "sy_heap s0" "sy_heap s" h]
    by (simp add: confined_def with_heap_def)
qed

lemma confined_memory:
  assumes c: "confined xs s0 own s" and k: "kernel_ok (sy_kernel s0) xs"
    and m: "\<And>pa. pa \<notin> user_memory (sy_heap s) \<Longrightarrow> m pa = hs_memory (sy_heap s) pa"
  shows "confined xs s0 own (with_heap s ((sy_heap s)\<lparr>hs_memory := m\<rparr>))"
proof (rule confined_heap [OF c k])
  have "kernel_heap_ok (sy_heap s)" using c by (simp add: confined_def kernel_ok_def kernel_tasks_def)
  then show "kernel_heap_ok ((sy_heap s)\<lparr>hs_memory := m\<rparr>)" by simp
  show "same_outside (sy_heap s) ((sy_heap s)\<lparr>hs_memory := m\<rparr>)" by (rule same_translation) simp_all
qed (use c m in \<open>simp_all add: confined_def\<close>)

lemma confined_store:
  assumes c: "confined xs s0 own s" and k: "kernel_ok (sy_kernel s0) xs"
    and w: "user_writable (sy_heap s) a" "store_byte (sy_heap s) a b = Some h"
  shows "confined xs s0 own (with_heap s h)"
proof -
  obtain pa where pa: "translate (sy_heap s) a = Some pa" "h = (sy_heap s)\<lparr>hs_memory := (hs_memory (sy_heap s))(pa := b)\<rparr>"
    using w(2) by (auto simp: store_byte_def)
  then have "pa \<in> user_memory (sy_heap s)" using w(1) by (auto simp: user_memory_def)
  then show ?thesis unfolding pa(2) by (intro confined_memory [OF c k]) auto
qed

lemma confined_write:
  assumes "confined xs s0 own s" and "kernel_ok (sy_kernel s0) xs" and w: "user_write s a bs s'"
  shows "confined xs s0 own s'"
proof -
  obtain m where s': "s' = with_heap s ((sy_heap s)\<lparr>hs_memory := m\<rparr>)" using w by (auto simp: user_write_def)
  have "m pa = hs_memory (sy_heap s) pa" if "pa \<notin> user_memory (sy_heap s)" for pa
    using user_write_memory [OF w that] by (simp add: s' with_heap_def)
  then show ?thesis unfolding s' by (rule confined_memory [OF assms(1,2)])
qed

lemma dispatch_alloc: "syscall_dispatcher f s SYSCALL_ALLOC a1 a2 a3 a4 a5 =
    map_option (\<lambda>(r, h). (r, with_heap s h)) (heap_alloc (sy_heap s) a1)"
  by (cases "heap_alloc (sy_heap s) a1") (auto simp: syscall_dispatcher_def)

lemma dispatch_free: "syscall_dispatcher f s SYSCALL_FREE a1 a2 a3 a4 a5 =
    map_option (\<lambda>h. (0, with_heap s h)) (heap_free (sy_heap s) a1)"
  by (cases "heap_free (sy_heap s) a1") (auto simp: syscall_dispatcher_def)

lemma confined_alloc:
  assumes c: "confined xs s0 own s" and k: "kernel_ok (sy_kernel s0) xs" and n: "n \<le> 0xFFFFFFF0"
  obtains r s' where "syscall_dispatcher f s SYSCALL_ALLOC n a2 a3 a4 a5 = Some (r, s')"
    "confined xs s0 (if r \<noteq> 0 then insert r own else own) s'"
proof (cases "n = 0")
  case True
  then have "heap_alloc (sy_heap s) n = Some (0, sy_heap s)" by (simp add: heap_alloc_def heap_alloc_paged_def)
  moreover have "with_heap s (sy_heap s) = s" by (simp add: with_heap_def)
  ultimately show ?thesis using that [of 0 s] c by (simp add: dispatch_alloc [simplified])
next
  case False
  have h: "kernel_heap_ok (sy_heap s)" using c by (simp add: confined_def kernel_ok_def kernel_tasks_def)
  obtain r h' where A: "heap_alloc (sy_heap s) n = Some (r, h')" "kernel_heap_ok h'" "same_outside (sy_heap s) h'"
    "if r = 0 then live_blocks h' = live_blocks (sy_heap s)
     else live_blocks (sy_heap s) r = None \<and> (\<exists>m \<ge> n. live_blocks h' = (live_blocks (sy_heap s))(r \<mapsto> m))"
    using kernel_blocks.alloc_law [OF h False n] by blast
  have B: "live_blocks (sy_heap s) |` (- own) = live_blocks (sy_heap s0)" using c by (simp add: confined_def)
  have "live_blocks h' |` (- (if r \<noteq> 0 then insert r own else own)) = live_blocks (sy_heap s0)"
  proof (cases "r = 0")
    case False
    then obtain m where m: "live_blocks h' = (live_blocks (sy_heap s))(r \<mapsto> m)" "live_blocks (sy_heap s) r = None" using A(4) by auto
    have "live_blocks h' |` (- insert r own) = live_blocks (sy_heap s) |` (- own)"
      using m by (auto simp: restrict_map_def fun_eq_iff)
    then show ?thesis using False B by simp
  qed (use A(4) B in simp)
  then have "confined xs s0 (if r \<noteq> 0 then insert r own else own) (with_heap s h')"
    using heap_alloc_memory [OF A(1)] by (intro confined_heap [OF c k A(2,3)]) simp_all
  then show ?thesis using that A(1) by (simp add: dispatch_alloc [simplified])
qed

lemma confined_free:
  assumes c: "confined xs s0 own s" and k: "kernel_ok (sy_kernel s0) xs" and p: "a \<in> own \<or> live_blocks (sy_heap s) a = None"
  obtains s' where "syscall_dispatcher f s SYSCALL_FREE a a2 a3 a4 a5 = Some (0, s')" "confined xs s0 (own - {a}) s'"
proof -
  have h: "kernel_heap_ok (sy_heap s)" using c by (simp add: confined_def kernel_ok_def kernel_tasks_def)
  obtain h' where A: "heap_free (sy_heap s) a = Some h'" "kernel_heap_ok h'" "same_outside (sy_heap s) h'"
    "live_blocks h' = (live_blocks (sy_heap s))(a := None)" using kernel_blocks.free_law [OF h, of a] by blast
  have "live_blocks h' |` (- (own - {a})) = live_blocks (sy_heap s) |` (- own)"
    unfolding A(4) using p by (auto simp: restrict_map_def fun_eq_iff)
  then have "confined xs s0 (own - {a}) (with_heap s h')"
    using heap_free_memory [OF A(1)] c by (intro confined_heap [OF c k A(2,3)]) (simp_all add: confined_def)
  then show ?thesis using that A(1) by (simp add: dispatch_free [simplified])
qed

lemma security_check_outcome:
  assumes "ring_ok (sy_security s)"
  obtains r sec where "syscall_security_check s = (r, s\<lparr>sy_security := sec\<rparr>)" "ring_ok sec"
proof (cases "ks_current_task (sy_kernel s) = 0")
  case True
  then show ?thesis using that [of "-1" "sy_security s"] assms by (simp add: syscall_security_check_def)
next
  case False
  let ?t = "ks_tasks (sy_kernel s) (ks_current_task (sy_kernel s))"
  obtain r sec where a: "security_authorize (sy_security s) (tk_id ?t) (tk_privilege ?t) SECURITY_OPERATION_PROTECTED_TEST
      SECURITY_PRIVILEGE_KERNEL = (r, sec)" by fastforce
  then have "ring_ok sec" using record_ring_ok [OF assms] by (auto simp: security_authorize_def Let_def split: if_splits)
  then show ?thesis using that a False by (simp add: syscall_security_check_def Let_def)
qed

lemma confined_other:
  assumes c: "confined xs s0 own s" and k: "kernel_ok (sy_kernel s0) xs" and n: "n \<noteq> SYSCALL_ALLOC" "n \<noteq> SYSCALL_FREE"
  obtains r s' where "syscall_dispatcher f s n a1 a2 a3 a4 a5 = Some (r, s')" "confined xs s0 own s'"
proof -
  have ring: "ring_ok (sy_security s)" using c by (simp add: confined_def)
  consider "reporting n" "user_answer f s n a1 a2 a3 a4 = None"
    | a bs where "reporting n" "user_answer f s n a1 a2 a3 a4 = Some (a, bs)"
    | "n = SYSCALL_SECURITY_CHECK" | "\<not> reporting n" "n \<noteq> SYSCALL_SECURITY_CHECK"
    by (cases "user_answer f s n a1 a2 a3 a4") auto
  then show ?thesis
  proof cases
    case 1
    then show ?thesis using that c dispatch_answered [OF ring, of n f a1 a2 a3 a4 a5] by (simp add: answered_def)
  next
    case 2
    then obtain s' where "syscall_dispatcher f s n a1 a2 a3 a4 a5 = Some (SECURITY_ALLOWED, s')" "user_write s a bs s'"
      using dispatch_answered [OF ring, of n f a1 a2 a3 a4 a5] by (auto simp: answered_def)
    then show ?thesis using that confined_write [OF c k] by blast
  next
    case 3
    obtain r sec where "syscall_security_check s = (r, s\<lparr>sy_security := sec\<rparr>)" "ring_ok sec"
      by (rule security_check_outcome [OF ring])
    moreover have "syscall_dispatcher f s n a1 a2 a3 a4 a5 = Some (syscall_security_check s)"
      using 3 by (simp add: syscall_dispatcher_def)
    ultimately show ?thesis using that c by (simp add: confined_def)
  next
    case 4
    then show ?thesis using other_calls [OF 4(1) n, of f s a1 a2 a3 a4 a5] that c by blast
  qed
qed

lemma confined_call:
  assumes "confined xs s0 own s" "kernel_ok (sy_kernel s0) xs" and p: "permitted own s n a1"
  obtains r s' where "syscall_dispatcher f s n a1 a2 a3 a4 a5 = Some (r, s')" "confined xs s0 (owned_after own n a1 r) s'"
proof -
  consider "n = SYSCALL_ALLOC" | "n = SYSCALL_FREE" | "n \<noteq> SYSCALL_ALLOC" "n \<noteq> SYSCALL_FREE" by blast
  then show ?thesis
  proof cases
    case 1
    then have "a1 \<le> 0xFFFFFFF0" using p by (simp add: permitted_def)
    then obtain r s' where "syscall_dispatcher f s SYSCALL_ALLOC a1 a2 a3 a4 a5 = Some (r, s')"
      "confined xs s0 (if r \<noteq> 0 then insert r own else own) s'" by (rule confined_alloc [OF assms(1,2)])
    then show ?thesis using that [of r s'] 1 by (simp add: owned_after_def split: if_splits)
  next
    case 2
    then have "a1 \<in> own \<or> live_blocks (sy_heap s) a1 = None" using p by (simp add: permitted_def)
    then obtain s' where "syscall_dispatcher f s SYSCALL_FREE a1 a2 a3 a4 a5 = Some (0, s')" "confined xs s0 (own - {a1}) s'"
      by (rule confined_free [OF assms(1,2)])
    then show ?thesis using that [of 0 s'] 2 by (simp add: owned_after_def)
  next
    case 3
    obtain r s' where "syscall_dispatcher f s n a1 a2 a3 a4 a5 = Some (r, s')" "confined xs s0 own s'"
      by (rule confined_other [OF assms(1,2) 3])
    then show ?thesis using that [of r s'] 3 by (simp add: owned_after_def)
  qed
qed

lemma confined_start: "kernel_ok (sy_kernel s) xs \<Longrightarrow> ring_ok (sy_security s) \<Longrightarrow> confined xs s {} s"
  by (simp add: confined_def restrict_map_def)

lemma confined_reachable:
  assumes k: "kernel_ok (sy_kernel s0) xs" and r: "ring_ok (sy_security s0)"
  shows "(user_step f)\<^sup>*\<^sup>* ({}, s0) z \<Longrightarrow> confined xs s0 (fst z) (snd z)"
proof (induction rule: rtranclp_induct)
  case base
  then show ?case using confined_start [OF k r] by simp
next
  case (step y z)
  note c = step.IH
  show ?case using step.hyps(2)
  proof (cases rule: user_step.cases)
    case (user_store s a h own b)
    then show ?thesis using confined_store [OF _ k] c by simp
  next
    case (user_call own s n a1 a2 a3 a4 a5 r s')
    then show ?thesis using confined_call [of xs s0 own s n a1 f a2 a3 a4 a5] k c by auto
  qed
qed

subsection \<open>The pages of user mode\<close>

text \<open>The pages open to ring 3 are among those \<open>paging_init\<close> opens, each mapped to itself.\<close>

definition boot_pages :: "heap_state \<Rightarrow> bool" where
  "boot_pages h \<longleftrightarrow> (\<forall>a e. user_page (hs_vm h) a = Some e \<longrightarrow> page_of a \<in> user_pages \<and> e AND 0xFFFFF000 = a AND 0xFFFFF000)"

lemma paging_init_boot_pages: "vm_kernel_space (hs_vm h) = paging_init k a \<Longrightarrow> boot_pages h"
proof -
  assume p: "vm_kernel_space (hs_vm h) = paging_init k a"
  have "(va AND 0xFFFFF000) AND PAGE_USER = 0" for va :: u32 by (simp add: and.assoc)
  moreover have "((va AND 0xFFFFF000) OR 7) AND 0xFFFFF000 = va AND 0xFFFFF000" for va :: u32
    using entry_parts(1) [of va 7] by simp
  ultimately show ?thesis
    unfolding boot_pages_def user_page_def p paging_init_entry
    by (auto simp: bit.conj_disj_distrib2 or.assoc split: if_splits)
qed

lemma boot_pages_outside: "boot_pages h \<Longrightarrow> same_outside h h' \<Longrightarrow> boot_pages h'"
  by (auto simp: boot_pages_def same_outside_def map_le_def dom_def)

lemma boot_pages_memory:
  assumes "boot_pages h" "vm_ok (hs_vm h)" and "pa \<in> user_memory h"
  shows "page_of pa \<in> user_pages"
proof -
  obtain a e where a: "translate h a = Some pa" "user_page (hs_vm h) a = Some e" "e AND user_flags = user_flags"
    using assms(3) by (auto simp: user_memory_def user_writable_page [OF assms(2)])
  have p: "page_of a \<in> user_pages" "e AND 0xFFFFF000 = a AND 0xFFFFF000" using assms(1) a(2) by (simp_all add: boot_pages_def)
  have "(a AND 0xFFFFF000) OR (a AND 0xFFF) = a AND 0xFFFFFFFF" by (simp flip: bit.conj_disj_distrib)
  moreover have "(0xFFFFFFFF :: u32) = -1" by simp
  ultimately have "(a AND 0xFFFFF000) OR (a AND 0xFFF) = a" by (simp only: and.right_neutral)
  then have "pa = a" using a(1) user_page_translation [OF assms(2) a(2)] p(2) by (auto split: if_splits)
  then show ?thesis using p(1) by simp
qed

subsection \<open>Properties\<close>


text \<open>The machine of the witnesses: paging is on and no task exists yet.\<close>

definition ex_user :: "unit system" where
  "ex_user = ex_system\<lparr>sy_kernel := ex_paged_kernel\<rparr>"

lemma ex_user_ok: "kernel_ok (sy_kernel ex_user) []" "ring_ok (sy_security ex_user)" "boot_pages (sy_heap ex_user)"
proof -
  show "kernel_ok (sy_kernel ex_user) []" using ex_paged_kernel_ok by (simp add: ex_user_def)
  show "ring_ok (sy_security ex_user)" using ex_system_ring by (simp add: ex_user_def)
  have "vm_kernel_space (hs_vm (sy_heap ex_user)) = ex_space"
    by (simp add: ex_user_def ex_paged_kernel_def ex_paged_heap_def ex_heap_def ex_vm_def)
  then show "boot_pages (sy_heap ex_user)" by (rule paging_init_boot_pages [OF trans, OF _ ex_space_def])
qed


text \<open>
  The end of a program: \<open>syscall_exit\<close> ends the process of the current task and
  switches back to the kernel; otherwise it halts, which is \<open>None\<close>.
\<close>

definition syscall_exit :: "kernel_state \<Rightarrow> kernel_state option" where
  "syscall_exit k =
     (if ks_current_task k \<noteq> 0
      then let (terminated, k) = process_terminate k (ks_current_task k) in if terminated then Some k else None
      else None)"

text \<open>
  A program, as the kernel sees it: from a kernel in user mode it runs through any
  steps to the point where it has released what it allocated, and exits. The audit
  log and the files it finds are arbitrary.
\<close>

definition user_program :: "('w \<Rightarrow> ptr \<Rightarrow> fs_inode) \<Rightarrow> (kernel_state \<Rightarrow> kernel_state option) \<Rightarrow> bool" where
  "user_program inode_at run \<longleftrightarrow> (\<forall>k xs. in_user_mode k xs \<longrightarrow>
     (\<exists>s s'. sy_kernel s = k \<and> ring_ok (sy_security s) \<and> (user_step inode_at)\<^sup>*\<^sup>* ({}, s) ({}, s') \<and>
        run k = syscall_exit (sy_kernel s')))"

lemma process_frame [simp]:
  "ks_heap (put_process k p v) = ks_heap k" "ks_tasks (put_process k p v) = ks_tasks k"
  by (simp_all add: put_process_def)

lemma kernel_ok_process [simp]: "kernel_ok (put_process k p v) xs = kernel_ok k xs"
  by (simp add: kernel_ok_def kernel_tasks_def task_chain_def put_process_def)

lemma syscall_exit_spec:
  assumes k: "kernel_ok k xs" and t: "ks_current_task k \<noteq> 0" "tk_state (ks_tasks k (ks_current_task k)) = TASK_RUNNING"
  obtains k' where "syscall_exit k = Some k'" "kernel_ok k' xs" "ks_heap k' = ks_heap k"
    "\<forall>t. tk_context (ks_tasks k' t) = tk_context (ks_tasks k t) \<and> tk_stack_base (ks_tasks k' t) = tk_stack_base (ks_tasks k t)"
proof -
  obtain j where j: "j = task_set_state k (ks_current_task k) TASK_FINISHED" by blast
  have J: "kernel_ok j xs" "ks_heap j = ks_heap k"
    "\<forall>t. tk_context (ks_tasks j t) = tk_context (ks_tasks k t) \<and> tk_stack_base (ks_tasks j t) = tk_stack_base (ks_tasks k t)"
    using k by (simp_all add: j kernel_ok_def)
  let ?p = "tk_process (ks_tasks j (ks_current_task k))"
  have "syscall_exit k = Some (if ?p \<noteq> 0 then put_process j ?p ((ks_processes j ?p)\<lparr>pr_state := TASK_FINISHED\<rparr>) else j)"
    using t by (simp add: syscall_exit_def process_terminate_def Let_def j)
  then show ?thesis by (rule that) (use J in simp_all)
qed



end
