(* ===== verification/Fs_Self_Tests.thy ===== *)
theory Fs_Self_Tests
  imports Fs_Properties Path_Remove "HOL-Library.Monad_Syntax"
begin

section \<open>The self-tests of the file system's parts\<close>

text \<open>
  The kernel runs self-tests at boot that print a verdict on the serial line. A
  test is its body, in the option monad because every check that fails ends it with
  the same message, and the lines it prints. What its local variables hold before
  they are written is a parameter.
\<close>

definition require :: "bool \<Rightarrow> unit option" where
  "require c = (if c then Some () else None)"

definition verdict :: "string \<Rightarrow> string list \<Rightarrow> 'a option \<Rightarrow> string list" where
  "verdict failed passed body = (case body of None \<Rightarrow> [failed] | Some _ \<Rightarrow> passed)"

subsection \<open>Superblock and root\<close>

definition initrafs_superblock_test :: "initrafs_superblock_t \<Rightarrow> string list" where
  "initrafs_superblock_test superblock =
     verdict ''[InitraOS] INITRAFS_SUPERBLOCK_FAIL'' [''[InitraOS] INITRAFS_SUPERBLOCK_OK'']
       (do {
          superblock \<leftarrow> initrafs_superblock_init (Some superblock) 4096;
          require (initrafs_superblock_validate (Some superblock));
          let original_magic = sb_magic superblock;
          let superblock = superblock\<lparr>sb_magic := 0\<rparr>;
          require (\<not> initrafs_superblock_validate (Some superblock));
          let superblock = superblock\<lparr>sb_magic := original_magic\<rparr>;
          require (initrafs_superblock_validate (Some superblock)) })"

definition initrafs_root_test ::
  "initrafs_superblock_t \<Rightarrow> initrafs_disk_inode_t \<Rightarrow> initrafs_disk_dirent_t list \<Rightarrow> string list" where
  "initrafs_root_test superblock root_inode root_entries =
     verdict ''[InitraOS] INITRAFS_ROOT_FAIL''
       [''[InitraOS] INITRAFS_INTEGRITY_OK'', ''[InitraOS] INITRAFS_SYSTEM_PROTECTION_OK'',
        ''[InitraOS] INITRAFS_ROOT_OK'']
       (do {
          superblock \<leftarrow> initrafs_superblock_init (Some superblock) 4096;
          root_inode \<leftarrow> initrafs_root_inode_init (Some root_inode) (Some superblock);
          root_entries \<leftarrow> initrafs_root_directory_init (Some root_entries) INITRAFS_ROOT_DIR_ENTRIES;
          require (\<not> (di_inode_number root_inode \<noteq> INITRAFS_ROOT_INODE \<or>
            di_type root_inode \<noteq> INITRAFS_TYPE_DIRECTORY \<or> di_mode root_inode \<noteq> INITRAFS_ROOT_MODE \<or>
            di_flags root_inode \<noteq> INITRAFS_INODE_FLAG_SYSTEM_PROTECTED \<or>
            di_link_count root_inode \<noteq> INITRAFS_ROOT_LINK_COUNT \<or>
            di_direct_blocks root_inode ! 0 \<noteq> sb_data_start superblock));
          let dot = root_entries ! 0;
          require (\<not> (de_inode_number dot \<noteq> INITRAFS_ROOT_INODE \<or> de_type dot \<noteq> INITRAFS_TYPE_DIRECTORY \<or>
            de_name_length dot \<noteq> 1 \<or> de_name dot ! 0 \<noteq> CHR ''.''));
          let dotdot = root_entries ! 1;
          require (\<not> (de_inode_number dotdot \<noteq> INITRAFS_ROOT_INODE \<or> de_type dotdot \<noteq> INITRAFS_TYPE_DIRECTORY \<or>
            de_name_length dotdot \<noteq> 2 \<or> de_name dotdot ! 0 \<noteq> CHR ''.'' \<or> de_name dotdot ! 1 \<noteq> CHR ''.''));
          require (di_size root_inode = INITRAFS_ROOT_DIR_ENTRIES * sizeof_disk_dirent);
          require (initrafs_inode_integrity_verify (Some root_inode));
          let root_inode = root_inode\<lparr>di_mode := di_mode root_inode XOR 1\<rparr>;
          require (\<not> initrafs_inode_integrity_verify (Some root_inode));
          let root_inode = root_inode\<lparr>di_mode := di_mode root_inode XOR 1\<rparr>;
          require (initrafs_inode_integrity_verify (Some root_inode)) })"

subsection \<open>Allocators\<close>

definition initrafs_block_allocator_test ::
  "initrafs_superblock_t \<Rightarrow> initrafs_block_allocator_t \<Rightarrow> u8 list \<Rightarrow> string list" where
  "initrafs_block_allocator_test superblock allocator bitmap =
     verdict ''[InitraOS] INITRAFS_BLOCK_FAIL'' [''[InitraOS] INITRAFS_BLOCK_OK'']
       (do {
          superblock \<leftarrow> initrafs_superblock_init (Some superblock) 4096;
          allocator \<leftarrow> initrafs_block_allocator_init (Some allocator) (Some superblock) (Some bitmap) 512;
          let (block, allocator) = initrafs_block_alloc (Some allocator);
          require (block = sb_data_start superblock + 1);
          let first_block = sb_data_start superblock + 1;
          let (second_block, allocator) = initrafs_block_alloc allocator;
          require (second_block = first_block + 1);
          let (freed, allocator) = initrafs_block_free allocator first_block;
          require freed;
          let (freed, allocator) = initrafs_block_free allocator first_block;
          require (\<not> freed);
          let (reused_block, allocator) = initrafs_block_alloc allocator;
          require (reused_block = first_block);
          let (freed, allocator) = initrafs_block_free allocator INITRAFS_SUPERBLOCK_BLOCK;
          require (\<not> freed);
          let (freed, allocator) = initrafs_block_free allocator (sb_data_start superblock);
          require (\<not> freed);
          let (freed, allocator) = initrafs_block_free allocator reused_block;
          require freed;
          let (freed, allocator) = initrafs_block_free allocator second_block;
          require freed;
          require (sb_free_block_count (the (ba_superblock (the allocator))) =
            4096 - sb_data_start superblock - 1) })"

definition initrafs_inode_allocator_test ::
  "initrafs_superblock_t \<Rightarrow> initrafs_inode_allocator_t \<Rightarrow> u8 list \<Rightarrow> string list" where
  "initrafs_inode_allocator_test superblock allocator bitmap =
     verdict ''[InitraOS] INITRAFS_INODE_FAIL'' [''[InitraOS] INITRAFS_INODE_OK'']
       (do {
          superblock \<leftarrow> initrafs_superblock_init (Some superblock) 4096;
          allocator \<leftarrow> initrafs_inode_allocator_init (Some allocator) (Some superblock) (Some bitmap) 16;
          let (first_inode, allocator) = initrafs_inode_alloc (Some allocator);
          require (first_inode = 2);
          let (second_inode, allocator) = initrafs_inode_alloc allocator;
          require (second_inode = 3);
          let (freed, allocator) = initrafs_inode_free allocator first_inode;
          require freed;
          let (freed, allocator) = initrafs_inode_free allocator first_inode;
          require (\<not> freed);
          let (reused_inode, allocator) = initrafs_inode_alloc allocator;
          require (reused_inode = first_inode);
          let (freed, allocator) = initrafs_inode_free allocator INITRAFS_UNUSED_INODE;
          require (\<not> freed);
          let (freed, allocator) = initrafs_inode_free allocator INITRAFS_ROOT_INODE;
          require (\<not> freed);
          let (freed, allocator) = initrafs_inode_free allocator (sb_inode_count superblock);
          require (\<not> freed);
          let (freed, allocator) = initrafs_inode_free allocator reused_inode;
          require freed;
          let (freed, allocator) = initrafs_inode_free allocator second_inode;
          require freed;
          require (ia_free_inodes (the allocator) = sb_inode_count superblock - 2) })"

subsection \<open>Inodes and permissions\<close>

definition initrafs_inode_create_test ::
  "initrafs_superblock_t \<Rightarrow> initrafs_inode_allocator_t \<Rightarrow> u8 list \<Rightarrow> fs_inode \<Rightarrow> fs_inode \<Rightarrow> string list" where
  "initrafs_inode_create_test superblock allocator bitmap file_inode directory_inode =
     verdict ''[InitraOS] INITRAFS_INODE_CREATE_FAIL'' [''[InitraOS] INITRAFS_INODE_CREATE_OK'']
       (do {
          superblock \<leftarrow> initrafs_superblock_init (Some superblock) 4096;
          allocator \<leftarrow> initrafs_inode_allocator_init (Some allocator) (Some superblock) (Some bitmap) 16;
          let (created, allocator, file_inode) =
            initrafs_inode_create (Some allocator) (Some file_inode) INODE_TYPE_FILE 0x1A4;
          require created;
          file_inode \<leftarrow> file_inode;
          require (\<not> (fi_inode_number file_inode \<noteq> 2 \<or> fi_type file_inode \<noteq> INODE_TYPE_FILE \<or>
            fi_mode file_inode \<noteq> 0x1A4 \<or> fi_size file_inode \<noteq> 0 \<or> fi_link_count file_inode \<noteq> 1 \<or>
            fi_owner file_inode \<noteq> 0 \<or> fi_group file_inode \<noteq> 0 \<or> fi_filesystem_private file_inode \<noteq> 0));
          let (created, allocator, directory_inode) =
            initrafs_inode_create allocator (Some directory_inode) INODE_TYPE_DIRECTORY 0x1ED;
          require created;
          directory_inode \<leftarrow> directory_inode;
          let file_inode = file_inode\<lparr>fi_owner := 100, fi_group := 200, fi_mode := 0x1A0\<rparr>;
          require (initrafs_inode_check_permission (Some file_inode) 100 999
            (INITRAFS_PERMISSION_READ OR INITRAFS_PERMISSION_WRITE));
          require (initrafs_inode_check_permission (Some file_inode) 101 200 INITRAFS_PERMISSION_READ);
          require (\<not> initrafs_inode_check_permission (Some file_inode) 101 200 INITRAFS_PERMISSION_WRITE);
          require (\<not> initrafs_inode_check_permission (Some file_inode) 101 201 INITRAFS_PERMISSION_READ);
          require (\<not> (fi_inode_number directory_inode \<noteq> 3 \<or> fi_type directory_inode \<noteq> INODE_TYPE_DIRECTORY \<or>
            fi_mode directory_inode \<noteq> 0x1ED \<or> fi_size directory_inode \<noteq> 0 \<or> fi_link_count directory_inode \<noteq> 2 \<or>
            fi_owner directory_inode \<noteq> 0 \<or> fi_group directory_inode \<noteq> 0 \<or>
            fi_filesystem_private directory_inode \<noteq> 0));
          let (freed, allocator) = initrafs_inode_free allocator (fi_inode_number file_inode);
          require freed;
          let (freed, allocator) = initrafs_inode_free allocator (fi_inode_number directory_inode);
          require freed;
          require (ia_free_inodes (the allocator) = sb_inode_count superblock - 2) })"

subsection \<open>Directories\<close>

text \<open>A search in the directory of the test has the given result.\<close>

definition finds :: "initrafs_disk_dirent_t list \<Rightarrow> string \<Rightarrow> u32 \<Rightarrow> bool" where
  "finds entries name inode_number \<longleftrightarrow>
     initrafs_directory_lookup (Some entries) 8 (Some name) True = Some inode_number"

definition initrafs_directory_test ::
  "initrafs_superblock_t \<Rightarrow> initrafs_disk_dirent_t list \<Rightarrow> string list" where
  "initrafs_directory_test superblock entries =
     verdict ''[InitraOS] INITRAFS_DIRECTORY_FAIL'' [''[InitraOS] INITRAFS_DIRECTORY_OK'']
       (do {
          superblock \<leftarrow> initrafs_superblock_init (Some superblock) 4096;
          entries \<leftarrow> initrafs_root_directory_init (Some entries) 8;
          require (finds entries ''.'' INITRAFS_ROOT_INODE);
          require (finds entries ''..'' INITRAFS_ROOT_INODE);
          entries \<leftarrow> initrafs_directory_add (Some entries) 8 2 INITRAFS_TYPE_FILE (Some ''readme'');
          entries \<leftarrow> initrafs_directory_add (Some entries) 8 3 INITRAFS_TYPE_DIRECTORY (Some ''bin'');
          require (finds entries ''readme'' 2);
          require (finds entries ''bin'' 3);
          require (initrafs_directory_add (Some entries) 8 4 INITRAFS_TYPE_FILE (Some ''readme'') = None);
          require (initrafs_directory_add (Some entries) 8 4 INITRAFS_TYPE_FILE (Some []) = None);
          require (initrafs_directory_add (Some entries) 8 4 INITRAFS_TYPE_FILE (Some ''.'') = None);
          require (initrafs_directory_remove (Some entries) 8 (Some ''.'') = None);
          require (initrafs_directory_remove (Some entries) 8 (Some ''..'') = None);
          entries \<leftarrow> initrafs_directory_remove (Some entries) 8 (Some ''readme'');
          require (initrafs_directory_lookup (Some entries) 8 (Some ''readme'') True = None);
          require (initrafs_directory_remove (Some entries) 8 (Some ''readme'') = None);
          entries \<leftarrow> initrafs_directory_add (Some entries) 8 4 INITRAFS_TYPE_FILE (Some ''readme2'');
          require (finds entries ''readme2'' 4);
          entries \<leftarrow> initrafs_directory_add (Some entries) 8 5 INITRAFS_TYPE_FILE (Some ''one'');
          entries \<leftarrow> initrafs_directory_add (Some entries) 8 6 INITRAFS_TYPE_FILE (Some ''two'');
          entries \<leftarrow> initrafs_directory_add (Some entries) 8 7 INITRAFS_TYPE_FILE (Some ''three'');
          entries \<leftarrow> initrafs_directory_add (Some entries) 8 8 INITRAFS_TYPE_FILE (Some ''four'');
          require (initrafs_directory_add (Some entries) 8 9 INITRAFS_TYPE_FILE (Some ''full'') = None) })"

subsection \<open>Block mapping\<close>

definition initrafs_inode_block_mapping_test ::
  "initrafs_superblock_t \<Rightarrow> initrafs_disk_inode_t \<Rightarrow> string list" where
  "initrafs_inode_block_mapping_test superblock inode =
     verdict ''[InitraOS] INITRAFS_BLOCK_MAP_FAIL'' [''[InitraOS] INITRAFS_BLOCK_MAP_OK'']
       (do {
          let inode = inode\<lparr>di_direct_blocks := replicate 8 0\<rparr>;
          superblock \<leftarrow> initrafs_superblock_init (Some superblock) 4096;
          let block0 = sb_data_start superblock + 1;
          let block1 = sb_data_start superblock + 2;
          let block7 = sb_data_start superblock + 8;
          inode \<leftarrow> initrafs_inode_map_block (Some inode) (Some superblock) 0 block0;
          inode \<leftarrow> initrafs_inode_map_block (Some inode) (Some superblock) 1 block1;
          inode \<leftarrow> initrafs_inode_map_block (Some inode) (Some superblock) 7 block7;
          require (initrafs_inode_get_block (Some inode) 0 True = Some block0);
          require (initrafs_inode_get_block (Some inode) 1 True = Some block1);
          require (initrafs_inode_get_block (Some inode) 7 True = Some block7);
          require (initrafs_inode_map_block (Some inode) (Some superblock) 8 block0 = None);
          require (initrafs_inode_get_block (Some inode) 8 True = None);
          require (initrafs_inode_unmap_block (Some inode) 8 = None);
          require (initrafs_inode_map_block (Some inode) (Some superblock) 2 INITRAFS_SUPERBLOCK_BLOCK = None);
          require (initrafs_inode_map_block (Some inode) (Some superblock) 3 (sb_data_start superblock) = None);
          require (initrafs_inode_map_block (Some inode) (Some superblock) 2 0 = None);
          require (initrafs_inode_map_block (Some inode) (Some superblock) 0 block1 = None);
          inode \<leftarrow> initrafs_inode_unmap_block (Some inode) 1;
          require (initrafs_inode_get_block (Some inode) 1 True = None);
          inode \<leftarrow> initrafs_inode_map_block (Some inode) (Some superblock) 1 block1;
          require (initrafs_inode_get_block (Some inode) 1 True = Some block1);
          inode \<leftarrow> initrafs_inode_unmap_block (Some inode) 0;
          inode \<leftarrow> initrafs_inode_unmap_block (Some inode) 1;
          inode \<leftarrow> initrafs_inode_unmap_block (Some inode) 7;
          require (initrafs_inode_unmap_block (Some inode) 1 = None) })"

subsection \<open>Directories and paths\<close>

text \<open>
  The local objects of the test, each with its address. The test has four stages,
  with their own messages; the results of a stage are what the next one works on.
\<close>

definition root_object :: ptr where "root_object = 1"
definition docs_object :: ptr where "docs_object = 2"
definition file_object :: ptr where "file_object = 3"

definition put_inode :: "fs_store \<Rightarrow> ptr \<Rightarrow> fs_inode \<Rightarrow> initrafs_disk_inode_t \<Rightarrow> fs_store" where
  "put_inode st a i d = st\<lparr>st_inode := (st_inode st)(a := i), st_disk_inode := (st_disk_inode st)(a := d)\<rparr>"

definition put_entries :: "fs_store \<Rightarrow> ptr \<Rightarrow> initrafs_disk_dirent_t list \<Rightarrow> fs_store" where
  "put_entries st a es = st\<lparr>st_entries := (st_entries st)(a := es)\<rparr>"

definition path_test_create ::
  "initrafs_superblock_t \<Rightarrow> initrafs_inode_allocator_t \<Rightarrow> u8 list \<Rightarrow> fs_store \<Rightarrow>
   (initrafs_superblock_t \<times> initrafs_inode_allocator_t option \<times> fs_store) option" where
  "path_test_create superblock inode_allocator inode_bitmap st =
     do {
       superblock \<leftarrow> initrafs_superblock_init (Some superblock) 4096;
       inode_allocator \<leftarrow> initrafs_inode_allocator_init (Some inode_allocator) (Some superblock) (Some inode_bitmap) 16;
       root_disk_inode \<leftarrow> initrafs_root_inode_init (Some (st_disk_inode st root_object)) (Some superblock);
       root_entries \<leftarrow> initrafs_root_directory_init (Some (st_entries st root_object)) 8;
       root_inode \<leftarrow> initrafs_inode_init (Some (st_inode st root_object)) INITRAFS_ROOT_INODE INODE_TYPE_DIRECTORY INITRAFS_ROOT_MODE;
       let root_inode = root_inode\<lparr>fi_size := di_size root_disk_inode, fi_link_count := di_link_count root_disk_inode\<rparr>;
       let (created, inode_allocator, docs_inode, docs_disk_inode, docs_entries) =
         initrafs_directory_create (Some inode_allocator) (Some (st_inode st docs_object)) (Some (st_disk_inode st docs_object))
           (Some (st_entries st docs_object)) 8 0x1ED INITRAFS_ROOT_INODE;
       require created;
       docs_inode \<leftarrow> docs_inode;
       docs_disk_inode \<leftarrow> docs_disk_inode;
       docs_entries \<leftarrow> docs_entries;
       require (\<not> (fi_type docs_inode \<noteq> INODE_TYPE_DIRECTORY \<or> di_type docs_disk_inode \<noteq> INITRAFS_TYPE_DIRECTORY \<or>
         fi_inode_number docs_inode \<noteq> di_inode_number docs_disk_inode \<or>
         de_inode_number (docs_entries ! 0) \<noteq> fi_inode_number docs_inode \<or>
         de_inode_number (docs_entries ! 1) \<noteq> INITRAFS_ROOT_INODE \<or>
         de_name_length (docs_entries ! 0) \<noteq> 1 \<or> de_name_length (docs_entries ! 1) \<noteq> 2));
       root_entries \<leftarrow> initrafs_directory_add (Some root_entries) 8 (fi_inode_number docs_inode) INITRAFS_TYPE_DIRECTORY
         (Some ''docs'');
       let root_inode = root_inode\<lparr>fi_link_count := fi_link_count root_inode + 1\<rparr>;
       let root_disk_inode = root_disk_inode\<lparr>di_link_count := di_link_count root_disk_inode + 1\<rparr>;
       let st = put_entries (put_inode st root_object root_inode root_disk_inode) root_object root_entries;
       let st = put_entries (put_inode st docs_object docs_inode docs_disk_inode) docs_object docs_entries;
       Some (superblock, inode_allocator, st) }"

definition path_test_list ::
  "initrafs_inode_allocator_t option \<Rightarrow> fs_store \<Rightarrow> initrafs_disk_dirent_t list \<Rightarrow>
   (initrafs_inode_allocator_t option \<times> fs_store) option" where
  "path_test_list inode_allocator st listed =
     do {
       let (created, inode_allocator, file_inode, file_disk_inode) =
         initrafs_file_create inode_allocator (Some (st_inode st file_object)) (Some (st_disk_inode st file_object)) 0x1A4;
       require created;
       file_inode \<leftarrow> file_inode;
       file_disk_inode \<leftarrow> file_disk_inode;
       docs_entries \<leftarrow> initrafs_directory_add (Some (st_entries st docs_object)) 8 (fi_inode_number file_inode)
         INITRAFS_TYPE_FILE (Some ''readme'');
       let st = put_entries (put_inode st file_object file_inode file_disk_inode) docs_object docs_entries;
       (listed_count, listed) \<leftarrow> initrafs_directory_list (Some (st_entries st root_object)) 8 (Some listed) 8 True;
       require (listed_count = 3);
       (listed_count, listed) \<leftarrow> initrafs_directory_list (Some (st_entries st docs_object)) 8 (Some listed) 8 True;
       require (listed_count = 3);
       Some (inode_allocator, st) }"

definition path_test_register ::
  "fs_store \<Rightarrow> initrafs_namespace_t \<Rightarrow> initrafs_namespace_node_t list \<Rightarrow> initrafs_namespace_t option" where
  "path_test_register st namespace nodes =
     do {
       namespace \<leftarrow> initrafs_namespace_init (Some namespace) (Some nodes) 4 INITRAFS_ROOT_INODE;
       namespace \<leftarrow> initrafs_namespace_register st (Some namespace) root_object root_object root_object 8;
       namespace \<leftarrow> initrafs_namespace_register st (Some namespace) docs_object docs_object docs_object 8;
       namespace \<leftarrow> initrafs_namespace_register st (Some namespace) file_object file_object NULL 0;
       require (initrafs_path_lookup st (Some namespace) (Some ''/'') True = Some INITRAFS_ROOT_INODE);
       require (initrafs_path_lookup st (Some namespace) (Some ''/../docs'') True = None);
       require (initrafs_path_lookup st (Some namespace) (Some ''/../../docs'') True = None);
       Some namespace }"

definition path_test_lookup :: "fs_store \<Rightarrow> initrafs_namespace_t \<Rightarrow> unit option" where
  "path_test_lookup st namespace =
     (let docs = fi_inode_number (st_inode st docs_object); file_number = fi_inode_number (st_inode st file_object)
      in do {
        require (initrafs_path_lookup st (Some namespace) (Some ''/docs'') True = Some docs);
        require (initrafs_path_lookup st (Some namespace) (Some ''//docs//readme'') True = Some file_number);
        require (initrafs_path_lookup st (Some namespace) (Some ''/docs/../docs/readme'') True = Some file_number);
        require (initrafs_path_lookup st (Some namespace) (Some ''/docs/readme/more'') True = None) })"

definition path_test_remove ::
  "initrafs_superblock_t \<Rightarrow> initrafs_inode_allocator_t option \<Rightarrow> fs_store \<Rightarrow> initrafs_namespace_t \<Rightarrow> unit option" where
  "path_test_remove superblock inode_allocator st namespace =
     do {
       let (removed, st, namespace, inode_allocator) =
         initrafs_path_remove_directory st (Some namespace) inode_allocator (Some ''/docs'');
       require (\<not> removed);
       docs_entries \<leftarrow> initrafs_directory_remove (Some (st_entries st docs_object)) 8 (Some ''readme'');
       let st = put_entries st docs_object docs_entries;
       let file_number = fi_inode_number (st_inode st file_object);
       let (freed, inode_allocator) = initrafs_inode_free inode_allocator file_number;
       require freed;
       namespace \<leftarrow> initrafs_namespace_unregister st namespace file_number;
       require (initrafs_directory_is_empty (Some (st_entries st docs_object)) 8);
       let (removed, st, namespace, inode_allocator) =
         initrafs_path_remove_directory st (Some namespace) inode_allocator (Some ''/docs'');
       require removed;
       require (initrafs_path_lookup st namespace (Some ''/docs'') True = None);
       require (\<not> (fi_link_count (st_inode st root_object) \<noteq> INITRAFS_ROOT_LINK_COUNT \<or>
         di_link_count (st_disk_inode st root_object) \<noteq> INITRAFS_ROOT_LINK_COUNT \<or>
         ia_free_inodes (the inode_allocator) \<noteq> sb_inode_count superblock - 2)) }"

definition initrafs_directory_path_test ::
  "initrafs_superblock_t \<Rightarrow> initrafs_inode_allocator_t \<Rightarrow> u8 list \<Rightarrow> fs_store \<Rightarrow> initrafs_disk_dirent_t list \<Rightarrow>
   initrafs_namespace_t \<Rightarrow> initrafs_namespace_node_t list \<Rightarrow> string list" where
  "initrafs_directory_path_test superblock inode_allocator inode_bitmap st listed namespace nodes =
     (case path_test_create superblock inode_allocator inode_bitmap st of
        None \<Rightarrow> [''[InitraOS] INITRAFS_DIRECTORY_CREATE_FAIL'']
      | Some (superblock, inode_allocator, st) \<Rightarrow> ''[InitraOS] INITRAFS_DIRECTORY_CREATE_OK'' #
     (case path_test_list inode_allocator st listed of
        None \<Rightarrow> [''[InitraOS] INITRAFS_DIRECTORY_LIST_FAIL'']
      | Some (inode_allocator, st) \<Rightarrow> ''[InitraOS] INITRAFS_DIRECTORY_LIST_OK'' #
     (case path_test_register st namespace nodes of
        None \<Rightarrow> [''[InitraOS] INITRAFS_PATH_FAIL'']
      | Some namespace \<Rightarrow> ''[InitraOS] INITRAFS_PATH_TRAVERSAL_OK'' #
     (case path_test_lookup st namespace of
        None \<Rightarrow> [''[InitraOS] INITRAFS_PATH_FAIL'']
      | Some _ \<Rightarrow> ''[InitraOS] INITRAFS_PATH_OK'' #
          verdict ''[InitraOS] INITRAFS_DIRECTORY_REMOVE_FAIL'' [''[InitraOS] INITRAFS_DIRECTORY_REMOVE_OK'']
            (path_test_remove superblock inode_allocator st namespace)))))"

subsection \<open>The tests pass\<close>

text \<open>What the local variables held before does not matter; the rest is evaluated.\<close>

definition test_superblock :: initrafs_superblock_t where
  "test_superblock = the (initrafs_superblock_init (Some blank_superblock) 4096)"

lemma test_superblock:
  "initrafs_superblock_init (Some sb) 4096 = Some test_superblock"
  "initrafs_bitmap_bytes (sb_total_blocks test_superblock) = 512" "sb_inode_count test_superblock = 128"
  by (simp_all add: test_superblock_def superblock_init_eq initrafs_bitmap_bytes_def)

lemma zeroed_any: "length bs = unat n \<Longrightarrow> initrafs_zero_bytes bs n = initrafs_zero_bytes (replicate (unat n) 0) n"
  by (simp add: initrafs_zero_bytes_def)

lemma block_init_any:
  assumes "length bm = 512" and "initrafs_bitmap_bytes (sb_total_blocks sb) = 512"
  shows "initrafs_block_allocator_init (Some a) (Some sb) (Some bm) 512 =
    initrafs_block_allocator_init (Some blank_block_allocator) (Some sb) (Some (replicate 512 0)) 512"
  using zeroed_any [of bm 512] assms by (simp add: initrafs_block_allocator_init_def Let_def)

lemma inode_init_any:
  assumes "length bm = 16" and "sb_inode_count sb = 128"
  shows "initrafs_inode_allocator_init (Some a) (Some sb) (Some bm) 16 =
    initrafs_inode_allocator_init (Some blank_inode_allocator) (Some sb) (Some (replicate 16 0)) 16"
  using zeroed_any [of bm 16] assms by (simp add: initrafs_inode_allocator_init_def initrafs_inode_bitmap_bytes_def Let_def)

lemma root_inode_any: "initrafs_root_inode_init (Some d) sb = initrafs_root_inode_init (Some zero_disk_inode) sb"
  by (simp add: initrafs_root_inode_init_def split: option.split)

lemma root_directory_any:
  "length es = unat n \<Longrightarrow> initrafs_root_directory_init (Some es) n = initrafs_root_directory_init (Some (replicate (unat n) zero_dirent)) n"
  by (simp add: initrafs_root_directory_init_def)

lemma initrafs_superblock_test_ok: "initrafs_superblock_test sb = [''[InitraOS] INITRAFS_SUPERBLOCK_OK'']"
  by (simp add: initrafs_superblock_test_def superblock_init_eq superblock_validate_iff require_def verdict_def)

lemma initrafs_root_test_ok:
  assumes "length es = 2"
  shows "initrafs_root_test sb d es = [''[InitraOS] INITRAFS_INTEGRITY_OK'', ''[InitraOS] INITRAFS_SYSTEM_PROTECTION_OK'',
    ''[InitraOS] INITRAFS_ROOT_OK'']"
proof -
  have r: "initrafs_root_directory_init (Some es) 2 = initrafs_root_directory_init (Some (replicate 2 zero_dirent)) 2"
    using root_directory_any [of es 2] assms by simp
  have "initrafs_root_test sb d es = initrafs_root_test blank_superblock zero_disk_inode (replicate 2 zero_dirent)"
    by (simp only: initrafs_root_test_def test_superblock(1) Option.bind.simps INITRAFS_ROOT_DIR_ENTRIES_def r root_inode_any [of d])
  also have "\<dots> = [''[InitraOS] INITRAFS_INTEGRITY_OK'', ''[InitraOS] INITRAFS_SYSTEM_PROTECTION_OK'',
    ''[InitraOS] INITRAFS_ROOT_OK'']" by code_simp
  finally show ?thesis .
qed

lemma initrafs_block_allocator_test_ok:
  assumes "length bm = 512"
  shows "initrafs_block_allocator_test sb a bm = [''[InitraOS] INITRAFS_BLOCK_OK'']"
proof -
  have "initrafs_block_allocator_test sb a bm = initrafs_block_allocator_test blank_superblock blank_block_allocator (replicate 512 0)"
    by (simp only: initrafs_block_allocator_test_def test_superblock(1) Option.bind.simps
        block_init_any [OF assms test_superblock(2), of a])
  also have "\<dots> = [''[InitraOS] INITRAFS_BLOCK_OK'']" by code_simp
  finally show ?thesis .
qed

lemma initrafs_inode_allocator_test_ok:
  assumes "length bm = 16"
  shows "initrafs_inode_allocator_test sb a bm = [''[InitraOS] INITRAFS_INODE_OK'']"
proof -
  have "initrafs_inode_allocator_test sb a bm = initrafs_inode_allocator_test blank_superblock blank_inode_allocator (replicate 16 0)"
    by (simp only: initrafs_inode_allocator_test_def test_superblock(1) Option.bind.simps
        inode_init_any [OF assms test_superblock(3), of a])
  also have "\<dots> = [''[InitraOS] INITRAFS_INODE_OK'']" by code_simp
  finally show ?thesis .
qed

lemma initrafs_inode_create_test_ok:
  assumes "length bm = 16"
  shows "initrafs_inode_create_test sb a bm i j = [''[InitraOS] INITRAFS_INODE_CREATE_OK'']"
proof -
  have "initrafs_inode_create_test sb a bm i j =
      initrafs_inode_create_test blank_superblock blank_inode_allocator (replicate 16 0) i j"
    by (simp only: initrafs_inode_create_test_def test_superblock(1) Option.bind.simps
        inode_init_any [OF assms test_superblock(3), of a])
  also have "\<dots> = [''[InitraOS] INITRAFS_INODE_CREATE_OK'']" by code_simp
  finally show ?thesis .
qed

lemma initrafs_directory_test_ok:
  assumes "length es = 8"
  shows "initrafs_directory_test sb es = [''[InitraOS] INITRAFS_DIRECTORY_OK'']"
proof -
  have r: "initrafs_root_directory_init (Some es) 8 = initrafs_root_directory_init (Some (replicate 8 zero_dirent)) 8"
    using root_directory_any [of es 8] assms by simp
  have "initrafs_directory_test sb es = initrafs_directory_test blank_superblock (replicate 8 zero_dirent)"
    by (simp only: initrafs_directory_test_def test_superblock(1) Option.bind.simps r)
  also have "\<dots> = [''[InitraOS] INITRAFS_DIRECTORY_OK'']" by code_simp
  finally show ?thesis .
qed

lemma initrafs_inode_block_mapping_test_ok: "initrafs_inode_block_mapping_test sb d = [''[InitraOS] INITRAFS_BLOCK_MAP_OK'']"
  by (simp add: initrafs_inode_block_mapping_test_def superblock_init_eq initrafs_inode_map_block_def initrafs_inode_get_block_def
      initrafs_inode_unmap_block_def initrafs_inode_logical_block_valid_def require_def verdict_def)

definition path_tested :: "string list" where
  "path_tested = [''[InitraOS] INITRAFS_DIRECTORY_CREATE_OK'', ''[InitraOS] INITRAFS_DIRECTORY_LIST_OK'',
     ''[InitraOS] INITRAFS_PATH_TRAVERSAL_OK'', ''[InitraOS] INITRAFS_PATH_OK'', ''[InitraOS] INITRAFS_DIRECTORY_REMOVE_OK'']"

lemma eight: "length xs = 8 \<Longrightarrow> \<exists>a b c d e f g h. xs = [a, b, c, d, e, f, g, h]"
  by (auto simp: length_Suc_conv numeral_eq_Suc)

lemma initrafs_directory_path_test_ok:
  assumes "length (st_entries st root_object) = 8" "length (st_entries st docs_object) = 8"
    and "length bm = 16" "length listed = 8" "length nodes = 4"
  shows "initrafs_directory_path_test sb a bm st listed ns nodes = path_tested"
proof -
  obtain fi fd fe where st: "st = \<lparr>st_inode = fi, st_disk_inode = fd, st_entries = fe\<rparr>" by (cases st) auto
  obtain r0 r1 r2 r3 r4 r5 r6 r7 where r: "fe 1 = [r0, r1, r2, r3, r4, r5, r6, r7]"
    using eight [of "fe 1"] assms(1) by (auto simp: st root_object_def)
  obtain d0 d1 d2 d3 d4 d5 d6 d7 where d: "fe 2 = [d0, d1, d2, d3, d4, d5, d6, d7]"
    using eight [of "fe 2"] assms(2) by (auto simp: st docs_object_def)
  obtain l0 l1 l2 l3 l4 l5 l6 l7 where l: "listed = [l0, l1, l2, l3, l4, l5, l6, l7]"
    using eight [OF assms(4)] by blast
  obtain n0 n1 n2 n3 where n: "nodes = [n0, n1, n2, n3]"
    using assms(5) by (auto simp: length_Suc_conv numeral_eq_Suc)
  have f: "fe = fe(1 := [r0, r1, r2, r3, r4, r5, r6, r7], 2 := [d0, d1, d2, d3, d4, d5, d6, d7])"
    using r d by (simp add: fun_eq_iff)
  have i: "initrafs_inode_allocator_init (Some a) (Some test_superblock) (Some bm) 16 =
      initrafs_inode_allocator_init (Some blank_inode_allocator) (Some test_superblock) (Some (replicate 16 0)) 16"
    by (rule inode_init_any [OF assms(3) test_superblock(3)])
  have "path_test_create sb a bm st = path_test_create blank_superblock blank_inode_allocator (replicate 16 0) st"
    by (simp only: path_test_create_def test_superblock(1) Option.bind.simps i)
  then have "initrafs_directory_path_test sb a bm st listed ns nodes =
      initrafs_directory_path_test blank_superblock blank_inode_allocator (replicate 16 0)
        \<lparr>st_inode = fi, st_disk_inode = fd, st_entries = fe(1 := [r0, r1, r2, r3, r4, r5, r6, r7], 2 := [d0, d1, d2, d3, d4, d5, d6, d7])\<rparr>
        [l0, l1, l2, l3, l4, l5, l6, l7] ns [n0, n1, n2, n3]"
    unfolding f [symmetric] st [symmetric] l [symmetric] n [symmetric] by (simp only: initrafs_directory_path_test_def)
  also have "\<dots> = path_tested" by code_simp
  finally show ?thesis .
qed

subsection \<open>Properties\<close>

text \<open>
  C40: the boot-time tests of the file system's parts report success, whatever the
  memory of their local variables held before: superblock, root directory, the two
  allocators, inodes with their permissions, directories, the block map of an inode
  and paths, above the root too, pass every one of their checks.
\<close>

theorem fs_self_tests_pass:
  assumes "length root_entries = 2" and "length block_bitmap = 512" and "length inode_bitmap = 16" and "length entries = 8"
    and "length (st_entries st root_object) = 8" "length (st_entries st docs_object) = 8" "length nodes = 4"
  shows "initrafs_superblock_test sb @ initrafs_root_test sb d root_entries @ initrafs_block_allocator_test sb ba block_bitmap @
      initrafs_inode_allocator_test sb ia inode_bitmap @ initrafs_inode_create_test sb ia inode_bitmap i j @
      initrafs_directory_test sb entries @ initrafs_inode_block_mapping_test sb d @
      initrafs_directory_path_test sb ia inode_bitmap st entries ns nodes =
    [''[InitraOS] INITRAFS_SUPERBLOCK_OK'', ''[InitraOS] INITRAFS_INTEGRITY_OK'', ''[InitraOS] INITRAFS_SYSTEM_PROTECTION_OK'',
     ''[InitraOS] INITRAFS_ROOT_OK'', ''[InitraOS] INITRAFS_BLOCK_OK'', ''[InitraOS] INITRAFS_INODE_OK'',
     ''[InitraOS] INITRAFS_INODE_CREATE_OK'', ''[InitraOS] INITRAFS_DIRECTORY_OK'', ''[InitraOS] INITRAFS_BLOCK_MAP_OK''] @ path_tested"
  unfolding initrafs_superblock_test_ok initrafs_root_test_ok [OF assms(1)] initrafs_block_allocator_test_ok [OF assms(2)]
    initrafs_inode_allocator_test_ok [OF assms(3)] initrafs_inode_create_test_ok [OF assms(3)]
    initrafs_directory_test_ok [OF assms(4)] initrafs_inode_block_mapping_test_ok
    initrafs_directory_path_test_ok [OF assms(5,6,3,4,7)]
  by simp

theorem fs_self_tests_pass_witness:
  "last (initrafs_superblock_test blank_superblock @ initrafs_root_test blank_superblock zero_disk_inode (replicate 2 zero_dirent) @
      initrafs_block_allocator_test blank_superblock blank_block_allocator (replicate 512 0xFF) @
      initrafs_inode_allocator_test blank_superblock blank_inode_allocator (replicate 16 0xFF) @
      initrafs_inode_create_test blank_superblock blank_inode_allocator (replicate 16 0xFF) zero_fs_inode zero_fs_inode @
      initrafs_directory_test blank_superblock (replicate 8 zero_dirent) @
      initrafs_inode_block_mapping_test blank_superblock zero_disk_inode @
      initrafs_directory_path_test blank_superblock blank_inode_allocator (replicate 16 0xFF)
        \<lparr>st_inode = \<lambda>_. zero_fs_inode, st_disk_inode = \<lambda>_. zero_disk_inode, st_entries = \<lambda>_. replicate 8 zero_dirent\<rparr>
        (replicate 8 zero_dirent) \<lparr>ns_nodes = None, ns_node_count = 0, ns_node_capacity = 0, ns_root_inode = 0\<rparr>
        (replicate 4 zero_node)) = ''[InitraOS] INITRAFS_DIRECTORY_REMOVE_OK''"
  by (subst fs_self_tests_pass) (simp_all add: path_tested_def)

end
