(* ===== verification/Kernel_Self_Tests.thy ===== *)
theory Kernel_Self_Tests
  imports Shell_Round Memory_Properties
begin

section \<open>The self-tests of memory\<close>

text \<open>
  The tests of \<open>kernel.c\<close> that run at boot before any user program: page frames,
  pages and the regions of user space. A test returns the lines it prints on the
  serial line and the machine it leaves; \<open>hex\<close> is what \<open>c_serial_print_hex\<close> prints of a
  number, and \<open>None\<close> a page fault. Every test passes on every well-formed machine with
  two free frames, and the lemmas say what it leaves: \<open>same_frames\<close>, \<open>pages_tested\<close>.
\<close>

definition say :: "string list \<Rightarrow> string list \<times> 's \<Rightarrow> string list \<times> 's" where
  "say lines r = (lines @ fst r, snd r)"

subsection \<open>Page frames\<close>

definition frame_allocator_test :: "(u32 \<Rightarrow> string) \<Rightarrow> frame_state \<Rightarrow> string list \<times> frame_state" where
  "frame_allocator_test hex s =
     (let (frame1, s) = frame_alloc s; (frame2, s) = frame_alloc s
      in if frame1 = 0 \<or> frame2 = 0 \<or> frame1 AND (FRAME_SIZE - 1) \<noteq> 0 \<or> frame2 AND (FRAME_SIZE - 1) \<noteq> 0 \<or>
            frame1 = frame2
         then ([''[InitraOS] FRAME_ALLOC_FAIL''], s)
         else say [''[InitraOS] FRAME_ALLOC_OK'', ''[InitraOS] FRAME1: 0x'' @ hex frame1,
                   ''[InitraOS] FRAME2: 0x'' @ hex frame2]
          (if \<not> frame_is_tracked s frame1 \<or> \<not> frame_is_tracked s frame2
           then ([''[InitraOS] FRAME_TRACK_FAIL''], s)
           else say [''[InitraOS] FRAME_TRACK_OK'']
            (let (freed, s) = frame_free s frame1
             in if \<not> freed \<or> frame_is_tracked s frame1 then ([''[InitraOS] FRAME_FREE_FAIL''], s)
                else say [''[InitraOS] FRAME_FREE_OK'']
                 (let (reused, s) = frame_alloc s
                  in if reused \<noteq> frame1 \<or> \<not> frame_is_tracked s reused
                     then ([''[InitraOS] FRAME_REUSE_FAIL''], s)
                     else ([''[InitraOS] FRAME_REUSE_OK''], snd (frame_free (snd (frame_free s reused)) frame2))))))"

definition frame_protection_test :: "frame_state \<Rightarrow> string list \<times> frame_state" where
  "frame_protection_test s =
     (let kernel_frame = align_up_4k 0x00008800; low_frame = 0x00001000; (probe, s) = frame_alloc s
      in if \<not> frame_is_reserved s low_frame \<or> \<not> frame_is_reserved s kernel_frame \<or>
            \<not> frame_is_reserved s USER_CODE_BASE \<or> \<not> frame_is_reserved s USER_STACK_BASE \<or> probe = 0
         then ([''[InitraOS] FRAME_PROTECT_FAIL''], if probe \<noteq> 0 then snd (frame_free s probe) else s)
         else ([''[InitraOS] FRAME_PROTECT_OK''], snd (frame_free s probe)))"

definition frame_validation_test :: "frame_state \<Rightarrow> string list \<times> frame_state" where
  "frame_validation_test s =
     (let (frame, s) = frame_alloc s
      in if frame = 0 \<or> frame AND (FRAME_SIZE - 1) \<noteq> 0 \<or> frame < FRAME_ALLOC_START \<or>
            frame \<ge> FRAME_TRACK_LIMIT \<or> \<not> frame_in_usable_e820 s frame \<or> \<not> frame_is_tracked s frame
         then ([''[InitraOS] FRAME_VALIDATION_FAIL''], s)
         else let (freed, s) = frame_free s frame
              in if \<not> freed \<or> frame_is_tracked s frame then ([''[InitraOS] FRAME_VALIDATION_FAIL''], s)
                 else ([''[InitraOS] FRAME_VALIDATION_OK''], s))"

text \<open>The same frames are free, and the same are handed out.\<close>

definition same_frames :: "frame_state \<Rightarrow> frame_state \<Rightarrow> bool" where
  "same_frames s s' \<longleftrightarrow> frames_ok s' \<and> frame_free_set s' = frame_free_set s \<and> frame_units s' = frame_units s"

lemma frame_taken:
  assumes "frames_ok s" "frame_free_set s \<noteq> {}"
  obtains f s' where "frame_alloc s = (f, s')" "f = Min (frame_free_set s)" "f \<in> frame_free_set s" "f \<in> frame_units s"
    "f \<noteq> 0" "frames_ok s'" "frame_free_set s' = frame_free_set s - {f}" "frame_units s' = frame_units s"
    "f AND 0xFFF = 0" "f \<ge> 0x00200000" "f < 0x08000000" "frame_in_usable_e820 s' f" "frame_is_tracked s' f"
proof -
  obtain f s' where a: "frame_alloc s = (f, s')" by fastforce
  note T = frames.take_cases [OF assms(1) a] and I = frames.invar_take [OF assms(1) a]
  have f: "f \<noteq> 0" "f \<in> frame_free_set s" "f = Min (frame_free_set s)" "frame_free_set s' = frame_free_set s - {f}"
    "frame_units s' = frame_units s" using T assms(2) by auto
  then have u: "f \<in> frame_units s" "f \<in> frame_units s'" by (auto simp: frame_free_set_def)
  then have "frame_is_tracked s' f" using f(4) by (auto simp: frame_free_set_def)
  then show ?thesis using that a I f u frame_unit_bounds [OF u(2)] by blast
qed

lemma frame_given:
  assumes "frames_ok s" "f \<in> frame_units s" "f \<notin> frame_free_set s"
  obtains s' where "frame_free s f = (True, s')" "frames_ok s'" "frame_free_set s' = insert f (frame_free_set s)"
    "frame_units s' = frame_units s" "\<not> frame_is_tracked s' f"
proof -
  obtain r s' where g: "frame_free s f = (r, s')" by fastforce
  have m: "f \<in> frame_units s - frame_free_set s" using assms by blast
  note G = frames.give_ok [OF assms(1) m g] and I = frames.invar_give [OF assms(1) g]
  then have "f \<in> frame_free_set s'" by blast
  then have "\<not> frame_is_tracked s' f" by (simp add: frame_free_set_def)
  then show ?thesis using that [of s'] g G I by simp
qed

lemma kernel_frame_reserved:
  "frame_is_reserved s 0x1000" "frame_is_reserved s 0x9000" "frame_is_reserved s USER_CODE_BASE"
  "frame_is_reserved s USER_STACK_BASE"
  by (simp_all add: frame_is_reserved_def Let_def)

lemma frame_protection_test_ok:
  assumes "frames_ok s" "frame_free_set s \<noteq> {}"
  shows "\<exists>s'. frame_protection_test s = ([''[InitraOS] FRAME_PROTECT_OK''], s') \<and> same_frames s s'"
proof -
  obtain f s1 where A: "frame_alloc s = (f, s1)" "f \<in> frame_free_set s" "f \<in> frame_units s"
    "f \<noteq> 0" "frames_ok s1" "frame_free_set s1 = frame_free_set s - {f}" "frame_units s1 = frame_units s"
    by (rule frame_taken [OF assms]) (rule that; assumption)
  obtain s2 where B: "frame_free s1 f = (True, s2)" "frames_ok s2" "frame_free_set s2 = insert f (frame_free_set s1)"
    "frame_units s2 = frame_units s1"
    by (rule frame_given [of s1 f]) (use A in auto)
  have "align_up_4k 0x8800 = 0x9000" by (simp add: align_up_4k_def)
  then have "frame_protection_test s = ([''[InitraOS] FRAME_PROTECT_OK''], s2)"
    using A(1,4) B(1) kernel_frame_reserved by (simp add: frame_protection_test_def)
  moreover have "same_frames s s2" using A B by (auto simp: same_frames_def)
  ultimately show ?thesis by blast
qed

lemma frame_validation_test_ok:
  assumes "frames_ok s" "frame_free_set s \<noteq> {}"
  shows "\<exists>s'. frame_validation_test s = ([''[InitraOS] FRAME_VALIDATION_OK''], s') \<and> same_frames s s'"
proof -
  obtain f s1 where A: "frame_alloc s = (f, s1)" "f \<in> frame_free_set s" "f \<in> frame_units s"
    "f \<noteq> 0" "frames_ok s1" "frame_free_set s1 = frame_free_set s - {f}" "frame_units s1 = frame_units s"
    "f AND 0xFFF = 0" "f \<ge> 0x00200000" "f < 0x08000000" "frame_in_usable_e820 s1 f" "frame_is_tracked s1 f"
    by (rule frame_taken [OF assms]) (rule that; assumption)
  obtain s2 where B: "frame_free s1 f = (True, s2)" "frames_ok s2" "frame_free_set s2 = insert f (frame_free_set s1)"
    "frame_units s2 = frame_units s1" "\<not> frame_is_tracked s2 f"
    by (rule frame_given [of s1 f]) (use A in auto)
  have "frame_validation_test s = ([''[InitraOS] FRAME_VALIDATION_OK''], s2)"
    using A B by (simp add: frame_validation_test_def not_less not_le)
  moreover have "same_frames s s2" using A B by (auto simp: same_frames_def)
  ultimately show ?thesis by blast
qed

lemma frame_allocator_test_ok:
  assumes "frames_ok s" "frame_free_set s = insert f1 (insert f2 F)" "f1 < f2" "\<forall>f \<in> F. f2 < f"
  shows "\<exists>s'. frame_allocator_test hex s = ([''[InitraOS] FRAME_ALLOC_OK'', ''[InitraOS] FRAME1: 0x'' @ hex f1,
      ''[InitraOS] FRAME2: 0x'' @ hex f2, ''[InitraOS] FRAME_TRACK_OK'', ''[InitraOS] FRAME_FREE_OK'',
      ''[InitraOS] FRAME_REUSE_OK''], s') \<and> same_frames s s'"
proof -
  have ne: "frame_free_set s \<noteq> {}" using assms by blast
  have m1: "Min (frame_free_set s) = f1" unfolding assms(2) by (rule Min_eqI) (use assms(3,4) in auto)
  obtain s1 where A: "frame_alloc s = (f1, s1)" "f1 \<in> frame_units s"
    "f1 \<noteq> 0" "frames_ok s1" "frame_free_set s1 = frame_free_set s - {f1}" "frame_units s1 = frame_units s"
    "f1 AND 0xFFF = 0" "frame_is_tracked s1 f1"
    by (rule frame_taken [OF assms(1) ne]) (use that m1 in blast)
  have fs1: "frame_free_set s1 = insert f2 F" using A(5) assms(2,3,4) by auto
  have ne1: "frame_free_set s1 \<noteq> {}" using fs1 by blast
  have m2: "Min (frame_free_set s1) = f2" unfolding fs1 by (rule Min_eqI) (use assms(4) in auto)
  obtain s2 where B: "frame_alloc s1 = (f2, s2)" "f2 \<in> frame_units s1"
    "f2 \<noteq> 0" "frames_ok s2" "frame_free_set s2 = frame_free_set s1 - {f2}" "frame_units s2 = frame_units s1"
    "f2 AND 0xFFF = 0" "frame_is_tracked s2 f2"
    by (rule frame_taken [OF A(4) ne1]) (use that m2 in blast)
  have u: "f1 \<in> frame_units s2" "f1 \<notin> frame_free_set s2" using A B by auto
  then have t1: "frame_is_tracked s2 f1" by (simp add: frame_free_set_def)
  obtain s3 where C: "frame_free s2 f1 = (True, s3)" "frames_ok s3" "frame_free_set s3 = insert f1 (frame_free_set s2)"
    "frame_units s3 = frame_units s2" "\<not> frame_is_tracked s3 f1" by (rule frame_given [OF B(4) u])
  have ne3: "frame_free_set s3 \<noteq> {}" using C(3) by blast
  have "\<forall>f \<in> frame_free_set s3. f1 \<le> f" using C(3) B(5) fs1 assms(3,4) by (auto intro: less_imp_le less_trans)
  then have m3: "Min (frame_free_set s3) = f1" by (intro Min_eqI) (use C(3) in auto)
  obtain s4 where D: "frame_alloc s3 = (f1, s4)" "f1 \<in> frame_units s3" "frames_ok s4" "frame_free_set s4 = frame_free_set s3 - {f1}"
    "frame_units s4 = frame_units s3" "frame_is_tracked s4 f1"
    by (rule frame_taken [OF C(2) ne3]) (use that m3 in blast)
  obtain s5 where E: "frame_free s4 f1 = (True, s5)" "frames_ok s5" "frame_free_set s5 = insert f1 (frame_free_set s4)"
    "frame_units s5 = frame_units s4"
    by (rule frame_given [of s4 f1]) (use D in auto)
  obtain s6 where G: "frame_free s5 f2 = (True, s6)" "frames_ok s6" "frame_free_set s6 = insert f2 (frame_free_set s5)"
    "frame_units s6 = frame_units s5"
    by (rule frame_given [of s5 f2]) (use A B C D E assms(3) in auto)
  have "same_frames s s6" using A B C D E G fs1 assms(2,3) by (auto simp: same_frames_def)
  moreover have "frame_allocator_test hex s = ([''[InitraOS] FRAME_ALLOC_OK'', ''[InitraOS] FRAME1: 0x'' @ hex f1,
      ''[InitraOS] FRAME2: 0x'' @ hex f2, ''[InitraOS] FRAME_TRACK_OK'', ''[InitraOS] FRAME_FREE_OK'',
      ''[InitraOS] FRAME_REUSE_OK''], s6)"
    using A(1,3,7) B(1,3,7,8) t1 C(1,5) D(1,6) E(1) G(1) assms(3)
    by (simp add: frame_allocator_test_def say_def)
  ultimately show ?thesis by blast
qed


subsection \<open>Pages\<close>

text \<open>
  The tests of the pages map a new frame, write a word through the page, read it
  back, and release page and frame. \<open>release_page\<close> is their final check,
  \<open>undo_page\<close> what they do when a check has failed.
\<close>

definition undo_page :: "vm_state \<Rightarrow> u32 \<Rightarrow> u32 \<Rightarrow> vm_state" where
  "undo_page vm va frame = (let vm = snd (page_unmap vm va) in vm\<lparr>vm_frames := snd (frame_free (vm_frames vm) frame)\<rparr>)"

definition release_page :: "vm_state \<Rightarrow> u32 \<Rightarrow> u32 \<Rightarrow> bool \<times> vm_state" where
  "release_page vm va frame =
     (let (unmapped, vm) = page_unmap vm va
      in if \<not> unmapped then (False, vm)
         else let (freed, fs) = frame_free (vm_frames vm) frame
              in (freed \<and> \<not> frame_is_tracked fs frame, vm\<lparr>vm_frames := fs\<rparr>))"

definition store_word :: "heap_state \<Rightarrow> u32 \<Rightarrow> u32 \<Rightarrow> heap_state option" where
  "store_word h a w = store_bytes h a (u32_bytes w)"

definition frame_paging_test :: "heap_state \<Rightarrow> (string list \<times> heap_state) option" where
  "frame_paging_test h =
     (let test_virtual = 0x00400000; magic = 0x1A17A05;
          failed = (\<lambda>h. Some ([''[InitraOS] FRAME_PAGING_FAIL''], h))
      in case page_map_new_frame (hs_vm h) test_virtual (PAGE_PRESENT OR PAGE_WRITABLE) of
           (None, vm) \<Rightarrow> failed (h\<lparr>hs_vm := vm\<rparr>)
         | (Some frame, vm) \<Rightarrow>
             if \<not> frame_is_tracked (vm_frames vm) frame then failed (h\<lparr>hs_vm := undo_page vm test_virtual frame\<rparr>)
             else do {
               h \<leftarrow> store_word (h\<lparr>hs_vm := vm\<rparr>) test_virtual magic;
               test_page \<leftarrow> load_u32 h test_virtual;
               if test_page \<noteq> magic then failed (h\<lparr>hs_vm := undo_page (hs_vm h) test_virtual frame\<rparr>)
               else let (released, vm) = release_page (hs_vm h) test_virtual frame
                    in if \<not> released then failed (h\<lparr>hs_vm := vm\<rparr>)
                       else Some ([''[InitraOS] FRAME_PAGING_OK''], h\<lparr>hs_vm := vm\<rparr>) })"

definition dynamic_page_test :: "heap_state \<Rightarrow> (string list \<times> heap_state) option" where
  "dynamic_page_test h =
     (let page1_virtual = 0x00500000; page2_virtual = 0x00501000; magic1 = 0xD94A0001; magic2 = 0xD94A0002;
          failed = (\<lambda>h. Some ([''[InitraOS] DYNAMIC_PAGE_FAIL''], h));
          undo = (\<lambda>vm frame1 frame2. (let vm = snd (page_unmap (snd (page_unmap vm page1_virtual)) page2_virtual)
                    in vm\<lparr>vm_frames := snd (frame_free (snd (frame_free (vm_frames vm) frame1)) frame2)\<rparr>))
      in case page_map_new_frame (hs_vm h) page1_virtual (PAGE_PRESENT OR PAGE_WRITABLE) of
           (None, vm) \<Rightarrow> failed (h\<lparr>hs_vm := vm\<rparr>)
         | (Some frame1, vm) \<Rightarrow>
             (case page_map_new_frame vm page2_virtual (PAGE_PRESENT OR PAGE_WRITABLE) of
                (None, vm) \<Rightarrow> failed (h\<lparr>hs_vm := undo_page vm page1_virtual frame1\<rparr>)
              | (Some frame2, vm) \<Rightarrow>
                  if frame1 = frame2 \<or> \<not> frame_is_tracked (vm_frames vm) frame1 \<or> \<not> frame_is_tracked (vm_frames vm) frame2
                  then failed (h\<lparr>hs_vm := undo vm frame1 frame2\<rparr>)
                  else do {
                    h \<leftarrow> store_word (h\<lparr>hs_vm := vm\<rparr>) page1_virtual magic1;
                    h \<leftarrow> store_word h page2_virtual magic2;
                    page1 \<leftarrow> load_u32 h page1_virtual;
                    page2 \<leftarrow> load_u32 h page2_virtual;
                    if page1 \<noteq> magic1 \<or> page2 \<noteq> magic2 then failed (h\<lparr>hs_vm := undo (hs_vm h) frame1 frame2\<rparr>)
                    else
                      let (unmapped1, vm) = page_unmap (hs_vm h) page1_virtual
                      in if \<not> unmapped1 then failed (h\<lparr>hs_vm := vm\<rparr>)
                         else let (unmapped2, vm) = page_unmap vm page2_virtual
                         in if \<not> unmapped2 then failed (h\<lparr>hs_vm := vm\<rparr>)
                         else let (freed1, fs) = frame_free (vm_frames vm) frame1
                         in if \<not> freed1 then failed (h\<lparr>hs_vm := vm\<lparr>vm_frames := fs\<rparr>\<rparr>)
                         else let (freed2, fs) = frame_free fs frame2; h = h\<lparr>hs_vm := vm\<lparr>vm_frames := fs\<rparr>\<rparr>
                         in if \<not> freed2 \<or> frame_is_tracked fs frame1 \<or> frame_is_tracked fs frame2 then failed h
                            else Some ([''[InitraOS] DYNAMIC_PAGE_OK''], h) }))"

definition page_protection_test :: "heap_state \<Rightarrow> string list \<times> heap_state" where
  "page_protection_test h =
     (let test_virtual = 0x00502000; failed = (\<lambda>vm. ([''[InitraOS] PAGE_PROTECTION_FAIL''], h\<lparr>hs_vm := vm\<rparr>))
      in case page_map_new_frame (hs_vm h) test_virtual PAGE_PRESENT of
           (None, vm) \<Rightarrow> failed vm
         | (Some frame, vm) \<Rightarrow>
             let entry = entry_at (the (as_page_tables (vm_kernel_space vm))) test_virtual
             in if frame = 0 \<or> \<not> frame_is_tracked (vm_frames vm) frame \<or> entry AND PAGE_PRESENT = 0 \<or>
                   entry AND PAGE_WRITABLE \<noteq> 0
                then failed (let vm = snd (page_unmap vm test_virtual)
                             in if frame \<noteq> 0 then vm\<lparr>vm_frames := snd (frame_free (vm_frames vm) frame)\<rparr> else vm)
                else let (released, vm) = release_page vm test_virtual frame
                     in if \<not> released then failed vm
                        else ([''[InitraOS] PAGE_PROTECTION_OK''], h\<lparr>hs_vm := vm\<rparr>))"

definition page_user_protection_test :: "vm_state \<Rightarrow> string list" where
  "page_user_protection_test vm =
     (let tables = the (as_page_tables (vm_kernel_space vm));
          user_code_entry = tables ! 0 ! unat (drop_bit 12 USER_CODE_BASE AND 0x3FF);
          user_stack_entry = tables ! 1 ! unat (drop_bit 12 USER_STACK_BASE AND 0x3FF);
          kernel_entry = tables ! 0 ! unat (drop_bit 12 KERNEL_TEST_ADDRESS);
          mask = PAGE_PRESENT OR PAGE_WRITABLE OR PAGE_USER
      in if user_code_entry AND mask \<noteq> mask then [''[InitraOS] PAGE_USER_PROTECTION_FAIL'']
         else if user_stack_entry AND mask \<noteq> mask then [''[InitraOS] PAGE_USER_PROTECTION_FAIL'']
         else if kernel_entry AND mask \<noteq> PAGE_PRESENT OR PAGE_WRITABLE then [''[InitraOS] PAGE_USER_PROTECTION_FAIL'']
         else [''[InitraOS] PAGE_USER_PROTECTION_OK''])"

definition heap_paging_test :: "heap_state \<Rightarrow> (string list \<times> heap_state) option" where
  "heap_paging_test h =
     (let heap_page_virtual = 0x00600000; magic = 0x95A11E01;
          failed = (\<lambda>h. Some ([''[InitraOS] HEAP_PAGING_FAIL''], h))
      in case page_map_new_frame (hs_vm h) heap_page_virtual (PAGE_PRESENT OR PAGE_WRITABLE) of
           (None, vm) \<Rightarrow> failed (h\<lparr>hs_vm := vm\<rparr>)
         | (Some frame, vm) \<Rightarrow>
             if frame = 0 \<or> \<not> frame_is_tracked (vm_frames vm) frame
             then failed (h\<lparr>hs_vm := let vm = snd (page_unmap vm heap_page_virtual)
                                 in if frame \<noteq> 0 then vm\<lparr>vm_frames := snd (frame_free (vm_frames vm) frame)\<rparr> else vm\<rparr>)
             else do {
               h \<leftarrow> store_word (h\<lparr>hs_vm := vm\<rparr>) heap_page_virtual magic;
               heap_page \<leftarrow> load_u32 h heap_page_virtual;
               if heap_page \<noteq> magic then failed (h\<lparr>hs_vm := undo_page (hs_vm h) heap_page_virtual frame\<rparr>)
               else let (released, vm) = release_page (hs_vm h) heap_page_virtual frame
                    in if \<not> released then failed (h\<lparr>hs_vm := vm\<rparr>)
                       else Some ([''[InitraOS] HEAP_PAGING_OK''], h\<lparr>hs_vm := vm\<rparr>) })"


lemma page_taken:
  assumes "vm_ok vm" and "frame_free_set (vm_frames vm) \<noteq> {}" and "directory_index va < PAGE_TABLE_COUNT"
  obtains f vm' where "page_map_new_frame vm va flags = (Some f, vm')" "f \<in> frame_free_set (vm_frames vm)" "f \<noteq> 0"
    "frame_is_tracked (vm_frames vm') f" "vm_ok vm'"
    "frame_free_set (vm_frames vm') = frame_free_set (vm_frames vm) - {f}" "frame_units (vm_frames vm') = frame_units (vm_frames vm)"
    "pages_of (vm_kernel_space vm') = (\<lambda>vb. if page_of va = page_of vb then Some (f OR (flags AND 0xFFF))
       else pages_of (vm_kernel_space vm) vb)"
proof -
  have v: "frames_ok (vm_frames vm)" "space_ok (vm_kernel_space vm)" "as_page_table_count (vm_kernel_space vm) = PAGE_TABLE_COUNT"
    using assms(1) by (simp_all add: vm_ok_def)
  obtain f fs where A: "frame_alloc (vm_frames vm) = (f, fs)" "f \<in> frame_free_set (vm_frames vm)"
    "f \<in> frame_units (vm_frames vm)" "f \<noteq> 0" "frames_ok fs" "frame_free_set fs = frame_free_set (vm_frames vm) - {f}"
    "frame_units fs = frame_units (vm_frames vm)" "frame_is_tracked fs f"
    by (rule frame_taken [OF v(1) assms(2)]) (rule that; assumption)
  let ?e = "(f AND 0xFFFFF000) OR (flags AND 0xFFF)"
  have d: "directory_index va < as_page_table_count (vm_kernel_space vm)" using assms(3) v(3) by simp
  note W = with_entry_pages [OF v(2) d, of ?e]
  have "vm_ok \<lparr>vm_frames = fs, vm_kernel_space = with_entry (vm_kernel_space vm) va ?e\<rparr>"
    using A(5) v(3) W(1) by (simp add: vm_ok_def with_entry_def)
  then show ?thesis
    using that [of f "\<lparr>vm_frames = fs, vm_kernel_space = with_entry (vm_kernel_space vm) va ?e\<rparr>"] A W(2)
      page_map_new_frame_eq [OF assms(1,3), of flags] frame_unit_aligned [OF A(3)] by (simp add: fun_eq_iff)
qed

lemma page_unmapped:
  assumes "vm_ok vm" and "directory_index va < PAGE_TABLE_COUNT"
  obtains vm' where "page_unmap vm va = (True, vm')" "vm_ok vm'" "vm_frames vm' = vm_frames vm"
    "pages_of (vm_kernel_space vm') = (\<lambda>vb. if page_of va = page_of vb then Some 0 else pages_of (vm_kernel_space vm) vb)"
proof -
  have v: "space_ok (vm_kernel_space vm)" "directory_index va < as_page_table_count (vm_kernel_space vm)"
    using assms by (simp_all add: vm_ok_def)
  show ?thesis
    using that [of "vm\<lparr>vm_kernel_space := with_entry (vm_kernel_space vm) va 0\<rparr>"] with_entry_pages [OF v, of 0]
      map_in_space_eq(2) [OF v(1), of va] v(2) assms(1)
    by (simp add: page_unmap_def vm_ok_def with_entry_def fun_eq_iff)
qed

lemma page_released:
  assumes "vm_ok vm" and "directory_index va < PAGE_TABLE_COUNT"
    and "f \<in> frame_units (vm_frames vm)" "f \<notin> frame_free_set (vm_frames vm)"
  obtains vm' where "release_page vm va f = (True, vm')" "vm_ok vm'"
    "frame_free_set (vm_frames vm') = insert f (frame_free_set (vm_frames vm))" "frame_units (vm_frames vm') = frame_units (vm_frames vm)"
    "pages_of (vm_kernel_space vm') = (\<lambda>vb. if page_of va = page_of vb then Some 0 else pages_of (vm_kernel_space vm) vb)"
proof -
  obtain vm1 where U: "page_unmap vm va = (True, vm1)" "vm_ok vm1" "vm_frames vm1 = vm_frames vm"
    "pages_of (vm_kernel_space vm1) = (\<lambda>vb. if page_of va = page_of vb then Some 0 else pages_of (vm_kernel_space vm) vb)"
    by (rule page_unmapped [OF assms(1,2)])
  obtain fs where F: "frame_free (vm_frames vm) f = (True, fs)" "frames_ok fs"
    "frame_free_set fs = insert f (frame_free_set (vm_frames vm))" "frame_units fs = frame_units (vm_frames vm)" "\<not> frame_is_tracked fs f"
    by (rule frame_given [OF _ assms(3,4)]) (use assms(1) in \<open>simp add: vm_ok_def\<close>)
  show ?thesis using that [of "vm1\<lparr>vm_frames := fs\<rparr>"] U F by (simp add: release_page_def vm_ok_def)
qed

lemma page_translation:
  assumes "vm_ok (hs_vm h)" "pages_of (vm_kernel_space (hs_vm h)) va = Some (f OR (flags AND 0xFFF))" "hs_paging h \<noteq> 0"
    and "f AND 0xFFFFF000 = f" "flags AND PAGE_PRESENT \<noteq> 0" "va AND 0xFFF = 0"
  shows "translate h va = Some f"
  using assms entry_parts [of f flags]
  by (auto simp: vm_ok_def pages_of_def translate_def Let_def split: if_splits)

text \<open>A word written to the start of a page is read back.\<close>

lemma word_round_trip:
  assumes "translate h va = Some pa" "va AND 0xFFF = 0"
  obtains m where "store_word h va w = Some (h\<lparr>hs_memory := m\<rparr>)" "load_u32 (h\<lparr>hs_memory := m\<rparr>) va = Some w"
    "m = overwrite (hs_memory h) pa (u32_bytes w)"
proof -
  let ?m = "overwrite (hs_memory h) pa (u32_bytes w)"
  have z: "unat va mod 4096 = 0" using assms(2) by (simp add: and_FFF)
  have s: "store_word h va w = Some (h\<lparr>hs_memory := ?m\<rparr>)" using store_bytes_spec [OF assms(1), of "u32_bytes w"] z by (simp add: store_word_def)
  have t: "translate (h\<lparr>hs_memory := ?m\<rparr>) (va + of_nat i) = Some (pa + of_nat i)" if "i < 4" for i
    unfolding translate_memory by (rule translate_offset [OF assms(1)]) (use z that in simp)
  have b: "?m (pa + of_nat i) = u32_bytes w ! i" if "i < 4" for i
    using that by (simp add: overwrite_def unat_of_nat)
  have "load_byte (h\<lparr>hs_memory := ?m\<rparr>) (va + of_nat i) = Some (u32_bytes w ! i)" if "i < 4" for i
    using t [OF that] b [OF that] by (simp add: load_byte_def)
  from this [of 0] this [of 1] this [of 2] this [of 3] have "load_u32 (h\<lparr>hs_memory := ?m\<rparr>) va = Some w"
    by (simp add: load_u32_def u32_bytes_def)
  then show ?thesis using that s by blast
qed

text \<open>
  What a test leaves: the page tables without the pages it used, the same free
  frames, and memory outside these frames as it was.
\<close>

definition pages_tested :: "nat set \<Rightarrow> heap_state \<Rightarrow> heap_state \<Rightarrow> bool" where
  "pages_tested P h h' \<longleftrightarrow> vm_ok (hs_vm h') \<and> same_frames (vm_frames (hs_vm h)) (vm_frames (hs_vm h')) \<and>
     pages_of (vm_kernel_space (hs_vm h')) = (\<lambda>va. if page_of va \<in> P then Some 0 else pages_of (vm_kernel_space (hs_vm h)) va) \<and>
     (\<exists>vm m. h' = h\<lparr>hs_memory := m, hs_vm := vm\<rparr>) \<and>
     (\<forall>pa. pa AND 0xFFFFF000 \<notin> frame_free_set (vm_frames (hs_vm h)) \<longrightarrow> hs_memory h' pa = hs_memory h pa)"

lemma overwrite_frame:
  assumes "f AND 0xFFF = 0" and "pa AND 0xFFFFF000 \<noteq> f" and "length bs \<le> 4096"
  shows "overwrite m f bs pa = m pa"
proof (rule ccontr)
  assume "overwrite m f bs pa \<noteq> m pa"
  then have i: "unat (pa - f) < 4096" using assms(3) by (auto simp: overwrite_def split: if_splits)
  have "unat f mod 4096 = 0" using assms(1) by (simp add: and_FFF)
  then have p: "page_of (f + of_nat (unat (pa - f))) = page_of f" using i unat_in_page [of f "unat (pa - f)"]
    by (simp add: page_of_def div_add1_eq [of "unat f" "unat (pa - f)"])
  have "of_nat (page_of f) * 0x1000 = f AND 0xFFFFF000" by (rule page_base)
  moreover have "f AND 0xFFFFF000 = f" using assms(1) by (simp add: frame_aligned and_FFF)
  moreover have "of_nat (page_of pa) * 0x1000 = pa AND 0xFFFFF000" by (rule page_base)
  ultimately show False using p assms(2) by simp
qed

text \<open>One page: mapped, written, read and released.\<close>

lemma page_round:
  assumes "vm_ok (hs_vm h)" "hs_paging h \<noteq> 0" "frame_free_set (vm_frames (hs_vm h)) \<noteq> {}"
    and d: "directory_index va < PAGE_TABLE_COUNT" "va AND 0xFFF = 0"
  obtains f vm1 m vm2 where
    "page_map_new_frame (hs_vm h) va (PAGE_PRESENT OR PAGE_WRITABLE) = (Some f, vm1)" "f \<noteq> 0" "frame_is_tracked (vm_frames vm1) f"
    "store_word (h\<lparr>hs_vm := vm1\<rparr>) va w = Some (h\<lparr>hs_vm := vm1, hs_memory := m\<rparr>)"
    "load_u32 (h\<lparr>hs_vm := vm1, hs_memory := m\<rparr>) va = Some w" "release_page vm1 va f = (True, vm2)"
    "pages_tested {page_of va} h (h\<lparr>hs_memory := m, hs_vm := vm2\<rparr>)"
proof -
  let ?fl = "PAGE_PRESENT OR PAGE_WRITABLE"
  obtain f vm1 where A: "page_map_new_frame (hs_vm h) va ?fl = (Some f, vm1)" "f \<in> frame_free_set (vm_frames (hs_vm h))" "f \<noteq> 0"
    "frame_is_tracked (vm_frames vm1) f" "vm_ok vm1"
    "frame_free_set (vm_frames vm1) = frame_free_set (vm_frames (hs_vm h)) - {f}" "frame_units (vm_frames vm1) = frame_units (vm_frames (hs_vm h))"
    "pages_of (vm_kernel_space vm1) = (\<lambda>vb. if page_of va = page_of vb then Some (f OR (?fl AND 0xFFF))
       else pages_of (vm_kernel_space (hs_vm h)) vb)" by (rule page_taken [OF assms(1,3) d(1)]) (rule that; assumption)
  have u: "f \<in> frame_units (vm_frames (hs_vm h))" using A(2) by (simp add: frame_free_set_def)
  have al: "f AND 0xFFF = 0" "f AND 0xFFFFF000 = f" using frame_unit_bounds [OF u] frame_unit_aligned [OF u] by simp_all
  let ?h1 = "h\<lparr>hs_vm := vm1\<rparr>"
  have t: "translate ?h1 va = Some f" using page_translation [of ?h1 va f ?fl] A(5,8) al assms(2) d(2) by simp
  obtain m where M: "store_word ?h1 va w = Some (?h1\<lparr>hs_memory := m\<rparr>)" "load_u32 (?h1\<lparr>hs_memory := m\<rparr>) va = Some w"
    "m = overwrite (hs_memory ?h1) f (u32_bytes w)" by (rule word_round_trip [OF t d(2)])
  obtain vm2 where R: "release_page vm1 va f = (True, vm2)" "vm_ok vm2"
    "frame_free_set (vm_frames vm2) = insert f (frame_free_set (vm_frames vm1))" "frame_units (vm_frames vm2) = frame_units (vm_frames vm1)"
    "pages_of (vm_kernel_space vm2) = (\<lambda>vb. if page_of va = page_of vb then Some 0 else pages_of (vm_kernel_space vm1) vb)"
    by (rule page_released [OF A(5) d(1), of f]) (use u A in auto)
  have "m pa = hs_memory h pa" if "pa AND 0xFFFFF000 \<notin> frame_free_set (vm_frames (hs_vm h))" for pa
  proof -
    have "pa AND 0xFFFFF000 \<noteq> f" using that A(2) by blast
    then show ?thesis unfolding M(3) using overwrite_frame [OF al(1), of pa "u32_bytes w"] by simp
  qed
  then have "pages_tested {page_of va} h (h\<lparr>hs_memory := m, hs_vm := vm2\<rparr>)"
    using A R by (auto simp: pages_tested_def same_frames_def vm_ok_def fun_eq_iff)
  then show ?thesis using that A M R by simp
qed

lemma frame_paging_test_ok:
  assumes "vm_ok (hs_vm h)" "hs_paging h \<noteq> 0" "frame_free_set (vm_frames (hs_vm h)) \<noteq> {}"
  shows "\<exists>h'. frame_paging_test h = Some ([''[InitraOS] FRAME_PAGING_OK''], h') \<and> pages_tested {0x400} h h'"
proof -
  have d: "directory_index 0x00400000 < PAGE_TABLE_COUNT" "(0x00400000 :: u32) AND 0xFFF = 0" "page_of 0x00400000 = 0x400"
    by (simp_all add: directory_index_def page_of_def)
  show ?thesis by (rule page_round [OF assms d(1,2), of "0x1A17A05"]) (simp add: frame_paging_test_def d(3))
qed

lemma heap_paging_test_ok:
  assumes "vm_ok (hs_vm h)" "hs_paging h \<noteq> 0" "frame_free_set (vm_frames (hs_vm h)) \<noteq> {}"
  shows "\<exists>h'. heap_paging_test h = Some ([''[InitraOS] HEAP_PAGING_OK''], h') \<and> pages_tested {0x600} h h'"
proof -
  have d: "directory_index 0x00600000 < PAGE_TABLE_COUNT" "(0x00600000 :: u32) AND 0xFFF = 0" "page_of 0x00600000 = 0x600"
    by (simp_all add: directory_index_def page_of_def)
  show ?thesis by (rule page_round [OF assms d(1,2), of "0x95A11E01"]) (simp add: heap_paging_test_def d(3))
qed

lemma page_protection_test_ok:
  assumes "vm_ok (hs_vm h)" "frame_free_set (vm_frames (hs_vm h)) \<noteq> {}"
  shows "\<exists>h'. page_protection_test h = ([''[InitraOS] PAGE_PROTECTION_OK''], h') \<and> pages_tested {0x502} h h'"
proof -
  let ?va = "0x00502000 :: u32"
  have d: "directory_index ?va < PAGE_TABLE_COUNT" "page_of ?va = 0x502" by (simp_all add: directory_index_def page_of_def)
  obtain f vm1 where A: "page_map_new_frame (hs_vm h) ?va PAGE_PRESENT = (Some f, vm1)" "f \<in> frame_free_set (vm_frames (hs_vm h))" "f \<noteq> 0"
    "frame_is_tracked (vm_frames vm1) f" "vm_ok vm1"
    "frame_free_set (vm_frames vm1) = frame_free_set (vm_frames (hs_vm h)) - {f}" "frame_units (vm_frames vm1) = frame_units (vm_frames (hs_vm h))"
    "pages_of (vm_kernel_space vm1) = (\<lambda>vb. if page_of ?va = page_of vb then Some (f OR (PAGE_PRESENT AND 0xFFF))
       else pages_of (vm_kernel_space (hs_vm h)) vb)" by (rule page_taken [OF assms d(1)]) (rule that; assumption)
  have u: "f \<in> frame_units (vm_frames (hs_vm h))" using A(2) by (simp add: frame_free_set_def)
  have al: "f AND 0xFFFFF000 = f" by (rule frame_unit_aligned [OF u])
  obtain vm2 where R: "release_page vm1 ?va f = (True, vm2)" "vm_ok vm2"
    "frame_free_set (vm_frames vm2) = insert f (frame_free_set (vm_frames vm1))" "frame_units (vm_frames vm2) = frame_units (vm_frames vm1)"
    "pages_of (vm_kernel_space vm2) = (\<lambda>vb. if page_of ?va = page_of vb then Some 0 else pages_of (vm_kernel_space vm1) vb)"
    by (rule page_released [OF A(5) d(1), of f]) (use u A in auto)
  have "entry_at (the (as_page_tables (vm_kernel_space vm1))) ?va = f OR 1"
    using fun_cong [OF A(8), of ?va] by (simp add: pages_of_def split: if_splits)
  moreover have "(f OR 1) AND 1 \<noteq> 0" "(f OR 1) AND 2 = 0"
  proof -
    have "(f AND 0xFFFFF000) AND 2 = 0" by (simp add: and.assoc)
    then have "f AND 2 = 0" by (simp only: al)
    then show "(f OR 1) AND 1 \<noteq> 0" "(f OR 1) AND 2 = 0"
      using al entry_parts(2) [of f 1] by (simp_all add: bit.conj_disj_distrib2)
  qed
  ultimately have "page_protection_test h = ([''[InitraOS] PAGE_PROTECTION_OK''], h\<lparr>hs_vm := vm2\<rparr>)"
    using A(1,3,4) R(1) by (simp add: page_protection_test_def Let_def)
  moreover have "pages_tested {0x502} h (h\<lparr>hs_vm := vm2\<rparr>)"
  proof -
    have "\<exists>vm m. h\<lparr>hs_vm := vm2\<rparr> = h\<lparr>hs_memory := m, hs_vm := vm\<rparr>"
      by (rule exI [of _ vm2], rule exI [of _ "hs_memory h"]) simp
    then show ?thesis using A R d(2) by (auto simp: pages_tested_def same_frames_def vm_ok_def fun_eq_iff)
  qed
  ultimately show ?thesis by blast
qed

lemma load_word_memory:
  assumes "translate h va = Some pa" "va AND 0xFFF = 0" "\<And>i. i < 4 \<Longrightarrow> m (pa + of_nat i) = hs_memory h (pa + of_nat i)"
  shows "load_u32 (h\<lparr>hs_memory := m\<rparr>) va = load_u32 h va"
proof -
  have z: "unat va mod 4096 = 0" using assms(2) by (simp add: and_FFF)
  have "load_byte (h\<lparr>hs_memory := m\<rparr>) (va + of_nat i) = load_byte h (va + of_nat i)" if "i < 4" for i
    using translate_offset [OF assms(1), of i] z that assms(3) [OF that] by (simp add: load_byte_def translate_memory)
  from this [of 0] this [of 1] this [of 2] this [of 3] show ?thesis by (simp add: load_u32_def)
qed

lemma frame_offset: "(f :: u32) AND 0xFFF = 0 \<Longrightarrow> i < 4096 \<Longrightarrow> (f + of_nat i) AND 0xFFFFF000 = f"
proof -
  assume a: "f AND 0xFFF = 0" "i < 4096"
  have "unat f mod 4096 + i < 4096" using a by (simp add: and_FFF)
  from unat_in_page [OF this] have "page_of (f + of_nat i) = page_of f"
    using a by (simp add: page_of_def div_add1_eq [of "unat f" i] and_FFF)
  then have "(f + of_nat i) AND 0xFFFFF000 = f AND 0xFFFFF000" by (metis page_base)
  then show "(f + of_nat i) AND 0xFFFFF000 = f" using a(1) by (simp add: frame_aligned and_FFF)
qed

lemma dynamic_page_test_ok:
  assumes v: "vm_ok (hs_vm h)" "hs_paging h \<noteq> 0" and F: "f \<in> frame_free_set (vm_frames (hs_vm h))" "g \<in> frame_free_set (vm_frames (hs_vm h))" "f \<noteq> g"
  shows "\<exists>h'. dynamic_page_test h = Some ([''[InitraOS] DYNAMIC_PAGE_OK''], h') \<and> pages_tested {0x500, 0x501} h h'"
proof -
  let ?a = "0x00500000 :: u32" and ?b = "0x00501000 :: u32" let ?fl = "PAGE_PRESENT OR PAGE_WRITABLE" let ?F = "frame_free_set (vm_frames (hs_vm h))"
  have d: "directory_index ?a < PAGE_TABLE_COUNT" "directory_index ?b < PAGE_TABLE_COUNT" "?a AND 0xFFF = 0" "?b AND 0xFFF = 0"
    "page_of ?a = 0x500" "page_of ?b = 0x501" by (simp_all add: directory_index_def page_of_def)
  have ne: "?F \<noteq> {}" using F by blast
  obtain f1 vm1 where A: "page_map_new_frame (hs_vm h) ?a ?fl = (Some f1, vm1)" "f1 \<in> ?F" "frame_is_tracked (vm_frames vm1) f1" "vm_ok vm1"
    "frame_free_set (vm_frames vm1) = ?F - {f1}" "frame_units (vm_frames vm1) = frame_units (vm_frames (hs_vm h))"
    "pages_of (vm_kernel_space vm1) = (\<lambda>vb. if page_of ?a = page_of vb then Some (f1 OR (?fl AND 0xFFF))
       else pages_of (vm_kernel_space (hs_vm h)) vb)" by (rule page_taken [OF v(1) ne d(1)]) (rule that; assumption)
  have ne1: "frame_free_set (vm_frames vm1) \<noteq> {}" using A(5) F by auto
  obtain f2 vm2 where B: "page_map_new_frame vm1 ?b ?fl = (Some f2, vm2)" "f2 \<in> ?F - {f1}" "frame_is_tracked (vm_frames vm2) f2" "vm_ok vm2"
    "frame_free_set (vm_frames vm2) = ?F - {f1} - {f2}" "frame_units (vm_frames vm2) = frame_units (vm_frames (hs_vm h))"
    "pages_of (vm_kernel_space vm2) = (\<lambda>vb. if page_of ?b = page_of vb then Some (f2 OR (?fl AND 0xFFF))
       else pages_of (vm_kernel_space vm1) vb)"
    by (rule page_taken [OF A(4) ne1 d(2), of ?fl, unfolded A(5,6)]) (rule that; assumption)
  have u: "f1 \<in> frame_units (vm_frames (hs_vm h))" "f2 \<in> frame_units (vm_frames (hs_vm h))" using A(2) B(2) by (simp_all add: frame_free_set_def)
  have al: "f1 AND 0xFFF = 0" "f1 AND 0xFFFFF000 = f1" "f2 AND 0xFFF = 0" "f2 AND 0xFFFFF000 = f2"
    using frame_unit_bounds [OF u(1)] frame_unit_bounds [OF u(2)] frame_unit_aligned [OF u(1)] frame_unit_aligned [OF u(2)] by simp_all
  have u1: "f1 \<in> frame_units (vm_frames vm2)" "f1 \<notin> frame_free_set (vm_frames vm2)" "f2 \<in> frame_units (vm_frames vm2)" "f2 \<notin> frame_free_set (vm_frames vm2)"
    using u B(5,6) by simp_all
  then have t1: "frame_is_tracked (vm_frames vm2) f1" by (simp add: frame_free_set_def)
  let ?h = "h\<lparr>hs_vm := vm2\<rparr>"
  have ta: "translate ?h ?a = Some f1" using page_translation [of ?h ?a f1 ?fl] A(7) B(4,7) al v(2) d by simp
  have tb: "translate ?h ?b = Some f2" using page_translation [of ?h ?b f2 ?fl] B(4,7) al v(2) by simp
  obtain m where M: "store_word ?h ?a 0xD94A0001 = Some (?h\<lparr>hs_memory := m\<rparr>)" "load_u32 (?h\<lparr>hs_memory := m\<rparr>) ?a = Some 0xD94A0001"
    "m = overwrite (hs_memory ?h) f1 (u32_bytes 0xD94A0001)" by (rule word_round_trip [OF ta d(3)])
  obtain m' where N: "store_word (?h\<lparr>hs_memory := m\<rparr>) ?b 0xD94A0002 = Some (?h\<lparr>hs_memory := m'\<rparr>)" "load_u32 (?h\<lparr>hs_memory := m'\<rparr>) ?b = Some 0xD94A0002"
    "m' = overwrite m f2 (u32_bytes 0xD94A0002)"
    by (rule word_round_trip [of "?h\<lparr>hs_memory := m\<rparr>" ?b f2 "0xD94A0002"]) (use tb in \<open>simp_all add: translate_memory\<close>)
  have "load_u32 (?h\<lparr>hs_memory := m, hs_memory := m'\<rparr>) ?a = load_u32 (?h\<lparr>hs_memory := m\<rparr>) ?a"
  proof (rule load_word_memory [of _ _ f1])
    show "m' (f1 + of_nat i) = hs_memory (?h\<lparr>hs_memory := m\<rparr>) (f1 + of_nat i)" if "i < 4" for i
      unfolding N(3) using overwrite_frame [OF al(3), of "f1 + of_nat i" "u32_bytes 0xD94A0002" m] frame_offset [OF al(1), of i] that B(2) by auto
  qed (use ta in \<open>simp_all add: translate_memory\<close>)
  then have la: "load_u32 (?h\<lparr>hs_memory := m'\<rparr>) ?a = Some 0xD94A0001" using M(2) by simp
  obtain vm3 where U: "page_unmap vm2 ?a = (True, vm3)" "vm_ok vm3" "vm_frames vm3 = vm_frames vm2"
    "pages_of (vm_kernel_space vm3) = (\<lambda>vb. if page_of ?a = page_of vb then Some 0 else pages_of (vm_kernel_space vm2) vb)"
    by (rule page_unmapped [OF B(4) d(1)])
  obtain vm4 where V: "page_unmap vm3 ?b = (True, vm4)" "vm_ok vm4" "vm_frames vm4 = vm_frames vm3"
    "pages_of (vm_kernel_space vm4) = (\<lambda>vb. if page_of ?b = page_of vb then Some 0 else pages_of (vm_kernel_space vm3) vb)"
    by (rule page_unmapped [OF U(2) d(2)])
  obtain fs where G: "frame_free (vm_frames vm2) f1 = (True, fs)" "frames_ok fs" "frame_free_set fs = insert f1 (frame_free_set (vm_frames vm2))"
    "frame_units fs = frame_units (vm_frames vm2)" by (rule frame_given [OF _ u1(1,2)]) (use B(4) in \<open>simp_all add: vm_ok_def\<close>)
  obtain gs where H: "frame_free fs f2 = (True, gs)" "frames_ok gs" "frame_free_set gs = insert f2 (frame_free_set fs)"
    "frame_units gs = frame_units fs" "\<not> frame_is_tracked gs f2" by (rule frame_given [OF G(2), of f2]) (use G u1 B(2) in auto)
  have "f1 \<in> frame_free_set gs" using G(3) H(3) by simp
  then have n1: "\<not> frame_is_tracked gs f1" by (simp add: frame_free_set_def)
  let ?v = "vm4\<lparr>vm_frames := gs\<rparr>"
  have ne12: "f1 \<noteq> f2" using B(2) by blast
  have "dynamic_page_test h = Some ([''[InitraOS] DYNAMIC_PAGE_OK''], h\<lparr>hs_memory := m', hs_vm := ?v\<rparr>)"
    using A(1) B(1,3) ne12 t1 M(1) N(1,2) la U(1,3) V(1,3) G(1) H(1,5) n1 by (simp add: dynamic_page_test_def Let_def)
  moreover have "pages_tested {0x500, 0x501} h (h\<lparr>hs_memory := m', hs_vm := ?v\<rparr>)"
  proof -
    have "m' pa = hs_memory h pa" if "pa AND 0xFFFFF000 \<notin> ?F" for pa
    proof -
      have "pa AND 0xFFFFF000 \<noteq> f1" "pa AND 0xFFFFF000 \<noteq> f2" using that A(2) B(2) by blast+
      then show ?thesis unfolding N(3) M(3)
        using overwrite_frame [OF al(1), of pa "u32_bytes 0xD94A0001"] overwrite_frame [OF al(3), of pa "u32_bytes 0xD94A0002"] by simp
    qed
    moreover have "frame_free_set gs = ?F" using H(3) G(3) B(2,5) A(2) by auto
    ultimately show ?thesis using A(7) B(4,6,7) U(4) V(2,4) G(4) H(2,4) d(5,6)
      by (auto simp: pages_tested_def same_frames_def vm_ok_def fun_eq_iff)
  qed
  ultimately show ?thesis by blast
qed

lemma page_user_protection_test_ok:
  assumes "\<And>va. va \<in> {USER_CODE_BASE, USER_STACK_BASE, KERNEL_TEST_ADDRESS} \<Longrightarrow>
    pages_of (vm_kernel_space vm) va = pages_of (paging_init k a) va"
  shows "page_user_protection_test vm = [''[InitraOS] PAGE_USER_PROTECTION_OK'']"
proof -
  let ?t = "the (as_page_tables (vm_kernel_space vm))"
  have p: "entry_at ?t va = the (pages_of (paging_init k a) va)" if "va \<in> {USER_CODE_BASE, USER_STACK_BASE, KERNEL_TEST_ADDRESS}" for va
    using assms [OF that] that by (auto simp: pages_of_def paging_init_entry paging_init_space(2) directory_index_def split: if_splits)
  have "?t ! 0 ! 0x100 = 0x100007" "?t ! 1 ! 0x3FF = 0x7FF007" "?t ! 0 ! 8 = 0x8803"
    using p [of USER_CODE_BASE] p [of USER_STACK_BASE] p [of KERNEL_TEST_ADDRESS]
    by (simp_all add: entry_at_def directory_index_def table_index_def paging_init_entry page_of_def user_pages_def)
  then show ?thesis by (simp add: page_user_protection_test_def Let_def)
qed


subsection \<open>The regions of user space\<close>

definition user_region_test :: "memory_region_t \<Rightarrow> memory_region_t \<Rightarrow> string list" where
  "user_region_test code stack = fst (say [''[InitraOS] USER_REGION_START'']
     (if mr_base code \<noteq> USER_CODE_BASE \<or> mr_size code \<noteq> USER_CODE_SIZE
      then ([''[InitraOS] USER_REGION_FAIL_CODE''], ())
      else if mr_flags code AND (MEMORY_REGION_USER OR MEMORY_REGION_EXECUTABLE) \<noteq>
                MEMORY_REGION_USER OR MEMORY_REGION_EXECUTABLE
      then ([''[InitraOS] USER_REGION_FAIL_CODE_FLAGS''], ())
      else if mr_base stack \<noteq> USER_STACK_BASE \<or> mr_size stack \<noteq> USER_STACK_SIZE
      then ([''[InitraOS] USER_REGION_FAIL_STACK''], ())
      else if mr_flags stack AND (MEMORY_REGION_USER OR MEMORY_REGION_WRITABLE) \<noteq>
                MEMORY_REGION_USER OR MEMORY_REGION_WRITABLE
      then ([''[InitraOS] USER_REGION_FAIL_STACK_FLAGS''], ())
      else if mr_base code AND (FRAME_SIZE - 1) \<noteq> 0 \<or> mr_base stack AND (FRAME_SIZE - 1) \<noteq> 0
      then ([''[InitraOS] USER_REGION_FAIL_ALIGN''], ())
      else if mr_base code + mr_size code > mr_base stack
      then ([''[InitraOS] USER_REGION_FAIL_OVERLAP''], ())
      else ([''[InitraOS] USER_REGION_OK''], ())))"

lemma user_region_test_ok:
  "user_region_test user_code_region user_stack_region = [''[InitraOS] USER_REGION_START'', ''[InitraOS] USER_REGION_OK'']"
  by (simp add: user_region_test_def user_code_region_def user_stack_region_def say_def)

subsection \<open>The tests in the order of the boot\<close>

definition frame_self_tests :: "(u32 \<Rightarrow> string) \<Rightarrow> frame_state \<Rightarrow> string list \<times> frame_state" where
  "frame_self_tests hex s =
     (let (out1, s) = frame_allocator_test hex s;
          (out2, s) = frame_protection_test s;
          (out3, s) = frame_validation_test s
      in (out1 @ out2 @ out3, s))"

definition paging_self_tests :: "heap_state \<Rightarrow> (string list \<times> heap_state) option" where
  "paging_self_tests h =
     do {
       (out1, h) \<leftarrow> frame_paging_test h;
       (out2, h) \<leftarrow> dynamic_page_test h;
       let (out3, h) = page_protection_test h;
       let out4 = page_user_protection_test (hs_vm h);
       (out5, h) \<leftarrow> heap_paging_test h;
       Some (out1 @ out2 @ out3 @ out4 @ out5, h) }"

lemma pages_tested_trans:
  assumes "pages_tested P h h'" "pages_tested Q h' h''"
  shows "pages_tested (P \<union> Q) h h''"
proof -
  obtain vm m vm' m' where h: "h' = h\<lparr>hs_memory := m, hs_vm := vm\<rparr>" "h'' = h'\<lparr>hs_memory := m', hs_vm := vm'\<rparr>"
    using assms unfolding pages_tested_def by blast
  then have "h'' = h\<lparr>hs_memory := m', hs_vm := vm'\<rparr>" by simp
  then have "\<exists>vm m. h'' = h\<lparr>hs_memory := m, hs_vm := vm\<rparr>" by blast
  moreover have "pages_of (vm_kernel_space (hs_vm h'')) =
      (\<lambda>va. if page_of va \<in> P \<union> Q then Some 0 else pages_of (vm_kernel_space (hs_vm h)) va)"
    using assms by (simp add: pages_tested_def fun_eq_iff)
  ultimately show ?thesis using assms unfolding pages_tested_def same_frames_def by simp
qed

lemma pages_tested_keeps:
  assumes "pages_tested P h h'"
  shows "vm_ok (hs_vm h')" "hs_paging h' = hs_paging h" "frame_free_set (vm_frames (hs_vm h')) = frame_free_set (vm_frames (hs_vm h))"
    "page_of va \<notin> P \<Longrightarrow> pages_of (vm_kernel_space (hs_vm h')) va = pages_of (vm_kernel_space (hs_vm h)) va"
  using assms by (auto simp: pages_tested_def same_frames_def)

lemma frame_self_tests_ok:
  assumes "frames_ok s" "frame_free_set s = insert f1 (insert f2 F)" "f1 < f2" "\<forall>f \<in> F. f2 < f"
  shows "\<exists>s'. frame_self_tests hex s = ([''[InitraOS] FRAME_ALLOC_OK'', ''[InitraOS] FRAME1: 0x'' @ hex f1,
      ''[InitraOS] FRAME2: 0x'' @ hex f2, ''[InitraOS] FRAME_TRACK_OK'', ''[InitraOS] FRAME_FREE_OK'',
      ''[InitraOS] FRAME_REUSE_OK'', ''[InitraOS] FRAME_PROTECT_OK'', ''[InitraOS] FRAME_VALIDATION_OK''], s') \<and> same_frames s s'"
proof -
  obtain s1 where A: "frame_allocator_test hex s = ([''[InitraOS] FRAME_ALLOC_OK'', ''[InitraOS] FRAME1: 0x'' @ hex f1,
      ''[InitraOS] FRAME2: 0x'' @ hex f2, ''[InitraOS] FRAME_TRACK_OK'', ''[InitraOS] FRAME_FREE_OK'',
      ''[InitraOS] FRAME_REUSE_OK''], s1)" "same_frames s s1" using frame_allocator_test_ok [OF assms, of hex] by blast
  have 1: "frames_ok s1" "frame_free_set s1 \<noteq> {}" using A(2) assms(2) by (simp_all add: same_frames_def)
  obtain s2 where B: "frame_protection_test s1 = ([''[InitraOS] FRAME_PROTECT_OK''], s2)" "same_frames s1 s2"
    using frame_protection_test_ok [OF 1] by blast
  have 2: "frames_ok s2" "frame_free_set s2 \<noteq> {}" using B(2) 1(2) by (simp_all add: same_frames_def)
  obtain s3 where C: "frame_validation_test s2 = ([''[InitraOS] FRAME_VALIDATION_OK''], s3)" "same_frames s2 s3"
    using frame_validation_test_ok [OF 2] by blast
  show ?thesis using A B C by (intro exI [of _ s3]) (simp add: frame_self_tests_def same_frames_def)
qed

lemma paging_self_tests_ok:
  assumes v: "vm_ok (hs_vm h)" "hs_paging h \<noteq> 0"
    and F: "f \<in> frame_free_set (vm_frames (hs_vm h))" "g \<in> frame_free_set (vm_frames (hs_vm h))" "f \<noteq> g"
    and p: "\<And>va. va \<in> {USER_CODE_BASE, USER_STACK_BASE, KERNEL_TEST_ADDRESS} \<Longrightarrow>
      pages_of (vm_kernel_space (hs_vm h)) va = pages_of (paging_init k a) va"
  shows "\<exists>h'. paging_self_tests h = Some ([''[InitraOS] FRAME_PAGING_OK'', ''[InitraOS] DYNAMIC_PAGE_OK'',
      ''[InitraOS] PAGE_PROTECTION_OK'', ''[InitraOS] PAGE_USER_PROTECTION_OK'', ''[InitraOS] HEAP_PAGING_OK''], h') \<and>
    pages_tested {0x400, 0x500, 0x501, 0x502, 0x600} h h'"
proof -
  have ne: "frame_free_set (vm_frames (hs_vm h)) \<noteq> {}" using F by blast
  obtain h1 where A: "frame_paging_test h = Some ([''[InitraOS] FRAME_PAGING_OK''], h1)" "pages_tested {0x400} h h1"
    using frame_paging_test_ok [OF v ne] by blast
  note a = pages_tested_keeps [OF A(2)]
  obtain h2 where B: "dynamic_page_test h1 = Some ([''[InitraOS] DYNAMIC_PAGE_OK''], h2)" "pages_tested {0x500, 0x501} h1 h2"
    using dynamic_page_test_ok [of h1 f g] a(1-3) v(2) F by auto
  note b = pages_tested_keeps [OF pages_tested_trans [OF A(2) B(2)]]
  obtain h3 where C: "page_protection_test h2 = ([''[InitraOS] PAGE_PROTECTION_OK''], h3)" "pages_tested {0x502} h2 h3"
    using page_protection_test_ok [OF b(1)] b(3) ne by auto
  note t = pages_tested_trans [OF pages_tested_trans [OF A(2) B(2)] C(2)] note c = pages_tested_keeps [OF t]
  have q: "pages_of (vm_kernel_space (hs_vm h3)) va = pages_of (paging_init k a) va" if "va \<in> {USER_CODE_BASE, USER_STACK_BASE, KERNEL_TEST_ADDRESS}" for va
  proof -
    have "page_of va \<notin> {0x400} \<union> {0x500, 0x501} \<union> {0x502}" using that by (auto simp: page_of_def)
    then show ?thesis using c(4) p [OF that] by simp
  qed
  have D: "page_user_protection_test (hs_vm h3) = [''[InitraOS] PAGE_USER_PROTECTION_OK'']" by (rule page_user_protection_test_ok [OF q])
  obtain h4 where E: "heap_paging_test h3 = Some ([''[InitraOS] HEAP_PAGING_OK''], h4)" "pages_tested {0x600} h3 h4"
    using heap_paging_test_ok [OF c(1)] c(2,3) v(2) ne by auto
  have "pages_tested {0x400, 0x500, 0x501, 0x502, 0x600} h h4"
    using pages_tested_trans [OF t E(2)] by (simp add: insert_commute)
  then show ?thesis using A(1) B(1) C(1) D E(1) by (simp add: paging_self_tests_def)
qed

subsection \<open>Properties\<close>

text \<open>
  C24: on every machine with two free frames and paging on, whose screen, code and
  stack pages are as \<open>paging_init\<close> mapped them, the boot-time tests of the page frames
  and of the pages report success, without a page fault. Afterwards exactly the same
  frames are free, memory has changed only inside free frames, and of the pages only
  the five the tests used have another entry, which is 0: these pages, mapped to
  themselves before, are left unmapped.
\<close>

theorem memory_self_tests_pass:
  assumes "vm_ok (hs_vm h)" and "hs_paging h \<noteq> 0"
    and "frame_free_set (vm_frames (hs_vm h)) = insert f1 (insert f2 F)" and "f1 < f2" and "\<forall>f \<in> F. f2 < f"
    and "\<And>va. va \<in> {USER_CODE_BASE, USER_STACK_BASE, KERNEL_TEST_ADDRESS} \<Longrightarrow>
      pages_of (vm_kernel_space (hs_vm h)) va = pages_of (paging_init k a) va"
  shows "(\<exists>s. frame_self_tests hex (vm_frames (hs_vm h)) = ([''[InitraOS] FRAME_ALLOC_OK'', ''[InitraOS] FRAME1: 0x'' @ hex f1,
      ''[InitraOS] FRAME2: 0x'' @ hex f2, ''[InitraOS] FRAME_TRACK_OK'', ''[InitraOS] FRAME_FREE_OK'',
      ''[InitraOS] FRAME_REUSE_OK'', ''[InitraOS] FRAME_PROTECT_OK'', ''[InitraOS] FRAME_VALIDATION_OK''], s) \<and>
      same_frames (vm_frames (hs_vm h)) s) \<and>
    (\<exists>h'. paging_self_tests h = Some ([''[InitraOS] FRAME_PAGING_OK'', ''[InitraOS] DYNAMIC_PAGE_OK'',
      ''[InitraOS] PAGE_PROTECTION_OK'', ''[InitraOS] PAGE_USER_PROTECTION_OK'', ''[InitraOS] HEAP_PAGING_OK''], h') \<and>
      pages_tested {0x400, 0x500, 0x501, 0x502, 0x600} h h')"
proof
  have "frames_ok (vm_frames (hs_vm h))" using assms(1) by (simp add: vm_ok_def)
  then show "\<exists>s. frame_self_tests hex (vm_frames (hs_vm h)) = ([''[InitraOS] FRAME_ALLOC_OK'', ''[InitraOS] FRAME1: 0x'' @ hex f1,
      ''[InitraOS] FRAME2: 0x'' @ hex f2, ''[InitraOS] FRAME_TRACK_OK'', ''[InitraOS] FRAME_FREE_OK'',
      ''[InitraOS] FRAME_REUSE_OK'', ''[InitraOS] FRAME_PROTECT_OK'', ''[InitraOS] FRAME_VALIDATION_OK''], s) \<and>
      same_frames (vm_frames (hs_vm h)) s" using assms(3-5) by (rule frame_self_tests_ok)
  have "f1 \<in> frame_free_set (vm_frames (hs_vm h))" "f2 \<in> frame_free_set (vm_frames (hs_vm h))" "f1 \<noteq> f2"
    using assms(3,4) by auto
  then show "\<exists>h'. paging_self_tests h = Some ([''[InitraOS] FRAME_PAGING_OK'', ''[InitraOS] DYNAMIC_PAGE_OK'',
      ''[InitraOS] PAGE_PROTECTION_OK'', ''[InitraOS] PAGE_USER_PROTECTION_OK'', ''[InitraOS] HEAP_PAGING_OK''], h') \<and>
      pages_tested {0x400, 0x500, 0x501, 0x502, 0x600} h h'" by (rule paging_self_tests_ok [OF assms(1,2) _ _ _ assms(6)])
qed

lemma ex_free_frames:
  "frame_free_set ex_frames = insert 0x00200000 (insert 0x00201000 {f \<in> frame_free_set ex_frames. 0x00201000 < f})"
proof -
  have "0x00201000 \<in> frame_free_set ex_frames"
    by (simp add: frame_free_set_def frame_units_def frame_in_range_def frame_in_usable_e820_def e820_covers_def
        frame_is_reserved_def align_up_4k_def frame_is_tracked_def frame_bitmap_index_def frame_bitmap_mask_def
        ex_frames_def ex_e820_def Let_def)
  moreover have "f = 0x00200000 \<or> f = 0x00201000 \<or> 0x00201000 < f" if "f \<in> frame_free_set ex_frames" for f
  proof -
    have f: "0x00200000 \<le> unat f" "unat f mod 4096 = 0" using that
      by (auto simp: frame_free_set_def frame_units_def frame_in_range_def word_le_nat_alt)
    then obtain q where q: "unat f = 4096 * q" by (auto simp: dvd_def simp flip: dvd_eq_mod_eq_0)
    then have "q = 512 \<or> q = 513 \<or> 514 \<le> q" using f(1) by linarith
    then have "unat f = 0x00200000 \<or> unat f = 0x00201000 \<or> 0x00201000 < unat f" using q by linarith
    then show ?thesis by (auto simp: word_less_nat_alt word_unat_eq_iff)
  qed
  ultimately show ?thesis using ex_free by blast
qed

theorem memory_self_tests_pass_witness:
  "(\<exists>out s. frame_self_tests (\<lambda>_. []) ex_frames = (out, s) \<and> last out = ''[InitraOS] FRAME_VALIDATION_OK'') \<and>
   (\<exists>out h. paging_self_tests ex_paged_heap = Some (out, h) \<and> last out = ''[InitraOS] HEAP_PAGING_OK'')"
proof -
  let ?h = "ex_paged_heap"
  have h: "hs_vm ?h = ex_vm" "hs_paging ?h \<noteq> 0" "vm_frames ex_vm = ex_frames" "vm_kernel_space ex_vm = ex_space"
    by (simp_all add: ex_paged_heap_def ex_heap_def ex_vm_def)
  have v: "vm_ok (hs_vm ?h)" using ex_vm_ok h(1) by simp
  have "frame_free_set (vm_frames (hs_vm ?h)) = insert 0x00200000 (insert 0x00201000 {f \<in> frame_free_set ex_frames. 0x00201000 < f})"
    unfolding h by (rule ex_free_frames)
  from memory_self_tests_pass [OF v h(2) this, of "\<lparr>as_page_directory = None, as_page_tables = None, as_page_table_count = 0\<rparr>" "0x21000" "\<lambda>_. []"]
  show ?thesis by (auto simp: h ex_space_def)
qed

end
