(* ===== verification/Security_Self_Tests.thy ===== *)
theory Security_Self_Tests
  imports Syscalls Shell_Round
begin

section \<open>The self-tests of the security core and of the system calls\<close>

text \<open>
  The tests of \<open>kernel.c\<close> for the audit log, the checks of user pointers and the end
  of processes. A test returns the lines it prints and the state it leaves; \<open>None\<close> is
  a page fault. The tests call the dispatcher as a program would, with the user stack
  page as the destination, and read the answer back through the page tables.
\<close>

definition security_core_test :: "security_state \<Rightarrow> string list \<times> security_state" where
  "security_core_test s =
     (let s = security_init s;
          (result, s) = security_authorize s 100 SECURITY_PRIVILEGE_USER SECURITY_OPERATION_PROTECTED_TEST
            SECURITY_PRIVILEGE_KERNEL
      in if result \<noteq> SECURITY_DENIED then ([''[InitraOS] SECURITY_CORE_FAIL_USER''], s)
         else let (result, s) = security_authorize s 101 SECURITY_PRIVILEGE_KERNEL SECURITY_OPERATION_PROTECTED_TEST
                    SECURITY_PRIVILEGE_KERNEL
              in if result \<noteq> SECURITY_ALLOWED then ([''[InitraOS] SECURITY_CORE_FAIL_KERNEL''], s)
                 else if security_audit_count s \<noteq> 2 then ([''[InitraOS] SECURITY_CORE_FAIL_AUDIT_COUNT''], s)
                 else case (security_audit_get s 0 True, security_audit_get s 1 True) of
                        (Some denied_event, Some allowed_event) \<Rightarrow>
                          if ev_pid denied_event \<noteq> 100 \<or> ev_privilege denied_event \<noteq> SECURITY_PRIVILEGE_USER \<or>
                             ev_operation denied_event \<noteq> SECURITY_OPERATION_PROTECTED_TEST \<or>
                             ev_result denied_event \<noteq> SECURITY_DENIED
                          then ([''[InitraOS] SECURITY_CORE_FAIL_DENIED''], s)
                          else if ev_pid allowed_event \<noteq> 101 \<or> ev_privilege allowed_event \<noteq> SECURITY_PRIVILEGE_KERNEL \<or>
                             ev_operation allowed_event \<noteq> SECURITY_OPERATION_PROTECTED_TEST \<or>
                             ev_result allowed_event \<noteq> SECURITY_ALLOWED
                          then ([''[InitraOS] SECURITY_CORE_FAIL_ALLOWED''], s)
                          else ([''[InitraOS] SECURITY_CORE_OK''], s)
                      | _ \<Rightarrow> ([''[InitraOS] SECURITY_CORE_FAIL_AUDIT_READ''], s))"

definition security_resource_access_test :: "security_state \<Rightarrow> string list \<times> security_state" where
  "security_resource_access_test s =
     (let (result, s) = security_resource_authorize s 100 SECURITY_PRIVILEGE_USER 100
      in if result \<noteq> SECURITY_ALLOWED then ([''[InitraOS] SECURITY_RESOURCE_FAIL_OWNER''], s)
         else let (result, s) = security_resource_authorize s 101 SECURITY_PRIVILEGE_USER 100
              in if result \<noteq> SECURITY_DENIED then ([''[InitraOS] SECURITY_RESOURCE_FAIL_ISOLATION''], s)
                 else let (result, s) = security_resource_authorize s 102 SECURITY_PRIVILEGE_KERNEL 100
                      in if result \<noteq> SECURITY_ALLOWED then ([''[InitraOS] SECURITY_RESOURCE_FAIL_KERNEL''], s)
                         else ([''[InitraOS] SECURITY_RESOURCE_ACCESS_OK''], s))"

text \<open>The system calls of a test; the fields of a record in user memory are read back as words.\<close>

definition security_status_api_test :: "('w \<Rightarrow> ptr \<Rightarrow> fs_inode) \<Rightarrow> 'w system \<Rightarrow> (string list \<times> 'w system) option" where
  "security_status_api_test inode_at s =
     do {
       (status, s) \<leftarrow> syscall_dispatcher inode_at s SYSCALL_SECURITY_STATUS 0 0 0 0 0;
       Some (if status AND SECURITY_STATUS_MASK \<noteq> SECURITY_STATUS_MASK then ([''[InitraOS] SECURITY_STATUS_API_FAIL''], s)
             else ([''[InitraOS] SECURITY_STATUS_API_OK''], s)) }"

definition security_audit_syscall_test :: "('w \<Rightarrow> ptr \<Rightarrow> fs_inode) \<Rightarrow> 'w system \<Rightarrow> (string list \<times> 'w system) option" where
  "security_audit_syscall_test inode_at s =
     do {
       (count, s) \<leftarrow> syscall_dispatcher inode_at s SYSCALL_SECURITY_AUDIT_COUNT 0 0 0 0 0;
       if count \<noteq> 2 then Some ([''[InitraOS] SECURITY_AUDIT_API_FAIL_COUNT''], s)
       else do {
         (result, s) \<leftarrow> syscall_dispatcher inode_at s SYSCALL_SECURITY_AUDIT_READ 0 USER_STACK_BASE 0 0 0;
         if result \<noteq> SECURITY_ALLOWED then Some ([''[InitraOS] SECURITY_AUDIT_API_FAIL_READ''], s)
         else do {
           pid \<leftarrow> load_u32 (sy_heap s) (USER_STACK_BASE + 4);
           privilege \<leftarrow> load_u32 (sy_heap s) (USER_STACK_BASE + 8);
           operation \<leftarrow> load_u32 (sy_heap s) (USER_STACK_BASE + 12);
           result \<leftarrow> load_u32 (sy_heap s) (USER_STACK_BASE + 16);
           if pid \<noteq> 100 \<or> privilege \<noteq> SECURITY_PRIVILEGE_USER \<or> operation \<noteq> SECURITY_OPERATION_PROTECTED_TEST \<or>
              result \<noteq> SECURITY_DENIED
           then Some ([''[InitraOS] SECURITY_AUDIT_API_FAIL_EVENT''], s)
           else do {
             (result, s) \<leftarrow> syscall_dispatcher inode_at s SYSCALL_SECURITY_AUDIT_READ 0 KERNEL_TEST_ADDRESS 0 0 0;
             Some (if result \<noteq> SECURITY_DENIED then ([''[InitraOS] SECURITY_AUDIT_API_FAIL_POINTER''], s)
                   else ([''[InitraOS] SECURITY_AUDIT_API_OK''], s)) } } } }"

definition security_audit_filter_api_test :: "('w \<Rightarrow> ptr \<Rightarrow> fs_inode) \<Rightarrow> 'w system \<Rightarrow> (string list \<times> 'w system) option" where
  "security_audit_filter_api_test inode_at s =
     (let filtered = security_audit_get_filtered (sy_security s) SECURITY_AUDIT_FILTER_RESULT
      in case filtered SECURITY_DENIED 0 True of
           None \<Rightarrow> Some ([''[InitraOS] SECURITY_AUDIT_FILTER_FAIL_RESULT''], s)
         | Some event \<Rightarrow>
             if ev_pid event \<noteq> 100 \<or> ev_result event \<noteq> SECURITY_DENIED
             then Some ([''[InitraOS] SECURITY_AUDIT_FILTER_FAIL_EVENT''], s)
             else case filtered SECURITY_ALLOWED 0 True of
               None \<Rightarrow> Some ([''[InitraOS] SECURITY_AUDIT_FILTER_FAIL_ALLOWED''], s)
             | Some event \<Rightarrow>
                 if ev_pid event \<noteq> 101 \<or> ev_result event \<noteq> SECURITY_ALLOWED
                 then Some ([''[InitraOS] SECURITY_AUDIT_FILTER_FAIL_ALLOWED_EVENT''], s)
                 else if filtered SECURITY_ALLOWED 1 True \<noteq> None
                 then Some ([''[InitraOS] SECURITY_AUDIT_FILTER_FAIL_INDEX''], s)
                 else do {
                   (result, s) \<leftarrow> syscall_dispatcher inode_at s SYSCALL_SECURITY_AUDIT_FILTER_READ
                     SECURITY_AUDIT_FILTER_RESULT SECURITY_DENIED 0 USER_STACK_BASE 0;
                   if result \<noteq> SECURITY_ALLOWED then Some ([''[InitraOS] SECURITY_AUDIT_FILTER_FAIL_SYSCALL''], s)
                   else do {
                     pid \<leftarrow> load_u32 (sy_heap s) (USER_STACK_BASE + 4);
                     result \<leftarrow> load_u32 (sy_heap s) (USER_STACK_BASE + 16);
                     if pid \<noteq> 100 \<or> result \<noteq> SECURITY_DENIED
                     then Some ([''[InitraOS] SECURITY_AUDIT_FILTER_FAIL_COPY''], s)
                     else do {
                       (result, s) \<leftarrow> syscall_dispatcher inode_at s SYSCALL_SECURITY_AUDIT_FILTER_READ
                         SECURITY_AUDIT_FILTER_RESULT SECURITY_DENIED 0 USER_CODE_BASE 0;
                       Some (if result \<noteq> SECURITY_DENIED then ([''[InitraOS] SECURITY_AUDIT_FILTER_FAIL_POINTER''], s)
                             else ([''[InitraOS] SECURITY_AUDIT_FILTER_API_OK''], s)) } } })"

definition security_syscall_test :: "kernel_state \<Rightarrow> security_state \<Rightarrow> u32 \<Rightarrow> string list" where
  "security_syscall_test k s user_task =
     (if user_task = 0 then [''[InitraOS] SECURITY_SYSCALL_FAIL_TASK'']
      else if security_audit_count s \<noteq> 3 then [''[InitraOS] SECURITY_SYSCALL_FAIL_COUNT'']
      else case security_audit_get s 2 True of
             None \<Rightarrow> [''[InitraOS] SECURITY_SYSCALL_FAIL_READ'']
           | Some event \<Rightarrow>
               if ev_pid event \<noteq> tk_id (ks_tasks k user_task) \<or> ev_privilege event \<noteq> SECURITY_PRIVILEGE_USER \<or>
                  ev_operation event \<noteq> SECURITY_OPERATION_PROTECTED_TEST \<or> ev_result event \<noteq> SECURITY_DENIED
               then [''[InitraOS] SECURITY_SYSCALL_FAIL_EVENT'']
               else [''[InitraOS] SECURITY_SYSCALL_DENIED_OK''])"

text \<open>The calls of the dispatcher test, each with the result it expects.\<close>

fun expected_results :: "('w \<Rightarrow> ptr \<Rightarrow> fs_inode) \<Rightarrow> 'w system \<Rightarrow> (u32 \<times> (kernel_state \<Rightarrow> u32 \<Rightarrow> bool)) list \<Rightarrow>
    (bool \<times> 'w system) option" where
  "expected_results inode_at s [] = Some (True, s)"
| "expected_results inode_at s ((n, expected) # calls) =
     do { (result, s) \<leftarrow> syscall_dispatcher inode_at s n 0 0 0 0 0;
          if expected (sy_kernel s) result then expected_results inode_at s calls else Some (False, s) }"

definition syscall_dispatcher_test :: "('w \<Rightarrow> ptr \<Rightarrow> fs_inode) \<Rightarrow> 'w system \<Rightarrow> (string list \<times> 'w system) option" where
  "syscall_dispatcher_test inode_at s =
     do {
       (passed, s) \<leftarrow> expected_results inode_at s
         [(SYSCALL_EXIT, \<lambda>k result. result = 0), (SYSCALL_WRITE, \<lambda>k result. result = 0),
          (SYSCALL_GETPID, \<lambda>k result. \<not> (ks_current_task k \<noteq> 0 \<or> result \<noteq> -1)),
          (SYSCALL_YIELD, \<lambda>k result. result = 0), (SYSCALL_ALLOC, \<lambda>k result. result = 0),
          (SYSCALL_FREE, \<lambda>k result. result = 0), (0xFF, \<lambda>k result. result = -1)];
       Some ([if passed then ''[InitraOS] SYSCALL_DISPATCH_OK'' else ''[InitraOS] SYSCALL_DISPATCH_FAIL''], s) }"

definition process_termination_test :: "kernel_state \<Rightarrow> (string list \<times> kernel_state) option" where
  "process_termination_test s =
     do {
       let previous_task = ks_current_task s;
       (caller, s) \<leftarrow> task_create_user s 0 USER_CODE_BASE;
       (target, s) \<leftarrow> task_create_user s 0 USER_CODE_BASE;
       if caller = 0 \<or> target = 0
       then do {
         s \<leftarrow> (if caller \<noteq> 0 then task_destroy s caller else Some s);
         s \<leftarrow> (if target \<noteq> 0 then task_destroy s target else Some s);
         Some ([''[InitraOS] PROCESS_TERMINATION_FAIL_CREATE''], s) }
       else do {
         let finish = (\<lambda>line s. do { s \<leftarrow> task_destroy (s\<lparr>ks_current_task := previous_task\<rparr>) caller;
                                    s \<leftarrow> task_destroy s target; Some ([line], s) });
         let s = task_set_state (s\<lparr>ks_current_task := caller\<rparr>) caller TASK_RUNNING;
         let s = task_set_state s target TASK_READY;
         let (terminated, s) = process_terminate s target;
         if terminated \<or> tk_state (ks_tasks s target) \<noteq> TASK_READY
         then finish ''[InitraOS] PROCESS_TERMINATION_FAIL_TARGET'' s
         else do {
           let (terminated, s) = process_terminate s caller;
           if \<not> terminated \<or> tk_state (ks_tasks s caller) \<noteq> TASK_FINISHED
           then finish ''[InitraOS] PROCESS_TERMINATION_FAIL_SELF'' s
           else finish ''[InitraOS] PROCESS_TERMINATION_POLICY_OK'' s } } }"

definition security_identity_syscall_test :: "('w \<Rightarrow> ptr \<Rightarrow> fs_inode) \<Rightarrow> 'w system \<Rightarrow> (string list \<times> 'w system) option" where
  "security_identity_syscall_test inode_at s =
     do {
       (process, k) \<leftarrow> process_create (sy_kernel s);
       let previous_task = ks_current_task k;
       let finish = (\<lambda>line s. do { k \<leftarrow> process_destroy ((sy_kernel s)\<lparr>ks_current_task := previous_task\<rparr>) process;
                                  Some ([line], s\<lparr>sy_kernel := k\<rparr>) });
       if process = 0 \<or> pr_task (ks_processes k process) = 0
       then do {
         k \<leftarrow> (if process \<noteq> 0 then process_destroy k process else Some k);
         Some ([''[InitraOS] SECURITY_IDENTITY_API_FAIL_CREATE''], s\<lparr>sy_kernel := k\<rparr>) }
       else do {
         let task = pr_task (ks_processes k process);
         let s = s\<lparr>sy_kernel := task_set_state (k\<lparr>ks_current_task := task\<rparr>) task TASK_RUNNING\<rparr>;
         (result, s) \<leftarrow> syscall_dispatcher inode_at s SYSCALL_SECURITY_IDENTITY USER_STACK_BASE 0 0 0 0;
         failed \<leftarrow> (if result \<noteq> SECURITY_ALLOWED then Some True
           else do {
             let p = ks_processes (sy_kernel s) process;
             pid \<leftarrow> load_u32 (sy_heap s) USER_STACK_BASE;
             uid \<leftarrow> load_u32 (sy_heap s) (USER_STACK_BASE + 4);
             gid \<leftarrow> load_u32 (sy_heap s) (USER_STACK_BASE + 8);
             privilege \<leftarrow> load_u32 (sy_heap s) (USER_STACK_BASE + 12);
             Some (pid \<noteq> pr_pid p \<or> uid \<noteq> pr_uid p \<or> gid \<noteq> pr_gid p \<or> privilege \<noteq> pr_privilege p) });
         if failed then finish ''[InitraOS] SECURITY_IDENTITY_API_FAIL'' s
         else do {
           (result, s) \<leftarrow> syscall_dispatcher inode_at s SYSCALL_SECURITY_IDENTITY KERNEL_TEST_ADDRESS 0 0 0 0;
           finish (if result \<noteq> SECURITY_DENIED then ''[InitraOS] SECURITY_IDENTITY_API_FAIL_POINTER''
                   else ''[InitraOS] SECURITY_IDENTITY_API_OK'') s } } }"

subsection \<open>What the tests find\<close>

lemma concat_words: "i < length ws \<Longrightarrow> j < 4 \<Longrightarrow> concat (map u32_bytes ws) ! (4 * i + j) = u32_bytes (ws ! i) ! j"
proof (induction ws arbitrary: i)
  case (Cons w ws)
  then show ?case by (cases i) (simp_all add: nth_append)
qed simp

lemma length_words: "length (concat (map u32_bytes ws)) = 4 * length ws"
  by (induction ws) simp_all

text \<open>A record written for the user is read back word by word.\<close>

lemma user_write_word:
  assumes "user_write s a (concat (map u32_bytes ws)) s'" and "i < length ws"
  shows "load_u32 (sy_heap s') (a + of_nat (4 * i)) = Some (ws ! i)"
proof -
  have "load_byte (sy_heap s') (a + of_nat (4 * i + j)) = Some (u32_bytes (ws ! i) ! j)" if "j < 4" for j
    using user_write_read [OF assms(1), of "4 * i + j"] concat_words [OF assms(2) that] assms(2) that by (simp add: length_words)
  from this [of 0] this [of 1] this [of 2] this [of 3] show ?thesis by (simp add: load_u32_def u32_bytes_def algebra_simps)
qed

lemma event_words:
  assumes "user_write s a (event_image e) s'"
  shows "load_u32 (sy_heap s') (a + 4) = Some (ev_pid e)" "load_u32 (sy_heap s') (a + 8) = Some (ev_privilege e)"
    "load_u32 (sy_heap s') (a + 12) = Some (ev_operation e)" "load_u32 (sy_heap s') (a + 16) = Some (ev_result e)"
proof -
  note W = user_write_word [OF assms [unfolded event_image_def]]
  show "load_u32 (sy_heap s') (a + 4) = Some (ev_pid e)" "load_u32 (sy_heap s') (a + 8) = Some (ev_privilege e)"
    "load_u32 (sy_heap s') (a + 12) = Some (ev_operation e)" "load_u32 (sy_heap s') (a + 16) = Some (ev_result e)"
    using W [of 1] W [of 2] W [of 3] W [of 4] by simp_all
qed

lemma identity_words:
  assumes "user_write s a (identity_image d) s'"
  shows "load_u32 (sy_heap s') a = Some (sii_pid d)" "load_u32 (sy_heap s') (a + 4) = Some (sii_uid d)"
    "load_u32 (sy_heap s') (a + 8) = Some (sii_gid d)" "load_u32 (sy_heap s') (a + 12) = Some (sii_privilege d)"
proof -
  note W = user_write_word [OF assms [unfolded identity_image_def]]
  show "load_u32 (sy_heap s') a = Some (sii_pid d)" "load_u32 (sy_heap s') (a + 4) = Some (sii_uid d)"
    "load_u32 (sy_heap s') (a + 8) = Some (sii_gid d)" "load_u32 (sy_heap s') (a + 12) = Some (sii_privilege d)"
    using W [of 0] W [of 1] W [of 2] W [of 3] by simp_all
qed

text \<open>The two decisions the core test leaves in the log.\<close>

definition tested_log :: "security_audit_event_t list" where
  "tested_log = [\<lparr>ev_sequence = 1, ev_pid = 100, ev_privilege = 3, ev_operation = 1, ev_result = 0\<rparr>,
     \<lparr>ev_sequence = 2, ev_pid = 101, ev_privilege = 0, ev_operation = 1, ev_result = 1\<rparr>]"

lemma security_core_test_ok:
  "\<exists>s'. security_core_test s = ([''[InitraOS] SECURITY_CORE_OK''], s') \<and> ring_ok s' \<and> audit_list s' = tested_log"
proof -
  let ?i = "security_init s"
  have i: "ring_ok ?i" "audit_list ?i = []" "audit_sequence ?i = 0"
    by (simp_all add: security_init_def ring_ok_def audit_list_def)
  let ?a = "security_audit_record ?i 100 3 1 0"
  have a: "ring_ok ?a" "audit_list ?a = [\<lparr>ev_sequence = 1, ev_pid = 100, ev_privilege = 3, ev_operation = 1, ev_result = 0\<rparr>]"
    "audit_sequence ?a = 1" using record_ring_ok [OF i(1)] record_audit_list [OF i(1)] i(2,3) record_fields
    by (simp_all add: new_event_def)
  let ?b = "security_audit_record ?a 101 0 1 1"
  have b: "ring_ok ?b" "audit_list ?b = tested_log" using record_ring_ok [OF a(1)] record_audit_list [OF a(1)] a(2,3)
    by (simp_all add: new_event_def tested_log_def)
  have "unat (audit_count ?b) = 2" using b(2) length_audit_list [of ?b] by (simp add: tested_log_def del: length_audit_list)
  then have c: "audit_count ?b = 2" by (simp add: word_unat_eq_iff)
  have "security_core_test s = ([''[InitraOS] SECURITY_CORE_OK''], ?b)"
    by (simp add: security_core_test_def security_authorize_def security_audit_count_def c audit_get_spec b(2) nth_opt_def tested_log_def)
  then show ?thesis using b by blast
qed

lemma security_resource_access_test_ok:
  "fst (security_resource_access_test s) = [''[InitraOS] SECURITY_RESOURCE_ACCESS_OK'']"
  by (simp add: security_resource_access_test_def security_resource_authorize_def Let_def)

lemma security_status_api_test_ok:
  "security_status_api_test inode_at s = Some ([''[InitraOS] SECURITY_STATUS_API_OK''], s)"
  by (simp add: security_status_api_test_def syscall_dispatcher_def security_status_def)

lemma stack_write_again:
  assumes "user_write s a bs s'"
  shows "sy_security s' = sy_security s" "sy_vfs s' = sy_vfs s" "security_user_buffer_valid (sy_heap s') b n = security_user_buffer_valid (sy_heap s) b n"
    "sy_kernel s' = (sy_kernel s)\<lparr>ks_heap := sy_heap s'\<rparr>"
  using assms by (auto simp: user_write_def with_heap_def security_user_buffer_valid_def user_page_flags_def)

lemma security_audit_syscall_test_ok:
  assumes "ring_ok (sy_security s)" "audit_list (sy_security s) = tested_log"
    and "security_user_buffer_valid (sy_heap s) USER_STACK_BASE sizeof_audit_event"
  shows "\<exists>s'. security_audit_syscall_test inode_at s = Some ([''[InitraOS] SECURITY_AUDIT_API_OK''], s') \<and>
    user_write s USER_STACK_BASE (event_image (hd tested_log)) s'"
proof -
  let ?d = "syscall_dispatcher inode_at"
  have "unat (audit_count (sy_security s)) = 2" using assms(2) length_audit_list [of "sy_security s"]
    by (simp add: tested_log_def del: length_audit_list)
  then have "audit_count (sy_security s) = 2" by (simp add: word_unat_eq_iff)
  then have c: "?d s SYSCALL_SECURITY_AUDIT_COUNT 0 0 0 0 0 = Some (2, s)"
    by (simp add: syscall_dispatcher_def security_audit_count_def)
  have "user_answer inode_at s SYSCALL_SECURITY_AUDIT_READ 0 USER_STACK_BASE 0 0 = Some (USER_STACK_BASE, event_image (hd tested_log))"
    using assms(2,3) by (simp add: user_answer_def checked_def nth_opt_def tested_log_def)
  then obtain s1 where r: "?d s SYSCALL_SECURITY_AUDIT_READ 0 USER_STACK_BASE 0 0 0 = Some (SECURITY_ALLOWED, s1)"
    "user_write s USER_STACK_BASE (event_image (hd tested_log)) s1"
    using dispatch_answered [OF assms(1), of SYSCALL_SECURITY_AUDIT_READ inode_at 0 USER_STACK_BASE 0 0 0]
    by (auto simp: answered_def reporting_def)
  note w = event_words [OF r(2)]
  have d: "?d s1 SYSCALL_SECURITY_AUDIT_READ 0 KERNEL_TEST_ADDRESS 0 0 0 = Some (SECURITY_DENIED, s1)"
    by (simp add: syscall_dispatcher_def syscall_audit_read_def security_user_buffer_valid_def)
  have "security_audit_syscall_test inode_at s = Some ([''[InitraOS] SECURITY_AUDIT_API_OK''], s1)"
    unfolding security_audit_syscall_test_def c r(1) Option.bind.simps prod.case
    using w d by (simp add: tested_log_def)
  then show ?thesis using r(2) by blast
qed

lemma security_audit_filter_api_test_ok:
  assumes "ring_ok (sy_security s)" "audit_list (sy_security s) = tested_log"
    and "security_user_buffer_valid (sy_heap s) USER_STACK_BASE sizeof_audit_event"
  shows "\<exists>s'. security_audit_filter_api_test inode_at s = Some ([''[InitraOS] SECURITY_AUDIT_FILTER_API_OK''], s') \<and>
    user_write s USER_STACK_BASE (event_image (hd tested_log)) s'"
proof -
  let ?d = "syscall_dispatcher inode_at"
  have f: "filter (filter_matches 1 0) tested_log = [tested_log ! 0]" "filter (filter_matches 1 1) tested_log = [tested_log ! 1]"
    by (simp_all add: tested_log_def filter_matches_def)
  note get = audit_get_filtered_spec [OF assms(1), unfolded assms(2)]
  have g: "security_audit_get_filtered (sy_security s) 1 0 0 True = Some (tested_log ! 0)"
    "security_audit_get_filtered (sy_security s) 1 1 0 True = Some (tested_log ! 1)"
    "security_audit_get_filtered (sy_security s) 1 1 1 True = None"
    unfolding get by (simp_all add: f nth_opt_def)
  have "user_answer inode_at s SYSCALL_SECURITY_AUDIT_FILTER_READ 1 0 0 USER_STACK_BASE = Some (USER_STACK_BASE, event_image (hd tested_log))"
    using assms(2,3) f by (simp add: user_answer_def checked_def nth_opt_def) (simp add: tested_log_def)
  then obtain s1 where r: "?d s SYSCALL_SECURITY_AUDIT_FILTER_READ 1 0 0 USER_STACK_BASE 0 = Some (SECURITY_ALLOWED, s1)"
    "user_write s USER_STACK_BASE (event_image (hd tested_log)) s1"
    using dispatch_answered [OF assms(1), of SYSCALL_SECURITY_AUDIT_FILTER_READ inode_at 1 0 0 USER_STACK_BASE 0]
    by (auto simp: answered_def reporting_def)
  note w = event_words [OF r(2)]
  have d: "?d s1 SYSCALL_SECURITY_AUDIT_FILTER_READ 1 0 0 USER_CODE_BASE 0 = Some (SECURITY_DENIED, s1)"
    by (simp add: syscall_dispatcher_def syscall_audit_filter_read_def security_user_buffer_valid_def)
  have "security_audit_filter_api_test inode_at s = Some ([''[InitraOS] SECURITY_AUDIT_FILTER_API_OK''], s1)"
    using g r(1) w d by (simp add: security_audit_filter_api_test_def tested_log_def)
  then show ?thesis using r(2) by blast
qed

text \<open>The log after one more check, by a user program, is what the last test expects.\<close>

lemma security_syscall_test_ok:
  assumes "ring_ok (sy_security s)" "audit_list (sy_security s) = tested_log"
    and t: "ks_current_task (sy_kernel s) = t" "t \<noteq> 0" "tk_privilege (ks_tasks (sy_kernel s) t) = TASK_USER"
    and c: "syscall_dispatcher inode_at s SYSCALL_SECURITY_CHECK 0 0 0 0 0 = Some (r, s')"
  shows "r = SECURITY_DENIED \<and> security_syscall_test (sy_kernel s') (sy_security s') t = [''[InitraOS] SECURITY_SYSCALL_DENIED_OK'']"
proof -
  let ?k = "sy_kernel s"
  let ?e = "security_audit_record (sy_security s) (tk_id (ks_tasks ?k t)) 3 1 0"
  have s': "r = 0" "s' = s\<lparr>sy_security := ?e\<rparr>"
    using c t by (simp_all add: syscall_dispatcher_def syscall_security_check_def security_authorize_def Let_def)
  have l: "audit_list ?e = tested_log @ [new_event (sy_security s) (tk_id (ks_tasks ?k t)) 3 1 0]"
    using record_audit_list [OF assms(1)] assms(2) by (simp add: tested_log_def)
  then have "unat (audit_count ?e) = 3" using length_audit_list [of ?e] by (simp add: tested_log_def del: length_audit_list)
  then have "audit_count ?e = 3" by (simp add: word_unat_eq_iff)
  then show ?thesis using t s' by (simp add: security_syscall_test_def security_audit_count_def audit_get_spec l nth_opt_def
        tested_log_def new_event_def)
qed

lemma syscall_dispatcher_test_ok:
  assumes "ks_current_task (sy_kernel s) = 0"
  shows "syscall_dispatcher_test inode_at s = Some ([''[InitraOS] SYSCALL_DISPATCH_OK''], s)"
  using assms by (simp add: syscall_dispatcher_test_def syscall_dispatcher_def heap_alloc_def heap_alloc_paged_def heap_free_def with_heap_def)

subsection \<open>Tasks and processes\<close>

text \<open>The blocks of a user task.\<close>

definition task_blocks :: "kernel_state \<Rightarrow> u32 \<Rightarrow> u32 set" where
  "task_blocks s t = {t, tk_context (ks_tasks s t)} - {0}"

lemma user_task_created:
  assumes "kernel_ok s xs"
  obtains r s' where "task_create_user s p e = Some (r, s')" "ks_current_task s' = ks_current_task s"
    "r = 0 \<Longrightarrow> kernel_ok s' xs \<and> live_blocks (ks_heap s') = live_blocks (ks_heap s) \<and> (\<forall>t \<in> set xs. task_data s' t = task_data s t)"
    "r \<noteq> 0 \<Longrightarrow> r \<notin> set xs \<and> kernel_ok s' (xs @ [r]) \<and> (\<forall>t. t \<noteq> r \<longrightarrow> task_data s' t = task_data s t) \<and>
       tk_stack_base (ks_tasks s' r) = USER_STACK_BASE \<and> tk_process (ks_tasks s' r) = p \<and>
       task_blocks s' r \<subseteq> dom (live_blocks (ks_heap s')) \<and> task_blocks s' r \<inter> dom (live_blocks (ks_heap s)) = {} \<and>
       live_blocks (ks_heap s') |` (- task_blocks s' r) = live_blocks (ks_heap s)"
proof -
  have kt: "kernel_tasks kernel_heap_ok live_blocks s xs" and cu: "ks_current_task s = 0 \<or> ks_current_task s \<in> set xs"
    using assms by (simp_all add: kernel_ok_def)
  let ?B = "live_blocks (ks_heap s)"
  obtain r s' where C: "task_create_user s p e = Some (r, s')" "ks_current_task s' = ks_current_task s"
    "(r = 0 \<and> kernel_tasks kernel_heap_ok live_blocks s' xs \<and> live_blocks (ks_heap s') = ?B \<and>
        (\<forall>t \<in> set xs. ks_tasks s' t = ks_tasks s t)) \<or>
     (r \<noteq> 0 \<and> r \<notin> set xs \<and> kernel_tasks kernel_heap_ok live_blocks s' (xs @ [r]) \<and>
        (\<forall>t. t \<noteq> r \<longrightarrow> task_data s' t = task_data s t) \<and> ?B r = None \<and>
        tk_id (ks_tasks s' r) = ks_next_task_id s \<and> tk_privilege (ks_tasks s' r) = TASK_USER \<and>
        tk_process (ks_tasks s' r) = p \<and> tk_stack_base (ks_tasks s' r) = USER_STACK_BASE \<and>
        (\<exists>m \<ge> 36. if tk_context (ks_tasks s' r) = 0
           then tk_state (ks_tasks s' r) = TASK_FINISHED \<and> live_blocks (ks_heap s') = ?B(r \<mapsto> m)
           else tk_state (ks_tasks s' r) = TASK_READY \<and> tk_context (ks_tasks s' r) \<noteq> r \<and>
             ?B (tk_context (ks_tasks s' r)) = None \<and>
             cx_eip (ks_contexts s' (tk_context (ks_tasks s' r))) = e \<and>
             cx_esp (ks_contexts s' (tk_context (ks_tasks s' r))) = USER_STACK_TOP \<and>
             cx_privilege (ks_contexts s' (tk_context (ks_tasks s' r))) = TASK_USER \<and>
             (\<exists>k \<ge> 44. live_blocks (ks_heap s') = ?B(r \<mapsto> m, tk_context (ks_tasks s' r) \<mapsto> k))))"
    by (rule kernel_blocks.task_create_user_spec [OF kt, of p e]) (rule that; assumption)
  have cx: "ks_current_task s' = 0 \<or> ks_current_task s' \<in> set xs" using cu C(2) by simp
  let ?c = "tk_context (ks_tasks s' r)"
  have N: "task_blocks s' r \<subseteq> dom (live_blocks (ks_heap s')) \<and> task_blocks s' r \<inter> dom ?B = {} \<and>
       live_blocks (ks_heap s') |` (- task_blocks s' r) = ?B" if "r \<noteq> 0"
  proof -
    from C(3) that obtain m k where "?B r = None" "?c = 0 \<and> live_blocks (ks_heap s') = ?B(r \<mapsto> m) \<or>
        ?c \<noteq> 0 \<and> ?c \<noteq> r \<and> ?B ?c = None \<and> live_blocks (ks_heap s') = ?B(r \<mapsto> m, ?c \<mapsto> k)" by (auto split: if_splits)
    then show ?thesis using that by (auto simp: task_blocks_def restrict_map_def fun_eq_iff)
  qed
  show ?thesis
  proof (rule that [OF C(1,2)])
    show "kernel_ok s' xs \<and> live_blocks (ks_heap s') = ?B \<and> (\<forall>t \<in> set xs. task_data s' t = task_data s t)" if "r = 0"
      using C(3) that cx by (simp add: kernel_ok_def task_data_def)
    show "r \<notin> set xs \<and> kernel_ok s' (xs @ [r]) \<and> (\<forall>t. t \<noteq> r \<longrightarrow> task_data s' t = task_data s t) \<and>
       tk_stack_base (ks_tasks s' r) = USER_STACK_BASE \<and> tk_process (ks_tasks s' r) = p \<and>
       task_blocks s' r \<subseteq> dom (live_blocks (ks_heap s')) \<and> task_blocks s' r \<inter> dom ?B = {} \<and>
       live_blocks (ks_heap s') |` (- task_blocks s' r) = ?B" if "r \<noteq> 0"
      using C(3) that cx N [OF that] by (auto simp: kernel_ok_def)
  qed
qed

lemma user_task_destroyed:
  assumes k: "kernel_tasks kernel_heap_ok live_blocks s xs" and t: "t \<in> set xs" "t \<noteq> ks_current_task s"
    and u: "tk_stack_base (ks_tasks s t) = USER_STACK_BASE" and sep: "task_blocks s t \<inter> (set xs - {t}) = {}"
  obtains s' where "task_destroy s t = Some s'" "kernel_tasks kernel_heap_ok live_blocks s' (remove1 t xs)"
    "ks_current_task s' = ks_current_task s" "\<And>a. a \<noteq> t \<Longrightarrow> task_data s' a = task_data s a"
    "live_blocks (ks_heap s') = live_blocks (ks_heap s) |` (- task_blocks s t)"
proof -
  obtain s' where S: "task_destroy s t = Some s'" "task_chain s' (remove1 t xs)" "kernel_heap_ok (ks_heap s')"
    "ks_current_task s' = ks_current_task s" "\<forall>a. a \<noteq> t \<longrightarrow> task_data s' a = task_data s a"
    "live_blocks (ks_heap s') = (\<lambda>r. if r = t \<or> r = tk_context (ks_tasks s t) \<or>
        r = tk_stack_base (ks_tasks s t) \<and> r \<noteq> USER_STACK_BASE then None else live_blocks (ks_heap s) r)"
    by (rule kernel_blocks.task_destroy_spec [OF k t]) (rule that; assumption)
  have z: "live_blocks (ks_heap s) 0 = None" by (rule kernel_blocks.blocks_zero) (use k in \<open>simp add: kernel_tasks_def\<close>)
  have b: "live_blocks (ks_heap s') = live_blocks (ks_heap s) |` (- task_blocks s t)"
    using S(6) u z by (auto simp: task_blocks_def restrict_map_def fun_eq_iff)
  have "distinct xs" using k task_chainD(1) by (auto simp: kernel_tasks_def)
  then have "set (remove1 t xs) = set xs - {t}" by simp
  then have "kernel_tasks kernel_heap_ok live_blocks s' (remove1 t xs)"
    using S(2,3) k sep t(1) unfolding kernel_tasks_def b by auto
  then show ?thesis using that S(1,4,5) b by blast
qed

text \<open>Two user tasks, and both destroyed again after their states have changed.\<close>

lemma two_tasks_destroyed:
  assumes k: "kernel_ok s xs"
    and A: "a \<notin> set xs" "a \<noteq> 0" "kernel_ok s1 (xs @ [a])" "\<forall>t. t \<noteq> a \<longrightarrow> task_data s1 t = task_data s t"
      "tk_stack_base (ks_tasks s1 a) = USER_STACK_BASE" "task_blocks s1 a \<subseteq> dom (live_blocks (ks_heap s1))"
      "task_blocks s1 a \<inter> dom (live_blocks (ks_heap s)) = {}" "live_blocks (ks_heap s1) |` (- task_blocks s1 a) = live_blocks (ks_heap s)"
    and B: "b \<notin> set (xs @ [a])" "b \<noteq> 0" "kernel_ok s2 (xs @ [a, b])" "\<forall>t. t \<noteq> b \<longrightarrow> task_data s2 t = task_data s1 t"
      "tk_stack_base (ks_tasks s2 b) = USER_STACK_BASE"
      "task_blocks s2 b \<inter> dom (live_blocks (ks_heap s1)) = {}" "live_blocks (ks_heap s2) |` (- task_blocks s2 b) = live_blocks (ks_heap s1)"
    and c: "ks_current_task s1 = ks_current_task s" "ks_current_task s2 = ks_current_task s1"
    and s3: "s3 = s2\<lparr>ks_tasks := (ks_tasks s2)(a := (ks_tasks s2 a)\<lparr>tk_state := i\<rparr>, b := (ks_tasks s2 b)\<lparr>tk_state := j\<rparr>)\<rparr>"
  obtains s4 s5 where "task_destroy s3 a = Some s4" "task_destroy s4 b = Some s5" "kernel_ok s5 xs"
    "live_blocks (ks_heap s5) = live_blocks (ks_heap s)" "\<forall>t \<in> set xs. task_data s5 t = task_data s t"
proof -
  have cu: "ks_current_task s = 0 \<or> ks_current_task s \<in> set xs" using k by (simp add: kernel_ok_def)
  have ne: "a \<noteq> b" using B(1) by auto
  have c3: "ks_current_task s3 = ks_current_task s" using c by (simp add: s3)
  have "task_chain s3 (xs @ [a, b]) = task_chain s2 (xs @ [a, b])" by (rule task_chain_frame) (simp_all add: s3)
  then have k3: "kernel_tasks kernel_heap_ok live_blocks s3 (xs @ [a, b])"
    using B(3) by (simp add: kernel_ok_def kernel_tasks_def s3)
  have da: "tk_stack_base (ks_tasks s2 a) = USER_STACK_BASE" "tk_context (ks_tasks s2 a) = tk_context (ks_tasks s1 a)"
  proof -
    have "task_data s2 a = task_data s1 a" using B(4) ne by simp
    then have "tk_stack_base (task_data s2 a) = tk_stack_base (task_data s1 a)" "tk_context (task_data s2 a) = tk_context (task_data s1 a)" by simp_all
    then show "tk_stack_base (ks_tasks s2 a) = USER_STACK_BASE" "tk_context (ks_tasks s2 a) = tk_context (ks_tasks s1 a)"
      using A(5) by (simp_all add: task_data_def)
  qed
  have t3: "task_blocks s3 a = task_blocks s1 a" "task_blocks s3 b = task_blocks s2 b" using da(2) ne by (simp_all add: task_blocks_def s3)
  have x: "set xs \<subseteq> dom (live_blocks (ks_heap s))" "a \<in> dom (live_blocks (ks_heap s1))"
    using k A(3) by (simp_all add: kernel_ok_def kernel_tasks_def)
  have bb: "b \<in> task_blocks s2 b" using B(2) by (simp add: task_blocks_def)
  have sa: "task_blocks s3 a \<inter> (set (xs @ [a, b]) - {a}) = {}" using A(6,7) B(6) x(1) bb unfolding t3 by auto
  obtain s4 where S: "task_destroy s3 a = Some s4" "kernel_tasks kernel_heap_ok live_blocks s4 (remove1 a (xs @ [a, b]))"
    "ks_current_task s4 = ks_current_task s3" "\<And>t. t \<noteq> a \<Longrightarrow> task_data s4 t = task_data s3 t"
    "live_blocks (ks_heap s4) = live_blocks (ks_heap s3) |` (- task_blocks s3 a)"
    by (rule user_task_destroyed [OF k3, of a]) (use A(1,2) cu c3 da(1) ne sa in \<open>auto simp: s3\<close>)
  have r: "remove1 a (xs @ [a, b]) = xs @ [b]" using A(1) by (simp add: remove1_append)
  have db: "tk_stack_base (ks_tasks s4 b) = USER_STACK_BASE" "tk_context (ks_tasks s4 b) = tk_context (ks_tasks s2 b)"
  proof -
    have "task_data s4 b = task_data s3 b" by (rule S(4)) (use ne in simp)
    then have "tk_stack_base (task_data s4 b) = tk_stack_base (task_data s3 b)" "tk_context (task_data s4 b) = tk_context (task_data s3 b)" by simp_all
    then show "tk_stack_base (ks_tasks s4 b) = USER_STACK_BASE" "tk_context (ks_tasks s4 b) = tk_context (ks_tasks s2 b)"
      using B(5) by (simp_all add: task_data_def s3)
  qed
  have t4: "task_blocks s4 b = task_blocks s2 b" using db(2) by (simp add: task_blocks_def)
  have xs1: "set xs \<subseteq> dom (live_blocks (ks_heap s1))" using A(3) by (simp add: kernel_ok_def kernel_tasks_def)
  have sb: "task_blocks s4 b \<inter> (set (xs @ [b]) - {b}) = {}" using B(6) xs1 unfolding t4 by auto
  obtain s5 where T: "task_destroy s4 b = Some s5" "kernel_tasks kernel_heap_ok live_blocks s5 (remove1 b (xs @ [b]))"
    "ks_current_task s5 = ks_current_task s4" "\<And>t. t \<noteq> b \<Longrightarrow> task_data s5 t = task_data s4 t"
    "live_blocks (ks_heap s5) = live_blocks (ks_heap s4) |` (- task_blocks s4 b)"
    by (rule user_task_destroyed [OF S(2) [unfolded r], of b]) (use B(1,2) cu c3 S(3) db(1) sb in auto)
  have q: "remove1 b (xs @ [b]) = xs" using B(1) by (simp add: remove1_append)
  have L: "live_blocks (ks_heap s5) = live_blocks (ks_heap s)"
  proof -
    have "live_blocks (ks_heap s5) = (live_blocks (ks_heap s2) |` (- task_blocks s2 b)) |` (- task_blocks s1 a)"
      unfolding T(5) S(5) t3 t4 by (simp add: s3 Int_commute)
    then show ?thesis using A(8) B(7) by simp
  qed
  have D: "\<forall>t \<in> set xs. task_data s5 t = task_data s t"
  proof
    fix t assume t: "t \<in> set xs"
    then have n: "t \<noteq> a" "t \<noteq> b" using A(1) B(1) by auto
    then have "task_data s3 t = task_data s2 t" by (simp add: task_data_def s3)
    then show "task_data s5 t = task_data s t" using T(4) S(4) A(4) B(4) n by simp
  qed
  have "kernel_ok s5 xs" using T(2,3) S(3) c3 cu unfolding q by (simp add: kernel_ok_def)
  then show ?thesis by (rule that [OF S(1) T(1) _ L D])
qed

lemma process_termination_test_ok:
  assumes k: "kernel_ok s xs"
  shows "\<exists>out s'. process_termination_test s = Some ([out], s') \<and>
    out \<in> {''[InitraOS] PROCESS_TERMINATION_POLICY_OK'', ''[InitraOS] PROCESS_TERMINATION_FAIL_CREATE''} \<and>
    (out = ''[InitraOS] PROCESS_TERMINATION_POLICY_OK'' \<longleftrightarrow>
       (\<exists>a b s1 s2. task_create_user s 0 USER_CODE_BASE = Some (a, s1) \<and> task_create_user s1 0 USER_CODE_BASE = Some (b, s2) \<and>
          a \<noteq> 0 \<and> b \<noteq> 0)) \<and>
    kernel_ok s' xs \<and> live_blocks (ks_heap s') = live_blocks (ks_heap s) \<and> (\<forall>t \<in> set xs. task_data s' t = task_data s t)"
proof -
  let ?create = "\<lambda>s. task_create_user s 0 USER_CODE_BASE" let ?B = "\<lambda>s. live_blocks (ks_heap s)"
  have cu: "ks_current_task s = 0 \<or> ks_current_task s \<in> set xs" using k by (simp add: kernel_ok_def)
  obtain a s1 where A: "?create s = Some (a, s1)" "ks_current_task s1 = ks_current_task s"
    "a = 0 \<Longrightarrow> kernel_ok s1 xs \<and> ?B s1 = ?B s \<and> (\<forall>t \<in> set xs. task_data s1 t = task_data s t)"
    "a \<noteq> 0 \<Longrightarrow> a \<notin> set xs \<and> kernel_ok s1 (xs @ [a]) \<and> (\<forall>t. t \<noteq> a \<longrightarrow> task_data s1 t = task_data s t) \<and>
       tk_stack_base (ks_tasks s1 a) = USER_STACK_BASE \<and> tk_process (ks_tasks s1 a) = 0 \<and>
       task_blocks s1 a \<subseteq> dom (?B s1) \<and> task_blocks s1 a \<inter> dom (?B s) = {} \<and> ?B s1 |` (- task_blocks s1 a) = ?B s"
    by (rule user_task_created [OF k, of 0 USER_CODE_BASE]) (rule that; assumption)
  have k1: "kernel_ok s1 (xs @ (if a = 0 then [] else [a]))" using A(3,4) by auto
  obtain b s2 where B: "?create s1 = Some (b, s2)" "ks_current_task s2 = ks_current_task s1"
    "b = 0 \<Longrightarrow> kernel_ok s2 (xs @ (if a = 0 then [] else [a])) \<and> ?B s2 = ?B s1 \<and>
       (\<forall>t \<in> set (xs @ (if a = 0 then [] else [a])). task_data s2 t = task_data s1 t)"
    "b \<noteq> 0 \<Longrightarrow> b \<notin> set (xs @ (if a = 0 then [] else [a])) \<and> kernel_ok s2 ((xs @ (if a = 0 then [] else [a])) @ [b]) \<and>
       (\<forall>t. t \<noteq> b \<longrightarrow> task_data s2 t = task_data s1 t) \<and>
       tk_stack_base (ks_tasks s2 b) = USER_STACK_BASE \<and> tk_process (ks_tasks s2 b) = 0 \<and>
       task_blocks s2 b \<subseteq> dom (?B s2) \<and> task_blocks s2 b \<inter> dom (?B s1) = {} \<and> ?B s2 |` (- task_blocks s2 b) = ?B s1"
    by (rule user_task_created [OF k1, of 0 USER_CODE_BASE]) (rule that; assumption)
  have c2: "ks_current_task s2 = ks_current_task s" using A(2) B(2) by simp
  have created: "(\<exists>a b s1 s2. ?create s = Some (a, s1) \<and> ?create s1 = Some (b, s2) \<and> a \<noteq> 0 \<and> b \<noteq> 0) \<longleftrightarrow> a \<noteq> 0 \<and> b \<noteq> 0"
    using A(1) B(1) by auto
  have one: "\<exists>s3. task_destroy s2 t = Some s3 \<and> kernel_ok s3 xs \<and> ?B s3 = ?B s \<and> (\<forall>x \<in> set xs. task_data s3 x = task_data s x)"
    if t: "t \<noteq> 0" "t \<notin> set xs" "kernel_ok s2 (xs @ [t])" "tk_stack_base (ks_tasks s2 t) = USER_STACK_BASE"
      "task_blocks s2 t \<inter> dom (?B s) = {}" "?B s2 |` (- task_blocks s2 t) = ?B s" "\<forall>x \<in> set xs. task_data s2 x = task_data s x" for t
  proof -
    have kt: "kernel_tasks kernel_heap_ok live_blocks s2 (xs @ [t])" "set xs \<subseteq> dom (?B s)"
      using t(3) k by (simp_all add: kernel_ok_def kernel_tasks_def)
    have sep: "task_blocks s2 t \<inter> (set (xs @ [t]) - {t}) = {}" using t(5) kt(2) by auto
    obtain s3 where S: "task_destroy s2 t = Some s3" "kernel_tasks kernel_heap_ok live_blocks s3 (remove1 t (xs @ [t]))"
      "ks_current_task s3 = ks_current_task s2" "\<And>a. a \<noteq> t \<Longrightarrow> task_data s3 a = task_data s2 a"
      "?B s3 = ?B s2 |` (- task_blocks s2 t)"
      by (rule user_task_destroyed [OF kt(1), of t]) (use t(1,2,4) sep c2 cu in auto)
    have "remove1 t (xs @ [t]) = xs" using t(2) by (simp add: remove1_append)
    then have "kernel_ok s3 xs" using S(2,3) c2 cu by (simp add: kernel_ok_def)
    moreover have "task_data s3 x = task_data s x" if "x \<in> set xs" for x using S(4) [of x] t(2,7) that by auto
    ultimately show ?thesis using S(1,5) t(6) by simp
  qed
  consider (none) "a = 0" "b = 0" | (first) "a \<noteq> 0" "b = 0" | (second) "a = 0" "b \<noteq> 0" | (both) "a \<noteq> 0" "b \<noteq> 0" by blast
  then show ?thesis
  proof cases
    case none
    then have "process_termination_test s = Some ([''[InitraOS] PROCESS_TERMINATION_FAIL_CREATE''], s2)"
      using A(1) B(1) by (simp add: process_termination_test_def)
    then show ?thesis using A(3) B(3) none unfolding created by simp
  next
    case first
    have da: "tk_stack_base (ks_tasks s2 a) = USER_STACK_BASE" "task_blocks s2 a = task_blocks s1 a"
    proof -
      have "task_data s2 a = task_data s1 a" using B(3) first by simp
      then have "tk_stack_base (task_data s2 a) = tk_stack_base (task_data s1 a)" "tk_context (task_data s2 a) = tk_context (task_data s1 a)" by simp_all
      then show "tk_stack_base (ks_tasks s2 a) = USER_STACK_BASE" "task_blocks s2 a = task_blocks s1 a"
        using A(4) first(1) by (simp_all add: task_data_def task_blocks_def)
    qed
    have "task_data s2 x = task_data s x" if "x \<in> set xs" for x using A(4) B(3) first that by auto
    obtain s3 where "task_destroy s2 a = Some s3" "kernel_ok s3 xs" "?B s3 = ?B s" "\<forall>x \<in> set xs. task_data s3 x = task_data s x"
      using one [of a] A(4) B(3) first da \<open>\<And>x. x \<in> set xs \<Longrightarrow> task_data s2 x = task_data s x\<close> by auto
    then show ?thesis using A(1) B(1) first unfolding created by (simp add: process_termination_test_def)
  next
    case second
    have "task_data s2 x = task_data s x" if "x \<in> set xs" for x using A(3) B(4) second that by auto
    obtain s3 where "task_destroy s2 b = Some s3" "kernel_ok s3 xs" "?B s3 = ?B s" "\<forall>x \<in> set xs. task_data s3 x = task_data s x"
      using one [of b] A(3) B(4) second \<open>\<And>x. x \<in> set xs \<Longrightarrow> task_data s2 x = task_data s x\<close> by auto
    then show ?thesis using A(1) B(1) second unfolding created by (simp add: process_termination_test_def)
  next
    case both
    note A' = A(4) [OF both(1)] and B' = B(4) [OF both(2)]
    have ne: "a \<noteq> b" using B' both(1) by auto
    let ?s3 = "s2\<lparr>ks_tasks := (ks_tasks s2)(a := (ks_tasks s2 a)\<lparr>tk_state := TASK_FINISHED\<rparr>, b := (ks_tasks s2 b)\<lparr>tk_state := TASK_READY\<rparr>)\<rparr>"
    obtain s4 s5 where D: "task_destroy ?s3 a = Some s4" "task_destroy s4 b = Some s5" "kernel_ok s5 xs"
      "?B s5 = ?B s" "\<forall>t \<in> set xs. task_data s5 t = task_data s t"
      by (rule two_tasks_destroyed [OF k, of a s1 b s2 ?s3 TASK_FINISHED TASK_READY]) (use A' B' both A(2) B(2) in auto)
    have p: "tk_process (ks_tasks s2 a) = 0"
    proof -
      have "task_data s2 a = task_data s1 a" using B' ne by simp
      then have "tk_process (task_data s2 a) = tk_process (task_data s1 a)" by simp
      then show ?thesis using A' by (simp add: task_data_def)
    qed
    have e: "s2\<lparr>ks_tasks := T, ks_current_task := ks_current_task s\<rparr> = s2\<lparr>ks_tasks := T\<rparr>" for T by (simp flip: c2)
    have "process_termination_test s = do { s \<leftarrow> task_destroy ?s3 a; s \<leftarrow> task_destroy s b;
        Some ([''[InitraOS] PROCESS_TERMINATION_POLICY_OK''], s) }"
      using A(1) B(1) both ne p c2 by (simp add: process_termination_test_def process_terminate_def task_set_state_def put_task_def e
          fun_upd_twist [of a b])
    then show ?thesis using D both unfolding created by simp
  qed
qed

text \<open>The identity test runs on a process that it creates and destroys.\<close>

lemma security_identity_syscall_test_ok:
  assumes k: "kernel_ok (sy_kernel s) xs" and pg: "hs_paging (sy_heap s) \<noteq> 0" and ring: "ring_ok (sy_security s)"
    and c: "process_create (sy_kernel s) = Some (r, k1)" "r \<noteq> 0"
    and v: "security_user_buffer_valid (ks_heap k1) USER_STACK_BASE sizeof_identity_info"
  shows "\<exists>s'. security_identity_syscall_test inode_at s = Some ([''[InitraOS] SECURITY_IDENTITY_API_OK''], s') \<and>
    kernel_ok (sy_kernel s') xs \<and> live_blocks (sy_heap s') = live_blocks (sy_heap s)"
proof -
  let ?d = "syscall_dispatcher inode_at" let ?k = "sy_kernel s"
  have kt: "kernel_tasks kernel_heap_ok live_blocks ?k xs" and cu: "ks_current_task ?k = 0 \<or> ks_current_task ?k \<in> set xs"
    using k by (simp_all add: kernel_ok_def)
  define t where "t = pr_task (ks_processes k1 r)"
  define p where "p = ks_processes k1 r"
  have C: "ks_current_task k1 = ks_current_task ?k" "t \<notin> set xs" "t \<noteq> 0" "kernel_tasks kernel_heap_ok live_blocks k1 (xs @ [t])"
    "tk_process (ks_tasks k1 t) = r" "tk_stack_base (ks_tasks k1 t) = USER_STACK_BASE" "pr_address_space (ks_processes k1 r) \<noteq> 0"
    "live_blocks (ks_heap k1) |` (- owned k1 r) = live_blocks (ks_heap ?k)"
    by (rule kernel_blocks.process_create_spec [OF kt pg]; use c in \<open>auto simp: t_def Let_def\<close>)+
  define k2 where "k2 = task_set_state (k1\<lparr>ks_current_task := t\<rparr>) t TASK_RUNNING"
  let ?s2 = "s\<lparr>sy_kernel := k2\<rparr>"
  have k2: "ks_heap k2 = ks_heap k1" "ks_processes k2 = ks_processes k1" "ks_current_task k2 = t"
    "ks_tasks k2 = (ks_tasks k1)(t := (ks_tasks k1 t)\<lparr>tk_state := 1\<rparr>)"
    using C(3) by (simp_all add: k2_def task_set_state_def)
  let ?id = "\<lparr>sii_pid = pr_pid p, sii_uid = pr_uid p, sii_gid = pr_gid p, sii_privilege = pr_privilege p\<rparr>"
  have "user_answer inode_at ?s2 SYSCALL_SECURITY_IDENTITY USER_STACK_BASE 0 0 0 = Some (USER_STACK_BASE, identity_image ?id)"
    using v C(3,5) c(2) by (simp add: user_answer_def checked_def k2 p_def Let_def)
  then obtain s3 where r: "?d ?s2 SYSCALL_SECURITY_IDENTITY USER_STACK_BASE 0 0 0 0 = Some (SECURITY_ALLOWED, s3)"
    "user_write ?s2 USER_STACK_BASE (identity_image ?id) s3"
    using dispatch_answered [of ?s2 SYSCALL_SECURITY_IDENTITY inode_at USER_STACK_BASE 0 0 0 0] ring
    by (auto simp: answered_def reporting_def)
  note w = identity_words [OF r(2)]
  obtain m where m: "s3 = ?s2\<lparr>sy_kernel := with_memory k2 m\<rparr>" using r(2) by (auto simp: user_write_def with_heap_def)
  have d: "?d s3 SYSCALL_SECURITY_IDENTITY KERNEL_TEST_ADDRESS 0 0 0 0 = Some (SECURITY_DENIED, s3)"
    by (simp add: syscall_dispatcher_def syscall_identity_def security_user_buffer_valid_def Let_def)
  let ?k4 = "(with_memory k2 m)\<lparr>ks_current_task := ks_current_task k1\<rparr>"
  have x: "task_chain ?k4 (xs @ [t]) = task_chain k1 (xs @ [t])"
    by (rule task_chain_frame) (use C(3) in \<open>simp_all add: k2_def task_set_state_def\<close>)
  have "kernel_tasks kernel_heap_ok live_blocks ?k4 (xs @ [t])"
    using C(4) unfolding kernel_tasks_def x by (simp add: k2)
  moreover have "pr_task (ks_processes ?k4 r) = t" by (simp add: k2 t_def)
  moreover have o: "owned ?k4 r = owned k1 r" using C(3) by (simp add: owned_def k2_def task_set_state_def Let_def put_task_def)
  ultimately obtain k5 where D: "process_destroy ?k4 r = Some k5" "kernel_ok k5 xs" "live_blocks (ks_heap k5) = live_blocks (ks_heap ?k)"
    using destroy_created_process [of ?k4 xs r "live_blocks (ks_heap ?k)"] c(2) C cu kt
    by (auto simp: k2 kernel_tasks_def)
  have e: "task_set_state (k1\<lparr>ks_current_task := t\<rparr>) t 1 = k2" by (simp add: k2_def)
  have "security_identity_syscall_test inode_at s = Some ([''[InitraOS] SECURITY_IDENTITY_API_OK''], s3\<lparr>sy_kernel := k5\<rparr>)"
    using c C(3) r(1) w d D(1) by (simp add: security_identity_syscall_test_def Let_def e k2 p_def m flip: t_def)
  then show ?thesis using D(2,3) by simp
qed

subsection \<open>Properties\<close>

definition security_self_tests :: "('w \<Rightarrow> ptr \<Rightarrow> fs_inode) \<Rightarrow> 'w system \<Rightarrow> (string list \<times> 'w system) option" where
  "security_self_tests inode_at s =
     do {
       let (out1, security) = security_core_test (sy_security s);
       (out2, s) \<leftarrow> security_audit_syscall_test inode_at (s\<lparr>sy_security := security\<rparr>);
       (out3, s) \<leftarrow> security_audit_filter_api_test inode_at s;
       (out4, s) \<leftarrow> security_status_api_test inode_at s;
       Some (out1 @ out2 @ out3 @ out4, s) }"

lemma user_write_twice: "user_write s a bs s1 \<Longrightarrow> user_write s1 a bs s2 \<Longrightarrow> user_write s a bs s2"
proof -
  have t: "translate (h\<lparr>hs_memory := m\<rparr>) a = translate h a" for h m by (simp add: translate_def)
  have o: "overwrite (overwrite m pa bs) pa bs = overwrite m pa bs" for m pa by (simp add: overwrite_def fun_eq_iff)
  show "user_write s a bs s1 \<Longrightarrow> user_write s1 a bs s2 \<Longrightarrow> user_write s a bs s2"
    by (auto simp: user_write_def with_heap_def t o)
qed

text \<open>
  C25: on every machine whose user stack page is open to the user, the boot-time tests
  of the security core report success, in the order of the boot and whatever the audit
  log held: denials and permissions are decided and logged, read back through the
  system calls, filtered, and a pointer to the kernel or to the code page is refused.
  Nothing but the log and the 20 bytes at the base of the user stack has changed. When
  later a task of ring 3 asks for the protected operation, it is denied, and the test
  that reads this decision from the log reports success.
\<close>

theorem security_self_tests_pass:
  assumes v: "security_user_buffer_valid (sy_heap s) USER_STACK_BASE sizeof_audit_event"
  shows "\<exists>s'. security_self_tests inode_at s = Some ([''[InitraOS] SECURITY_CORE_OK'', ''[InitraOS] SECURITY_AUDIT_API_OK'',
      ''[InitraOS] SECURITY_AUDIT_FILTER_API_OK'', ''[InitraOS] SECURITY_STATUS_API_OK''], s') \<and>
    user_write (s\<lparr>sy_security := sy_security s'\<rparr>) USER_STACK_BASE (event_image (hd tested_log)) s' \<and>
    audit_list (sy_security s') = tested_log \<and>
    (\<forall>k t. ks_current_task k = t \<and> t \<noteq> 0 \<and> tk_privilege (ks_tasks k t) = TASK_USER \<longrightarrow>
       (\<exists>s''. syscall_dispatcher inode_at (s'\<lparr>sy_kernel := k\<rparr>) SYSCALL_SECURITY_CHECK 0 0 0 0 0 = Some (SECURITY_DENIED, s'') \<and>
          security_syscall_test (sy_kernel s'') (sy_security s'') t = [''[InitraOS] SECURITY_SYSCALL_DENIED_OK'']))"
proof -
  obtain sec where C: "security_core_test (sy_security s) = ([''[InitraOS] SECURITY_CORE_OK''], sec)" "ring_ok sec" "audit_list sec = tested_log"
    using security_core_test_ok by blast
  let ?s = "s\<lparr>sy_security := sec\<rparr>" let ?bs = "event_image (hd tested_log)"
  obtain s1 where A: "security_audit_syscall_test inode_at ?s = Some ([''[InitraOS] SECURITY_AUDIT_API_OK''], s1)"
    "user_write ?s USER_STACK_BASE ?bs s1" using security_audit_syscall_test_ok [of ?s inode_at] C v by auto
  note a = stack_write_again [OF A(2)]
  obtain s2 where F: "security_audit_filter_api_test inode_at s1 = Some ([''[InitraOS] SECURITY_AUDIT_FILTER_API_OK''], s2)"
    "user_write s1 USER_STACK_BASE ?bs s2" using security_audit_filter_api_test_ok [of s1 inode_at] C v a by auto
  have sec2: "sy_security s2 = sec" using stack_write_again(1) [OF F(2)] a(1) by simp
  have "security_self_tests inode_at s = Some ([''[InitraOS] SECURITY_CORE_OK'', ''[InitraOS] SECURITY_AUDIT_API_OK'',
      ''[InitraOS] SECURITY_AUDIT_FILTER_API_OK'', ''[InitraOS] SECURITY_STATUS_API_OK''], s2)"
    using C(1) A(1) F(1) by (simp add: security_self_tests_def security_status_api_test_ok)
  moreover have "user_write (s\<lparr>sy_security := sy_security s2\<rparr>) USER_STACK_BASE ?bs s2"
    unfolding sec2 by (rule user_write_twice [OF A(2) F(2)])
  moreover have "\<exists>s''. syscall_dispatcher inode_at (s2\<lparr>sy_kernel := k\<rparr>) SYSCALL_SECURITY_CHECK 0 0 0 0 0 = Some (SECURITY_DENIED, s'') \<and>
      security_syscall_test (sy_kernel s'') (sy_security s'') t = [''[InitraOS] SECURITY_SYSCALL_DENIED_OK'']"
    if t: "ks_current_task k = t \<and> t \<noteq> 0 \<and> tk_privilege (ks_tasks k t) = TASK_USER" for k t
  proof -
    obtain r s'' where d: "syscall_dispatcher inode_at (s2\<lparr>sy_kernel := k\<rparr>) SYSCALL_SECURITY_CHECK 0 0 0 0 0 = Some (r, s'')"
      by (cases "syscall_security_check (s2\<lparr>sy_kernel := k\<rparr>)") (simp add: syscall_dispatcher_def)
    show ?thesis using security_syscall_test_ok [OF _ _ _ _ _ d, of t] d t C(2,3) sec2 by simp
  qed
  ultimately show ?thesis using C(3) sec2 by (intro exI [of _ s2]) simp
qed

theorem security_self_tests_pass_witness:
  "\<exists>out s'. security_self_tests (\<lambda>_ _. zero_fs_inode) ex_system = Some (out, s') \<and>
     last out = ''[InitraOS] SECURITY_STATUS_API_OK'' \<and> audit_list (sy_security s') = tested_log"
proof -
  have p: "page_of 0x7FF000 \<in> user_pages" by (simp add: page_of_def user_pages_def)
  have "pages_of ex_space 0x7FF000 = Some 0x7FF007"
    unfolding ex_space_def paging_init_entry using p by (simp add: page_of_def)
  then have "user_page_flags ex_paged_heap 0x7FF000 (PAGE_PRESENT OR PAGE_WRITABLE OR PAGE_USER)"
    by (simp add: user_page_flags_def pages_of_def ex_paged_heap_def ex_heap_def ex_vm_def Let_def not_le split: if_splits)
  then have "security_user_buffer_valid (sy_heap ex_system) USER_STACK_BASE sizeof_audit_event"
    by (simp add: security_user_buffer_valid_def ex_system_def)
  from security_self_tests_pass [OF this, of "\<lambda>_ _. zero_fs_inode"] show ?thesis by auto
qed

end
