(* ===== verification/Vfs_Self_Tests.thy ===== *)
theory Vfs_Self_Tests
  imports Shell_Filesystem Security_Self_Tests
begin

section \<open>The self-tests of instances and of the mounted file system\<close>

text \<open>
  These tests mount InitraFS from an instance among their local variables. Local
  objects have fixed addresses, those of the members of the instance included; what
  they hold before is arbitrary, and so is the RAM disk, which is static. A test that
  ends with \<open>goto fail\<close> undoes what its two flags say it has done.
\<close>

definition test_filesystem :: ptr where "test_filesystem = 1"
definition test_instance :: ptr where "test_instance = 2"
definition test_device :: ptr where "test_device = 3"
definition docs_address :: ptr where "docs_address = 20"

definition instance_members :: "initrafs_instance_t \<Rightarrow> bool" where
  "instance_members i \<longleftrightarrow> in_root_inode i = 10 \<and> in_root_disk_inode i = 11 \<and> in_root_entries i = 12"

definition ram_device :: "u8 list option \<Rightarrow> u8 list option block_device" where
  "ram_device disk =
     \<lparr>bd_block_size = INITRAFS_BLOCK_SIZE, bd_block_count = INITRAFS_TEST_FILE_DISK_BLOCKS, bd_private_data = disk,
      bd_read = Some initrafs_test_disk_read, bd_write = Some initrafs_test_disk_write\<rparr>"

definition initrafs_instance_test :: "u8 list option \<Rightarrow> u8 list option world \<Rightarrow> string list" where
  "initrafs_instance_test disk w =
     (let failed = [''[InitraOS] INITRAFS_INSTANCE_FAIL''];
          w = w\<lparr>fw_device := (fw_device w)(test_device := ram_device disk)\<rparr>;
          (initialised, w) = initrafs_instance_init w test_instance test_device
      in if \<not> initialised then failed
         else
           let i = fw_instance w test_instance; superblock = the (ba_superblock (in_block_allocator i));
               root_inode = st_inode (fw_store w) (in_root_inode i);
               root_disk_inode = st_disk_inode (fw_store w) (in_root_disk_inode i); ns = in_namespace i
           in if in_mounted i \<noteq> 1 \<or> in_device i \<noteq> test_device \<or>
                 sb_total_blocks superblock \<noteq> bd_block_count (fw_device w test_device) \<or>
                 sb_root_inode superblock \<noteq> INITRAFS_ROOT_INODE \<or> fi_inode_number root_inode \<noteq> INITRAFS_ROOT_INODE \<or>
                 fi_type root_inode \<noteq> INODE_TYPE_DIRECTORY \<or> di_type root_disk_inode \<noteq> INITRAFS_TYPE_DIRECTORY \<or>
                 ns_node_count ns \<noteq> 1 \<or> ns_root_inode ns \<noteq> INITRAFS_ROOT_INODE \<or>
                 nn_inode (the (ns_nodes ns) ! 0) \<noteq> in_root_inode i \<or>
                 nn_disk_inode (the (ns_nodes ns) ! 0) \<noteq> in_root_disk_inode i
              then failed
              else
                let (unmounted, w) = initrafs_instance_unmount w test_instance; i = fw_instance w test_instance
                in if \<not> unmounted then failed
                   else if in_mounted i \<noteq> 0 \<or> in_device i \<noteq> NULL \<or> ns_node_count (in_namespace i) \<noteq> 0 then failed
                   else [''[InitraOS] INITRAFS_INSTANCE_OK''])"

text \<open>The common beginning: what was reached, registration and mount, and the state.\<close>

definition mount_test_filesystem ::
  "u8 list option \<Rightarrow> u8 list option world vfs \<Rightarrow> bool \<times> bool \<times> u8 list option world vfs" where
  "mount_test_filesystem disk v =
     (let v = set_device v test_device (ram_device disk)
      in case initrafs_vfs_init True test_instance of
           None \<Rightarrow> (False, False, v)
         | Some f \<Rightarrow>
             let (registered, v) = filesystem_register (set_filesystem v test_filesystem f) test_filesystem
             in if \<not> registered then (False, False, v)
                else let (mounted, v) = vfs_mount v test_filesystem test_device in (True, mounted, v))"

definition test_cleanup :: "string list \<Rightarrow> bool \<Rightarrow> bool \<Rightarrow> 'w vfs \<Rightarrow> string list \<times> 'w vfs" where
  "test_cleanup out is_registered mounted v =
     (let v = snd (vfs_set_caller_identity v 0 0);
          v = (if mounted then snd (vfs_unmount v test_filesystem) else v)
      in (out, if is_registered then snd (filesystem_unregister v test_filesystem) else v))"

definition initrafs_vfs_directory_test ::
  "u8 list option \<Rightarrow> initrafs_disk_dirent_t list \<Rightarrow> u8 list option world vfs \<Rightarrow> string list \<times> u8 list option world vfs" where
  "initrafs_vfs_directory_test disk entries v =
     (let failed = [''[InitraOS] INITRAFS_VFS_DIRECTORY_FAIL''];
          (registered, mounted, v) = mount_test_filesystem disk v
      in if \<not> mounted then (failed, v)
         else
           let (listed, entries) = vfs_readdir v (Some ''/'') (Some entries) (8 * sizeof_disk_dirent);
               entry0 = the entries ! 0; entry1 = the entries ! 1
           in if (word_of_int listed :: u32) \<noteq> 2 \<or> de_inode_number entry0 \<noteq> INITRAFS_ROOT_INODE \<or>
                 de_name_length entry0 \<noteq> 1 \<or> de_name entry0 ! 0 \<noteq> CHR ''.'' \<or>
                 de_inode_number entry1 \<noteq> INITRAFS_ROOT_INODE \<or> de_name_length entry1 \<noteq> 2 \<or>
                 de_name entry1 ! 0 \<noteq> CHR ''.'' \<or> de_name entry1 ! 1 \<noteq> CHR ''.''
              then (failed, snd (filesystem_unregister (snd (vfs_unmount v test_filesystem)) test_filesystem))
              else
                let (unmounted, v) = vfs_unmount v test_filesystem
                in if \<not> unmounted then (failed, v)
                   else let (unregistered, v) = filesystem_unregister v test_filesystem
                        in (if \<not> unregistered then failed else [''[InitraOS] INITRAFS_VFS_DIRECTORY_OK''], v))"

text \<open>The directory \<open>docs\<close> that the removal test makes: created, entered in the root, registered.\<close>

definition create_docs :: "'d world \<Rightarrow> bool \<times> 'd world" where
  "create_docs w =
     (let i = fw_instance w test_instance; st = fw_store w;
          (created, allocator, inode, disk_inode, entries) =
            initrafs_directory_create (Some (in_inode_allocator i)) (Some (st_inode st docs_address))
              (Some (st_disk_inode st docs_address)) (Some (st_entries st docs_address))
              INITRAFS_INSTANCE_DIRECTORY_ENTRIES 0x1ED INITRAFS_ROOT_INODE
      in (created, w\<lparr>fw_store := st\<lparr>st_inode := (st_inode st)(docs_address := the inode),
            st_disk_inode := (st_disk_inode st)(docs_address := the disk_inode),
            st_entries := (st_entries st)(docs_address := the entries)\<rparr>,
          fw_instance := (fw_instance w)(test_instance := i\<lparr>in_inode_allocator := the allocator\<rparr>)\<rparr>))"

definition enter_docs :: "'d world \<Rightarrow> bool \<times> 'd world" where
  "enter_docs w =
     (let i = fw_instance w test_instance; st = fw_store w; a = in_root_inode i; d = in_root_disk_inode i
      in case initrafs_directory_add (Some (st_entries st (in_root_entries i))) INITRAFS_INSTANCE_DIRECTORY_ENTRIES
                (fi_inode_number (st_inode st docs_address)) INITRAFS_TYPE_DIRECTORY (Some ''docs'') of
           None \<Rightarrow> (False, w)
         | Some entries \<Rightarrow>
             (True, w\<lparr>fw_store := st\<lparr>st_entries := (st_entries st)(in_root_entries i := entries),
                st_inode := (st_inode st)(a := (st_inode st a)\<lparr>fi_link_count := fi_link_count (st_inode st a) + 1\<rparr>),
                st_disk_inode := (st_disk_inode st)(d := (st_disk_inode st d)
                  \<lparr>di_link_count := di_link_count (st_disk_inode st d) + 1\<rparr>)\<rparr>\<rparr>))"

definition register_docs :: "'d world \<Rightarrow> bool \<times> 'd world" where
  "register_docs w =
     (let i = fw_instance w test_instance
      in case initrafs_namespace_register (fw_store w) (Some (in_namespace i)) docs_address docs_address docs_address
                INITRAFS_INSTANCE_DIRECTORY_ENTRIES of
           None \<Rightarrow> (False, w)
         | Some ns \<Rightarrow> (True, w\<lparr>fw_instance := (fw_instance w)(test_instance := i\<lparr>in_namespace := ns\<rparr>)\<rparr>))"

definition on_world :: "('w \<Rightarrow> bool \<times> 'w) \<Rightarrow> 'w vfs \<Rightarrow> bool \<times> 'w vfs" where
  "on_world f v = (let (ok, w) = f (vfs_world v) in (ok, v\<lparr>vfs_world := w\<rparr>))"

definition docs_found :: "'d world vfs \<Rightarrow> bool" where
  "docs_found v \<longleftrightarrow> initrafs_path_lookup (fw_store (vfs_world v))
     (Some (in_namespace (fw_instance (vfs_world v) test_instance))) (Some ''/docs'') True \<noteq> None"

definition initrafs_vfs_rmdir_test ::
  "u8 list option \<Rightarrow> u8 list option world vfs \<Rightarrow> string list \<times> u8 list option world vfs" where
  "initrafs_vfs_rmdir_test disk v =
     (let failed = ''[InitraOS] INITRAFS_VFS_RMDIR_FAIL'';
          (registered, mounted, v) = mount_test_filesystem disk v; fail = test_cleanup [failed]
      in if \<not> mounted then fail registered mounted v
         else let (removed, v) = vfs_rmdir v (Some ''/'') in if removed \<noteq> 0 then fail registered mounted v
         else let (ok, v) = on_world create_docs v in if \<not> ok then fail registered mounted v
         else let (ok, v) = on_world enter_docs v in if \<not> ok then fail registered mounted v
         else let (ok, v) = on_world register_docs v in if \<not> ok then fail registered mounted v
         else let (ok, v) = vfs_set_caller_identity v 1000 1000 in if \<not> ok then fail registered mounted v
         else let (removed, v) = vfs_rmdir v (Some ''/docs'') in if removed \<noteq> 0 then fail registered mounted v
         else if \<not> docs_found v then fail registered mounted v
         else
           let v = snd (vfs_set_caller_identity v 0 0); out = ''[InitraOS] INITRAFS_RMDIR_PERMISSION_OK'';
               fail = test_cleanup [out, failed];
               (removed, v) = vfs_rmdir v (Some ''/docs'')
           in if removed = 0 \<or> docs_found v then fail registered mounted v
         else
           let i = fw_instance (vfs_world v) test_instance; st = fw_store (vfs_world v)
           in if fi_link_count (st_inode st (in_root_inode i)) \<noteq> INITRAFS_ROOT_LINK_COUNT \<or>
                 di_link_count (st_disk_inode st (in_root_disk_inode i)) \<noteq> INITRAFS_ROOT_LINK_COUNT \<or>
                 ia_free_inodes (in_inode_allocator i) \<noteq>
                   sb_inode_count (the (ba_superblock (in_block_allocator i))) - 2
              then fail registered mounted v
         else let (unmounted, v) = vfs_unmount v test_filesystem in if \<not> unmounted then fail registered mounted v
         else let (unregistered, v) = filesystem_unregister v test_filesystem in if \<not> unregistered then fail registered False v
         else ([out, ''[InitraOS] INITRAFS_VFS_RMDIR_OK''], v))"

subsection \<open>The tests evaluated\<close>

text \<open>The world of a test, field by field.\<close>

definition stack_world ::
  "u32 \<Rightarrow> 'd world \<Rightarrow> initrafs_disk_dirent_t list \<Rightarrow> 'd world" where
  "stack_world mounted w es = \<lparr>fw_store = \<lparr>st_inode = st_inode (fw_store w), st_disk_inode = st_disk_inode (fw_store w),
      st_entries = (st_entries (fw_store w))(docs_address := es)\<rparr>, fw_device = fw_device w,
    fw_instance = (fw_instance w)(test_instance := \<lparr>in_root_inode = 10, in_root_disk_inode = 11, in_root_entries = 12,
      in_device = in_device (fw_instance w test_instance), in_block_allocator = in_block_allocator (fw_instance w test_instance),
      in_inode_allocator = in_inode_allocator (fw_instance w test_instance),
      in_namespace = in_namespace (fw_instance w test_instance), in_mounted = mounted\<rparr>)\<rparr>"

lemma stack_world:
  "instance_members (fw_instance w test_instance) \<Longrightarrow>
   w = stack_world (in_mounted (fw_instance w test_instance)) w (st_entries (fw_store w) docs_address)"
  by (cases w, cases "fw_store w", cases "fw_instance w test_instance") (auto simp: stack_world_def instance_members_def fun_eq_iff)

text \<open>No file system is registered or mounted, no file is open, the caller is root.\<close>

definition vfs_idle :: "'w vfs \<Rightarrow> bool" where
  "vfs_idle v \<longleftrightarrow> vfs_filesystems v = replicate 8 NULL \<and> vfs_active_filesystem v = NULL \<and>
     list_all (\<lambda>f. vf_inode f = NULL) (vfs_open_files v) \<and> vfs_get_caller_identity v = (0, 0)"

lemma initrafs_instance_test_ok:
  assumes "instance_members (fw_instance w test_instance)"
  shows "initrafs_instance_test disk w = [''[InitraOS] INITRAFS_INSTANCE_OK'']"
proof -
  have "initrafs_instance_test disk (stack_world m u es) = [''[InitraOS] INITRAFS_INSTANCE_OK'']" for m u es by code_simp
  then show ?thesis by (subst stack_world [OF assms])
qed

lemma initrafs_vfs_directory_test_ok:
  assumes "instance_members (fw_instance w test_instance)" "in_mounted (fw_instance w test_instance) = 0" "length entries = 8"
  shows "\<exists>v. initrafs_vfs_directory_test disk entries (vfs_boot w fa) = ([''[InitraOS] INITRAFS_VFS_DIRECTORY_OK''], v) \<and> vfs_idle v"
proof -
  have e: "map_prod id vfs_idle (initrafs_vfs_directory_test disk (a # b # es) (vfs_boot (stack_world 0 u es2) fa)) =
    ([''[InitraOS] INITRAFS_VFS_DIRECTORY_OK''], True)" for a b es u es2 by code_simp
  obtain a b es where "entries = a # b # es" using assms(3) by (auto simp: length_Suc_conv numeral_eq_Suc)
  then have "map_prod id vfs_idle (initrafs_vfs_directory_test disk entries (vfs_boot w fa)) = ([''[InitraOS] INITRAFS_VFS_DIRECTORY_OK''], True)"
    using e [of a b es w "st_entries (fw_store w) docs_address"] stack_world [OF assms(1)] assms(2) by simp
  then show ?thesis by (cases "initrafs_vfs_directory_test disk entries (vfs_boot w fa)") simp
qed

lemma initrafs_vfs_rmdir_test_ok:
  assumes "instance_members (fw_instance w test_instance)" "in_mounted (fw_instance w test_instance) = 0"
    and "length (st_entries (fw_store w) docs_address) = 8"
  shows "\<exists>v. initrafs_vfs_rmdir_test disk (vfs_boot w fa) =
    ([''[InitraOS] INITRAFS_RMDIR_PERMISSION_OK'', ''[InitraOS] INITRAFS_VFS_RMDIR_OK''], v) \<and> vfs_idle v"
proof -
  have e: "map_prod id vfs_idle (initrafs_vfs_rmdir_test disk (vfs_boot (stack_world 0 u [e0, e1, e2, e3, e4, e5, e6, e7]) fa)) =
    ([''[InitraOS] INITRAFS_RMDIR_PERMISSION_OK'', ''[InitraOS] INITRAFS_VFS_RMDIR_OK''], True)" for u e0 e1 e2 e3 e4 e5 e6 e7
    by code_simp
  obtain e0 e1 e2 e3 e4 e5 e6 e7 where "st_entries (fw_store w) docs_address = [e0, e1, e2, e3, e4, e5, e6, e7]"
    using assms(3) by (auto simp: length_Suc_conv numeral_eq_Suc)
  then have "map_prod id vfs_idle (initrafs_vfs_rmdir_test disk (vfs_boot w fa)) =
    ([''[InitraOS] INITRAFS_RMDIR_PERMISSION_OK'', ''[InitraOS] INITRAFS_VFS_RMDIR_OK''], True)"
    using e [of w e0 e1 e2 e3 e4 e5 e6 e7] stack_world [OF assms(1)] assms(2) by simp
  then show ?thesis by (cases "initrafs_vfs_rmdir_test disk (vfs_boot w fa)") simp
qed

text \<open>An instance whose memory happens to say that it is mounted cannot be mounted.\<close>

lemma mount_refused:
  assumes "in_mounted (fw_instance w test_instance) \<noteq> 0"
  obtains v where "mount_test_filesystem disk (vfs_boot w fa) = (True, False, v)" "vfs_filesystems v = test_filesystem # replicate 7 NULL"
    "vfs_active_filesystem v = NULL"
proof -
  obtain f :: "u8 list option world filesystem_t" where f: "initrafs_vfs_init True test_instance = Some f" "fs_name f = Some ''initrafs''"
    "fs_mount f = Some initrafs_vfs_mount" "fs_private_data f = test_instance"
    by (simp add: initrafs_vfs_init_def test_instance_def)
  have n: "test_instance \<noteq> NULL" "test_filesystem \<noteq> NULL" "test_device \<noteq> NULL"
    by (simp_all add: test_instance_def test_filesystem_def test_device_def)
  let ?v = "set_filesystem (set_device (vfs_boot w fa) test_device (ram_device disk)) test_filesystem f"
  have r: "filesystem_register ?v test_filesystem = (True, ?v\<lparr>vfs_filesystems := test_filesystem # replicate 7 NULL\<rparr>)"
    using f(2) n by (simp add: filesystem_register_def vfs_filesystem_is_registered_def vfs_boot_def cstr_at_def numeral_eq_Suc)
  have "initrafs_vfs_mount (vfs_world ?v) test_instance test_device = (False, vfs_world ?v)"
    using assms n by (simp add: initrafs_vfs_mount_def initrafs_vfs_instance_def vfs_boot_def)
  then show ?thesis
    using that f n r by (simp add: mount_test_filesystem_def vfs_mount_def vfs_filesystem_is_registered_def vfs_boot_def)
qed

lemma directory_test_refused:
  assumes "in_mounted (fw_instance w test_instance) \<noteq> 0"
  shows "\<exists>v. initrafs_vfs_directory_test disk entries (vfs_boot w fa) = ([''[InitraOS] INITRAFS_VFS_DIRECTORY_FAIL''], v) \<and>
    test_filesystem \<in> registered v"
  by (rule mount_refused [OF assms, of disk fa]) (simp add: initrafs_vfs_directory_test_def registered_def test_filesystem_def)

subsection \<open>The system call that describes a file\<close>

text \<open>
  \<open>sy_vfs\<close> is the VFS of the system; the path lies at \<open>0x100\<close> in the user stack page, the
  description goes to its base.
\<close>

definition inode_of :: "'d world \<Rightarrow> ptr \<Rightarrow> fs_inode" where
  "inode_of w p = st_inode (fw_store w) p"

definition on_vfs :: "('w vfs \<Rightarrow> 'a \<times> 'w vfs) \<Rightarrow> 'w system \<Rightarrow> 'a \<times> 'w system" where
  "on_vfs f s = (let (r, v) = f (sy_vfs s) in (r, s\<lparr>sy_vfs := v\<rparr>))"

definition fs_info_expected :: "heap_state \<Rightarrow> u32 \<Rightarrow> bool option" where
  "fs_info_expected h info =
     do {
       inode_number \<leftarrow> load_u32 h info;
       type \<leftarrow> load_u32 h (info + 4);
       mode \<leftarrow> load_u32 h (info + 8);
       owner \<leftarrow> load_u32 h (info + 12);
       group \<leftarrow> load_u32 h (info + 16);
       Some (\<not> (inode_number \<noteq> INITRAFS_ROOT_INODE \<or> type \<noteq> INODE_TYPE_DIRECTORY \<or> mode \<noteq> INITRAFS_ROOT_MODE \<or>
         owner \<noteq> 0 \<or> group \<noteq> 0)) }"

definition security_fs_info_syscall_test ::
  "u8 list option \<Rightarrow> u8 list option world system \<Rightarrow> (string list \<times> u8 list option world system) option" where
  "security_fs_info_syscall_test disk s =
     (let failed = ''[InitraOS] SECURITY_FS_INFO_API_FAIL''; info = USER_STACK_BASE; path = USER_STACK_BASE + 0x100;
          (registered, mounted, v) = mount_test_filesystem disk (sy_vfs s); s = s\<lparr>sy_vfs := v\<rparr>;
          fail = (\<lambda>out registered mounted s. Some (on_vfs (test_cleanup (out @ [failed]) registered mounted) s));
          call = (\<lambda>s arg1 arg2. syscall_dispatcher inode_of s SYSCALL_SECURITY_FS_INFO arg1 arg2 0 0 0)
      in if \<not> mounted then fail [] registered mounted s
         else do {
           h \<leftarrow> store_bytes (sy_heap s) path [47, 0];
           (result, s) \<leftarrow> call (with_heap s h) path info;
           if result \<noteq> SECURITY_ALLOWED then fail [] registered mounted s
           else do {
             expected \<leftarrow> fs_info_expected (sy_heap s) info;
             if \<not> expected then fail [] registered mounted s
             else do {
               (result, s) \<leftarrow> call s path KERNEL_TEST_ADDRESS;
               if result \<noteq> SECURITY_DENIED then fail [] registered mounted s
               else do {
                 (result, s) \<leftarrow> call s KERNEL_TEST_ADDRESS info;
                 if result \<noteq> SECURITY_DENIED then fail [] registered mounted s
                 else
                   let out = [''[InitraOS] SECURITY_FS_INFO_API_OK''];
                       s = snd (on_vfs (\<lambda>v. vfs_set_caller_identity v 0 0) s);
                       (unmounted, s) = on_vfs (\<lambda>v. vfs_unmount v test_filesystem) s
                   in if \<not> unmounted then fail out registered mounted s
                      else let (unregistered, s) = on_vfs (\<lambda>v. filesystem_unregister v test_filesystem) s
                           in if \<not> unregistered then fail out registered False s else Some (out, s) } } } })"

definition root_info :: vfs_security_info_t where
  "root_info = \<lparr>vsi_inode_number = 1, vsi_type = 2, vsi_mode = INITRAFS_ROOT_MODE, vsi_owner = 0, vsi_group = 0, vsi_flags = 1\<rparr>"

definition mounted_result :: "bool \<times> bool \<times> u8 list option world vfs \<Rightarrow> bool" where
  "mounted_result r = (let (registered, mounted, v) = r
     in registered \<and> mounted \<and> vfs_get_security_info inode_of v (Some ''/'') True = Some root_info)"

definition leave_result :: "u8 list option world vfs \<Rightarrow> bool \<times> bool \<times> bool" where
  "leave_result v = (let (a, v) = vfs_unmount (snd (vfs_set_caller_identity v 0 0)) test_filesystem;
     (b, v) = filesystem_unregister v test_filesystem in (a, b, vfs_idle v))"

lemma mount_described: "mounted_result (mount_test_filesystem disk (vfs_boot (stack_world 0 u es) fa))" by code_simp
lemma mount_left: "leave_result (snd (snd (mount_test_filesystem disk (vfs_boot (stack_world 0 u es) fa)))) = (True, True, True)" by code_simp

lemma stack_path:
  assumes v: "security_user_buffer_valid (sy_heap s) USER_STACK_BASE n" and n: "n \<noteq> 0"
  obtains h where "store_bytes (sy_heap s) (USER_STACK_BASE + 0x100) [47, 0] = Some h" "user_path h (USER_STACK_BASE + 0x100) = Some ''/''"
    "\<And>b m. security_user_buffer_valid h b m = security_user_buffer_valid (sy_heap s) b m"
    "\<exists>m. h = (sy_heap s)\<lparr>hs_memory := m\<rparr>"
proof -
  let ?p = "USER_STACK_BASE + 0x100 :: u32"
  have e: "entry_at t (?p) = entry_at t USER_STACK_BASE" for t by (simp add: entry_at_def directory_index_def table_index_def)
  have d: "directory_index ?p = directory_index USER_STACK_BASE" by (simp add: directory_index_def)
  have f: "user_page_flags (sy_heap s) USER_STACK_BASE (PAGE_PRESENT OR PAGE_WRITABLE OR PAGE_USER)"
    using buffer_validE [OF v] by blast
  then have f': "user_page_flags (sy_heap s) ?p (PAGE_PRESENT OR PAGE_WRITABLE OR PAGE_USER)"
    unfolding user_page_flags_def e d by simp
  then have "security_user_buffer_valid (sy_heap s) ?p 2" by (simp add: security_user_buffer_valid_def)
  moreover have "length [47, 0 :: u8] = unat (2 :: u32)" by simp
  ultimately obtain s' where s': "write_user s ?p [47, 0] = Some (SECURITY_ALLOWED, s')" "user_write s ?p [47, 0] s'"
    by (rule write_user_spec)
  obtain h where h: "store_bytes (sy_heap s) ?p [47, 0] = Some h" "s' = with_heap s h"
    using s'(1) by (auto simp: write_user_def bind_eq_Some_conv)
  have hs: "sy_heap s' = h" by (simp add: h(2) with_heap_def)
  have l: "load_byte h ?p = Some 47" "load_byte h (?p + 1) = Some 0"
    using user_write_read [OF s'(2), of 0] user_write_read [OF s'(2), of 1] by (simp_all add: hs)
  have m: "\<exists>m. h = (sy_heap s)\<lparr>hs_memory := m\<rparr>" using s'(2) unfolding hs [symmetric] by (auto simp: user_write_def with_heap_def)
  then have b: "security_user_buffer_valid h b m = security_user_buffer_valid (sy_heap s) b m" for b m
    by (auto simp: security_user_buffer_valid_def user_page_flags_def)
  have g: "user_page_flags h ?p (PAGE_PRESENT OR PAGE_USER)"
  proof -
    have "x AND 7 = 7 \<Longrightarrow> x AND 5 = 5" for x :: u32
    proof -
      assume a: "x AND 7 = 7"
      have "x AND 5 = (x AND 7) AND 5" by (simp add: and.assoc)
      then show "x AND 5 = 5" by (simp add: a)
    qed
    then show ?thesis using f' m by (auto simp: user_page_flags_def Let_def split: if_splits)
  qed
  have ch: "char_of (47 :: nat) = CHR ''/''" by code_simp
  have "string_terminated h ?p (Suc (Suc k)) = Some True" "user_string h ?p (Suc (Suc k)) = Some ''/''" for k
    using l ch by simp_all
  from this [of 3838] have t: "string_terminated h ?p 3840 = Some True" "user_string h ?p 3840 = Some ''/''"
    by (simp_all add: eval_nat_numeral)
  then have "security_user_string_valid h ?p = Some True" using g by (simp add: security_user_string_valid_def)
  moreover have "user_string h ?p (unat USER_STACK_TOP - unat ?p) = Some ''/''" using t(2) by simp
    ultimately have "user_path h ?p = Some ''/''" by (simp only: user_path_def checked_def simp_thms if_True)
  then show ?thesis using that h(1) b m by blast
qed

lemma fs_info_words:
  assumes "user_write s a (fs_info_image i) s'"
  shows "load_u32 (sy_heap s') a = Some (vsi_inode_number i)" "load_u32 (sy_heap s') (a + 4) = Some (vsi_type i)"
    "load_u32 (sy_heap s') (a + 8) = Some (vsi_mode i)" "load_u32 (sy_heap s') (a + 12) = Some (vsi_owner i)"
    "load_u32 (sy_heap s') (a + 16) = Some (vsi_group i)"
proof -
  note W = user_write_word [OF assms [unfolded fs_info_image_def]]
  show "load_u32 (sy_heap s') a = Some (vsi_inode_number i)" "load_u32 (sy_heap s') (a + 4) = Some (vsi_type i)"
    "load_u32 (sy_heap s') (a + 8) = Some (vsi_mode i)" "load_u32 (sy_heap s') (a + 12) = Some (vsi_owner i)"
    "load_u32 (sy_heap s') (a + 16) = Some (vsi_group i)"
    using W [of 0] W [of 1] W [of 2] W [of 3] W [of 4] by simp_all
qed

lemma security_fs_info_syscall_test_ok:
  assumes b: "security_user_buffer_valid (sy_heap s) USER_STACK_BASE sizeof_fs_info" and ring: "ring_ok (sy_security s)"
    and w: "sy_vfs s = vfs_boot w fa" "instance_members (fw_instance w test_instance)" "in_mounted (fw_instance w test_instance) = 0"
  shows "\<exists>s'. security_fs_info_syscall_test disk s = Some ([''[InitraOS] SECURITY_FS_INFO_API_OK''], s') \<and> vfs_idle (sy_vfs s')"
proof -
  let ?p = "USER_STACK_BASE + 0x100 :: u32" and ?d = "syscall_dispatcher inode_of"
  have W: "vfs_boot w fa = vfs_boot (stack_world 0 w (st_entries (fw_store w) docs_address)) fa"
    using stack_world [OF w(2)] w(3) by simp
  obtain a c v where M: "mount_test_filesystem disk (vfs_boot w fa) = (a, c, v)" by (metis prod.exhaust)
  have m: "a" "c" "vfs_get_security_info inode_of v (Some ''/'') True = Some root_info"
    using mount_described [of disk w "st_entries (fw_store w) docs_address" fa] M unfolding W [symmetric]
    by (simp_all add: mounted_result_def)
  have l: "leave_result v = (True, True, True)"
    using mount_left [of disk w "st_entries (fw_store w) docs_address" fa] M unfolding W [symmetric] by simp
  obtain v1 v2 where V: "vfs_unmount (snd (vfs_set_caller_identity v 0 0)) test_filesystem = (True, v1)"
    "filesystem_unregister v1 test_filesystem = (True, v2)" "vfs_idle v2"
    using l by (auto simp: leave_result_def Let_def split: prod.splits)
  let ?s = "s\<lparr>sy_vfs := v\<rparr>"
  obtain h where H: "store_bytes (sy_heap ?s) ?p [47, 0] = Some h" "user_path h ?p = Some ''/''"
    "\<And>b m. security_user_buffer_valid h b m = security_user_buffer_valid (sy_heap ?s) b m" "\<exists>m. h = (sy_heap ?s)\<lparr>hs_memory := m\<rparr>"
    by (rule stack_path [of ?s sizeof_fs_info]) (use b in simp_all)
  let ?t = "with_heap ?s h"
  have t: "sy_heap ?t = h" "sy_vfs ?t = v" "sy_security ?t = sy_security s" by (simp_all add: with_heap_def)
  have bv: "security_user_buffer_valid h USER_STACK_BASE 24" unfolding H(3) using b by simp
  have "user_answer inode_of ?t SYSCALL_SECURITY_FS_INFO ?p USER_STACK_BASE 0 0 = Some (USER_STACK_BASE, fs_info_image root_info)"
    using bv H(2) m(3) by (simp add: user_answer_def t checked_def Let_def)
  then obtain s1 where A: "?d ?t SYSCALL_SECURITY_FS_INFO ?p USER_STACK_BASE 0 0 0 = Some (SECURITY_ALLOWED, s1)"
    "user_write ?t USER_STACK_BASE (fs_info_image root_info) s1"
    using dispatch_answered [of ?t SYSCALL_SECURITY_FS_INFO inode_of ?p USER_STACK_BASE 0 0 0] ring t(3)
    by (auto simp: answered_def reporting_def)
  have e: "fs_info_expected (sy_heap s1) USER_STACK_BASE = Some True"
    using fs_info_words [OF A(2)] by (simp add: fs_info_expected_def root_info_def)
  have s1: "ring_ok (sy_security s1)" "sy_vfs s1 = v" using stack_write_again [OF A(2)] ring t by simp_all
  have "\<not> security_user_buffer_valid (sy_heap s1) KERNEL_TEST_ADDRESS 24" by (simp add: security_user_buffer_valid_def)
  then have B: "?d s1 SYSCALL_SECURITY_FS_INFO ?p KERNEL_TEST_ADDRESS 0 0 0 = Some (SECURITY_DENIED, s1)"
    using dispatch_answered [OF s1(1), of SYSCALL_SECURITY_FS_INFO inode_of ?p KERNEL_TEST_ADDRESS 0 0 0]
    by (simp add: answered_def reporting_def user_answer_def checked_def Let_def)
  have "security_user_string_valid (sy_heap s1) KERNEL_TEST_ADDRESS = Some False" by (simp add: security_user_string_valid_def)
  then have C: "?d s1 SYSCALL_SECURITY_FS_INFO KERNEL_TEST_ADDRESS USER_STACK_BASE 0 0 0 = Some (SECURITY_DENIED, s1)"
    by (simp add: syscall_dispatcher_def syscall_fs_info_def)
  have "security_fs_info_syscall_test disk s = Some ([''[InitraOS] SECURITY_FS_INFO_API_OK''], s1\<lparr>sy_vfs := v2\<rparr>)"
    using M m(1,2) H(1) A(1) e B C V(1,2) s1(2)
    by (simp add: security_fs_info_syscall_test_def w(1) on_vfs_def Let_def split_beta del: store_bytes.simps USER_STACK_BASE_def KERNEL_TEST_ADDRESS_def SYSCALL_SECURITY_FS_INFO_def)
  then show ?thesis using V(3) by simp
qed

subsection \<open>Properties\<close>

text \<open>
  C21: the boot-time tests that mount InitraFS. The test of an instance passes
  whatever memory held. With nothing registered, the tests of directory listing, of
  removal and of the system call that describes a file pass, and leave nothing
  registered, mounted or open and the caller root, when the memory of the local
  instance does not say that it is mounted. When it does, which nothing in the code
  excludes, the mount is refused, the first of them fails, and it returns with its
  local file system still in the table of the VFS.
\<close>

theorem mounted_self_tests:
  assumes m: "instance_members (fw_instance w test_instance)"
    and l: "length (st_entries (fw_store w) docs_address) = 8" "length entries = 8"
  shows "initrafs_instance_test disk w = [''[InitraOS] INITRAFS_INSTANCE_OK''] \<and>
    (if in_mounted (fw_instance w test_instance) = 0
     then (\<exists>v. initrafs_vfs_directory_test disk entries (vfs_boot w fa) = ([''[InitraOS] INITRAFS_VFS_DIRECTORY_OK''], v) \<and> vfs_idle v) \<and>
       (\<exists>v. initrafs_vfs_rmdir_test disk (vfs_boot w fa) =
          ([''[InitraOS] INITRAFS_RMDIR_PERMISSION_OK'', ''[InitraOS] INITRAFS_VFS_RMDIR_OK''], v) \<and> vfs_idle v) \<and>
       (\<forall>s. sy_vfs s = vfs_boot w fa \<and> ring_ok (sy_security s) \<and>
          security_user_buffer_valid (sy_heap s) USER_STACK_BASE sizeof_fs_info \<longrightarrow>
          (\<exists>s'. security_fs_info_syscall_test disk s = Some ([''[InitraOS] SECURITY_FS_INFO_API_OK''], s') \<and> vfs_idle (sy_vfs s')))
     else \<exists>v. initrafs_vfs_directory_test disk entries (vfs_boot w fa) = ([''[InitraOS] INITRAFS_VFS_DIRECTORY_FAIL''], v) \<and>
       test_filesystem \<in> registered v)"
proof (cases "in_mounted (fw_instance w test_instance) = 0")
  case True
  then show ?thesis
    using initrafs_instance_test_ok [OF m] initrafs_vfs_directory_test_ok [OF m True l(2)] initrafs_vfs_rmdir_test_ok [OF m True l(1)]
      security_fs_info_syscall_test_ok [OF _ _ _ m True] by simp
next
  case False
  then show ?thesis using initrafs_instance_test_ok [OF m] directory_test_refused [OF False] by simp
qed

definition ex_stack_world :: "u8 list option world" where
  "ex_stack_world = ex_boot_world\<lparr>fw_store := (fw_store ex_boot_world)\<lparr>st_entries := \<lambda>_. replicate 8 zero_dirent\<rparr>\<rparr>"

definition ex_files :: "ptr \<Rightarrow> u8 list option world filesystem_t" where
  "ex_files = (\<lambda>_. the (initrafs_vfs_init True 1))"

definition ex_dirty_world :: "u8 list option world" where
  "ex_dirty_world = ex_stack_world\<lparr>fw_instance := (fw_instance ex_stack_world)
     (test_instance := (fw_instance ex_stack_world test_instance)\<lparr>in_mounted := 0xCC\<rparr>)\<rparr>"

theorem mounted_self_tests_witness:
  "initrafs_instance_test None ex_stack_world = [''[InitraOS] INITRAFS_INSTANCE_OK''] \<and>
   fst (initrafs_vfs_directory_test None (replicate 8 zero_dirent) (vfs_boot ex_stack_world ex_files)) =
     [''[InitraOS] INITRAFS_VFS_DIRECTORY_OK''] \<and>
   fst (initrafs_vfs_directory_test None (replicate 8 zero_dirent) (vfs_boot ex_dirty_world ex_files)) =
     [''[InitraOS] INITRAFS_VFS_DIRECTORY_FAIL'']"
proof -
  have w: "instance_members (fw_instance w test_instance)" "length (st_entries (fw_store w) docs_address) = 8"
    if "w \<in> {ex_stack_world, ex_dirty_world}" for w
    using that by (auto simp: instance_members_def ex_dirty_world_def ex_stack_world_def ex_boot_world_def)
  have "in_mounted (fw_instance ex_stack_world test_instance) = 0" "in_mounted (fw_instance ex_dirty_world test_instance) = 0xCC"
    by (simp_all add: ex_dirty_world_def ex_stack_world_def ex_boot_world_def)
  then show ?thesis
    using mounted_self_tests [OF w, of ex_stack_world "replicate 8 zero_dirent" None ex_files]
      mounted_self_tests [OF w, of ex_dirty_world "replicate 8 zero_dirent" None ex_files] by auto
qed

end
