(* ===== verification/Process_Self_Tests.thy ===== *)
theory Process_Self_Tests
  imports Task_Properties
begin

section \<open>The self-tests of address spaces and processes\<close>

text \<open>
  The tests of \<open>kernel.c\<close> that create address spaces and processes in the kernel heap,
  look at them and release them. A test returns the lines it prints and the kernel it
  leaves; \<open>hex\<close> is what \<open>c_serial_print_hex\<close> prints of a number. A creation may fail
  for want of memory, so the lemmas say what each test prints in either case and what
  it leaves in use.
\<close>

subsection \<open>Address spaces\<close>

text \<open>The address space at an address, as the page functions see it, and their writes to it.\<close>

definition space_view :: "kernel_state \<Rightarrow> u32 \<Rightarrow> process_address_space_t option" where
  "space_view s a =
     (let sp = ks_spaces s a; directory = ha_page_directory sp; tables = ha_page_tables sp
      in if a = 0 then None
         else Some \<lparr>as_page_directory = (if directory = 0 then None else Some (ks_directories s directory)),
                    as_page_tables = (if tables = 0 then None else Some (ks_tables s tables)),
                    as_page_table_count = ha_page_table_count sp\<rparr>)"

definition write_space :: "kernel_state \<Rightarrow> u32 \<Rightarrow> process_address_space_t option \<Rightarrow> kernel_state" where
  "write_space s a as =
     (case Option.bind as as_page_tables of
        None \<Rightarrow> s
      | Some tables \<Rightarrow> s\<lparr>ks_tables := (ks_tables s)(ha_page_tables (ks_spaces s a) := tables)\<rparr>)"

definition map_in_space :: "kernel_state \<Rightarrow> u32 \<Rightarrow> u32 \<Rightarrow> u32 \<Rightarrow> u32 \<Rightarrow> bool \<times> kernel_state" where
  "map_in_space s a va pa flags =
     (let (ok, as) = page_map_in_address_space (space_view s a) va pa flags in (ok, write_space s a as))"

definition unmap_in_space :: "kernel_state \<Rightarrow> u32 \<Rightarrow> u32 \<Rightarrow> bool \<times> kernel_state" where
  "unmap_in_space s a va =
     (let (ok, as) = page_unmap_in_address_space (space_view s a) va in (ok, write_space s a as))"

definition physical_in_space :: "kernel_state \<Rightarrow> u32 \<Rightarrow> u32 \<Rightarrow> u32" where
  "physical_in_space s a va = page_get_physical_in_address_space (space_view s a) va"

definition free_space :: "kernel_state \<Rightarrow> u32 \<Rightarrow> kernel_state option" where
  "free_space s a =
     do {
       s \<leftarrow> kernel_free s (ha_page_tables (ks_spaces s a));
       s \<leftarrow> kernel_free s (ha_page_directory (ks_spaces s a));
       kernel_free s a }"

definition address_space_create_test :: "(u32 \<Rightarrow> string) \<Rightarrow> kernel_state \<Rightarrow> (string list \<times> kernel_state) option" where
  "address_space_create_test hex s =
     do {
       (address_space, s) \<leftarrow> address_space_create s;
       let out = [''[InitraOS] ADDRESS_SPACE_CREATE_START''];
       if address_space = 0 then Some (out @ [''[InitraOS] ADDRESS_SPACE_CREATE_FAIL_ALLOC''], s)
       else
         let out = out @ [''[InitraOS] ADDRESS_SPACE_CREATE_ALLOC_OK'']; sp = ks_spaces s address_space;
             directory = ks_directories s (ha_page_directory sp); tables = ks_tables s (ha_page_tables sp);
             table_address = (\<lambda>table. ha_page_tables sp + of_nat table * 0x1000);
             expected = (\<lambda>table. (table_address table AND 0xFFFFF000) OR PAGE_PRESENT OR PAGE_WRITABLE)
         in if ha_page_directory sp = 0 \<or> ha_page_tables sp = 0 \<or> ha_page_table_count sp \<noteq> PAGE_TABLE_COUNT
            then Some (out @ [''[InitraOS] ADDRESS_SPACE_CREATE_FAIL_META''], s)
            else
              let out = out @ [''[InitraOS] ADDRESS_SPACE_CREATE_META_OK'']
              in case find (\<lambda>table. directory ! table \<noteq> expected table) [0..<unat PAGE_TABLE_COUNT] of
                   Some table \<Rightarrow> Some (out @ [''[InitraOS] ADDRESS_SPACE_CREATE_FAIL_DIRECTORY'',
                     hex (table_address table) @ hex (directory ! table) @ hex (expected table)], s)
                 | None \<Rightarrow>
                     let out = out @ [''[InitraOS] ADDRESS_SPACE_CREATE_DIRECTORY_OK'']
                     in if list_ex (\<lambda>table. tables ! table ! 0 \<noteq> 0) [0..<unat PAGE_TABLE_COUNT]
                        then Some (out @ [''[InitraOS] ADDRESS_SPACE_CREATE_FAIL_TABLES''], s)
                        else do {
                          s \<leftarrow> free_space s address_space;
                          Some (out @ [''[InitraOS] ADDRESS_SPACE_CREATE_TABLES_OK'', ''[InitraOS] ADDRESS_SPACE_CREATE_OK''], s) } }"

definition process_isolation_test :: "kernel_state \<Rightarrow> (string list \<times> kernel_state) option" where
  "process_isolation_test s =
     (let test_virtual = 0x00400000; frame_a = 0x00200000; frame_b = 0x00201000;
          flags = PAGE_PRESENT OR PAGE_WRITABLE OR PAGE_USER; failed = ''[InitraOS] PROCESS_ISOLATION_FAIL'';
          tables_ok = ''[InitraOS] PROCESS_ISOLATION_TABLES_OK''; mapping_ok = ''[InitraOS] PROCESS_ISOLATION_MAPPING_OK''
      in do {
        (space_a, s) \<leftarrow> address_space_create s;
        (space_b, s) \<leftarrow> address_space_create s;
        if space_a = 0 \<or> space_b = 0 then Some ([failed], s)
        else if ha_page_directory (ks_spaces s space_a) = ha_page_directory (ks_spaces s space_b) \<or>
                ha_page_tables (ks_spaces s space_a) = ha_page_tables (ks_spaces s space_b) then Some ([failed], s)
        else let (mapped, s) = map_in_space s space_a test_virtual frame_a flags
        in if \<not> mapped then Some ([tables_ok, failed], s)
        else let (mapped, s) = map_in_space s space_b test_virtual frame_b flags
        in if \<not> mapped then Some ([tables_ok, failed], s)
        else if physical_in_space s space_a test_virtual \<noteq> frame_a then Some ([tables_ok, failed], s)
        else if physical_in_space s space_b test_virtual \<noteq> frame_b then Some ([tables_ok, failed], s)
        else if frame_a = frame_b then Some ([tables_ok, failed], s)
        else let (unmapped, s) = unmap_in_space s space_a test_virtual
        in if \<not> unmapped then Some ([tables_ok, mapping_ok, failed], s)
        else if physical_in_space s space_a test_virtual \<noteq> 0 then Some ([tables_ok, mapping_ok, failed], s)
        else if physical_in_space s space_b test_virtual \<noteq> frame_b then Some ([tables_ok, mapping_ok, failed], s)
        else do {
          s \<leftarrow> free_space s space_a;
          s \<leftarrow> free_space s space_b;
          Some ([tables_ok, mapping_ok, ''[InitraOS] PROCESS_ISOLATION_UNMAP_OK'', ''[InitraOS] PROCESS_ISOLATION_OK''], s) } })"

definition process_permission_isolation_test :: "kernel_state \<Rightarrow> (string list \<times> kernel_state) option" where
  "process_permission_isolation_test s =
     (let user_virtual = 0x00400000; kernel_virtual = 0x00401000;
          user_frame_a = 0x00200000; user_frame_b = 0x00201000; kernel_frame_a = 0x00202000; kernel_frame_b = 0x00203000;
          user = PAGE_PRESENT OR PAGE_WRITABLE OR PAGE_USER; kernel = PAGE_PRESENT OR PAGE_WRITABLE;
          failed = [''[InitraOS] PROCESS_PERMISSION_ISOLATION_FAIL'']
      in do {
        (space_a, s) \<leftarrow> address_space_create s;
        (space_b, s) \<leftarrow> address_space_create s;
        if space_a = 0 \<or> space_b = 0 then Some (failed, s)
        else let (mapped, s) = map_in_space s space_a user_virtual user_frame_a user in if \<not> mapped then Some (failed, s)
        else let (mapped, s) = map_in_space s space_b user_virtual user_frame_b user in if \<not> mapped then Some (failed, s)
        else let (mapped, s) = map_in_space s space_a kernel_virtual kernel_frame_a kernel in if \<not> mapped then Some (failed, s)
        else let (mapped, s) = map_in_space s space_b kernel_virtual kernel_frame_b kernel in if \<not> mapped then Some (failed, s)
        else
          let user_index = unat (drop_bit 12 user_virtual AND 0x3FF :: u32);
              kernel_index = unat (drop_bit 12 kernel_virtual AND 0x3FF :: u32);
              tables_a = ks_tables s (ha_page_tables (ks_spaces s space_a));
              tables_b = ks_tables s (ha_page_tables (ks_spaces s space_b));
              user_entry_a = tables_a ! 1 ! user_index; user_entry_b = tables_b ! 1 ! user_index;
              kernel_entry_a = tables_a ! 1 ! kernel_index; kernel_entry_b = tables_b ! 1 ! kernel_index
          in if user_entry_a AND PAGE_USER = 0 \<or> user_entry_b AND PAGE_USER = 0 then Some (failed, s)
             else if kernel_entry_a AND PAGE_USER \<noteq> 0 \<or> kernel_entry_b AND PAGE_USER \<noteq> 0 then Some (failed, s)
             else if user_entry_a AND 0xFFFFF000 \<noteq> user_frame_a \<or> user_entry_b AND 0xFFFFF000 \<noteq> user_frame_b then Some (failed, s)
             else if kernel_entry_a AND 0xFFFFF000 \<noteq> kernel_frame_a \<or> kernel_entry_b AND 0xFFFFF000 \<noteq> kernel_frame_b
             then Some (failed, s)
             else do {
               s \<leftarrow> free_space s space_a;
               s \<leftarrow> free_space s space_b;
               Some ([''[InitraOS] PROCESS_PERMISSION_ISOLATION_OK''], s) } })"

subsection \<open>Processes\<close>

definition process_create_test :: "kernel_state \<Rightarrow> (string list \<times> kernel_state) option" where
  "process_create_test s =
     do {
       (process, s) \<leftarrow> process_create s;
       let out = [''[InitraOS] PROCESS_CREATE_START''];
       if process = 0 then Some (out @ [''[InitraOS] PROCESS_CREATE_FAIL_ALLOC''], s)
       else
         let p = ks_processes s process; sp = ks_spaces s (pr_address_space p); t = ks_tasks s (pr_task p);
             destroy = (\<lambda>out. do { s \<leftarrow> process_destroy s process; Some (out, s) })
         in if pr_pid p = 0 then destroy (out @ [''[InitraOS] PROCESS_CREATE_FAIL_PID''])
         else let out = out @ [''[InitraOS] PROCESS_CREATE_PID_OK'']
         in if pr_state p \<noteq> TASK_READY \<or> pr_privilege p \<noteq> TASK_USER
         then destroy (out @ [''[InitraOS] PROCESS_CREATE_FAIL_STATE''])
         else let out = out @ [''[InitraOS] PROCESS_CREATE_STATE_OK'']
         in if pr_uid p \<noteq> INITRAOS_DEFAULT_UID \<or> pr_gid p \<noteq> INITRAOS_DEFAULT_GID
         then destroy (out @ [''[InitraOS] PROCESS_CREATE_FAIL_IDENTITY''])
         else let out = out @ [''[InitraOS] PROCESS_CREATE_IDENTITY_OK'']
         in if pr_address_space p = 0 then destroy (out @ [''[InitraOS] PROCESS_CREATE_FAIL_ADDRESS_SPACE''])
         else if ha_page_directory sp = 0 \<or> ha_page_tables sp = 0 \<or> ha_page_table_count sp \<noteq> PAGE_TABLE_COUNT
         then destroy (out @ [''[InitraOS] PROCESS_CREATE_FAIL_ADDRESS_SPACE_META''])
         else let out = out @ [''[InitraOS] PROCESS_CREATE_ADDRESS_SPACE_OK'']
         in if pr_task p = 0 then destroy (out @ [''[InitraOS] PROCESS_CREATE_FAIL_TASK''])
         else if tk_process t \<noteq> process then destroy (out @ [''[InitraOS] PROCESS_CREATE_FAIL_TASK_LINK''])
         else if tk_privilege t \<noteq> TASK_USER \<or> tk_state t \<noteq> TASK_READY
         then destroy (out @ [''[InitraOS] PROCESS_CREATE_FAIL_TASK_STATE''])
         else destroy (out @ [''[InitraOS] PROCESS_CREATE_TASK_OK'', ''[InitraOS] PROCESS_CREATE_OK'']) }"

definition process_instance_isolation_test :: "kernel_state \<Rightarrow> (string list \<times> kernel_state) option" where
  "process_instance_isolation_test s =
     (let start = ''[InitraOS] PROCESS_INSTANCE_ISOLATION_START''; failed = ''[InitraOS] PROCESS_INSTANCE_ISOLATION_FAIL'';
          process_ok = ''[InitraOS] PROCESS_INSTANCE_ISOLATION_PROCESS_OK''
      in do {
        (process_a, s) \<leftarrow> process_create s;
        (process_b, s) \<leftarrow> process_create s;
        let a = ks_processes s process_a;
        let b = ks_processes s process_b;
        let sa = ks_spaces s (pr_address_space a);
        let sb = ks_spaces s (pr_address_space b);
        if process_a = 0 \<or> process_b = 0 then Some ([start, failed], s)
        else if pr_address_space a = 0 \<or> pr_address_space b = 0 then Some ([start, failed], s)
        else if pr_address_space a = pr_address_space b then Some ([start, failed], s)
        else if ha_page_directory sa = ha_page_directory sb then Some ([start, failed], s)
        else if ha_page_tables sa = ha_page_tables sb then Some ([start, failed], s)
        else if pr_task a = 0 \<or> pr_task b = 0 then Some ([start, process_ok, failed], s)
        else if pr_task a = pr_task b then Some ([start, process_ok, failed], s)
        else do {
          s \<leftarrow> free_space s (pr_address_space (ks_processes s process_a));
          s \<leftarrow> kernel_free s process_a;
          s \<leftarrow> free_space s (pr_address_space (ks_processes s process_b));
          s \<leftarrow> kernel_free s process_b;
          Some ([start, process_ok, ''[InitraOS] PROCESS_INSTANCE_ISOLATION_TASK_OK'',
                 ''[InitraOS] PROCESS_INSTANCE_ISOLATION_OK''], s) } })"

definition process_task_link_test :: "kernel_state \<Rightarrow> (string list \<times> kernel_state) option" where
  "process_task_link_test s =
     do {
       (process, s) \<leftarrow> process_create s;
       let out = [''[InitraOS] PROCESS_TASK_LINK_START''];
       let p = ks_processes s process;
       let destroy = (\<lambda>line. do { s \<leftarrow> process_destroy s process; Some (out @ [line], s) });
       if process = 0 then Some (out @ [''[InitraOS] PROCESS_TASK_LINK_FAIL_PROCESS''], s)
       else if pr_task p = 0 then destroy ''[InitraOS] PROCESS_TASK_LINK_FAIL_TASK''
       else if tk_process (ks_tasks s (pr_task p)) \<noteq> process then destroy ''[InitraOS] PROCESS_TASK_LINK_FAIL_LINK''
       else if pr_pid p = 0 then destroy ''[InitraOS] PROCESS_TASK_LINK_FAIL_PID''
       else destroy ''[InitraOS] PROCESS_TASK_LINK_OK'' }"

subsection \<open>What the operations on address spaces do\<close>

lemma restricted_le: "m |` A = n \<Longrightarrow> n \<subseteq>\<^sub>m m"
  by (auto simp: map_le_def restrict_map_def split: if_splits)

lemma map_le_restrict: "m \<subseteq>\<^sub>m n \<Longrightarrow> X \<inter> dom m = {} \<Longrightarrow> m \<subseteq>\<^sub>m n |` (- X)"
  by (auto simp: map_le_def restrict_map_def dom_def split: if_splits)

lemma process_part_kernel_ok:
  assumes k: "kernel_ok s xs" and t: "task_part s' = task_part s" and h: "kernel_heap_ok (ks_heap s')"
    and b: "live_blocks (ks_heap s) \<subseteq>\<^sub>m live_blocks (ks_heap s')"
  shows "kernel_ok s' xs"
proof -
  have "set xs \<subseteq> dom (live_blocks (ks_heap s'))"
    using k by (intro subset_trans [OF _ map_le_implies_dom_le [OF b]]) (simp add: kernel_ok_def kernel_tasks_def)
  moreover have "task_chain s' xs" using k t by (simp add: kernel_ok_def kernel_tasks_def task_chain_def task_part_def)
  ultimately show ?thesis using k t h by (simp add: kernel_ok_def kernel_tasks_def task_part_def)
qed

lemma address_space_create_frame:
  assumes "address_space_create s = Some (r, s')" "r \<noteq> 0"
  shows "x \<noteq> r \<Longrightarrow> ks_spaces s' x = ks_spaces s x"
    and "x \<noteq> ha_page_tables (ks_spaces s' r) \<Longrightarrow> ks_tables s' x = ks_tables s x"
    and "x \<noteq> ha_page_directory (ks_spaces s' r) \<Longrightarrow> ks_directories s' x = ks_directories s x"
  using assms by (auto simp: address_space_create_def kernel_alloc_def kernel_alloc_aligned_def kernel_free_def
      bind_eq_Some_conv Let_def split: if_splits)

lemma free_space_spec:
  assumes ok: "kernel_heap_ok (ks_heap s)"
  obtains h where "free_space s a = Some (s\<lparr>ks_heap := h\<rparr>)" "kernel_heap_ok h"
    "live_blocks h = live_blocks (ks_heap s) |` (- {ha_page_tables (ks_spaces s a), ha_page_directory (ks_spaces s a), a})"
proof -
  let ?t = "ha_page_tables (ks_spaces s a)" and ?d = "ha_page_directory (ks_spaces s a)"
  obtain h1 where 1: "kernel_free s ?t = Some (s\<lparr>ks_heap := h1\<rparr>)" "kernel_heap_ok h1"
    "live_blocks h1 = (live_blocks (ks_heap s))(?t := None)" by (rule kernel_blocks.kernel_free_law [OF ok])
  have "kernel_heap_ok (ks_heap (s\<lparr>ks_heap := h1\<rparr>))" using 1(2) by simp
  then obtain h2 where 2: "kernel_free (s\<lparr>ks_heap := h1\<rparr>) ?d = Some (s\<lparr>ks_heap := h2\<rparr>)" "kernel_heap_ok h2"
    "live_blocks h2 = (live_blocks h1)(?d := None)" by (rule kernel_blocks.kernel_free_law) simp
  have "kernel_heap_ok (ks_heap (s\<lparr>ks_heap := h2\<rparr>))" using 2(2) by simp
  then obtain h3 where 3: "kernel_free (s\<lparr>ks_heap := h2\<rparr>) a = Some (s\<lparr>ks_heap := h3\<rparr>)" "kernel_heap_ok h3"
    "live_blocks h3 = (live_blocks h2)(a := None)" by (rule kernel_blocks.kernel_free_law) simp
  have "live_blocks h3 = live_blocks (ks_heap s) |` (- {?t, ?d, a})"
    unfolding 3(3) 2(3) 1(3) by (auto simp: restrict_map_def fun_eq_iff)
  moreover have "free_space s a = Some (s\<lparr>ks_heap := h3\<rparr>)" by (simp add: free_space_def 1(1) 2(1) 3(1))
  ultimately show ?thesis using 3(2) by (intro that [of h3])
qed

text \<open>The blocks of an address space, and one just created.\<close>

definition space_blocks :: "kernel_state \<Rightarrow> u32 \<Rightarrow> u32 set" where
  "space_blocks s a = {a, ha_page_directory (ks_spaces s a), ha_page_tables (ks_spaces s a)}"

definition new_space :: "kernel_state \<Rightarrow> u32 \<Rightarrow> kernel_state \<Rightarrow> bool" where
  "new_space s a s' \<longleftrightarrow> fresh_space s' a \<and>
     distinct [0, a, ha_page_directory (ks_spaces s' a), ha_page_tables (ks_spaces s' a)] \<and>
     space_blocks s' a \<inter> dom (live_blocks (ks_heap s)) = {} \<and> space_blocks s' a \<subseteq> dom (live_blocks (ks_heap s')) \<and>
     live_blocks (ks_heap s') |` (- space_blocks s' a) = live_blocks (ks_heap s)"

lemma space_created:
  assumes k: "kernel_ok s xs" and pg: "hs_paging (ks_heap s) \<noteq> 0"
  obtains a s' where "address_space_create s = Some (a, s')" "task_part s' = task_part s" "kernel_ok s' xs"
    "hs_paging (ks_heap s') \<noteq> 0" "live_blocks (ks_heap s) \<subseteq>\<^sub>m live_blocks (ks_heap s')"
    "if a = 0 then live_blocks (ks_heap s') = live_blocks (ks_heap s) else new_space s a s'"
proof -
  have ok: "kernel_heap_ok (ks_heap s)" using k by (simp add: kernel_ok_def kernel_tasks_def)
  let ?B = "live_blocks (ks_heap s)"
  obtain a s' where S: "address_space_create s = Some (a, s')" "task_part s' = task_part s" "kernel_heap_ok (ks_heap s')"
    "hs_paging (ks_heap s') = hs_paging (ks_heap s)"
    "(a = 0 \<and> live_blocks (ks_heap s') = ?B) \<or>
     (a \<noteq> 0 \<and> fresh_space s' a \<and> (\<exists>d t m k j. ks_spaces s' a = \<lparr>ha_page_directory = d, ha_page_tables = t, ha_page_table_count = PAGE_TABLE_COUNT\<rparr> \<and>
        distinct [0, a, d, t] \<and> (\<forall>x \<in> {a, d, t}. ?B x = None) \<and> 12 \<le> m \<and> 4096 \<le> k \<and> 16384 \<le> j \<and>
        live_blocks (ks_heap s') = ?B(a \<mapsto> m, d \<mapsto> k, t \<mapsto> j)))"
    by (rule kernel_blocks.address_space_create_spec [OF ok pg])
  have n: "if a = 0 then live_blocks (ks_heap s') = ?B else new_space s a s'"
  proof (cases "a = 0")
    case False
    then obtain d t m k j where x: "fresh_space s' a"
      "ks_spaces s' a = \<lparr>ha_page_directory = d, ha_page_tables = t, ha_page_table_count = PAGE_TABLE_COUNT\<rparr>"
      "distinct [0, a, d, t]" "\<forall>x \<in> {a, d, t}. ?B x = None" "live_blocks (ks_heap s') = ?B(a \<mapsto> m, d \<mapsto> k, t \<mapsto> j)"
      using S(5) by blast
    have "live_blocks (ks_heap s') |` (- {a, d, t}) = ?B"
      by (rule restrict_added) (use x(4,5) in auto)
    then show ?thesis using False x by (auto simp: new_space_def space_blocks_def)
  qed (use S(5) in simp)
  have le: "?B \<subseteq>\<^sub>m live_blocks (ks_heap s')"
    using n by (cases "a = 0") (simp_all add: new_space_def restricted_le [where A = "- space_blocks s' a"])
  show ?thesis by (rule that [OF S(1,2) process_part_kernel_ok [OF k S(2,3) le] _ le n]) (use S(4) pg in simp)
qed

text \<open>A test of one address space succeeds exactly when there is memory for it.\<close>

lemma fresh_space_entries:
  assumes "fresh_space s a" and "i < 4"
  shows "ks_directories s (ha_page_directory (ks_spaces s a)) ! i =
      ((ha_page_tables (ks_spaces s a) + of_nat i * 0x1000) AND 0xFFFFF000) OR PAGE_PRESENT OR PAGE_WRITABLE"
    and "ks_tables s (ha_page_tables (ks_spaces s a)) ! i ! 0 = 0"
proof -
  let ?t = "ha_page_tables (ks_spaces s a)"
  have t: "unat ?t mod 4096 = 0" using assms(1) by (simp add: fresh_space_def Let_def)
  have a: "(?t + of_nat i * 0x1000) AND 0xFFFFF000 = ?t + of_nat i * 0x1000"
  proof (rule frame_aligned)
    have "unat (of_nat i * 0x1000 :: u32) = i * 4096" using assms(2) by (simp add: unat_word_ariths unat_of_nat)
    then have "unat (?t + of_nat i * 0x1000) mod 4096 = (unat ?t + i * 4096) mod 4096"
      by (simp add: unat_word_ariths mod_mod_cancel)
    then show "unat (?t + of_nat i * 0x1000) mod 4096 = 0" using t by simp
  qed
  show "ks_directories s (ha_page_directory (ks_spaces s a)) ! i =
      ((?t + of_nat i * 0x1000) AND 0xFFFFF000) OR PAGE_PRESENT OR PAGE_WRITABLE"
    unfolding a using assms by (simp add: fresh_space_def Let_def nth_append del: upt_Suc upt.simps)
  show "ks_tables s ?t ! i ! 0 = 0" using assms by (simp add: fresh_space_def Let_def del: replicate_Suc)
qed

lemma address_space_create_test_ok:
  assumes k: "kernel_ok s xs" and pg: "hs_paging (ks_heap s) \<noteq> 0"
  shows "\<exists>a s1 s'. address_space_create s = Some (a, s1) \<and>
    address_space_create_test hex s = Some (''[InitraOS] ADDRESS_SPACE_CREATE_START'' #
      (if a = 0 then [''[InitraOS] ADDRESS_SPACE_CREATE_FAIL_ALLOC'']
       else [''[InitraOS] ADDRESS_SPACE_CREATE_ALLOC_OK'', ''[InitraOS] ADDRESS_SPACE_CREATE_META_OK'',
             ''[InitraOS] ADDRESS_SPACE_CREATE_DIRECTORY_OK'', ''[InitraOS] ADDRESS_SPACE_CREATE_TABLES_OK'',
             ''[InitraOS] ADDRESS_SPACE_CREATE_OK'']), s') \<and>
    kernel_ok s' xs \<and> live_blocks (ks_heap s') = live_blocks (ks_heap s)"
proof -
  obtain a s1 where S: "address_space_create s = Some (a, s1)" "task_part s1 = task_part s" "kernel_ok s1 xs"
    "hs_paging (ks_heap s1) \<noteq> 0" "live_blocks (ks_heap s) \<subseteq>\<^sub>m live_blocks (ks_heap s1)"
    "if a = 0 then live_blocks (ks_heap s1) = live_blocks (ks_heap s) else new_space s a s1"
    by (rule space_created [OF k pg])
  show ?thesis
  proof (cases "a = 0")
    case True
    then show ?thesis using S by (simp add: address_space_create_test_def)
  next
    case False
    then have n: "new_space s a s1" using S(6) by simp
    then have f: "fresh_space s1 a" and nz: "ha_page_directory (ks_spaces s1 a) \<noteq> 0" "ha_page_tables (ks_spaces s1 a) \<noteq> 0"
      by (simp_all add: new_space_def)
    have c: "ha_page_table_count (ks_spaces s1 a) = PAGE_TABLE_COUNT" using f by (simp add: fresh_space_def Let_def)
    have fn: "find (\<lambda>i. ks_directories s1 (ha_page_directory (ks_spaces s1 a)) ! i \<noteq>
        ((ha_page_tables (ks_spaces s1 a) + of_nat i * 0x1000) AND 0xFFFFF000) OR PAGE_PRESENT OR PAGE_WRITABLE) [0..<unat PAGE_TABLE_COUNT] = None"
      using fresh_space_entries(1) [OF f] unfolding find_None_iff by auto
    have le: "\<not> list_ex (\<lambda>i. ks_tables s1 (ha_page_tables (ks_spaces s1 a)) ! i ! 0 \<noteq> 0) [0..<unat PAGE_TABLE_COUNT]"
      using fresh_space_entries(2) [OF f] by (auto simp: list_ex_iff)
    have ok: "kernel_heap_ok (ks_heap s1)" using S(3) by (simp add: kernel_ok_def kernel_tasks_def)
    obtain h where F: "free_space s1 a = Some (s1\<lparr>ks_heap := h\<rparr>)" "kernel_heap_ok h"
      "live_blocks h = live_blocks (ks_heap s1) |` (- {ha_page_tables (ks_spaces s1 a), ha_page_directory (ks_spaces s1 a), a})"
      by (rule free_space_spec [OF ok])
    have b: "live_blocks h = live_blocks (ks_heap s)"
      using n by (simp add: F(3) new_space_def space_blocks_def insert_commute)
    have "kernel_ok (s1\<lparr>ks_heap := h\<rparr>) xs"
      by (rule process_part_kernel_ok [OF k]) (use S(2) F(2) b in simp_all)
    moreover have "address_space_create_test hex s = Some (''[InitraOS] ADDRESS_SPACE_CREATE_START'' #
      [''[InitraOS] ADDRESS_SPACE_CREATE_ALLOC_OK'', ''[InitraOS] ADDRESS_SPACE_CREATE_META_OK'',
       ''[InitraOS] ADDRESS_SPACE_CREATE_DIRECTORY_OK'', ''[InitraOS] ADDRESS_SPACE_CREATE_TABLES_OK'',
       ''[InitraOS] ADDRESS_SPACE_CREATE_OK''], s1\<lparr>ks_heap := h\<rparr>)"
      unfolding address_space_create_test_def S(1) bind.bind_lunit prod.case Let_def if_not_P [OF False]
      using nz c fn le F(1) False by (simp del: upt_Suc upt.simps PAGE_TABLE_COUNT_def PAGE_PRESENT_def PAGE_WRITABLE_def)
    ultimately show ?thesis using S(1) False b by (intro exI [of _ a] exI [of _ s1] exI [of _ "s1\<lparr>ks_heap := h\<rparr>"]) simp
  qed
qed

text \<open>Two address spaces have separate tables; a page of one is changed in its tables alone.\<close>

lemma two_spaces:
  assumes k: "kernel_ok s xs" and pg: "hs_paging (ks_heap s) \<noteq> 0"
  obtains a s1 b s2 where "address_space_create s = Some (a, s1)" "address_space_create s1 = Some (b, s2)" "kernel_ok s2 xs"
    "task_part s2 = task_part s" "live_blocks (ks_heap s) \<subseteq>\<^sub>m live_blocks (ks_heap s2)"
    "a \<noteq> 0 \<and> b \<noteq> 0 \<longrightarrow> fresh_space s2 a \<and> fresh_space s2 b \<and>
       0 \<notin> space_blocks s2 a \<and> 0 \<notin> space_blocks s2 b \<and> space_blocks s2 a \<inter> space_blocks s2 b = {} \<and>
       live_blocks (ks_heap s2) |` (- (space_blocks s2 a \<union> space_blocks s2 b)) = live_blocks (ks_heap s)"
proof -
  obtain a s1 where A: "address_space_create s = Some (a, s1)" "task_part s1 = task_part s" "kernel_ok s1 xs"
    "hs_paging (ks_heap s1) \<noteq> 0" "live_blocks (ks_heap s) \<subseteq>\<^sub>m live_blocks (ks_heap s1)"
    "if a = 0 then live_blocks (ks_heap s1) = live_blocks (ks_heap s) else new_space s a s1"
    by (rule space_created [OF k pg])
  obtain b s2 where B: "address_space_create s1 = Some (b, s2)" "task_part s2 = task_part s1" "kernel_ok s2 xs"
    "hs_paging (ks_heap s2) \<noteq> 0" "live_blocks (ks_heap s1) \<subseteq>\<^sub>m live_blocks (ks_heap s2)"
    "if b = 0 then live_blocks (ks_heap s2) = live_blocks (ks_heap s1) else new_space s1 b s2"
    by (rule space_created [OF A(3,4)])
  have "fresh_space s2 a \<and> fresh_space s2 b \<and>
       0 \<notin> space_blocks s2 a \<and> 0 \<notin> space_blocks s2 b \<and> space_blocks s2 a \<inter> space_blocks s2 b = {} \<and>
       live_blocks (ks_heap s2) |` (- (space_blocks s2 a \<union> space_blocks s2 b)) = live_blocks (ks_heap s)"
    if "a \<noteq> 0 \<and> b \<noteq> 0"
  proof -
    have n: "new_space s a s1" "new_space s1 b s2" using A(6) B(6) that by simp_all
    have d: "space_blocks s1 a \<inter> space_blocks s2 b = {}" using n unfolding new_space_def by blast
    then have "a \<noteq> b" "ha_page_tables (ks_spaces s1 a) \<noteq> ha_page_tables (ks_spaces s2 b)"
      "ha_page_directory (ks_spaces s1 a) \<noteq> ha_page_directory (ks_spaces s2 b)" by (auto simp: space_blocks_def)
    note fr = address_space_create_frame [OF B(1)]
    have sp: "ks_spaces s2 a = ks_spaces s1 a" "ks_tables s2 (ha_page_tables (ks_spaces s1 a)) = ks_tables s1 (ha_page_tables (ks_spaces s1 a))"
      "ks_directories s2 (ha_page_directory (ks_spaces s1 a)) = ks_directories s1 (ha_page_directory (ks_spaces s1 a))"
      using fr that \<open>a \<noteq> b\<close> \<open>ha_page_tables (ks_spaces s1 a) \<noteq> ha_page_tables (ks_spaces s2 b)\<close>
        \<open>ha_page_directory (ks_spaces s1 a) \<noteq> ha_page_directory (ks_spaces s2 b)\<close> by simp_all
    have e: "space_blocks s2 a = space_blocks s1 a" by (simp add: space_blocks_def sp(1))
    have "live_blocks (ks_heap s2) |` (- (space_blocks s1 a \<union> space_blocks s2 b)) =
        (live_blocks (ks_heap s2) |` (- space_blocks s2 b)) |` (- space_blocks s1 a)"
      unfolding restrict_restrict by (rule arg_cong [where f = "\<lambda>A. live_blocks (ks_heap s2) |` A"]) blast
    also have "\<dots> = live_blocks (ks_heap s)" using n by (simp add: new_space_def)
    finally show ?thesis using n d unfolding e by (auto simp: new_space_def space_blocks_def fresh_space_def sp Let_def)
  qed
  then show ?thesis using that [OF A(1) B(1,3) _ map_le_trans [OF A(5) B(5)]] A(2) B(2) by simp
qed

lemma space_access:
  assumes "a \<noteq> 0" "t \<noteq> 0" "ha_page_tables (ks_spaces s a) = t" "ha_page_table_count (ks_spaces s a) = PAGE_TABLE_COUNT"
    and "directory_index va < PAGE_TABLE_COUNT"
  shows "map_in_space s a va pa fl =
      (True, s\<lparr>ks_tables := (ks_tables s)(t := set_entry (ks_tables s t) va ((pa AND 0xFFFFF000) OR (fl AND 0xFFF)))\<rparr>)"
    and "unmap_in_space s a va = (True, s\<lparr>ks_tables := (ks_tables s)(t := set_entry (ks_tables s t) va 0)\<rparr>)"
    and "va AND 0xFFF = 0 \<Longrightarrow> physical_in_space s a va =
      (let entry = entry_at (ks_tables s t) va in if entry AND PAGE_PRESENT = 0 then 0 else entry AND 0xFFFFF000)"
  using assms leD [of "PAGE_TABLE_COUNT" "directory_index va"]
  by (auto simp: map_in_space_def unmap_in_space_def physical_in_space_def space_view_def write_space_def Let_def
      page_map_in_address_space_def page_unmap_in_address_space_def page_get_physical_in_address_space_def)

lemma release_two:
  assumes k: "kernel_ok s xs" and t: "task_part s2 = task_part s" and o: "kernel_ok s2 xs"
    and b: "live_blocks (ks_heap s2) |` (- (space_blocks s2 a \<union> space_blocks s2 b)) = live_blocks (ks_heap s)"
    and u: "ks_spaces u = ks_spaces s2" "ks_heap u = ks_heap s2" "task_part u = task_part s2"
  obtains s' where "do { s \<leftarrow> free_space u a; free_space s b } = Some s'" "kernel_ok s' xs"
    "live_blocks (ks_heap s') = live_blocks (ks_heap s)"
proof -
  have ok: "kernel_heap_ok (ks_heap u)" using o u(2) by (simp add: kernel_ok_def kernel_tasks_def)
  obtain h where F: "free_space u a = Some (u\<lparr>ks_heap := h\<rparr>)" "kernel_heap_ok h"
    "live_blocks h = live_blocks (ks_heap u) |` (- {ha_page_tables (ks_spaces u a), ha_page_directory (ks_spaces u a), a})"
    by (rule free_space_spec [OF ok])
  have "kernel_heap_ok (ks_heap (u\<lparr>ks_heap := h\<rparr>))" using F(2) by simp
  then obtain g where G: "free_space (u\<lparr>ks_heap := h\<rparr>) b = Some (u\<lparr>ks_heap := g\<rparr>)" "kernel_heap_ok g"
    "live_blocks g = live_blocks h |` (- {ha_page_tables (ks_spaces u b), ha_page_directory (ks_spaces u b), b})"
    by (rule free_space_spec) simp
  have "live_blocks g = live_blocks (ks_heap s2) |` (- (space_blocks s2 a \<union> space_blocks s2 b))"
    unfolding G(3) F(3) restrict_restrict u
    by (rule arg_cong [where f = "\<lambda>A. live_blocks (ks_heap s2) |` A"]) (auto simp: space_blocks_def)
  then have l: "live_blocks g = live_blocks (ks_heap s)" using b by simp
  have "kernel_ok (u\<lparr>ks_heap := g\<rparr>) xs"
    by (rule process_part_kernel_ok [OF k]) (use t u(3) G(2) l in simp_all)
  then show ?thesis using F(1) G(1) l by (intro that [of "u\<lparr>ks_heap := g\<rparr>"]) simp_all
qed

lemma fresh_spaceD:
  assumes "fresh_space s a"
  shows "ha_page_table_count (ks_spaces s a) = PAGE_TABLE_COUNT"
    and "ks_tables s (ha_page_tables (ks_spaces s a)) = replicate 4 (replicate 1024 0)"
  using assms by (simp_all only: fresh_space_def Let_def)

lemma process_isolation_test_ok:
  assumes k: "kernel_ok s xs" and pg: "hs_paging (ks_heap s) \<noteq> 0"
  shows "\<exists>a s1 b s2 s'. address_space_create s = Some (a, s1) \<and> address_space_create s1 = Some (b, s2) \<and>
    process_isolation_test s = Some (if a = 0 \<or> b = 0 then [''[InitraOS] PROCESS_ISOLATION_FAIL'']
      else [''[InitraOS] PROCESS_ISOLATION_TABLES_OK'', ''[InitraOS] PROCESS_ISOLATION_MAPPING_OK'',
            ''[InitraOS] PROCESS_ISOLATION_UNMAP_OK'', ''[InitraOS] PROCESS_ISOLATION_OK''], s') \<and>
    kernel_ok s' xs \<and> live_blocks (ks_heap s) \<subseteq>\<^sub>m live_blocks (ks_heap s') \<and>
    (a \<noteq> 0 \<and> b \<noteq> 0 \<longrightarrow> live_blocks (ks_heap s') = live_blocks (ks_heap s))"
proof -
  obtain a s1 b s2 where S: "address_space_create s = Some (a, s1)" "address_space_create s1 = Some (b, s2)" "kernel_ok s2 xs"
    "task_part s2 = task_part s" "live_blocks (ks_heap s) \<subseteq>\<^sub>m live_blocks (ks_heap s2)"
    "a \<noteq> 0 \<and> b \<noteq> 0 \<longrightarrow> fresh_space s2 a \<and> fresh_space s2 b \<and>
       0 \<notin> space_blocks s2 a \<and> 0 \<notin> space_blocks s2 b \<and> space_blocks s2 a \<inter> space_blocks s2 b = {} \<and>
       live_blocks (ks_heap s2) |` (- (space_blocks s2 a \<union> space_blocks s2 b)) = live_blocks (ks_heap s)"
    by (rule two_spaces [OF k pg])
  show ?thesis
  proof (cases "a = 0 \<or> b = 0")
    case True
    then show ?thesis using S(1-3,5) by (auto simp: process_isolation_test_def Let_def)
  next
    case False
    let ?ta = "ha_page_tables (ks_spaces s2 a)" and ?tb = "ha_page_tables (ks_spaces s2 b)"
    from S(6) False have f: "fresh_space s2 a" "fresh_space s2 b" and n: "a \<noteq> 0" "b \<noteq> 0" "?ta \<noteq> 0" "?tb \<noteq> 0" "?ta \<noteq> ?tb"
      "ha_page_directory (ks_spaces s2 a) \<noteq> ha_page_directory (ks_spaces s2 b)"
      and l: "live_blocks (ks_heap s2) |` (- (space_blocks s2 a \<union> space_blocks s2 b)) = live_blocks (ks_heap s)"
      by (auto simp: space_blocks_def)
    note c = fresh_spaceD [OF f(1)] fresh_spaceD [OF f(2)]
    note access = space_access [OF n(1,3) _ _, simplified] space_access [OF n(2,4) _ _, simplified]
    have va: "directory_index 0x00400000 = 1" "table_index 0x00400000 = 0" by (simp_all add: directory_index_def table_index_def)
    let ?out = "[''[InitraOS] PROCESS_ISOLATION_TABLES_OK'', ''[InitraOS] PROCESS_ISOLATION_MAPPING_OK'',
        ''[InitraOS] PROCESS_ISOLATION_UNMAP_OK'', ''[InitraOS] PROCESS_ISOLATION_OK'']"
    obtain T where e: "process_isolation_test s = do {
        s \<leftarrow> free_space (s2\<lparr>ks_tables := T\<rparr>) a; s \<leftarrow> free_space s b; Some (?out, s) }"
      using S(1,2) n c by (simp add: process_isolation_test_def Let_def access va entry_at_def set_entry_def del: replicate_Suc)
    obtain s' where R: "do { s \<leftarrow> free_space (s2\<lparr>ks_tables := T\<rparr>) a; free_space s b } = Some s'" "kernel_ok s' xs"
      "live_blocks (ks_heap s') = live_blocks (ks_heap s)"
      by (rule release_two [OF k S(4,3) l, of "s2\<lparr>ks_tables := T\<rparr>"]) simp_all
    have "process_isolation_test s = Some (?out, s')" using e R(1) by (auto simp: bind_eq_Some_conv)
    then show ?thesis using S(1,2) R(2,3) False
      by (intro exI [of _ a] exI [of _ s1] exI [of _ b] exI [of _ s2] exI [of _ s']) simp
  qed
qed

lemma process_permission_isolation_test_ok:
  assumes k: "kernel_ok s xs" and pg: "hs_paging (ks_heap s) \<noteq> 0"
  shows "\<exists>a s1 b s2 s'. address_space_create s = Some (a, s1) \<and> address_space_create s1 = Some (b, s2) \<and>
    process_permission_isolation_test s = Some (if a = 0 \<or> b = 0 then [''[InitraOS] PROCESS_PERMISSION_ISOLATION_FAIL'']
      else [''[InitraOS] PROCESS_PERMISSION_ISOLATION_OK''], s') \<and>
    kernel_ok s' xs \<and> live_blocks (ks_heap s) \<subseteq>\<^sub>m live_blocks (ks_heap s') \<and>
    (a \<noteq> 0 \<and> b \<noteq> 0 \<longrightarrow> live_blocks (ks_heap s') = live_blocks (ks_heap s))"
proof -
  obtain a s1 b s2 where S: "address_space_create s = Some (a, s1)" "address_space_create s1 = Some (b, s2)" "kernel_ok s2 xs"
    "task_part s2 = task_part s" "live_blocks (ks_heap s) \<subseteq>\<^sub>m live_blocks (ks_heap s2)"
    "a \<noteq> 0 \<and> b \<noteq> 0 \<longrightarrow> fresh_space s2 a \<and> fresh_space s2 b \<and>
       0 \<notin> space_blocks s2 a \<and> 0 \<notin> space_blocks s2 b \<and> space_blocks s2 a \<inter> space_blocks s2 b = {} \<and>
       live_blocks (ks_heap s2) |` (- (space_blocks s2 a \<union> space_blocks s2 b)) = live_blocks (ks_heap s)"
    by (rule two_spaces [OF k pg])
  show ?thesis
  proof (cases "a = 0 \<or> b = 0")
    case True
    then show ?thesis using S(1-3,5) by (auto simp: process_permission_isolation_test_def Let_def)
  next
    case False
    let ?ta = "ha_page_tables (ks_spaces s2 a)" and ?tb = "ha_page_tables (ks_spaces s2 b)"
    from S(6) False have f: "fresh_space s2 a" "fresh_space s2 b" and n: "a \<noteq> 0" "b \<noteq> 0" "?ta \<noteq> 0" "?tb \<noteq> 0" "?ta \<noteq> ?tb"
      and l: "live_blocks (ks_heap s2) |` (- (space_blocks s2 a \<union> space_blocks s2 b)) = live_blocks (ks_heap s)"
      by (auto simp: space_blocks_def)
    note c = fresh_spaceD [OF f(1)] fresh_spaceD [OF f(2)]
    note access = space_access [OF n(1,3) _ _, simplified] space_access [OF n(2,4) _ _, simplified]
    have va: "directory_index 0x00400000 = 1" "table_index 0x00400000 = 0" "directory_index 0x00401000 = 1" "table_index 0x00401000 = 1"
      by (simp_all add: directory_index_def table_index_def)
    let ?out = "[''[InitraOS] PROCESS_PERMISSION_ISOLATION_OK'']"
    obtain T where e: "process_permission_isolation_test s = do {
        s \<leftarrow> free_space (s2\<lparr>ks_tables := T\<rparr>) a; s \<leftarrow> free_space s b; Some (?out, s) }"
      using S(1,2) n c
      by (simp add: process_permission_isolation_test_def Let_def access va entry_at_def set_entry_def del: replicate_Suc)
    obtain s' where R: "do { s \<leftarrow> free_space (s2\<lparr>ks_tables := T\<rparr>) a; free_space s b } = Some s'" "kernel_ok s' xs"
      "live_blocks (ks_heap s') = live_blocks (ks_heap s)"
      by (rule release_two [OF k S(4,3) l, of "s2\<lparr>ks_tables := T\<rparr>"]) simp_all
    have "process_permission_isolation_test s = Some (?out, s')" using e R(1) by (auto simp: bind_eq_Some_conv)
    then show ?thesis using S(1,2) R(2,3) False
      by (intro exI [of _ a] exI [of _ s1] exI [of _ b] exI [of _ s2] exI [of _ s']) simp
  qed
qed

subsection \<open>What the operations on processes do\<close>

text \<open>The records of processes and address spaces, which operations on tasks leave alone.\<close>

definition process_records :: "kernel_state \<Rightarrow> (u32 \<Rightarrow> process_t) \<times> (u32 \<Rightarrow> heap_address_space)" where
  "process_records s = (ks_processes s, ks_spaces s)"

lemma process_records_simps [simp]:
  "process_records (put_task s x k) = process_records s"
  "process_records (s\<lparr>ks_heap := h\<rparr>) = process_records s"
  "process_records (s\<lparr>ks_task_list := x\<rparr>) = process_records s"
  "process_records (s\<lparr>ks_next_task_id := x\<rparr>) = process_records s"
  "process_records (s\<lparr>ks_contexts := c\<rparr>) = process_records s"
  by (simp_all add: process_records_def put_task_def)

lemma process_records_calls:
  "kernel_alloc s n = Some (r, s') \<Longrightarrow> process_records s' = process_records s"
  "kernel_free s x = Some s' \<Longrightarrow> process_records s' = process_records s"
  "append_task s x = Some s' \<Longrightarrow> process_records s' = process_records s"
  by (auto simp: kernel_alloc_def kernel_free_def append_task_def bind_eq_Some_conv split: if_splits)

lemma task_create_frame: "task_create s = Some (t, s') \<Longrightarrow> process_records s' = process_records s"
  by (auto simp: task_create_def bind_eq_Some_conv Let_def dest!: process_records_calls split: if_splits)

lemma task_create_user_frame: "task_create_user s p e = Some (t, s') \<Longrightarrow> process_records s' = process_records s"
  by (auto simp: task_create_user_def task_set_state_def bind_eq_Some_conv Let_def
      dest!: process_records_calls task_create_frame split: if_splits)

lemma address_space_create_processes:
  assumes "address_space_create s = Some (r, s')"
  shows "ks_processes s' = ks_processes s"
  using assms by (auto simp: address_space_create_def kernel_alloc_aligned_def put_space_def process_records_def bind_eq_Some_conv Let_def
      dest!: process_records_calls split: if_splits)

lemma process_create_frame:
  assumes "process_create s = Some (r, s')" "r \<noteq> 0"
  shows "x \<noteq> r \<Longrightarrow> ks_processes s' x = ks_processes s x"
    and "x \<noteq> pr_address_space (ks_processes s' r) \<Longrightarrow> ks_spaces s' x = ks_spaces s x"
proof -
  define s1 where "s1 u = (put_process u r ((ks_processes u r)\<lparr>pr_pid := ks_next_process_id u, pr_state := TASK_READY,
      pr_privilege := TASK_USER, pr_uid := INITRAOS_DEFAULT_UID, pr_gid := INITRAOS_DEFAULT_GID\<rparr>))
      \<lparr>ks_next_process_id := ks_next_process_id u + 1\<rparr>" for u
  obtain u where A: "kernel_alloc s sizeof_process = Some (r, u)"
    using assms by (auto simp: process_create_def bind_eq_Some_conv Let_def split: if_splits)
  obtain a s2 where S: "address_space_create (s1 u) = Some (a, s2)"
    using assms A by (cases "address_space_create (s1 u)") (auto simp: process_create_def s1_def Let_def)
  define s3 where "s3 = put_process s2 r ((ks_processes s2 r)\<lparr>pr_address_space := a\<rparr>)"
  have e1: "process_create s = (if a = 0 then do { s \<leftarrow> kernel_free s3 r; Some (0, s) }
      else do {
        (task, s) \<leftarrow> task_create_user s3 r USER_CODE_BASE;
        let s = put_process s r ((ks_processes s r)\<lparr>pr_task := task\<rparr>);
        if task = 0 then do {
          s \<leftarrow> kernel_free s (pr_address_space (ks_processes s r));
          s \<leftarrow> kernel_free s r;
          Some (0, s) }
        else Some (r, s) })"
    using A S assms(2) by (simp add: process_create_def s1_def s3_def Let_def)
  have a: "a \<noteq> 0" using assms e1 by (auto simp: bind_eq_Some_conv)
  obtain t s4 where U: "task_create_user s3 r USER_CODE_BASE = Some (t, s4)"
    using assms e1 a by (auto simp: bind_eq_Some_conv)
  have e: "s' = put_process s4 r ((ks_processes s4 r)\<lparr>pr_task := t\<rparr>)"
    using assms e1 a U by (auto simp: bind_eq_Some_conv Let_def split: if_splits)
  note u = process_records_calls(1) [OF A] and v = address_space_create_processes [OF S] and w = task_create_user_frame [OF U]
  have P: "ks_processes s' = (ks_processes s)(r := ks_processes s' r)" "pr_address_space (ks_processes s' r) = a"
    using u v w by (simp_all add: process_records_def e s3_def s1_def)
  show "ks_processes s' x = ks_processes s x" if "x \<noteq> r" using fun_cong [OF P(1), of x] that by simp
  show "ks_spaces s' x = ks_spaces s x" if "x \<noteq> pr_address_space (ks_processes s' r)"
    using address_space_create_frame(1) [OF S a, of x] u w P(2) that by (simp add: process_records_def e s3_def s1_def)
qed

text \<open>A process just created.\<close>

definition new_process :: "kernel_state \<Rightarrow> u32 list \<Rightarrow> u32 \<Rightarrow> kernel_state \<Rightarrow> bool" where
  "new_process s xs r s' \<longleftrightarrow>
     (let p = ks_processes s' r; t = pr_task p; a = pr_address_space p; k = ks_tasks s' t
      in t \<notin> set xs \<and> kernel_ok s' (xs @ [t]) \<and> (\<forall>x \<in> set xs. task_data s' x = task_data s x) \<and>
         pr_pid p = ks_next_process_id s \<and> pr_state p = TASK_READY \<and> pr_privilege p = TASK_USER \<and>
         pr_uid p = INITRAOS_DEFAULT_UID \<and> pr_gid p = INITRAOS_DEFAULT_GID \<and>
         tk_process k = r \<and> tk_privilege k = TASK_USER \<and> tk_stack_base k = USER_STACK_BASE \<and>
         tk_state k = (if tk_context k = 0 then TASK_FINISHED else TASK_READY) \<and>
         ha_page_table_count (ks_spaces s' a) = PAGE_TABLE_COUNT \<and>
         distinct [0, r, t, a, ha_page_directory (ks_spaces s' a), ha_page_tables (ks_spaces s' a)] \<and>
         owned s' r \<subseteq> dom (live_blocks (ks_heap s')) \<and> live_blocks (ks_heap s') |` (- owned s' r) = live_blocks (ks_heap s))"

lemma process_created:
  assumes k: "kernel_ok s xs" and pg: "hs_paging (ks_heap s) \<noteq> 0"
  obtains r s' where "process_create s = Some (r, s')" "ks_current_task s' = ks_current_task s" "hs_paging (ks_heap s') \<noteq> 0"
    "live_blocks (ks_heap s) \<subseteq>\<^sub>m live_blocks (ks_heap s')" "if r = 0 then kernel_ok s' xs else new_process s xs r s'"
proof -
  have kt: "kernel_tasks kernel_heap_ok live_blocks s xs" and cu: "ks_current_task s = 0 \<or> ks_current_task s \<in> set xs"
    using k by (simp_all add: kernel_ok_def)
  let ?B = "live_blocks (ks_heap s)"
  obtain r s1 where C: "process_create s = Some (r, s1)" "ks_current_task s1 = ks_current_task s"
    "(r = 0 \<and> kernel_tasks kernel_heap_ok live_blocks s1 xs \<and> ?B \<subseteq>\<^sub>m live_blocks (ks_heap s1) \<and>
        (\<forall>t \<in> set xs. ks_tasks s1 t = ks_tasks s t)) \<or>
     (r \<noteq> 0 \<and> (let p = ks_processes s1 r; t = pr_task p; a = pr_address_space p
        in t \<notin> set xs \<and> kernel_tasks kernel_heap_ok live_blocks s1 (xs @ [t]) \<and> (\<forall>x \<in> set xs. task_data s1 x = task_data s x) \<and>
           pr_pid p = ks_next_process_id s \<and> ks_next_process_id s1 = ks_next_process_id s + 1 \<and>
           pr_state p = TASK_READY \<and> pr_privilege p = TASK_USER \<and> pr_uid p = INITRAOS_DEFAULT_UID \<and> pr_gid p = INITRAOS_DEFAULT_GID \<and>
           tk_process (ks_tasks s1 t) = r \<and> tk_privilege (ks_tasks s1 t) = TASK_USER \<and> tk_stack_base (ks_tasks s1 t) = USER_STACK_BASE \<and>
           (tk_context (ks_tasks s1 t) \<noteq> 0 \<longrightarrow> cx_eip (ks_contexts s1 (tk_context (ks_tasks s1 t))) = USER_CODE_BASE) \<and>
           fresh_space s1 a \<and> distinct [0, r, t, a, ha_page_directory (ks_spaces s1 a), ha_page_tables (ks_spaces s1 a)] \<and>
           owned s1 r \<subseteq> dom (live_blocks (ks_heap s1)) \<and> live_blocks (ks_heap s1) |` (- owned s1 r) = ?B))"
    "hs_paging (ks_heap s1) = hs_paging (ks_heap s)"
    "r \<noteq> 0 \<longrightarrow> (let t = ks_tasks s1 (pr_task (ks_processes s1 r))
       in tk_state t = (if tk_context t = 0 then TASK_FINISHED else TASK_READY))"
    by (rule kernel_blocks.process_create_spec [OF kt pg]) (rule that; assumption)
  have cx: "ks_current_task s1 = 0 \<or> ks_current_task s1 \<in> set xs" using cu C(2) by simp
  have n: "if r = 0 then kernel_ok s1 xs else new_process s xs r s1"
  proof (cases "r = 0")
    case True
    then show ?thesis using C(3) cx by (auto simp: kernel_ok_def)
  next
    case False
    note L = C(3) [unfolded Let_def]
    show ?thesis unfolding new_process_def Let_def if_not_P [OF False]
      using L False C(5) cx fresh_spaceD(1) [of s1] by (auto simp: kernel_ok_def Let_def simp del: distinct.simps set_simps)
  qed
  have "?B \<subseteq>\<^sub>m live_blocks (ks_heap s1)"
    using C(3) restricted_le [of "live_blocks (ks_heap s1)" "- owned s1 r" ?B] by (auto simp: Let_def)
  then show ?thesis using that [OF C(1,2)] C(4) pg n by simp
qed

lemma new_process_destroy:
  assumes k: "kernel_ok s xs" and r: "r \<noteq> 0" and n: "new_process s xs r s1" and c: "ks_current_task s1 = ks_current_task s"
  obtains s2 where "process_destroy s1 r = Some s2" "kernel_ok s2 xs" "live_blocks (ks_heap s2) = live_blocks (ks_heap s)"
proof -
  let ?t = "pr_task (ks_processes s1 r)" and ?a = "pr_address_space (ks_processes s1 r)"
  note n = n [unfolded new_process_def Let_def]
  have T: "kernel_tasks kernel_heap_ok live_blocks s1 (xs @ [?t])" using n by (simp add: kernel_ok_def)
  have z: "?t \<noteq> 0" "?a \<noteq> 0" "?t \<notin> set xs" "tk_stack_base (ks_tasks s1 ?t) = USER_STACK_BASE"
    "live_blocks (ks_heap s1) |` (- owned s1 r) = live_blocks (ks_heap s)" using n by auto
  have cx: "ks_current_task s1 = 0 \<or> ks_current_task s1 \<in> set xs" and sub: "set xs \<subseteq> dom (live_blocks (ks_heap s))"
    using k c by (simp_all add: kernel_ok_def kernel_tasks_def)
  show ?thesis using destroy_created_process [OF T r z(2,1,3) cx z(4,5) sub] that by blast
qed

lemma process_create_test_ok:
  assumes k: "kernel_ok s xs" and pg: "hs_paging (ks_heap s) \<noteq> 0"
  shows "\<exists>r s1 s'. process_create s = Some (r, s1) \<and>
    process_create_test s = Some (''[InitraOS] PROCESS_CREATE_START'' #
      (if r = 0 then [''[InitraOS] PROCESS_CREATE_FAIL_ALLOC'']
       else if ks_next_process_id s = 0 then [''[InitraOS] PROCESS_CREATE_FAIL_PID'']
       else [''[InitraOS] PROCESS_CREATE_PID_OK'', ''[InitraOS] PROCESS_CREATE_STATE_OK'',
             ''[InitraOS] PROCESS_CREATE_IDENTITY_OK'', ''[InitraOS] PROCESS_CREATE_ADDRESS_SPACE_OK''] @
         (if tk_context (ks_tasks s1 (pr_task (ks_processes s1 r))) = 0 then [''[InitraOS] PROCESS_CREATE_FAIL_TASK_STATE'']
          else [''[InitraOS] PROCESS_CREATE_TASK_OK'', ''[InitraOS] PROCESS_CREATE_OK''])), s') \<and>
    kernel_ok s' xs \<and> live_blocks (ks_heap s) \<subseteq>\<^sub>m live_blocks (ks_heap s') \<and>
    (r \<noteq> 0 \<longrightarrow> live_blocks (ks_heap s') = live_blocks (ks_heap s))"
proof -
  obtain r s1 where C: "process_create s = Some (r, s1)" "ks_current_task s1 = ks_current_task s"
    "live_blocks (ks_heap s) \<subseteq>\<^sub>m live_blocks (ks_heap s1)" "if r = 0 then kernel_ok s1 xs else new_process s xs r s1"
    by (rule process_created [OF k pg])
  show ?thesis
  proof (cases "r = 0")
    case True
    then show ?thesis using C by (simp add: process_create_test_def)
  next
    case False
    then have n: "new_process s xs r s1" using C(4) by simp
    obtain s2 where D: "process_destroy s1 r = Some s2" "kernel_ok s2 xs" "live_blocks (ks_heap s2) = live_blocks (ks_heap s)"
      by (rule new_process_destroy [OF k False n C(2)])
    note N = n [unfolded new_process_def Let_def]
    show ?thesis using C(1) D False N
      by (intro exI [of _ r] exI [of _ s1] exI [of _ s2]) (simp add: process_create_test_def Let_def)
  qed
qed

lemma process_task_link_test_ok:
  assumes k: "kernel_ok s xs" and pg: "hs_paging (ks_heap s) \<noteq> 0"
  shows "\<exists>r s1 s'. process_create s = Some (r, s1) \<and>
    process_task_link_test s = Some ([''[InitraOS] PROCESS_TASK_LINK_START'',
      if r = 0 then ''[InitraOS] PROCESS_TASK_LINK_FAIL_PROCESS''
      else if ks_next_process_id s = 0 then ''[InitraOS] PROCESS_TASK_LINK_FAIL_PID'' else ''[InitraOS] PROCESS_TASK_LINK_OK''], s') \<and>
    kernel_ok s' xs \<and> live_blocks (ks_heap s) \<subseteq>\<^sub>m live_blocks (ks_heap s') \<and>
    (r \<noteq> 0 \<longrightarrow> live_blocks (ks_heap s') = live_blocks (ks_heap s))"
proof -
  obtain r s1 where C: "process_create s = Some (r, s1)" "ks_current_task s1 = ks_current_task s"
    "live_blocks (ks_heap s) \<subseteq>\<^sub>m live_blocks (ks_heap s1)" "if r = 0 then kernel_ok s1 xs else new_process s xs r s1"
    by (rule process_created [OF k pg])
  show ?thesis
  proof (cases "r = 0")
    case True
    then show ?thesis using C by (simp add: process_task_link_test_def Let_def)
  next
    case False
    then have n: "new_process s xs r s1" using C(4) by simp
    obtain s2 where D: "process_destroy s1 r = Some s2" "kernel_ok s2 xs" "live_blocks (ks_heap s2) = live_blocks (ks_heap s)"
      by (rule new_process_destroy [OF k False n C(2)])
    note N = n [unfolded new_process_def Let_def]
    show ?thesis using C(1) D False N
      by (intro exI [of _ r] exI [of _ s1] exI [of _ s2]) (simp add: process_task_link_test_def Let_def)
  qed
qed

lemma kernel_ok_heap: "kernel_ok s zs \<Longrightarrow> kernel_heap_ok h \<Longrightarrow> set zs \<subseteq> dom (live_blocks h) \<Longrightarrow> kernel_ok (s\<lparr>ks_heap := h\<rparr>) zs"
  by (simp add: kernel_ok_def kernel_tasks_def task_chain_def)

lemma free_instance_spec:
  assumes ok: "kernel_heap_ok (ks_heap s)"
  obtains h where "do { s \<leftarrow> free_space s (pr_address_space (ks_processes s a)); kernel_free s a } = Some (s\<lparr>ks_heap := h\<rparr>)"
    "kernel_heap_ok h"
    "live_blocks h = live_blocks (ks_heap s) |` (- insert a (space_blocks s (pr_address_space (ks_processes s a))))"
proof -
  let ?p = "pr_address_space (ks_processes s a)"
  obtain h where F: "free_space s ?p = Some (s\<lparr>ks_heap := h\<rparr>)" "kernel_heap_ok h"
    "live_blocks h = live_blocks (ks_heap s) |` (- {ha_page_tables (ks_spaces s ?p), ha_page_directory (ks_spaces s ?p), ?p})"
    by (rule free_space_spec [OF ok])
  have "kernel_heap_ok (ks_heap (s\<lparr>ks_heap := h\<rparr>))" using F(2) by simp
  then obtain g where G: "kernel_free (s\<lparr>ks_heap := h\<rparr>) a = Some (s\<lparr>ks_heap := g\<rparr>)" "kernel_heap_ok g"
    "live_blocks g = (live_blocks h)(a := None)" by (rule kernel_blocks.kernel_free_law) simp
  have "live_blocks g = live_blocks (ks_heap s) |` (- insert a (space_blocks s ?p))"
    unfolding G(3) F(3) space_blocks_def by (auto simp: restrict_map_def fun_eq_iff)
  then show ?thesis using F(1) G(1,2) by (intro that [of g]) simp_all
qed

text \<open>
  Two processes: the test releases their records and address spaces and leaves their
  tasks on the list, which point to records no longer in use.
\<close>

lemma process_instance_isolation_test_ok:
  assumes k: "kernel_ok s xs" and pg: "hs_paging (ks_heap s) \<noteq> 0"
  shows "\<exists>a s1 b s2 s'. process_create s = Some (a, s1) \<and> process_create s1 = Some (b, s2) \<and>
    process_instance_isolation_test s = Some (''[InitraOS] PROCESS_INSTANCE_ISOLATION_START'' #
      (if a = 0 \<or> b = 0 then [''[InitraOS] PROCESS_INSTANCE_ISOLATION_FAIL'']
       else [''[InitraOS] PROCESS_INSTANCE_ISOLATION_PROCESS_OK'', ''[InitraOS] PROCESS_INSTANCE_ISOLATION_TASK_OK'',
             ''[InitraOS] PROCESS_INSTANCE_ISOLATION_OK'']), s') \<and>
    live_blocks (ks_heap s) \<subseteq>\<^sub>m live_blocks (ks_heap s') \<and>
    (a \<noteq> 0 \<and> b \<noteq> 0 \<longrightarrow>
       (let ta = pr_task (ks_processes s2 a); tb = pr_task (ks_processes s2 b)
        in kernel_ok s' (xs @ [ta, tb]) \<and> tk_process (ks_tasks s' ta) = a \<and> tk_process (ks_tasks s' tb) = b \<and>
           live_blocks (ks_heap s') a = None \<and> live_blocks (ks_heap s') b = None))"
proof -
  obtain a s1 where A: "process_create s = Some (a, s1)" "ks_current_task s1 = ks_current_task s" "hs_paging (ks_heap s1) \<noteq> 0"
    "live_blocks (ks_heap s) \<subseteq>\<^sub>m live_blocks (ks_heap s1)" "if a = 0 then kernel_ok s1 xs else new_process s xs a s1"
    by (rule process_created [OF k pg])
  define ys where "ys = (if a = 0 then xs else xs @ [pr_task (ks_processes s1 a)])"
  have k1: "kernel_ok s1 ys" using A(5) by (simp add: ys_def new_process_def Let_def split: if_splits)
  obtain b s2 where B: "process_create s1 = Some (b, s2)" "ks_current_task s2 = ks_current_task s1" "hs_paging (ks_heap s2) \<noteq> 0"
    "live_blocks (ks_heap s1) \<subseteq>\<^sub>m live_blocks (ks_heap s2)" "if b = 0 then kernel_ok s2 ys else new_process s1 ys b s2"
    by (rule process_created [OF k1 A(3)])
  show ?thesis
  proof (cases "a = 0 \<or> b = 0")
    case True
    have "process_instance_isolation_test s =
        Some ([''[InitraOS] PROCESS_INSTANCE_ISOLATION_START'', ''[InitraOS] PROCESS_INSTANCE_ISOLATION_FAIL''], s2)"
      using True A(1) B(1) by (auto simp: process_instance_isolation_test_def Let_def)
    then show ?thesis using A(1) B(1) map_le_trans [OF A(4) B(4)] True
      by (intro exI [of _ a] exI [of _ s1] exI [of _ b] exI [of _ s2]) auto
  next
    case False
    let ?ta = "pr_task (ks_processes s1 a)" and ?tb = "pr_task (ks_processes s2 b)"
    let ?sa = "pr_address_space (ks_processes s1 a)" and ?sb = "pr_address_space (ks_processes s2 b)"
    have n: "new_process s xs a s1" "new_process s1 (xs @ [?ta]) b s2" using A(5) B(5) False by (simp_all add: ys_def)
    note na = n(1) [unfolded new_process_def Let_def] and nb = n(2) [unfolded new_process_def Let_def]
    have d: "owned s1 a \<subseteq> dom (live_blocks (ks_heap s1))" "live_blocks (ks_heap s1) |` (- owned s1 a) = live_blocks (ks_heap s)"
      "live_blocks (ks_heap s2) |` (- owned s2 b) = live_blocks (ks_heap s1)" using na nb by simp_all
    have o: "owned s1 a \<inter> dom (live_blocks (ks_heap s)) = {}" "owned s2 b \<inter> dom (live_blocks (ks_heap s1)) = {}"
      unfolding d(2) [symmetric] d(3) [symmetric] by auto
    have sep: "owned s1 a \<inter> owned s2 b = {}" "owned s1 a \<inter> dom (live_blocks (ks_heap s)) = {}"
      "owned s2 b \<inter> dom (live_blocks (ks_heap s)) = {}"
      using o d(1) map_le_implies_dom_le [OF A(4)] by blast+
    have own: "space_blocks s1 ?sa \<union> {a, ?ta} \<subseteq> owned s1 a" "space_blocks s2 ?sb \<union> {b, ?tb} \<subseteq> owned s2 b"
      using na nb by (auto simp: owned_def space_blocks_def Let_def)
    have ne: "a \<noteq> b" "?sa \<noteq> ?sb" "?ta \<noteq> ?tb" "ha_page_directory (ks_spaces s1 ?sa) \<noteq> ha_page_directory (ks_spaces s2 ?sb)"
      "ha_page_tables (ks_spaces s1 ?sa) \<noteq> ha_page_tables (ks_spaces s2 ?sb)"
      using sep(1) own by (auto simp: space_blocks_def)
    have fr: "ks_processes s2 a = ks_processes s1 a" "ks_spaces s2 ?sa = ks_spaces s1 ?sa"
      using process_create_frame [OF B(1)] False ne(1,2) by simp_all
    have F: "space_blocks s2 ?sa = space_blocks s1 ?sa" by (simp add: space_blocks_def fr(2))
    have ok: "kernel_heap_ok (ks_heap s2)" and kk: "kernel_ok s2 ((xs @ [?ta]) @ [?tb])"
      using nb by (simp_all add: kernel_ok_def kernel_tasks_def)
    obtain h where H: "do { s \<leftarrow> free_space s2 (pr_address_space (ks_processes s2 a)); kernel_free s a } = Some (s2\<lparr>ks_heap := h\<rparr>)"
      "kernel_heap_ok h" "live_blocks h = live_blocks (ks_heap s2) |` (- insert a (space_blocks s2 (pr_address_space (ks_processes s2 a))))"
      by (rule free_instance_spec [OF ok])
    let ?u = "s2\<lparr>ks_heap := h\<rparr>"
    have "kernel_heap_ok (ks_heap ?u)" using H(2) by simp
    then obtain g where G: "do { s \<leftarrow> free_space ?u (pr_address_space (ks_processes ?u b)); kernel_free s b } = Some (?u\<lparr>ks_heap := g\<rparr>)"
      "kernel_heap_ok g" "live_blocks g = live_blocks (ks_heap ?u) |` (- insert b (space_blocks ?u (pr_address_space (ks_processes ?u b))))"
      by (rule free_instance_spec)
    let ?X = "insert a (space_blocks s1 ?sa) \<union> insert b (space_blocks s2 ?sb)"
    have l: "live_blocks g = live_blocks (ks_heap s2) |` (- ?X)"
    proof -
      have "live_blocks g = live_blocks h |` (- insert b (space_blocks s2 ?sb))" using G(3) by (simp add: space_blocks_def)
      also have "\<dots> = live_blocks (ks_heap s2) |` (- insert a (space_blocks s1 ?sa) \<inter> - insert b (space_blocks s2 ?sb))"
        using H(3) by (simp add: fr(1) F)
      finally show ?thesis by (simp only: Compl_Un)
    qed
    have X: "?X \<subseteq> owned s1 a \<union> owned s2 b" using own by blast
    have le: "live_blocks (ks_heap s) \<subseteq>\<^sub>m live_blocks g"
      unfolding l by (rule map_le_restrict [OF map_le_trans [OF A(4) B(4)]]) (use X sep(2,3) in blast)
    have "a \<noteq> ?ta" "b \<noteq> ?tb" using na nb by simp_all
    then have "?ta \<notin> insert a (space_blocks s1 ?sa)" "?tb \<notin> insert b (space_blocks s2 ?sb)"
      using na nb by (simp_all add: space_blocks_def)
    then have nX: "?ta \<notin> ?X" "?tb \<notin> ?X" using own sep(1) by blast+
    have "set (xs @ [?ta, ?tb]) \<subseteq> dom (live_blocks g)"
    proof -
      have "set xs \<subseteq> dom (live_blocks g)"
        using k by (intro subset_trans [OF _ map_le_implies_dom_le [OF le]]) (simp add: kernel_ok_def kernel_tasks_def)
      moreover have "{?ta, ?tb} \<subseteq> dom (live_blocks (ks_heap s2))" using kk by (simp add: kernel_ok_def kernel_tasks_def)
      ultimately show ?thesis using nX by (auto simp: l restrict_map_def dom_def)
    qed
    then have K: "kernel_ok (s2\<lparr>ks_heap := g\<rparr>) (xs @ [?ta, ?tb])" using kernel_ok_heap [OF kk G(2)] by simp
    have "tk_process (task_data s2 ?ta) = tk_process (task_data s1 ?ta)" using nb by simp
    then have "tk_process (ks_tasks s2 ?ta) = tk_process (ks_tasks s1 ?ta)" by (simp add: task_data_def)
    then have P: "tk_process (ks_tasks s2 ?ta) = a" "tk_process (ks_tasks s2 ?tb) = b" using na nb by simp_all
    let ?out = "[''[InitraOS] PROCESS_INSTANCE_ISOLATION_START'', ''[InitraOS] PROCESS_INSTANCE_ISOLATION_PROCESS_OK'',
      ''[InitraOS] PROCESS_INSTANCE_ISOLATION_TASK_OK'', ''[InitraOS] PROCESS_INSTANCE_ISOLATION_OK'']"
    have z: "?sa \<noteq> 0" "?sb \<noteq> 0" "?ta \<noteq> 0" "?tb \<noteq> 0" using na nb by auto
    have "process_instance_isolation_test s = do {
        s \<leftarrow> do { s \<leftarrow> free_space s2 (pr_address_space (ks_processes s2 a)); kernel_free s a };
        s \<leftarrow> do { s \<leftarrow> free_space s (pr_address_space (ks_processes s b)); kernel_free s b };
        Some (?out, s) }"
      using A(1) B(1) False ne z fr by (simp add: process_instance_isolation_test_def Let_def)
    then have "process_instance_isolation_test s = Some (?out, s2\<lparr>ks_heap := g\<rparr>)"
      unfolding H(1) bind.bind_lunit G(1) by simp
    then show ?thesis using A(1) B(1) False le K P fr(1) l
      by (intro exI [of _ a] exI [of _ s1] exI [of _ b] exI [of _ s2] exI [of _ "s2\<lparr>ks_heap := g\<rparr>"]) (simp add: Let_def)
  qed
qed

subsection \<open>Properties\<close>



end
