(* ===== verification/Vfs_Runtime_Test.thy ===== *)
theory Vfs_Runtime_Test
  imports Vfs_Properties
begin

section \<open>The run-time test of the VFS\<close>

text \<open>
  \<open>vfs_self_test\<close> of \<open>fs/vfs.c\<close>, with the file system of one file it runs over. The
  functions of that file system are reached through the VFS only, which never passes
  them a NULL file system. Most checks of the test guard an empty branch: the model
  lists their conditions, a true one being a failure nobody reports. Its local objects
  are at the addresses \<open>p\<close> and \<open>device\<close>; \<open>at_null\<close> is what the memory at address 0 holds,
  read as an open file when \<open>vfs_open\<close> has failed.
\<close>

subsection \<open>The file system of the test\<close>

record vfs_test_state =
  vt_inode :: fs_inode
  vt_data :: "u8 list"
  vt_mount_count :: u32
  vt_unmount_count :: u32
  vt_mkdir_count :: u32
  vt_rmdir_count :: u32
  vt_remove_count :: u32

definition vfs_test_inode :: ptr where "vfs_test_inode = 1"
definition sizeof_test_data :: u32 where "sizeof_test_data = 128"

definition vfs_test_mount :: "vfs_test_state \<Rightarrow> ptr \<Rightarrow> ptr \<Rightarrow> bool \<times> vfs_test_state" where
  "vfs_test_mount w private_data device =
     (if device = NULL then (False, w) else (True, w\<lparr>vt_mount_count := vt_mount_count w + 1\<rparr>))"

definition vfs_test_unmount :: "vfs_test_state \<Rightarrow> ptr \<Rightarrow> bool \<times> vfs_test_state" where
  "vfs_test_unmount w private_data = (True, w\<lparr>vt_unmount_count := vt_unmount_count w + 1\<rparr>)"

definition vfs_test_lookup :: "vfs_test_state \<Rightarrow> ptr \<Rightarrow> string \<Rightarrow> ptr option" where
  "vfs_test_lookup w private_data path =
     (if cstr_at path 0 \<noteq> CHR ''/'' \<or> cstr_at path 1 \<noteq> CHR ''t'' \<or> cstr_at path 2 \<noteq> CHR ''e'' \<or>
         cstr_at path 3 \<noteq> CHR ''s'' \<or> cstr_at path 4 \<noteq> CHR ''t'' \<or> cstr_at path 5 \<noteq> CHR 0x00
      then None else Some vfs_test_inode)"

definition vfs_test_create :: "vfs_test_state \<Rightarrow> identity \<Rightarrow> ptr \<Rightarrow> string \<Rightarrow> u32 \<Rightarrow> ptr option \<times> vfs_test_state" where
  "vfs_test_create w caller private_data path type = (None, w)"

definition vfs_test_remove :: "vfs_test_state \<Rightarrow> identity \<Rightarrow> ptr \<Rightarrow> string \<Rightarrow> int \<times> vfs_test_state" where
  "vfs_test_remove w caller private_data path =
     (if cstr_at path 0 = CHR 0x00 then (0, w) else (1, w\<lparr>vt_remove_count := vt_remove_count w + 1\<rparr>))"

definition vfs_test_read :: "vfs_test_state \<Rightarrow> identity \<Rightarrow> ptr \<Rightarrow> ptr \<Rightarrow> u32 \<Rightarrow> u8 list \<Rightarrow> u32 \<Rightarrow> int \<times> u8 list" where
  "vfs_test_read w caller private_data inode offset buffer size_arg =
     (if inode \<noteq> vfs_test_inode then (-1, buffer)
      else if offset \<ge> fi_size (vt_inode w) then (0, buffer)
      else
        let available = fi_size (vt_inode w) - offset; sz = (if size_arg > available then available else size_arg)
        in (sint sz, blit buffer 0 (take (unat sz) (drop (unat offset) (vt_data w)))))"

definition vfs_test_write :: "vfs_test_state \<Rightarrow> identity \<Rightarrow> ptr \<Rightarrow> ptr \<Rightarrow> u32 \<Rightarrow> u8 list \<Rightarrow> u32 \<Rightarrow> int \<times> vfs_test_state" where
  "vfs_test_write w caller private_data inode offset buffer size_arg =
     (if inode \<noteq> vfs_test_inode \<or> offset > sizeof_test_data \<or> size_arg > sizeof_test_data - offset then (-1, w)
      else
        let w = w\<lparr>vt_data := blit (vt_data w) (unat offset) (take (unat size_arg) buffer)\<rparr>;
            w = (if offset + size_arg > fi_size (vt_inode w)
                 then w\<lparr>vt_inode := (vt_inode w)\<lparr>fi_size := offset + size_arg\<rparr>\<rparr> else w)
        in (sint size_arg, w))"

definition vfs_test_mkdir :: "vfs_test_state \<Rightarrow> identity \<Rightarrow> ptr \<Rightarrow> string \<Rightarrow> int \<times> vfs_test_state" where
  "vfs_test_mkdir w caller private_data path = (1, w\<lparr>vt_mkdir_count := vt_mkdir_count w + 1\<rparr>)"

definition vfs_test_rmdir :: "vfs_test_state \<Rightarrow> identity \<Rightarrow> ptr \<Rightarrow> string \<Rightarrow> int \<times> vfs_test_state" where
  "vfs_test_rmdir w caller private_data path = (1, w\<lparr>vt_rmdir_count := vt_rmdir_count w + 1\<rparr>)"

text \<open>The five bytes \<open>"test"\<close> with their NUL, over the first two fields of an entry.\<close>

definition test_entry :: "initrafs_disk_dirent_t \<Rightarrow> initrafs_disk_dirent_t" where
  "test_entry e = e\<lparr>de_inode_number := u32_of_bytes 0x74 0x65 0x73 0x74, de_type := de_type e AND 0xFFFFFF00\<rparr>"

definition vfs_test_readdir ::
  "vfs_test_state \<Rightarrow> ptr \<Rightarrow> string \<Rightarrow> initrafs_disk_dirent_t list \<Rightarrow> u32 \<Rightarrow> int \<times> initrafs_disk_dirent_t list" where
  "vfs_test_readdir w private_data path es entry_size =
     (if entry_size < 5 then (0, es) else (1, es[0 := test_entry (es ! 0)]))"

definition test_filesystem_record :: "vfs_test_state filesystem_t" where
  "test_filesystem_record =
     \<lparr>fs_name = Some ''vfs-test'', fs_mount = Some vfs_test_mount, fs_unmount = Some vfs_test_unmount,
      fs_lookup = Some vfs_test_lookup, fs_create = Some vfs_test_create, fs_remove = Some vfs_test_remove,
      fs_read = Some vfs_test_read, fs_write = Some vfs_test_write, fs_mkdir = Some vfs_test_mkdir,
      fs_rmdir = Some vfs_test_rmdir, fs_readdir = Some vfs_test_readdir, fs_private_data = NULL\<rparr>"

subsection \<open>The test\<close>

definition test_statics :: vfs_test_state where
  "test_statics = \<lparr>vt_inode = zero_fs_inode, vt_data = replicate 128 0, vt_mount_count = 0, vt_unmount_count = 0,
     vt_mkdir_count = 0, vt_rmdir_count = 0, vt_remove_count = 0\<rparr>"

text \<open>The identity is carried: the only checks that end the test.\<close>

definition identity_test :: "'w vfs \<Rightarrow> bool \<times> 'w vfs" where
  "identity_test v =
     (let (ok, v) = vfs_set_caller_identity v 1000 1000
      in if \<not> ok then (False, v)
         else let (uid, gid) = vfs_get_caller_identity v; v = snd (vfs_set_caller_identity v 0 0)
              in (uid = 1000 \<and> gid = 1000, v))"

text \<open>
  Registration and mount, then the file through the handle; each step lists the
  conditions of its checks.
\<close>

definition mount_checks :: "ptr \<Rightarrow> ptr \<Rightarrow> vfs_test_state vfs \<Rightarrow> bool list \<times> vfs_test_state vfs" where
  "mount_checks p device v =
     (let (registered, v) = filesystem_register v p;
          (twice, v) = filesystem_register v p;
          (mounted, v) = vfs_mount v p device
      in ([\<not> registered, twice, \<not> mounted, vt_mount_count (vfs_world v) \<noteq> 1], v))"

definition file_checks ::
  "vfs_file_t \<Rightarrow> u8 list \<Rightarrow> vfs_test_state vfs \<Rightarrow> bool list \<times> nat option \<times> vfs_test_state vfs" where
  "file_checks at_null read_buffer v =
     (let write_data = [0x68, 0x65, 0x6C, 0x6C, 0x6F];
          (file, v) = vfs_open v (Some ''/test'') 0 True;
          (written, v) = vfs_write v file (Some write_data) 5;
          position = vf_position (case file of None \<Rightarrow> at_null | Some index \<Rightarrow> vfs_open_files v ! index);
          size_5 = fi_size (vt_inode (vfs_world v));
          (sought, v) = vfs_seek v file 0;
          (count, v, buffer) = vfs_read v file (Some read_buffer) 5;
          (sought_end, v) = vfs_seek v file 5;
          (count_end, v, _) = (if sought_end then vfs_read v file buffer 1 else (0, v, buffer))
      in ([file = None, written \<noteq> 5, position \<noteq> 5 \<or> size_5 \<noteq> 5, \<not> sought, count \<noteq> 5] @
          map (\<lambda>index. the buffer ! index \<noteq> write_data ! index) [0..<5] @
          [\<not> sought_end \<or> count_end \<noteq> 0], file, v))"

definition directory_checks :: "initrafs_disk_dirent_t list \<Rightarrow> vfs_test_state vfs \<Rightarrow> bool list \<times> vfs_test_state vfs" where
  "directory_checks directory_entry v =
     (let (listed, es) = vfs_readdir v (Some ''/'') (Some directory_entry) 8;
          bytes = u32_bytes (de_inode_number (the es ! 0));
          (made, v) = vfs_mkdir v (Some ''/docs'');
          (removed, v) = (if made = 0 then (0, v) else vfs_rmdir v (Some ''/docs''));
          (unlinked, v) = (if removed = 0 then (0, v) else vfs_unlink v (Some ''/docs/test''));
          w = vfs_world v
      in ([listed = 0 \<or> bytes ! 0 \<noteq> 0x74 \<or> bytes ! 3 \<noteq> 0x74,
           unlinked = 0 \<or> vt_mkdir_count w \<noteq> 1 \<or> vt_rmdir_count w \<noteq> 1 \<or> vt_remove_count w \<noteq> 1], v))"

definition unmount_checks :: "ptr \<Rightarrow> nat option \<Rightarrow> vfs_test_state vfs \<Rightarrow> bool list \<times> vfs_test_state vfs" where
  "unmount_checks p file v =
     (let (unregistered_active, v) = filesystem_unregister v p;
          (unmounted_open, v) = vfs_unmount v p;
          (closed, v) = vfs_close v file;
          (unmounted, v) = vfs_unmount v p;
          count = vt_unmount_count (vfs_world v);
          (unregistered, v) = filesystem_unregister v p
      in ([unregistered_active, unmounted_open, \<not> closed, \<not> unmounted, count \<noteq> 1, \<not> unregistered], v))"

definition vfs_self_test ::
  "ptr \<Rightarrow> ptr \<Rightarrow> vfs_file_t \<Rightarrow> u8 list \<Rightarrow> initrafs_disk_dirent_t list \<Rightarrow> vfs_test_state vfs
     \<Rightarrow> bool \<times> bool list \<times> vfs_test_state vfs" where
  "vfs_self_test p device at_null read_buffer directory_entry v =
     (let (carried, v) = identity_test (v\<lparr>vfs_world := test_statics\<rparr>)
      in if \<not> carried then (False, [], v)
         else
           let inode = zero_fs_inode\<lparr>fi_inode_number := 2, fi_type := INODE_TYPE_FILE, fi_mode := 0x1A4, fi_link_count := 1\<rparr>;
               v = v\<lparr>vfs_world := (vfs_world v)\<lparr>vt_inode := inode\<rparr>,
                     vfs_filesystem_at := (vfs_filesystem_at v)(p := test_filesystem_record)\<rparr>;
               (mount_failures, v) = mount_checks p device v;
               (file_failures, file, v) = file_checks at_null read_buffer v;
               (directory_failures, v) = directory_checks directory_entry v;
               (unmount_failures, v) = unmount_checks p file v
           in (True, mount_failures @ file_failures @ directory_failures @ unmount_failures, v))"

definition vfs_test :: "ptr \<Rightarrow> ptr \<Rightarrow> vfs_file_t \<Rightarrow> u8 list \<Rightarrow> initrafs_disk_dirent_t list \<Rightarrow> vfs_test_state vfs
     \<Rightarrow> string list \<times> vfs_test_state vfs" where
  "vfs_test p device at_null read_buffer directory_entry v =
     (let (passed, failures, v) = vfs_self_test p device at_null read_buffer directory_entry v
      in (if passed then [''[InitraOS] VFS_IDENTITY_OK'', ''[InitraOS] VFS_OK''] else [''[InitraOS] VFS_FAIL''], v))"

subsection \<open>The checks\<close>

lemma identity_test_ok: "identity_test v = (True, v\<lparr>vfs_caller_uid := 0, vfs_caller_gid := 0\<rparr>)"
  by (simp add: identity_test_def vfs_set_caller_identity_def vfs_get_caller_identity_def)

lemma find_slot_first:
  assumes "i < length xs" "P (xs ! i)" "\<And>j. j < i \<Longrightarrow> \<not> P (xs ! j)"
  shows "find_slot P xs 0 = Some i"
proof -
  have "find_slot P xs 0 \<noteq> None" using assms(1,2) by (auto simp: find_slot_None)
  then obtain k where k: "find_slot P xs 0 = Some k" by blast
  show ?thesis using find_slot_Some [OF k] assms k by (metis linorder_neqE_nat)
qed

lemma mount_checks_ok:
  assumes i: "find_slot (\<lambda>q. q = NULL) (vfs_filesystems v) 0 = Some i"
    and p: "p \<noteq> NULL" "p \<notin> set (vfs_filesystems v)" "vfs_filesystem_at v p = test_filesystem_record"
    and v: "vfs_active_filesystem v = NULL" "device \<noteq> NULL" "vt_mount_count (vfs_world v) = 0"
  shows "mount_checks p device v = ([False, False, False, False],
    v\<lparr>vfs_filesystems := (vfs_filesystems v)[i := p], vfs_active_filesystem := p,
      vfs_world := (vfs_world v)\<lparr>vt_mount_count := 1\<rparr>\<rparr>)"
proof -
  have "i < length (vfs_filesystems v)" using find_slot_Some [OF i] by simp
  then have "p \<in> set ((vfs_filesystems v)[i := p])" by (simp add: set_update_memI)
  then show ?thesis using assms
    by (simp add: mount_checks_def filesystem_register_def vfs_filesystem_is_registered_def list_ex_iff vfs_mount_def
        test_filesystem_record_def vfs_test_mount_def)
qed

lemma file_checks_ok:
  assumes m: "vfs_active_filesystem v = p" "vfs_filesystem_at v p = test_filesystem_record" "p \<noteq> NULL"
    and f: "vfs_open_files v = f # fs" "vf_inode f = NULL"
    and w: "fi_size (vt_inode (vfs_world v)) = 0" "length (vt_data (vfs_world v)) = 128" and b: "length read_buffer = 16"
  shows "\<exists>w'. file_checks at_null read_buffer v = (replicate 11 False, Some 0,
      v\<lparr>vfs_world := w', vfs_open_files := \<lparr>vf_inode = vfs_test_inode, vf_position = 5, vf_flags = 0, vf_filesystem_private = NULL\<rparr> # fs\<rparr>) \<and>
    vt_mkdir_count w' = vt_mkdir_count (vfs_world v) \<and> vt_rmdir_count w' = vt_rmdir_count (vfs_world v) \<and>
    vt_remove_count w' = vt_remove_count (vfs_world v) \<and> vt_unmount_count w' = vt_unmount_count (vfs_world v)"
proof -
  obtain a0 a1 a2 a3 a4 d where d: "vt_data (vfs_world v) = a0 # a1 # a2 # a3 # a4 # d"
    using w(2) by (auto simp: numeral_eq_Suc length_Suc_conv)
  obtain b0 b1 b2 b3 b4 c where b: "read_buffer = b0 # b1 # b2 # b3 # b4 # c"
    using b by (auto simp: numeral_eq_Suc length_Suc_conv)
  note eval = vfs_open_def active_lookup_def vfs_file_slot_def active_def vfs_write_def vfs_read_def vfs_seek_def
    vfs_file_is_open_def set_file_def advance_def test_filesystem_record_def vfs_test_lookup_def vfs_test_inode_def
    vfs_test_write_def vfs_test_read_def sizeof_test_data_def vfs_get_caller_identity_def blit_def cstr_at_def
  have u: "[0..<5] = [0, 1, 2, 3, 4 :: nat]" by (simp add: upt_rec)
  have r: "replicate 11 False = [False, False, False, False, False, False, False, False, False, False, False]"
    by (simp add: numeral_eq_Suc)
  show ?thesis
    by (rule exI [of _ "(vfs_world v)\<lparr>vt_data := 0x68 # 0x65 # 0x6C # 0x6C # 0x6F # d,
        vt_inode := (vt_inode (vfs_world v))\<lparr>fi_size := 5\<rparr>\<rparr>"])
      (use m f w(1) d b in \<open>simp add: file_checks_def Let_def eval u r\<close>)
qed

lemma directory_checks_ok:
  assumes "vfs_active_filesystem v = p" "vfs_filesystem_at v p = test_filesystem_record" "p \<noteq> NULL"
    and "vt_mkdir_count (vfs_world v) = 0" "vt_rmdir_count (vfs_world v) = 0" "vt_remove_count (vfs_world v) = 0"
    and "length directory_entry = 1"
  shows "\<exists>w'. directory_checks directory_entry v = ([False, False], v\<lparr>vfs_world := w'\<rparr>) \<and>
    vt_unmount_count w' = vt_unmount_count (vfs_world v)"
proof -
  obtain e where e: "directory_entry = [e]" using assms(7) by (auto simp: length_Suc_conv)
  have b: "u32_bytes (u32_of_bytes 0x74 0x65 0x73 0x74) ! 0 = 0x74" "u32_bytes (u32_of_bytes 0x74 0x65 0x73 0x74) ! 3 = 0x74"
    by code_simp+
  show ?thesis
    by (rule exI [of _ "(vfs_world v)\<lparr>vt_mkdir_count := 1, vt_rmdir_count := 1, vt_remove_count := 1\<rparr>"])
      (use assms(1-6) e b in \<open>simp add: directory_checks_def Let_def vfs_readdir_def vfs_mkdir_def vfs_rmdir_def vfs_unlink_def
        path_op_def active_def test_filesystem_record_def vfs_test_readdir_def vfs_test_mkdir_def vfs_test_rmdir_def
        vfs_test_remove_def test_entry_def\<close>)
qed

lemma unmount_checks_ok:
  assumes x: "vfs_filesystems v = xs[i := p]" "i < length xs" "xs ! i = NULL" "p \<notin> set xs"
    and m: "vfs_active_filesystem v = p" "vfs_filesystem_at v p = test_filesystem_record" "p \<noteq> NULL"
    and f: "vfs_open_files v = f # fs" "vf_inode f \<noteq> NULL" "list_all (\<lambda>f. vf_inode f = NULL) fs"
    and w: "vt_unmount_count (vfs_world v) = 0"
  shows "unmount_checks p (Some 0) v = (replicate 6 False,
    v\<lparr>vfs_world := (vfs_world v)\<lparr>vt_unmount_count := 1\<rparr>, vfs_active_filesystem := NULL, vfs_filesystems := xs,
      vfs_open_files := \<lparr>vf_inode = NULL, vf_position = 0, vf_flags = 0, vf_filesystem_private = NULL\<rparr> # fs\<rparr>)"
proof -
  have s: "find_slot (\<lambda>q. q = p) (xs[i := p]) 0 = Some i"
    by (rule find_slot_first) (use x(2,4) in \<open>auto simp: nth_list_update dest: nth_mem\<close>)
  have mem: "p \<in> set (xs[i := p])" using x(2) by (simp add: set_update_memI)
  have un: "xs[i := NULL] = xs" using x(3) by (metis list_update_id)
  have no: "\<not> list_ex (\<lambda>f. vf_inode f \<noteq> NULL) fs" using f(3) by (auto simp: list_ex_iff list_all_iff)
  have r: "replicate 6 False = [False, False, False, False, False, False]" by (simp add: numeral_eq_Suc)
  show ?thesis using x(1) m f(1,2) w s mem un no
    by (simp add: unmount_checks_def Let_def filesystem_unregister_def vfs_filesystem_is_registered_def list_ex_iff
        vfs_unmount_def vfs_close_def vfs_file_is_open_def set_file_def test_filesystem_record_def vfs_test_unmount_def r)
qed

text \<open>Where nothing is mounted and a slot is free, no check fails and the tables end as they were.\<close>

lemma vfs_self_test_idle:
  assumes p: "p \<noteq> NULL" "p \<notin> registered v" "device \<noteq> NULL" and b: "length read_buffer = 16" "length directory_entry = 1"
    and v: "vfs_ok v" "vfs_active_filesystem v = NULL" "NULL \<in> set (vfs_filesystems v)"
  shows "\<exists>v'. vfs_self_test p device at_null read_buffer directory_entry v = (True, replicate 23 False, v') \<and>
    vfs_ok v' \<and> vfs_filesystems v' = vfs_filesystems v \<and> vfs_active_filesystem v' = NULL \<and> \<not> some_file_open v' \<and>
    vfs_get_caller_identity v' = (0, 0)"
proof -
  let ?xs = "vfs_filesystems v" and ?inode = "zero_fs_inode\<lparr>fi_inode_number := 2, fi_type := INODE_TYPE_FILE, fi_mode := 0x1A4, fi_link_count := 1\<rparr>"
  obtain i where i: "find_slot (\<lambda>q. q = NULL) ?xs 0 = Some i"
    using v(3) by (cases "find_slot (\<lambda>q. q = NULL) ?xs 0") (auto simp: find_slot_None)
  then have x: "i < length ?xs" "?xs ! i = NULL" using find_slot_Some [OF i] by simp_all
  have np: "p \<notin> set ?xs" using p(1,2) by (simp add: registered_def)
  have "length (vfs_open_files v) = 32" "\<forall>f \<in> set (vfs_open_files v). vf_inode f = NULL"
    using v(1,2) by (auto simp: vfs_ok_def some_file_open_def)
  then obtain f fs where f: "vfs_open_files v = f # fs" "vf_inode f = NULL" "list_all (\<lambda>f. vf_inode f = NULL) fs" "length fs = 31"
    by (cases "vfs_open_files v") (auto simp: list_all_iff)
  define v1 where "v1 = v\<lparr>vfs_caller_uid := 0, vfs_caller_gid := 0, vfs_world := test_statics\<lparr>vt_inode := ?inode\<rparr>,
      vfs_filesystem_at := (vfs_filesystem_at v)(p := test_filesystem_record)\<rparr>"
  define v2 where "v2 = v1\<lparr>vfs_filesystems := ?xs[i := p], vfs_active_filesystem := p,
      vfs_world := (vfs_world v1)\<lparr>vt_mount_count := 1\<rparr>\<rparr>"
  have M: "mount_checks p device v1 = ([False, False, False, False], v2)"
    using mount_checks_ok [of v1 i p device] i p np v(2) by (simp add: test_statics_def v1_def v2_def)
  obtain v3 w3 where F: "file_checks at_null read_buffer v2 = (replicate 11 False, Some 0, v3)"
    "v3 = v2\<lparr>vfs_world := w3,
      vfs_open_files := \<lparr>vf_inode = vfs_test_inode, vf_position = 5, vf_flags = 0, vf_filesystem_private = NULL\<rparr> # fs\<rparr>"
    "vt_mkdir_count w3 = 0" "vt_rmdir_count w3 = 0" "vt_remove_count w3 = 0" "vt_unmount_count w3 = 0"
    using file_checks_ok [of v2 p f fs read_buffer at_null] p f b(1) by (auto simp: test_statics_def zero_fs_inode_def v1_def v2_def)
  have v3: "vfs_active_filesystem v3 = p" "vfs_filesystem_at v3 p = test_filesystem_record" "vfs_world v3 = w3"
    by (simp_all add: F(2) v2_def v1_def)
  obtain v4 w4 where D: "directory_checks directory_entry v3 = ([False, False], v4)" "v4 = v3\<lparr>vfs_world := w4\<rparr>" "vt_unmount_count w4 = 0"
    using directory_checks_ok [of v3 p directory_entry] p b(2) F(3-6) v3 by auto
  let ?closed = "\<lparr>vf_inode = NULL, vf_position = 0, vf_flags = 0, vf_filesystem_private = NULL\<rparr>"
  define v5 where "v5 = v4\<lparr>vfs_world := w4\<lparr>vt_unmount_count := 1\<rparr>, vfs_active_filesystem := NULL, vfs_filesystems := ?xs,
      vfs_open_files := ?closed # fs\<rparr>"
  have v4: "vfs_filesystems v4 = ?xs[i := p]" "vfs_active_filesystem v4 = p" "vfs_filesystem_at v4 p = test_filesystem_record"
    "vfs_open_files v4 = \<lparr>vf_inode = vfs_test_inode, vf_position = 5, vf_flags = 0, vf_filesystem_private = NULL\<rparr> # fs"
    by (simp_all add: D(2) F(2) v2_def v1_def)
  have U: "unmount_checks p (Some 0) v4 = (replicate 6 False, v5)"
    using unmount_checks_ok [of v4 ?xs i p _ fs] v4 x np p f(3) D(2,3) by (simp add: vfs_test_inode_def v5_def)
  have r: "[False, False, False, False] @ replicate 11 False @ [False, False] @ replicate 6 False = replicate 23 False"
    by (simp add: numeral_eq_Suc)
  have "vfs_self_test p device at_null read_buffer directory_entry v =
      (let (mount_failures, v) = mount_checks p device v1;
           (file_failures, file, v) = file_checks at_null read_buffer v;
           (directory_failures, v) = directory_checks directory_entry v;
           (unmount_failures, v) = unmount_checks p file v
       in (True, mount_failures @ file_failures @ directory_failures @ unmount_failures, v))"
    by (simp add: vfs_self_test_def identity_test_ok v1_def Let_def)
  then have "vfs_self_test p device at_null read_buffer directory_entry v = (True, replicate 23 False, v5)"
    unfolding M F(1) D(1) U Let_def prod.case r .
  moreover have "vfs_filesystems v5 = ?xs" "vfs_active_filesystem v5 = NULL" "vfs_open_files v5 = ?closed # fs"
    "vfs_get_caller_identity v5 = (0, 0)"
    by (simp_all add: v5_def D(2) F(2) v2_def v1_def vfs_get_caller_identity_def)
  ultimately show ?thesis using v(1) f(3,4)
    by (intro exI [of _ v5]) (auto simp: vfs_ok_def registered_def some_file_open_def list_all_iff)
qed

subsection \<open>Properties\<close>

text \<open>
  C23: \<open>vfs_test\<close> always reports success, whatever state the VFS is in: when another
  file system is mounted at least one of the 23 checks behind empty branches fails, and
  nothing says so. Where nothing is mounted and the table has a free slot, all the
  checks hold: a file written through the VFS is read back, the position moves, reading
  at the end gives nothing, every directory operation reaches the mounted file system
  once, and a file system in use can be neither unmounted nor unregistered; afterwards
  the tables are as they were, with no file open and the caller root.
\<close>

theorem vfs_self_test_blind:
  assumes "p \<noteq> NULL" "device \<noteq> NULL" "length read_buffer = 16" "length directory_entry = 1"
  shows "fst (vfs_test p device at_null read_buffer directory_entry v) = [''[InitraOS] VFS_IDENTITY_OK'', ''[InitraOS] VFS_OK''] \<and>
    (vfs_active_filesystem v \<noteq> NULL \<longrightarrow> True \<in> set (fst (snd (vfs_self_test p device at_null read_buffer directory_entry v)))) \<and>
    (vfs_ok v \<and> vfs_active_filesystem v = NULL \<and> p \<notin> registered v \<and> NULL \<in> set (vfs_filesystems v) \<longrightarrow>
      (\<exists>v'. vfs_self_test p device at_null read_buffer directory_entry v = (True, replicate 23 False, v') \<and>
        vfs_ok v' \<and> vfs_filesystems v' = vfs_filesystems v \<and> vfs_active_filesystem v' = NULL \<and> \<not> some_file_open v' \<and>
        vfs_get_caller_identity v' = (0, 0)))"
proof (intro conjI impI)
  show "fst (vfs_test p device at_null read_buffer directory_entry v) = [''[InitraOS] VFS_IDENTITY_OK'', ''[InitraOS] VFS_OK'']"
    by (simp add: vfs_test_def vfs_self_test_def identity_test_ok Let_def split_beta)
  have keep: "vfs_active_filesystem (snd (filesystem_register u q)) = vfs_active_filesystem u" for u :: "vfs_test_state vfs" and q
    by (simp add: filesystem_register_def split: option.split)
  have "True \<in> set (fst (mount_checks p device u))" if "vfs_active_filesystem u \<noteq> NULL" for u
    using that keep [of u p] keep [of "snd (filesystem_register u p)" p] by (simp add: mount_checks_def vfs_mount_def split_beta Let_def)
  then show "True \<in> set (fst (snd (vfs_self_test p device at_null read_buffer directory_entry v)))"
    if "vfs_active_filesystem v \<noteq> NULL"
    using that by (simp add: vfs_self_test_def identity_test_ok Let_def split_beta)
qed (use vfs_self_test_idle assms in blast)

definition ex_null_file :: vfs_file_t where
  "ex_null_file = \<lparr>vf_inode = NULL, vf_position = 0, vf_flags = 0, vf_filesystem_private = NULL\<rparr>"

theorem vfs_self_test_blind_witness:
  "fst (vfs_test 2 3 ex_null_file (replicate 16 0) [zero_dirent] (vfs_boot test_statics (\<lambda>_. test_filesystem_record))) =
     [''[InitraOS] VFS_IDENTITY_OK'', ''[InitraOS] VFS_OK''] \<and>
   fst (snd (vfs_self_test 2 3 ex_null_file (replicate 16 0) [zero_dirent] (vfs_boot test_statics (\<lambda>_. test_filesystem_record)))) =
     replicate 23 False"
proof -
  let ?v = "vfs_boot test_statics (\<lambda>_. test_filesystem_record)"
  have v: "vfs_ok ?v" "vfs_active_filesystem ?v = NULL" "2 \<notin> registered ?v" "NULL \<in> set (vfs_filesystems ?v)"
    by (rule vfs_boot_ok) (auto simp: vfs_boot_def registered_def)
  have "(2 :: ptr) \<noteq> NULL" "(3 :: ptr) \<noteq> NULL" "length (replicate 16 (0 :: u8)) = 16" "length [zero_dirent] = 1" by simp_all
  from vfs_self_test_blind [OF this, of ex_null_file ?v] v show ?thesis by auto
qed

end
