(* ===== verification/Spec2Isabelle.thy ===== *)
theory Spec2Isabelle
  imports Fs_Properties Volume_Properties Vfs_Properties Security_Core Syscalls Shell_Filesystem Shell_Round User_Mode
    Fs_Self_Tests Kernel_Self_Tests Security_Self_Tests Vfs_Self_Tests
    Process_Self_Tests Vfs_Runtime_Test
begin

text \<open>
  A verification development for InitraOS, a 32-bit operating system in C with a
  file system of its own (InitraFS), a virtual file system on top of it, a kernel
  heap over paging, tasks and processes, system calls with an audit log, and a
  keyboard-driven shell that launches programs in user mode.

  \<^bold>\<open>The parts and how they interact.\<close> The shell (\<open>kernel.c\<close>) reads keys and
  launches utilities; a launch loads an image into the user pages, allocates a
  task and a context in the kernel heap, switches to the task and destroys it. A
  running program calls the dispatcher, which reads the state of the kernel, the
  audit log and, through the VFS, the metadata of files. The VFS (\<open>fs/vfs.c\<close>)
  dispatches to the InitraFS functions (\<open>fs/initrafs.c\<close>), which work on
  instances: two bitmap allocators, a registry of nodes, directories, inodes with
  a checksum, and files on a block device. The kernel heap maps its pages through
  the page tables and takes their frames from the frame allocator.

  \<^bold>\<open>Theories and code.\<close>
  \<^item> \<open>InitraOS_Prelude\<close>: types, collections of rules (\<open>layout\<close> and others), facts
    on words, bytes, bitmaps and C strings. \<open>Linked_Chain\<close>: NULL-terminated lists
    linked through a field. \<open>Unit_Allocator\<close>: the contracts \<open>unit_bitmap\<close> and
    \<open>unit_allocator\<close> that the block, inode and frame allocators share.
  \<^item> \<open>Fs_Format\<close>, \<open>Superblock\<close>, \<open>Inode_Integrity\<close>, \<open>Block_Allocator\<close>,
    \<open>Inode_Allocator\<close>, \<open>Inodes\<close>, \<open>Directory\<close>, \<open>Block_Map\<close>, \<open>File_IO\<close>,
    \<open>Namespace\<close>, \<open>Paths\<close>, \<open>Path_Remove\<close>, \<open>Instance\<close>, \<open>Vfs_Adapter\<close>: the
    functions of \<open>fs/initrafs.c\<close> in the order of the file, with the structures of
    \<open>fs/format.h\<close>, \<open>fs/inode.h\<close>, \<open>fs/initrafs.h\<close> and \<open>fs/fs.h\<close>.
  \<^item> \<open>Block_Device\<close>: \<open>fs/block.h\<close>, the contract \<open>reliable_device\<close> and the RAM disk
    of \<open>kernel.c\<close>. \<open>File_Content\<close>: the byte contents of files over such a device.
  \<^item> \<open>Vfs\<close>: \<open>fs/vfs.c\<close>, with the reachable states as an inductive predicate over
    arbitrary calls.
  \<^item> \<open>Security_Core\<close>: \<open>security.c\<close>, authorization and the ring of audit events.
  \<^item> \<open>Frame_Allocator\<close>, \<open>Paging\<close>: page frames, page tables and the pages of the
    heap. \<open>Kernel_Heap\<close>, \<open>Heap_Blocks\<close>, \<open>Paged_Heap\<close>: the two heaps;
    \<open>Kernel_Memory\<close>: their common contract \<open>block_store\<close>, interpreted on them.
  \<^item> \<open>Tasks\<close>, \<open>Task_Lists\<close>, \<open>Task_Life\<close>, \<open>Process_Life\<close>: tasks, processes, address
    spaces and the scheduler, as clients of \<open>block_store\<close>.
  \<^item> \<open>User_Programs\<close>: the loader of user images. \<open>Syscalls\<close>: the dispatcher.
  \<^item> \<open>Shell\<close>, \<open>Shell_Utilities\<close>, \<open>Shell_Filesystem\<close>, \<open>Shell_Round\<close>: screen, keyboard
    and shell, the launch of the utilities, the file system they use and a round
    of the main loop.
  \<^item> \<open>User_Mode\<close>: what a program in ring 3 can do between its start and its exit
    (\<open>user_step\<close>: a store the page tables permit, or a system call), what no sequence
    of such steps can change, and \<open>syscall_exit\<close>.
  \<^item> \<open>Kernel_Self_Tests\<close>, \<open>Process_Self_Tests\<close>, \<open>Fs_Self_Tests\<close>,
    \<open>Security_Self_Tests\<close>, \<open>Vfs_Self_Tests\<close>, \<open>Vfs_Runtime_Test\<close>: the tests that \<open>kernel_main\<close> runs at boot. Each is a
    function of the memory it finds, its uninitialised locals included, to the lines
    it prints and the state it leaves.
  \<^item> The properties stand in \<open>Fs_Properties\<close>, \<open>Volume_Properties\<close>,
    \<open>Vfs_Properties\<close>, \<open>Memory_Properties\<close>, \<open>Heap_Properties\<close>, \<open>Task_Properties\<close> and
    at the end of the other theories; \<open>Example_Volume\<close> and \<open>Example_Mount\<close> are the
    concrete volumes of their witnesses.

  \<^bold>\<open>How the code is represented.\<close> \<open>unsigned int\<close> is \<open>u32\<close> and wraps; a structure is a
  record with the source's fields; an object reached through a pointer is the
  value of a function at its address, and 0 is NULL; an argument that is only
  tested for NULL is a boolean; a function that writes through its arguments
  returns what it wrote, an early return without effect is \<open>None\<close> or the
  unchanged state. In the kernel, a result \<open>None\<close> is a page fault or a loop that
  does not end (\<open>chain_find\<close>, a \<open>partial_function\<close>); the properties show that
  neither happens. Memory bytes are read and written through the page tables of the
  kernel (\<open>translate\<close>), while the records the kernel keeps on its heap are kept by
  address beside these bytes: that a write to user memory spares them is
  \<open>syscall_memory_safe\<close>, where the pages are the user's own.

  \<^bold>\<open>What the lemmas show.\<close> Every component has an invariant (\<open>block_allocator_ok\<close>,
  \<open>dir_ok\<close>, \<open>file_ok\<close>, \<open>tree_ok\<close>, \<open>volume_ok\<close>, \<open>instance_ok\<close>, \<open>vfs_ok\<close>,
  \<open>audit_ok\<close>, \<open>vm_owned\<close>, \<open>heap_ok\<close>, \<open>paged_ok\<close>, \<open>kernel_heap_ok\<close>, \<open>kernel_ok\<close>,
  \<open>shell_ok\<close>), an abstraction (the set of free units, a directory as a map, a file
  as its bytes, a volume as a tree of directories, the open files as a map, the log
  as a list, the heap as the map of blocks in use, the list of tasks, the line
  editor), and one lemma per operation that gives its effect on the abstraction
  for every outcome. The properties compose these.

  \<^bold>\<open>Termination, bounds and fuel.\<close> Loops over an index or a shrinking remainder are
  \<open>function\<close>s with a measure; loops over the bytes of a page or a string, and the
  scheduler's walk, are bounded by what they walk. No definition uses fuel. The
  heap properties hold for sizes up to 0xFFFFFFF0 (above, the source's sums
  wrap), those of the block allocator up to 2^32 - 8 blocks.

  \<^bold>\<open>Not modelled, and why.\<close> The boot sectors, interrupt stubs, the task switch and
  the user programs are assembly: linker symbols and entering a program are
  parameters (\<open>user_images\<close>, \<open>run\<close> with the contract \<open>comes_back\<close>, which every
  program made of \<open>user_step\<close>s that exits fulfils). Keys that
  arrive while a utility runs are not interleaved with it. Serial output,
  \<open>page_invalidate\<close>, \<open>paging_enable\<close> and \<open>kernel64.c\<close> act on the hardware only.
  Some self-tests are left out: \<open>heap_dynamic_test\<close>, \<open>user_stack_test\<close>,
  \<open>syscall_memory_test\<close>, \<open>initrafs_file_io_test\<close> and \<open>initrafs_vfs_test\<close>;
  they run modelled operations on fixed data, as \<open>kernel_main\<close> does up to its loop. The scripts under
  \<open>tools/\<close> build and start the disk image.
\<close>

end
